(* ===== verification/Mqtt_Prelude.thy ===== *)
theory Mqtt_Prelude
  imports Main "HOL-Library.Word" "HOL-Library.Monad_Syntax"
begin

text \<open>
  Shared vocabulary of the development: machine types, error codes, checked access to
  byte buffers and the generic lemmas the components use.

  A C function that touches memory is a function into \<open>option\<close>: \<open>None\<close> is an access
  outside the object (undefined behaviour) or, for the few loops that may not end (over a
  random source, over a block of properties, and in the client), no return; \<open>Some x\<close> is a normal return of \<open>x\<close>. A returned pointer into a buffer is its
  offset, a nullable pointer an \<open>option\<close> of its own, and a C string is the list of its
  bytes before the terminating zero, so that \<open>strlen s\<close> is \<open>length s\<close>.
\<close>

unbundle bit_operations_syntax

type_synonym byte = "8 word"
type_synonym cstring = "byte list"

text \<open>Error codes of type \<open>esp_err_t\<close> that the sources return.\<close>

datatype esp_err =
    ESP_OK | ESP_FAIL | ESP_ERR_NO_MEM | ESP_ERR_INVALID_ARG | ESP_ERR_INVALID_STATE
  | ESP_ERR_NOT_SUPPORTED | ESP_ERR_TIMEOUT
  | ESP_ERR_EMQTT_OUTBOX_FULL | ESP_ERR_EMQTT_TIME_REQUIRED

named_theorems mem_simps \<open>rewriting of checked buffer accesses\<close>
named_theorems conn_simps \<open>frame facts of operations on a connection\<close>

section \<open>Checked buffers\<close>

text \<open>A read of one byte and a copy of a block of bytes into a buffer.\<close>

definition load :: "byte list \<Rightarrow> nat \<Rightarrow> byte option" where
  "load b i = (if i < length b then Some (b ! i) else None)"

definition store :: "byte list \<Rightarrow> nat \<Rightarrow> byte list \<Rightarrow> byte list option" where
  "store b i bs =
     (if i + length bs \<le> length b
      then Some (take i b @ bs @ drop (i + length bs) b) else None)"

text \<open>The first \<open>n\<close> bytes behind a source pointer, as \<open>memcpy\<close> reads them.\<close>

definition fetch :: "byte list \<Rightarrow> nat \<Rightarrow> byte list option" where
  "fetch src n = (if n \<le> length src then Some (take n src) else None)"

lemma load_Some [mem_simps]: "i < length b \<Longrightarrow> load b i = Some (b ! i)"
  by (simp add: load_def)

lemma load_eq_Some: "load b i = Some v \<longleftrightarrow> i < length b \<and> v = b ! i"
  by (auto simp: load_def)

lemma store_Some [mem_simps]:
  "i + length bs \<le> length b \<Longrightarrow> store b i bs = Some (take i b @ bs @ drop (i + length bs) b)"
  by (simp add: store_def)

lemma store_eq_Some:
  "store b i bs = Some b' \<longleftrightarrow>
     i + length bs \<le> length b \<and> b' = take i b @ bs @ drop (i + length bs) b"
  by (auto simp: store_def)

lemma store_length: "store b i bs = Some b' \<Longrightarrow> length b' = length b"
  by (auto simp: store_eq_Some)

lemma store_take_end:
  "store b i bs = Some b' \<Longrightarrow> take (i + length bs) b' = take i b @ bs"
  by (auto simp: store_eq_Some)

lemma store_take_before:
  "store b i bs = Some b' \<Longrightarrow> j \<le> i \<Longrightarrow> take j b' = take j b"
  by (auto simp: store_eq_Some min_def)

lemma store_drop_after:
  "store b i bs = Some b' \<Longrightarrow> i + length bs \<le> j \<Longrightarrow> drop j b' = drop j b"
  by (auto simp: store_eq_Some drop_append)

lemma fetch_all [mem_simps]: "fetch src (length src) = Some src"
  by (simp add: fetch_def)

lemma fetch_Some [mem_simps]: "n \<le> length src \<Longrightarrow> fetch src n = Some (take n src)"
  by (simp add: fetch_def)

section \<open>Two-byte big-endian fields\<close>

text \<open>\<open>b[i] = n >> 8; b[i + 1] = n & 0xff\<close> and its inverse \<open>(b[i] << 8) | b[i + 1]\<close>.\<close>

definition be16 :: "nat \<Rightarrow> byte list" where
  "be16 n = [of_nat (n div 256), of_nat n]"

definition be16_val :: "byte \<Rightarrow> byte \<Rightarrow> nat" where
  "be16_val hi lo = (push_bit 8 (unat hi) OR unat lo)"

lemma length_be16 [simp]: "length (be16 n) = 2"
  by (simp add: be16_def)

lemma unat_byte_less [simp]: "unat (b :: byte) < 256"
  using unsigned_less [of b, where ?'a = nat] by simp

lemma nat_or_add_disjoint:
  assumes "m < 2 ^ k"
  shows "(push_bit k n OR m :: nat) = n * 2 ^ k + m"
proof -
  have m: "take_bit k m = m"
    using assms by (simp add: take_bit_eq_mod)
  have "push_bit k n AND m = 0"
    by (subst m [symmetric]) (auto intro!: bit_eqI simp: bit_simps)
  then have "push_bit k n + m = (push_bit k n OR m)"
    by (rule disjunctive_add_eq_or)
  then show ?thesis
    by (simp add: push_bit_eq_mult)
qed

lemma be16_val_eq: "be16_val hi lo = unat hi * 256 + unat lo"
  using nat_or_add_disjoint [of "unat lo" 8 "unat hi"] by (simp add: be16_val_def)

lemma be16_val_less: "be16_val hi lo < 65536"
proof -
  have "unat hi \<le> 255" "unat lo \<le> 255"
    using unat_byte_less [of hi] unat_byte_less [of lo] by linarith+
  then show ?thesis by (simp add: be16_val_eq)
qed

lemma be16_val_be16:
  "n < 65536 \<Longrightarrow> be16_val (of_nat (n div 256)) (of_nat n) = n"
  by (simp add: be16_val_eq unat_of_nat take_bit_eq_mod)

lemma unat_id_less [simp]: "unat (m :: 16 word) < 65536"
  using unsigned_less [of m, where ?'a = nat] by simp

lemma be16_val_unat: "be16_val (of_nat (unat m div 256)) (of_nat (unat (m :: 16 word))) = unat m"
  by (rule be16_val_be16) simp

section \<open>Zero-terminated strings\<close>

text \<open>\<^verbatim>\<open>strlen\<close>: the position of the first zero byte, or no result when there is none.\<close>

fun strlen :: "byte list \<Rightarrow> nat option" where
  "strlen [] = None"
| "strlen (c # cs) = (if c = 0 then Some 0 else map_option Suc (strlen cs))"

lemma strlen_append [simp]: "0 \<notin> set s \<Longrightarrow> strlen (s @ 0 # r) = Some (length s)"
  by (induction s) auto

end
