(* ===== verification/Mqtt_Event.thy ===== *)
theory Mqtt_Event
  imports Mqtt_Prelude
begin

text \<open>
  The public types of \<^verbatim>\<open>include/mqtt_client.h\<close> through which the client reports: event
  identifiers, error codes and the event structure. Borrowed pointers are options of the
  bytes behind them.
\<close>

datatype esp_mqtt_protocol_ver =
  MQTT_PROTOCOL_UNDEFINED | MQTT_PROTOCOL_V_3_1 | MQTT_PROTOCOL_V_3_1_1 | MQTT_PROTOCOL_V_5

datatype esp_mqtt_event_id =
    MQTT_EVENT_ANY | MQTT_EVENT_ERROR | MQTT_EVENT_CONNECTED | MQTT_EVENT_DISCONNECTED
  | MQTT_EVENT_SUBSCRIBED | MQTT_EVENT_UNSUBSCRIBED | MQTT_EVENT_PUBLISHED | MQTT_EVENT_DATA
  | MQTT_EVENT_BEFORE_CONNECT | MQTT_EVENT_DELETED | MQTT_USER_EVENT

datatype esp_mqtt_error_type =
    MQTT_ERROR_TYPE_NONE | MQTT_ERROR_TYPE_TCP_TRANSPORT | MQTT_ERROR_TYPE_CONNECTION_REFUSED
  | MQTT_ERROR_TYPE_SUBSCRIBE_FAILED

abbreviation (input) MQTT_CONNECTION_ACCEPTED :: int where "MQTT_CONNECTION_ACCEPTED \<equiv> 0"
abbreviation (input) MQTT_CONNECTION_REFUSE_BAD_USERNAME :: int where "MQTT_CONNECTION_REFUSE_BAD_USERNAME \<equiv> 4"
abbreviation (input) MQTT_CONNECTION_REFUSE_NOT_AUTHORIZED :: int where "MQTT_CONNECTION_REFUSE_NOT_AUTHORIZED \<equiv> 5"

record esp_mqtt_error_codes =
  esp_tls_last_esp_err :: int
  esp_tls_stack_err :: int
  esp_tls_cert_verify_flags :: int
  error_type :: esp_mqtt_error_type
  connect_return_code :: int
  esp_transport_sock_errno :: int

record esp_mqtt_event =
  event_id :: esp_mqtt_event_id
  event_data :: "byte list option"
  event_data_len :: int
  event_total_data_len :: int
  event_current_data_offset :: int
  event_topic :: "byte list option"
  event_topic_len :: int
  event_msg_id :: int
  event_session_present :: int
  event_error_handle :: "esp_mqtt_error_codes option"
  event_retain :: bool
  event_qos :: int
  event_dup :: bool
  event_protocol_ver :: esp_mqtt_protocol_ver

section \<open>Configuration\<close>

datatype esp_mqtt_transport =
    MQTT_TRANSPORT_UNKNOWN | MQTT_TRANSPORT_OVER_TCP | MQTT_TRANSPORT_OVER_SSL | MQTT_TRANSPORT_OVER_WS
  | MQTT_TRANSPORT_OVER_WSS

text \<open>
  The configuration of a client, without the fields that only select TLS material and
  peripherals for the transport layer. Null pointers are \<open>None\<close>.
\<close>

record esp_mqtt_client_config =
  address_uri :: "byte list option"
  address_hostname :: "byte list option"
  address_transport :: esp_mqtt_transport
  address_path :: "byte list option"
  address_port :: nat
  verification_certificate :: "byte list option"
  verification_skip_cert_common_name_check :: bool
  credentials_username :: "byte list option"
  credentials_client_id :: "byte list option"
  credentials_set_null_client_id :: bool
  credentials_password :: "byte list option"
  will_topic_ptr :: "byte list option"
  will_msg_ptr :: "byte list option"
  will_msg_len :: int
  will_qos_cfg :: int
  will_retain_cfg :: int
  session_disable_clean_session :: bool
  session_keepalive :: int
  session_disable_keepalive :: bool
  session_protocol_ver :: esp_mqtt_protocol_ver
  session_message_retransmit_timeout :: int
  network_reconnect_timeout_ms :: int
  network_timeout_ms :: int
  network_refresh_connection_after_ms :: int
  network_disable_auto_reconnect :: bool
  task_priority :: int
  task_stack_size :: int
  buffer_size_cfg :: int
  buffer_out_size_cfg :: int
  outbox_limit_cfg :: nat

end
