(* ===== verification/Mqtt_Message.thy ===== *)
theory Mqtt_Message
  imports Mqtt_Event
begin

text \<open>
  The MQTT 3.1 / 3.1.1 codec: \<^verbatim>\<open>lib/include/mqtt_msg.h\<close> and \<^verbatim>\<open>lib/mqtt_msg.c\<close>.

  The output side fills one fixed buffer: five bytes are kept free for the fixed header,
  the body is appended behind them, and \<open>fini_message\<close> writes the header right before
  the body, as long as it turned out to be. The input side are parsers over the receive
  buffer and a separate length. Sizes are natural numbers (buffers are far below
  \<open>2 ^ 31\<close> bytes), the one size field whose wrap-around the code relies on,
  \<open>fragmented_msg_data_offset\<close>, is a 32-bit word.
\<close>

section \<open>Data model\<close>

abbreviation (input) MQTT_MSG_TYPE_CONNECT :: int where "MQTT_MSG_TYPE_CONNECT \<equiv> 1"
abbreviation (input) MQTT_MSG_TYPE_CONNACK :: int where "MQTT_MSG_TYPE_CONNACK \<equiv> 2"
abbreviation (input) MQTT_MSG_TYPE_PUBLISH :: int where "MQTT_MSG_TYPE_PUBLISH \<equiv> 3"
abbreviation (input) MQTT_MSG_TYPE_PUBACK :: int where "MQTT_MSG_TYPE_PUBACK \<equiv> 4"
abbreviation (input) MQTT_MSG_TYPE_PUBREC :: int where "MQTT_MSG_TYPE_PUBREC \<equiv> 5"
abbreviation (input) MQTT_MSG_TYPE_PUBREL :: int where "MQTT_MSG_TYPE_PUBREL \<equiv> 6"
abbreviation (input) MQTT_MSG_TYPE_PUBCOMP :: int where "MQTT_MSG_TYPE_PUBCOMP \<equiv> 7"
abbreviation (input) MQTT_MSG_TYPE_SUBSCRIBE :: int where "MQTT_MSG_TYPE_SUBSCRIBE \<equiv> 8"
abbreviation (input) MQTT_MSG_TYPE_SUBACK :: int where "MQTT_MSG_TYPE_SUBACK \<equiv> 9"
abbreviation (input) MQTT_MSG_TYPE_UNSUBSCRIBE :: int where "MQTT_MSG_TYPE_UNSUBSCRIBE \<equiv> 10"
abbreviation (input) MQTT_MSG_TYPE_UNSUBACK :: int where "MQTT_MSG_TYPE_UNSUBACK \<equiv> 11"
abbreviation (input) MQTT_MSG_TYPE_PINGREQ :: int where "MQTT_MSG_TYPE_PINGREQ \<equiv> 12"
abbreviation (input) MQTT_MSG_TYPE_PINGRESP :: int where "MQTT_MSG_TYPE_PINGRESP \<equiv> 13"
abbreviation (input) MQTT_MSG_TYPE_DISCONNECT :: int where "MQTT_MSG_TYPE_DISCONNECT \<equiv> 14"

text \<open>
  Where \<open>outbound_message.data\<close> points: nowhere, into the connection's own buffer, or at
  the bytes of a stored outbox item (set by the client when it resends).
\<close>

datatype msg_ptr = Null | In_Buffer nat | In_Outbox "byte list"

record mqtt_message =
  msg_data :: msg_ptr
  msg_length :: nat
  fragmented_msg_total_length :: nat
  fragmented_msg_data_offset :: "32 word"

record mqtt_connect_info =
  client_id :: "cstring option"
  username :: "cstring option"
  password :: "cstring option"
  will_topic :: "cstring option"
  will_message :: "byte list option"
  keepalive :: int
  will_length :: nat
  will_qos :: int
  will_retain :: bool
  clean_session :: bool
  protocol_ver :: esp_mqtt_protocol_ver

text \<open>
  Where fresh packet identifiers come from: \<open>last_message_id\<close> when
  \<^verbatim>\<open>MQTT_MSG_ID_INCREMENTAL\<close> is set, otherwise the values that the next calls of
  \<^verbatim>\<open>esp_random\<close> return, each reduced by \<^verbatim>\<open>platform_random\<close>.
\<close>

datatype id_source = Incremental "16 word" | Random "32 word list"

record mqtt_connection =
  outbound_message :: mqtt_message
  ids :: id_source
  buffer :: "byte list"
  buffer_length :: nat
  information :: mqtt_connect_info

record esp_mqtt_topic =
  topic_filter :: cstring
  topic_qos :: int

text \<open>The bytes a reader of \<open>outbound_message\<close> sees: \<open>length\<close> bytes behind \<open>data\<close>.\<close>

definition message_bytes :: "mqtt_connection \<Rightarrow> byte list" where
  "message_bytes c =
     (case msg_data (outbound_message c) of
        Null \<Rightarrow> []
      | In_Buffer i \<Rightarrow> take (msg_length (outbound_message c)) (drop i (buffer c))
      | In_Outbox bs \<Rightarrow> take (msg_length (outbound_message c)) bs)"

abbreviation out_length :: "mqtt_connection \<Rightarrow> nat" where
  "out_length c \<equiv> msg_length (outbound_message c)"

definition set_out_length :: "mqtt_connection \<Rightarrow> nat \<Rightarrow> mqtt_connection" where
  "set_out_length c n = c\<lparr>outbound_message := (outbound_message c)\<lparr>msg_length := n\<rparr>\<rparr>"

section \<open>Header fields of a received message\<close>

definition mqtt_get_type :: "byte list \<Rightarrow> int option" where
  "mqtt_get_type b = do { v \<leftarrow> load b 0; Some (uint (drop_bit 4 (v AND 0xf0))) }"

definition mqtt_get_connect_session_present :: "byte list \<Rightarrow> nat option" where
  "mqtt_get_connect_session_present b = do { v \<leftarrow> load b 2; Some (unat (v AND 0x01)) }"

definition mqtt_get_connect_return_code :: "byte list \<Rightarrow> nat option" where
  "mqtt_get_connect_return_code b = do { v \<leftarrow> load b 3; Some (unat v) }"

definition mqtt_get_dup :: "byte list \<Rightarrow> nat option" where
  "mqtt_get_dup b = do { v \<leftarrow> load b 0; Some (unat (drop_bit 3 (v AND 0x08))) }"

definition mqtt_set_dup :: "byte list \<Rightarrow> byte list option" where
  "mqtt_set_dup b = do { v \<leftarrow> load b 0; store b 0 [v OR 0x08] }"

definition mqtt_get_qos :: "byte list \<Rightarrow> nat option" where
  "mqtt_get_qos b = do { v \<leftarrow> load b 0; Some (unat (drop_bit 1 (v AND 0x06))) }"

definition mqtt_get_retain :: "byte list \<Rightarrow> nat option" where
  "mqtt_get_retain b = do { v \<leftarrow> load b 0; Some (unat (v AND 0x01)) }"

section \<open>Building blocks of outbound messages\<close>

abbreviation (input) MQTT_MAX_FIXED_HEADER_SIZE :: nat where "MQTT_MAX_FIXED_HEADER_SIZE \<equiv> 5"

text \<open>\<open>append_string\<close>: the two length bytes and the copy are one block of stores.\<close>

definition append_string :: "mqtt_connection \<Rightarrow> byte list \<Rightarrow> nat \<Rightarrow> (int \<times> mqtt_connection) option" where
  "append_string c s len =
     (if out_length c + len + 2 > buffer_length c then Some (-1, c)
      else do {
        bs \<leftarrow> fetch s len;
        b \<leftarrow> store (buffer c) (out_length c) (be16 len @ bs);
        Some (int len + 2, set_out_length (c\<lparr>buffer := b\<rparr>) (out_length c + 2 + len))
      })"

definition platform_random :: "32 word \<Rightarrow> nat \<Rightarrow> nat" where
  "platform_random esp_random mx = unat esp_random mod mx"

text \<open>The loop \<open>while (message_id == 0)\<close> of \<open>append_message_id\<close>.\<close>

function assign_message_id :: "id_source \<Rightarrow> (16 word \<times> id_source) option" where
  "assign_message_id (Incremental prev) =
     (let m = prev + 1 in
      if m = 0 then assign_message_id (Incremental m) else Some (m, Incremental m))"
| "assign_message_id (Random []) = None"
| "assign_message_id (Random (r # rs)) =
     (let m = of_nat (platform_random r 65535) in
      if m = 0 then assign_message_id (Random rs) else Some (m, Random rs))"
  by pat_completeness auto
termination
  by (relation "measure (\<lambda>s. case s of Incremental l \<Rightarrow> (if l + 1 = 0 then 1 else 0) | Random rs \<Rightarrow> length rs)")
     auto

definition append_message_id :: "mqtt_connection \<Rightarrow> 16 word \<Rightarrow> (16 word \<times> mqtt_connection) option" where
  "append_message_id c message_id = do {
     (m, src) \<leftarrow> (if message_id = 0 then assign_message_id (ids c) else Some (message_id, ids c));
     let c = c\<lparr>ids := src\<rparr>;
     if out_length c + 2 > buffer_length c then Some (0, c)
     else do {
       b \<leftarrow> store (buffer c) (out_length c) (be16 (unat m));
       Some (m, set_out_length (c\<lparr>buffer := b\<rparr>) (out_length c + 2))
     }
   }"

definition set_message_header_size :: "mqtt_connection \<Rightarrow> mqtt_connection" where
  "set_message_header_size c = set_out_length c MQTT_MAX_FIXED_HEADER_SIZE"

definition fail_message :: "mqtt_connection \<Rightarrow> mqtt_connection" where
  "fail_message c =
     c\<lparr>outbound_message := (outbound_message c)\<lparr>msg_data := In_Buffer 0, msg_length := 0\<rparr>\<rparr>"

text \<open>The \<open>do ... while\<close> loop that encodes the remaining length, seven bits at a time.\<close>

fun encode_length :: "nat \<Rightarrow> byte list" where
  "encode_length total_length =
     (let digit = of_nat (total_length mod 128); rest = total_length div 128
      in if rest > 0 then (digit OR 0x80) # encode_length rest else [digit])"

declare encode_length.simps [simp del]

definition fixed_header_byte :: "int \<Rightarrow> int \<Rightarrow> int \<Rightarrow> int \<Rightarrow> byte" where
  "fixed_header_byte ty dup qos retain =
     word_of_int (push_bit 4 (ty AND 0x0f) OR push_bit 3 (dup AND 1) OR
                  push_bit 1 (qos AND 3) OR (retain AND 1))"

text \<open>
  \<open>fini_message\<close>. The encoded length goes through the four-byte array \<open>encoded_lens\<close>: a
  fifth byte would be written behind it, which is the \<open>None\<close> of the model; the sanity
  check of the source comes after that loop.
\<close>

definition fini_message ::
  "mqtt_connection \<Rightarrow> int \<Rightarrow> int \<Rightarrow> int \<Rightarrow> int \<Rightarrow> mqtt_connection option" where
  "fini_message c ty dup qos retain =
     (let om = outbound_message c;
          message_length = msg_length om - MQTT_MAX_FIXED_HEADER_SIZE;
          total_length = (if fragmented_msg_total_length om \<noteq> 0
                          then fragmented_msg_total_length om - MQTT_MAX_FIXED_HEADER_SIZE
                          else message_length);
          encoded_lens = encode_length total_length;
          len_bytes = length encoded_lens
      in if len_bytes > 4 then None
         else if len_bytes + 1 > MQTT_MAX_FIXED_HEADER_SIZE then Some (fail_message c)
         else let offs = MQTT_MAX_FIXED_HEADER_SIZE - 1 - len_bytes in do {
           b \<leftarrow> store (buffer c) offs (fixed_header_byte ty dup qos retain # encoded_lens);
           Some (c\<lparr>buffer := b,
                   outbound_message := om\<lparr>
                     msg_length := message_length + len_bytes + 1,
                     msg_data := In_Buffer offs,
                     fragmented_msg_data_offset := fragmented_msg_data_offset om - of_nat offs\<rparr>\<rparr>)
         })"

section \<open>Parsers of received messages\<close>

text \<open>The loop over the remaining-length bytes, at most four of them.\<close>

function decode_length :: "byte list \<Rightarrow> nat \<Rightarrow> nat \<Rightarrow> nat \<Rightarrow> (nat \<times> nat) option" where
  "decode_length b len i totlen =
     (if i < len \<and> i \<le> 4 then do {
        v \<leftarrow> load b i;
        let totlen = totlen + push_bit (7 * (i - 1)) (unat (v AND 0x7f));
        if v AND 0x80 = 0 then Some (Suc i, totlen) else decode_length b len (Suc i) totlen
      } else Some (i, totlen))"
  by pat_completeness auto
termination
  by (relation "measure (\<lambda>(b, len, i, t). 5 - i)") auto

declare decode_length.simps [simp del]

text \<open>Total length of the packet and length of its fixed header.\<close>

definition mqtt_get_total_length :: "byte list \<Rightarrow> nat \<Rightarrow> (nat \<times> nat) option" where
  "mqtt_get_total_length b len = do { (i, totlen) \<leftarrow> decode_length b len 1 0; Some (totlen + i, i) }"

text \<open>The bounded header loop of \<open>mqtt_header_complete\<close>; the inner \<open>None\<close> is \<open>return false\<close>.\<close>

function header_complete_loop :: "byte list \<Rightarrow> nat \<Rightarrow> nat \<Rightarrow> nat option option" where
  "header_complete_loop b len i =
     (if i < MQTT_MAX_FIXED_HEADER_SIZE then
        if i \<ge> len then Some None
        else do {
          v \<leftarrow> load b i;
          if v AND 0x80 = 0 then Some (Some (Suc i)) else header_complete_loop b len (Suc i)
        }
      else Some (Some i))"
  by pat_completeness auto
termination
  by (relation "measure (\<lambda>(b, len, i). 5 - i)") auto

declare header_complete_loop.simps [simp del]

text \<open>\<open>i\<close> is a \<^verbatim>\<open>uint16_t\<close>: its two additions wrap around at 65536.\<close>

definition mqtt_header_complete :: "byte list \<Rightarrow> nat \<Rightarrow> bool option" where
  "mqtt_header_complete b len = do {
     r \<leftarrow> header_complete_loop b len 1;
     case r of None \<Rightarrow> Some False
     | Some i \<Rightarrow>
       if i + 2 \<ge> len then Some False
       else do {
         h \<leftarrow> load b i; l \<leftarrow> load b (i + 1);
         qos \<leftarrow> mqtt_get_qos b;
         let i = (i + 2 + be16_val h l) mod 65536;
         let i = (if qos > 0 then (i + 2) mod 65536 else i);
         Some (len \<ge> i)
       }
   }"

text \<open>The loop that skips the remaining length in \<open>mqtt_get_publish_topic\<close> and \<open>mqtt_get_id\<close>.\<close>

function skip_length :: "byte list \<Rightarrow> nat \<Rightarrow> nat \<Rightarrow> nat option" where
  "skip_length b len i =
     (if i < len then do {
        v \<leftarrow> load b i;
        if v AND 0x80 = 0 then Some (Suc i) else skip_length b len (Suc i)
      } else Some i)"
  by pat_completeness auto
termination
  by (relation "measure (\<lambda>(b, len, i). len - i)") auto

declare skip_length.simps [simp del]

text \<open>Offset and length of the topic, or \<open>NULL\<close>.\<close>

definition mqtt_get_publish_topic :: "byte list \<Rightarrow> nat \<Rightarrow> (nat \<times> nat) option option" where
  "mqtt_get_publish_topic b len = do {
     i \<leftarrow> skip_length b len 1;
     if i + 2 \<ge> len then Some None
     else do {
       h \<leftarrow> load b i; l \<leftarrow> load b (i + 1);
       let topiclen = be16_val h l;
       if i + 2 + topiclen > len then Some None else Some (Some (i + 2, topiclen))
     }
   }"

text \<open>Offset of the payload (or \<open>NULL\<close>) and the number of its bytes in the buffer.\<close>

definition mqtt_get_publish_data :: "byte list \<Rightarrow> nat \<Rightarrow> (nat option \<times> nat) option" where
  "mqtt_get_publish_data b blength = do {
     (i, totlen) \<leftarrow> decode_length b blength 1 0;
     let totlen = totlen + i;
     if i + 2 \<ge> blength then Some (None, 0)
     else do {
       h \<leftarrow> load b i; l \<leftarrow> load b (i + 1);
       let i = i + 2; let topiclen = be16_val h l;
       if i + topiclen \<ge> blength then Some (None, 0)
       else do {
         let i = i + topiclen;
         qos \<leftarrow> mqtt_get_qos b;
         if qos > 0 \<and> i + 2 \<ge> blength then Some (None, 0)
         else do {
           let i = (if qos > 0 then i + 2 else i);
           if totlen < i then Some (None, 0)
           else if totlen \<le> blength then Some (Some i, totlen - i)
           else Some (Some i, blength - i)
         }
       }
     }
   }"

definition mqtt_get_suback_data :: "nat \<Rightarrow> nat option \<times> nat" where
  "mqtt_get_suback_data len = (if len > 4 then (Some 4, len - 4) else (None, 0))"

definition mqtt_get_id :: "byte list \<Rightarrow> nat \<Rightarrow> nat option" where
  "mqtt_get_id b len =
     (if len < 1 then Some 0
      else do {
        ty \<leftarrow> mqtt_get_type b;
        if ty = MQTT_MSG_TYPE_PUBLISH then do {
          i \<leftarrow> skip_length b len 1;
          if i + 2 \<ge> len then Some 0
          else do {
            h \<leftarrow> load b i; l \<leftarrow> load b (i + 1);
            let i = i + 2; let topiclen = be16_val h l;
            if i + topiclen > len then Some 0
            else do {
              let i = i + topiclen;
              qos \<leftarrow> mqtt_get_qos b;
              if qos > 0 then
                if i + 2 > len then Some 0
                else do { h \<leftarrow> load b i; l \<leftarrow> load b (i + 1); Some (be16_val h l) }
              else Some 0
            }
          }
        }
        else if ty \<in> {MQTT_MSG_TYPE_PUBACK, MQTT_MSG_TYPE_PUBREC, MQTT_MSG_TYPE_PUBREL,
                      MQTT_MSG_TYPE_PUBCOMP, MQTT_MSG_TYPE_SUBACK, MQTT_MSG_TYPE_UNSUBACK,
                      MQTT_MSG_TYPE_SUBSCRIBE, MQTT_MSG_TYPE_UNSUBSCRIBE} then
          if len \<ge> 4 then do {
            v \<leftarrow> load b 1;
            if v AND 0x80 = 0
            then do { h \<leftarrow> load b 2; l \<leftarrow> load b 3; Some (be16_val h l) }
            else Some 0
          } else Some 0
        else Some 0
      })"

definition mqtt_has_valid_msg_hdr :: "byte list \<Rightarrow> nat \<Rightarrow> bool option" where
  "mqtt_has_valid_msg_hdr b len =
     (if len < 1 then Some False
      else do {
        ty \<leftarrow> mqtt_get_type b;
        v \<leftarrow> load b 0;
        if ty \<in> {MQTT_MSG_TYPE_CONNECT, MQTT_MSG_TYPE_CONNACK, MQTT_MSG_TYPE_PUBACK,
                 MQTT_MSG_TYPE_PUBREC, MQTT_MSG_TYPE_PUBCOMP, MQTT_MSG_TYPE_SUBACK,
                 MQTT_MSG_TYPE_UNSUBACK, MQTT_MSG_TYPE_PINGREQ, MQTT_MSG_TYPE_PINGRESP,
                 MQTT_MSG_TYPE_DISCONNECT}
        then Some (v AND 0x0f = 0)
        else if ty \<in> {MQTT_MSG_TYPE_PUBREL, MQTT_MSG_TYPE_SUBSCRIBE, MQTT_MSG_TYPE_UNSUBSCRIBE}
        then Some (v AND 0x0f = 0x02)
        else if ty = MQTT_MSG_TYPE_PUBLISH then do {
          qos \<leftarrow> mqtt_get_qos b;
          dup \<leftarrow> mqtt_get_dup b;
          Some (qos < 3 \<and> (qos > 0 \<or> dup = 0))
        }
        else Some False
      })"

section \<open>Composition of control packets\<close>

text \<open>
  A build step either lets the composition go on (\<open>True\<close>) or is one of the early
  \<open>return fail_message(connection)\<close> of the source (\<open>False\<close>).
\<close>

type_synonym build_step = "mqtt_connection \<Rightarrow> (bool \<times> mqtt_connection) option"

definition proceed :: build_step where
  "proceed c = Some (True, c)"

definition chain :: "build_step \<Rightarrow> build_step \<Rightarrow> build_step" where
  "chain s t c = do { (ok, c) \<leftarrow> s c; if ok then t c else Some (False, c) }"

definition string_step :: "byte list \<Rightarrow> nat \<Rightarrow> build_step" where
  "string_step s len c = do { (r, c) \<leftarrow> append_string c s len; Some (0 \<le> r, c) }"

definition or_byte :: "nat \<Rightarrow> byte \<Rightarrow> build_step" where
  "or_byte i f c = do { v \<leftarrow> load (buffer c) i; b \<leftarrow> store (buffer c) i [v OR f]; Some (True, c\<lparr>buffer := b\<rparr>) }"

definition raw_step :: "byte list \<Rightarrow> build_step" where
  "raw_step bs c =
     (if out_length c + length bs > buffer_length c then Some (False, c)
      else do {
        b \<leftarrow> store (buffer c) (out_length c) bs;
        Some (True, set_out_length (c\<lparr>buffer := b\<rparr>) (out_length c + length bs))
      })"

definition finish :: "build_step \<Rightarrow> int \<Rightarrow> int \<Rightarrow> int \<Rightarrow> int \<Rightarrow> mqtt_connection \<Rightarrow> mqtt_connection option" where
  "finish s ty dup qos retain c =
     do { (ok, c) \<leftarrow> s c; if ok then fini_message c ty dup qos retain else Some (fail_message c) }"

definition nonempty :: "cstring option \<Rightarrow> bool" where
  "nonempty p = (case p of None \<Rightarrow> False | Some s \<Rightarrow> s \<noteq> [])"

definition chars :: "byte list option \<Rightarrow> byte list" where
  "chars p = (case p of None \<Rightarrow> [] | Some s \<Rightarrow> s)"

subsection \<open>CONNECT\<close>

definition connect_header :: "mqtt_connect_info \<Rightarrow> byte list" where
  "connect_header info =
     [0] @ (if protocol_ver info = MQTT_PROTOCOL_V_3_1
            then [6, 0x4d, 0x51, 0x49, 0x73, 0x64, 0x70, 3]
            else [4, 0x4d, 0x51, 0x54, 0x54, 4]) @
     [0, word_of_int (drop_bit 8 (keepalive info)), word_of_int (keepalive info)]"

definition connect_flags_offset :: "mqtt_connect_info \<Rightarrow> nat" where
  "connect_flags_offset info = (if protocol_ver info = MQTT_PROTOCOL_V_3_1 then 9 else 7)"

definition connect_clean :: "mqtt_connect_info \<Rightarrow> nat \<Rightarrow> build_step" where
  "connect_clean info flags = (if clean_session info then or_byte flags 0x02 else proceed)"

definition connect_client_id :: "mqtt_connect_info \<Rightarrow> build_step" where
  "connect_client_id info =
     (if nonempty (client_id info)
      then string_step (chars (client_id info)) (length (chars (client_id info)))
      else string_step [] 0)"

definition connect_will :: "mqtt_connect_info \<Rightarrow> nat \<Rightarrow> build_step" where
  "connect_will info flags =
     (if nonempty (will_topic info) then
        chain (string_step (chars (will_topic info)) (length (chars (will_topic info))))
       (chain (string_step (chars (will_message info)) (will_length info))
       (chain (or_byte flags 0x04)
       (chain (if will_retain info then or_byte flags 0x20 else proceed)
              (or_byte flags (word_of_int (push_bit 3 (will_qos info AND 3)))))))
      else proceed)"

definition connect_username :: "mqtt_connect_info \<Rightarrow> nat \<Rightarrow> build_step" where
  "connect_username info flags =
     (if nonempty (username info) then
        chain (string_step (chars (username info)) (length (chars (username info))))
              (or_byte flags 0x80)
      else proceed)"

definition connect_password :: "mqtt_connect_info \<Rightarrow> nat \<Rightarrow> build_step" where
  "connect_password info flags =
     (if nonempty (password info) then
        chain (if \<not> nonempty (username info)
               then chain (string_step [] 0) (or_byte flags 0x80) else proceed)
       (chain (string_step (chars (password info)) (length (chars (password info))))
              (or_byte flags 0x40))
      else proceed)"

definition mqtt_msg_connect :: "mqtt_connection \<Rightarrow> mqtt_connect_info \<Rightarrow> mqtt_connection option" where
  "mqtt_msg_connect c info =
     (let flags = MQTT_MAX_FIXED_HEADER_SIZE + connect_flags_offset info in
      finish (chain (raw_step (connect_header info))
             (chain (connect_clean info flags)
             (chain (connect_client_id info)
             (chain (connect_will info flags)
             (chain (connect_username info flags)
                    (connect_password info flags))))))
        MQTT_MSG_TYPE_CONNECT 0 0 0 (set_message_header_size c))"

subsection \<open>PUBLISH\<close>

text \<open>
  The payload of a PUBLISH: copied whole, or cut at the end of the buffer with the
  message marked as fragmented.
\<close>

definition publish_payload :: "byte list option \<Rightarrow> nat \<Rightarrow> mqtt_connection \<Rightarrow> mqtt_connection option" where
  "publish_payload data data_length c =
     (case data of None \<Rightarrow> Some c
      | Some d \<Rightarrow>
        let om = outbound_message c in
        if out_length c + data_length > buffer_length c then do {
          bs \<leftarrow> fetch d (buffer_length c - out_length c);
          b \<leftarrow> store (buffer c) (out_length c) bs;
          Some (c\<lparr>buffer := b,
                  outbound_message := om\<lparr>
                    fragmented_msg_data_offset := of_nat (out_length c),
                    msg_length := buffer_length c,
                    fragmented_msg_total_length := data_length + out_length c\<rparr>\<rparr>)
        } else do {
          bs \<leftarrow> fetch d data_length;
          b \<leftarrow> store (buffer c) (out_length c) bs;
          Some (c\<lparr>buffer := b,
                  outbound_message := om\<lparr>
                    msg_length := out_length c + data_length,
                    fragmented_msg_total_length := 0\<rparr>\<rparr>)
        })"

text \<open>Returns the connection and the packet identifier stored through \<open>message_id\<close>.\<close>

definition mqtt_msg_publish ::
  "mqtt_connection \<Rightarrow> cstring option \<Rightarrow> byte list option \<Rightarrow> nat \<Rightarrow> int \<Rightarrow> int \<Rightarrow> 16 word
     \<Rightarrow> (mqtt_connection \<times> 16 word) option" where
  "mqtt_msg_publish c topic data data_length qos retain message_id =
     (let c = set_message_header_size c in
      if \<not> nonempty topic then Some (fail_message c, message_id)
      else do {
        (r, c) \<leftarrow> append_string c (chars topic) (length (chars topic));
        if r < 0 then Some (fail_message c, message_id)
        else if data = None \<and> data_length > 0 then Some (fail_message c, message_id)
        else do {
          (message_id, c) \<leftarrow> (if qos > 0 then append_message_id c 0 else Some (0, c));
          if qos > 0 \<and> message_id = 0 then Some (fail_message c, message_id)
          else do {
            c \<leftarrow> publish_payload data data_length c;
            c \<leftarrow> fini_message c MQTT_MSG_TYPE_PUBLISH 0 qos retain;
            Some (c, message_id)
          }
        }
      })"

subsection \<open>Acknowledgements\<close>

definition ack_message :: "int \<Rightarrow> int \<Rightarrow> mqtt_connection \<Rightarrow> 16 word \<Rightarrow> mqtt_connection option" where
  "ack_message ty qos c message_id = do {
     (m, c) \<leftarrow> append_message_id (set_message_header_size c) message_id;
     if m = 0 then Some (fail_message c) else fini_message c ty 0 qos 0
   }"

definition mqtt_msg_puback :: "mqtt_connection \<Rightarrow> 16 word \<Rightarrow> mqtt_connection option" where
  "mqtt_msg_puback = ack_message MQTT_MSG_TYPE_PUBACK 0"

definition mqtt_msg_pubrec :: "mqtt_connection \<Rightarrow> 16 word \<Rightarrow> mqtt_connection option" where
  "mqtt_msg_pubrec = ack_message MQTT_MSG_TYPE_PUBREC 0"

definition mqtt_msg_pubrel :: "mqtt_connection \<Rightarrow> 16 word \<Rightarrow> mqtt_connection option" where
  "mqtt_msg_pubrel = ack_message MQTT_MSG_TYPE_PUBREL 1"

definition mqtt_msg_pubcomp :: "mqtt_connection \<Rightarrow> 16 word \<Rightarrow> mqtt_connection option" where
  "mqtt_msg_pubcomp = ack_message MQTT_MSG_TYPE_PUBCOMP 0"

subsection \<open>SUBSCRIBE and UNSUBSCRIBE\<close>

fun subscribe_topics :: "esp_mqtt_topic list \<Rightarrow> build_step" where
  "subscribe_topics [] = proceed"
| "subscribe_topics (t # ts) =
     (if topic_filter t = [] then (\<lambda>c. Some (False, c))
      else chain (string_step (topic_filter t) (length (topic_filter t)))
          (chain (raw_step [word_of_int (topic_qos t)])
                 (subscribe_topics ts)))"

definition mqtt_msg_subscribe ::
  "mqtt_connection \<Rightarrow> esp_mqtt_topic list \<Rightarrow> (mqtt_connection \<times> 16 word) option" where
  "mqtt_msg_subscribe c topic_list = do {
     (message_id, c) \<leftarrow> append_message_id (set_message_header_size c) 0;
     if message_id = 0 then Some (fail_message c, message_id)
     else do {
       c \<leftarrow> finish (subscribe_topics topic_list) MQTT_MSG_TYPE_SUBSCRIBE 0 1 0 c;
       Some (c, message_id)
     }
   }"

definition mqtt_msg_unsubscribe ::
  "mqtt_connection \<Rightarrow> cstring option \<Rightarrow> 16 word \<Rightarrow> (mqtt_connection \<times> 16 word) option" where
  "mqtt_msg_unsubscribe c topic message_id =
     (let c = set_message_header_size c in
      if \<not> nonempty topic then Some (fail_message c, message_id)
      else do {
        (message_id, c) \<leftarrow> append_message_id c 0;
        if message_id = 0 then Some (fail_message c, message_id)
        else do {
          c \<leftarrow> finish (string_step (chars topic) (length (chars topic)))
                 MQTT_MSG_TYPE_UNSUBSCRIBE 0 1 0 c;
          Some (c, message_id)
        }
      })"

subsection \<open>Messages without a body\<close>

definition mqtt_msg_pingreq :: "mqtt_connection \<Rightarrow> mqtt_connection option" where
  "mqtt_msg_pingreq c = fini_message (set_message_header_size c) MQTT_MSG_TYPE_PINGREQ 0 0 0"

definition mqtt_msg_pingresp :: "mqtt_connection \<Rightarrow> mqtt_connection option" where
  "mqtt_msg_pingresp c = fini_message (set_message_header_size c) MQTT_MSG_TYPE_PINGRESP 0 0 0"

definition mqtt_msg_disconnect :: "mqtt_connection \<Rightarrow> mqtt_connection option" where
  "mqtt_msg_disconnect c = fini_message (set_message_header_size c) MQTT_MSG_TYPE_DISCONNECT 0 0 0"

subsection \<open>The buffer\<close>

text \<open>\<open>alloc_ok\<close> is the outcome of \<^verbatim>\<open>heap_caps_calloc\<close>, which clears what it returns.\<close>

definition mqtt_msg_buffer_init ::
  "mqtt_connection \<Rightarrow> nat \<Rightarrow> bool \<Rightarrow> esp_err \<times> mqtt_connection" where
  "mqtt_msg_buffer_init c buffer_size alloc_ok =
     (let c = c\<lparr>outbound_message := \<lparr>msg_data = Null, msg_length = 0,
                  fragmented_msg_total_length = 0, fragmented_msg_data_offset = 0\<rparr>\<rparr>
      in if \<not> alloc_ok then (ESP_ERR_NO_MEM, c\<lparr>buffer := []\<rparr>)
         else (ESP_OK, c\<lparr>buffer := replicate buffer_size 0, buffer_length := buffer_size\<rparr>))"

definition mqtt_msg_buffer_destroy :: "mqtt_connection option \<Rightarrow> mqtt_connection option" where
  "mqtt_msg_buffer_destroy c = map_option (\<lambda>c. c\<lparr>buffer := []\<rparr>) c"

end
