(* ===== verification/Mqtt_Message_Build.thy ===== *)
theory Mqtt_Message_Build
  imports Mqtt_Message
begin

text \<open>
  Lemmas on the composing side of \<^verbatim>\<open>lib/mqtt_msg.c\<close>: the variable-length integer, the steps
  that extend a body, and for each control packet the bytes it ends up as. A step is
  described by \<open>extends\<close>, what it makes of the body behind the fixed header and how many
  bytes it needs; the description of a composition follows from those of its steps.
\<close>

section \<open>The remaining-length field\<close>

lemma digit_low: "d < 128 \<Longrightarrow> (of_nat d :: byte) AND 0x7f = of_nat d"
proof -
  assume "d < 128"
  then have "take_bit 7 (of_nat d :: byte) = of_nat d"
    by (simp add: take_bit_of_nat flip: of_nat_take_bit) (simp add: take_bit_eq_mod)
  moreover have "(0x7f :: byte) = mask 7" by (simp add: mask_eq_exp_minus_1)
  ultimately show ?thesis by (simp add: take_bit_eq_mask)
qed

lemma digit_stop: "d < 128 \<Longrightarrow> (of_nat d :: byte) AND 0x80 = 0"
proof -
  assume "d < 128"
  then have "(of_nat d :: byte) AND 0x80 = (of_nat d AND 0x7f) AND 0x80"
    by (simp add: digit_low)
  also have "\<dots> = of_nat d AND (0x7f AND 0x80)" by (simp only: and.assoc)
  finally show ?thesis by simp
qed

lemma digit_more: "(x OR 0x80 :: byte) AND 0x80 \<noteq> 0"
  by (simp add: bit.conj_disj_distrib2)

lemma digit_more_low: "d < 128 \<Longrightarrow> (of_nat d OR 0x80 :: byte) AND 0x7f = of_nat d"
  by (simp add: bit.conj_disj_distrib2 digit_low)

lemma unat_digit: "d < 128 \<Longrightarrow> unat (of_nat d :: byte) = d"
  by (simp add: unat_of_nat take_bit_eq_mod)

lemma length_encode_length_pos: "0 < length (encode_length n)"
  by (subst encode_length.simps) (simp add: Let_def)

lemma length_encode_length_le: "n < 128 ^ k \<Longrightarrow> 0 < k \<Longrightarrow> length (encode_length n) \<le> k"
proof (induction n arbitrary: k rule: encode_length.induct)
  case (1 n)
  show ?case
  proof (cases "n div 128 > 0")
    case True
    then obtain j where j: "k = Suc j" "0 < j"
      using "1.prems" by (cases k; cases "k - 1") auto
    then have "length (encode_length (n div 128)) \<le> j"
      using "1.IH" [OF refl refl True, of j] "1.prems" by (simp add: less_mult_imp_div_less mult.commute)
    then show ?thesis using j True by (subst encode_length.simps) (simp add: Let_def)
  next
    case False
    then show ?thesis using "1.prems" by (subst encode_length.simps) (simp add: Let_def)
  qed
qed

lemma length_encode_length_gt: "128 ^ k \<le> n \<Longrightarrow> k < length (encode_length n)"
proof (induction k arbitrary: n)
  case 0 show ?case by (rule length_encode_length_pos)
next
  case (Suc k)
  then have "128 ^ k \<le> n div 128" by (simp add: less_eq_div_iff_mult_less_eq mult.commute)
  moreover from this have "n div 128 > 0" by (metis gr0I le_zero_eq power_not_zero zero_neq_numeral)
  ultimately show ?case using Suc.IH [of "n div 128"]
    by (subst encode_length.simps) (simp add: Let_def)
qed

lemma decode_length_stop:
  "i < len \<Longrightarrow> i \<le> 4 \<Longrightarrow> i < length b \<Longrightarrow> (b ! i) AND 0x80 = 0 \<Longrightarrow>
   decode_length b len i t = Some (Suc i, t + push_bit (7 * (i - 1)) (unat (b ! i AND 0x7f)))"
  by (subst decode_length.simps) (simp add: load_def)

lemma decode_length_more:
  "i < len \<Longrightarrow> i \<le> 4 \<Longrightarrow> i < length b \<Longrightarrow> (b ! i) AND 0x80 \<noteq> 0 \<Longrightarrow>
   decode_length b len i t = decode_length b len (Suc i) (t + push_bit (7 * (i - 1)) (unat (b ! i AND 0x7f)))"
  by (subst decode_length.simps) (simp add: load_def)

lemma push_digits:
  "0 < i \<Longrightarrow> push_bit (7 * (i - 1)) (n mod 128) + push_bit (7 * i) (n div 128) = push_bit (7 * (i - 1)) (n::nat)"
proof -
  assume "0 < i"
  then obtain j where j: "i = Suc j" by (cases i) auto
  have "n mod 128 * 2 ^ (7 * j) + n div 128 * (128 * 2 ^ (7 * j)) = (n mod 128 + n div 128 * 128) * 2 ^ (7 * j)"
    by (simp only: distrib_right mult.assoc)
  then show ?thesis by (simp add: j push_bit_eq_mult power_add)
qed

lemma decode_encode_length:
  assumes "0 < i" "i = length xs" "i + length (encode_length n) \<le> 5" "i + length (encode_length n) \<le> len"
  shows "decode_length (xs @ encode_length n @ ys) len i t =
           Some (i + length (encode_length n), t + push_bit (7 * (i - 1)) n)"
  using assms
proof (induction n arbitrary: xs i t rule: encode_length.induct)
  case (1 n)
  let ?d = "of_nat (n mod 128) :: byte" and ?b = "xs @ encode_length n @ ys"
  have ds: "encode_length n = (if n div 128 > 0 then (?d OR 0x80) # encode_length (n div 128) else [?d])"
    by (subst encode_length.simps) (simp add: Let_def)
  show ?case
  proof (cases "n div 128 > 0")
    case True
    have "?b ! i = ?d OR 0x80" using "1.prems" True by (simp add: ds)
    then have "decode_length ?b len i t
        = decode_length ?b len (Suc i) (t + push_bit (7 * (i - 1)) (n mod 128))"
      using "1.prems" True length_encode_length_pos [of "n div 128"]
      by (subst decode_length_more) (auto simp: ds digit_more digit_more_low unat_digit)
    moreover have "?b = (xs @ [?d OR 0x80]) @ encode_length (n div 128) @ ys"
      using True by (simp add: ds)
    moreover have "decode_length ((xs @ [?d OR 0x80]) @ encode_length (n div 128) @ ys) len (Suc i) u
        = Some (Suc i + length (encode_length (n div 128)), u + push_bit (7 * i) (n div 128))" for u
      using "1.IH" [OF refl refl True, of "Suc i" "xs @ [?d OR 0x80]"] "1.prems" True
      by (simp add: ds)
    ultimately show ?thesis
      using True push_digits [OF "1.prems"(1), of n] by (simp add: ds add.assoc)
  next
    case False
    then have "n mod 128 = n" by simp
    moreover have "?b ! i = of_nat n"
      using "1.prems" False by (simp add: ds)
    ultimately show ?thesis using "1.prems" False
      by (subst decode_length_stop) (auto simp: ds digit_stop digit_low unat_digit)
  qed
qed

lemma skip_encode_length:
  assumes "i = length xs" "i + length (encode_length n) \<le> len"
  shows "skip_length (xs @ encode_length n @ ys) len i = Some (i + length (encode_length n))"
  using assms
proof (induction n arbitrary: xs i rule: encode_length.induct)
  case (1 n)
  let ?d = "of_nat (n mod 128) :: byte" and ?b = "xs @ encode_length n @ ys"
  have ds: "encode_length n = (if n div 128 > 0 then (?d OR 0x80) # encode_length (n div 128) else [?d])"
    by (subst encode_length.simps) (simp add: Let_def)
  show ?case
  proof (cases "n div 128 > 0")
    case True
    have "skip_length ?b len i = skip_length ?b len (Suc i)"
      using "1.prems" True by (subst skip_length.simps) (auto simp: ds load_def digit_more)
    moreover have "?b = (xs @ [?d OR 0x80]) @ encode_length (n div 128) @ ys"
      using True by (simp add: ds)
    ultimately show ?thesis
      using "1.IH" [OF refl refl True, of "Suc i" "xs @ [?d OR 0x80]"] "1.prems" True by (simp add: ds)
  next
    case False
    then show ?thesis using "1.prems"
      by (subst skip_length.simps) (auto simp: ds load_def digit_stop)
  qed
qed

section \<open>Build steps\<close>

definition conn_ok :: "mqtt_connection \<Rightarrow> bool" where
  "conn_ok c \<longleftrightarrow> length (buffer c) = buffer_length c \<and> 5 \<le> out_length c \<and> out_length c \<le> buffer_length c"

definition payload :: "mqtt_connection \<Rightarrow> byte list" where
  "payload c = drop 5 (take (out_length c) (buffer c))"

definition same_frame :: "mqtt_connection \<Rightarrow> mqtt_connection \<Rightarrow> bool" where
  "same_frame c c' \<longleftrightarrow>
     buffer_length c' = buffer_length c \<and> length (buffer c') = length (buffer c) \<and>
     information c' = information c \<and>
     fragmented_msg_total_length (outbound_message c') = fragmented_msg_total_length (outbound_message c) \<and>
     fragmented_msg_data_offset (outbound_message c') = fragmented_msg_data_offset (outbound_message c)"

lemma same_frame_refl [simp]: "same_frame c c"
  by (simp add: same_frame_def)

lemma same_frame_trans [trans]: "same_frame a b \<Longrightarrow> same_frame b c \<Longrightarrow> same_frame a c"
  by (simp add: same_frame_def)

lemma length_payload: "conn_ok c \<Longrightarrow> length (payload c) = out_length c - 5"
  by (simp add: conn_ok_def payload_def)

lemma out_length_payload: "conn_ok c \<Longrightarrow> out_length c = length (payload c) + 5"
  by (simp add: conn_ok_def payload_def)

lemma set_out_length_simps [simp]:
  "buffer (set_out_length c n) = buffer c" "buffer_length (set_out_length c n) = buffer_length c"
  "ids (set_out_length c n) = ids c" "information (set_out_length c n) = information c"
  "msg_length (outbound_message (set_out_length c n)) = n"
  "fragmented_msg_total_length (outbound_message (set_out_length c n)) = fragmented_msg_total_length (outbound_message c)"
  "fragmented_msg_data_offset (outbound_message (set_out_length c n)) = fragmented_msg_data_offset (outbound_message c)"
  by (simp_all add: set_out_length_def)

text \<open>Appending a block behind the body.\<close>

lemma append_block:
  assumes "conn_ok c" "out_length c + length bs \<le> buffer_length c"
  shows "\<exists>b. store (buffer c) (out_length c) bs = Some b \<and>
     (let c' = set_out_length (c\<lparr>buffer := b\<rparr>) (out_length c + length bs) in
      conn_ok c' \<and> same_frame c c' \<and> payload c' = payload c @ bs)"
proof -
  have le: "out_length c + length bs \<le> length (buffer c)" "5 \<le> out_length c"
    using assms by (auto simp: conn_ok_def)
  then have "drop 5 (take (out_length c) (buffer c) @ bs) = drop 5 (take (out_length c) (buffer c)) @ bs"
    by (simp add: drop_append)
  then show ?thesis
    using assms le by (auto simp: store_def conn_ok_def same_frame_def payload_def Let_def)
qed

definition extends :: "build_step \<Rightarrow> nat \<Rightarrow> (byte list \<Rightarrow> byte list) \<Rightarrow> nat \<Rightarrow> bool" where
  "extends st k F n \<longleftrightarrow>
     (\<forall>c. conn_ok c \<longrightarrow> k \<le> length (payload c) \<longrightarrow>
        length (F (payload c)) = length (payload c) + n \<and>
        (\<exists>c'. same_frame c c' \<and> ids c' = ids c \<and>
           st c = Some (out_length c + n \<le> buffer_length c, c') \<and>
           (out_length c + n \<le> buffer_length c \<longrightarrow> conn_ok c' \<and> payload c' = F (payload c))))"

lemma extendsD:
  assumes "extends st k F n" "conn_ok c" "k \<le> length (payload c)"
  obtains c' where "same_frame c c'" "ids c' = ids c"
    "st c = Some (out_length c + n \<le> buffer_length c, c')"
    "out_length c + n \<le> buffer_length c \<Longrightarrow> conn_ok c' \<and> payload c' = F (payload c)"
    "length (F (payload c)) = length (payload c) + n"
  using assms unfolding extends_def by blast

lemma extends_mono: "extends st k F n \<Longrightarrow> k \<le> k' \<Longrightarrow> extends st k' F n"
  by (auto simp: extends_def)

lemma extends_proceed: "extends proceed k (\<lambda>q. q) 0"
  by (auto simp: extends_def proceed_def conn_ok_def)

lemma extends_chain:
  assumes "extends s k F m" "extends t (k + m) G n"
  shows "extends (chain s t) k (\<lambda>q. G (F q)) (m + n)"
  unfolding extends_def
proof (intro allI impI)
  fix c assume c: "conn_ok c" "k \<le> length (payload c)"
  obtain c1 where c1: "same_frame c c1" "ids c1 = ids c"
    "s c = Some (out_length c + m \<le> buffer_length c, c1)"
    "out_length c + m \<le> buffer_length c \<Longrightarrow> conn_ok c1 \<and> payload c1 = F (payload c)"
    "length (F (payload c)) = length (payload c) + m"
    using extendsD [OF assms(1) c] by metis
  show "length (G (F (payload c))) = length (payload c) + (m + n) \<and>
        (\<exists>c'. same_frame c c' \<and> ids c' = ids c \<and>
           chain s t c = Some (out_length c + (m + n) \<le> buffer_length c, c') \<and>
           (out_length c + (m + n) \<le> buffer_length c \<longrightarrow> conn_ok c' \<and> payload c' = G (F (payload c))))"
  proof (cases "out_length c + m \<le> buffer_length c")
    case True
    then have o1: "conn_ok c1" and p1: "payload c1 = F (payload c)" using c1 by blast+
    then have k1: "k + m \<le> length (payload c1)" using c c1 by simp
    obtain c2 where c2: "same_frame c1 c2" "ids c2 = ids c1"
      "t c1 = Some (out_length c1 + n \<le> buffer_length c1, c2)"
      "out_length c1 + n \<le> buffer_length c1 \<Longrightarrow> conn_ok c2 \<and> payload c2 = G (payload c1)"
      "length (G (payload c1)) = length (payload c1) + n"
      using extendsD [OF assms(2) o1 k1] by metis
    have "out_length c1 = out_length c + m" "buffer_length c1 = buffer_length c"
      using p1 o1 c1 c out_length_payload by (auto simp: same_frame_def)
    then have "chain s t c = Some (out_length c + (m + n) \<le> buffer_length c, c2)"
      using True c1 c2 by (simp add: chain_def add.assoc)
    moreover have "same_frame c c2" using c1(1) c2(1) by (rule same_frame_trans)
    ultimately show ?thesis using p1 c1 c2 \<open>out_length c1 = _\<close> \<open>buffer_length c1 = _\<close> 
      by (auto simp: add.assoc)
  next
    case False
    then have f: "\<not> out_length c + (m + n) \<le> buffer_length c" by simp
    have "length (G (F (payload c))) = length (payload c) + (m + n)"
    proof -
      \<comment> \<open>the length law of a step holds for every body, so apply it on a larger buffer\<close>
      let ?q = "F (payload c)"
      define d where "d = c\<lparr>buffer := replicate 5 0 @ ?q, buffer_length := length ?q + 5,
        outbound_message := (outbound_message c)\<lparr>msg_length := length ?q + 5\<rparr>\<rparr>"
      have "conn_ok d" "payload d = ?q" by (simp_all add: d_def conn_ok_def payload_def)
      moreover from this have "k + m \<le> length (payload d)" using c c1 by simp
      ultimately show ?thesis using extendsD [OF assms(2)] c1 by (metis add.assoc)
    qed
    moreover have "chain s t c = Some (False, c1)" using False c1 by (simp add: chain_def)
    ultimately show ?thesis using f c1 by simp
  qed
qed

lemma extends_string:
  assumes "len \<le> length s"
  shows "extends (string_step s len) k (\<lambda>q. q @ be16 len @ take len s) (len + 2)"
  unfolding extends_def
proof (intro allI impI)
  fix c assume c: "conn_ok c"
  show "length (payload c @ be16 len @ take len s) = length (payload c) + (len + 2) \<and>
     (\<exists>c'. same_frame c c' \<and> ids c' = ids c \<and>
        string_step s len c = Some (out_length c + (len + 2) \<le> buffer_length c, c') \<and>
        (out_length c + (len + 2) \<le> buffer_length c \<longrightarrow> conn_ok c' \<and> payload c' = payload c @ be16 len @ take len s))"
  proof (cases "out_length c + (len + 2) \<le> buffer_length c")
    case True
    then show ?thesis
      using append_block [OF c, of "be16 len @ take len s"] assms
      by (auto simp: string_step_def append_string_def fetch_def Let_def add.commute add.left_commute)
  next
    case False
    then show ?thesis using c assms by (auto simp: string_step_def append_string_def)
  qed
qed

lemma string_step_ok:
  assumes "conn_ok c" "string_step s (length s) c = Some (ok, c')"
  shows "conn_ok c'"
proof (cases "out_length c + length s + 2 \<le> buffer_length c")
  case True
  then show ?thesis
    using append_block [OF assms(1), of "be16 (length s) @ s"] assms
    by (auto simp: string_step_def append_string_def fetch_def Let_def bind_eq_Some_conv ac_simps)
next
  case False
  then show ?thesis using assms by (auto simp: string_step_def append_string_def)
qed

lemma extends_raw: "extends (raw_step bs) k (\<lambda>q. q @ bs) (length bs)"
  unfolding extends_def
proof (intro allI impI)
  fix c assume c: "conn_ok c"
  show "length (payload c @ bs) = length (payload c) + length bs \<and>
     (\<exists>c'. same_frame c c' \<and> ids c' = ids c \<and>
        raw_step bs c = Some (out_length c + length bs \<le> buffer_length c, c') \<and>
        (out_length c + length bs \<le> buffer_length c \<longrightarrow> conn_ok c' \<and> payload c' = payload c @ bs))"
    using append_block [OF c, of bs] c
    by (cases "out_length c + length bs \<le> buffer_length c") (auto simp: raw_step_def Let_def)
qed

lemma extends_or_byte:
  assumes "j < k"
  shows "extends (or_byte (5 + j) f) k (\<lambda>q. q[j := q ! j OR f]) 0"
  unfolding extends_def
proof (intro allI impI)
  fix c assume c: "conn_ok c" "k \<le> length (payload c)"
  have j: "5 + j < out_length c" using c assms by (simp add: out_length_payload)
  have "out_length c \<le> length (buffer c)" using c by (simp add: conn_ok_def)
  let ?v = "buffer c ! (5 + j) OR f"
  have st: "store (buffer c) (5 + j) [?v] = Some ((buffer c)[5 + j := ?v])"
    using j \<open>out_length c \<le> _\<close> by (simp add: store_def upd_conv_take_nth_drop)
  have "payload (c\<lparr>buffer := (buffer c)[5 + j := ?v]\<rparr>) = (payload c)[j := payload c ! j OR f]"
    using j \<open>out_length c \<le> _\<close> by (simp add: payload_def drop_update_swap take_update_swap)
  then show "length ((payload c)[j := payload c ! j OR f]) = length (payload c) + 0 \<and>
     (\<exists>c'. same_frame c c' \<and> ids c' = ids c \<and>
        or_byte (5 + j) f c = Some (out_length c + 0 \<le> buffer_length c, c') \<and>
        (out_length c + 0 \<le> buffer_length c \<longrightarrow> conn_ok c' \<and> payload c' = (payload c)[j := payload c ! j OR f]))"
    using c j st \<open>out_length c \<le> _\<close>
    by (intro conjI exI [of _ "c\<lparr>buffer := (buffer c)[5 + j := ?v]\<rparr>"])
       (auto simp: or_byte_def load_def conn_ok_def same_frame_def)
qed

section \<open>Packets\<close>

definition packet :: "int \<Rightarrow> int \<Rightarrow> int \<Rightarrow> int \<Rightarrow> byte list \<Rightarrow> byte list" where
  "packet ty dup qos retain body =
     fixed_header_byte ty dup qos retain # encode_length (length body) @ body"

abbreviation small :: "nat \<Rightarrow> bool" where "small n \<equiv> n < 268435456"

lemma length_encode_small: "small n \<Longrightarrow> length (encode_length n) \<le> 4"
  using length_encode_length_le [of n 4] by simp

lemma length_packet: "length (packet ty dup qos retain body) = 1 + length (encode_length (length body)) + length body"
  by (simp add: packet_def)

text \<open>The outcome of a composition: the message, and what it leaves of the connection.\<close>

definition composed :: "mqtt_connection \<Rightarrow> mqtt_connection \<Rightarrow> byte list \<Rightarrow> bool" where
  "composed c c' bs \<longleftrightarrow>
     message_bytes c' = bs \<and> out_length c' = length bs \<and>
     buffer_length c' = buffer_length c \<and> length (buffer c') = length (buffer c) \<and>
     information c' = information c \<and> fragmented_msg_total_length (outbound_message c') = 0"

text \<open>The header goes right before the body.\<close>

lemma store_header:
  assumes "length b = n" "5 \<le> l" "l \<le> n" "length e + 1 \<le> 5"
    and st: "store b (4 - length e) (h # e) = Some b'"
  shows "take (l - 5 + length e + 1) (drop (4 - length e) b') = h # e @ drop 5 (take l b)"
proof -
  have "drop (4 - length e) b' = h # e @ drop 5 b"
    using assms by (auto simp: store_eq_Some drop_append)
  then show ?thesis using assms by (simp add: take_drop)
qed

text \<open>The length that \<open>fini_message\<close> announces: of the whole body, also when only a part is in the buffer.\<close>

definition announced :: "mqtt_connection \<Rightarrow> nat" where
  "announced c = (if fragmented_msg_total_length (outbound_message c) \<noteq> 0
     then fragmented_msg_total_length (outbound_message c) - 5 else out_length c - 5)"

lemma fini_message_bytes:
  fixes c ty dup qos retain
  defines "e \<equiv> encode_length (announced c)"
  assumes "conn_ok c" "small (announced c)"
  shows "\<exists>c'. fini_message c ty dup qos retain = Some c' \<and>
     message_bytes c' = fixed_header_byte ty dup qos retain # e @ payload c \<and>
     out_length c' = 1 + length e + length (payload c) \<and>
     buffer_length c' = buffer_length c \<and> length (buffer c') = length (buffer c) \<and>
     ids c' = ids c \<and> information c' = information c \<and>
     fragmented_msg_total_length (outbound_message c') = fragmented_msg_total_length (outbound_message c) \<and>
     fragmented_msg_data_offset (outbound_message c') =
       fragmented_msg_data_offset (outbound_message c) - of_nat (4 - length e)"
proof -
  let ?h = "fixed_header_byte ty dup qos retain"
  have e: "length e \<le> 4" using assms(3) unfolding e_def by (rule length_encode_small)
  have l: "out_length c - 5 = length (payload c)" using assms(2) by (simp add: length_payload)
  have b: "length (buffer c) = buffer_length c" "5 \<le> out_length c" "out_length c \<le> buffer_length c"
    using assms(2) by (auto simp: conn_ok_def)
  obtain b' where b': "store (buffer c) (4 - length e) (?h # e) = Some b'"
    using b e by (simp add: store_def)
  have m: "take (length (payload c) + length e + 1) (drop (4 - length e) b') = ?h # e @ payload c"
    using store_header [OF b _ b'] e by (simp add: l payload_def)
  have "fini_message c ty dup qos retain = Some (c\<lparr>buffer := b', outbound_message := (outbound_message c)\<lparr>
      msg_length := length (payload c) + length e + 1, msg_data := In_Buffer (4 - length e),
      fragmented_msg_data_offset := fragmented_msg_data_offset (outbound_message c) - of_nat (4 - length e)\<rparr>\<rparr>)"
    using e b' l by (simp add: fini_message_def Let_def e_def announced_def)
  then show ?thesis
    using m store_length [OF b'] by (simp add: message_bytes_def add.commute)
qed

lemma fini_message_packet:
  assumes "conn_ok c" "fragmented_msg_total_length (outbound_message c) = 0" "small (length (payload c))"
  shows "\<exists>c'. fini_message c ty dup qos retain = Some c' \<and>
     composed c c' (packet ty dup qos retain (payload c)) \<and> ids c' = ids c"
  using fini_message_bytes [OF assms(1), of ty dup qos retain] assms
  by (auto simp: composed_def packet_def announced_def length_payload)

lemma fail_message_simps [simp]:
  "out_length (fail_message c) = 0" "message_bytes (fail_message c) = []"
  "buffer (fail_message c) = buffer c" "buffer_length (fail_message c) = buffer_length c"
  "ids (fail_message c) = ids c" "information (fail_message c) = information c"
  "fragmented_msg_total_length (outbound_message (fail_message c)) = fragmented_msg_total_length (outbound_message c)"
  by (simp_all add: fail_message_def message_bytes_def)

text \<open>A composition ends in the packet of its body, or in an empty message when the body does not fit.\<close>

lemma finish_packet:
  assumes "extends st k F n" "conn_ok c" "k \<le> length (payload c)"
    and "fragmented_msg_total_length (outbound_message c) = 0" "small (length (payload c) + n)"
  shows "\<exists>c'. finish st ty dup qos retain c = Some c' \<and> ids c' = ids c \<and>
     composed c c' (if out_length c + n \<le> buffer_length c then packet ty dup qos retain (F (payload c)) else [])"
proof -
  obtain c1 where c1: "same_frame c c1" "ids c1 = ids c"
    "st c = Some (out_length c + n \<le> buffer_length c, c1)"
    "out_length c + n \<le> buffer_length c \<Longrightarrow> conn_ok c1 \<and> payload c1 = F (payload c)"
    "length (F (payload c)) = length (payload c) + n"
    using extendsD [OF assms(1-3)] by metis
  show ?thesis
  proof (cases "out_length c + n \<le> buffer_length c")
    case True
    then show ?thesis
      using fini_message_packet [of c1 ty dup qos retain] c1 assms(4,5)
      by (auto simp: finish_def same_frame_def composed_def)
  next
    case False
    then show ?thesis using c1 assms(4) by (auto simp: finish_def same_frame_def composed_def)
  qed
qed

section \<open>CONNECT\<close>

text \<open>The body of a CONNECT packet, clause by clause of the protocol: header, then payload fields.\<close>

definition connect_flags :: "mqtt_connect_info \<Rightarrow> byte" where
  "connect_flags info =
     (if clean_session info then 0x02 else 0) OR
     (if nonempty (will_topic info)
      then 0x04 OR (if will_retain info then 0x20 else 0) OR word_of_int (push_bit 3 (will_qos info AND 3))
      else 0) OR
     (if nonempty (username info) \<or> nonempty (password info) then 0x80 else 0) OR
     (if nonempty (password info) then 0x40 else 0)"

definition utf8_field :: "byte list \<Rightarrow> byte list" where
  "utf8_field s = be16 (length s) @ s"

text \<open>
  The protocol name and level, the flags and the keep alive time as the standard has them, and
  the fields of the payload.
\<close>

definition connect_body :: "mqtt_connect_info \<Rightarrow> byte list" where
  "connect_body info =
     (if protocol_ver info = MQTT_PROTOCOL_V_3_1 then utf8_field [0x4d, 0x51, 0x49, 0x73, 0x64, 0x70] @ [3]
      else utf8_field [0x4d, 0x51, 0x54, 0x54] @ [4]) @
     [connect_flags info] @ be16 (nat (keepalive info mod 65536)) @
     utf8_field (chars (client_id info)) @
     (if nonempty (will_topic info)
      then utf8_field (chars (will_topic info)) @ utf8_field (take (will_length info) (chars (will_message info)))
      else []) @
     (if nonempty (username info) then utf8_field (chars (username info))
      else if nonempty (password info) then utf8_field [] else []) @
     (if nonempty (password info) then utf8_field (chars (password info)) else [])"

lemma keepalive_bytes:
  "be16 (nat (k mod 65536)) = [word_of_int (drop_bit 8 k AND 0xff), word_of_int (k AND 0xff)]"
  "be16 (nat (k mod 65536)) = [word_of_int (drop_bit 8 k), word_of_int k]"
proof -
  have m: "(x :: int) AND 0xff = x mod 256" for x using take_bit_eq_mask [of 8 x] by (simp add: mask_eq_exp_minus_1 take_bit_eq_mod)
  have w: "(word_of_int x :: byte) = word_of_int y" if "x mod 256 = y mod 256" for x y
    using that by (simp add: word_of_int_eq_iff take_bit_eq_mod)
  have h: "of_nat (nat (k mod 65536) div 256) = (word_of_int (k div 256) :: byte)"
  proof -
    have "of_nat (nat (k mod 65536) div 256) = (word_of_int ((k mod 65536) div 256) :: byte)"
      by (metis of_int_of_nat_eq of_nat_numeral zdiv_int nat_0_le pos_mod_sign zero_less_numeral)
    also have "\<dots> = word_of_int (k div 256)"
    proof (rule w)
      have "k mod (256 * 256) = 256 * (k div 256 mod 256) + k mod 256" by (rule zmod_zmult2_eq) simp
      then show "k mod 65536 div 256 mod 256 = k div 256 mod 256" by simp
    qed
    finally show ?thesis .
  qed
  have l: "of_nat (nat (k mod 65536)) = (word_of_int k :: byte)"
  proof -
    have "of_nat (nat (k mod 65536)) = (word_of_int (k mod 65536) :: byte)" by (metis of_int_of_nat_eq nat_0_le pos_mod_sign zero_less_numeral)
    also have "\<dots> = word_of_int k" by (rule w) (simp add: mod_mod_cancel)
    finally show ?thesis .
  qed
  show "be16 (nat (k mod 65536)) = [word_of_int (drop_bit 8 k), word_of_int k]"
    by (simp add: be16_def h l drop_bit_eq_div)
  have "(word_of_int (x mod 256) :: byte) = word_of_int x" for x by (rule w) simp
  then show "be16 (nat (k mod 65536)) = [word_of_int (drop_bit 8 k AND 0xff), word_of_int (k AND 0xff)]"
    by (simp only: be16_def h l drop_bit_eq_div m) simp
qed

lemma connect_body_eq:
  "connect_body info =
     (connect_header info)[connect_flags_offset info := connect_flags info] @
     utf8_field (chars (client_id info)) @
     (if nonempty (will_topic info)
      then utf8_field (chars (will_topic info)) @ utf8_field (take (will_length info) (chars (will_message info)))
      else []) @
     (if nonempty (username info) then utf8_field (chars (username info))
      else if nonempty (password info) then utf8_field [] else []) @
     (if nonempty (password info) then utf8_field (chars (password info)) else [])"
proof -
  have "(connect_header info)[connect_flags_offset info := connect_flags info] =
     (if protocol_ver info = MQTT_PROTOCOL_V_3_1 then utf8_field [0x4d, 0x51, 0x49, 0x73, 0x64, 0x70] @ [3]
      else utf8_field [0x4d, 0x51, 0x54, 0x54] @ [4]) @ [connect_flags info] @ be16 (nat (keepalive info mod 65536))"
    unfolding keepalive_bytes(2) by (simp add: connect_header_def connect_flags_offset_def utf8_field_def be16_def)
  then show ?thesis by (simp add: connect_body_def)
qed

lemma chars_empty: "\<not> nonempty p \<Longrightarrow> chars p = []"
  by (auto simp: nonempty_def chars_def split: option.splits)

lemma extends_eqI:
  assumes "extends st k F n" "\<And>q. k \<le> length q \<Longrightarrow> F q = G q" "n = m"
  shows "extends st k G m"
  using assms unfolding extends_def by metis

lemma extends_field: "extends (string_step s (length s)) k (\<lambda>q. q @ utf8_field s) (length s + 2)"
  using extends_string [of "length s" s k] by (simp add: utf8_field_def)

text \<open>A step that sets flags in byte \<open>j\<close> of the body and appends \<open>p\<close>.\<close>

abbreviation flag_append :: "nat \<Rightarrow> byte \<Rightarrow> byte list \<Rightarrow> byte list \<Rightarrow> byte list" where
  "flag_append j f p \<equiv> \<lambda>q. q[j := q ! j OR f] @ p"

lemma extends_flag_chain:
  assumes "extends s k (flag_append j f p) m" "extends t k (flag_append j g r) n" "j < k"
  shows "extends (chain s t) k (flag_append j (f OR g) (p @ r)) (m + n)"
  by (rule extends_eqI [OF extends_chain [OF assms(1) extends_mono [OF assms(2)]]])
     (use assms(3) in \<open>auto simp: list_update_append or.assoc nth_append\<close>)

lemma extends_flag_or: "j < k \<Longrightarrow> extends (or_byte (5 + j) f) k (flag_append j f []) 0"
  using extends_or_byte by simp

lemma extends_flag_field: "j < k \<Longrightarrow> extends (string_step s (length s)) k (flag_append j 0 (utf8_field s)) (length s + 2)"
  using extends_field by (rule extends_eqI) auto

lemma extends_flag_string:
  "len \<le> length s \<Longrightarrow> extends (string_step s len) k (flag_append j 0 (utf8_field (take len s))) (len + 2)"
  using extends_string by (rule extends_eqI) (auto simp: utf8_field_def min_def)

lemma extends_flag_proceed: "extends proceed k (flag_append j 0 []) 0"
  using extends_proceed by (rule extends_eqI) auto

lemmas flag_intros = extends_flag_chain extends_flag_or extends_flag_field extends_flag_string extends_flag_proceed

lemma length_utf8_field [simp]: "length (utf8_field s) = length s + 2"
  by (simp add: utf8_field_def)

definition will_ok :: "mqtt_connect_info \<Rightarrow> bool" where
  "will_ok info \<longleftrightarrow> will_length info \<le> length (chars (will_message info))"

text \<open>Every step of the CONNECT composition sets its flag and appends its field.\<close>

definition flag_step :: "build_step \<Rightarrow> nat \<Rightarrow> nat \<Rightarrow> byte \<Rightarrow> byte list \<Rightarrow> bool" where
  "flag_step st k j f p \<longleftrightarrow> j < k \<and> extends st k (flag_append j f p) (length p)"

lemma flag_step_chain [intro]:
  "flag_step s k j f p \<Longrightarrow> flag_step t k j g r \<Longrightarrow> flag_step (chain s t) k j (f OR g) (p @ r)"
  using extends_flag_chain by (auto simp: flag_step_def)

lemma flag_step_or [intro]: "j < k \<Longrightarrow> flag_step (or_byte (5 + j) f) k j f []"
  using extends_flag_or by (auto simp: flag_step_def)

lemma flag_step_field [intro]: "j < k \<Longrightarrow> flag_step (string_step s (length s)) k j 0 (utf8_field s)"
  using extends_flag_field by (auto simp: flag_step_def)

lemma flag_step_string [intro]:
  "j < k \<Longrightarrow> len \<le> length s \<Longrightarrow> flag_step (string_step s len) k j 0 (utf8_field (take len s))"
  using extends_flag_string [of len s k j] by (simp add: flag_step_def min_absorb2)

lemma flag_step_proceed [intro]: "j < k \<Longrightarrow> flag_step proceed k j 0 []"
  using extends_flag_proceed by (auto simp: flag_step_def)

lemma flag_step_if:
  "(b \<Longrightarrow> flag_step s k j f p) \<Longrightarrow> (\<not> b \<Longrightarrow> flag_step t k j g r) \<Longrightarrow>
   flag_step (if b then s else t) k j (if b then f else g) (if b then p else r)"
  by simp

lemma flag_step_eq: "flag_step s k j f p \<Longrightarrow> f = g \<Longrightarrow> p = r \<Longrightarrow> flag_step s k j g r"
  by simp

lemma connect_clean_step:
  "j < k \<Longrightarrow> flag_step (connect_clean info (5 + j)) k j (if clean_session info then 0x02 else 0) []"
  unfolding connect_clean_def by (cases "clean_session info") auto

lemma connect_client_id_step:
  "j < k \<Longrightarrow> flag_step (connect_client_id info) k j 0 (utf8_field (chars (client_id info)))"
  using flag_step_field [of j k "[]"] by (auto simp: connect_client_id_def chars_empty)

lemma connect_will_step:
  assumes "j < k" "will_ok info"
  shows "flag_step (connect_will info (5 + j)) k j
    (if nonempty (will_topic info)
     then 0x04 OR (if will_retain info then 0x20 else 0) OR word_of_int (push_bit 3 (will_qos info AND 3)) else 0)
    (if nonempty (will_topic info)
     then utf8_field (chars (will_topic info)) @ utf8_field (take (will_length info) (chars (will_message info)))
     else [])"
proof (cases "nonempty (will_topic info)")
  case True
  have "flag_step (if will_retain info then or_byte (5 + j) 0x20 else proceed) k j
          (if will_retain info then 0x20 else 0) []"
    using assms(1) by (cases "will_retain info") auto
  note steps = flag_step_chain [OF flag_step_field flag_step_chain [OF flag_step_string
    flag_step_chain [OF flag_step_or flag_step_chain [OF this flag_step_or]]]]
  show ?thesis
    using True assms unfolding connect_will_def will_ok_def
    by (simp only: if_True) (rule flag_step_eq [OF steps]; simp)
next
  case False
  then show ?thesis using assms by (auto simp: connect_will_def)
qed

lemma connect_username_step:
  assumes "j < k"
  shows "flag_step (connect_username info (5 + j)) k j
    (if nonempty (username info) then 0x80 else 0)
    (if nonempty (username info) then utf8_field (chars (username info)) else [])"
proof (cases "nonempty (username info)")
  case True
  then show ?thesis
    using assms unfolding connect_username_def
    by (simp only: if_True) (rule flag_step_eq [OF flag_step_chain [OF flag_step_field flag_step_or]]; simp)
qed (use assms in \<open>auto simp: connect_username_def\<close>)

lemma connect_password_step:
  assumes "j < k"
  shows "flag_step (connect_password info (5 + j)) k j
    (if nonempty (password info) then (if nonempty (username info) then 0 else 0x80) OR 0x40 else 0)
    (if nonempty (password info) then (if nonempty (username info) then [] else utf8_field []) @
       utf8_field (chars (password info)) else [])"
proof (cases "nonempty (password info)")
  case True
  have user: "flag_step (if \<not> nonempty (username info) then chain (string_step [] 0) (or_byte (5 + j) 0x80) else proceed) k j
     (if nonempty (username info) then 0 else 0x80) (if nonempty (username info) then [] else utf8_field [])"
    using assms flag_step_eq [OF flag_step_chain [OF flag_step_field [of j k "[]"] flag_step_or]]
    by (cases "nonempty (username info)") auto
  note steps = flag_step_chain [OF user flag_step_chain [OF flag_step_field flag_step_or]]
  show ?thesis
    using True assms unfolding connect_password_def
    by (simp only: if_True) (rule flag_step_eq [OF steps]; simp)
qed (use assms in \<open>auto simp: connect_password_def\<close>)

lemma length_connect_header: "length (connect_header info) = (if protocol_ver info = MQTT_PROTOCOL_V_3_1 then 12 else 10)"
  by (simp add: connect_header_def)

lemma connect_flags_offset_less: "connect_flags_offset info < length (connect_header info)"
  by (simp add: length_connect_header connect_flags_offset_def)

lemma connect_header_flags: "connect_header info ! connect_flags_offset info = 0"
  by (simp add: connect_header_def connect_flags_offset_def)

definition init_ok :: "mqtt_connection \<Rightarrow> bool" where
  "init_ok c \<longleftrightarrow> length (buffer c) = buffer_length c \<and> 5 \<le> buffer_length c \<and>
     fragmented_msg_total_length (outbound_message c) = 0"

lemma init_header:
  assumes "init_ok c"
  shows "conn_ok (set_message_header_size c)" "payload (set_message_header_size c) = []"
    "out_length (set_message_header_size c) = 5"
    "fragmented_msg_total_length (outbound_message (set_message_header_size c)) = 0"
    "buffer_length (set_message_header_size c) = buffer_length c"
    "length (buffer (set_message_header_size c)) = buffer_length c"
    "ids (set_message_header_size c) = ids c" "information (set_message_header_size c) = information c"
  using assms by (simp_all add: init_ok_def set_message_header_size_def conn_ok_def payload_def)

lemma connect_steps:
  assumes "j < k" "will_ok info"
  shows "flag_step (chain (connect_clean info (5 + j))
     (chain (connect_client_id info) (chain (connect_will info (5 + j))
     (chain (connect_username info (5 + j)) (connect_password info (5 + j)))))) k j
     (connect_flags info) (drop (length (connect_header info)) (connect_body info))"
proof -
  note steps = flag_step_chain [OF connect_clean_step [OF assms(1)]
    flag_step_chain [OF connect_client_id_step [OF assms(1)]
    flag_step_chain [OF connect_will_step [OF assms]
    flag_step_chain [OF connect_username_step [OF assms(1)] connect_password_step [OF assms(1)]]]]]
  show ?thesis
    by (rule flag_step_eq [OF steps]) (auto simp: connect_flags_def connect_body_eq)
qed

lemma composed_same_frame:
  "composed c1 c' bs \<Longrightarrow> same_frame c c1 \<Longrightarrow> composed c c' bs"
  by (simp add: composed_def same_frame_def)

lemma composed_header: "composed (set_message_header_size c) c' bs = composed c c' bs"
  by (simp add: composed_def set_message_header_size_def)

lemma mqtt_msg_connect_composes:
  fixes info
  defines "j \<equiv> connect_flags_offset info"
  assumes will: "will_ok info" and c: "init_ok c" and sm: "small (length (connect_body info))"
  shows "\<exists>c'. mqtt_msg_connect c info = Some c' \<and> ids c' = ids c \<and>
     composed c c' (if 5 + length (connect_body info) \<le> buffer_length c
       then packet 1 0 0 0 (connect_body info) else [])"
proof -
  let ?h = "connect_header info" and ?c = "set_message_header_size c"
  let ?steps = "chain (connect_clean info (5 + j))
     (chain (connect_client_id info) (chain (connect_will info (5 + j))
     (chain (connect_username info (5 + j)) (connect_password info (5 + j)))))"
  define rest where "rest = drop (length ?h) (connect_body info)"
  have k: "j < length ?h" by (simp add: j_def connect_flags_offset_less)
  have body: "connect_body info = ?h[j := ?h ! j OR connect_flags info] @ rest"
    by (simp add: rest_def) (simp add: connect_body_eq j_def connect_header_flags)
  then have len: "length (connect_body info) = length ?h + length rest" by simp
  have "extends ?steps (0 + length ?h) (flag_append j (connect_flags info) rest) (length rest)"
    using connect_steps [OF k will] by (simp add: flag_step_def rest_def)
  note fin = finish_packet [OF extends_chain [OF extends_raw this], of ?c 1 0 0 0]
  show ?thesis
    using fin init_header [OF c] sm
    by (simp add: mqtt_msg_connect_def j_def [symmetric] composed_header len body [symmetric] add.assoc
        Let_def cong: if_cong)
qed

section \<open>Packet identifiers\<close>

lemma assign_message_id_nonzero: "assign_message_id src = Some (m, src') \<Longrightarrow> m \<noteq> 0"
proof (induction src rule: assign_message_id.induct)
  case (1 prev) then show ?case by (auto simp: Let_def simp del: assign_message_id.simps(1) split: if_splits)
      (simp_all add: assign_message_id.simps(1) [of prev] Let_def split: if_splits)
next
  case (3 r rs) then show ?case by (auto simp: Let_def split: if_splits)
qed simp

text \<open>Incremental identifiers: the successor, or 1 after a wrap-around.\<close>

lemma assign_message_id_incremental:
  "assign_message_id (Incremental prev) =
     Some (if prev + 1 = 0 then 1 else prev + 1, Incremental (if prev + 1 = 0 then 1 else prev + 1))"
  by (cases "prev + 1 = 0") (simp_all add: Let_def)

definition next_id :: "mqtt_connection \<Rightarrow> 16 word \<Rightarrow> (16 word \<times> id_source) option" where
  "next_id c message_id = (if message_id = 0 then assign_message_id (ids c) else Some (message_id, ids c))"

lemma next_id_nonzero: "next_id c mid = Some (m, src) \<Longrightarrow> m \<noteq> 0"
  by (auto simp: next_id_def assign_message_id_nonzero split: if_splits)

lemma append_message_id_spec:
  assumes "conn_ok c" "next_id c mid = Some (m, src)"
  shows "\<exists>c'. append_message_id c mid = Some (if out_length c + 2 \<le> buffer_length c then m else 0, c') \<and>
    conn_ok c' \<and> same_frame c c' \<and> ids c' = src \<and>
    (out_length c + 2 \<le> buffer_length c \<longrightarrow> payload c' = payload c @ be16 (unat m))"
proof -
  have ok: "conn_ok (c\<lparr>ids := src\<rparr>)" and fr: "same_frame c (c\<lparr>ids := src\<rparr>)"
    and pl: "payload (c\<lparr>ids := src\<rparr>) = payload c"
    using assms(1) by (simp_all add: conn_ok_def same_frame_def payload_def)
  have "append_message_id c mid =
    (if out_length c + 2 > buffer_length c then Some (0, c\<lparr>ids := src\<rparr>)
     else do { b \<leftarrow> store (buffer c) (out_length c) (be16 (unat m));
               Some (m, set_out_length (c\<lparr>ids := src, buffer := b\<rparr>) (out_length c + 2)) })"
    using assms(2) by (auto simp: append_message_id_def next_id_def split: if_splits)
  then show ?thesis
    using append_block [OF ok, of "be16 (unat m)"] ok fr pl same_frame_trans [OF fr]
    by (cases "out_length c + 2 \<le> buffer_length c") (auto simp: Let_def)
qed

text \<open>The identifier right behind the fixed header, as every packet with an identifier but PUBLISH has it.\<close>

lemma header_message_id:
  assumes "init_ok c" "next_id c mid = Some (m, src)"
  obtains c1 where "append_message_id (set_message_header_size c) mid =
      Some (if 7 \<le> buffer_length c then m else 0, c1)"
    "conn_ok c1" "same_frame c c1" "ids c1 = src"
    "7 \<le> buffer_length c \<Longrightarrow> payload c1 = be16 (unat m)"
    "fragmented_msg_total_length (outbound_message c1) = 0" "buffer_length c1 = buffer_length c"
proof -
  let ?c = "set_message_header_size c"
  have nx: "next_id ?c mid = Some (m, src)"
    using assms by (auto simp: next_id_def init_header split: if_splits)
  obtain c1 where c1: "append_message_id ?c mid = Some (if 7 \<le> buffer_length c then m else 0, c1)"
    "conn_ok c1" "same_frame ?c c1" "ids c1 = src"
    "7 \<le> buffer_length c \<longrightarrow> payload c1 = be16 (unat m)"
    using append_message_id_spec [OF init_header(1) [OF assms(1)] nx] init_header [OF assms(1)] by auto
  have "same_frame c ?c" by (simp add: same_frame_def set_message_header_size_def)
  then have "same_frame c c1" using c1(3) by (rule same_frame_trans)
  with c1 assms(1) that show ?thesis by (auto simp: same_frame_def init_ok_def)
qed

section \<open>Acknowledgements\<close>

lemma ack_message_composes:
  assumes "init_ok c" "next_id c mid = Some (m, src)"
  shows "\<exists>c'. ack_message ty qos c mid = Some c' \<and> ids c' = src \<and>
     composed c c' (if 7 \<le> buffer_length c then packet ty 0 qos 0 (be16 (unat m)) else [])"
proof -
  obtain c1 where c1: "append_message_id (set_message_header_size c) mid =
      Some (if 7 \<le> buffer_length c then m else 0, c1)"
    "conn_ok c1" "same_frame c c1" "ids c1 = src"
    "7 \<le> buffer_length c \<Longrightarrow> payload c1 = be16 (unat m)"
    and f: "fragmented_msg_total_length (outbound_message c1) = 0"
    using header_message_id [OF assms] by metis
  show ?thesis
  proof (cases "7 \<le> buffer_length c")
    case True
    then obtain c' where "fini_message c1 ty 0 qos 0 = Some c'"
      "composed c1 c' (packet ty 0 qos 0 (be16 (unat m)))" "ids c' = ids c1"
      using fini_message_packet [OF c1(2) f, of ty 0 qos 0] c1(5) by auto
    then show ?thesis
      using True c1 next_id_nonzero [OF assms(2)] composed_same_frame by (auto simp: ack_message_def)
  next
    case False
    then show ?thesis using c1 f by (auto simp: ack_message_def composed_def same_frame_def)
  qed
qed

section \<open>SUBSCRIBE and UNSUBSCRIBE\<close>

definition subscribe_body :: "esp_mqtt_topic list \<Rightarrow> byte list" where
  "subscribe_body ts = concat (map (\<lambda>t. utf8_field (topic_filter t) @ [word_of_int (topic_qos t)]) ts)"

lemma subscribe_topics_extends:
  "\<forall>t \<in> set ts. topic_filter t \<noteq> [] \<Longrightarrow>
   extends (subscribe_topics ts) 0 (\<lambda>q. q @ subscribe_body ts) (length (subscribe_body ts))"
proof (induction ts)
  case Nil
  then show ?case using extends_proceed [of 0] by (simp add: subscribe_body_def)
next
  case (Cons t ts)
  have rest: "extends (subscribe_topics ts) k (\<lambda>q. q @ subscribe_body ts) (length (subscribe_body ts))" for k
    by (rule extends_mono [OF Cons.IH]) (use Cons.prems in auto)
  show ?case
    using Cons.prems
      extends_eqI [OF extends_chain [OF extends_field [of "topic_filter t" 0]
        extends_chain [OF extends_raw [of "[word_of_int (topic_qos t)]"] rest]],
        of "\<lambda>q. q @ subscribe_body (t # ts)" "length (subscribe_body (t # ts))"]
    by (simp add: subscribe_body_def)
qed

lemma subscribe_topics_rejects:
  "\<exists>t \<in> set ts. topic_filter t = [] \<Longrightarrow> conn_ok c \<Longrightarrow>
   \<exists>c'. subscribe_topics ts c = Some (False, c') \<and> same_frame c c' \<and> ids c' = ids c"
proof (induction ts arbitrary: c)
  case (Cons t ts)
  show ?case
  proof (cases "topic_filter t = []")
    case False
    have "extends (chain (string_step (topic_filter t) (length (topic_filter t))) (raw_step [word_of_int (topic_qos t)])) 0
      (\<lambda>q. (q @ utf8_field (topic_filter t)) @ [word_of_int (topic_qos t)]) (length (topic_filter t) + 2 + 1)"
      using extends_chain [OF extends_field [of "topic_filter t" 0] extends_raw [of "[word_of_int (topic_qos t)]"]]
      by simp
    from extendsD [OF this Cons.prems(2)]
    obtain c1 ok where c1: "ok \<Longrightarrow> conn_ok c1" "same_frame c c1" "ids c1 = ids c"
      "chain (string_step (topic_filter t) (length (topic_filter t))) (raw_step [word_of_int (topic_qos t)]) c = Some (ok, c1)"
      by (metis le0)
    have eq: "subscribe_topics (t # ts) c = (if ok then subscribe_topics ts c1 else Some (False, c1))"
      using c1(4) False by (auto simp: chain_def split: prod.splits if_splits bind_splits)
    have "\<exists>t \<in> set ts. topic_filter t = []" using Cons.prems(1) False by simp
    note IH = Cons.IH [OF this]
    show ?thesis
    proof (cases ok)
      case True
      from IH [OF c1(1) [OF True]] show ?thesis using eq True c1(2,3) same_frame_trans by auto
    qed (use eq c1 in auto)
  qed auto
qed simp

lemma mqtt_msg_subscribe_composes:
  assumes "init_ok c" "next_id c 0 = Some (m, src)" "small (2 + length (subscribe_body ts))"
  shows "\<exists>c' m'. mqtt_msg_subscribe c ts = Some (c', m') \<and> ids c' = src \<and>
     (7 \<le> buffer_length c \<longrightarrow> m' = m) \<and>
     composed c c' (if (\<forall>t \<in> set ts. topic_filter t \<noteq> []) \<and> 7 + length (subscribe_body ts) \<le> buffer_length c
       then packet 8 0 1 0 (be16 (unat m) @ subscribe_body ts) else [])"
proof -
  obtain c1 where c1: "append_message_id (set_message_header_size c) 0 =
      Some (if 7 \<le> buffer_length c then m else 0, c1)"
    "conn_ok c1" "same_frame c c1" "ids c1 = src"
    "7 \<le> buffer_length c \<Longrightarrow> payload c1 = be16 (unat m)"
    and f: "fragmented_msg_total_length (outbound_message c1) = 0"
    and bl: "buffer_length c1 = buffer_length c"
    using header_message_id [OF assms(1,2)] by metis
  show ?thesis
  proof (cases "7 \<le> buffer_length c")
    case False
    then show ?thesis using c1 f by (auto simp: mqtt_msg_subscribe_def composed_def same_frame_def)
  next
    case True
    have p: "payload c1 = be16 (unat m)" using c1(5) True by simp
    have run: "mqtt_msg_subscribe c ts = do { c \<leftarrow> finish (subscribe_topics ts) 8 0 1 0 c1; Some (c, m) }"
      using True c1(1) next_id_nonzero [OF assms(2)] by (simp add: mqtt_msg_subscribe_def)
    show ?thesis
    proof (cases "\<forall>t \<in> set ts. topic_filter t \<noteq> []")
      case ne: True
      have "out_length c1 + length (subscribe_body ts) = 7 + length (subscribe_body ts)"
        using out_length_payload [OF c1(2)] p by simp
      then show ?thesis
        using finish_packet [OF subscribe_topics_extends [OF ne] c1(2), of 8 0 1 0] run p f bl assms(3) c1 ne True
          composed_same_frame [OF _ c1(3)] by (auto cong: if_cong)
    next
      case False
      then obtain c2 where "subscribe_topics ts c1 = Some (False, c2)" "same_frame c1 c2" "ids c2 = ids c1"
        using subscribe_topics_rejects [of ts c1] c1(2) by auto
      then show ?thesis using run False f c1 True
        by (auto simp: finish_def composed_def same_frame_def)
    qed
  qed
qed

lemma mqtt_msg_unsubscribe_composes:
  assumes "init_ok c" "next_id c 0 = Some (m, src)" "small (4 + length (chars topic))" "nonempty topic"
  shows "\<exists>c' m'. mqtt_msg_unsubscribe c topic mid = Some (c', m') \<and> ids c' = src \<and>
     (7 \<le> buffer_length c \<longrightarrow> m' = m) \<and>
     composed c c' (if 9 + length (chars topic) \<le> buffer_length c
       then packet 10 0 1 0 (be16 (unat m) @ utf8_field (chars topic)) else [])"
proof -
  obtain c1 where c1: "append_message_id (set_message_header_size c) 0 =
      Some (if 7 \<le> buffer_length c then m else 0, c1)"
    "conn_ok c1" "same_frame c c1" "ids c1 = src"
    "7 \<le> buffer_length c \<Longrightarrow> payload c1 = be16 (unat m)"
    and f: "fragmented_msg_total_length (outbound_message c1) = 0"
    and bl: "buffer_length c1 = buffer_length c"
    using header_message_id [OF assms(1,2)] by metis
  show ?thesis
  proof (cases "7 \<le> buffer_length c")
    case False
    then show ?thesis using c1 f assms(4)
      by (auto simp: mqtt_msg_unsubscribe_def composed_def same_frame_def)
  next
    case True
    have p: "payload c1 = be16 (unat m)" using c1(5) True by simp
    have run: "mqtt_msg_unsubscribe c topic mid =
        do { c \<leftarrow> finish (string_step (chars topic) (length (chars topic))) 10 0 1 0 c1; Some (c, m) }"
      using True c1(1) next_id_nonzero [OF assms(2)] assms(4) by (simp add: mqtt_msg_unsubscribe_def)
    have "out_length c1 + (length (chars topic) + 2) = 9 + length (chars topic)"
      using out_length_payload [OF c1(2)] p by simp
    then show ?thesis
      using finish_packet [OF extends_field [of "chars topic" 0] c1(2), of 10 0 1 0] run p f bl assms(3) c1 True
        composed_same_frame [OF _ c1(3)] by (auto cong: if_cong)
  qed
qed

section \<open>Messages without a body\<close>

lemma bodyless_composes:
  assumes "init_ok c"
  shows "\<exists>c'. fini_message (set_message_header_size c) ty 0 0 0 = Some c' \<and> ids c' = ids c \<and>
     composed c c' (packet ty 0 0 0 [])"
  using fini_message_packet [OF init_header(1) [OF assms], of ty 0 0 0] init_header [OF assms]
  by (auto simp: composed_header)

section \<open>PUBLISH\<close>

definition publish_body :: "cstring \<Rightarrow> 16 word option \<Rightarrow> byte list \<Rightarrow> byte list" where
  "publish_body topic mid data =
     utf8_field topic @ (case mid of None \<Rightarrow> [] | Some m \<Rightarrow> be16 (unat m)) @ data"

text \<open>Topic and identifier: the part of a PUBLISH that must fit the buffer.\<close>

lemma publish_header:
  assumes c: "init_ok c" and t: "nonempty topic" and d: "data = None \<longrightarrow> data_length = 0"
    and id: "qos > 0 \<longrightarrow> next_id c 0 = Some (m, src)"
  defines "mid \<equiv> (if qos > 0 then Some m else None)"
  defines "h \<equiv> publish_body (chars topic) mid []"
  shows "\<exists>c1. conn_ok c1 \<and> same_frame c c1 \<and> ids c1 = (if qos > 0 \<and> 7 + length (chars topic) \<le> buffer_length c then src else ids c) \<and>
    (if 5 + length h \<le> buffer_length c then payload c1 = h \<and>
        mqtt_msg_publish c topic data data_length qos retain mid0 =
          do { c \<leftarrow> publish_payload data data_length c1; c \<leftarrow> fini_message c 3 0 qos retain;
               Some (c, if qos > 0 then m else 0) }
     else \<exists>m'. mqtt_msg_publish c topic data data_length qos retain mid0 = Some (fail_message c1, m'))"
proof -
  let ?c = "set_message_header_size c"
  have fr: "same_frame c ?c" by (simp add: same_frame_def set_message_header_size_def)
  obtain c1 where fits: "same_frame ?c c1" "ids c1 = ids ?c"
    "string_step (chars topic) (length (chars topic)) ?c = Some (7 + length (chars topic) \<le> buffer_length c, c1)"
    "7 + length (chars topic) \<le> buffer_length c \<Longrightarrow> conn_ok c1 \<and> payload c1 = utf8_field (chars topic)"
    using extendsD [OF extends_field [of "chars topic" 0] init_header(1) [OF c]] init_header [OF c]
    by (auto simp: add.commute add.left_commute)
  then have c1: "conn_ok c1" "same_frame ?c c1" "ids c1 = ids ?c"
    "string_step (chars topic) (length (chars topic)) ?c = Some (7 + length (chars topic) \<le> buffer_length c, c1)"
    "7 + length (chars topic) \<le> buffer_length c \<Longrightarrow> payload c1 = utf8_field (chars topic)"
    using string_step_ok [OF init_header(1) [OF c]] by blast+
  then obtain r where r: "append_string ?c (chars topic) (length (chars topic)) = Some (r, c1)"
    "r < 0 \<longleftrightarrow> \<not> 7 + length (chars topic) \<le> buffer_length c"
    by (auto simp: string_step_def bind_eq_Some_conv)
  have f1: "same_frame c c1" using fr c1(2) by (rule same_frame_trans)
  show ?thesis
  proof (cases "7 + length (chars topic) \<le> buffer_length c")
    case False
    then show ?thesis using r c1 f1 t init_header [OF c]
      by (auto simp: mqtt_msg_publish_def h_def publish_body_def mid_def)
  next
    case True
    have p: "payload c1 = utf8_field (chars topic)" using c1(5) True by simp
    have l: "out_length c1 = 7 + length (chars topic)" using out_length_payload [OF c1(1)] p by simp
    show ?thesis
    proof (cases "qos > 0")
      case False
      then show ?thesis using True r c1 f1 t d p init_header [OF c]
        by (intro exI [of _ c1]) (auto simp: mqtt_msg_publish_def h_def publish_body_def mid_def)
    next
      case q: True
      have "next_id c1 0 = Some (m, src)"
        using q id c1(3) init_header [OF c] by (simp add: next_id_def)
      then obtain c2 where c2: "append_message_id c1 0 = Some (if 9 + length (chars topic) \<le> buffer_length c then m else 0, c2)"
        "conn_ok c2" "same_frame c1 c2" "ids c2 = src"
        "9 + length (chars topic) \<le> buffer_length c \<longrightarrow> payload c2 = utf8_field (chars topic) @ be16 (unat m)"
        using append_message_id_spec [OF c1(1)] l p f1 by (fastforce simp: same_frame_def)
      have "m \<noteq> 0" using q id next_id_nonzero by blast
      then show ?thesis using q True r c1 c2 f1 t d same_frame_trans [OF f1 c2(3)]
        by (intro exI [of _ c2]) (auto simp: mqtt_msg_publish_def h_def publish_body_def mid_def)
    qed
  qed
qed

text \<open>What the payload step leaves: the bytes that fit, and the fragment fields.\<close>

lemma publish_payload_fits:
  assumes "conn_ok c" "fragmented_msg_total_length (outbound_message c) = 0"
    and "data_length \<le> length (chars data)" "out_length c + data_length \<le> buffer_length c"
  shows "\<exists>c'. publish_payload data data_length c = Some c' \<and> conn_ok c' \<and> ids c' = ids c \<and>
     payload c' = payload c @ take data_length (chars data) \<and>
     fragmented_msg_total_length (outbound_message c') = 0 \<and>
     buffer_length c' = buffer_length c \<and> length (buffer c') = length (buffer c) \<and>
     information c' = information c"
proof (cases data)
  case None
  then show ?thesis using assms by (simp add: publish_payload_def chars_def)
next
  case (Some d)
  then have d: "data_length \<le> length d" using assms(3) by (simp add: chars_def)
  obtain b where b: "store (buffer c) (out_length c) (take data_length d) = Some b"
    "conn_ok (set_out_length (c\<lparr>buffer := b\<rparr>) (out_length c + data_length))"
    "payload (set_out_length (c\<lparr>buffer := b\<rparr>) (out_length c + data_length)) = payload c @ take data_length d"
    using append_block [OF assms(1), of "take data_length d"] d assms(4) by (auto simp: Let_def min_absorb2)
  then show ?thesis using assms d Some store_length [OF b(1)]
    by (auto simp: publish_payload_def fetch_def chars_def Let_def set_out_length_def conn_ok_def payload_def)
qed

lemma publish_payload_cut:
  assumes "conn_ok c" "data_length \<le> length d" "buffer_length c < out_length c + data_length"
  shows "\<exists>c'. publish_payload (Some d) data_length c = Some c' \<and> conn_ok c' \<and> ids c' = ids c \<and>
     payload c' = payload c @ take (buffer_length c - out_length c) d \<and>
     fragmented_msg_total_length (outbound_message c') = data_length + out_length c \<and>
     fragmented_msg_data_offset (outbound_message c') = of_nat (out_length c) \<and>
     buffer_length c' = buffer_length c \<and> length (buffer c') = length (buffer c) \<and>
     information c' = information c"
proof -
  let ?n = "buffer_length c - out_length c"
  have n: "?n \<le> length d" "out_length c + ?n = buffer_length c"
    using assms by (auto simp: conn_ok_def)
  obtain b where b: "store (buffer c) (out_length c) (take ?n d) = Some b"
    "conn_ok (set_out_length (c\<lparr>buffer := b\<rparr>) (buffer_length c))"
    "payload (set_out_length (c\<lparr>buffer := b\<rparr>) (buffer_length c)) = payload c @ take ?n d"
    using append_block [OF assms(1), of "take ?n d"] n by (auto simp: Let_def min_absorb2)
  then show ?thesis using assms n store_length [OF b(1)]
    by (auto simp: publish_payload_def fetch_def Let_def set_out_length_def conn_ok_def payload_def)
qed

lemma publish_body_data: "publish_body topic mid d = publish_body topic mid [] @ d"
  by (simp add: publish_body_def)

text \<open>A PUBLISH that fits the buffer, and one whose header alone does not.\<close>

lemma mqtt_msg_publish_composes:
  assumes c: "init_ok c" and t: "nonempty topic" and d: "data_length \<le> length (chars data)"
    and id: "qos > 0 \<longrightarrow> next_id c 0 = Some (m, src)"
    and sm: "small (length (publish_body (chars topic) (if qos > 0 then Some m else None) (take data_length (chars data))))"
    and fits: "5 + length (publish_body (chars topic) (if qos > 0 then Some m else None) (take data_length (chars data)))
      \<le> buffer_length c"
  shows "\<exists>c'. mqtt_msg_publish c topic data data_length qos retain mid0 = Some (c', if qos > 0 then m else 0) \<and>
     ids c' = (if qos > 0 then src else ids c) \<and>
     composed c c' (packet 3 0 qos retain
       (publish_body (chars topic) (if qos > 0 then Some m else None) (take data_length (chars data))))"
proof -
  let ?mid = "if qos > 0 then Some m else None"
  let ?h = "publish_body (chars topic) ?mid []"
  have dn: "data = None \<longrightarrow> data_length = 0" using d by (auto simp: chars_def)
  have body: "publish_body (chars topic) ?mid (take data_length (chars data)) = ?h @ take data_length (chars data)"
    by (rule publish_body_data)
  have f0: "5 + length ?h + data_length \<le> buffer_length c" using fits d by (simp add: body)
  have q7: "qos > 0 \<longrightarrow> 7 + length (chars topic) \<le> buffer_length c"
    using f0 by (auto simp: publish_body_def)
  obtain c1 where c1: "conn_ok c1" "same_frame c c1" "ids c1 = (if qos > 0 then src else ids c)"
    "payload c1 = ?h" and run: "mqtt_msg_publish c topic data data_length qos retain mid0 =
          do { c \<leftarrow> publish_payload data data_length c1; c \<leftarrow> fini_message c 3 0 qos retain;
               Some (c, if qos > 0 then m else 0) }"
    using publish_header [OF c t dn id, of retain mid0] f0 q7 by (fastforce split: if_splits)
  have "out_length c1 = 5 + length ?h" "buffer_length c1 = buffer_length c"
    "fragmented_msg_total_length (outbound_message c1) = 0"
    using out_length_payload [OF c1(1)] c1(2,4) c by (auto simp: same_frame_def init_ok_def)
  then obtain c2 where c2: "publish_payload data data_length c1 = Some c2" "conn_ok c2" "ids c2 = ids c1"
     "payload c2 = ?h @ take data_length (chars data)"
     "fragmented_msg_total_length (outbound_message c2) = 0"
     "buffer_length c2 = buffer_length c" "length (buffer c2) = length (buffer c)" "information c2 = information c"
    using publish_payload_fits [OF c1(1) _ d] f0 c1(2,4) by (auto simp: same_frame_def)
  show ?thesis
    using fini_message_packet [OF c2(2,5), of 3 0 qos retain] sm run c1 c2
    by (auto simp: body composed_def)
qed

text \<open>A PUBLISH longer than the buffer: the message is the first part of the packet.\<close>

lemma mqtt_msg_publish_fragments:
  fixes qos
  assumes c: "init_ok c" and t: "nonempty topic" and d: "data_length \<le> length d"
    and id: "qos > 0 \<longrightarrow> next_id c 0 = Some (m, src)"
  defines "h \<equiv> publish_body (chars topic) (if qos > 0 then Some m else None) []"
  defines "e \<equiv> encode_length (length h + data_length)"
  assumes sm: "small (length h + data_length)"
    and head: "5 + length h \<le> buffer_length c" and long: "buffer_length c < 5 + length h + data_length"
  shows "\<exists>c'. mqtt_msg_publish c topic (Some d) data_length qos retain mid0 = Some (c', if qos > 0 then m else 0) \<and>
     ids c' = (if qos > 0 then src else ids c) \<and>
     message_bytes c' @ drop (buffer_length c - 5 - length h) (take data_length d) = packet 3 0 qos retain (h @ take data_length d) \<and>
     out_length c' = length (message_bytes c') \<and> out_length c' = buffer_length c - (4 - length e) \<and>
     buffer_length c' = buffer_length c \<and> length (buffer c') = length (buffer c) \<and> information c' = information c \<and>
     fragmented_msg_total_length (outbound_message c') = 5 + length h + data_length \<and>
     fragmented_msg_data_offset (outbound_message c') = of_nat (1 + length e + length h)"
proof -
  have e: "length e \<le> 4" using sm unfolding e_def by (rule length_encode_small)
  have q7: "qos > 0 \<longrightarrow> 7 + length (chars topic) \<le> buffer_length c"
    using head by (auto simp: publish_body_def h_def)
  obtain c1 where c1: "conn_ok c1" "same_frame c c1" "ids c1 = (if qos > 0 then src else ids c)"
    "payload c1 = h" and run: "mqtt_msg_publish c topic (Some d) data_length qos retain mid0 =
          do { c \<leftarrow> publish_payload (Some d) data_length c1; c \<leftarrow> fini_message c 3 0 qos retain;
               Some (c, if qos > 0 then m else 0) }"
    using publish_header [OF c t _ id, of "Some d" data_length retain mid0] head q7
    unfolding h_def by (fastforce split: if_splits)
  have l: "out_length c1 = 5 + length h" "buffer_length c1 = buffer_length c"
    using out_length_payload [OF c1(1)] c1(2,4) by (auto simp: same_frame_def)
  then obtain c2 where c2: "publish_payload (Some d) data_length c1 = Some c2" "conn_ok c2" "ids c2 = ids c1"
     "payload c2 = h @ take (buffer_length c - (5 + length h)) d"
     "fragmented_msg_total_length (outbound_message c2) = data_length + (5 + length h)"
     "fragmented_msg_data_offset (outbound_message c2) = of_nat (5 + length h)"
     "buffer_length c2 = buffer_length c" "length (buffer c2) = length (buffer c)" "information c2 = information c"
    using publish_payload_cut [OF c1(1) d] long c1(2,4) by (auto simp: same_frame_def)
  have an: "announced c2 = length h + data_length" using c2(5) by (simp add: announced_def)
  have take_d: "take (buffer_length c - (5 + length h)) d = take (buffer_length c - (5 + length h)) (take data_length d)"
    using long by (simp add: min_absorb1)
  have off: "(of_nat (5 + length h) :: 32 word) - of_nat (4 - length e) = of_nat (1 + length e + length h)"
    using e by (simp only: flip: of_nat_diff) (simp add: add.commute)
  have n: "length (take (buffer_length c - (5 + length h)) d) = buffer_length c - (5 + length h)"
    using long d by simp
  have whole: "take (buffer_length c - (5 + length h)) d @ drop (buffer_length c - 5 - length h) (take data_length d)
      = take data_length d"
    by (subst take_d) (simp del: take_take)
  obtain c' where c': "fini_message c2 3 0 qos retain = Some c'"
    "message_bytes c' = fixed_header_byte 3 0 qos retain # e @ payload c2"
    "out_length c' = 1 + length e + length (payload c2)"
    "buffer_length c' = buffer_length c2" "length (buffer c') = length (buffer c2)"
    "ids c' = ids c2" "information c' = information c2"
    "fragmented_msg_total_length (outbound_message c') = fragmented_msg_total_length (outbound_message c2)"
    "fragmented_msg_data_offset (outbound_message c') = of_nat (1 + length e + length h)"
    using fini_message_bytes [OF c2(2), of 3 0 qos retain, unfolded an e_def [symmetric]] sm
    by (auto simp: c2(6) off simp del: of_nat_add)
  have "message_bytes c' @ drop (buffer_length c - 5 - length h) (take data_length d)
      = packet 3 0 qos retain (h @ take data_length d)"
    using whole d by (simp add: c' c2(4) packet_def e_def)
  moreover have "out_length c' = buffer_length c - (4 - length e)"
    using c'(3) n c2(4) e head by simp
  ultimately show ?thesis
    using run c2 c' c1(3) by simp
qed

end
