(* ===== verification/Mqtt_Message_Props.thy ===== *)
theory Mqtt_Message_Props
  imports Mqtt_Message_Build
begin

text \<open>
  The parsing side of \<^verbatim>\<open>lib/mqtt_msg.c\<close> (bounds, and what the parsers read from a composed or
  partly received packet), the contract of the packet builders as the locale
  \<open>packet_builder\<close> with one interpretation per builder, and the properties of the codec.
\<close>

section \<open>Header byte\<close>

lemma fixed_header_fields:
  assumes "0 \<le> ty" "ty < 16" "dup \<in> {0, 1}" "0 \<le> qos" "qos < 4" "retain \<in> {0, 1}"
  shows "mqtt_get_type (fixed_header_byte ty dup qos retain # b) = Some ty"
    and "mqtt_get_qos (fixed_header_byte ty dup qos retain # b) = Some (nat qos)"
    and "mqtt_get_dup (fixed_header_byte ty dup qos retain # b) = Some (nat dup)"
    and "mqtt_get_retain (fixed_header_byte ty dup qos retain # b) = Some (nat retain)"
proof -
  have ty: "ty \<in> {0,1,2,3,4,5,6,7,8,9,10,11,12,13,14,15}" and qos: "qos \<in> {0,1,2,3}"
    using assms by (simp_all only: insert_iff empty_iff) presburger+
  show "mqtt_get_type (fixed_header_byte ty dup qos retain # b) = Some ty"
    using ty qos assms(3,6) by (elim insertE emptyE) (simp_all add: mqtt_get_type_def load_def fixed_header_byte_def)
  show "mqtt_get_qos (fixed_header_byte ty dup qos retain # b) = Some (nat qos)"
    using ty qos assms(3,6) by (elim insertE emptyE) (simp_all add: mqtt_get_qos_def load_def fixed_header_byte_def)
  show "mqtt_get_dup (fixed_header_byte ty dup qos retain # b) = Some (nat dup)"
    using ty qos assms(3,6) by (elim insertE emptyE) (simp_all add: mqtt_get_dup_def load_def fixed_header_byte_def)
  show "mqtt_get_retain (fixed_header_byte ty dup qos retain # b) = Some (nat retain)"
    using ty qos assms(3,6) by (elim insertE emptyE) (simp_all add: mqtt_get_retain_def load_def fixed_header_byte_def)
qed

section \<open>Parsers stay inside the buffer\<close>

lemma decode_length_total:
  "len \<le> length b \<Longrightarrow> 1 \<le> i \<Longrightarrow> i \<le> 5 \<Longrightarrow>
   \<exists>j t'. decode_length b len i t = Some (j, t') \<and> i \<le> j \<and> j \<le> 5 \<and> (i \<le> len \<longrightarrow> j \<le> len)"
proof (induction b len i t rule: decode_length.induct)
  case (1 b len i t)
  show ?case
  proof (cases "i < len \<and> i \<le> 4 \<and> b ! i AND 0x80 \<noteq> 0")
    case True
    then show ?thesis using "1.IH" [of "b ! i"] "1.prems"
      by (subst decode_length.simps) (force simp: load_def)
  next
    case False
    then show ?thesis using "1.prems" by (subst decode_length.simps) (auto simp: load_def Let_def)
  qed
qed

lemma skip_length_total:
  "len \<le> length b \<Longrightarrow> \<exists>j. skip_length b len i = Some j \<and> i \<le> j \<and> (i \<le> len \<longrightarrow> j \<le> len)"
proof (induction b len i rule: skip_length.induct)
  case (1 b len i)
  show ?case
  proof (cases "i < len \<and> b ! i AND 0x80 \<noteq> 0")
    case True
    then show ?thesis using "1.IH" [of "b ! i"] "1.prems"
      by (subst skip_length.simps) (force simp: load_def)
  next
    case False
    then show ?thesis using "1.prems" by (subst skip_length.simps) (auto simp: load_def Let_def)
  qed
qed

lemma header_complete_loop_total:
  "len \<le> length b \<Longrightarrow> \<exists>r. header_complete_loop b len i = Some r \<and> (\<forall>j. r = Some j \<longrightarrow> i \<le> j)"
proof (induction b len i rule: header_complete_loop.induct)
  case (1 b len i)
  show ?case
  proof (cases "i < len \<and> i < 5 \<and> b ! i AND 0x80 \<noteq> 0")
    case True
    then show ?thesis using "1.IH" [of "b ! i"] "1.prems"
      by (subst header_complete_loop.simps) (force simp: load_def)
  next
    case False
    then show ?thesis using "1.prems" by (subst header_complete_loop.simps) (auto simp: load_def Let_def)
  qed
qed

lemma header_byte_total:
  "0 < length b \<Longrightarrow> mqtt_get_type b \<noteq> None" "0 < length b \<Longrightarrow> mqtt_get_qos b \<noteq> None"
  "0 < length b \<Longrightarrow> mqtt_get_dup b \<noteq> None"
  by (simp_all add: mqtt_get_type_def mqtt_get_qos_def mqtt_get_dup_def load_def)

lemma mqtt_get_publish_topic_inside:
  assumes "len \<le> length b"
  shows "\<exists>r. mqtt_get_publish_topic b len = Some r \<and> (\<forall>off n. r = Some (off, n) \<longrightarrow> off + n \<le> len)"
proof -
  obtain i where i: "skip_length b len 1 = Some i" using skip_length_total [OF assms, of 1] by auto
  show ?thesis using assms
    by (simp add: mqtt_get_publish_topic_def i del: One_nat_def) (auto simp: load_def Let_def)
qed

lemma mqtt_get_publish_data_inside:
  assumes "len \<le> length b"
  shows "\<exists>p n. mqtt_get_publish_data b len = Some (p, n) \<and> (\<forall>off. p = Some off \<longrightarrow> off + n \<le> len) \<and> (p = None \<longrightarrow> n = 0)"
proof -
  obtain i t where i: "decode_length b len 1 0 = Some (i, t)" using decode_length_total [OF assms, of 1 0] by auto
  show ?thesis
  proof (cases "i + 2 < len")
    case True
    then obtain q where q: "mqtt_get_qos b = Some q" using header_byte_total(2) [of b] assms by fastforce
    show ?thesis using assms True
      by (auto simp: mqtt_get_publish_data_def i q load_def Let_def simp del: One_nat_def)
  qed (simp add: mqtt_get_publish_data_def i del: One_nat_def)
qed

lemma mqtt_get_id_total:
  assumes "len \<le> length b"
  shows "mqtt_get_id b len \<noteq> None"
proof (cases "len < 1")
  case False
  then obtain ty q where tq: "mqtt_get_type b = Some ty" "mqtt_get_qos b = Some q"
    using header_byte_total [of b] assms by fastforce
  obtain i where i: "skip_length b len 1 = Some i" using skip_length_total [OF assms, of 1] by auto
  show ?thesis using assms False by (auto simp: mqtt_get_id_def tq i load_def Let_def simp del: One_nat_def)
qed (simp add: mqtt_get_id_def)

lemma mqtt_has_valid_msg_hdr_total:
  assumes "len \<le> length b"
  shows "mqtt_has_valid_msg_hdr b len \<noteq> None"
proof (cases "len < 1")
  case False
  then obtain ty q d where tq: "mqtt_get_type b = Some ty" "mqtt_get_qos b = Some q" "mqtt_get_dup b = Some d"
    using header_byte_total [of b] assms by fastforce
  show ?thesis using assms False by (auto simp: mqtt_has_valid_msg_hdr_def tq load_def)
qed (simp add: mqtt_has_valid_msg_hdr_def)

lemma mqtt_header_complete_total:
  assumes "len \<le> length b"
  shows "mqtt_header_complete b len \<noteq> None"
proof -
  obtain r where r: "header_complete_loop b len 1 = Some r"
    using header_complete_loop_total [OF assms] by blast
  show ?thesis
  proof (cases r)
    case (Some i)
    show ?thesis
    proof (cases "i + 2 < len")
      case True
      then obtain q where q: "mqtt_get_qos b = Some q" using header_byte_total(2) [of b] assms by fastforce
      show ?thesis using assms True by (simp add: mqtt_header_complete_def r Some q load_def Let_def del: One_nat_def)
    qed (simp add: mqtt_header_complete_def r Some del: One_nat_def)
  qed (simp add: mqtt_header_complete_def r del: One_nat_def)
qed

section \<open>Parsing what was composed\<close>

lemma packet_total_length:
  assumes "small (length body)"
  shows "mqtt_get_total_length (packet ty dup qos retain body) (length (packet ty dup qos retain body)) =
    Some (length (packet ty dup qos retain body), 1 + length (encode_length (length body)))"
  using decode_encode_length [of 1 "[fixed_header_byte ty dup qos retain]" "length body" _ body 0]
    length_encode_small [OF assms]
  by (simp add: mqtt_get_total_length_def packet_def)

definition id_field :: "16 word option \<Rightarrow> byte list" where
  "id_field mid = (case mid of None \<Rightarrow> [] | Some m \<Rightarrow> be16 (unat m))"

lemma publish_body_alt: "publish_body topic mid data = utf8_field topic @ id_field mid @ data"
  by (simp add: publish_body_def id_field_def)

text \<open>
  The start of a PUBLISH in a receive buffer: a complete header for a body of \<open>n\<close> bytes
  and, behind it, whatever part of the payload has arrived.
\<close>

definition publish_start :: "int \<Rightarrow> int \<Rightarrow> int \<Rightarrow> nat \<Rightarrow> cstring \<Rightarrow> 16 word option \<Rightarrow> byte list \<Rightarrow> byte list" where
  "publish_start dup qos retain n topic mid rest =
     fixed_header_byte 3 dup qos retain # encode_length n @ publish_body topic mid rest"

definition publish_start_ok :: "int \<Rightarrow> int \<Rightarrow> int \<Rightarrow> nat \<Rightarrow> cstring \<Rightarrow> 16 word option \<Rightarrow> bool" where
  "publish_start_ok dup qos retain n topic mid \<longleftrightarrow>
     dup \<in> {0, 1} \<and> 0 \<le> qos \<and> qos < 3 \<and> retain \<in> {0, 1} \<and> small n \<and>
     topic \<noteq> [] \<and> length topic < 65536 \<and> (mid \<noteq> None \<longleftrightarrow> qos > 0)"

definition publish_header_length :: "nat \<Rightarrow> cstring \<Rightarrow> 16 word option \<Rightarrow> nat" where
  "publish_header_length n topic mid =
     1 + length (encode_length n) + 2 + length topic + (if mid = None then 0 else 2)"

lemma packet_publish_start:
  "packet 3 dup qos retain (publish_body topic mid data) =
   publish_start dup qos retain (length (publish_body topic mid data)) topic mid data"
  by (simp add: packet_def publish_start_def)

lemma length_id_field: "length (id_field mid) = (if mid = None then 0 else 2)"
  by (auto simp: id_field_def split: option.splits)

lemma length_publish_start:
  "length (publish_start dup qos retain n topic mid rest) = publish_header_length n topic mid + length rest"
  by (simp add: publish_start_def publish_header_length_def publish_body_alt length_id_field)

lemma publish_start_decode:
  assumes "small n" "1 + length (encode_length n) \<le> len"
  shows "decode_length (publish_start dup qos retain n topic mid rest) len 1 0 = Some (1 + length (encode_length n), n)"
  using decode_encode_length [of 1 "[fixed_header_byte 3 dup qos retain]" n len] length_encode_small [OF assms(1)] assms(2)
  by (simp add: publish_start_def)

lemma publish_start_skip:
  assumes "1 + length (encode_length n) \<le> len"
  shows "skip_length (publish_start dup qos retain n topic mid rest) len 1 = Some (1 + length (encode_length n))"
  using skip_encode_length [of 1 "[fixed_header_byte 3 dup qos retain]" n len] assms
  by (simp add: publish_start_def)

lemma publish_start_topic_length:
  assumes "length topic < 65536" and "i = 1 + length (encode_length n)"
  shows "\<exists>h l. load (publish_start dup qos retain n topic mid rest) i = Some h \<and>
    load (publish_start dup qos retain n topic mid rest) (i + 1) = Some l \<and> be16_val h l = length topic"
  using be16_val_be16 [OF assms(1)] assms(2)
  by (simp add: publish_start_def publish_body_def utf8_field_def be16_def load_def nth_append)

lemma publish_start_id:
  assumes "mid = Some m" and "i = 1 + length (encode_length n) + 2 + length topic"
  shows "\<exists>h l. load (publish_start dup qos retain n topic mid rest) i = Some h \<and>
    load (publish_start dup qos retain n topic mid rest) (i + 1) = Some l \<and> be16_val h l = unat m"
  using be16_val_unat [of m] assms
  by (simp add: publish_start_def publish_body_def utf8_field_def be16_def load_def nth_append)

lemma publish_start_topic:
  assumes ok: "publish_start_ok dup qos retain n topic mid"
    and len: "1 + length (encode_length n) + 2 + length topic \<le> len"
  shows "mqtt_get_publish_topic (publish_start dup qos retain n topic mid rest) len =
      Some (Some (3 + length (encode_length n), length topic))"
proof -
  let ?b = "publish_start dup qos retain n topic mid rest"
  define i where "i = 1 + length (encode_length n)"
  have i: "skip_length ?b len 1 = Some i" using publish_start_skip len by (simp add: i_def)
  obtain h l where "load ?b i = Some h" "load ?b (i + 1) = Some l" "be16_val h l = length topic"
    using publish_start_topic_length [OF _ i_def] ok unfolding publish_start_ok_def by blast
  moreover have "topic \<noteq> []" using ok by (simp add: publish_start_ok_def)
  then have "i + 2 < len" using len by (cases topic) (auto simp: i_def)
  moreover have "i + 2 + length topic \<le> len" using len by (simp add: i_def)
  ultimately show ?thesis
    by (simp add: mqtt_get_publish_topic_def i [simplified] Let_def) (simp add: i_def)
qed

lemma publish_start_data:
  assumes ok: "publish_start_ok dup qos retain n topic mid"
    and len: "publish_header_length n topic mid < len"
    and n: "publish_header_length n topic mid \<le> 1 + length (encode_length n) + n"
  shows "mqtt_get_publish_data (publish_start dup qos retain n topic mid rest) len =
    Some (Some (publish_header_length n topic mid),
          min len (1 + length (encode_length n) + n) - publish_header_length n topic mid)"
proof -
  let ?b = "publish_start dup qos retain n topic mid rest"
  define i where "i = 1 + length (encode_length n)"
  have i: "decode_length ?b len 1 0 = Some (i, n)"
    using publish_start_decode len ok by (simp add: i_def publish_header_length_def publish_start_ok_def)
  obtain h l where hl: "load ?b i = Some h" "load ?b (i + 1) = Some l" "be16_val h l = length topic"
    using publish_start_topic_length [OF _ i_def] ok unfolding publish_start_ok_def by blast
  have q: "mqtt_get_qos ?b = Some (nat qos)" "mid \<noteq> None \<longleftrightarrow> 0 < qos"
    using ok fixed_header_fields(2) [of 3 dup qos retain] by (auto simp: publish_start_ok_def publish_start_def)
  have hdr: "publish_header_length n topic mid = i + 2 + length topic + (if 0 < qos then 2 else 0)"
    using q(2) by (auto simp: publish_header_length_def i_def)
  show ?thesis
    using len n q(1) hl unfolding hdr i_def [symmetric]
    by (cases "0 < qos") (auto simp: mqtt_get_publish_data_def i [simplified] Let_def min_def)
qed

lemma publish_start_get_id:
  assumes ok: "publish_start_ok dup qos retain n topic mid"
    and len: "publish_header_length n topic mid \<le> len"
  shows "mqtt_get_id (publish_start dup qos retain n topic mid rest) len =
    Some (case mid of None \<Rightarrow> 0 | Some m \<Rightarrow> unat m)"
proof -
  let ?b = "publish_start dup qos retain n topic mid rest"
  define i where "i = 1 + length (encode_length n)"
  have i: "skip_length ?b len 1 = Some i"
    using publish_start_skip len by (simp add: publish_header_length_def i_def)
  obtain h l where hl: "load ?b i = Some h" "load ?b (i + 1) = Some l" "be16_val h l = length topic"
    using publish_start_topic_length [OF _ i_def] ok unfolding publish_start_ok_def by blast
  have t: "topic \<noteq> []" and q: "mqtt_get_qos ?b = Some (nat qos)" "mqtt_get_type ?b = Some 3" "mid \<noteq> None \<longleftrightarrow> 0 < qos"
    using ok fixed_header_fields [of 3 dup qos retain] by (auto simp: publish_start_ok_def publish_start_def)
  have hdr: "publish_header_length n topic mid = i + 2 + length topic + (if 0 < qos then 2 else 0)"
    using q(3) by (auto simp: publish_header_length_def i_def)
  have "i + 2 < len" using len t unfolding hdr by (cases topic) auto
  show ?thesis
  proof (cases mid)
    case None
    then show ?thesis using len q hl \<open>i + 2 < len\<close> i unfolding hdr
      by (auto simp: mqtt_get_id_def Let_def)
  next
    case (Some m)
    obtain h' l' where "load ?b (i + 2 + length topic) = Some h'" "load ?b (i + 2 + length topic + 1) = Some l'"
      "be16_val h' l' = unat m"
      using publish_start_id [OF Some, of "i + 2 + length topic" n topic] i_def by blast
    then show ?thesis using len q hl \<open>i + 2 < len\<close> Some i unfolding hdr
      by (auto simp: mqtt_get_id_def Let_def)
  qed
qed

lemma header_complete_loop_encode:
  assumes "i = length xs" "0 < i" "i + length (encode_length n) \<le> 5" "i + length (encode_length n) \<le> len"
  shows "header_complete_loop (xs @ encode_length n @ ys) len i = Some (Some (i + length (encode_length n)))"
  using assms
proof (induction n arbitrary: xs i rule: encode_length.induct)
  case (1 n)
  let ?d = "of_nat (n mod 128) :: byte" and ?b = "xs @ encode_length n @ ys"
  have ds: "encode_length n = (if n div 128 > 0 then (?d OR 0x80) # encode_length (n div 128) else [?d])"
    by (subst encode_length.simps) (simp add: Let_def)
  show ?case
  proof (cases "n div 128 > 0")
    case True
    have "header_complete_loop ?b len i = header_complete_loop ?b len (Suc i)"
      using "1.prems" True length_encode_length_pos [of "n div 128"]
      by (subst header_complete_loop.simps) (auto simp: ds load_def digit_more)
    moreover have "?b = (xs @ [?d OR 0x80]) @ encode_length (n div 128) @ ys"
      using True by (simp add: ds)
    ultimately show ?thesis
      using "1.IH" [OF refl refl True, of "Suc i" "xs @ [?d OR 0x80]"] "1.prems" True by (simp add: ds)
  next
    case False
    then show ?thesis using "1.prems"
      by (subst header_complete_loop.simps) (auto simp: ds load_def digit_stop)
  qed
qed

text \<open>A length field of which only a part has arrived, and bytes that have not arrived.\<close>

lemma header_complete_loop_short:
  assumes "i = length xs" "0 < i" "i + length (encode_length n) \<le> 5" "len < i + length (encode_length n)"
  shows "header_complete_loop (xs @ encode_length n @ ys) len i = Some None"
  using assms
proof (induction n arbitrary: xs i rule: encode_length.induct)
  case (1 n)
  let ?d = "of_nat (n mod 128) :: byte" and ?b = "xs @ encode_length n @ ys"
  have ds: "encode_length n = (if n div 128 > 0 then (?d OR 0x80) # encode_length (n div 128) else [?d])"
    by (subst encode_length.simps) (simp add: Let_def)
  have i: "i < 5" using "1.prems"(3) length_encode_length_pos [of n] by linarith
  show ?case
  proof (cases "i < len")
    case True
    then have more: "n div 128 > 0" using "1.prems"(4) by (auto simp: ds split: if_splits)
    have "header_complete_loop ?b len i = header_complete_loop ?b len (Suc i)"
      using "1.prems" True i more by (subst header_complete_loop.simps) (auto simp: ds load_def digit_more)
    moreover have "?b = (xs @ [?d OR 0x80]) @ encode_length (n div 128) @ ys" using more by (simp add: ds)
    ultimately show ?thesis
      using "1.IH" [OF refl refl more, of "Suc i" "xs @ [?d OR 0x80]"] "1.prems" more by (simp add: ds)
  qed (use i in \<open>simp add: header_complete_loop.simps\<close>)
qed

lemma header_complete_loop_cong:
  "take len b = take len s \<Longrightarrow> len \<le> length b \<Longrightarrow> len \<le> length s \<Longrightarrow> header_complete_loop b len i = header_complete_loop s len i"
proof (induction b len i rule: header_complete_loop.induct)
  case (1 b len i)
  have "load b i = load s i" if "i < len" using that "1.prems" by (metis load_def nth_take order_less_le_trans)
  then show ?case using "1.IH" "1.prems" by (subst (1 2) header_complete_loop.simps) (cases "load s i"; auto)
qed


section \<open>Contract of the packet builders\<close>

text \<open>
  What every composing function promises its caller, the client: on an idle connection it
  returns, and leaves the packet of its body, or an empty message if that does not fit.
\<close>

locale packet_builder =
  fixes build :: "mqtt_connection \<Rightarrow> mqtt_connection option"
    and ready :: "mqtt_connection \<Rightarrow> bool"
    and ty qos :: int
    and body :: "mqtt_connection \<Rightarrow> byte list"
  assumes header: "(ty, qos) \<in> {(1, 0), (4, 0), (5, 0), (6, 1), (7, 0), (8, 1), (10, 1), (12, 0), (13, 0), (14, 0)}"
    and composes: "\<lbrakk>init_ok c; ready c\<rbrakk> \<Longrightarrow> small (length (body c)) \<and>
      (\<exists>c'. build c = Some c' \<and>
        composed c c' (if 5 + length (body c) \<le> buffer_length c then packet ty 0 qos 0 (body c) else []))"
begin

lemma returns:
  assumes "init_ok c" "ready c"
  obtains c' where "build c = Some c'"
    "composed c c' (if 5 + length (body c) \<le> buffer_length c then packet ty 0 qos 0 (body c) else [])"
  using composes [OF assms] by blast

lemma stays_idle:
  assumes "init_ok c" "ready c" "build c = Some c'"
  shows "init_ok c'"
  using composes [OF assms(1,2)] assms(1,3) by (auto simp: composed_def init_ok_def)

lemma empty_iff:
  assumes "init_ok c" "ready c" "build c = Some c'"
  shows "out_length c' = 0 \<longleftrightarrow> buffer_length c < 5 + length (body c)"
  using composes [OF assms(1,2)] assms(3) by (auto simp: composed_def packet_def split: if_splits)

lemma header_byte:
  "mqtt_get_type (packet ty 0 qos 0 bs) = Some ty"
  "mqtt_has_valid_msg_hdr (packet ty 0 qos 0 bs) (length (packet ty 0 qos 0 bs)) = Some True"
proof -
  show ty: "mqtt_get_type (packet ty 0 qos 0 bs) = Some ty"
    using fixed_header_fields(1) [of ty 0 qos 0] header by (auto simp: packet_def)
  then show "mqtt_has_valid_msg_hdr (packet ty 0 qos 0 bs) (length (packet ty 0 qos 0 bs)) = Some True"
    using header by (auto simp: mqtt_has_valid_msg_hdr_def packet_def load_def fixed_header_byte_def)
qed

lemma self_describing:
  assumes "init_ok c" "ready c" "build c = Some c'" "out_length c' \<noteq> 0"
  shows "message_bytes c' = packet ty 0 qos 0 (body c)"
    and "mqtt_get_type (message_bytes c') = Some ty"
    and "mqtt_has_valid_msg_hdr (message_bytes c') (out_length c') = Some True"
    and "mqtt_get_total_length (message_bytes c') (out_length c') =
      Some (out_length c', 1 + length (encode_length (length (body c))))"
proof -
  have c': "composed c c' (if 5 + length (body c) \<le> buffer_length c then packet ty 0 qos 0 (body c) else [])"
    and sm: "small (length (body c))"
    using composes [OF assms(1,2)] assms(3) by auto
  then show m: "message_bytes c' = packet ty 0 qos 0 (body c)"
    using assms(4) by (auto simp: composed_def split: if_splits)
  have "out_length c' = length (packet ty 0 qos 0 (body c))"
    using c' m by (auto simp: composed_def)
  then show "mqtt_get_type (message_bytes c') = Some ty"
    "mqtt_has_valid_msg_hdr (message_bytes c') (out_length c') = Some True"
    "mqtt_get_total_length (message_bytes c') (out_length c') =
      Some (out_length c', 1 + length (encode_length (length (body c))))"
    using header_byte packet_total_length [OF sm] by (simp_all add: m)
qed

end

lemma ack_builder:
  assumes "init_ok c" "mid \<noteq> 0"
  shows "\<exists>c'. ack_message ty qos c mid = Some c' \<and>
    composed c c' (if 7 \<le> buffer_length c then packet ty 0 qos 0 (be16 (unat mid)) else [])"
  using ack_message_composes [OF assms(1), of mid mid "ids c" ty qos] assms(2) by (auto simp: next_id_def)

interpretation connect: packet_builder "\<lambda>c. mqtt_msg_connect c info"
    "\<lambda>c. will_ok info \<and> small (length (connect_body info))" 1 0 "\<lambda>c. connect_body info" for info
proof (unfold_locales, goal_cases)
  case (2 c)
  then show ?case using mqtt_msg_connect_composes [of info c] by blast
qed simp

interpretation puback: packet_builder "\<lambda>c. mqtt_msg_puback c mid" "\<lambda>c. mid \<noteq> 0" 4 0 "\<lambda>c. be16 (unat mid)" for mid
  using ack_builder by unfold_locales (auto simp: mqtt_msg_puback_def cong: if_cong)

interpretation pubrec: packet_builder "\<lambda>c. mqtt_msg_pubrec c mid" "\<lambda>c. mid \<noteq> 0" 5 0 "\<lambda>c. be16 (unat mid)" for mid
  using ack_builder by unfold_locales (auto simp: mqtt_msg_pubrec_def cong: if_cong)

interpretation pubrel: packet_builder "\<lambda>c. mqtt_msg_pubrel c mid" "\<lambda>c. mid \<noteq> 0" 6 1 "\<lambda>c. be16 (unat mid)" for mid
  using ack_builder by unfold_locales (auto simp: mqtt_msg_pubrel_def cong: if_cong)

interpretation pubcomp: packet_builder "\<lambda>c. mqtt_msg_pubcomp c mid" "\<lambda>c. mid \<noteq> 0" 7 0 "\<lambda>c. be16 (unat mid)" for mid
  using ack_builder by unfold_locales (auto simp: mqtt_msg_pubcomp_def cong: if_cong)

interpretation pingreq: packet_builder mqtt_msg_pingreq "\<lambda>c. True" 12 0 "\<lambda>c. []"
  using bodyless_composes by unfold_locales (auto simp: mqtt_msg_pingreq_def init_ok_def)

interpretation pingresp: packet_builder mqtt_msg_pingresp "\<lambda>c. True" 13 0 "\<lambda>c. []"
  using bodyless_composes by unfold_locales (auto simp: mqtt_msg_pingresp_def init_ok_def)

interpretation disconnect: packet_builder mqtt_msg_disconnect "\<lambda>c. True" 14 0 "\<lambda>c. []"
  using bodyless_composes by unfold_locales (auto simp: mqtt_msg_disconnect_def init_ok_def)

text \<open>Packets with a fresh identifier; the identifier source must be able to give one.\<close>

definition id_ready :: "mqtt_connection \<Rightarrow> bool" where
  "id_ready c \<longleftrightarrow> next_id c 0 \<noteq> None"

definition fresh_id :: "mqtt_connection \<Rightarrow> 16 word" where
  "fresh_id c = (case next_id c 0 of None \<Rightarrow> 0 | Some (m, src) \<Rightarrow> m)"

lemma id_readyE:
  assumes "id_ready c" obtains src where "next_id c 0 = Some (fresh_id c, src)" "fresh_id c \<noteq> 0"
  using assms next_id_nonzero [of c 0] by (auto simp: id_ready_def fresh_id_def split: option.splits prod.splits)

interpretation subscribe: packet_builder "\<lambda>c. map_option fst (mqtt_msg_subscribe c ts)"
    "\<lambda>c. id_ready c \<and> (\<forall>t \<in> set ts. topic_filter t \<noteq> []) \<and> small (2 + length (subscribe_body ts))" 8 1
    "\<lambda>c. be16 (unat (fresh_id c)) @ subscribe_body ts" for ts
proof (unfold_locales, goal_cases)
  case (2 c)
  then obtain src where "next_id c 0 = Some (fresh_id c, src)" using id_readyE by blast
  from mqtt_msg_subscribe_composes [OF 2(1) this, of ts] 2(2) show ?case
    by (auto simp: cong: if_cong)
qed simp

interpretation unsubscribe: packet_builder "\<lambda>c. map_option fst (mqtt_msg_unsubscribe c topic mid)"
    "\<lambda>c. id_ready c \<and> nonempty topic \<and> small (4 + length (chars topic))" 10 1
    "\<lambda>c. be16 (unat (fresh_id c)) @ utf8_field (chars topic)" for topic mid
proof (unfold_locales, goal_cases)
  case (2 c)
  then obtain src where "next_id c 0 = Some (fresh_id c, src)" using id_readyE by blast
  from mqtt_msg_unsubscribe_composes [OF 2(1) this, of topic mid] 2(2) show ?case
    by (auto simp: cong: if_cong)
qed simp

section \<open>A connection for the examples\<close>

definition sample_info :: mqtt_connect_info where
  "sample_info = \<lparr>client_id = Some [0x65], username = None, password = Some [0x70], will_topic = Some [0x77],
     will_message = Some [1, 2], keepalive = 120, will_length = 2, will_qos = 1, will_retain = True,
     clean_session = True, protocol_ver = MQTT_PROTOCOL_V_3_1_1\<rparr>"

definition sample_connection :: "nat \<Rightarrow> mqtt_connection" where
  "sample_connection n = \<lparr>outbound_message = \<lparr>msg_data = Null, msg_length = 0,
     fragmented_msg_total_length = 0, fragmented_msg_data_offset = 0\<rparr>, ids = Incremental 0xffff,
     buffer = replicate n 0, buffer_length = n, information = sample_info\<rparr>"

lemma sample_init_ok: "5 \<le> n \<Longrightarrow> init_ok (sample_connection n)"
  by (simp add: sample_connection_def init_ok_def)

lemma sample_buffer_length [simp]: "buffer_length (sample_connection n) = n"
  by (simp add: sample_connection_def)

lemma sample_next_id: "next_id (sample_connection n) 0 = Some (1, Incremental 1)"
  by (simp add: next_id_def sample_connection_def assign_message_id_incremental)

section \<open>Properties\<close>

text \<open>
  C19. \<open>mqtt_msg_connect\<close> always returns. If the packet fits the buffer, the message is the
  CONNECT packet of the connect information: protocol name and level, flags, keepalive, and the client identifier, will,
  user name and password fields in protocol order, a password without user name being sent
  with an empty user name; its header is valid and its encoded length is its length. If
  it does not fit, the message is empty. Either way the connection is idle again.
\<close>

theorem connect_composed:
  assumes "init_ok c" "will_ok info" "small (length (connect_body info))"
  shows "\<exists>c'. mqtt_msg_connect c info = Some c' \<and> init_ok c' \<and>
    (if 5 + length (connect_body info) \<le> buffer_length c
     then message_bytes c' = packet MQTT_MSG_TYPE_CONNECT 0 0 0 (connect_body info) \<and>
       mqtt_get_type (message_bytes c') = Some MQTT_MSG_TYPE_CONNECT \<and>
       mqtt_has_valid_msg_hdr (message_bytes c') (out_length c') = Some True \<and>
       map_option fst (mqtt_get_total_length (message_bytes c') (out_length c')) = Some (out_length c')
     else message_bytes c' = [] \<and> out_length c' = 0)"
proof -
  obtain c' where c': "mqtt_msg_connect c info = Some c'"
    "composed c c' (if 5 + length (connect_body info) \<le> buffer_length c
      then packet 1 0 0 0 (connect_body info) else [])"
    using connect.returns assms by metis
  have "out_length c' \<noteq> 0 \<longleftrightarrow> 5 + length (connect_body info) \<le> buffer_length c"
    using connect.empty_iff [OF assms(1) _ c'(1)] assms by auto
  then show ?thesis
    using connect.self_describing [OF assms(1) _ c'(1)] connect.stays_idle [OF assms(1) _ c'(1)] assms c'
    by (auto simp: composed_def)
qed

theorem connect_composed_witness:
  "\<exists>c'. mqtt_msg_connect (sample_connection 64) sample_info = Some c' \<and>
     message_bytes c' = [0x10, 25, 0, 4, 0x4d, 0x51, 0x54, 0x54, 4, 0xee, 0, 120,
       0, 1, 0x65, 0, 1, 0x77, 0, 2, 1, 2, 0, 0, 0, 1, 0x70]"
proof -
  have body: "connect_body sample_info = [0, 4, 0x4d, 0x51, 0x54, 0x54, 4, 0xee, 0, 120,
       0, 1, 0x65, 0, 1, 0x77, 0, 2, 1, 2, 0, 0, 0, 1, 0x70]"
    by (simp add: connect_body_def connect_header_def connect_flags_offset_def connect_flags_def nonempty_def
        chars_def utf8_field_def be16_def sample_info_def)
  moreover have "packet 1 0 0 0 (connect_body sample_info) = 0x10 # 25 # connect_body sample_info"
    unfolding body by (simp add: packet_def fixed_header_byte_def encode_length.simps)
  ultimately show ?thesis
    using connect_composed [OF sample_init_ok [of 64], of sample_info]
    by (force simp: will_ok_def sample_info_def chars_def sample_connection_def)
qed

lemma mqtt_get_id_ack:
  assumes "mqtt_get_type [h, 2, a, b] = Some ty" "ty \<in> {4, 5, 6, 7}"
  shows "mqtt_get_id [h, 2, a, b] 4 = Some (be16_val a b)"
  using assms by (auto simp: mqtt_get_id_def load_def)

lemma ack_packet_id:
  fixes m :: "16 word"
  assumes "(ty, qos) \<in> {(4, 0), (5, 0), (6, 1), (7, 0)}"
  shows "mqtt_get_id (packet ty 0 qos 0 (be16 (unat m))) 4 = Some (unat m)"
    and "packet ty 0 qos 0 (be16 (unat m)) = [fixed_header_byte ty 0 qos 0, 2, of_nat (unat m div 256), of_nat (unat m)]"
proof -
  have "encode_length (length (be16 (unat m))) = [2]" by (simp add: encode_length.simps)
  then show p: "packet ty 0 qos 0 (be16 (unat m)) = [fixed_header_byte ty 0 qos 0, 2, of_nat (unat m div 256), of_nat (unat m)]"
    unfolding packet_def by (simp add: be16_def)
  have t: "mqtt_get_type (packet ty 0 qos 0 (be16 (unat m))) = Some ty"
    using fixed_header_fields(1) [of ty 0 qos 0] assms by (auto simp: packet_def)
  show "mqtt_get_id (packet ty 0 qos 0 (be16 (unat m))) 4 = Some (unat m)"
    using mqtt_get_id_ack [OF t [unfolded p]] assms
    by (auto simp: p be16_val_unat simp del: of_nat_unat)
qed

text \<open>
  C35. PUBACK, PUBREC, PUBREL and PUBCOMP of a packet identifier are four bytes with a valid
  header of their type, from which \<open>mqtt_get_id\<close> reads the identifier back.
\<close>

theorem acks_roundtrip:
  assumes "init_ok c" "7 \<le> buffer_length c" "mid \<noteq> 0"
    and "(build, ty) \<in> {(mqtt_msg_puback, MQTT_MSG_TYPE_PUBACK), (mqtt_msg_pubrec, MQTT_MSG_TYPE_PUBREC),
      (mqtt_msg_pubrel, MQTT_MSG_TYPE_PUBREL), (mqtt_msg_pubcomp, MQTT_MSG_TYPE_PUBCOMP)}"
  shows "\<exists>c'. build c mid = Some c' \<and> init_ok c' \<and> out_length c' = 4 \<and>
    mqtt_get_type (message_bytes c') = Some ty \<and>
    mqtt_has_valid_msg_hdr (message_bytes c') 4 = Some True \<and>
    mqtt_get_id (message_bytes c') 4 = Some (unat mid)"
proof -
  define qos :: int where "qos = (if ty = 6 then 1 else 0)"
  have b: "packet_builder (\<lambda>c. build c mid) (\<lambda>c. mid \<noteq> 0) ty qos (\<lambda>c. be16 (unat mid))"
    using assms(4) puback.packet_builder_axioms pubrec.packet_builder_axioms
      pubrel.packet_builder_axioms pubcomp.packet_builder_axioms by (auto simp: qos_def)
  obtain c' where c': "build c mid = Some c'"
    using packet_builder.returns [OF b assms(1,3)] by blast
  have n: "out_length c' \<noteq> 0"
    using packet_builder.empty_iff [OF b assms(1,3) c'] assms(2) by simp
  note sd = packet_builder.self_describing [OF b assms(1,3) c' n]
  have "(ty, qos) \<in> {(4, 0), (5, 0), (6, 1), (7, 0)}" using assms(4) by (auto simp: qos_def)
  note ack = ack_packet_id [OF this, of mid]
  have "out_length c' = 4"
    using sd(4) packet_total_length [of "be16 (unat mid)" ty 0 qos 0] ack(2) packet_builder.composes [OF b assms(1,3)] c' assms(2)
    by (auto simp: composed_def)
  then show ?thesis
    using c' sd ack packet_builder.stays_idle [OF b assms(1,3) c'] by simp
qed

theorem acks_roundtrip_witness:
  "\<exists>c'. mqtt_msg_pubrel (sample_connection 16) 0x1234 = Some c' \<and> mqtt_get_id (message_bytes c') 4 = Some 0x1234"
  using acks_roundtrip [OF sample_init_ok [of 16], of "0x1234" mqtt_msg_pubrel 6]
  by (auto simp: sample_connection_def)

text \<open>
  C29. \<open>mqtt_msg_subscribe\<close> returns the packet of the fresh identifier and of all filters with
  their QoS, in order; with an empty filter in the list, or one that does not fit any more,
  it returns an empty message. The identifier is used up in every case.
\<close>

theorem subscribe_composed:
  assumes "init_ok c" "next_id c 0 = Some (m, src)" "small (2 + length (subscribe_body ts))"
  shows "\<exists>c' m'. mqtt_msg_subscribe c ts = Some (c', m') \<and> ids c' = src \<and> init_ok c' \<and>
    (if (\<forall>t \<in> set ts. topic_filter t \<noteq> []) \<and> 7 + length (subscribe_body ts) \<le> buffer_length c
     then m' = m \<and> m \<noteq> 0 \<and> message_bytes c' = packet MQTT_MSG_TYPE_SUBSCRIBE 0 1 0 (be16 (unat m) @ subscribe_body ts) \<and>
       mqtt_has_valid_msg_hdr (message_bytes c') (out_length c') = Some True \<and>
       map_option fst (mqtt_get_total_length (message_bytes c') (out_length c')) = Some (out_length c')
     else message_bytes c' = [] \<and> out_length c' = 0)"
proof -
  obtain c' m' where c': "mqtt_msg_subscribe c ts = Some (c', m')" "ids c' = src" "7 \<le> buffer_length c \<longrightarrow> m' = m"
    "composed c c' (if (\<forall>t \<in> set ts. topic_filter t \<noteq> []) \<and> 7 + length (subscribe_body ts) \<le> buffer_length c
       then packet 8 0 1 0 (be16 (unat m) @ subscribe_body ts) else [])"
    using mqtt_msg_subscribe_composes [OF assms] by auto
  have ok: "init_ok c'" using c'(4) assms(1) by (auto simp: composed_def init_ok_def)
  show ?thesis
  proof (cases "(\<forall>t \<in> set ts. topic_filter t \<noteq> []) \<and> 7 + length (subscribe_body ts) \<le> buffer_length c")
    case True
    then have msg: "message_bytes c' = packet 8 0 1 0 (be16 (unat m) @ subscribe_body ts)"
      "out_length c' = length (message_bytes c')" using c'(4) by (auto simp: composed_def)
    show ?thesis using True c'(1-3) ok msg next_id_nonzero [OF assms(2)] subscribe.header_byte(2)
        packet_total_length [of "be16 (unat m) @ subscribe_body ts" 8 0 1 0] assms(3)
      by simp
  next
    case False
    then show ?thesis using c'(1,2) c'(4) [unfolded if_not_P [OF False]] ok by (simp only: if_False) (simp add: composed_def)
  qed
qed

theorem subscribe_composed_witness:
  "\<exists>c' m'. mqtt_msg_subscribe (sample_connection 32) [\<lparr>topic_filter = [0x61], topic_qos = 2\<rparr>] = Some (c', m') \<and>
     m' = 1 \<and> message_bytes c' = [0x82, 6, 0, 1, 0, 1, 0x61, 2]"
proof -
  have "packet 8 0 1 0 (be16 (unat 1) @ subscribe_body [\<lparr>topic_filter = [0x61], topic_qos = 2\<rparr>]) = [0x82, 6, 0, 1, 0, 1, 0x61, 2]"
    by (simp add: packet_def be16_def subscribe_body_def utf8_field_def fixed_header_byte_def encode_length.simps)
  then show ?thesis
    using subscribe_composed [OF sample_init_ok sample_next_id, of 32 "[\<lparr>topic_filter = [0x61], topic_qos = 2\<rparr>]"]
    by (auto simp: subscribe_body_def utf8_field_def sample_connection_def)
qed

text \<open>
  C6. A PUBLISH that fits the buffer is parsed back: the parsers read from the message its
  length, type, QoS, retain flag, identifier, topic and payload.
\<close>

theorem publish_roundtrip:
  fixes qos data data_length topic m
  defines "mid \<equiv> (if qos > 0 then Some m else None)"
  defines "body \<equiv> publish_body topic mid (take data_length (chars data))"
  assumes "init_ok c" "topic \<noteq> []" "length topic < 65536" "data_length \<le> length (chars data)" "data_length > 0"
    and "0 \<le> qos" "qos < 3" "retain \<in> {0, 1}" "qos > 0 \<longrightarrow> next_id c 0 = Some (m, src)"
    and "small (length body)" "5 + length body \<le> buffer_length c"
  shows "\<exists>c'. mqtt_msg_publish c (Some topic) data data_length qos retain mid0 = Some (c', if qos > 0 then m else 0) \<and>
    init_ok c' \<and>
    (let b = message_bytes c'; len = out_length c' in
     map_option fst (mqtt_get_total_length b len) = Some len \<and>
     mqtt_get_type b = Some MQTT_MSG_TYPE_PUBLISH \<and> mqtt_get_qos b = Some (nat qos) \<and>
     mqtt_get_retain b = Some (nat retain) \<and> mqtt_get_dup b = Some 0 \<and>
     mqtt_get_id b len = Some (if qos > 0 then unat m else 0) \<and>
     (\<exists>off. mqtt_get_publish_topic b len = Some (Some (off, length topic)) \<and> take (length topic) (drop off b) = topic) \<and>
     (\<exists>off. mqtt_get_publish_data b len = Some (Some off, data_length) \<and>
        take data_length (drop off b) = take data_length (chars data)))"
proof -
  let ?d = "take data_length (chars data)" and ?n = "length body" and ?e = "encode_length (length body)"
  let ?b = "publish_start 0 qos retain ?n topic mid ?d"
  obtain c' where c': "mqtt_msg_publish c (Some topic) data data_length qos retain mid0 = Some (c', if qos > 0 then m else 0)"
    "composed c c' (packet 3 0 qos retain body)"
    using mqtt_msg_publish_composes [of c "Some topic" data_length data qos m src retain mid0] assms
    by (auto simp: nonempty_def chars_def mid_def body_def)
  have pk: "packet 3 0 qos retain body = ?b" unfolding body_def by (rule packet_publish_start)
  have ok: "publish_start_ok 0 qos retain ?n topic mid"
    using assms by (auto simp: publish_start_ok_def)
  have hn: "1 + length ?e + ?n = publish_header_length ?n topic mid + data_length"
    using assms(6) by (simp add: publish_header_length_def body_def publish_body_alt length_id_field)
  have hl: "publish_header_length ?n topic mid < length ?b"
    using assms(6,7) by (simp add: length_publish_start)
  have f: "mqtt_get_type ?b = Some 3" "mqtt_get_qos ?b = Some (nat qos)" "mqtt_get_retain ?b = Some (nat retain)"
    "mqtt_get_dup ?b = Some 0"
    using fixed_header_fields [of 3 0 qos retain] assms by (auto simp: publish_start_def)
  have tl: "map_option fst (mqtt_get_total_length ?b (length ?b)) = Some (length ?b)"
    using packet_total_length [OF assms(12), of 3 0 qos retain] by (simp add: pk)
  have id: "mqtt_get_id ?b (length ?b) = Some (if qos > 0 then unat m else 0)"
    using publish_start_get_id [OF ok, of "length ?b" ?d] hl by (simp add: mid_def)
  have tp: "mqtt_get_publish_topic ?b (length ?b) = Some (Some (3 + length ?e, length topic))"
    using publish_start_topic [OF ok, of "length ?b" ?d] hl by (auto simp: publish_header_length_def)
  have tp': "take (length topic) (drop (3 + length ?e) ?b) = topic"
    by (simp add: publish_start_def publish_body_def utf8_field_def be16_def numeral_3_eq_3)
  have dt: "mqtt_get_publish_data ?b (length ?b) = Some (Some (publish_header_length ?n topic mid), data_length)"
    using publish_start_data [OF ok hl, of ?d] hn assms(6) by (simp add: length_publish_start)
  have dt': "drop (publish_header_length ?n topic mid) ?b = ?d"
    by (simp add: publish_start_def publish_body_alt utf8_field_def be16_def publish_header_length_def length_id_field)
  have "message_bytes c' = ?b" "out_length c' = length ?b" "init_ok c'"
    using c'(2) assms(3) by (auto simp: composed_def pk init_ok_def)
  then show ?thesis
    using c'(1) f tl id tp tp' dt dt' by (auto simp: Let_def)
qed

theorem publish_roundtrip_witness:
  "\<exists>c' off. mqtt_msg_publish (sample_connection 64) (Some [0x61, 0x62]) (Some [7, 8, 9]) 3 1 0 0 = Some (c', 1) \<and>
     mqtt_get_id (message_bytes c') (out_length c') = Some 1 \<and>
     mqtt_get_publish_data (message_bytes c') (out_length c') = Some (Some off, 3) \<and>
     take 3 (drop off (message_bytes c')) = [7, 8, 9]"
  using publish_roundtrip [OF sample_init_ok [of 64], of "[0x61, 0x62]" 3 "Some [7, 8, 9]" 1 0 1 "Incremental 1" 0]
  by (auto simp: sample_next_id publish_body_def utf8_field_def chars_def Let_def)

text \<open>
  C20. A PUBLISH longer than the buffer: the message is the start of the packet, the header
  announces the whole length, and \<open>length - fragmented_msg_data_offset\<close> is the number of
  payload bytes already in the message, so that sending the message and then the rest of the
  payload sends the packet.
\<close>

theorem publish_fragmented:
  fixes qos m topic data_length
  defines "h \<equiv> publish_body topic (if qos > 0 then Some m else None) []"
  assumes "init_ok c" "topic \<noteq> []" "data_length \<le> length d"
    and "qos > 0 \<longrightarrow> next_id c 0 = Some (m, src)" "small (length h + data_length)"
    and "5 + length h \<le> buffer_length c" "buffer_length c < 5 + length h + data_length"
  shows "\<exists>c' sent. mqtt_msg_publish c (Some topic) (Some d) data_length qos retain mid0 = Some (c', if qos > 0 then m else 0) \<and>
    message_bytes c' @ drop sent (take data_length d) = packet MQTT_MSG_TYPE_PUBLISH 0 qos retain (h @ take data_length d) \<and>
    sent < data_length \<and>
    out_length c' - unat (fragmented_msg_data_offset (outbound_message c')) = sent \<and>
    fragmented_msg_total_length (outbound_message c') \<noteq> 0"
proof -
  let ?e = "encode_length (length h + data_length)"
  obtain c' where c': "mqtt_msg_publish c (Some topic) (Some d) data_length qos retain mid0 = Some (c', if qos > 0 then m else 0)"
     "message_bytes c' @ drop (buffer_length c - 5 - length h) (take data_length d) = packet 3 0 qos retain (h @ take data_length d)"
     "out_length c' = buffer_length c - (4 - length ?e)"
     "fragmented_msg_total_length (outbound_message c') = 5 + length h + data_length"
     "fragmented_msg_data_offset (outbound_message c') = of_nat (1 + length ?e + length h)"
    using mqtt_msg_publish_fragments [of c "Some topic" data_length d qos m src retain mid0] assms
    by (auto simp: nonempty_def chars_def)
  have e: "length ?e \<le> 4" using length_encode_small [OF assms(6)] .
  have "unat (of_nat (1 + length ?e + length h) :: 32 word) = 1 + length ?e + length h"
    using e assms(6) by (simp only: unat_of_nat) (simp add: take_bit_eq_mod)
  then have "out_length c' - unat (fragmented_msg_data_offset (outbound_message c')) = buffer_length c - 5 - length h"
    using c'(3,5) e assms(7) by simp
  moreover have "buffer_length c - 5 - length h < data_length" using assms(7,8) by linarith
  ultimately show ?thesis using c' by (intro exI [of _ c'] exI [of _ "buffer_length c - 5 - length h"]) auto
qed

theorem publish_fragmented_witness:
  "\<exists>c' sent. mqtt_msg_publish (sample_connection 10) (Some [0x61]) (Some [1, 2, 3, 4]) 4 0 0 0 = Some (c', 0) \<and>
     sent < 4 \<and> message_bytes c' @ drop sent [1, 2, 3, 4] = [0x30, 7, 0, 1, 0x61, 1, 2, 3, 4]"
proof -
  have "packet 3 0 0 0 (publish_body [0x61] None [] @ [1, 2, 3, 4]) = [0x30, 7, 0, 1, 0x61, 1, 2, 3, 4]"
    by (simp add: packet_def publish_body_def utf8_field_def be16_def fixed_header_byte_def encode_length.simps)
  then show ?thesis
    using publish_fragmented [OF sample_init_ok [of 10], of "[0x61]" 4 "[1, 2, 3, 4]" 0 1 "Incremental 1" 0 0]
    by (auto simp: publish_body_def utf8_field_def)
qed

text \<open>
  C17. On any bytes, the parsers read only inside the received length, and the topic and the
  payload they return lie inside it.
\<close>

theorem parsers_stay_inside:
  assumes "len \<le> length b"
  shows "(\<exists>r. mqtt_get_publish_topic b len = Some r \<and> (\<forall>off n. r = Some (off, n) \<longrightarrow> off + n \<le> len)) \<and>
    (\<exists>p n. mqtt_get_publish_data b len = Some (p, n) \<and> (\<forall>off. p = Some off \<longrightarrow> off + n \<le> len) \<and> (p = None \<longrightarrow> n = 0)) \<and>
    mqtt_get_total_length b len \<noteq> None \<and> mqtt_get_id b len \<noteq> None \<and>
    mqtt_has_valid_msg_hdr b len \<noteq> None \<and> mqtt_header_complete b len \<noteq> None"
  using mqtt_get_publish_topic_inside [OF assms] mqtt_get_publish_data_inside [OF assms]
    mqtt_get_id_total [OF assms] mqtt_has_valid_msg_hdr_total [OF assms] mqtt_header_complete_total [OF assms]
    decode_length_total [OF assms, of 1 0]
  by (auto simp: mqtt_get_total_length_def)

theorem parsers_stay_inside_witness:
  "mqtt_get_id [0x32, 0xff, 0xff, 0xff, 0x7f, 0xff, 0xff] 7 \<noteq> None \<and>
   mqtt_get_publish_topic [0x32, 0xff, 0xff, 0xff, 0x7f, 0xff, 0xff] 7 = Some None"
  using parsers_stay_inside [of 7 "[0x32, 0xff, 0xff, 0xff, 0x7f, 0xff, 0xff]"]
  by (simp add: mqtt_get_publish_topic_def skip_length.simps load_def)

text \<open>
  C21. When the header and some payload of a PUBLISH are in the receive buffer, the parsers
  already give the length of the whole packet, the identifier, the topic, and the payload
  from its first byte to what has been received, but not beyond the end of the packet.
\<close>

theorem publish_partial_arrival:
  assumes "publish_start_ok dup qos retain n topic mid"
    and "publish_header_length n topic mid < len" "len \<le> length b"
    and "publish_header_length n topic mid \<le> 1 + length (encode_length n) + n"
    and b: "b = publish_start dup qos retain n topic mid rest"
  shows "mqtt_get_total_length b len = Some (n + (1 + length (encode_length n)), 1 + length (encode_length n)) \<and>
    mqtt_get_id b len = Some (case mid of None \<Rightarrow> 0 | Some m \<Rightarrow> unat m) \<and>
    (\<exists>off. mqtt_get_publish_topic b len = Some (Some (off, length topic)) \<and> take (length topic) (drop off b) = topic) \<and>
    (\<exists>off k. mqtt_get_publish_data b len = Some (Some off, k) \<and> drop off b = rest \<and>
       off + k = min len (n + (1 + length (encode_length n))))"
proof -
  let ?h = "publish_header_length n topic mid"
  have le: "1 + length (encode_length n) + 2 + length topic \<le> ?h" by (simp add: publish_header_length_def)
  have "take (length topic) (drop (3 + length (encode_length n)) b) = topic"
    by (simp add: b publish_start_def publish_body_def utf8_field_def be16_def numeral_3_eq_3)
  moreover have "drop ?h b = rest"
    by (simp add: b publish_start_def publish_body_alt utf8_field_def be16_def publish_header_length_def length_id_field)
  moreover have "mqtt_get_total_length b len = Some (n + (1 + length (encode_length n)), 1 + length (encode_length n))"
    using publish_start_decode [of n len dup qos retain topic mid rest] assms(1,2) le
    by (simp add: mqtt_get_total_length_def b publish_start_ok_def)
  moreover note publish_start_get_id [OF assms(1), of len rest] publish_start_topic [OF assms(1), of len rest]
    publish_start_data [OF assms(1,2,4), of rest]
  ultimately show ?thesis using assms(2,4) le by (auto simp: b min_def)
qed

theorem publish_partial_arrival_witness:
  "mqtt_get_id [0x32, 10, 0, 1, 0x61, 0x12, 0x34, 1, 2] 9 = Some 0x1234 \<and>
   map_option snd (mqtt_get_publish_data [0x32, 10, 0, 1, 0x61, 0x12, 0x34, 1, 2] 9) = Some 2"
proof -
  have b: "[0x32, 10, 0, 1, 0x61, 0x12, 0x34, 1, 2] = publish_start 0 1 0 10 [0x61] (Some 0x1234) [1, 2]"
    by (simp add: publish_start_def publish_body_def utf8_field_def be16_def fixed_header_byte_def encode_length.simps)
  have "publish_header_length 10 [0x61] (Some 0x1234) = 7"
    by (simp add: publish_header_length_def encode_length.simps)
  moreover have "publish_start_ok 0 1 0 10 [0x61] (Some 0x1234)" by (simp add: publish_start_ok_def)
  ultimately show ?thesis
    using publish_partial_arrival [OF _ _ _ _ b, of 9]
    by (auto simp: encode_length.simps publish_start_def publish_body_def be16_def utf8_field_def
        mqtt_get_publish_data_def decode_length.simps load_def fixed_header_byte_def mqtt_get_qos_def be16_val_def Let_def)
qed

primrec issue_ids :: "nat \<Rightarrow> id_source \<Rightarrow> 16 word list option" where
  "issue_ids 0 src = Some []"
| "issue_ids (Suc k) src = do { (m, src) \<leftarrow> assign_message_id src; ms \<leftarrow> issue_ids k src; Some (m # ms) }"

lemma unat_next_incremental:
  "unat (if p + 1 = 0 then 1 else p + 1 :: 16 word) = unat p mod 65535 + 1"
proof (cases "p + 1 = 0")
  case True
  then have "p = 0xffff" by (simp add: eq_neg_iff_add_eq_0 [symmetric])
  then show ?thesis by simp
next
  case False
  have "unat (p + 1) = (unat p + 1) mod 65536" by (simp add: unat_word_ariths)
  moreover have "unat (p + 1) \<noteq> 0" using False by (simp add: unat_eq_zero)
  ultimately have "unat p + 1 \<noteq> 65536" by auto
  then have "unat p + 1 < 65536" using unat_id_less [of p] by linarith
  then show ?thesis using False \<open>unat (p + 1) = _\<close> by simp
qed

lemma issue_ids_incremental:
  "\<exists>ms. issue_ids k (Incremental p) = Some ms \<and> map unat ms = map (\<lambda>i. (unat p + i) mod 65535 + 1) [0..<k]"
proof (induction k arbitrary: p)
  case (Suc k)
  let ?q = "if p + 1 = 0 then 1 else p + 1"
  obtain ms where ms: "issue_ids k (Incremental ?q) = Some ms"
    "map unat ms = map (\<lambda>i. (unat ?q + i) mod 65535 + 1) [0..<k]" using Suc.IH by blast
  have "(unat ?q + i) mod 65535 = (unat p + Suc i) mod 65535" for i
    by (simp only: unat_next_incremental) (metis add.assoc add.commute mod_add_left_eq plus_1_eq_Suc)
  moreover have "map f [0..<Suc k] = f 0 # map (\<lambda>i. f (Suc i)) [0..<k]" for f :: "nat \<Rightarrow> nat"
    by (simp add: upt_conv_Cons map_Suc_upt [symmetric] del: upt_Suc)
  ultimately show ?case
    using ms unat_next_incremental [of p] by (simp add: assign_message_id_incremental del: upt_Suc assign_message_id.simps)
qed simp

lemma mod_add_left_cancel:
  fixes a i j n :: nat
  assumes "(a + i) mod n = (a + j) mod n"
  shows "i mod n = j mod n"
proof -
  have "a + i \<le> a + j \<or> a + j \<le> a + i" by linarith
  then show ?thesis using assms mod_eq_dvd_iff_nat [of "a + i" "a + j" n] mod_eq_dvd_iff_nat [of "a + j" "a + i" n]
      mod_eq_dvd_iff_nat [of i j n] mod_eq_dvd_iff_nat [of j i n]
    by auto
qed

text \<open>
  C39. Incremental packet identifiers are never zero and repeat only after 65535 others.
\<close>

theorem incremental_ids_distinct:
  assumes "k \<le> 65535"
  shows "\<exists>ms. issue_ids k (Incremental p) = Some ms \<and> length ms = k \<and> 0 \<notin> set ms \<and> distinct ms"
proof -
  obtain ms where ms: "issue_ids k (Incremental p) = Some ms"
    "map unat ms = map (\<lambda>i. (unat p + i) mod 65535 + 1) [0..<k]"
    using issue_ids_incremental by blast
  have "inj_on (\<lambda>i. (unat p + i) mod 65535 + 1) {0..<k}"
  proof (rule inj_onI)
    fix i j assume ij: "i \<in> {0..<k}" "j \<in> {0..<k}"
    assume "(unat p + i) mod 65535 + 1 = (unat p + j) mod 65535 + 1"
    then have "(unat p + i) mod 65535 = (unat p + j) mod 65535" by simp
    then have "i mod 65535 = j mod 65535" by (rule mod_add_left_cancel)
    then show "i = j" using ij assms by simp
  qed
  then have "distinct (map unat ms)" unfolding ms(2) by (simp add: distinct_map)
  moreover have "0 \<notin> set (map unat ms)" unfolding ms(2) by auto
  moreover have "length ms = k" using ms(2) by (metis length_map length_upt minus_nat.diff_0)
  ultimately show ?thesis using ms(1) by (auto simp: distinct_map image_iff)
qed

theorem incremental_ids_distinct_witness:
  "issue_ids 3 (Incremental 0xfffe) = Some [0xffff, 1, 2] \<and> distinct [0xffff, 1, 2 :: 16 word]"
  using incremental_ids_distinct [of 3 "0xfffe"]
  by (simp add: numeral_3_eq_3)

text \<open>
  C40. Of a PUBLISH with any topic, of which the first \<open>len\<close> bytes have arrived in a buffer that
  holds anything behind them, \<open>mqtt_header_complete\<close> says exactly whether fixed and variable header
  have arrived, for every \<open>len\<close>, and reads none of the bytes that have not. The one
  exception is a header that ends with an empty topic: it is reported once another byte has
  arrived. The header is shorter than 64 KiB (a longer one can pass too early).
\<close>

theorem header_complete_exact:
  assumes ok: "dup \<in> {0, 1}" "0 \<le> qos" "qos < 3" "retain \<in> {0, 1}" "mid \<noteq> None \<longleftrightarrow> qos > 0" "small n"
    and header: "publish_header_length n topic mid < 65536"
    and len: "len \<le> length (publish_start dup qos retain n topic mid rest)"
  shows "mqtt_header_complete (take len (publish_start dup qos retain n topic mid rest) @ old) len =
    Some (publish_header_length n topic mid \<le> len \<and> (topic = [] \<and> mid = None \<longrightarrow> publish_header_length n topic mid < len))"
proof -
  let ?s = "publish_start dup qos retain n topic mid rest"
  define b where "b = take len ?s @ old"
  define i where "i = 1 + length (encode_length n)"
  have i5: "i \<le> 5" using length_encode_small [of n] ok(6) by (simp add: i_def)
  have hdr: "publish_header_length n topic mid = i + 2 + length topic + (if 0 < qos then 2 else 0)"
    using ok(5) by (auto simp: publish_header_length_def i_def)
  have loop: "header_complete_loop b len 1 = header_complete_loop ?s len 1"
    by (rule header_complete_loop_cong) (use len in \<open>simp_all add: b_def min_absorb2\<close>)
  have "mqtt_header_complete b len = Some (publish_header_length n topic mid \<le> len \<and>
      (topic = [] \<and> mid = None \<longrightarrow> publish_header_length n topic mid < len))"
  proof (cases "len < i")
    case True
    then have "header_complete_loop ?s len 1 = Some None"
      using header_complete_loop_short [of 1 "[fixed_header_byte 3 dup qos retain]" n len] i5 by (simp add: publish_start_def i_def)
    then show ?thesis using True hdr loop by (simp add: mqtt_header_complete_def)
  next
    case False
    then have l: "header_complete_loop b len 1 = Some (Some i)"
      using header_complete_loop_encode [of 1 "[fixed_header_byte 3 dup qos retain]" n len] i5 loop by (simp add: publish_start_def i_def)
    show ?thesis
    proof (cases "i + 2 < len")
      case True
      obtain h k where hk: "load ?s i = Some h" "load ?s (i + 1) = Some k" "be16_val h k = length topic"
        using publish_start_topic_length [OF _ i_def] header hdr by (metis add_lessD1 add.commute)
      have ld: "load b j = load ?s j" if "j < len" for j using that len by (simp add: b_def load_def nth_append)
      have q: "mqtt_get_qos b = Some (nat qos)"
        using fixed_header_fields(2) [of 3 dup qos retain] ok(1-4) ld [of 0] True by (auto simp: mqtt_get_qos_def publish_start_def)
      then show ?thesis using True hk ld [of i] ld [of "i + 1"] header ok(5) unfolding hdr
        by (cases "0 < qos") (auto simp: mqtt_header_complete_def l [simplified] Let_def)
    next
      case short: False
      then show ?thesis using ok(5) unfolding hdr by (cases topic) (auto simp: mqtt_header_complete_def l [simplified])
    qed
  qed
  then show ?thesis by (simp only: b_def)
qed

theorem header_complete_exact_witness:
  "mqtt_header_complete (take 4 (publish_start 0 1 0 10 [0x61] (Some 1) []) @ [0, 0]) 4 = Some False \<and>
   mqtt_header_complete (take 7 (publish_start 0 1 0 10 [0x61] (Some 1) []) @ [0, 0]) 7 = Some True"
proof -
  have "length (publish_start 0 1 0 10 [0x61] (Some 1) []) = 7"
    by (simp add: publish_start_def publish_body_def utf8_field_def encode_length.simps)
  then show ?thesis
    using header_complete_exact [of 0 1 0 "Some 1" 10 "[0x61]" 4 "[]" "[0, 0]"] header_complete_exact [of 0 1 0 "Some 1" 10 "[0x61]" 7 "[]" "[0, 0]"]
    by (simp add: publish_header_length_def encode_length.simps)
qed

text \<open>With a longer topic the \<^verbatim>\<open>uint16_t\<close> position wraps and an incomplete header passes.\<close>

lemma header_complete_wraps:
  "mqtt_header_complete [0x30, 0x83, 0x80, 0x04, 0xff, 0xff, 0x61] 7 = Some True"
  by (simp add: mqtt_header_complete_def header_complete_loop.simps load_def mqtt_get_qos_def be16_val_def Let_def)

end
