(* ===== verification/Mqtt5_Message.thy ===== *)
theory Mqtt5_Message
  imports Mqtt_Message
begin

text \<open>
  The MQTT 5 codec: \<^verbatim>\<open>lib/include/mqtt5_msg.h\<close>, \<^verbatim>\<open>lib/mqtt5_msg.c\<close> and the property
  structures of \<^verbatim>\<open>include/mqtt5_client.h\<close>.

  It shares buffer, fixed header and identifiers with the 3.1.1 codec and adds blocks of
  properties: a block is composed behind one reserved byte and then moved, when its length
  needs more than one byte. The parsers walk a block with a 16-bit position; the walk is a
  \<open>partial_function\<close>, since a position that wraps around may never reach the end of the
  block, and then the value is \<open>None\<close>, as for an access outside the buffer.

  The outcomes of the next calls of \<^verbatim>\<open>calloc\<close> are a list of truth values; behind its end
  every allocation succeeds.
\<close>

section \<open>Data model\<close>

abbreviation (input) MQTT5_PROPERTY_PAYLOAD_FORMAT_INDICATOR :: byte where "MQTT5_PROPERTY_PAYLOAD_FORMAT_INDICATOR \<equiv> 0x01"
abbreviation (input) MQTT5_PROPERTY_MESSAGE_EXPIRY_INTERVAL :: byte where "MQTT5_PROPERTY_MESSAGE_EXPIRY_INTERVAL \<equiv> 0x02"
abbreviation (input) MQTT5_PROPERTY_CONTENT_TYPE :: byte where "MQTT5_PROPERTY_CONTENT_TYPE \<equiv> 0x03"
abbreviation (input) MQTT5_PROPERTY_RESPONSE_TOPIC :: byte where "MQTT5_PROPERTY_RESPONSE_TOPIC \<equiv> 0x08"
abbreviation (input) MQTT5_PROPERTY_CORRELATION_DATA :: byte where "MQTT5_PROPERTY_CORRELATION_DATA \<equiv> 0x09"
abbreviation (input) MQTT5_PROPERTY_SUBSCRIBE_IDENTIFIER :: byte where "MQTT5_PROPERTY_SUBSCRIBE_IDENTIFIER \<equiv> 0x0B"
abbreviation (input) MQTT5_PROPERTY_SESSION_EXPIRY_INTERVAL :: byte where "MQTT5_PROPERTY_SESSION_EXPIRY_INTERVAL \<equiv> 0x11"
abbreviation (input) MQTT5_PROPERTY_ASSIGNED_CLIENT_IDENTIFIER :: byte where "MQTT5_PROPERTY_ASSIGNED_CLIENT_IDENTIFIER \<equiv> 0x12"
abbreviation (input) MQTT5_PROPERTY_SERVER_KEEP_ALIVE :: byte where "MQTT5_PROPERTY_SERVER_KEEP_ALIVE \<equiv> 0x13"
abbreviation (input) MQTT5_PROPERTY_AUTHENTICATION_METHOD :: byte where "MQTT5_PROPERTY_AUTHENTICATION_METHOD \<equiv> 0x15"
abbreviation (input) MQTT5_PROPERTY_AUTHENTICATION_DATA :: byte where "MQTT5_PROPERTY_AUTHENTICATION_DATA \<equiv> 0x16"
abbreviation (input) MQTT5_PROPERTY_REQUEST_PROBLEM_INFO :: byte where "MQTT5_PROPERTY_REQUEST_PROBLEM_INFO \<equiv> 0x17"
abbreviation (input) MQTT5_PROPERTY_WILL_DELAY_INTERVAL :: byte where "MQTT5_PROPERTY_WILL_DELAY_INTERVAL \<equiv> 0x18"
abbreviation (input) MQTT5_PROPERTY_REQUEST_RESP_INFO :: byte where "MQTT5_PROPERTY_REQUEST_RESP_INFO \<equiv> 0x19"
abbreviation (input) MQTT5_PROPERTY_RESP_INFO :: byte where "MQTT5_PROPERTY_RESP_INFO \<equiv> 0x1A"
abbreviation (input) MQTT5_PROPERTY_SERVER_REFERENCE :: byte where "MQTT5_PROPERTY_SERVER_REFERENCE \<equiv> 0x1C"
abbreviation (input) MQTT5_PROPERTY_REASON_STRING :: byte where "MQTT5_PROPERTY_REASON_STRING \<equiv> 0x1F"
abbreviation (input) MQTT5_PROPERTY_RECEIVE_MAXIMUM :: byte where "MQTT5_PROPERTY_RECEIVE_MAXIMUM \<equiv> 0x21"
abbreviation (input) MQTT5_PROPERTY_TOPIC_ALIAS_MAXIMIM :: byte where "MQTT5_PROPERTY_TOPIC_ALIAS_MAXIMIM \<equiv> 0x22"
abbreviation (input) MQTT5_PROPERTY_TOPIC_ALIAS :: byte where "MQTT5_PROPERTY_TOPIC_ALIAS \<equiv> 0x23"
abbreviation (input) MQTT5_PROPERTY_MAXIMUM_QOS :: byte where "MQTT5_PROPERTY_MAXIMUM_QOS \<equiv> 0x24"
abbreviation (input) MQTT5_PROPERTY_RETAIN_AVAILABLE :: byte where "MQTT5_PROPERTY_RETAIN_AVAILABLE \<equiv> 0x25"
abbreviation (input) MQTT5_PROPERTY_USER_PROPERTY :: byte where "MQTT5_PROPERTY_USER_PROPERTY \<equiv> 0x26"
abbreviation (input) MQTT5_PROPERTY_MAXIMUM_PACKET_SIZE :: byte where "MQTT5_PROPERTY_MAXIMUM_PACKET_SIZE \<equiv> 0x27"
abbreviation (input) MQTT5_PROPERTY_WILDCARD_SUBSCR_AVAILABLE :: byte where "MQTT5_PROPERTY_WILDCARD_SUBSCR_AVAILABLE \<equiv> 0x28"
abbreviation (input) MQTT5_PROPERTY_SUBSCR_IDENTIFIER_AVAILABLE :: byte where "MQTT5_PROPERTY_SUBSCR_IDENTIFIER_AVAILABLE \<equiv> 0x29"
abbreviation (input) MQTT5_PROPERTY_SHARED_SUBSCR_AVAILABLE :: byte where "MQTT5_PROPERTY_SHARED_SUBSCR_AVAILABLE \<equiv> 0x2A"

abbreviation (input) MQTT5_MAX_PROPERTY_STRING_LEN :: nat where "MQTT5_MAX_PROPERTY_STRING_LEN \<equiv> 16384"

text \<open>
  A stored key or value is a block of its own with a zero behind it; what \<^verbatim>\<open>strlen\<close> sees of it
  ends at its first zero byte, which a received key may contain.
\<close>

record mqtt5_user_property =
  key :: "byte list"
  val :: "byte list"

type_synonym mqtt5_user_property_handle = "mqtt5_user_property list option"

definition c_str :: "byte list \<Rightarrow> cstring" where
  "c_str s = takeWhile (\<lambda>b. b \<noteq> 0) s"

text \<open>A string on the heap whose owner may hold a pointer to it after it was freed.\<close>

datatype heap_str = Null_Str | Str "byte list" | Freed

record esp_mqtt5_connection_server_resp_property =
  sr_maximum_packet_size :: "32 word"
  sr_receive_maximum :: "16 word"
  sr_topic_alias_maximum :: "16 word"
  sr_max_qos :: byte
  sr_retain_available :: bool
  sr_wildcard_subscribe_available :: bool
  sr_subscribe_identifiers_available :: bool
  sr_shared_subscribe_available :: bool
  sr_response_info :: heap_str

text \<open>Pointers into the receive buffer are offsets.\<close>

record esp_mqtt5_publish_resp_property =
  pr_payload_format_indicator :: bool
  pr_message_expiry_interval :: "32 word"
  pr_topic_alias :: "16 word"
  pr_response_topic :: "nat option"
  pr_response_topic_len :: nat
  pr_correlation_data :: "nat option"
  pr_correlation_data_len :: nat
  pr_content_type :: "nat option"
  pr_content_type_len :: nat
  pr_subscribe_id :: "16 word"

record esp_mqtt5_connection_property_storage =
  cp_session_expiry_interval :: "32 word"
  cp_maximum_packet_size :: "32 word"
  cp_receive_maximum :: "16 word"
  cp_topic_alias_maximum :: "16 word"
  cp_request_resp_info :: bool
  cp_request_problem_info :: bool
  cp_user_property :: mqtt5_user_property_handle

record esp_mqtt5_connection_will_property_storage =
  wp_will_delay_interval :: "32 word"
  wp_message_expiry_interval :: "32 word"
  wp_payload_format_indicator :: bool
  wp_content_type :: "cstring option"
  wp_response_topic :: "cstring option"
  wp_correlation_data :: "byte list option"
  wp_correlation_data_len :: "16 word"
  wp_user_property :: mqtt5_user_property_handle

record esp_mqtt5_publish_property_config =
  pp_payload_format_indicator :: bool
  pp_message_expiry_interval :: "32 word"
  pp_topic_alias :: "16 word"
  pp_response_topic :: "cstring option"
  pp_correlation_data :: "byte list option"
  pp_correlation_data_len :: "16 word"
  pp_content_type :: "cstring option"
  pp_user_property :: mqtt5_user_property_handle

record esp_mqtt5_subscribe_property_config =
  sp_subscribe_id :: "16 word"
  sp_no_local_flag :: bool
  sp_retain_as_published_flag :: bool
  sp_retain_handle :: byte
  sp_is_share_subscribe :: bool
  sp_share_name :: "cstring option"
  sp_user_property :: mqtt5_user_property_handle

record esp_mqtt5_unsubscribe_property_config =
  up_is_share_subscribe :: bool
  up_share_name :: "cstring option"
  up_user_property :: mqtt5_user_property_handle

record esp_mqtt5_disconnect_property_config =
  dp_session_expiry_interval :: "32 word"
  dp_disconnect_reason :: byte
  dp_user_property :: mqtt5_user_property_handle

type_synonym heap = "bool list"

definition calloc :: "heap \<Rightarrow> bool \<times> heap" where
  "calloc h = (case h of [] \<Rightarrow> (True, []) | ok # r \<Rightarrow> (ok, r))"

section \<open>Variable byte integers\<close>

text \<open>The callers pass an \<open>encoded_lens\<close> of four bytes: a fifth is written behind it.\<close>

definition generate_variable_len :: "nat \<Rightarrow> byte list option" where
  "generate_variable_len len = (let e = encode_length len in if length e > 4 then None else Some e)"

function variable_len_loop :: "byte list \<Rightarrow> nat \<Rightarrow> nat \<Rightarrow> nat \<Rightarrow> nat \<Rightarrow> (nat \<times> nat) option" where
  "variable_len_loop b buffer_len offset i len =
     (if i < buffer_len \<and> i - offset < 4 then do {
        v \<leftarrow> load b i;
        let len = len + push_bit (7 * (i - offset)) (unat (v AND 0x7f));
        if v AND 0x80 = 0 then Some (Suc i, len)
        else variable_len_loop b buffer_len offset (Suc i) len
      } else Some (i, len))"
  by pat_completeness auto
termination
  by (relation "measure (\<lambda>(b, l, offset, i, len). l - i)") auto

declare variable_len_loop.simps [simp del]

text \<open>The value and the number of bytes read; no byte counts as read when a fourth one still continues.\<close>

definition get_variable_len :: "byte list \<Rightarrow> nat \<Rightarrow> nat \<Rightarrow> (nat \<times> nat) option" where
  "get_variable_len b offset buffer_len = do {
     (i, len) \<leftarrow> variable_len_loop b buffer_len offset offset 0;
     if i - offset = 4 \<and> i \<le> buffer_len then do {
       v \<leftarrow> load b (i - 1);
       if v AND 0x80 \<noteq> 0 then Some (0, 0) else Some (len, i - offset)
     } else Some (len, i - offset)
   }"

definition mqtt5_property_has_bytes :: "nat \<Rightarrow> nat \<Rightarrow> nat \<Rightarrow> bool" where
  "mqtt5_property_has_bytes property_offset needed property_len \<longleftrightarrow>
     property_offset \<le> property_len \<and> needed \<le> property_len - property_offset"

section \<open>Building blocks of outbound messages\<close>

text \<open>The loop that moves \<open>n\<close> bytes ending at \<open>message_offset\<close> up by \<open>offset\<close>, last byte first.\<close>

primrec move_up :: "nat \<Rightarrow> byte list \<Rightarrow> nat \<Rightarrow> nat \<Rightarrow> byte list option" where
  "move_up 0 b message_offset offset = Some b"
| "move_up (Suc n) b message_offset offset = do {
     v \<leftarrow> load b message_offset;
     b \<leftarrow> store b (message_offset + offset) [v];
     move_up n b (message_offset - 1) offset
   }"

definition update_property_len_value ::
  "mqtt_connection \<Rightarrow> nat \<Rightarrow> nat \<Rightarrow> (int \<times> mqtt_connection) option" where
  "update_property_len_value c property_len property_offset = do {
     encoded_lens \<leftarrow> generate_variable_len property_len;
     let offset = length encoded_lens - 1;
     let c = set_out_length c (out_length c + offset);
     if out_length c > buffer_length c then Some (-1, c)
     else do {
       b \<leftarrow> (if offset > 0 then move_up property_len (buffer c) (property_offset + property_len) offset
             else Some (buffer c));
       b \<leftarrow> store b property_offset encoded_lens;
       Some (int offset, c\<lparr>buffer := b\<rparr>)
     }
   }"

definition be_bytes :: "nat \<Rightarrow> nat \<Rightarrow> byte list" where
  "be_bytes len_occupy n = map (\<lambda>i. of_nat (drop_bit (8 * (len_occupy - i)) n)) [1..<len_occupy + 1]"

text \<open>
  \<open>append_property\<close>: an identifier (none for 0), \<open>data_len\<close> in \<open>len_occupy\<close> bytes or as a
  variable byte integer, and the data, if any. The check counts no byte for the integer.
\<close>

definition append_property ::
  "mqtt_connection \<Rightarrow> byte \<Rightarrow> nat \<Rightarrow> byte list option \<Rightarrow> nat \<Rightarrow> (int \<times> mqtt_connection) option" where
  "append_property c property_type len_occupy data data_len =
     (if out_length c + len_occupy + (if data = None then 0 else data_len) +
           (if property_type \<noteq> 0 then 1 else 0) > buffer_length c then Some (-1, c)
      else do {
        lens \<leftarrow> (if len_occupy = 0 then generate_variable_len data_len
                 else Some (be_bytes len_occupy data_len));
        bs \<leftarrow> (case data of None \<Rightarrow> Some [] | Some d \<Rightarrow> fetch d data_len);
        let out = (if property_type \<noteq> 0 then [property_type] else []) @ lens @ bs;
        b \<leftarrow> store (buffer c) (out_length c) out;
        Some (int (length out), set_out_length (c\<lparr>buffer := b\<rparr>) (out_length c + length out))
      })"

text \<open>\<open>MQTT5_CONVERT_TWO_BYTE\<close> evaluates its target twice: high byte, then low byte.\<close>

definition mqtt5_append_message_id :: "mqtt_connection \<Rightarrow> 16 word \<Rightarrow> (16 word \<times> mqtt_connection) option" where
  "mqtt5_append_message_id c message_id = do {
     (m, src) \<leftarrow> (if message_id = 0 then assign_message_id (ids c) else Some (message_id, ids c));
     let c = c\<lparr>ids := src\<rparr>;
     if out_length c + 2 > buffer_length c then Some (0, c)
     else do {
       b \<leftarrow> store (buffer c) (out_length c) [ucast (drop_bit 8 m AND 0xff)];
       b \<leftarrow> store b (out_length c + 1) [ucast (m AND 0xff)];
       Some (m, set_out_length (c\<lparr>buffer := b\<rparr>) (out_length c + 2))
     }
   }"

definition mqtt5_init_message :: "mqtt_connection \<Rightarrow> mqtt_connection" where
  "mqtt5_init_message c = set_out_length c 5"

definition mqtt5_fail_message :: "mqtt_connection \<Rightarrow> mqtt_connection" where
  "mqtt5_fail_message c =
     c\<lparr>outbound_message := (outbound_message c)\<lparr>msg_data := In_Buffer 0, msg_length := 0\<rparr>\<rparr>"

definition mqtt5_fini_message ::
  "mqtt_connection \<Rightarrow> int \<Rightarrow> int \<Rightarrow> int \<Rightarrow> int \<Rightarrow> mqtt_connection option" where
  "mqtt5_fini_message c ty dup qos retain =
     (let om = outbound_message c;
          message_length = msg_length om - 5;
          total_length = (if fragmented_msg_total_length om \<noteq> 0
                          then fragmented_msg_total_length om - 5 else message_length)
      in do {
        encoded_lens \<leftarrow> generate_variable_len total_length;
        let len_bytes = length encoded_lens;
        if len_bytes + 1 > 5 then Some (mqtt5_fail_message c)
        else do {
          let offs = 5 - 1 - len_bytes;
          b \<leftarrow> store (buffer c) offs (fixed_header_byte ty dup qos retain # encoded_lens);
          Some (c\<lparr>buffer := b,
                  outbound_message := om\<lparr>
                    msg_length := message_length + len_bytes + 1,
                    msg_data := In_Buffer offs,
                    fragmented_msg_data_offset := fragmented_msg_data_offset om - of_nat offs\<rparr>\<rparr>)
        }
      })"

subsection \<open>Build steps\<close>

definition mqtt5_finish :: "build_step \<Rightarrow> int \<Rightarrow> int \<Rightarrow> int \<Rightarrow> int \<Rightarrow> mqtt_connection \<Rightarrow> mqtt_connection option" where
  "mqtt5_finish s ty dup qos retain c =
     do { (ok, c) \<leftarrow> s c; if ok then mqtt5_fini_message c ty dup qos retain else Some (mqtt5_fail_message c) }"

text \<open>\<open>APPEND_CHECK(append_property(...), fail_message(connection))\<close>.\<close>

definition property_step :: "byte \<Rightarrow> nat \<Rightarrow> byte list option \<Rightarrow> nat \<Rightarrow> build_step" where
  "property_step property_type len_occupy data data_len c = do {
     (r, c) \<leftarrow> append_property c property_type len_occupy data data_len;
     Some (r \<noteq> -1, c)
   }"

definition when_step :: "bool \<Rightarrow> build_step \<Rightarrow> build_step" where
  "when_step p s = (if p then s else proceed)"

text \<open>An unchecked write at the end of the message.\<close>

definition put_step :: "byte list \<Rightarrow> build_step" where
  "put_step bs c = do {
     b \<leftarrow> store (buffer c) (out_length c) bs;
     Some (True, set_out_length (c\<lparr>buffer := b\<rparr>) (out_length c + length bs))
   }"

text \<open>
  A block of properties: one byte is skipped for its length, the properties are appended,
  and \<open>update_property_len_value\<close> writes the length.
\<close>

definition property_block :: "build_step \<Rightarrow> build_step" where
  "property_block s c =
     (let properties_offset = out_length c in
      chain s (\<lambda>c. do {
        (r, c) \<leftarrow> update_property_len_value c (out_length c - properties_offset - 1) properties_offset;
        Some (r \<noteq> -1, c)
      }) (set_out_length c (properties_offset + 1)))"

definition string_property :: "byte \<Rightarrow> cstring option \<Rightarrow> build_step" where
  "string_property ty s =
     when_step (s \<noteq> None) (property_step ty 2 (Some (chars s)) (length (chars s)))"

primrec user_property_items :: "mqtt5_user_property list \<Rightarrow> build_step" where
  "user_property_items [] = proceed"
| "user_property_items (item # items) =
     chain (property_step MQTT5_PROPERTY_USER_PROPERTY 2 (Some (key item)) (length (c_str (key item))))
    (chain (property_step 0 2 (Some (val item)) (length (c_str (val item))))
           (user_property_items items))"

definition user_property_step :: "mqtt5_user_property_handle \<Rightarrow> build_step" where
  "user_property_step h = (case h of None \<Rightarrow> proceed | Some items \<Rightarrow> user_property_items items)"

section \<open>Composition of control packets\<close>

subsection \<open>CONNECT\<close>

definition mqtt5_connect_header :: "mqtt_connect_info \<Rightarrow> byte list" where
  "mqtt5_connect_header info =
     [0, 4, 0x4d, 0x51, 0x54, 0x54, 5, 0,
      word_of_int (drop_bit 8 (keepalive info) AND 0xff), word_of_int (keepalive info AND 0xff)]"

definition connect_properties :: "esp_mqtt5_connection_property_storage \<Rightarrow> build_step" where
  "connect_properties p =
     chain (when_step (cp_session_expiry_interval p \<noteq> 0)
        (property_step MQTT5_PROPERTY_SESSION_EXPIRY_INTERVAL 4 None (unat (cp_session_expiry_interval p))))
    (chain (when_step (cp_maximum_packet_size p \<noteq> 0)
        (property_step MQTT5_PROPERTY_MAXIMUM_PACKET_SIZE 4 None (unat (cp_maximum_packet_size p))))
    (chain (when_step (cp_receive_maximum p \<noteq> 0)
        (property_step MQTT5_PROPERTY_RECEIVE_MAXIMUM 2 None (unat (cp_receive_maximum p))))
    (chain (when_step (cp_topic_alias_maximum p \<noteq> 0)
        (property_step MQTT5_PROPERTY_TOPIC_ALIAS_MAXIMIM 2 None (unat (cp_topic_alias_maximum p))))
    (chain (when_step (cp_request_resp_info p) (property_step MQTT5_PROPERTY_REQUEST_RESP_INFO 1 None 1))
    (chain (when_step (cp_request_problem_info p) (property_step MQTT5_PROPERTY_REQUEST_PROBLEM_INFO 1 None 1))
           (user_property_step (cp_user_property p)))))))"

definition will_properties :: "esp_mqtt5_connection_will_property_storage \<Rightarrow> build_step" where
  "will_properties w =
     chain (when_step (wp_will_delay_interval w \<noteq> 0)
        (property_step MQTT5_PROPERTY_WILL_DELAY_INTERVAL 4 None (unat (wp_will_delay_interval w))))
    (chain (when_step (wp_payload_format_indicator w)
        (property_step MQTT5_PROPERTY_PAYLOAD_FORMAT_INDICATOR 1 None 1))
    (chain (when_step (wp_message_expiry_interval w \<noteq> 0)
        (property_step MQTT5_PROPERTY_MESSAGE_EXPIRY_INTERVAL 4 None (unat (wp_message_expiry_interval w))))
    (chain (string_property MQTT5_PROPERTY_CONTENT_TYPE (wp_content_type w))
    (chain (string_property MQTT5_PROPERTY_RESPONSE_TOPIC (wp_response_topic w))
    (chain (when_step (wp_correlation_data w \<noteq> None \<and> wp_correlation_data_len w \<noteq> 0)
        (property_step MQTT5_PROPERTY_CORRELATION_DATA 2 (wp_correlation_data w) (unat (wp_correlation_data_len w))))
           (user_property_step (wp_user_property w)))))))"

text \<open>A field of the CONNECT payload: two length bytes and the bytes.\<close>

definition field_step :: "byte list option \<Rightarrow> nat \<Rightarrow> build_step" where
  "field_step data len = property_step 0 2 data len"

definition mqtt5_connect_client_id :: "mqtt_connect_info \<Rightarrow> build_step" where
  "mqtt5_connect_client_id info =
     (if nonempty (client_id info)
      then field_step (client_id info) (length (chars (client_id info)))
      else field_step None 0)"

definition mqtt5_connect_will ::
  "mqtt_connect_info \<Rightarrow> esp_mqtt5_connection_will_property_storage \<Rightarrow> nat \<Rightarrow> build_step" where
  "mqtt5_connect_will info w flags =
     when_step (nonempty (will_topic info))
       (chain (property_block (will_properties w))
       (chain (field_step (will_topic info) (length (chars (will_topic info))))
       (chain (field_step (will_message info) (will_length info))
       (chain (or_byte flags 0x04)
       (chain (when_step (will_retain info) (or_byte flags 0x20))
              (or_byte flags (word_of_int (push_bit 3 (will_qos info AND 3)))))))))"

definition mqtt5_connect_username :: "mqtt_connect_info \<Rightarrow> nat \<Rightarrow> build_step" where
  "mqtt5_connect_username info flags =
     when_step (nonempty (username info))
       (chain (field_step (username info) (length (chars (username info)))) (or_byte flags 0x80))"

definition mqtt5_connect_password :: "mqtt_connect_info \<Rightarrow> nat \<Rightarrow> build_step" where
  "mqtt5_connect_password info flags =
     when_step (nonempty (password info))
       (chain (when_step (\<not> nonempty (username info)) (chain (field_step None 0) (or_byte flags 0x80)))
       (chain (field_step (password info) (length (chars (password info)))) (or_byte flags 0x40)))"

definition mqtt5_msg_connect ::
  "mqtt_connection \<Rightarrow> mqtt_connect_info \<Rightarrow> esp_mqtt5_connection_property_storage
     \<Rightarrow> esp_mqtt5_connection_will_property_storage \<Rightarrow> mqtt_connection option" where
  "mqtt5_msg_connect c info property will_property =
     (let flags = 12 in
      mqtt5_finish
        (chain (put_step (mqtt5_connect_header info))
        (chain (when_step (clean_session info) (or_byte flags 0x02))
        (chain (property_block (connect_properties property))
        (chain (mqtt5_connect_client_id info)
        (chain (mqtt5_connect_will info will_property flags)
        (chain (mqtt5_connect_username info flags)
               (mqtt5_connect_password info flags)))))))
        MQTT_MSG_TYPE_CONNECT 0 0 0 (mqtt5_init_message c))"

subsection \<open>PUBLISH\<close>

text \<open>What \<^verbatim>\<open>snprintf\<close> leaves in a block of \<open>n\<close> cleared bytes.\<close>

definition snprintf_block :: "nat \<Rightarrow> byte list \<Rightarrow> byte list" where
  "snprintf_block n s = take (n - 1) s @ replicate (n - min (n - 1) (length s)) 0"

definition response_topic_step :: "bool \<Rightarrow> cstring option \<Rightarrow> cstring option \<Rightarrow> build_step" where
  "response_topic_step alloc_ok response_topic resp_info =
     when_step (response_topic \<noteq> None)
       (if nonempty resp_info then
          let response_topic_size = (length (chars response_topic) + length (chars resp_info) + 1) mod 65536;
              blk = snprintf_block response_topic_size (chars response_topic @ [0x2f] @ chars resp_info)
          in if \<not> alloc_ok then (\<lambda>c. Some (False, c))
             else property_step MQTT5_PROPERTY_RESPONSE_TOPIC 2 (Some blk) response_topic_size
        else string_property MQTT5_PROPERTY_RESPONSE_TOPIC response_topic)"

definition publish_properties ::
  "bool \<Rightarrow> esp_mqtt5_publish_property_config option \<Rightarrow> cstring option \<Rightarrow> build_step" where
  "publish_properties alloc_ok property resp_info =
     (case property of None \<Rightarrow> proceed
      | Some p \<Rightarrow>
        chain (when_step (pp_payload_format_indicator p)
           (property_step MQTT5_PROPERTY_PAYLOAD_FORMAT_INDICATOR 1 None 1))
       (chain (when_step (pp_message_expiry_interval p \<noteq> 0)
           (property_step MQTT5_PROPERTY_MESSAGE_EXPIRY_INTERVAL 4 None (unat (pp_message_expiry_interval p))))
       (chain (when_step (pp_topic_alias p \<noteq> 0)
           (property_step MQTT5_PROPERTY_TOPIC_ALIAS 2 None (unat (pp_topic_alias p))))
       (chain (response_topic_step alloc_ok (pp_response_topic p) resp_info)
       (chain (when_step (pp_correlation_data p \<noteq> None \<and> pp_correlation_data_len p \<noteq> 0)
           (property_step MQTT5_PROPERTY_CORRELATION_DATA 2 (pp_correlation_data p) (unat (pp_correlation_data_len p))))
       (chain (user_property_step (pp_user_property p))
              (string_property MQTT5_PROPERTY_CONTENT_TYPE (pp_content_type p))))))))"

text \<open>
  Length and payload length are added as \<^verbatim>\<open>size_t\<close>: a sum below 0 wraps around and is greater than any buffer. A null
  pointer as payload may come with a negative length, and is then read if it is that large.
\<close>

definition mqtt5_publish_payload :: "byte list option \<Rightarrow> int \<Rightarrow> mqtt_connection \<Rightarrow> mqtt_connection option" where
  "mqtt5_publish_payload data data_length c =
     (let om = outbound_message c; total = int (out_length c) + data_length in
      if total < 0 \<or> total > int (buffer_length c) then do {
        bs \<leftarrow> fetch (chars data) (buffer_length c - out_length c);
        b \<leftarrow> store (buffer c) (out_length c) bs;
        Some (c\<lparr>buffer := b,
                outbound_message := om\<lparr>
                  fragmented_msg_data_offset := of_nat (out_length c),
                  msg_length := buffer_length c,
                  fragmented_msg_total_length := nat (total mod 2 ^ 32)\<rparr>\<rparr>)
      } else
        case data of
          None \<Rightarrow> Some (c\<lparr>outbound_message := om\<lparr>fragmented_msg_total_length := 0\<rparr>\<rparr>)
        | Some d \<Rightarrow> do {
            bs \<leftarrow> (if data_length < 0 then None else fetch d (nat data_length));
            b \<leftarrow> store (buffer c) (out_length c) bs;
            Some (c\<lparr>buffer := b,
                    outbound_message := om\<lparr>
                      msg_length := nat total,
                      fragmented_msg_total_length := 0\<rparr>\<rparr>)
          })"

definition mqtt5_msg_publish ::
  "mqtt_connection \<Rightarrow> cstring option \<Rightarrow> byte list option \<Rightarrow> int \<Rightarrow> int \<Rightarrow> int \<Rightarrow> 16 word
     \<Rightarrow> esp_mqtt5_publish_property_config option \<Rightarrow> cstring option \<Rightarrow> bool
     \<Rightarrow> (mqtt_connection \<times> 16 word) option" where
  "mqtt5_msg_publish c topic data data_length qos retain message_id property resp_info alloc_ok =
     (let c = mqtt5_init_message c in
      if \<not> nonempty topic \<and> (case property of None \<Rightarrow> True | Some p \<Rightarrow> pp_topic_alias p = 0)
      then Some (mqtt5_fail_message c, message_id)
      else do {
        (ok, c) \<leftarrow> property_step 0 2 topic (length (chars topic)) c;
        if \<not> ok then Some (mqtt5_fail_message c, message_id)
        else if data = None \<and> data_length > 0 then Some (mqtt5_fail_message c, message_id)
        else do {
          (message_id, c) \<leftarrow> (if qos > 0 then mqtt5_append_message_id c 0 else Some (0, c));
          if qos > 0 \<and> message_id = 0 then Some (mqtt5_fail_message c, message_id)
          else do {
            (ok, c) \<leftarrow> property_block (publish_properties alloc_ok property resp_info) c;
            if \<not> ok then Some (mqtt5_fail_message c, message_id)
            else do {
              c \<leftarrow> mqtt5_publish_payload data data_length c;
              c \<leftarrow> mqtt5_fini_message c MQTT_MSG_TYPE_PUBLISH 0 qos retain;
              Some (c, message_id)
            }
          }
        }
      })"

subsection \<open>SUBSCRIBE, UNSUBSCRIBE and DISCONNECT\<close>

text \<open>
  The shared subscription \<^verbatim>\<open>$share/<name>/<filter>\<close>. A failed allocation is not handled: the
  string is then written through a null pointer.
\<close>

definition shared_topic :: "bool \<Rightarrow> cstring option \<Rightarrow> cstring \<Rightarrow> cstring option" where
  "shared_topic alloc_ok share_name topic = do {
     name \<leftarrow> share_name;
     let shared_topic_size = (length topic + 12 + length name) mod 65536;
     if \<not> alloc_ok \<or> shared_topic_size = 0 then None
     else Some (c_str (snprintf_block shared_topic_size
       ([0x24, 0x73, 0x68, 0x61, 0x72, 0x65, 0x2f] @ name @ [0x2f] @ topic)))
   }"

definition shared_topic_step :: "bool \<Rightarrow> cstring option \<Rightarrow> cstring \<Rightarrow> build_step" where
  "shared_topic_step alloc_ok share_name topic c = do {
     s \<leftarrow> shared_topic alloc_ok share_name topic;
     property_step 0 2 (Some s) (length s) c
   }"

definition subscribe_options :: "esp_mqtt5_subscribe_property_config option \<Rightarrow> int \<Rightarrow> byte" where
  "subscribe_options property qos =
     (case property of None \<Rightarrow> 0
      | Some p \<Rightarrow>
        (if 0 < sp_retain_handle p \<and> sp_retain_handle p < 3 then push_bit 4 (sp_retain_handle p AND 3) else 0) OR
        (if sp_no_local_flag p then 0x04 else 0) OR
        (if sp_retain_as_published_flag p then 0x08 else 0)) OR
     word_of_int (qos AND 3)"

definition subscribe_properties :: "esp_mqtt5_subscribe_property_config option \<Rightarrow> build_step" where
  "subscribe_properties property =
     (case property of None \<Rightarrow> proceed
      | Some p \<Rightarrow>
        chain (when_step (sp_subscribe_id p \<noteq> 0)
          (property_step MQTT5_PROPERTY_SUBSCRIBE_IDENTIFIER 0 None (unat (sp_subscribe_id p))))
          (user_property_step (sp_user_property p)))"

fun mqtt5_subscribe_topics ::
  "heap \<Rightarrow> esp_mqtt5_subscribe_property_config option \<Rightarrow> esp_mqtt_topic list \<Rightarrow> build_step" where
  "mqtt5_subscribe_topics h property [] = proceed"
| "mqtt5_subscribe_topics h property (t # ts) =
     (if topic_filter t = [] then (\<lambda>c. Some (False, c))
      else
        let (ok, h') = (case property of None \<Rightarrow> (True, h)
              | Some p \<Rightarrow> if sp_is_share_subscribe p then calloc h else (True, h))
        in chain
             (case property of
                None \<Rightarrow> property_step 0 2 (Some (topic_filter t)) (length (topic_filter t))
              | Some p \<Rightarrow>
                if sp_is_share_subscribe p then shared_topic_step ok (sp_share_name p) (topic_filter t)
                else property_step 0 2 (Some (topic_filter t)) (length (topic_filter t)))
          (chain (raw_step [subscribe_options property (topic_qos t)])
                 (mqtt5_subscribe_topics h' property ts)))"

definition mqtt5_msg_subscribe ::
  "heap \<Rightarrow> mqtt_connection \<Rightarrow> esp_mqtt_topic list \<Rightarrow> esp_mqtt5_subscribe_property_config option
     \<Rightarrow> (mqtt_connection \<times> 16 word) option" where
  "mqtt5_msg_subscribe h c topic_list property = do {
     (message_id, c) \<leftarrow> mqtt5_append_message_id (mqtt5_init_message c) 0;
     if message_id = 0 then Some (mqtt5_fail_message c, message_id)
     else do {
       c \<leftarrow> mqtt5_finish
              (chain (property_block (subscribe_properties property))
                     (mqtt5_subscribe_topics h property topic_list))
              MQTT_MSG_TYPE_SUBSCRIBE 0 1 0 c;
       Some (c, message_id)
     }
   }"

definition store_step :: "nat \<Rightarrow> byte \<Rightarrow> build_step" where
  "store_step i v c = do { b \<leftarrow> store (buffer c) i [v]; Some (True, c\<lparr>buffer := b\<rparr>) }"

definition disconnect_properties :: "esp_mqtt5_disconnect_property_config option \<Rightarrow> nat \<Rightarrow> build_step" where
  "disconnect_properties property reason_offset =
     (case property of None \<Rightarrow> proceed
      | Some p \<Rightarrow>
        chain (when_step (dp_session_expiry_interval p \<noteq> 0)
          (property_step MQTT5_PROPERTY_SESSION_EXPIRY_INTERVAL 4 None (unat (dp_session_expiry_interval p))))
       (chain (user_property_step (dp_user_property p))
              (when_step (dp_disconnect_reason p \<noteq> 0) (store_step reason_offset (dp_disconnect_reason p)))))"

definition mqtt5_msg_disconnect ::
  "mqtt_connection \<Rightarrow> esp_mqtt5_disconnect_property_config option \<Rightarrow> mqtt_connection option" where
  "mqtt5_msg_disconnect c property =
     mqtt5_finish (chain (put_step [0]) (property_block (disconnect_properties property 5)))
       MQTT_MSG_TYPE_DISCONNECT 0 0 0 (mqtt5_init_message c)"

definition mqtt5_msg_unsubscribe ::
  "mqtt_connection \<Rightarrow> cstring option \<Rightarrow> 16 word \<Rightarrow> esp_mqtt5_unsubscribe_property_config option \<Rightarrow> bool
     \<Rightarrow> (mqtt_connection \<times> 16 word) option" where
  "mqtt5_msg_unsubscribe c topic message_id property alloc_ok =
     (let c = mqtt5_init_message c in
      if \<not> nonempty topic then Some (mqtt5_fail_message c, message_id)
      else do {
        (message_id, c) \<leftarrow> mqtt5_append_message_id c 0;
        if message_id = 0 then Some (mqtt5_fail_message c, message_id)
        else do {
          c \<leftarrow> mqtt5_finish
                 (chain (property_block (case property of None \<Rightarrow> proceed | Some p \<Rightarrow> user_property_step (up_user_property p)))
                        (case property of
                           None \<Rightarrow> property_step 0 2 topic (length (chars topic))
                         | Some p \<Rightarrow>
                           if up_is_share_subscribe p then shared_topic_step alloc_ok (up_share_name p) (chars topic)
                           else property_step 0 2 topic (length (chars topic))))
                 MQTT_MSG_TYPE_UNSUBSCRIBE 0 1 0 c;
          Some (c, message_id)
        }
      })"

subsection \<open>Acknowledgements\<close>

text \<open>Identifier, reason code 0 and an empty block of properties.\<close>

definition mqtt5_ack_message :: "int \<Rightarrow> int \<Rightarrow> mqtt_connection \<Rightarrow> 16 word \<Rightarrow> mqtt_connection option" where
  "mqtt5_ack_message ty qos c message_id = do {
     (m, c) \<leftarrow> mqtt5_append_message_id (mqtt5_init_message c) message_id;
     if m = 0 then Some (mqtt5_fail_message c)
     else mqtt5_finish (chain (put_step [0]) (property_block proceed)) ty 0 qos 0 c
   }"

definition mqtt5_msg_puback :: "mqtt_connection \<Rightarrow> 16 word \<Rightarrow> mqtt_connection option" where
  "mqtt5_msg_puback = mqtt5_ack_message MQTT_MSG_TYPE_PUBACK 0"

definition mqtt5_msg_pubrec :: "mqtt_connection \<Rightarrow> 16 word \<Rightarrow> mqtt_connection option" where
  "mqtt5_msg_pubrec = mqtt5_ack_message MQTT_MSG_TYPE_PUBREC 0"

definition mqtt5_msg_pubrel :: "mqtt_connection \<Rightarrow> 16 word \<Rightarrow> mqtt_connection option" where
  "mqtt5_msg_pubrel = mqtt5_ack_message MQTT_MSG_TYPE_PUBREL 1"

definition mqtt5_msg_pubcomp :: "mqtt_connection \<Rightarrow> 16 word \<Rightarrow> mqtt_connection option" where
  "mqtt5_msg_pubcomp = mqtt5_ack_message MQTT_MSG_TYPE_PUBCOMP 0"

section \<open>Parsers of received messages\<close>

text \<open>
  A position in a block of properties is a \<^verbatim>\<open>uint16_t\<close>; \<open>p\<close> is where the block starts in the
  receive buffer.
\<close>

abbreviation u16 :: "nat \<Rightarrow> nat" where "u16 n \<equiv> n mod 65536"

definition read_one :: "byte list \<Rightarrow> nat \<Rightarrow> nat \<Rightarrow> (byte \<times> nat) option" where
  "read_one b p off = do { v \<leftarrow> load b (p + off); Some (v, u16 (off + 1)) }"

text \<open>\<open>MQTT5_CONVERT_ONE_BYTE_TO_TWO\<close> and \<open>MQTT5_CONVERT_ONE_BYTE_TO_FOUR\<close>.\<close>

definition read_two :: "byte list \<Rightarrow> nat \<Rightarrow> nat \<Rightarrow> (nat \<times> nat) option" where
  "read_two b p off = do {
     (h, off) \<leftarrow> read_one b p off;
     (l, off) \<leftarrow> read_one b p off;
     Some (be16_val h l, off)
   }"

definition read_four :: "byte list \<Rightarrow> nat \<Rightarrow> nat \<Rightarrow> (32 word \<times> nat) option" where
  "read_four b p off = do {
     (x, off) \<leftarrow> read_one b p off;
     (y, off) \<leftarrow> read_one b p off;
     (z, off) \<leftarrow> read_one b p off;
     (w, off) \<leftarrow> read_one b p off;
     Some (push_bit 24 (ucast x) OR push_bit 16 (ucast y) OR push_bit 8 (ucast z) OR ucast w, off)
   }"

text \<open>
  The checked length of a string: the inner \<open>None\<close> rejects the block, otherwise the value is
  the length and the position of the first byte.
\<close>

definition read_string_len :: "byte list \<Rightarrow> nat \<Rightarrow> nat \<Rightarrow> nat \<Rightarrow> (nat \<times> nat) option option" where
  "read_string_len b p property_len off =
     (if \<not> mqtt5_property_has_bytes off 2 property_len then Some None
      else do {
        (len, off) \<leftarrow> read_two b p off;
        if len > MQTT5_MAX_PROPERTY_STRING_LEN \<or> \<not> mqtt5_property_has_bytes off len property_len
        then Some None else Some (Some (len, off))
      })"

text \<open>
  A case of the \<open>switch\<close> over the property identifier: \<open>True\<close> to go on at a new position,
  \<open>False\<close> to reject the block.
\<close>

type_synonym 's property_case = "nat \<Rightarrow> 's \<Rightarrow> (bool \<times> nat \<times> 's) option"

definition reject :: "'s property_case" where
  "reject off s = Some (False, off, s)"

definition skip_string :: "byte list \<Rightarrow> nat \<Rightarrow> nat \<Rightarrow> 's property_case" where
  "skip_string b p property_len off s = do {
     r \<leftarrow> read_string_len b p property_len off;
     case r of None \<Rightarrow> reject off s
     | Some (len, off) \<Rightarrow> Some (True, u16 (off + len), s)
   }"

definition one_byte :: "byte list \<Rightarrow> nat \<Rightarrow> nat \<Rightarrow> (byte \<Rightarrow> 's \<Rightarrow> 's) \<Rightarrow> 's property_case" where
  "one_byte b p property_len f off s =
     (if \<not> mqtt5_property_has_bytes off 1 property_len then reject off s
      else do { (v, off) \<leftarrow> read_one b p off; Some (True, off, f v s) })"

definition two_bytes :: "byte list \<Rightarrow> nat \<Rightarrow> nat \<Rightarrow> (nat \<Rightarrow> 's \<Rightarrow> 's) \<Rightarrow> 's property_case" where
  "two_bytes b p property_len f off s =
     (if \<not> mqtt5_property_has_bytes off 2 property_len then reject off s
      else do { (v, off) \<leftarrow> read_two b p off; Some (True, off, f v s) })"

definition four_bytes :: "byte list \<Rightarrow> nat \<Rightarrow> nat \<Rightarrow> (32 word \<Rightarrow> 's \<Rightarrow> 's) \<Rightarrow> 's property_case" where
  "four_bytes b p property_len f off s =
     (if \<not> mqtt5_property_has_bytes off 4 property_len then reject off s
      else do { (v, off) \<leftarrow> read_four b p off; Some (True, off, f v s) })"

text \<open>The loop \<open>while (property_offset < property_len)\<close> around a \<open>switch\<close>.\<close>

partial_function (option) property_loop ::
  "(byte \<Rightarrow> 's property_case) \<Rightarrow> byte list \<Rightarrow> nat \<Rightarrow> nat \<Rightarrow> nat \<Rightarrow> 's \<Rightarrow> (bool \<times> nat \<times> 's) option" where
  [code]: "property_loop sw b p property_len off s =
     (if off < property_len then do {
        (property_id, off) \<leftarrow> read_one b p off;
        (ok, off, s) \<leftarrow> sw property_id off s;
        if ok then property_loop sw b p property_len off s else Some (False, off, s)
      } else Some (True, off, s))"

subsection \<open>User properties\<close>

definition mqtt5_msg_set_user_property ::
  "heap \<Rightarrow> mqtt5_user_property_handle \<Rightarrow> byte list \<Rightarrow> byte list
     \<Rightarrow> esp_err \<times> mqtt5_user_property_handle \<times> heap" where
  "mqtt5_msg_set_user_property h user_property k v =
     (let (ok, h) = (if user_property = None then calloc h else (True, h)) in
      if \<not> ok then (ESP_FAIL, None, h)
      else
        let items = (case user_property of None \<Rightarrow> [] | Some l \<Rightarrow> l);
            (ok, h) = calloc h
        in if \<not> ok then (ESP_FAIL, Some items, h)
           else let (ok, h) = calloc h in
             if \<not> ok then (ESP_FAIL, Some items, h)
             else let (ok, h) = calloc h in
               if \<not> ok then (ESP_FAIL, Some items, h)
               else (ESP_OK, Some (items @ [\<lparr>key = k, val = v\<rparr>]), h))"

definition slice :: "byte list \<Rightarrow> nat \<Rightarrow> nat \<Rightarrow> byte list option" where
  "slice b i n = fetch (drop i b) n"

text \<open>The case of a user property; on a failed allocation the list is deleted.\<close>

definition user_property_case ::
  "byte list \<Rightarrow> nat \<Rightarrow> nat \<Rightarrow> (mqtt5_user_property_handle \<times> heap) property_case" where
  "user_property_case b p property_len off s = do {
     r \<leftarrow> read_string_len b p property_len off;
     case r of None \<Rightarrow> reject off s
     | Some (key_len, koff) \<Rightarrow> do {
         let off = u16 (koff + key_len);
         r \<leftarrow> read_string_len b p property_len off;
         case r of None \<Rightarrow> reject off s
         | Some (value_len, voff) \<Rightarrow> do {
             k \<leftarrow> slice b (p + koff) key_len;
             v \<leftarrow> slice b (p + voff) value_len;
             let off = u16 (voff + value_len);
             let (user_property, h) = s;
             let (err, user_property, h) = mqtt5_msg_set_user_property h user_property k v;
             if err = ESP_OK then Some (True, off, user_property, h) else Some (False, off, None, h)
           }
       }
   }"

definition user_property_switch ::
  "byte list \<Rightarrow> nat \<Rightarrow> nat \<Rightarrow> byte \<Rightarrow> (mqtt5_user_property_handle \<times> heap) property_case" where
  "user_property_switch b p property_len property_id =
     (if property_id = MQTT5_PROPERTY_REASON_STRING then skip_string b p property_len
      else if property_id = MQTT5_PROPERTY_USER_PROPERTY then user_property_case b p property_len
      else reject)"

text \<open>The block at \<open>p\<close>; a rejected block gives \<open>NULL\<close>, and what was collected is deleted.\<close>

definition mqtt5_msg_get_user_property ::
  "heap \<Rightarrow> byte list \<Rightarrow> nat \<Rightarrow> nat \<Rightarrow> (mqtt5_user_property_handle \<times> heap) option" where
  "mqtt5_msg_get_user_property h b p buffer_len = do {
     (ok, off, user_property, h) \<leftarrow>
       property_loop (user_property_switch b p buffer_len) b p buffer_len 0 (None, h);
     Some (if ok then user_property else None, h)
   }"

subsection \<open>Identifier and reason code\<close>

definition mqtt5_get_id :: "byte list \<Rightarrow> nat \<Rightarrow> nat option" where
  "mqtt5_get_id b len = do {
     (_, len_bytes) \<leftarrow> get_variable_len b 1 len;
     let offset = 1 + len_bytes;
     if offset + 2 > len then Some 0
     else do {
       ty \<leftarrow> mqtt_get_type b;
       if ty = MQTT_MSG_TYPE_PUBLISH then do {
         h \<leftarrow> load b offset; l \<leftarrow> load b (offset + 1);
         let offset = offset + 2 + be16_val h l;
         if offset + 2 > len then Some 0
         else do {
           qos \<leftarrow> mqtt_get_qos b;
           if qos = 0 then Some 0
           else do { h \<leftarrow> load b offset; l \<leftarrow> load b (offset + 1); Some (be16_val h l) }
         }
       }
       else if ty \<in> {MQTT_MSG_TYPE_PUBACK, MQTT_MSG_TYPE_PUBREC, MQTT_MSG_TYPE_PUBREL,
                     MQTT_MSG_TYPE_PUBCOMP, MQTT_MSG_TYPE_SUBACK, MQTT_MSG_TYPE_UNSUBACK,
                     MQTT_MSG_TYPE_SUBSCRIBE, MQTT_MSG_TYPE_UNSUBSCRIBE}
       then do { h \<leftarrow> load b offset; l \<leftarrow> load b (offset + 1); Some (be16_val h l) }
       else Some 0
     }
   }"

definition mqtt5_msg_get_reason_code :: "byte list \<Rightarrow> nat \<Rightarrow> int option" where
  "mqtt5_msg_get_reason_code b len = do {
     (variable_len, len_bytes) \<leftarrow> get_variable_len b 1 len;
     let offset = 1 + len_bytes;
     ty \<leftarrow> mqtt_get_type b;
     if ty \<in> {MQTT_MSG_TYPE_PUBACK, MQTT_MSG_TYPE_PUBREC, MQTT_MSG_TYPE_PUBREL, MQTT_MSG_TYPE_PUBCOMP} then
       if variable_len = 2 then Some 0
       else if offset + 2 \<ge> len then Some (-1)
       else do { v \<leftarrow> load b (offset + 2); Some (uint v) }
     else if ty \<in> {MQTT_MSG_TYPE_SUBACK, MQTT_MSG_TYPE_UNSUBACK} then
       if offset + 2 \<ge> len then Some (-1)
       else do {
         (property_len, len_bytes) \<leftarrow> get_variable_len b (offset + 2) len;
         let offset = offset + 2 + len_bytes + property_len;
         if offset \<ge> len then Some (-1) else do { v \<leftarrow> load b offset; Some (uint v) }
       }
     else if ty = MQTT_MSG_TYPE_DISCONNECT then
       if offset \<ge> len then Some (-1) else do { v \<leftarrow> load b offset; Some (uint v) }
     else Some (-1)
   }"

subsection \<open>SUBACK and PUBACK\<close>

text \<open>
  The returned pointer as an offset, the new length, and the user properties. The other
  pointer that reaches them, \<open>*user_property\<close>, is only assigned on some paths of
  \<open>mqtt5_get_puback_data\<close>: it is an argument there.
\<close>

definition mqtt5_get_suback_data ::
  "heap \<Rightarrow> byte list \<Rightarrow> nat \<Rightarrow> (nat option \<times> nat \<times> mqtt5_user_property_handle \<times> heap) option" where
  "mqtt5_get_suback_data h b len = do {
     (totlen, len_bytes) \<leftarrow> get_variable_len b 1 len;
     let offset = 1 + len_bytes;
     let totlen = totlen + offset;
     if totlen > len then Some (None, 0, None, h)
     else do {
       let offset = offset + 2;
       if offset < totlen then do {
         (property_len, len_bytes) \<leftarrow> get_variable_len b offset totlen;
         let offset = offset + len_bytes;
         if property_len > totlen - offset then Some (None, 0, None, h)
         else do {
           (user_property, h) \<leftarrow> mqtt5_msg_get_user_property h b offset property_len;
           let offset = offset + property_len;
           if offset < totlen then Some (Some offset, totlen - offset, user_property, h)
           else Some (None, 0, None, h)
         }
       } else Some (None, 0, None, h)
     }
   }"

definition mqtt5_get_puback_data ::
  "heap \<Rightarrow> byte list \<Rightarrow> nat \<Rightarrow> mqtt5_user_property_handle
     \<Rightarrow> (nat option \<times> nat \<times> mqtt5_user_property_handle \<times> heap) option" where
  "mqtt5_get_puback_data h b len user_property = do {
     (totlen, len_bytes) \<leftarrow> get_variable_len b 1 len;
     let offset = 1 + len_bytes;
     let totlen = totlen + offset;
     let offset = offset + 2;
     if offset < totlen then
       if offset + 1 < totlen then do {
         (property_len, len_bytes) \<leftarrow> get_variable_len b (offset + 1) totlen;
         let poff = offset + 1 + len_bytes;
         if property_len > totlen - poff then Some (None, 0, user_property, h)
         else do {
           (user_property, h) \<leftarrow> mqtt5_msg_get_user_property h b poff property_len;
           Some (Some offset, 1, user_property, h)
         }
       } else Some (Some offset, 1, user_property, h)
     else Some (None, 0, user_property, h)
   }"

subsection \<open>PUBLISH\<close>

text \<open>The output parameters of \<open>mqtt5_get_publish_property_payload\<close>.\<close>

record publish_out =
  msg_topic :: nat
  msg_topic_len :: nat
  resp_property :: esp_mqtt5_publish_resp_property
  property_len_out :: nat
  payload_len_out :: "32 word"
  user_property_out :: mqtt5_user_property_handle

definition on_resp ::
  "(esp_mqtt5_publish_resp_property \<Rightarrow> esp_mqtt5_publish_resp_property)
     \<Rightarrow> publish_out \<times> heap \<Rightarrow> publish_out \<times> heap" where
  "on_resp f = (\<lambda>(out, h). (out\<lparr>resp_property := f (resp_property out)\<rparr>, h))"

text \<open>
  Correlation data and content type are taken without a check of their length against the block.
\<close>

definition unchecked_slice ::
  "byte list \<Rightarrow> nat \<Rightarrow> (nat \<Rightarrow> nat \<Rightarrow> 's \<Rightarrow> 's) \<Rightarrow> 's property_case" where
  "unchecked_slice b p f off s = do {
     (len, off) \<leftarrow> read_two b p off;
     Some (True, u16 (off + len), f (p + off) len s)
   }"

definition response_topic_case :: "byte list \<Rightarrow> nat \<Rightarrow> nat \<Rightarrow> (publish_out \<times> heap) property_case" where
  "response_topic_case b p property_len off s =
     (if \<not> mqtt5_property_has_bytes off 2 property_len then reject off s
      else do {
        (len, off) \<leftarrow> read_two b p off;
        let s = on_resp (\<lambda>r. r\<lparr>pr_response_topic_len := len\<rparr>) s;
        if len > MQTT5_MAX_PROPERTY_STRING_LEN \<or> \<not> mqtt5_property_has_bytes off len property_len then reject off s
        else Some (True, u16 (off + len), on_resp (\<lambda>r. r\<lparr>pr_response_topic := Some (p + off)\<rparr>) s)
      })"

definition subscribe_id_case :: "byte list \<Rightarrow> nat \<Rightarrow> nat \<Rightarrow> (publish_out \<times> heap) property_case" where
  "subscribe_id_case b p property_len off s = do {
     (v, len_bytes) \<leftarrow> get_variable_len (drop p b) off property_len;
     let s = on_resp (\<lambda>r. r\<lparr>pr_subscribe_id := of_nat v\<rparr>) s;
     if \<not> mqtt5_property_has_bytes off len_bytes property_len then reject off s
     else Some (True, u16 (off + len_bytes), s)
   }"

definition publish_user_property ::
  "byte list \<Rightarrow> nat \<Rightarrow> nat \<Rightarrow> (publish_out \<times> heap) property_case" where
  "publish_user_property b p property_len off s = do {
     let (out, h) = s;
     (ok, off, u, h) \<leftarrow> user_property_case b p property_len off (user_property_out out, h);
     Some (ok, off, out\<lparr>user_property_out := u\<rparr>, h)
   }"

definition publish_switch ::
  "byte list \<Rightarrow> nat \<Rightarrow> nat \<Rightarrow> byte \<Rightarrow> (publish_out \<times> heap) property_case" where
  "publish_switch b p property_len property_id =
     (if property_id = MQTT5_PROPERTY_PAYLOAD_FORMAT_INDICATOR then
        one_byte b p property_len (\<lambda>v. on_resp (\<lambda>r. r\<lparr>pr_payload_format_indicator := (v \<noteq> 0)\<rparr>))
      else if property_id = MQTT5_PROPERTY_MESSAGE_EXPIRY_INTERVAL then
        four_bytes b p property_len (\<lambda>v. on_resp (\<lambda>r. r\<lparr>pr_message_expiry_interval := v\<rparr>))
      else if property_id = MQTT5_PROPERTY_TOPIC_ALIAS then
        two_bytes b p property_len (\<lambda>v. on_resp (\<lambda>r. r\<lparr>pr_topic_alias := of_nat v\<rparr>))
      else if property_id = MQTT5_PROPERTY_RESPONSE_TOPIC then response_topic_case b p property_len
      else if property_id = MQTT5_PROPERTY_CORRELATION_DATA then
        unchecked_slice b p (\<lambda>i len. on_resp (\<lambda>r. r\<lparr>pr_correlation_data_len := len, pr_correlation_data := Some i\<rparr>))
      else if property_id = MQTT5_PROPERTY_SUBSCRIBE_IDENTIFIER then subscribe_id_case b p property_len
      else if property_id = MQTT5_PROPERTY_CONTENT_TYPE then
        unchecked_slice b p (\<lambda>i len. on_resp (\<lambda>r. r\<lparr>pr_content_type_len := len, pr_content_type := Some i\<rparr>))
      else if property_id = MQTT5_PROPERTY_USER_PROPERTY then publish_user_property b p property_len
      else if property_id = MQTT5_PROPERTY_REASON_STRING then skip_string b p property_len
      else reject)"

definition mqtt5_get_publish_property_payload ::
  "heap \<Rightarrow> byte list \<Rightarrow> nat \<Rightarrow> publish_out \<Rightarrow> (nat option \<times> publish_out \<times> heap) option" where
  "mqtt5_get_publish_property_payload h b buffer_len out = do {
     let out = out\<lparr>user_property_out := None\<rparr>;
     (totlen, len_bytes) \<leftarrow> get_variable_len b 1 buffer_len;
     let offset = 1 + len_bytes;
     let totlen = totlen + offset;
     hi \<leftarrow> load b offset; lo \<leftarrow> load b (offset + 1);
     let topic_len = be16_val hi lo;
     let out = out\<lparr>msg_topic := offset + 2, msg_topic_len := topic_len\<rparr>;
     let offset = offset + 2 + topic_len;
     if offset \<ge> buffer_len then Some (None, out, h)
     else do {
       qos \<leftarrow> mqtt_get_qos b;
       if qos > 0 \<and> offset + 2 \<ge> buffer_len then Some (None, out, h)
       else do {
         let offset = (if qos > 0 then offset + 2 else offset);
         (plen, len_bytes) \<leftarrow> get_variable_len b offset buffer_len;
         let offset = offset + len_bytes;
         let plen = u16 plen;
         let out = out\<lparr>property_len_out := plen\<rparr>;
         (ok, property_offset, out, h) \<leftarrow> property_loop (publish_switch b offset plen) b offset plen 0 (out, h);
         if \<not> ok then Some (None, out, h)
         else do {
           let offset = offset + property_offset;
           let out = out\<lparr>payload_len_out := of_nat (if totlen \<le> buffer_len then totlen else buffer_len) - of_nat offset\<rparr>;
           Some (Some offset, out, h)
         }
       }
     }
   }"

subsection \<open>CONNACK\<close>

text \<open>The structures that \<open>mqtt5_msg_parse_connack_property\<close> fills.\<close>

record connack_out =
  connection_info :: mqtt_connect_info
  connection_property :: esp_mqtt5_connection_property_storage
  server_resp :: esp_mqtt5_connection_server_resp_property
  reason_code :: int
  ack_flag :: byte
  connack_user_property :: mqtt5_user_property_handle

definition on_server ::
  "(esp_mqtt5_connection_server_resp_property \<Rightarrow> esp_mqtt5_connection_server_resp_property)
     \<Rightarrow> connack_out \<times> heap \<Rightarrow> connack_out \<times> heap" where
  "on_server f = (\<lambda>(out, h). (out\<lparr>server_resp := f (server_resp out)\<rparr>, h))"

definition unchecked_two :: "byte list \<Rightarrow> nat \<Rightarrow> (nat \<Rightarrow> 's \<Rightarrow> 's) \<Rightarrow> 's property_case" where
  "unchecked_two b p f off s = do { (v, off) \<leftarrow> read_two b p off; Some (True, off, f v s) }"

definition unchecked_four :: "byte list \<Rightarrow> nat \<Rightarrow> (32 word \<Rightarrow> 's \<Rightarrow> 's) \<Rightarrow> 's property_case" where
  "unchecked_four b p f off s = do { (v, off) \<leftarrow> read_four b p off; Some (True, off, f v s) }"

definition assigned_client_id_case :: "byte list \<Rightarrow> nat \<Rightarrow> nat \<Rightarrow> (connack_out \<times> heap) property_case" where
  "assigned_client_id_case b p property_len off s = do {
     r \<leftarrow> read_string_len b p property_len off;
     case r of None \<Rightarrow> reject off s
     | Some (len, off) \<Rightarrow> do {
         let (out, h) = s;
         let (ok, h) = calloc h;
         if \<not> ok then reject off (out\<lparr>connection_info := (connection_info out)\<lparr>client_id := None\<rparr>\<rparr>, h)
         else do {
           cid \<leftarrow> slice b (p + off) len;
           Some (True, u16 (off + len),
             out\<lparr>connection_info := (connection_info out)\<lparr>client_id := Some (c_str cid)\<rparr>\<rparr>, h)
         }
       }
   }"

text \<open>
  The old response information is freed before the new one is checked: a rejected block
  leaves the pointer to freed memory, and freeing it again has no defined outcome.
\<close>

definition response_info_case :: "byte list \<Rightarrow> nat \<Rightarrow> nat \<Rightarrow> (connack_out \<times> heap) property_case" where
  "response_info_case b p property_len off s = do {
     let (out, h) = s;
     info \<leftarrow> (case sr_response_info (server_resp out) of
                Freed \<Rightarrow> None | Null_Str \<Rightarrow> Some Null_Str | Str _ \<Rightarrow> Some Freed);
     let s = on_server (\<lambda>r. r\<lparr>sr_response_info := info\<rparr>) s;
     r \<leftarrow> read_string_len b p property_len off;
     case r of None \<Rightarrow> reject off s
     | Some (len, off) \<Rightarrow> do {
         let (ok, h) = calloc h;
         let s = (fst s, h);
         if \<not> ok then reject off (on_server (\<lambda>r. r\<lparr>sr_response_info := Null_Str\<rparr>) s)
         else do {
           v \<leftarrow> slice b (p + off) len;
           Some (True, u16 (off + len), on_server (\<lambda>r. r\<lparr>sr_response_info := Str v\<rparr>) s)
         }
       }
   }"

definition connack_user_property_case ::
  "byte list \<Rightarrow> nat \<Rightarrow> nat \<Rightarrow> (connack_out \<times> heap) property_case" where
  "connack_user_property_case b p property_len off s = do {
     let (out, h) = s;
     (ok, off, u, h) \<leftarrow> user_property_case b p property_len off (connack_user_property out, h);
     Some (ok, off, out\<lparr>connack_user_property := u\<rparr>, h)
   }"

definition connack_switch :: "byte list \<Rightarrow> nat \<Rightarrow> nat \<Rightarrow> byte \<Rightarrow> (connack_out \<times> heap) property_case" where
  "connack_switch b p property_len property_id =
     (if property_id = MQTT5_PROPERTY_SESSION_EXPIRY_INTERVAL then
        four_bytes b p property_len
          (\<lambda>v (out, h). (out\<lparr>connection_property := (connection_property out)\<lparr>cp_session_expiry_interval := v\<rparr>\<rparr>, h))
      else if property_id = MQTT5_PROPERTY_RECEIVE_MAXIMUM then
        unchecked_two b p (\<lambda>v. on_server (\<lambda>r. r\<lparr>sr_receive_maximum := of_nat v\<rparr>))
      else if property_id = MQTT5_PROPERTY_MAXIMUM_QOS then
        one_byte b p property_len (\<lambda>v. on_server (\<lambda>r. r\<lparr>sr_max_qos := v\<rparr>))
      else if property_id = MQTT5_PROPERTY_RETAIN_AVAILABLE then
        one_byte b p property_len (\<lambda>v. on_server (\<lambda>r. r\<lparr>sr_retain_available := (v \<noteq> 0)\<rparr>))
      else if property_id = MQTT5_PROPERTY_MAXIMUM_PACKET_SIZE then
        unchecked_four b p (\<lambda>v. on_server (\<lambda>r. r\<lparr>sr_maximum_packet_size := v\<rparr>))
      else if property_id = MQTT5_PROPERTY_ASSIGNED_CLIENT_IDENTIFIER then assigned_client_id_case b p property_len
      else if property_id = MQTT5_PROPERTY_TOPIC_ALIAS_MAXIMIM then
        unchecked_two b p (\<lambda>v. on_server (\<lambda>r. r\<lparr>sr_topic_alias_maximum := of_nat v\<rparr>))
      else if property_id = MQTT5_PROPERTY_REASON_STRING then skip_string b p property_len
      else if property_id = MQTT5_PROPERTY_USER_PROPERTY then connack_user_property_case b p property_len
      else if property_id = MQTT5_PROPERTY_WILDCARD_SUBSCR_AVAILABLE then
        one_byte b p property_len (\<lambda>v. on_server (\<lambda>r. r\<lparr>sr_wildcard_subscribe_available := (v \<noteq> 0)\<rparr>))
      else if property_id = MQTT5_PROPERTY_SUBSCR_IDENTIFIER_AVAILABLE then
        one_byte b p property_len (\<lambda>v. on_server (\<lambda>r. r\<lparr>sr_subscribe_identifiers_available := (v \<noteq> 0)\<rparr>))
      else if property_id = MQTT5_PROPERTY_SHARED_SUBSCR_AVAILABLE then
        one_byte b p property_len (\<lambda>v. on_server (\<lambda>r. r\<lparr>sr_shared_subscribe_available := (v \<noteq> 0)\<rparr>))
      else if property_id = MQTT5_PROPERTY_SERVER_KEEP_ALIVE then
        two_bytes b p property_len
          (\<lambda>v (out, h). (out\<lparr>connection_info := (connection_info out)\<lparr>keepalive := int v\<rparr>\<rparr>, h))
      else if property_id = MQTT5_PROPERTY_RESP_INFO then response_info_case b p property_len
      else if property_id \<in> {MQTT5_PROPERTY_SERVER_REFERENCE, MQTT5_PROPERTY_AUTHENTICATION_METHOD,
                             MQTT5_PROPERTY_AUTHENTICATION_DATA} then skip_string b p property_len
      else reject)"

text \<open>\<open>buffer_len - offset\<close> is a \<^verbatim>\<open>size_t\<close>: below zero it is a huge bound.\<close>

definition mqtt5_msg_parse_connack_property ::
  "heap \<Rightarrow> byte list \<Rightarrow> nat \<Rightarrow> connack_out \<Rightarrow> (esp_err \<times> connack_out \<times> heap) option" where
  "mqtt5_msg_parse_connack_property h b buffer_len out = do {
     let out = out\<lparr>reason_code := 0, connack_user_property := None\<rparr>;
     (totlen, len_bytes) \<leftarrow> get_variable_len b 1 buffer_len;
     let offset = 1 + len_bytes;
     let totlen = totlen + offset;
     if totlen > buffer_len then Some (ESP_FAIL, out, h)
     else do {
       flags \<leftarrow> load b offset; reason \<leftarrow> load b (offset + 1);
       let out = out\<lparr>ack_flag := flags, reason_code := uint reason\<rparr>;
       (property_len, len_bytes) \<leftarrow> get_variable_len b (offset + 2) buffer_len;
       let offset = offset + 2 + len_bytes;
       if property_len > unat (of_nat buffer_len - of_nat offset :: 32 word) then Some (ESP_FAIL, out, h)
       else do {
         (ok, _, out, h) \<leftarrow> property_loop (connack_switch b offset property_len) b offset property_len 0 (out, h);
         Some (if ok then ESP_OK else ESP_FAIL, out, h)
       }
     }
   }"

end
