(* ===== verification/Mqtt5_Message_Build.thy ===== *)
theory Mqtt5_Message_Build
  imports Mqtt5_Message Mqtt_Message_Build
begin

text \<open>
  Lemmas on the composing side of \<^verbatim>\<open>lib/mqtt5_msg.c\<close>: its copies of the helpers of the 3.1.1
  codec are the same functions; what a property step appends (\<open>appends\<close>); and the block of
  properties, which is moved when its length is written, as one step of a composition.
\<close>

section \<open>Shared with the 3.1.1 codec\<close>

lemma generate_variable_len_small: "small n \<Longrightarrow> generate_variable_len n = Some (encode_length n)"
  using length_encode_small [of n] by (simp add: generate_variable_len_def Let_def)

lemma mqtt5_init_message_eq: "mqtt5_init_message = set_message_header_size"
  by (simp add: mqtt5_init_message_def set_message_header_size_def fun_eq_iff)

lemma mqtt5_fail_message_eq: "mqtt5_fail_message = fail_message"
  by (simp add: mqtt5_fail_message_def fail_message_def fun_eq_iff)

lemma mqtt5_fini_message_eq: "mqtt5_fini_message c ty dup qos retain = fini_message c ty dup qos retain"
  by (auto simp: mqtt5_fini_message_def fini_message_def generate_variable_len_def mqtt5_fail_message_eq Let_def)

lemma mqtt5_finish_eq: "mqtt5_finish = finish"
  by (simp add: mqtt5_finish_def finish_def mqtt5_fini_message_eq mqtt5_fail_message_eq fun_eq_iff cong: if_cong)

lemma ucast_high: "(ucast (drop_bit 8 (m :: 16 word) AND 0xff) :: byte) = of_nat (unat m div 256)"
proof (rule bit_eqI)
  fix n assume "possible_bit TYPE(byte) n"
  have *: "unat m div 256 = drop_bit 8 (unat m)" by (simp add: drop_bit_eq_div)
  have m: "(0xff :: 16 word) = mask 8" by (simp add: mask_eq_exp_minus_1)
  show "bit (ucast (drop_bit 8 m AND 0xff) :: byte) n = bit (of_nat (unat m div 256) :: byte) n"
    unfolding * m by (auto simp: bit_simps of_nat_drop_bit)
qed

lemma ucast_low: "(ucast ((m :: 16 word) AND 0xff) :: byte) = of_nat (unat m)"
proof (rule bit_eqI)
  fix n assume "possible_bit TYPE(byte) n"
  have m: "(0xff :: 16 word) = mask 8" by (simp add: mask_eq_exp_minus_1)
  show "bit (ucast (m AND 0xff) :: byte) n = bit (of_nat (unat m) :: byte) n"
    unfolding m by (auto simp: bit_simps)
qed

lemma store_two:
  "(do { b \<leftarrow> store b i [x]; store b (i + 1) [y] }) = store b i [x, y]"
  by (auto simp: store_def min_def drop_Cons' nth_append)

lemma store_id:
  "(do { b \<leftarrow> store b i [ucast (drop_bit 8 (m :: 16 word) AND 0xff)];
         b \<leftarrow> store b (i + 1) [ucast (m AND 0xff)]; f b }) =
   (do { b \<leftarrow> store b i (be16 (unat m)); f b })"
  unfolding ucast_high by (simp only: be16_def store_two [symmetric] ucast_low Option.bind_assoc)

lemma mqtt5_append_message_id_eq: "mqtt5_append_message_id c mid = append_message_id c mid"
  unfolding mqtt5_append_message_id_def append_message_id_def store_id by (rule refl)

section \<open>Variable byte integers\<close>

lemma variable_len_stop:
  assumes "i < blen" "i - offset < 4" "load b i = Some v" "v AND 0x80 = 0"
  shows "variable_len_loop b blen offset i len = Some (Suc i, len + push_bit (7 * (i - offset)) (unat (v AND 0x7f)))"
  using assms by (subst variable_len_loop.simps) simp

lemma variable_len_more:
  assumes "i < blen" "i - offset < 4" "load b i = Some v" "v AND 0x80 \<noteq> 0"
  shows "variable_len_loop b blen offset i len =
    variable_len_loop b blen offset (Suc i) (len + push_bit (7 * (i - offset)) (unat (v AND 0x7f)))"
  using assms by (subst variable_len_loop.simps) simp

lemma variable_len_encode:
  assumes "i = length xs" "offset \<le> i" "i - offset + length (encode_length n) \<le> 4"
    "i + length (encode_length n) \<le> blen"
  shows "variable_len_loop (xs @ encode_length n @ ys) blen offset i len =
    Some (i + length (encode_length n), len + n * 128 ^ (i - offset))"
  using assms
proof (induction n arbitrary: xs i len rule: encode_length.induct)
  case (1 n)
  let ?d = "of_nat (n mod 128) :: byte" and ?b = "xs @ encode_length n @ ys"
  have ds: "encode_length n = (if n div 128 > 0 then (?d OR 0x80) # encode_length (n div 128) else [?d])"
    by (subst encode_length.simps) (simp add: Let_def)
  have p: "push_bit (7 * k) d = d * 128 ^ k" for k d :: nat
    by (simp add: push_bit_eq_mult power_mult)
  show ?case
  proof (cases "n div 128 > 0")
    case True
    have ld: "load ?b i = Some (?d OR 0x80)" using True "1.prems"(1) by (simp add: ds load_def)
    have "variable_len_loop ?b blen offset i len =
        variable_len_loop ?b blen offset (Suc i) (len + (n mod 128) * 128 ^ (i - offset))"
      using "1.prems" True length_encode_length_pos [of "n div 128"]
      by (subst variable_len_more [OF _ _ ld]) (auto simp: ds digit_more digit_more_low unat_digit p)
    moreover have "?b = (xs @ [?d OR 0x80]) @ encode_length (n div 128) @ ys"
      using True by (simp add: ds)
    moreover have "variable_len_loop ((xs @ [?d OR 0x80]) @ encode_length (n div 128) @ ys) blen offset (Suc i)
          (len + (n mod 128) * 128 ^ (i - offset)) =
        Some (Suc i + length (encode_length (n div 128)),
          len + (n mod 128) * 128 ^ (i - offset) + n div 128 * 128 ^ (Suc i - offset))"
      using "1.IH" [OF refl refl True, of "Suc i" "xs @ [?d OR 0x80]"] "1.prems" True by (simp add: ds)
    moreover have "(n mod 128) * 128 ^ (i - offset) + n div 128 * 128 ^ (Suc i - offset) = n * 128 ^ (i - offset)"
    proof -
      have "n * 128 ^ (i - offset) = (n mod 128 + n div 128 * 128) * 128 ^ (i - offset)" by simp
      also have "\<dots> = (n mod 128) * 128 ^ (i - offset) + n div 128 * 128 ^ (Suc i - offset)"
        unfolding distrib_right using "1.prems"(2) by (simp add: Suc_diff_le)
      finally show ?thesis by simp
    qed
    ultimately show ?thesis using True by (simp add: ds)
  next
    case False
    then have n: "n < 128" by simp
    have ld: "load ?b i = Some ?d" using False "1.prems"(1) by (simp add: ds load_def)
    have "variable_len_loop ?b blen offset i len = Some (Suc i, len + n * 128 ^ (i - offset))"
      using "1.prems" False n by (subst variable_len_stop [OF _ _ ld]) (auto simp: ds digit_stop digit_low unat_digit p)
    then show ?thesis using False by (simp add: ds)
  qed
qed

text \<open>The last byte of an encoding has no continuation bit.\<close>

lemma encode_length_last: "last (encode_length n) AND 0x80 = 0"
proof (induction n rule: encode_length.induct)
  case (1 n)
  then show ?case
    using length_encode_length_pos [of "n div 128"]
    by (subst encode_length.simps) (auto simp: Let_def digit_stop)
qed

lemma get_variable_len_encode:
  assumes "offset = length xs" "small n" "offset + length (encode_length n) \<le> blen"
  shows "get_variable_len (xs @ encode_length n @ ys) offset blen = Some (n, length (encode_length n))"
proof -
  let ?e = "encode_length n"
  have e: "length ?e \<le> 4" "?e \<noteq> []" using length_encode_small [OF assms(2)] length_encode_length_pos [of n] by auto
  have l: "variable_len_loop (xs @ ?e @ ys) blen offset offset 0 = Some (offset + length ?e, n)"
    using variable_len_encode [of offset xs offset n blen ys 0] assms e by simp
  have ld: "load (xs @ ?e @ ys) (offset + length ?e - 1) = Some (last ?e)"
    using e assms(1) by (cases ?e rule: rev_cases) (auto simp: load_def nth_append)
  have "get_variable_len (xs @ ?e @ ys) offset blen =
      (if length ?e = 4 \<and> offset + length ?e \<le> blen then do {
         v \<leftarrow> load (xs @ ?e @ ys) (offset + length ?e - 1);
         if v AND 0x80 \<noteq> 0 then Some (0, 0) else Some (n, length ?e)
       } else Some (n, length ?e))"
    by (simp only: get_variable_len_def l bind.bind_lunit prod.case add_diff_cancel_left')
  then show ?thesis unfolding ld by (simp add: encode_length_last)
qed

text \<open>Within the buffer the decoder returns, and reads at most four bytes of it.\<close>

lemma variable_len_loop_total:
  assumes "blen \<le> length b" "offset \<le> i" "i \<le> max blen offset" "i - offset \<le> 4"
  shows "\<exists>j len'. variable_len_loop b blen offset i len = Some (j, len') \<and> i \<le> j \<and> j \<le> max blen offset \<and> j - offset \<le> 4"
  using assms
proof (induction "blen - i" arbitrary: i len)
  case 0
  then show ?case by (subst variable_len_loop.simps) auto
next
  case (Suc n)
  show ?case
  proof (cases "i - offset < 4")
    case True
    have i: "i < blen" "i < length b" using Suc by auto
    have "n = blen - Suc i" "offset \<le> Suc i" "Suc i \<le> max blen offset" "Suc i - offset \<le> 4"
      using Suc.hyps(2) i True Suc.prems by auto
    note IH = Suc.hyps(1) [OF this(1) Suc.prems(1) this(2-)]
    let ?len = "len + push_bit (7 * (i - offset)) (unat (b ! i AND 0x7f))"
    obtain j len' where "variable_len_loop b blen offset (Suc i) ?len = Some (j, len')"
      "Suc i \<le> j" "j \<le> max blen offset" "j - offset \<le> 4"
      using IH [of ?len] by blast
    then show ?thesis
      using i True by (subst variable_len_loop.simps) (auto simp: load_def Let_def)
  next
    case False
    then show ?thesis using Suc.prems by (subst variable_len_loop.simps) auto
  qed
qed

lemma get_variable_len_total:
  assumes "blen \<le> length b"
  obtains len n where "get_variable_len b offset blen = Some (len, n)" "n \<le> 4" "offset + n \<le> max blen offset"
proof -
  obtain j len where j: "variable_len_loop b blen offset offset 0 = Some (j, len)"
    "offset \<le> j" "j \<le> max blen offset" "j - offset \<le> 4"
    using variable_len_loop_total [OF assms, of offset offset 0] by auto
  show ?thesis
  proof (cases "j - offset = 4 \<and> j \<le> blen")
    case True
    then have "load b (j - 1) = Some (b ! (j - 1))" using assms j(2) by (auto simp: load_def)
    then show ?thesis using that j True by (cases "b ! (j - 1) AND 0x80 = 0") (auto simp: get_variable_len_def)
  next
    case False
    then show ?thesis using that j by (auto simp: get_variable_len_def)
  qed
qed

section \<open>The block of properties\<close>

lemma move_up_block:
  assumes "b = pre @ body @ rest" "length body = n" "d \<le> length rest" "0 < d"
  shows "\<exists>b'. move_up n b (length pre + n - 1) d = Some b' \<and> length b' = length b \<and>
     take (length pre) b' = pre \<and> take n (drop (length pre + d) b') = body \<and>
     drop (length pre + n + d) b' = drop d rest"
  using assms
proof (induction n arbitrary: b body rest)
  case 0
  then show ?case by simp
next
  case (Suc n)
  obtain body' v where body: "body = body' @ [v]" "length body' = n"
    using Suc.prems(2) by (metis length_Suc_conv_rev)
  let ?i = "length pre + n"
  have ld: "load b ?i = Some v" using Suc.prems(1) body by (simp add: load_def nth_append)
  define b1 where "b1 = b[?i + d := v]"
  have lb: "?i + d < length b" using Suc.prems body by simp
  have st: "store b (?i + d) [v] = Some b1"
    using lb by (simp add: store_def b1_def upd_conv_take_nth_drop)
  have b1: "b1 = pre @ body' @ (v # rest)[d := v]"
    using Suc.prems(1,4) body by (simp add: b1_def list_update_append)
  have d': "d \<le> length ((v # rest)[d := v])" using Suc.prems(3) by (simp del: list_update.simps)
  obtain b' where b': "move_up n b1 (length pre + n - 1) d = Some b'" "length b' = length b1"
     "take (length pre) b' = pre" "take n (drop (length pre + d) b') = body'"
     "drop (length pre + n + d) b' = drop d ((v # rest)[d := v])"
    using Suc.IH [OF b1 body(2) d' Suc.prems(4)] by blast
  have "drop d ((v # rest)[d := v]) = v # drop d rest"
    using Suc.prems(3,4) by (cases d) (simp_all add: drop_update_cancel Cons_nth_drop_Suc upd_conv_take_nth_drop)
  then have tail: "drop (?i + d) b' = v # drop d rest" using b'(5) by simp
  have "drop (length pre + Suc n + d) b' = drop 1 (drop (?i + d) b')" by simp
  then have t: "drop (length pre + Suc n + d) b' = drop d rest" using tail by simp
  have "take (Suc n) (drop (length pre + d) b') = take n (drop (length pre + d) b') @ take 1 (drop (?i + d) b')"
    by (simp add: take_add [of n 1, simplified] add.commute add.left_commute)
  then have "take (Suc n) (drop (length pre + d) b') = body" using b'(4) tail body by simp
  then show ?case
    using b' t ld st by (auto simp: b1_def)
qed

text \<open>
  What a step inside a block appends. The reserved byte may lie behind the end of the buffer,
  so the message may be one byte longer than the buffer when the step starts.
\<close>

definition frame_ok :: "mqtt_connection \<Rightarrow> bool" where
  "frame_ok c \<longleftrightarrow> length (buffer c) = buffer_length c \<and> 5 \<le> out_length c"

definition appends :: "build_step \<Rightarrow> byte list \<Rightarrow> bool" where
  "appends s p \<longleftrightarrow> (\<forall>c. frame_ok c \<longrightarrow>
     (\<exists>c'. s c = Some (p = [] \<or> out_length c + length p \<le> buffer_length c, c') \<and>
        same_frame c c' \<and> ids c' = ids c \<and>
        (p = [] \<or> out_length c + length p \<le> buffer_length c \<longrightarrow>
           out_length c' = out_length c + length p \<and>
           take (out_length c') (buffer c') = take (out_length c) (buffer c) @ p)))"

lemma appendsD:
  assumes "appends s p" "frame_ok c"
  obtains c' where "s c = Some (p = [] \<or> out_length c + length p \<le> buffer_length c, c')"
    "same_frame c c'" "ids c' = ids c"
    "p = [] \<or> out_length c + length p \<le> buffer_length c \<Longrightarrow> out_length c' = out_length c + length p"
    "p = [] \<or> out_length c + length p \<le> buffer_length c \<Longrightarrow>
       take (out_length c + length p) (buffer c') = take (out_length c) (buffer c) @ p"
  using assms unfolding appends_def by metis

lemma frame_ok_same: "frame_ok c \<Longrightarrow> same_frame c c' \<Longrightarrow> out_length c \<le> out_length c' \<Longrightarrow> frame_ok c'"
  by (auto simp: frame_ok_def same_frame_def)

lemma appends_proceed [intro]: "appends proceed []"
  by (simp add: appends_def proceed_def)

lemma appends_chain [intro]:
  assumes "appends s p" "appends t r"
  shows "appends (chain s t) (p @ r)"
  unfolding appends_def
proof (intro allI impI)
  fix c assume c: "frame_ok c"
  let ?ok = "p @ r = [] \<or> out_length c + length (p @ r) \<le> buffer_length c"
  obtain c1 where c1: "s c = Some (p = [] \<or> out_length c + length p \<le> buffer_length c, c1)"
    "same_frame c c1" "ids c1 = ids c"
    "p = [] \<or> out_length c + length p \<le> buffer_length c \<Longrightarrow> out_length c1 = out_length c + length p"
    "p = [] \<or> out_length c + length p \<le> buffer_length c \<Longrightarrow>
       take (out_length c + length p) (buffer c1) = take (out_length c) (buffer c) @ p"
    using appendsD [OF assms(1) c] by metis
  show "\<exists>c'. chain s t c = Some (?ok, c') \<and> same_frame c c' \<and> ids c' = ids c \<and>
    (?ok \<longrightarrow> out_length c' = out_length c + length (p @ r) \<and>
       take (out_length c') (buffer c') = take (out_length c) (buffer c) @ p @ r)"
  proof (cases "p = [] \<or> out_length c + length p \<le> buffer_length c")
    case False
    then have "chain s t c = Some (?ok, c1)" "\<not> ?ok" using c1(1) by (auto simp: chain_def)
    then show ?thesis using c1(2,3) False by (intro exI [of _ c1]) auto
  next
    case True
    note l1 = c1(4) [OF True] and t1 = c1(5) [OF True]
    have f1: "frame_ok c1" using frame_ok_same [OF c c1(2)] l1 by simp
    obtain c2 where c2: "t c1 = Some (r = [] \<or> out_length c1 + length r \<le> buffer_length c1, c2)"
      "same_frame c1 c2" "ids c2 = ids c1"
      "r = [] \<or> out_length c1 + length r \<le> buffer_length c1 \<Longrightarrow> out_length c2 = out_length c1 + length r"
      "r = [] \<or> out_length c1 + length r \<le> buffer_length c1 \<Longrightarrow>
         take (out_length c1 + length r) (buffer c2) = take (out_length c1) (buffer c1) @ r"
      using appendsD [OF assms(2) f1] by metis
    have ok: "?ok \<longleftrightarrow> (r = [] \<or> out_length c1 + length r \<le> buffer_length c1)"
      using True l1 c1(2) by (auto simp: same_frame_def)
    have "chain s t c = Some (?ok, c2)" unfolding ok using True c1(1) c2(1) by (auto simp: chain_def)
    then show ?thesis
      using c1(2,3) c2(2-) l1 t1 same_frame_trans [OF c1(2) c2(2)] unfolding ok
      by (intro exI [of _ c2]) (auto simp: add.assoc)
  qed
qed

lemma appends_when [intro]: "(b \<Longrightarrow> appends s p) \<Longrightarrow> appends (when_step b s) (if b then p else [])"
  by (auto simp: when_step_def)

lemma appends_eq: "appends s p \<Longrightarrow> p = r \<Longrightarrow> appends s r"
  by simp

text \<open>The bytes of one property.\<close>

definition property_bytes :: "byte \<Rightarrow> nat \<Rightarrow> byte list option \<Rightarrow> nat \<Rightarrow> byte list" where
  "property_bytes ty occ data n =
     (if ty \<noteq> 0 then [ty] else []) @ be_bytes occ n @ (case data of None \<Rightarrow> [] | Some d \<Rightarrow> take n d)"

lemma length_be_bytes [simp]: "length (be_bytes occ n) = occ"
  by (simp add: be_bytes_def)

lemma appends_property [intro]:
  assumes "0 < occ" "\<And>d. data = Some d \<Longrightarrow> n \<le> length d"
  shows "appends (property_step ty occ data n) (property_bytes ty occ data n)"
  unfolding appends_def
proof (intro allI impI)
  fix c assume c: "frame_ok c"
  let ?p = "property_bytes ty occ data n" and ?L = "out_length c"
  let ?n = "?L + occ + (if data = None then 0 else n) + (if ty \<noteq> 0 then 1 else 0)"
  have len: "?n = ?L + length ?p"
    using assms(2) by (auto simp: property_bytes_def split: option.splits)
  have ne: "?p \<noteq> []" using assms(1) by (auto simp: property_bytes_def simp flip: length_0_conv)
  show "\<exists>c'. property_step ty occ data n c = Some (?p = [] \<or> ?L + length ?p \<le> buffer_length c, c') \<and>
     same_frame c c' \<and> ids c' = ids c \<and> (?p = [] \<or> ?L + length ?p \<le> buffer_length c \<longrightarrow>
       out_length c' = ?L + length ?p \<and> take (out_length c') (buffer c') = take ?L (buffer c) @ ?p)"
  proof (cases "?L + length ?p \<le> buffer_length c")
    case False
    then show ?thesis using ne len by (auto simp: property_step_def append_property_def)
  next
    case True
    obtain b where b: "store (buffer c) ?L ?p = Some b" using True c by (simp add: store_def frame_ok_def)
    have f: "(case data of None \<Rightarrow> Some [] | Some d \<Rightarrow> fetch d n) = Some (case data of None \<Rightarrow> [] | Some d \<Rightarrow> take n d)"
      using assms(2) by (simp add: fetch_def split: option.splits)
    have "\<not> ?n > buffer_length c" using True len by simp
    then have "append_property c ty occ data n = Some (int (length ?p), set_out_length (c\<lparr>buffer := b\<rparr>) (?L + length ?p))"
      using b assms(1) f
      by (simp only: append_property_def if_False) (cases "ty = 0"; simp add: property_bytes_def Let_def)
    then show ?thesis
      using True store_length [OF b] store_take_end [OF b] by (auto simp: property_step_def same_frame_def)
  qed
qed

lemma appends_extends:
  assumes "appends s p"
  shows "extends s k (\<lambda>q. q @ p) (length p)"
  unfolding extends_def
proof (intro allI impI)
  fix c assume c: "conn_ok c"
  then have fr: "frame_ok c" "out_length c \<le> buffer_length c" by (auto simp: conn_ok_def frame_ok_def)
  obtain c' where c': "s c = Some (p = [] \<or> out_length c + length p \<le> buffer_length c, c')"
    "same_frame c c'" "ids c' = ids c"
    "p = [] \<or> out_length c + length p \<le> buffer_length c \<Longrightarrow> out_length c' = out_length c + length p"
    "p = [] \<or> out_length c + length p \<le> buffer_length c \<Longrightarrow>
       take (out_length c + length p) (buffer c') = take (out_length c) (buffer c) @ p"
    using appendsD [OF assms fr(1)] by metis
  have ok: "(p = [] \<or> out_length c + length p \<le> buffer_length c) = (out_length c + length p \<le> buffer_length c)"
    using fr(2) by auto
  have "conn_ok c' \<and> payload c' = payload c @ p" if "out_length c + length p \<le> buffer_length c"
    using that c c'(2,4,5) fr by (auto simp: conn_ok_def payload_def same_frame_def drop_append)
  then show "length (payload c @ p) = length (payload c) + length p \<and>
    (\<exists>c'. same_frame c c' \<and> ids c' = ids c \<and> s c = Some (out_length c + length p \<le> buffer_length c, c') \<and>
       (out_length c + length p \<le> buffer_length c \<longrightarrow> conn_ok c' \<and> payload c' = payload c @ p))"
    using c'(1-3) ok by auto
qed

lemma move_up_any:
  assumes "length b = bl" "take (L + 1 + length p) b = pre @ x # p" "length pre = L" "L + 1 + d + length p \<le> bl"
  shows "\<exists>b'. (if d > 0 then move_up (length p) b (L + length p) d else Some b) = Some b' \<and>
     length b' = bl \<and> take L b' = pre \<and> take (length p) (drop (L + 1 + d) b') = p"
proof (cases "d > 0")
  case True
  have b: "b = (pre @ [x]) @ p @ drop (L + 1 + length p) b"
    using assms(2) append_take_drop_id [of "L + 1 + length p" b] by simp
  have "d \<le> length (drop (L + 1 + length p) b)" using assms(1,4) by simp
  from move_up_block [OF b refl this True]
  obtain b' where b': "move_up (length p) b (length (pre @ [x]) + length p - 1) d = Some b'" "length b' = length b"
     "take (length (pre @ [x])) b' = pre @ [x]" "take (length p) (drop (length (pre @ [x]) + d) b') = p"
    by blast
  moreover have "take L b' = take L (take (length (pre @ [x])) b')" using assms(3) by (simp add: min_def)
  then have "take L b' = pre" unfolding b'(3) using assms(3) by simp
  ultimately show ?thesis using True assms(1,3) by (auto simp: add.assoc)
next
  case False
  have "take L (take (L + 1 + length p) b) = pre" "drop (L + 1) (take (L + 1 + length p) b) = p"
    unfolding assms(2) using assms(3) by auto
  then show ?thesis using False assms(1) by (simp add: take_drop min_def add.commute)
qed

text \<open>The block as one step: the encoded length of the properties, then the properties.\<close>

definition block_bytes :: "byte list \<Rightarrow> byte list" where
  "block_bytes p = encode_length (length p) @ p"

lemma update_property_len:
  fixes p x pre
  defines "e \<equiv> encode_length (length p)"
  assumes c: "frame_ok c" and p: "small (length p)" and l: "out_length c = L + 1 + length p"
    and t: "take (L + 1 + length p) (buffer c) = pre @ x # p" "length pre = L" "5 \<le> L"
  shows "\<exists>c' r. update_property_len_value c (length p) L = Some (r, c') \<and> same_frame c c' \<and> ids c' = ids c \<and>
     (r \<noteq> -1 \<longleftrightarrow> L + length e + length p \<le> buffer_length c) \<and>
     (r \<noteq> -1 \<longrightarrow> conn_ok c' \<and> payload c' = drop 5 pre @ e @ p)"
proof -
  have e: "0 < length e" "generate_variable_len (length p) = Some e"
    using p length_encode_length_pos by (auto simp: e_def generate_variable_len_small)
  define d where "d = length e - 1"
  have d: "length e = d + 1" using e(1) by (simp add: d_def)
  let ?c = "set_out_length c (L + 1 + length p + d)"
  have run: "update_property_len_value c (length p) L =
     (if L + 1 + length p + d > buffer_length c then Some (-1, ?c)
      else do { b \<leftarrow> (if d > 0 then move_up (length p) (buffer c) (L + length p) d else Some (buffer c));
                b \<leftarrow> store b L e; Some (int d, ?c\<lparr>buffer := b\<rparr>) })"
    using e(2) l by (simp add: update_property_len_value_def d Let_def)
  show ?thesis
  proof (cases "L + 1 + d + length p \<le> buffer_length c")
    case False
    then show ?thesis using run d by (auto simp: same_frame_def)
  next
    case True
    have bl: "length (buffer c) = buffer_length c" using c by (simp add: frame_ok_def)
    obtain b1 where b1: "(if d > 0 then move_up (length p) (buffer c) (L + length p) d else Some (buffer c)) = Some b1"
      "length b1 = buffer_length c" "take L b1 = pre" "take (length p) (drop (L + 1 + d) b1) = p"
      using move_up_any [OF bl t(1,2) True] by blast
    have "L + length e \<le> length b1" using True d b1(2) by simp
    then have st: "store b1 L e = Some (pre @ e @ drop (L + length e) b1)" by (simp add: store_def b1(3))
    let ?b = "pre @ e @ drop (L + length e) b1"
    have "take (L + 1 + length p + d) ?b = pre @ e @ p"
      using t(2) d b1(4) by (simp add: take_append add.commute add.left_commute)
    moreover have "length ?b = buffer_length c" using store_length [OF st] b1(2) by simp
    ultimately have "conn_ok (?c\<lparr>buffer := ?b\<rparr>)" "payload (?c\<lparr>buffer := ?b\<rparr>) = drop 5 pre @ e @ p"
      "same_frame c (?c\<lparr>buffer := ?b\<rparr>)"
      using True t(2,3) bl by (auto simp: conn_ok_def payload_def same_frame_def)
    moreover have "update_property_len_value c (length p) L = Some (int d, ?c\<lparr>buffer := ?b\<rparr>)"
      unfolding run using True b1(1) st by simp
    ultimately show ?thesis using True d by auto
  qed
qed

lemma property_block_extends:
  assumes "appends s p" "small (length p)"
  shows "extends (property_block s) k (\<lambda>q. q @ block_bytes p) (length (block_bytes p))"
  unfolding extends_def
proof (intro allI impI)
  fix c assume c: "conn_ok c"
  let ?L = "out_length c" and ?e = "encode_length (length p)" and ?n = "length (block_bytes p)"
  let ?c = "set_out_length c (?L + 1)"
  have n: "?n = length ?e + length p" "0 < length ?e" using length_encode_length_pos by (auto simp: block_bytes_def)
  have fr: "frame_ok ?c" "5 \<le> ?L" "?L \<le> buffer_length c" using c by (auto simp: conn_ok_def frame_ok_def)
  have sf: "same_frame c ?c" by (simp add: same_frame_def)
  obtain c1 where c1: "s ?c = Some (p = [] \<or> ?L + 1 + length p \<le> buffer_length c, c1)"
    "same_frame ?c c1" "ids c1 = ids ?c"
    "p = [] \<or> ?L + 1 + length p \<le> buffer_length c \<Longrightarrow> out_length c1 = ?L + 1 + length p"
    "p = [] \<or> ?L + 1 + length p \<le> buffer_length c \<Longrightarrow>
       take (?L + 1 + length p) (buffer c1) = take (?L + 1) (buffer c) @ p"
    using appendsD [OF assms(1) fr(1)] by auto
  have frame: "same_frame c c1" using sf c1(2) by (rule same_frame_trans)
  let ?fits = "?L + ?n \<le> buffer_length c"
  have "\<exists>c'. same_frame c c' \<and> ids c' = ids c \<and> property_block s c = Some (?fits, c') \<and>
      (?fits \<longrightarrow> conn_ok c' \<and> payload c' = payload c @ block_bytes p)"
  proof (cases "?L + 1 + length p \<le> buffer_length c")
    case True
    note l1 = c1(4) [OF disjI2 [OF True]] and t1 = c1(5) [OF disjI2 [OF True]]
    have L: "?L < length (buffer c)" using True c by (simp add: conn_ok_def)
    have t: "take (?L + 1 + length p) (buffer c1) = take ?L (buffer c) @ buffer c ! ?L # p"
      using t1 L by (simp add: take_Suc_conv_app_nth)
    have f1: "frame_ok c1" using frame_ok_same [OF fr(1) c1(2)] l1 by simp
    obtain c' r where c': "update_property_len_value c1 (length p) ?L = Some (r, c')" "same_frame c1 c'" "ids c' = ids c1"
      "r \<noteq> -1 \<longleftrightarrow> ?L + length ?e + length p \<le> buffer_length c1"
      "r \<noteq> -1 \<longrightarrow> conn_ok c' \<and> payload c' = drop 5 (take ?L (buffer c)) @ ?e @ p"
      using update_property_len [OF f1 assms(2) l1 t _ fr(2)] L by auto
    have bl: "buffer_length c1 = buffer_length c" using frame by (simp add: same_frame_def)
    have "property_block s c = Some (?fits, c')"
      using c1(1) True c'(1,4) l1 bl n(1) by (auto simp: property_block_def chain_def Let_def)
    then show ?thesis
      using c'(2-5) c1(3) same_frame_trans [OF frame c'(2)] bl n(1)
      by (intro exI [of _ c']) (auto simp: payload_def block_bytes_def)
  next
    case False
    then have nf: "\<not> ?fits" using n by linarith
    show ?thesis
    proof (cases "p = []")
      case True
      have "encode_length 0 = [0]" by (simp add: encode_length.simps)
      then have "property_block s c = Some (False, set_out_length c1 (?L + 1))"
        using c1(1,4) True False frame
        by (auto simp: property_block_def chain_def Let_def update_property_len_value_def generate_variable_len_def same_frame_def)
      then show ?thesis using nf frame c1(3) by (intro exI [of _ "set_out_length c1 (?L + 1)"]) (auto simp: same_frame_def)
    next
      case False
      then have "property_block s c = Some (False, c1)"
        using c1(1) \<open>\<not> ?L + 1 + length p \<le> buffer_length c\<close> by (simp add: property_block_def chain_def Let_def)
      then show ?thesis using nf frame c1(3) by (intro exI [of _ c1]) auto
    qed
  qed
  then show "length (payload c @ block_bytes p) = length (payload c) + ?n \<and>
    (\<exists>c'. same_frame c c' \<and> ids c' = ids c \<and> property_block s c = Some (?fits, c') \<and>
       (?fits \<longrightarrow> conn_ok c' \<and> payload c' = payload c @ block_bytes p))" by simp
qed

section \<open>What the property steps append\<close>

lemma upt_one_two: "[1..<2 + 1] = [1, 2 :: nat]"
  by (simp add: upt_rec)

lemma be_bytes_two: "be_bytes 2 n = be16 n"
  unfolding be_bytes_def be16_def upt_one_two list.map by (simp only: drop_bit_eq_div) simp

lemma be_bytes_one: "be_bytes 1 n = [of_nat n]"
  by (simp add: be_bytes_def)

definition word_property :: "byte \<Rightarrow> nat \<Rightarrow> nat \<Rightarrow> byte list" where
  "word_property ty occ n = (if n \<noteq> 0 then property_bytes ty occ None n else [])"

definition string_bytes :: "byte \<Rightarrow> cstring option \<Rightarrow> byte list" where
  "string_bytes ty s = (case s of None \<Rightarrow> [] | Some t \<Rightarrow> ty # utf8_field t)"

definition item_bytes :: "mqtt5_user_property \<Rightarrow> byte list" where
  "item_bytes i = 0x26 # utf8_field (c_str (key i)) @ utf8_field (c_str (val i))"

definition user_bytes :: "mqtt5_user_property_handle \<Rightarrow> byte list" where
  "user_bytes h = (case h of None \<Rightarrow> [] | Some items \<Rightarrow> concat (map item_bytes items))"

definition data_bytes :: "byte \<Rightarrow> byte list option \<Rightarrow> nat \<Rightarrow> byte list" where
  "data_bytes ty data n = (if data \<noteq> None \<and> n \<noteq> 0 then ty # utf8_field (take n (chars data)) else [])"

lemma c_str_take: "take (length (c_str s)) s = c_str s" "length (c_str s) \<le> length s"
  unfolding c_str_def by (rule takeWhile_eq_take [symmetric], rule length_takeWhile_le)

lemma appends_field: "appends (property_step 0 2 (Some s) (length s)) (utf8_field s)"
  by (rule appends_eq [OF appends_property]) (auto simp: property_bytes_def be_bytes_two utf8_field_def)

lemma appends_empty_field: "appends (property_step 0 2 None 0) (utf8_field [])"
  by (rule appends_eq [OF appends_property]) (auto simp: property_bytes_def be_bytes_two utf8_field_def)

lemma appends_word [intro]:
  assumes "b \<longleftrightarrow> n \<noteq> 0" "0 < occ"
  shows "appends (when_step b (property_step ty occ None n)) (word_property ty occ n)"
  using assms appends_property [of occ None n ty] by (auto simp: when_step_def word_property_def)

lemma appends_flag [intro]:
  "appends (when_step b (property_step ty 1 None 1)) (word_property ty 1 (if b then 1 else 0))"
  using appends_property [of 1 None 1 ty] by (auto simp: when_step_def word_property_def)

lemma appends_string [intro]: "ty \<noteq> 0 \<Longrightarrow> appends (string_property ty s) (string_bytes ty s)"
  using appends_property [of 2 "Some (chars s)" "length (chars s)" ty]
  by (auto simp: string_property_def string_bytes_def when_step_def property_bytes_def be_bytes_two
      utf8_field_def chars_def split: option.splits)

lemma appends_data [intro]:
  assumes "ty \<noteq> 0" "n \<le> length (chars data)"
  shows "appends (when_step (data \<noteq> None \<and> n \<noteq> 0) (property_step ty 2 data n)) (data_bytes ty data n)"
proof (cases data)
  case (Some d)
  then have "n \<le> length d" using assms by (simp add: chars_def)
  then show ?thesis
    using assms Some appends_property [of 2 data n ty]
    by (auto simp: when_step_def data_bytes_def property_bytes_def be_bytes_two utf8_field_def chars_def)
qed (auto simp: when_step_def data_bytes_def)

lemma appends_items: "appends (user_property_items items) (concat (map item_bytes items))"
proof (induction items)
  case Nil
  then show ?case by (simp add: appends_proceed)
next
  case (Cons i items)
  have "appends (property_step 0x26 2 (Some (key i)) (length (c_str (key i)))) (0x26 # utf8_field (c_str (key i)))"
    "appends (property_step 0 2 (Some (val i)) (length (c_str (val i)))) (utf8_field (c_str (val i)))"
    by (rule appends_eq [OF appends_property]; simp add: c_str_take property_bytes_def be_bytes_two utf8_field_def)+
  from appends_chain [OF this(1) appends_chain [OF this(2) Cons]] show ?case
    by (simp add: item_bytes_def)
qed

lemma appends_user [intro]: "appends (user_property_step h) (user_bytes h)"
  using appends_items by (auto simp: user_property_step_def user_bytes_def split: option.splits)

section \<open>CONNECT\<close>

definition connect_property_bytes :: "esp_mqtt5_connection_property_storage \<Rightarrow> byte list" where
  "connect_property_bytes p =
     word_property 0x11 4 (unat (cp_session_expiry_interval p)) @
     word_property 0x27 4 (unat (cp_maximum_packet_size p)) @
     word_property 0x21 2 (unat (cp_receive_maximum p)) @
     word_property 0x22 2 (unat (cp_topic_alias_maximum p)) @
     word_property 0x19 1 (if cp_request_resp_info p then 1 else 0) @
     word_property 0x17 1 (if cp_request_problem_info p then 1 else 0) @
     user_bytes (cp_user_property p)"

lemma connect_properties_appends: "appends (connect_properties p) (connect_property_bytes p)"
  unfolding connect_properties_def connect_property_bytes_def
  by (intro appends_chain appends_word appends_flag appends_user) (simp_all add: unat_eq_0)

definition will_property_bytes :: "esp_mqtt5_connection_will_property_storage \<Rightarrow> byte list" where
  "will_property_bytes w =
     word_property 0x18 4 (unat (wp_will_delay_interval w)) @
     word_property 0x01 1 (if wp_payload_format_indicator w then 1 else 0) @
     word_property 0x02 4 (unat (wp_message_expiry_interval w)) @
     string_bytes 0x03 (wp_content_type w) @
     string_bytes 0x08 (wp_response_topic w) @
     data_bytes 0x09 (wp_correlation_data w) (unat (wp_correlation_data_len w)) @
     user_bytes (wp_user_property w)"

definition will_properties_ok :: "esp_mqtt5_connection_will_property_storage \<Rightarrow> bool" where
  "will_properties_ok w \<longleftrightarrow> unat (wp_correlation_data_len w) \<le> length (chars (wp_correlation_data w))"

lemma unat_zero_iff: "w \<noteq> 0 \<longleftrightarrow> unat w \<noteq> 0"
  by (simp add: unat_eq_0)

lemma will_properties_appends:
  "will_properties_ok w \<Longrightarrow> appends (will_properties w) (will_property_bytes w)"
  unfolding will_properties_def will_property_bytes_def will_properties_ok_def unat_zero_iff [of "wp_correlation_data_len w"]
  by (intro appends_chain appends_word appends_flag appends_user appends_string appends_data)
     (simp_all add: unat_eq_0)

definition mqtt5_connect_body ::
  "mqtt_connect_info \<Rightarrow> esp_mqtt5_connection_property_storage \<Rightarrow> esp_mqtt5_connection_will_property_storage
     \<Rightarrow> byte list" where
  "mqtt5_connect_body info p w =
     utf8_field [0x4d, 0x51, 0x54, 0x54] @ [5, connect_flags info] @ be16 (nat (keepalive info mod 65536)) @
     block_bytes (connect_property_bytes p) @
     utf8_field (chars (client_id info)) @
     (if nonempty (will_topic info)
      then block_bytes (will_property_bytes w) @ utf8_field (chars (will_topic info)) @
        utf8_field (take (will_length info) (chars (will_message info)))
      else []) @
     (if nonempty (username info) then utf8_field (chars (username info))
      else if nonempty (password info) then utf8_field [] else []) @
     (if nonempty (password info) then utf8_field (chars (password info)) else [])"

lemma connect_header5_bytes:
  "(mqtt5_connect_header info)[7 := connect_flags info] =
     utf8_field [0x4d, 0x51, 0x54, 0x54] @ [5, connect_flags info] @ be16 (nat (keepalive info mod 65536))"
  unfolding keepalive_bytes(1) by (simp add: mqtt5_connect_header_def utf8_field_def be16_def)

lemma flag_step_appends: "j < k \<Longrightarrow> appends s p \<Longrightarrow> flag_step s k j 0 p"
  unfolding flag_step_def using extends_eqI [OF appends_extends, of s p k "flag_append j 0 p"] by auto

lemma flag_step_block:
  assumes "j < k" "appends s p" "small (length p)"
  shows "flag_step (property_block s) k j 0 (block_bytes p)"
  unfolding flag_step_def
  using extends_eqI [OF property_block_extends [OF assms(2,3)], of k "flag_append j 0 (block_bytes p)"] assms(1) by auto

lemma flag_step_when: "j < k \<Longrightarrow> (b \<Longrightarrow> flag_step s k j f p) \<Longrightarrow>
   flag_step (when_step b s) k j (if b then f else 0) (if b then p else [])"
  by (auto simp: when_step_def)

lemma flag_step_field5:
  assumes "j < k" "n \<le> length (chars data)"
  shows "flag_step (field_step data n) k j 0 (utf8_field (take n (chars data)))"
proof (rule flag_step_appends [OF assms(1)], cases data)
  case (Some d)
  then show "appends (field_step data n) (utf8_field (take n (chars data)))"
    unfolding field_step_def using assms
    by (intro appends_eq [OF appends_property])
       (auto simp: property_bytes_def be_bytes_two utf8_field_def chars_def)
qed (use assms appends_empty_field in \<open>auto simp: field_step_def chars_def\<close>)

lemma flag_step_field_all: "j < k \<Longrightarrow> flag_step (field_step data (length (chars data))) k j 0 (utf8_field (chars data))"
  using flag_step_field5 [of j k "length (chars data)" data] by simp

lemma flag_step_empty_field: "j < k \<Longrightarrow> flag_step (field_step None 0) k j 0 (utf8_field [])"
  using flag_step_appends appends_empty_field by (simp add: field_step_def)

lemma mqtt5_connect_client_id_step:
  "j < k \<Longrightarrow> flag_step (mqtt5_connect_client_id info) k j 0 (utf8_field (chars (client_id info)))"
  using flag_step_field_all flag_step_empty_field
  by (auto simp: mqtt5_connect_client_id_def chars_empty)

lemma mqtt5_connect_will_step:
  assumes "j < k" "will_ok info"
    and w: "nonempty (will_topic info) \<Longrightarrow> will_properties_ok w" "nonempty (will_topic info) \<Longrightarrow> small (length (will_property_bytes w))"
  shows "flag_step (mqtt5_connect_will info w (5 + j)) k j
     (if nonempty (will_topic info)
      then 0x04 OR (if will_retain info then 0x20 else 0) OR word_of_int (push_bit 3 (will_qos info AND 3)) else 0)
     (if nonempty (will_topic info)
      then block_bytes (will_property_bytes w) @ utf8_field (chars (will_topic info)) @
        utf8_field (take (will_length info) (chars (will_message info)))
      else [])"
  unfolding mqtt5_connect_will_def
proof (rule flag_step_when [OF assms(1)])
  assume will: "nonempty (will_topic info)"
  note steps = flag_step_chain [OF flag_step_block [OF assms(1) will_properties_appends [OF w(1) [OF will]] w(2) [OF will]]
     flag_step_chain [OF flag_step_field_all [OF assms(1), of "will_topic info"]
     flag_step_chain [OF flag_step_field5 [OF assms(1) assms(2) [unfolded will_ok_def]]
     flag_step_chain [OF flag_step_or [OF assms(1), of "0x04"]
     flag_step_chain [OF flag_step_when [where b = "will_retain info", OF assms(1) flag_step_or [OF assms(1), of "0x20"]]
       flag_step_or [OF assms(1), of "word_of_int (push_bit 3 (will_qos info AND 3))"]]]]]]
  show "flag_step (chain (property_block (will_properties w)) (chain (field_step (will_topic info) (length (chars (will_topic info))))
      (chain (field_step (will_message info) (will_length info)) (chain (or_byte (5 + j) 4)
      (chain (when_step (will_retain info) (or_byte (5 + j) 0x20))
        (or_byte (5 + j) (word_of_int (push_bit 3 (will_qos info AND 3))))))))) k j
      (0x04 OR (if will_retain info then 0x20 else 0) OR word_of_int (push_bit 3 (will_qos info AND 3)))
      (block_bytes (will_property_bytes w) @ utf8_field (chars (will_topic info)) @
        utf8_field (take (will_length info) (chars (will_message info))))"
    by (rule flag_step_eq [OF steps]) auto
qed

lemma mqtt5_connect_username_step:
  assumes "j < k"
  shows "flag_step (mqtt5_connect_username info (5 + j)) k j (if nonempty (username info) then 0x80 else 0)
     (if nonempty (username info) then utf8_field (chars (username info)) else [])"
  unfolding mqtt5_connect_username_def
  by (rule flag_step_when [OF assms])
     (rule flag_step_eq [OF flag_step_chain [OF flag_step_field_all [OF assms] flag_step_or [OF assms]]], auto)

lemma mqtt5_connect_password_step:
  assumes "j < k"
  shows "flag_step (mqtt5_connect_password info (5 + j)) k j
     (if nonempty (password info) then (if nonempty (username info) then 0 else 0x80) OR 0x40 else 0)
     (if nonempty (password info)
      then (if nonempty (username info) then [] else utf8_field []) @ utf8_field (chars (password info)) else [])"
  unfolding mqtt5_connect_password_def
proof (rule flag_step_when [OF assms])
  note steps = flag_step_chain [OF
      flag_step_when [where b = "\<not> nonempty (username info)", OF assms
        flag_step_chain [OF flag_step_empty_field [OF assms] flag_step_or [OF assms, of "0x80"]]]
      flag_step_chain [OF flag_step_field_all [OF assms, of "password info"] flag_step_or [OF assms, of "0x40"]]]
  show "flag_step (chain (when_step (\<not> nonempty (username info)) (chain (field_step None 0) (or_byte (5 + j) 0x80)))
      (chain (field_step (password info) (length (chars (password info)))) (or_byte (5 + j) 0x40))) k j
      ((if nonempty (username info) then 0 else 0x80) OR 0x40)
      ((if nonempty (username info) then [] else utf8_field []) @ utf8_field (chars (password info)))"
    by (rule flag_step_eq [OF steps]) auto
qed

lemma put_step_raw: "out_length c + length bs \<le> buffer_length c \<Longrightarrow> put_step bs c = raw_step bs c"
  by (simp add: put_step_def raw_step_def)

lemma chain_put_raw:
  "out_length c + length bs \<le> buffer_length c \<Longrightarrow> chain (put_step bs) t c = chain (raw_step bs) t c"
  by (simp add: chain_def put_step_raw)

lemma finish_put_raw: "out_length c + length bs \<le> buffer_length c \<Longrightarrow>
   finish (chain (put_step bs) t) ty dup qos retain c = finish (chain (raw_step bs) t) ty dup qos retain c"
  by (simp add: finish_def chain_put_raw)

lemma length_connect_header5: "length (mqtt5_connect_header info) = 10" "mqtt5_connect_header info ! 7 = 0"
  by (simp_all add: mqtt5_connect_header_def)

lemma mqtt5_connect_steps:
  assumes "j < k" "will_ok info" "small (length (connect_property_bytes p))"
    and "nonempty (will_topic info) \<Longrightarrow> will_properties_ok w" "nonempty (will_topic info) \<Longrightarrow> small (length (will_property_bytes w))"
  shows "flag_step (chain (when_step (clean_session info) (or_byte (5 + j) 0x02))
     (chain (property_block (connect_properties p))
     (chain (mqtt5_connect_client_id info) (chain (mqtt5_connect_will info w (5 + j))
     (chain (mqtt5_connect_username info (5 + j)) (mqtt5_connect_password info (5 + j))))))) k j
     (connect_flags info) (drop 10 (mqtt5_connect_body info p w))"
proof -
  note steps = flag_step_chain [OF
    flag_step_when [where b = "clean_session info", OF assms(1) flag_step_or [OF assms(1), of "0x02"]]
    flag_step_chain [OF flag_step_block [OF assms(1) connect_properties_appends assms(3)]
    flag_step_chain [OF mqtt5_connect_client_id_step [OF assms(1)]
    flag_step_chain [OF mqtt5_connect_will_step [OF assms(1,2,4,5)]
    flag_step_chain [OF mqtt5_connect_username_step [OF assms(1)] mqtt5_connect_password_step [OF assms(1)]]]]]]
  show ?thesis
    by (rule flag_step_eq [OF steps])
       (auto simp: connect_flags_def mqtt5_connect_body_def utf8_field_def)
qed

lemma mqtt5_msg_connect_composes:
  fixes info p w
  defines "body \<equiv> mqtt5_connect_body info p w"
  assumes will: "will_ok info" "nonempty (will_topic info) \<longrightarrow> will_properties_ok w"
    and c: "init_ok c" "15 \<le> buffer_length c" and sm: "small (length body)"
  shows "\<exists>c'. mqtt5_msg_connect c info p w = Some c' \<and> ids c' = ids c \<and>
     composed c c' (if 5 + length body \<le> buffer_length c then packet 1 0 0 0 body else [])"
proof -
  let ?h = "mqtt5_connect_header info" and ?c = "set_message_header_size c"
  let ?steps = "chain (when_step (clean_session info) (or_byte (5 + 7) 0x02))
     (chain (property_block (connect_properties p))
     (chain (mqtt5_connect_client_id info) (chain (mqtt5_connect_will info w (5 + 7))
     (chain (mqtt5_connect_username info (5 + 7)) (mqtt5_connect_password info (5 + 7))))))"
  define rest where "rest = drop 10 body"
  have props: "small (length (connect_property_bytes p))"
    "nonempty (will_topic info) \<Longrightarrow> small (length (will_property_bytes w))"
    using sm by (auto simp: body_def mqtt5_connect_body_def block_bytes_def)
  have body: "?h[7 := connect_flags info] @ rest = body"
    by (simp add: rest_def body_def connect_header5_bytes) (simp add: mqtt5_connect_body_def utf8_field_def)
  from arg_cong [OF this, of length] have len: "length body = 10 + length rest" by (simp add: length_connect_header5)
  have "extends ?steps (0 + length ?h) (flag_append 7 (connect_flags info) rest) (length rest)"
    using mqtt5_connect_steps [of 7 10 info p w, OF _ will(1) props(1) _ props(2)] will(2)
    by (simp add: flag_step_def rest_def body_def length_connect_header5)
  note fin = finish_packet [OF extends_chain [OF extends_raw this], of ?c 1 0 0 0]
  have "mqtt5_msg_connect c info p w = finish (chain (raw_step ?h) ?steps) 1 0 0 0 ?c"
    unfolding mqtt5_msg_connect_def mqtt5_finish_eq mqtt5_init_message_eq Let_def
    using finish_put_raw [of ?c ?h] init_header [OF c(1)] c(2) by (simp add: length_connect_header5)
  then show ?thesis
    using fin init_header [OF c(1)] sm
    by (simp add: composed_header len body length_connect_header5 add.assoc cong: if_cong)
qed

section \<open>Acknowledgements\<close>

lemma block_empty: "block_bytes [] = [0]"
  by (simp add: block_bytes_def encode_length.simps)

lemma mqtt5_ack_composes:
  assumes "init_ok c" "next_id c mid = Some (m, src)" "8 \<le> buffer_length c"
  shows "\<exists>c'. mqtt5_ack_message ty qos c mid = Some c' \<and> ids c' = src \<and>
     composed c c' (if 9 \<le> buffer_length c then packet ty 0 qos 0 (be16 (unat m) @ [0, 0]) else [])"
proof -
  obtain c1 where c1: "append_message_id (set_message_header_size c) mid =
      Some (if 7 \<le> buffer_length c then m else 0, c1)"
    "conn_ok c1" "same_frame c c1" "ids c1 = src"
    "7 \<le> buffer_length c \<Longrightarrow> payload c1 = be16 (unat m)"
    and f: "fragmented_msg_total_length (outbound_message c1) = 0" "buffer_length c1 = buffer_length c"
    using header_message_id [OF assms(1,2)] by metis
  have p: "payload c1 = be16 (unat m)" using c1(5) assms(3) by simp
  then have l: "out_length c1 = 7" using out_length_payload [OF c1(2)] by simp
  have blk: "extends (property_block proceed) (0 + length [0 :: byte]) (\<lambda>q. q @ [0]) 1"
    using property_block_extends [OF appends_proceed] by (simp add: block_empty)
  have "mqtt5_ack_message ty qos c mid = finish (chain (raw_step [0]) (property_block proceed)) ty 0 qos 0 c1"
    using c1(1) assms(3) next_id_nonzero [OF assms(2)] finish_put_raw [of c1 "[0]"] l f(2)
    by (simp add: mqtt5_ack_message_def mqtt5_append_message_id_eq mqtt5_init_message_eq mqtt5_finish_eq)
  then show ?thesis
    using finish_packet [OF extends_chain [OF extends_raw blk] c1(2), of ty 0 qos 0] f p l c1(3,4)
    by (auto simp: composed_same_frame cong: if_cong)
qed

section \<open>PUBLISH\<close>

definition response_topic_bytes :: "cstring option \<Rightarrow> cstring option \<Rightarrow> byte list" where
  "response_topic_bytes topic info =
     (if topic \<noteq> None \<and> nonempty info
      then 0x08 # utf8_field (snprintf_block ((length (chars topic) + length (chars info) + 1) mod 65536)
             (chars topic @ [0x2f] @ chars info))
      else string_bytes 0x08 topic)"

definition publish_property_bytes ::
  "esp_mqtt5_publish_property_config option \<Rightarrow> cstring option \<Rightarrow> byte list" where
  "publish_property_bytes property resp_info =
     (case property of None \<Rightarrow> []
      | Some p \<Rightarrow>
        word_property 0x01 1 (if pp_payload_format_indicator p then 1 else 0) @
        word_property 0x02 4 (unat (pp_message_expiry_interval p)) @
        word_property 0x23 2 (unat (pp_topic_alias p)) @
        response_topic_bytes (pp_response_topic p) resp_info @
        data_bytes 0x09 (pp_correlation_data p) (unat (pp_correlation_data_len p)) @
        user_bytes (pp_user_property p) @
        string_bytes 0x03 (pp_content_type p))"

definition publish_properties_ok :: "esp_mqtt5_publish_property_config option \<Rightarrow> bool" where
  "publish_properties_ok property \<longleftrightarrow>
     (case property of None \<Rightarrow> True
      | Some p \<Rightarrow> unat (pp_correlation_data_len p) \<le> length (chars (pp_correlation_data p)))"

lemma length_snprintf_block: "length (snprintf_block n s) = n"
  by (simp add: snprintf_block_def)

lemma response_topic_appends:
  "appends (response_topic_step True topic info) (response_topic_bytes topic info)"
proof (cases "topic \<noteq> None \<and> nonempty info")
  case True
  let ?n = "(length (chars topic) + length (chars info) + 1) mod 65536"
  let ?b = "snprintf_block ?n (chars topic @ [0x2f] @ chars info)"
  have "appends (property_step 0x08 2 (Some ?b) ?n) (0x08 # utf8_field ?b)"
    by (rule appends_eq [OF appends_property])
       (auto simp: property_bytes_def be_bytes_two utf8_field_def length_snprintf_block)
  then show ?thesis using True by (auto simp: response_topic_step_def response_topic_bytes_def when_step_def Let_def)
next
  case False
  then show ?thesis
    using appends_string [of "0x08" topic]
    by (auto simp: response_topic_step_def response_topic_bytes_def when_step_def string_bytes_def)
qed

lemma publish_properties_appends:
  assumes "publish_properties_ok property"
  shows "appends (publish_properties True property info) (publish_property_bytes property info)"
proof (cases property)
  case (Some p)
  then have "unat (pp_correlation_data_len p) \<le> length (chars (pp_correlation_data p))"
    using assms by (simp add: publish_properties_ok_def)
  then show ?thesis
    unfolding Some publish_properties_def publish_property_bytes_def option.case unat_zero_iff [of "pp_correlation_data_len p"]
    by (intro appends_chain appends_word appends_flag appends_user appends_string appends_data response_topic_appends)
       (simp_all add: unat_eq_0)
qed (simp add: publish_properties_def publish_property_bytes_def appends_proceed)

lemma appends_topic: "appends (property_step 0 2 topic (length (chars topic))) (utf8_field (chars topic))"
  using appends_field appends_empty_field by (cases topic) (auto simp: chars_def)

text \<open>The two ways a PUBLISH names its topic.\<close>

definition topic_given :: "cstring option \<Rightarrow> esp_mqtt5_publish_property_config option \<Rightarrow> bool" where
  "topic_given topic property \<longleftrightarrow>
     nonempty topic \<or> (case property of None \<Rightarrow> False | Some p \<Rightarrow> pp_topic_alias p \<noteq> 0)"

lemma mqtt5_publish_header:
  fixes resp_info topic m qos property
  assumes c: "init_ok c" and t: "topic_given topic property" and d: "data = None \<longrightarrow> data_length = 0"
    and id: "qos > 0 \<longrightarrow> next_id c 0 = Some (m, src)" and pr: "publish_properties_ok property"
  defines "p \<equiv> publish_property_bytes property resp_info"
  assumes sm: "small (length p)"
  defines "h \<equiv> publish_body (chars topic) (if qos > 0 then Some m else None) (block_bytes p)"
  shows "\<exists>c1 m'. same_frame c c1 \<and>
    (if 5 + length h \<le> buffer_length c
     then conn_ok c1 \<and> payload c1 = h \<and> ids c1 = (if qos > 0 then src else ids c) \<and>
        mqtt5_msg_publish c topic data (int data_length) qos retain mid0 property resp_info True =
          do { c \<leftarrow> mqtt5_publish_payload data (int data_length) c1; c \<leftarrow> fini_message c 3 0 qos retain;
               Some (c, if qos > 0 then m else 0) }
     else mqtt5_msg_publish c topic data (int data_length) qos retain mid0 property resp_info True = Some (fail_message c1, m'))"
proof -
  let ?c = "set_message_header_size c" and ?n = "length (chars topic)"
  let ?pub = "mqtt5_msg_publish c topic data (int data_length) qos retain mid0 property resp_info True"
  note i = init_header [OF c]
  have fr: "same_frame c ?c" by (simp add: same_frame_def set_message_header_size_def)
  obtain c1 where c1: "same_frame ?c c1" "ids c1 = ids c"
    "property_step 0 2 topic ?n ?c = Some (7 + ?n \<le> buffer_length c, c1)"
    "7 + ?n \<le> buffer_length c \<Longrightarrow> conn_ok c1 \<and> payload c1 = utf8_field (chars topic)"
    using extendsD [OF appends_extends [OF appends_topic [of topic], of 0] i(1)] i
    by (auto simp: add.commute add.left_commute)
  have f1: "same_frame c c1" using fr c1(1) by (rule same_frame_trans)
  have t': "\<not> (\<not> nonempty topic \<and> (case property of None \<Rightarrow> True | Some p \<Rightarrow> pp_topic_alias p = 0))"
    using t by (auto simp: topic_given_def split: option.splits)
  have start: "?pub =
    (if 7 + ?n \<le> buffer_length c then do {
        (message_id, c) \<leftarrow> (if qos > 0 then append_message_id c1 0 else Some (0, c1));
        if qos > 0 \<and> message_id = 0 then Some (fail_message c, message_id)
        else do {
          (ok, c) \<leftarrow> property_block (publish_properties True property resp_info) c;
          if \<not> ok then Some (fail_message c, message_id)
          else do { c \<leftarrow> mqtt5_publish_payload data (int data_length) c; c \<leftarrow> fini_message c 3 0 qos retain; Some (c, message_id) }
        }
      } else Some (fail_message c1, mid0))"
    unfolding mqtt5_msg_publish_def Let_def if_not_P [OF t'] mqtt5_init_message_eq c1(3)
      mqtt5_append_message_id_eq mqtt5_fail_message_eq mqtt5_fini_message_eq
    using d by auto
  show ?thesis
  proof (cases "7 + ?n \<le> buffer_length c")
    case False
    then show ?thesis using start f1 by (intro exI [of _ c1] exI [of _ mid0]) (auto simp: h_def publish_body_def)
  next
    case True
    have o1: "conn_ok c1" "payload c1 = utf8_field (chars topic)" using c1(4) True by auto
    let ?idb = "if qos > 0 then be16 (unat m) else []"
    let ?k = "7 + ?n + length ?idb"
    have l1: "out_length c1 = 7 + ?n" "buffer_length c1 = buffer_length c"
      using out_length_payload [OF o1(1)] o1(2) f1 by (auto simp: same_frame_def)
    obtain c2 where c2: "(if qos > 0 then append_message_id c1 0 else Some (0, c1)) =
        Some (if qos > 0 \<and> ?k \<le> buffer_length c then m else 0, c2)"
      "conn_ok c2" "same_frame c1 c2" "ids c2 = (if qos > 0 then src else ids c)"
      "?k \<le> buffer_length c \<Longrightarrow> payload c2 = utf8_field (chars topic) @ ?idb"
    proof (cases "qos > 0")
      case q: True
      have "next_id c1 0 = Some (m, src)" using id q c1(2) by (simp add: next_id_def)
      from append_message_id_spec [OF o1(1) this] that q l1 o1(2) show thesis by fastforce
    qed (use that o1 c1(2) in auto)
    have f2: "same_frame c c2" using f1 c2(3) by (rule same_frame_trans)
    have m0: "qos > 0 \<Longrightarrow> m \<noteq> 0" using id next_id_nonzero by blast
    have lh: "5 + length h = ?k + length (block_bytes p)" by (auto simp: h_def publish_body_def)
    show ?thesis
    proof (cases "?k \<le> buffer_length c")
      case False
      then have "?pub = Some (fail_message c2, 0)" "qos > 0"
        unfolding start using True c2(1) by (auto split: if_splits)
      then show ?thesis using False lh f2 by (intro exI [of _ c2] exI [of _ 0]) auto
    next
      case k: True
      have p2: "payload c2 = utf8_field (chars topic) @ ?idb" using c2(5) k by blast
      have l2: "out_length c2 = ?k" "buffer_length c2 = buffer_length c"
        using out_length_payload [OF c2(2)] p2 f2 by (auto simp: same_frame_def)
      obtain c3 where c3: "same_frame c2 c3" "ids c3 = ids c2"
        "property_block (publish_properties True property resp_info) c2 = Some (5 + length h \<le> buffer_length c, c3)"
        "5 + length h \<le> buffer_length c \<Longrightarrow> conn_ok c3 \<and> payload c3 = h"
      proof -
        have h: "payload c2 @ block_bytes p = h" unfolding p2 h_def publish_body_def by simp
        have fits: "(out_length c2 + length (block_bytes p) \<le> buffer_length c2) = (5 + length h \<le> buffer_length c)"
          unfolding l2 lh by (rule refl)
        note blk = property_block_extends [OF publish_properties_appends [OF pr, of resp_info], folded p_def, OF sm]
        from extendsD [OF blk c2(2) le0, unfolded fits h] that show ?thesis by blast
      qed
      have "?pub = (if 5 + length h \<le> buffer_length c then
          do { c \<leftarrow> mqtt5_publish_payload data (int data_length) c3; c \<leftarrow> fini_message c 3 0 qos retain;
               Some (c, if qos > 0 then m else 0) }
          else Some (fail_message c3, if qos > 0 then m else 0))"
        unfolding start using True k c2(1) c3(3) m0 by (auto split: if_splits)
      then show ?thesis
        using c3 c2(4) same_frame_trans [OF f2 c3(1)]
        by (intro exI [of _ c3] exI [of _ "if qos > 0 then m else 0"]) auto
    qed
  qed
qed

lemma mqtt5_publish_payload_fits:
  assumes "conn_ok c" "data_length \<le> length (chars data)" "out_length c + data_length \<le> buffer_length c"
  shows "\<exists>c'. mqtt5_publish_payload data (int data_length) c = Some c' \<and> conn_ok c' \<and> ids c' = ids c \<and>
     payload c' = payload c @ take data_length (chars data) \<and>
     fragmented_msg_total_length (outbound_message c') = 0 \<and>
     buffer_length c' = buffer_length c \<and> length (buffer c') = length (buffer c) \<and>
     information c' = information c"
proof (cases data)
  case None
  then show ?thesis using assms by (auto simp: mqtt5_publish_payload_def chars_def conn_ok_def payload_def Let_def)
next
  case (Some d)
  then have d: "data_length \<le> length d" using assms(2) by (simp add: chars_def)
  obtain b where b: "store (buffer c) (out_length c) (take data_length d) = Some b"
    "conn_ok (set_out_length (c\<lparr>buffer := b\<rparr>) (out_length c + data_length))"
    "payload (set_out_length (c\<lparr>buffer := b\<rparr>) (out_length c + data_length)) = payload c @ take data_length d"
    using append_block [OF assms(1), of "take data_length d"] d assms(3) by (auto simp: Let_def min_absorb2)
  then show ?thesis using assms d Some store_length [OF b(1)]
    by (auto simp: mqtt5_publish_payload_def fetch_def chars_def Let_def set_out_length_def conn_ok_def payload_def nat_int_add)
qed

text \<open>A PUBLISH with its block of properties that fits the buffer.\<close>

lemma mqtt5_msg_publish_composes:
  fixes resp_info topic m qos property data data_length
  assumes c: "init_ok c" and t: "topic_given topic property" and d: "data_length \<le> length (chars data)"
    and id: "qos > 0 \<longrightarrow> next_id c 0 = Some (m, src)" and pr: "publish_properties_ok property"
  defines "body \<equiv> publish_body (chars topic) (if qos > 0 then Some m else None)
     (block_bytes (publish_property_bytes property resp_info) @ take data_length (chars data))"
  assumes sm: "small (length body)" and fits: "5 + length body \<le> buffer_length c"
  shows "\<exists>c'. mqtt5_msg_publish c topic data (int data_length) qos retain mid0 property resp_info True =
      Some (c', if qos > 0 then m else 0) \<and> ids c' = (if qos > 0 then src else ids c) \<and>
      composed c c' (packet 3 0 qos retain body)"
proof -
  let ?p = "publish_property_bytes property resp_info"
  let ?h = "publish_body (chars topic) (if qos > 0 then Some m else None) (block_bytes ?p)"
  have dn: "data = None \<longrightarrow> data_length = 0" using d by (auto simp: chars_def)
  have body: "body = ?h @ take data_length (chars data)" by (simp add: body_def publish_body_def)
  have lens: "small (length ?p)" "5 + length ?h \<le> buffer_length c" "5 + length ?h + data_length \<le> buffer_length c"
    using sm fits d by (auto simp: body publish_body_def block_bytes_def)
  obtain c1 where c1: "same_frame c c1" "conn_ok c1" "payload c1 = ?h" "ids c1 = (if qos > 0 then src else ids c)"
    and run: "mqtt5_msg_publish c topic data (int data_length) qos retain mid0 property resp_info True =
          do { c \<leftarrow> mqtt5_publish_payload data (int data_length) c1; c \<leftarrow> fini_message c 3 0 qos retain;
               Some (c, if qos > 0 then m else 0) }"
    using mqtt5_publish_header [OF c t dn id pr lens(1), of retain mid0] lens(2) by (simp only: if_True) blast
  have l: "out_length c1 = 5 + length ?h" "buffer_length c1 = buffer_length c"
    "length (buffer c1) = length (buffer c)" "information c1 = information c"
    using out_length_payload [OF c1(2)] c1(1,3) by (auto simp: same_frame_def)
  obtain c2 where c2: "mqtt5_publish_payload data (int data_length) c1 = Some c2" "conn_ok c2" "ids c2 = ids c1"
     "payload c2 = body" "fragmented_msg_total_length (outbound_message c2) = 0"
     "buffer_length c2 = buffer_length c" "length (buffer c2) = length (buffer c)" "information c2 = information c"
    using mqtt5_publish_payload_fits [OF c1(2) d] lens(3) c1(3) l unfolding body by auto
  show ?thesis
    using fini_message_packet [OF c2(2,5), of 3 0 qos retain] sm run c1(4) c2
    by (auto simp: composed_def)
qed

section \<open>SUBSCRIBE and UNSUBSCRIBE\<close>

definition shared_name :: "cstring \<Rightarrow> cstring \<Rightarrow> cstring" where
  "shared_name name topic = [0x24, 0x73, 0x68, 0x61, 0x72, 0x65, 0x2f] @ name @ [0x2f] @ topic"

definition shared_ok :: "cstring option \<Rightarrow> cstring \<Rightarrow> bool" where
  "shared_ok share_name topic \<longleftrightarrow> share_name \<noteq> None \<and> 0 \<notin> set (chars share_name) \<and> 0 \<notin> set topic \<and>
     length topic + 12 + length (chars share_name) < 65536"

lemma c_str_no_zero: "0 \<notin> set s \<Longrightarrow> c_str (s @ replicate n 0) = s"
  unfolding c_str_def by (subst takeWhile_append2) (auto simp: takeWhile_replicate)

lemma shared_topic_eq:
  assumes "shared_ok share_name topic"
  shows "shared_topic True share_name topic = Some (shared_name (chars share_name) topic)"
proof -
  obtain name where name: "share_name = Some name" "chars share_name = name"
    using assms by (auto simp: shared_ok_def chars_def split: option.splits)
  let ?s = "shared_name name topic" and ?n = "length topic + 12 + length name"
  have "length ?s \<le> ?n - 1" by (simp add: shared_name_def)
  then have "snprintf_block ?n ?s = ?s @ replicate (?n - length ?s) 0" by (simp add: snprintf_block_def min_absorb2)
  moreover have "0 \<notin> set ?s" using assms name by (auto simp: shared_ok_def shared_name_def)
  ultimately have "c_str (snprintf_block ?n ?s) = ?s" by (simp add: c_str_no_zero)
  moreover have "?n < 65536" using assms name by (simp add: shared_ok_def)
  ultimately show ?thesis
    unfolding name(2) by (simp add: shared_topic_def name(1) Let_def shared_name_def)
qed

lemma shared_topic_appends:
  assumes "shared_ok share_name topic"
  shows "appends (shared_topic_step True share_name topic) (utf8_field (shared_name (chars share_name) topic))"
proof -
  let ?s = "shared_name (chars share_name) topic"
  have "shared_topic_step True share_name topic = property_step 0 2 (Some ?s) (length ?s)"
    by (simp add: fun_eq_iff shared_topic_step_def shared_topic_eq [OF assms])
  then show ?thesis using appends_field by metis
qed

lemma appends_raw: "bs \<noteq> [] \<Longrightarrow> appends (raw_step bs) bs"
  unfolding appends_def
proof (intro allI impI)
  fix c assume bs: "bs \<noteq> []" and c: "frame_ok c"
  show "\<exists>c'. raw_step bs c = Some (bs = [] \<or> out_length c + length bs \<le> buffer_length c, c') \<and>
    same_frame c c' \<and> ids c' = ids c \<and> (bs = [] \<or> out_length c + length bs \<le> buffer_length c \<longrightarrow>
      out_length c' = out_length c + length bs \<and> take (out_length c') (buffer c') = take (out_length c) (buffer c) @ bs)"
  proof (cases "out_length c + length bs \<le> buffer_length c")
    case True
    then obtain b where b: "store (buffer c) (out_length c) bs = Some b" using c by (simp add: store_def frame_ok_def)
    then show ?thesis using True store_length [OF b] store_take_end [OF b]
      by (auto simp: raw_step_def same_frame_def)
  qed (use bs in \<open>auto simp: raw_step_def\<close>)
qed

definition subscribe_filter :: "esp_mqtt5_subscribe_property_config option \<Rightarrow> cstring \<Rightarrow> cstring" where
  "subscribe_filter property topic =
     (case property of None \<Rightarrow> topic
      | Some p \<Rightarrow> if sp_is_share_subscribe p then shared_name (chars (sp_share_name p)) topic else topic)"

definition subscribe_filter_ok :: "esp_mqtt5_subscribe_property_config option \<Rightarrow> cstring \<Rightarrow> bool" where
  "subscribe_filter_ok property topic \<longleftrightarrow> topic \<noteq> [] \<and>
     (case property of None \<Rightarrow> True | Some p \<Rightarrow> sp_is_share_subscribe p \<longrightarrow> shared_ok (sp_share_name p) topic)"

text \<open>
  The options of a subscription as the standard has them: the quality of service in bits 0 and 1,
  No Local in bit 2, Retain As Published in bit 3, Retain Handling, if it is 1 or 2, in bits 4 and 5.
\<close>

definition option_byte :: "esp_mqtt5_subscribe_property_config option \<Rightarrow> int \<Rightarrow> byte" where
  "option_byte property qos = word_of_int (qos mod 4 +
     (case property of None \<Rightarrow> 0
      | Some p \<Rightarrow> 4 * of_bool (sp_no_local_flag p) + 8 * of_bool (sp_retain_as_published_flag p) +
          16 * (if uint (sp_retain_handle p) \<in> {1, 2} then uint (sp_retain_handle p) else 0)))"

definition mqtt5_topics_bytes ::
  "esp_mqtt5_subscribe_property_config option \<Rightarrow> esp_mqtt_topic list \<Rightarrow> byte list" where
  "mqtt5_topics_bytes property ts =
     concat (map (\<lambda>t. utf8_field (subscribe_filter property (topic_filter t)) @
       [option_byte property (topic_qos t)]) ts)"

lemma retain_handle_values:
  fixes r :: byte
  shows "0 < r \<and> r < 3 \<longleftrightarrow> r = 1 \<or> r = 2" "uint r \<in> {1, 2} \<longleftrightarrow> r = 1 \<or> r = 2"
proof -
  have e: "uint r = 1 \<longleftrightarrow> r = 1" "uint r = 2 \<longleftrightarrow> r = 2" by (simp_all add: word_uint_eq_iff)
  then show "uint r \<in> {1, 2} \<longleftrightarrow> r = 1 \<or> r = 2" by simp
  have "0 < r \<and> r < 3 \<longleftrightarrow> 0 < uint r \<and> uint r < 3" by (simp add: word_less_def)
  also have "\<dots> \<longleftrightarrow> uint r = 1 \<or> uint r = 2" by arith
  finally show "0 < r \<and> r < 3 \<longleftrightarrow> r = 1 \<or> r = 2" using e by simp
qed

lemma subscribe_options_byte: "subscribe_options property qos = option_byte property qos"
proof -
  have q: "qos AND 3 = qos mod 4" using take_bit_eq_mask [of 2 qos] by (simp add: mask_eq_exp_minus_1 take_bit_eq_mod)
  have m: "qos mod 4 \<in> {0, 1, 2, 3}" using pos_mod_bound [of 4 qos] pos_mod_sign [of 4 qos] by auto
  show ?thesis
  proof (cases property)
    case None
    then show ?thesis by (simp add: subscribe_options_def option_byte_def q)
  next
    case (Some p)
    consider "sp_retain_handle p = 1" | "sp_retain_handle p = 2" | "sp_retain_handle p \<noteq> 1 \<and> sp_retain_handle p \<noteq> 2" by blast
    then show ?thesis
      unfolding subscribe_options_def option_byte_def q Some option.case retain_handle_values
      using m by cases (cases "sp_no_local_flag p"; cases "sp_retain_as_published_flag p"; auto)+
  qed
qed

lemma mqtt5_topics_appends:
  "\<forall>t \<in> set ts. subscribe_filter_ok property (topic_filter t) \<Longrightarrow>
   appends (mqtt5_subscribe_topics [] property ts) (mqtt5_topics_bytes property ts)"
proof (induction ts)
  case Nil
  then show ?case by (simp add: mqtt5_topics_bytes_def appends_proceed)
next
  case (Cons t ts)
  let ?f = "topic_filter t"
  let ?step = "case property of None \<Rightarrow> property_step 0 2 (Some ?f) (length ?f)
      | Some p \<Rightarrow> if sp_is_share_subscribe p then shared_topic_step True (sp_share_name p) ?f
                  else property_step 0 2 (Some ?f) (length ?f)"
  have ok: "subscribe_filter_ok property ?f" using Cons.prems by simp
  have "appends ?step (utf8_field (subscribe_filter property ?f))"
    using ok appends_field shared_topic_appends
    by (auto simp: subscribe_filter_ok_def subscribe_filter_def split: option.splits)
  from appends_chain [OF this appends_chain [OF appends_raw [of "[subscribe_options property (topic_qos t)]"] Cons.IH]]
  have "appends (chain ?step (chain (raw_step [subscribe_options property (topic_qos t)])
      (mqtt5_subscribe_topics [] property ts))) (mqtt5_topics_bytes property (t # ts))"
    using Cons.prems by (simp add: mqtt5_topics_bytes_def subscribe_options_byte)
  moreover have "mqtt5_subscribe_topics [] property (t # ts) =
     chain ?step (chain (raw_step [subscribe_options property (topic_qos t)]) (mqtt5_subscribe_topics [] property ts))"
    using ok by (auto simp: subscribe_filter_ok_def calloc_def Let_def split: option.splits)
  ultimately show ?case by simp
qed

definition subscribe_property_bytes :: "esp_mqtt5_subscribe_property_config option \<Rightarrow> byte list" where
  "subscribe_property_bytes property =
     (case property of None \<Rightarrow> []
      | Some p \<Rightarrow>
        (if sp_subscribe_id p \<noteq> 0 then 0x0B # encode_length (unat (sp_subscribe_id p)) else []) @
        user_bytes (sp_user_property p))"

text \<open>
  The check in front of the subscription identifier leaves out its encoded bytes; with four
  bytes of room it makes no difference.
\<close>

lemma subscribe_id_step:
  assumes "out_length c + 4 \<le> buffer_length c"
  shows "property_step 0x0B 0 None (unat (i :: 16 word)) c = raw_step (0x0B # encode_length (unat i)) c"
proof -
  have "unat i < 128 ^ 3" using less_trans [OF unat_id_less [of i], of "128 ^ 3"] by simp
  then have e: "length (encode_length (unat i)) \<le> 3" by (rule length_encode_length_le) simp
  then have "generate_variable_len (unat i) = Some (encode_length (unat i))"
    by (simp add: generate_variable_len_def Let_def)
  then show ?thesis
    using assms e by (auto simp: property_step_def append_property_def raw_step_def Let_def)
qed

definition checked_subscribe_properties :: "esp_mqtt5_subscribe_property_config option \<Rightarrow> build_step" where
  "checked_subscribe_properties property =
     (case property of None \<Rightarrow> proceed
      | Some p \<Rightarrow>
        chain (when_step (sp_subscribe_id p \<noteq> 0) (raw_step (0x0B # encode_length (unat (sp_subscribe_id p)))))
          (user_property_step (sp_user_property p)))"

lemma subscribe_properties_checked:
  assumes "out_length c + 5 \<le> buffer_length c"
  shows "property_block (subscribe_properties property) c = property_block (checked_subscribe_properties property) c"
  using assms subscribe_id_step [of "set_out_length c (out_length c + 1)"]
  by (auto simp: property_block_def subscribe_properties_def checked_subscribe_properties_def chain_def when_step_def
      Let_def split: option.splits)

lemma checked_subscribe_appends:
  "appends (checked_subscribe_properties property) (subscribe_property_bytes property)"
proof (cases property)
  case (Some p)
  have "appends (when_step (sp_subscribe_id p \<noteq> 0) (raw_step (0x0B # encode_length (unat (sp_subscribe_id p)))))
     (if sp_subscribe_id p \<noteq> 0 then 0x0B # encode_length (unat (sp_subscribe_id p)) else [])"
    by (rule appends_when) (rule appends_raw, simp)
  from appends_chain [OF this appends_user] Some show ?thesis
    by (simp add: checked_subscribe_properties_def subscribe_property_bytes_def)
qed (simp add: checked_subscribe_properties_def subscribe_property_bytes_def appends_proceed)

definition mqtt5_subscribe_body ::
  "esp_mqtt5_subscribe_property_config option \<Rightarrow> esp_mqtt_topic list \<Rightarrow> byte list" where
  "mqtt5_subscribe_body property ts =
     block_bytes (subscribe_property_bytes property) @ mqtt5_topics_bytes property ts"

text \<open>A step right behind the identifier, as in SUBSCRIBE and UNSUBSCRIBE.\<close>

lemma identified_packet:
  assumes "init_ok c" "next_id c 0 = Some (m, src)" "7 \<le> buffer_length c"
    and ext: "extends st 0 (\<lambda>q. q @ bs) (length bs)" and sm: "small (2 + length bs)"
    and eq: "\<And>c1. out_length c1 = 7 \<Longrightarrow> buffer_length c1 = buffer_length c \<Longrightarrow> st' c1 = st c1"
  shows "\<exists>c1 c'. append_message_id (set_message_header_size c) 0 = Some (m, c1) \<and> m \<noteq> 0 \<and>
     finish st' ty 0 qos 0 c1 = Some c' \<and> ids c' = src \<and>
     composed c c' (if 7 + length bs \<le> buffer_length c then packet ty 0 qos 0 (be16 (unat m) @ bs) else [])"
proof -
  obtain c1 where c1: "append_message_id (set_message_header_size c) 0 = Some (m, c1)"
    "conn_ok c1" "same_frame c c1" "ids c1 = src" "payload c1 = be16 (unat m)"
    and f: "fragmented_msg_total_length (outbound_message c1) = 0" "buffer_length c1 = buffer_length c"
    by (rule header_message_id [OF assms(1,2)]) (use assms(3) in \<open>simp only: if_True\<close>)
  have l: "out_length c1 = 7" using out_length_payload [OF c1(2)] c1(5) by simp
  have st: "finish st' ty 0 qos 0 c1 = finish st ty 0 qos 0 c1" using eq [OF l f(2)] by (simp add: finish_def)
  obtain c' where "finish st ty 0 qos 0 c1 = Some c'" "ids c' = src"
    "composed c1 c' (if 7 + length bs \<le> buffer_length c then packet ty 0 qos 0 (be16 (unat m) @ bs) else [])"
    using finish_packet [OF ext c1(2), of ty 0 qos 0] c1 l f sm by (auto cong: if_cong)
  then show ?thesis
    using c1(1) next_id_nonzero [OF assms(2)] composed_same_frame [OF _ c1(3)] st
    by (intro exI [of _ c1] exI [of _ c']) simp
qed

lemma mqtt5_msg_subscribe_composes:
  assumes "init_ok c" "next_id c 0 = Some (m, src)" "12 \<le> buffer_length c"
    and "\<forall>t \<in> set ts. subscribe_filter_ok property (topic_filter t)"
    and "small (2 + length (mqtt5_subscribe_body property ts))"
  shows "\<exists>c'. mqtt5_msg_subscribe [] c ts property = Some (c', m) \<and> ids c' = src \<and> m \<noteq> 0 \<and>
     composed c c' (if 7 + length (mqtt5_subscribe_body property ts) \<le> buffer_length c
       then packet 8 0 1 0 (be16 (unat m) @ mqtt5_subscribe_body property ts) else [])"
proof -
  let ?st = "\<lambda>f. chain (property_block f) (mqtt5_subscribe_topics [] property ts)"
  have sm: "small (length (subscribe_property_bytes property))"
    using assms(5) by (simp add: mqtt5_subscribe_body_def block_bytes_def)
  note blk = property_block_extends [OF checked_subscribe_appends sm]
    and tps = appends_extends [OF mqtt5_topics_appends [OF assms(4)]]
  have ext: "extends (?st (checked_subscribe_properties property)) 0
      (\<lambda>q. q @ mqtt5_subscribe_body property ts) (length (mqtt5_subscribe_body property ts))"
    by (rule extends_eqI [OF extends_chain [OF blk tps]]) (auto simp: mqtt5_subscribe_body_def)
  have eq: "?st (subscribe_properties property) c1 = ?st (checked_subscribe_properties property) c1"
    if "out_length c1 = 7" "buffer_length c1 = buffer_length c" for c1
    using that subscribe_properties_checked [of c1] assms(3) by (simp add: chain_def)
  have "7 \<le> buffer_length c" using assms(3) by simp
  from identified_packet [where st' = "?st (subscribe_properties property)", OF assms(1,2) this ext assms(5) eq, of 8 1]
  show ?thesis
    by (auto simp: mqtt5_msg_subscribe_def mqtt5_append_message_id_eq mqtt5_init_message_eq mqtt5_finish_eq)
qed

definition mqtt5_unsubscribe_body ::
  "esp_mqtt5_unsubscribe_property_config option \<Rightarrow> cstring \<Rightarrow> byte list" where
  "mqtt5_unsubscribe_body property topic =
     (case property of None \<Rightarrow> block_bytes [] @ utf8_field topic
      | Some p \<Rightarrow> block_bytes (user_bytes (up_user_property p)) @
          utf8_field (if up_is_share_subscribe p then shared_name (chars (up_share_name p)) topic else topic))"

lemma mqtt5_msg_unsubscribe_composes:
  assumes "init_ok c" "next_id c 0 = Some (m, src)" "7 \<le> buffer_length c" and t: "nonempty topic"
    and sh: "\<forall>p. property = Some p \<longrightarrow> up_is_share_subscribe p \<longrightarrow> shared_ok (up_share_name p) (chars topic)"
    and sm: "small (2 + length (mqtt5_unsubscribe_body property (chars topic)))"
  shows "\<exists>c'. mqtt5_msg_unsubscribe c topic mid0 property True = Some (c', m) \<and> ids c' = src \<and> m \<noteq> 0 \<and>
     composed c c' (if 7 + length (mqtt5_unsubscribe_body property (chars topic)) \<le> buffer_length c
       then packet 10 0 1 0 (be16 (unat m) @ mqtt5_unsubscribe_body property (chars topic)) else [])"
proof -
  let ?props = "case property of None \<Rightarrow> proceed | Some p \<Rightarrow> user_property_step (up_user_property p)"
  let ?topic = "case property of None \<Rightarrow> property_step 0 2 topic (length (chars topic))
     | Some p \<Rightarrow> if up_is_share_subscribe p then shared_topic_step True (up_share_name p) (chars topic)
                 else property_step 0 2 topic (length (chars topic))"
  let ?pb = "case property of None \<Rightarrow> [] | Some p \<Rightarrow> user_bytes (up_user_property p)"
  let ?tb = "case property of None \<Rightarrow> utf8_field (chars topic)
     | Some p \<Rightarrow> utf8_field (if up_is_share_subscribe p then shared_name (chars (up_share_name p)) (chars topic) else chars topic)"
  have body: "mqtt5_unsubscribe_body property (chars topic) = block_bytes ?pb @ ?tb"
    by (auto simp: mqtt5_unsubscribe_body_def split: option.splits)
  have pb: "appends ?props ?pb" "small (length ?pb)"
    using sm unfolding body by (auto simp: block_bytes_def appends_user appends_proceed split: option.splits)
  have tb: "appends ?topic ?tb" using appends_topic shared_topic_appends sh by (auto split: option.splits)
  have ext: "extends (chain (property_block ?props) ?topic) 0
      (\<lambda>q. q @ mqtt5_unsubscribe_body property (chars topic)) (length (mqtt5_unsubscribe_body property (chars topic)))"
    unfolding body by (rule extends_eqI [OF extends_chain [OF property_block_extends [OF pb] appends_extends [OF tb]]]) auto
  from identified_packet [OF assms(1-3) ext sm refl, of 10 1] t show ?thesis
    by (auto simp: mqtt5_msg_unsubscribe_def mqtt5_append_message_id_eq mqtt5_init_message_eq mqtt5_finish_eq)
qed

end
