(* ===== verification/Mqtt5_Message_Parse.thy ===== *)
theory Mqtt5_Message_Parse
  imports Mqtt5_Message_Build
begin

text \<open>
  Lemmas on the parsing side of \<^verbatim>\<open>lib/mqtt5_msg.c\<close>. The loop over a block of properties relies
  on its \<open>switch\<close>: every case must move the position forward and stay near the block. That is
  the contract \<open>property_switch\<close>, under which the loop returns; the two blocks whose switch
  keeps it are the user properties and those of CONNACK, the latter only up to four bytes
  behind its end.
\<close>

section \<open>The contract of a switch\<close>

locale property_switch =
  fixes sw :: "byte list \<Rightarrow> nat \<Rightarrow> nat \<Rightarrow> byte \<Rightarrow> 's property_case"
    and slack :: nat
    and keeps :: "'s \<Rightarrow> bool"
  assumes moves: "\<lbrakk>p + plen + slack \<le> length b; plen + slack < 65536; off \<le> plen; keeps s\<rbrakk> \<Longrightarrow>
    \<exists>ok off' s'. sw b p plen i off s = Some (ok, off', s') \<and> off \<le> off' \<and> off' \<le> plen + slack \<and> (ok \<longrightarrow> keeps s')"
begin

lemma loop_returns:
  assumes b: "p + plen + slack \<le> length b" "plen + slack < 65536" and "off \<le> plen + slack" "keeps s"
  shows "\<exists>ok off' s'. property_loop (sw b p plen) b p plen off s = Some (ok, off', s') \<and>
    (ok \<longrightarrow> keeps s' \<and> plen \<le> off' \<and> off' \<le> plen + slack)"
  using assms(3,4)
proof (induction "plen + slack - off" arbitrary: off s rule: less_induct)
  case less
  show ?case
  proof (cases "off < plen")
    case False
    then show ?thesis using less.prems by (subst property_loop.simps) auto
  next
    case True
    have r: "read_one b p off = Some (b ! (p + off), off + 1)"
      using True b by (simp add: read_one_def load_def)
    obtain ok off1 s1 where m: "sw b p plen (b ! (p + off)) (off + 1) s = Some (ok, off1, s1)"
      "off + 1 \<le> off1" "off1 \<le> plen + slack" "ok \<longrightarrow> keeps s1"
      using moves [OF b, of "off + 1" s "b ! (p + off)"] True less.prems by auto
    have eq: "property_loop (sw b p plen) b p plen off s =
        (if ok then property_loop (sw b p plen) b p plen off1 s1 else Some (False, off1, s1))"
      using True r m(1) by (subst property_loop.simps) simp
    show ?thesis
    proof (cases ok)
      case ok: True
      have "plen + slack - off1 < plen + slack - off" using m(2,3) True by simp
      from less.hyps [OF this m(3)] m(4) ok show ?thesis unfolding eq by simp
    qed (auto simp: eq)
  qed
qed

end

section \<open>The cases\<close>

lemma read_two_in:
  assumes "p + off + 2 \<le> length b" "off + 2 < 65536"
  shows "read_two b p off = Some (be16_val (b ! (p + off)) (b ! (p + off + 1)), off + 2)"
  using assms by (simp add: read_two_def read_one_def load_def)

lemma read_four_in:
  assumes "p + off + 4 \<le> length b" "off + 4 < 65536"
  obtains v where "read_four b p off = Some (v, off + 4)"
  using assms by (simp add: read_four_def read_one_def load_def)

lemma read_string_len_in:
  assumes "p + plen \<le> length b" "plen < 65536" "off \<le> plen"
  shows "read_string_len b p plen off = Some None \<or>
    (\<exists>len. read_string_len b p plen off = Some (Some (len, off + 2)) \<and> off + 2 + len \<le> plen)"
proof (cases "off + 2 \<le> plen")
  case True
  then have "read_two b p off = Some (be16_val (b ! (p + off)) (b ! (p + off + 1)), off + 2)"
    using assms by (intro read_two_in) auto
  then show ?thesis using True assms(3)
    by (auto simp: read_string_len_def mqtt5_property_has_bytes_def)
next
  case False
  then show ?thesis using assms(3) by (auto simp: read_string_len_def mqtt5_property_has_bytes_def)
qed

text \<open>One case keeps the contract.\<close>

definition moves_on :: "'s property_case \<Rightarrow> nat \<Rightarrow> nat \<Rightarrow> ('s \<Rightarrow> bool) \<Rightarrow> nat \<Rightarrow> 's \<Rightarrow> bool" where
  "moves_on f plen slack keeps off s \<longleftrightarrow>
     (\<exists>ok off' s'. f off s = Some (ok, off', s') \<and> off \<le> off' \<and> off' \<le> plen + slack \<and> (ok \<longrightarrow> keeps s'))"

named_theorems case_moves \<open>cases of the switches that keep the contract\<close>

lemma moves_reject [case_moves]: "off \<le> plen \<Longrightarrow> moves_on reject plen slack keeps off s"
  by (auto simp: moves_on_def reject_def)

definition inside :: "byte list \<Rightarrow> nat \<Rightarrow> nat \<Rightarrow> nat \<Rightarrow> nat \<Rightarrow> bool" where
  "inside b p plen slack off \<longleftrightarrow> p + plen + slack \<le> length b \<and> plen + slack < 65536 \<and> off \<le> plen"

lemma insideD:
  assumes "inside b p plen slack off"
  shows "p + plen + slack \<le> length b" "plen + slack < 65536" "off \<le> plen"
  using assms by (simp_all add: inside_def)

lemma moves_skip_string [case_moves]:
  assumes "inside b p plen slack off"
  shows "keeps s \<Longrightarrow> moves_on (skip_string b p plen) plen slack keeps off s"
  using read_string_len_in [of p plen b off] insideD [OF assms]
  by (auto simp: moves_on_def skip_string_def reject_def)

lemma moves_one_byte [case_moves]:
  assumes "inside b p plen slack off"
  shows "(\<And>v. keeps (f v s)) \<Longrightarrow> moves_on (one_byte b p plen f) plen slack keeps off s"
  using insideD [OF assms] by (auto simp: moves_on_def one_byte_def reject_def mqtt5_property_has_bytes_def read_one_def load_def)

lemma moves_two_bytes [case_moves]:
  assumes "inside b p plen slack off"
  shows "(\<And>v. keeps (f v s)) \<Longrightarrow> moves_on (two_bytes b p plen f) plen slack keeps off s"
  using insideD [OF assms] read_two_in [of p off b]
  by (cases "off + 2 \<le> plen") (auto simp: moves_on_def two_bytes_def reject_def mqtt5_property_has_bytes_def)

lemma moves_four_bytes [case_moves]:
  assumes i: "inside b p plen slack off" and "\<And>v. keeps (f v s)"
  shows "moves_on (four_bytes b p plen f) plen slack keeps off s"
proof -
  note b = insideD [OF i]
  show ?thesis
proof (cases "off + 4 \<le> plen")
  case True
  then obtain v where "read_four b p off = Some (v, off + 4)" using b by (auto intro: read_four_in [of p off b])
  then show ?thesis using True b assms by (auto simp: moves_on_def four_bytes_def mqtt5_property_has_bytes_def)
qed (use b in \<open>auto simp: moves_on_def four_bytes_def reject_def mqtt5_property_has_bytes_def\<close>)
qed

lemma moves_unchecked_two [case_moves]:
  assumes "inside b p plen slack off"
  shows "2 \<le> slack \<Longrightarrow> (\<And>v. keeps (f v s)) \<Longrightarrow> moves_on (unchecked_two b p f) plen slack keeps off s"
  using insideD [OF assms] read_two_in [of p off b] by (auto simp: moves_on_def unchecked_two_def)

lemma moves_unchecked_four [case_moves]:
  assumes i: "inside b p plen slack off" and "4 \<le> slack" "\<And>v. keeps (f v s)"
  shows "moves_on (unchecked_four b p f) plen slack keeps off s"
proof -
  note b = insideD [OF i]
  obtain v where "read_four b p off = Some (v, off + 4)" using b assms(2) by (auto intro: read_four_in [of p off b])
  then show ?thesis using b assms by (auto simp: moves_on_def unchecked_four_def)
qed

lemma slice_in: "inside b p plen slack off \<Longrightarrow> i + n \<le> plen \<Longrightarrow> slice b (p + i) n = Some (take n (drop (p + i) b))"
  using insideD by (fastforce simp: slice_def fetch_def)

lemma moves_user_property [case_moves]:
  assumes i: "inside b p plen slack off" and "\<And>u h. keeps (u, h)"
  shows "moves_on (user_property_case b p plen) plen slack keeps off s"
proof -
  note b = insideD [OF i]
  show ?thesis
proof (cases "read_string_len b p plen off")
  case None
  then show ?thesis using read_string_len_in [of p plen b off] b by auto
next
  case (Some r)
  show ?thesis
  proof (cases r)
    case None
    then show ?thesis using Some b by (auto simp: moves_on_def user_property_case_def reject_def)
  next
    case (Some k)
    then obtain klen where k: "read_string_len b p plen off = Some (Some (klen, off + 2))" "off + 2 + klen \<le> plen"
      using read_string_len_in [of p plen b off] b \<open>read_string_len b p plen off = Some r\<close> by auto
    let ?off = "off + 2 + klen"
    have u: "u16 ?off = ?off" using k(2) b by simp
    show ?thesis
    proof (cases "read_string_len b p plen ?off = Some None")
      case True
      then show ?thesis using k u b by (auto simp: moves_on_def user_property_case_def reject_def)
    next
      case False
      then obtain vlen where v: "read_string_len b p plen ?off = Some (Some (vlen, ?off + 2))" "?off + 2 + vlen \<le> plen"
        using read_string_len_in [of p plen b ?off] b k(2) by auto
      obtain e u' h' where su: "mqtt5_msg_set_user_property (snd s) (fst s) (take klen (drop (p + (off + 2)) b))
          (take vlen (drop (p + (?off + 2)) b)) = (e, u', h')"
        by (cases "mqtt5_msg_set_user_property (snd s) (fst s) (take klen (drop (p + (off + 2)) b))
          (take vlen (drop (p + (?off + 2)) b))") auto
      have sl: "slice b (p + (off + 2)) klen = Some (take klen (drop (p + (off + 2)) b))"
        "slice b (p + (?off + 2)) vlen = Some (take vlen (drop (p + (?off + 2)) b))"
        using slice_in [OF i, of "off + 2" klen] slice_in [OF i, of "?off + 2" vlen] k(2) v(2) by auto
      have "user_property_case b p plen off s =
          (if e = ESP_OK then Some (True, ?off + 2 + vlen, u', h') else Some (False, ?off + 2 + vlen, None, h'))"
        using k u v b su sl by (simp add: user_property_case_def Let_def split_beta)
      then show ?thesis using v(2) b assms by (auto simp: moves_on_def)
    qed
  qed
qed
qed

lemma moves_assigned_client_id [case_moves]:
  assumes i: "inside b p plen slack off" and "\<And>out h. keeps (out, h) \<Longrightarrow> (\<And>c h. keeps (out\<lparr>connection_info := c\<rparr>, h))"
    and "keeps s"
  shows "moves_on (assigned_client_id_case b p plen) plen slack keeps off s"
proof -
  note b = insideD [OF i]
  obtain out h where s: "s = (out, h)" by (cases s)
  consider "read_string_len b p plen off = Some None"
    | len where "read_string_len b p plen off = Some (Some (len, off + 2))" "off + 2 + len \<le> plen"
    using read_string_len_in [of p plen b off] b by auto
  then show ?thesis
  proof cases
    case 1
    then show ?thesis using b s by (auto simp: moves_on_def assigned_client_id_case_def reject_def)
  next
    case 2
    then show ?thesis
      using b s assms(2,3) slice_in [OF i, of "off + 2" len]
      by (cases "calloc h") (auto simp: moves_on_def assigned_client_id_case_def reject_def Let_def add.assoc)
  qed
qed

abbreviation connack_keeps :: "connack_out \<times> heap \<Rightarrow> bool" where
  "connack_keeps s \<equiv> sr_response_info (server_resp (fst s)) \<noteq> Freed"

lemma moves_response_info [case_moves]:
  assumes i: "inside b p plen slack off" and "connack_keeps s"
  shows "moves_on (response_info_case b p plen) plen slack connack_keeps off s"
proof -
  note b = insideD [OF i]
  obtain out h where s: "s = (out, h)" by (cases s)
  obtain j where j: "(case sr_response_info (server_resp out) of
      Freed \<Rightarrow> None | Null_Str \<Rightarrow> Some Null_Str | Str x \<Rightarrow> Some Freed) = Some j"
    using assms(2) s by (cases "sr_response_info (server_resp out)") auto
  consider "read_string_len b p plen off = Some None"
    | len where "read_string_len b p plen off = Some (Some (len, off + 2))" "off + 2 + len \<le> plen"
    using read_string_len_in [of p plen b off] b by auto
  then show ?thesis
  proof cases
    case 1
    then show ?thesis using b s j by (auto simp: moves_on_def response_info_case_def reject_def)
  next
    case 2
    then show ?thesis
      using b s j slice_in [OF i, of "off + 2" len]
      by (cases "calloc h")
         (auto simp: moves_on_def response_info_case_def reject_def Let_def on_server_def add.assoc split: if_splits)
  qed
qed

lemma moves_connack_user [case_moves]:
  assumes i: "inside b p plen slack off" and "connack_keeps s"
  shows "moves_on (connack_user_property_case b p plen) plen slack connack_keeps off s"
proof -
  obtain out h where s: "s = (out, h)" by (cases s)
  obtain ok off' u h' where "user_property_case b p plen off (connack_user_property out, h) = Some (ok, off', u, h')"
    "off \<le> off'" "off' \<le> plen + slack"
    using moves_user_property [OF i, of "\<lambda>_. True" "(connack_user_property out, h)"] by (auto simp: moves_on_def)
  then show ?thesis using s assms(2) by (auto simp: moves_on_def connack_user_property_case_def)
qed

lemma moves_if: "(c \<Longrightarrow> moves_on f plen slack keeps off s) \<Longrightarrow> (\<not> c \<Longrightarrow> moves_on g plen slack keeps off s) \<Longrightarrow>
   moves_on (if c then f else g) plen slack keeps off s"
  by simp

interpretation user_properties: property_switch user_property_switch 0 "\<lambda>_. True"
proof (unfold_locales, goal_cases)
  case (1 p plen b off s i)
  then have "inside b p plen 0 off" by (simp add: inside_def)
  then have "moves_on (user_property_switch b p plen i) plen 0 (\<lambda>_. True) off s"
    unfolding user_property_switch_def by (intro moves_if case_moves) (auto simp: inside_def)
  then show ?case by (simp add: moves_on_def)
qed

interpretation connack_properties: property_switch connack_switch 4 connack_keeps
proof (unfold_locales, goal_cases)
  case (1 p plen b off s i)
  then have "inside b p plen 4 off" by (simp add: inside_def)
  then have "moves_on (connack_switch b p plen i) plen 4 connack_keeps off s"
    unfolding connack_switch_def using 1(4)
    by (intro moves_if case_moves) (auto simp: inside_def on_server_def split_beta)
  then show ?case by (simp add: moves_on_def)
qed

section \<open>Reading back what was composed\<close>

lemma load_drop: "drop k b = v # r \<Longrightarrow> load b k = Some v"
  by (metis drop_eq_Nil2 leI list.discI load_Some nth_via_drop)

lemma drop_after: "drop k b = v @ r \<Longrightarrow> n = length v \<Longrightarrow> drop (k + n) b = r"
  by (metis add.commute append_eq_conv_conj drop_drop)

lemma read_one_drop: "drop (p + off) b = v # r \<Longrightarrow> off + 1 < 65536 \<Longrightarrow> read_one b p off = Some (v, off + 1)"
  by (simp add: read_one_def load_drop)

lemma read_two_drop:
  assumes "drop (p + off) b = be16 n @ r" "n < 65536" "off + 2 < 65536"
  shows "read_two b p off = Some (n, off + 2)"
proof -
  have "drop (p + off) b = of_nat (n div 256) # of_nat n # r" using assms(1) by (simp add: be16_def)
  moreover from this have "drop (p + (off + 1)) b = of_nat n # r"
    using drop_after [of "p + off" b "[of_nat (n div 256)]"] by (simp add: add.assoc)
  ultimately have "read_one b p off = Some (of_nat (n div 256), off + 1)"
    "read_one b p (off + 1) = Some (of_nat n, off + 2)"
    using assms(3) by (auto simp: read_one_def load_drop)
  then show ?thesis using be16_val_be16 [OF assms(2)] by (simp add: read_two_def)
qed

lemma be_bytes_four:
  "be_bytes 4 n = [of_nat (n div 16777216), of_nat (n div 65536), of_nat (n div 256), of_nat n]"
proof -
  have "[1..<4 + 1] = [1, 2, 3, 4 :: nat]" by (simp add: upt_rec)
  then have "be_bytes 4 n = map (\<lambda>i. of_nat (drop_bit (8 * (4 - i)) n)) [1, 2, 3, 4]"
    by (simp only: be_bytes_def)
  then show ?thesis by (simp only: list.map drop_bit_eq_div) simp
qed

lemma word_of_bytes:
  "(push_bit 24 (ucast (of_nat (unat w div 16777216) :: byte)) OR push_bit 16 (ucast (of_nat (unat w div 65536) :: byte)) OR
    push_bit 8 (ucast (of_nat (unat w div 256) :: byte)) OR ucast (of_nat (unat w) :: byte)) = (w :: 32 word)"
proof (rule bit_eqI)
  fix n assume "possible_bit TYPE(32 word) n"
  then have n: "n < 32" by simp
  have d: "unat w div 16777216 = drop_bit 24 (unat w)" "unat w div 65536 = drop_bit 16 (unat w)"
    "unat w div 256 = drop_bit 8 (unat w)" by (simp_all add: drop_bit_eq_div)
  consider "n < 8" | "8 \<le> n" "n < 16" | "16 \<le> n" "n < 24" | "24 \<le> n" by linarith
  then show "bit (push_bit 24 (ucast (of_nat (unat w div 16777216) :: byte)) OR push_bit 16 (ucast (of_nat (unat w div 65536) :: byte)) OR
      push_bit 8 (ucast (of_nat (unat w div 256) :: byte)) OR ucast (of_nat (unat w) :: byte) :: 32 word) n = bit w n"
    unfolding d using n by cases (auto simp: bit_simps)
qed

lemma read_four_drop:
  assumes "drop (p + off) b = be_bytes 4 (unat w) @ r" "off + 4 < 65536"
  shows "read_four b p off = Some (w, off + 4)"
proof -
  have d0: "drop (p + off) b = of_nat (unat w div 16777216) # of_nat (unat w div 65536) # of_nat (unat w div 256) # of_nat (unat w) # r"
    using assms(1) by (simp add: be_bytes_four)
  have d1: "drop (p + (off + 1)) b = of_nat (unat w div 65536) # of_nat (unat w div 256) # of_nat (unat w) # r"
    using d0 drop_after [of "p + off" b "[of_nat (unat w div 16777216)]"] by (simp add: add.assoc)
  have d2: "drop (p + (off + 2)) b = of_nat (unat w div 256) # of_nat (unat w) # r"
    using d1 drop_after [of "p + (off + 1)" b "[of_nat (unat w div 65536)]"] by (simp add: add.assoc)
  have d3: "drop (p + (off + 3)) b = of_nat (unat w) # r"
    using d2 drop_after [of "p + (off + 2)" b "[of_nat (unat w div 256)]"] by (simp add: add.assoc numeral_3_eq_3)
  have "read_one b p off = Some (of_nat (unat w div 16777216), off + 1)"
    "read_one b p (off + 1) = Some (of_nat (unat w div 65536), off + 2)"
    "read_one b p (off + 2) = Some (of_nat (unat w div 256), off + 3)"
    "read_one b p (off + 3) = Some (of_nat (unat w), off + 4)"
    using assms(2) d0 d1 d2 d3 by (auto simp: read_one_def load_drop)
  then show ?thesis by (simp only: read_four_def bind.bind_lunit prod.case word_of_bytes)
qed

lemma read_string_drop:
  assumes "drop (p + off) b = utf8_field s @ r" "length s \<le> 16384" "off + 2 + length s \<le> plen" "plen < 65536"
  shows "read_string_len b p plen off = Some (Some (length s, off + 2))"
proof -
  have "read_two b p off = Some (length s, off + 2)"
    by (rule read_two_drop [of p off b "length s" "s @ r"]) (use assms in \<open>simp_all add: utf8_field_def\<close>)
  moreover have "2 \<le> plen - off" "length s \<le> plen - (off + 2)" using assms(3) by auto
  ultimately show ?thesis using assms(2,3) by (simp add: read_string_len_def mqtt5_property_has_bytes_def)
qed

lemma loop_step:
  assumes "drop (p + off) b = i # r" "off < plen" "plen < 65536" "sw i (off + 1) s = Some (True, off', s')"
  shows "property_loop sw b p plen off s = property_loop sw b p plen off' s'"
  using assms by (subst property_loop.simps) (simp add: read_one_drop)

lemma loop_end: "property_loop sw b p plen plen s = Some (True, plen, s)"
  by (subst property_loop.simps) simp

subsection \<open>The properties of a PUBLISH\<close>

abbreviation publish_loop :: "byte list \<Rightarrow> nat \<Rightarrow> nat \<Rightarrow> nat \<Rightarrow> publish_out \<times> heap \<Rightarrow> (bool \<times> nat \<times> publish_out \<times> heap) option" where
  "publish_loop b p plen \<equiv> property_loop (publish_switch b p plen) b p plen"

lemma has_bytes_iff: "mqtt5_property_has_bytes off n plen \<longleftrightarrow> off + n \<le> plen"
  by (auto simp: mqtt5_property_has_bytes_def)

text \<open>A chunk of the block at position \<open>off\<close>.\<close>

definition chunk_at :: "byte list \<Rightarrow> nat \<Rightarrow> nat \<Rightarrow> nat \<Rightarrow> byte list \<Rightarrow> bool" where
  "chunk_at b p plen off c \<longleftrightarrow> (\<exists>r. drop (p + off) b = c @ r) \<and> off + length c \<le> plen \<and> plen < 65536"

lemma chunk_at_append:
  assumes "chunk_at b p plen off (c @ d)"
  shows "chunk_at b p plen off c" "chunk_at b p plen (off + length c) d"
proof -
  obtain r where r: "drop (p + off) b = c @ d @ r" using assms by (auto simp: chunk_at_def)
  then show "chunk_at b p plen off c" using assms by (auto simp: chunk_at_def)
  have "drop (p + (off + length c)) b = d @ r" using drop_after [OF r refl] by (simp add: add.assoc)
  then show "chunk_at b p plen (off + length c) d" using assms by (auto simp: chunk_at_def)
qed

lemma chunk_at_Cons:
  assumes "chunk_at b p plen off (i # d)"
  obtains r where "drop (p + off) b = i # d @ r" "off < plen" "plen < 65536"
    "drop (p + (off + 1)) b = d @ r" "off + 1 + length d \<le> plen"
proof -
  obtain r where r: "drop (p + off) b = i # d @ r" using assms by (auto simp: chunk_at_def)
  moreover have "drop (p + (off + 1)) b = d @ r" using drop_after [of "p + off" b "[i]"] r by (simp add: add.assoc)
  ultimately show thesis using that assms by (auto simp: chunk_at_def)
qed

lemma on_resp_id:
  assumes "f (resp_property out) = resp_property out"
  shows "on_resp f (out, h) = (out, h)"
  using assms by (cases out) (simp add: on_resp_def)

lemma publish_indicator:
  assumes "chunk_at b p plen off (word_property 0x01 1 (if x then 1 else 0))" "\<not> pr_payload_format_indicator (resp_property (fst s))"
  shows "publish_loop b p plen off s = publish_loop b p plen (off + length (word_property 0x01 1 (if x then 1 else 0)))
    (on_resp (\<lambda>r. r\<lparr>pr_payload_format_indicator := x\<rparr>) s)"
proof (cases x)
  case True
  have w: "word_property 0x01 1 (if x then 1 else 0) = [1, 1]"
    using True by (simp add: word_property_def property_bytes_def be_bytes_def)
  from assms(1) obtain r where r: "drop (p + off) b = 1 # [1] @ r" "off < plen" "plen < 65536"
    "drop (p + (off + 1)) b = [1] @ r" "off + 1 + length [1 :: byte] \<le> plen"
    unfolding w by (rule chunk_at_Cons)
  have o: "read_one b p (off + 1) = Some (1, off + 2)" using read_one_drop [of p "off + 1" b 1 r] r by simp
  have sw: "publish_switch b p plen 1 (off + 1) s =
      Some (True, off + 2, on_resp (\<lambda>r. r\<lparr>pr_payload_format_indicator := x\<rparr>) s)"
    using r(5) o True by (simp add: publish_switch_def one_byte_def has_bytes_iff)
  then show ?thesis unfolding w using loop_step [where sw = "publish_switch b p plen", OF r(1-3) sw] by simp
next
  case False
  then show ?thesis
    using assms(2) on_resp_id [of "\<lambda>r. r\<lparr>pr_payload_format_indicator := x\<rparr>" "fst s" "snd s"]
    by (simp add: word_property_def)
qed

lemma publish_expiry:
  assumes "chunk_at b p plen off (word_property 0x02 4 (unat x))" "pr_message_expiry_interval (resp_property (fst s)) = 0"
  shows "publish_loop b p plen off s = publish_loop b p plen (off + length (word_property 0x02 4 (unat x)))
    (on_resp (\<lambda>r. r\<lparr>pr_message_expiry_interval := x\<rparr>) s)"
proof (cases "x = 0")
  case False
  then have w: "word_property 0x02 4 (unat x) = 2 # be_bytes 4 (unat x)"
    by (simp add: word_property_def property_bytes_def unat_eq_0)
  from assms(1) obtain r where r: "drop (p + off) b = 2 # be_bytes 4 (unat x) @ r" "off < plen" "plen < 65536"
    "drop (p + (off + 1)) b = be_bytes 4 (unat x) @ r" "off + 1 + length (be_bytes 4 (unat x)) \<le> plen"
    unfolding w by (rule chunk_at_Cons)
  have o: "read_four b p (off + 1) = Some (x, off + 5)" using read_four_drop [OF r(4)] r(3,5) by simp
  have sw: "publish_switch b p plen 2 (off + 1) s =
      Some (True, off + 5, on_resp (\<lambda>r. r\<lparr>pr_message_expiry_interval := x\<rparr>) s)"
    using r(5) o by (simp add: publish_switch_def four_bytes_def has_bytes_iff)
  then show ?thesis unfolding w using loop_step [where sw = "publish_switch b p plen", OF r(1-3) sw] by simp
next
  case True
  then show ?thesis
    using assms(2) on_resp_id [of "\<lambda>r. r\<lparr>pr_message_expiry_interval := x\<rparr>" "fst s" "snd s"]
    by (simp add: word_property_def)
qed

lemma publish_alias:
  assumes "chunk_at b p plen off (word_property 0x23 2 (unat x))" "pr_topic_alias (resp_property (fst s)) = 0"
  shows "publish_loop b p plen off s = publish_loop b p plen (off + length (word_property 0x23 2 (unat x)))
    (on_resp (\<lambda>r. r\<lparr>pr_topic_alias := x\<rparr>) s)"
proof (cases "x = 0")
  case False
  then have w: "word_property 0x23 2 (unat x) = 0x23 # be16 (unat x)"
    by (simp add: word_property_def property_bytes_def unat_eq_0 be_bytes_two)
  from assms(1) obtain r where r: "drop (p + off) b = 0x23 # be16 (unat x) @ r" "off < plen" "plen < 65536"
    "drop (p + (off + 1)) b = be16 (unat x) @ r" "off + 1 + length (be16 (unat x)) \<le> plen"
    unfolding w by (rule chunk_at_Cons)
  have o: "read_two b p (off + 1) = Some (unat x, off + 3)"
    using read_two_drop [OF r(4) unat_id_less] r(3,5) by simp
  have sw: "publish_switch b p plen 0x23 (off + 1) s =
      Some (True, off + 3, on_resp (\<lambda>r. r\<lparr>pr_topic_alias := x\<rparr>) s)"
    using r(5) o by (simp add: publish_switch_def two_bytes_def has_bytes_iff)
  then show ?thesis unfolding w using loop_step [where sw = "publish_switch b p plen", OF r(1-3) sw] by simp
next
  case True
  then show ?thesis
    using assms(2) on_resp_id [of "\<lambda>r. r\<lparr>pr_topic_alias := x\<rparr>" "fst s" "snd s"]
    by (simp add: word_property_def)
qed

lemma u16_small [simp]: "n < 65536 \<Longrightarrow> u16 n = n"
  by simp

text \<open>What a pointer into the buffer and a length stand for.\<close>

definition field_at :: "byte list \<Rightarrow> nat option \<Rightarrow> nat \<Rightarrow> byte list option" where
  "field_at b q n = map_option (\<lambda>i. take n (drop i b)) q"

lemma field_chunk:
  assumes "drop (p + off) b = be16 n @ t @ r" "n = length t"
  shows "field_at b (Some (p + (off + 2))) n = Some t"
  using drop_after [OF assms(1), of 2] assms(2) by (simp add: field_at_def add.assoc)

lemma publish_response_topic:
  assumes "chunk_at b p plen off (string_bytes 0x08 x)" "length (chars x) \<le> 16384"
    and "pr_response_topic (resp_property (fst s)) = None" "pr_response_topic_len (resp_property (fst s)) = 0"
  shows "\<exists>q. publish_loop b p plen off s = publish_loop b p plen (off + length (string_bytes 0x08 x))
    (on_resp (\<lambda>r. r\<lparr>pr_response_topic_len := length (chars x), pr_response_topic := q\<rparr>) s) \<and>
    field_at b q (length (chars x)) = x"
proof (cases x)
  case (Some t)
  have w: "string_bytes 0x08 x = 8 # utf8_field t" "chars x = t" using Some by (simp_all add: string_bytes_def chars_def)
  from assms(1) obtain r where r: "drop (p + off) b = 8 # utf8_field t @ r" "off < plen" "plen < 65536"
    "drop (p + (off + 1)) b = utf8_field t @ r" "off + 1 + length (utf8_field t) \<le> plen"
    unfolding w by (rule chunk_at_Cons)
  have d: "drop (p + (off + 1)) b = be16 (length t) @ t @ r" using r(4) by (simp add: utf8_field_def)
  have o: "read_two b p (off + 1) = Some (length t, off + 3)" using read_two_drop [OF d] r(3,5) by simp
  let ?q = "Some (p + (off + 3))"
  let ?s = "on_resp (\<lambda>r. r\<lparr>pr_response_topic_len := length t, pr_response_topic := ?q\<rparr>) s"
  have "on_resp (\<lambda>r. r\<lparr>pr_response_topic := ?q\<rparr>) (on_resp (\<lambda>r. r\<lparr>pr_response_topic_len := length t\<rparr>) s) = ?s"
    by (simp add: on_resp_def split_beta)
  then have sw: "publish_switch b p plen 8 (off + 1) s = Some (True, off + 3 + length t, ?s)"
    using r(3,5) o assms(2) w(2) by (simp add: publish_switch_def response_topic_case_def has_bytes_iff Let_def add.assoc)
  have f: "field_at b ?q (length t) = Some t" using field_chunk [OF d refl] by (simp add: numeral_3_eq_3)
  have e: "off + length (8 # utf8_field t) = off + 3 + length t" by simp
  show ?thesis unfolding w e
    using loop_step [where sw = "publish_switch b p plen", OF r(1-3) sw] f Some by (intro exI [of _ ?q]) simp
next
  case None
  then show ?thesis
    using assms(3,4) on_resp_id [of "\<lambda>r. r\<lparr>pr_response_topic_len := 0, pr_response_topic := None\<rparr>" "fst s" "snd s"]
    by (intro exI [of _ None]) (simp add: string_bytes_def chars_def field_at_def)
qed

lemma unchecked_slice_drop:
  assumes "drop (p + off) b = be16 (length t) @ t @ r" "off + 2 + length t < 65536"
  shows "unchecked_slice b p f off s = Some (True, off + 2 + length t, f (p + (off + 2)) (length t) s)"
  using read_two_drop [OF assms(1)] assms(2) by (simp add: unchecked_slice_def)

lemma publish_content_type:
  assumes "chunk_at b p plen off (string_bytes 0x03 x)"
    and "pr_content_type (resp_property (fst s)) = None" "pr_content_type_len (resp_property (fst s)) = 0"
  shows "\<exists>q. publish_loop b p plen off s = publish_loop b p plen (off + length (string_bytes 0x03 x))
    (on_resp (\<lambda>r. r\<lparr>pr_content_type_len := length (chars x), pr_content_type := q\<rparr>) s) \<and>
    field_at b q (length (chars x)) = x"
proof (cases x)
  case (Some t)
  have w: "string_bytes 0x03 x = 3 # utf8_field t" "chars x = t" using Some by (simp_all add: string_bytes_def chars_def)
  from assms(1) obtain r where r: "drop (p + off) b = 3 # utf8_field t @ r" "off < plen" "plen < 65536"
    "drop (p + (off + 1)) b = utf8_field t @ r" "off + 1 + length (utf8_field t) \<le> plen"
    unfolding w by (rule chunk_at_Cons)
  have d: "drop (p + (off + 1)) b = be16 (length t) @ t @ r" using r(4) by (simp add: utf8_field_def)
  let ?q = "Some (p + (off + 3))"
  let ?s = "on_resp (\<lambda>r. r\<lparr>pr_content_type_len := length t, pr_content_type := ?q\<rparr>) s"
  have sw: "publish_switch b p plen 3 (off + 1) s = Some (True, off + 3 + length t, ?s)"
    using unchecked_slice_drop [OF d] r(3,5) by (simp add: publish_switch_def numeral_3_eq_3)
  have f: "field_at b ?q (length t) = Some t" using field_chunk [OF d refl] by (simp add: numeral_3_eq_3)
  have e: "off + length (3 # utf8_field t) = off + 3 + length t" by simp
  show ?thesis unfolding w e
    using loop_step [where sw = "publish_switch b p plen", OF r(1-3) sw] f Some by (intro exI [of _ ?q]) simp
next
  case None
  then show ?thesis
    using assms(2,3) on_resp_id [of "\<lambda>r. r\<lparr>pr_content_type_len := 0, pr_content_type := None\<rparr>" "fst s" "snd s"]
    by (intro exI [of _ None]) (simp add: string_bytes_def chars_def field_at_def)
qed

lemma publish_correlation:
  assumes "chunk_at b p plen off (data_bytes 0x09 x n)" "n \<le> length (chars x)"
    and "pr_correlation_data (resp_property (fst s)) = None" "pr_correlation_data_len (resp_property (fst s)) = 0"
  shows "\<exists>q. publish_loop b p plen off s = publish_loop b p plen (off + length (data_bytes 0x09 x n))
    (on_resp (\<lambda>r. r\<lparr>pr_correlation_data_len := n, pr_correlation_data := q\<rparr>) s) \<and>
    field_at b q n = (if n = 0 then None else map_option (take n) x)"
proof (cases "x \<noteq> None \<and> n \<noteq> 0")
  case True
  then obtain d where xd: "x = Some d" by auto
  let ?t = "take n d"
  have w: "data_bytes 0x09 x n = 9 # utf8_field ?t" "length ?t = n"
    using True xd assms(2) by (simp_all add: data_bytes_def chars_def)
  from assms(1) obtain r where r: "drop (p + off) b = 9 # utf8_field ?t @ r" "off < plen" "plen < 65536"
    "drop (p + (off + 1)) b = utf8_field ?t @ r" "off + 1 + length (utf8_field ?t) \<le> plen"
    unfolding w by (rule chunk_at_Cons)
  have d: "drop (p + (off + 1)) b = be16 (length ?t) @ ?t @ r" using r(4) by (simp add: utf8_field_def)
  let ?q = "Some (p + (off + 3))"
  let ?s = "on_resp (\<lambda>r. r\<lparr>pr_correlation_data_len := n, pr_correlation_data := ?q\<rparr>) s"
  have sw: "publish_switch b p plen 9 (off + 1) s = Some (True, off + 3 + n, ?s)"
    using unchecked_slice_drop [OF d] r(3,5) w(2) by (simp add: publish_switch_def numeral_3_eq_3)
  have f: "field_at b ?q n = Some ?t" using field_chunk [OF d refl] w(2) by (simp add: numeral_3_eq_3)
  have e: "off + length (9 # utf8_field ?t) = off + 3 + n" using w(2) by simp
  show ?thesis unfolding w(1) e
    using loop_step [where sw = "publish_switch b p plen", OF r(1-3) sw] f xd True by (intro exI [of _ ?q]) simp
next
  case False
  then have n: "n = 0" using assms(2) by (auto simp: chars_def)
  then show ?thesis
    using assms(3,4) on_resp_id [of "\<lambda>r. r\<lparr>pr_correlation_data_len := 0, pr_correlation_data := None\<rparr>" "fst s" "snd s"]
    by (intro exI [of _ None]) (simp add: data_bytes_def field_at_def)
qed

text \<open>User properties are appended to the list one by one.\<close>

definition normal_item :: "mqtt5_user_property \<Rightarrow> mqtt5_user_property" where
  "normal_item i = \<lparr>key = c_str (key i), val = c_str (val i)\<rparr>"

definition add_items :: "mqtt5_user_property_handle \<Rightarrow> mqtt5_user_property list \<Rightarrow> mqtt5_user_property_handle" where
  "add_items h items = (if items = [] then h else Some ((case h of None \<Rightarrow> [] | Some l \<Rightarrow> l) @ map normal_item items))"

definition items_ok :: "mqtt5_user_property list \<Rightarrow> bool" where
  "items_ok items \<longleftrightarrow> (\<forall>i \<in> set items. length (c_str (key i)) \<le> 16384 \<and> length (c_str (val i)) \<le> 16384)"

lemma set_user_property_ok:
  "mqtt5_msg_set_user_property [] u k v = (ESP_OK, Some ((case u of None \<Rightarrow> [] | Some l \<Rightarrow> l) @ [\<lparr>key = k, val = v\<rparr>]), [])"
  by (auto simp: mqtt5_msg_set_user_property_def calloc_def Let_def split: option.splits)

lemma slice_drop: "drop i b = t @ r \<Longrightarrow> slice b i (length t) = Some t"
  by (simp add: slice_def fetch_def)

lemma user_property_case_drop:
  assumes "drop (p + off) b = utf8_field k @ utf8_field v @ r" "length k \<le> 16384" "length v \<le> 16384"
    and "off + 2 + length k + 2 + length v \<le> plen" "plen < 65536"
  shows "user_property_case b p plen off (u, []) =
    Some (True, off + 2 + length k + 2 + length v, Some ((case u of None \<Rightarrow> [] | Some l \<Rightarrow> l) @ [\<lparr>key = k, val = v\<rparr>]), [])"
proof -
  let ?off = "off + 2 + length k"
  have k: "read_string_len b p plen off = Some (Some (length k, off + 2))"
    by (rule read_string_drop [of p off b k "utf8_field v @ r"]) (use assms in auto)
  have "drop (p + off + (2 + length k)) b = utf8_field v @ r" by (rule drop_after [OF assms(1)]) simp
  then have d: "drop (p + ?off) b = utf8_field v @ r" by (simp add: add.assoc)
  have v: "read_string_len b p plen ?off = Some (Some (length v, ?off + 2))"
    by (rule read_string_drop [of p ?off b v r, OF d]) (use assms in auto)
  have "drop (p + off) b = be16 (length k) @ k @ utf8_field v @ r" using assms(1) by (simp add: utf8_field_def)
  from drop_after [OF this, of 2] have "slice b (p + (off + 2)) (length k) = Some k"
    by (intro slice_drop) (simp add: add.assoc)
  moreover have "drop (p + ?off) b = be16 (length v) @ v @ r" using d by (simp add: utf8_field_def)
  from drop_after [OF this, of 2] have "slice b (p + (?off + 2)) (length v) = Some v"
    by (intro slice_drop) (simp add: add.assoc)
  ultimately show ?thesis
    using k v assms(4,5) by (simp add: user_property_case_def set_user_property_ok add.assoc)
qed

lemma publish_items:
  assumes "chunk_at b p plen off (concat (map item_bytes items))" "items_ok items"
  shows "publish_loop b p plen off (out, []) = publish_loop b p plen (off + length (concat (map item_bytes items)))
    (out\<lparr>user_property_out := add_items (user_property_out out) items\<rparr>, [])"
  using assms
proof (induction items arbitrary: off out)
  case Nil
  then show ?case by (simp add: add_items_def)
next
  case (Cons i items)
  let ?k = "c_str (key i)" and ?v = "c_str (val i)"
  let ?n = "3 + length ?k + 2 + length ?v"
  have c: "chunk_at b p plen off (item_bytes i)" "chunk_at b p plen (off + length (item_bytes i)) (concat (map item_bytes items))"
    using chunk_at_append [of b p plen off "item_bytes i"] Cons.prems(1) by simp_all
  have n: "length (item_bytes i) = ?n" by (simp add: item_bytes_def)
  from c(1) obtain r where r: "drop (p + off) b = 0x26 # (utf8_field ?k @ utf8_field ?v) @ r" "off < plen" "plen < 65536"
    "drop (p + (off + 1)) b = (utf8_field ?k @ utf8_field ?v) @ r" "off + 1 + length (utf8_field ?k @ utf8_field ?v) \<le> plen"
    unfolding item_bytes_def by (rule chunk_at_Cons)
  let ?u = "Some ((case user_property_out out of None \<Rightarrow> [] | Some l \<Rightarrow> l) @ [\<lparr>key = ?k, val = ?v\<rparr>])"
  have "user_property_case b p plen (off + 1) (user_property_out out, []) = Some (True, off + ?n, ?u, [])"
    using user_property_case_drop [of p "off + 1" b ?k ?v r plen "user_property_out out"] r Cons.prems(2)
    by (simp add: items_ok_def add.commute add.left_commute)
  then have sw: "publish_switch b p plen 0x26 (off + 1) (out, []) = Some (True, off + ?n, out\<lparr>user_property_out := ?u\<rparr>, [])"
    by (simp add: publish_switch_def publish_user_property_def)
  have "publish_loop b p plen off (out, []) = publish_loop b p plen (off + ?n) (out\<lparr>user_property_out := ?u\<rparr>, [])"
    by (rule loop_step [where sw = "publish_switch b p plen", OF r(1-3) sw])
  also have "\<dots> = publish_loop b p plen (off + ?n + length (concat (map item_bytes items)))
      (out\<lparr>user_property_out := add_items ?u items\<rparr>, [])"
    using Cons.IH [OF c(2) [unfolded n], of "out\<lparr>user_property_out := ?u\<rparr>"] Cons.prems(2) by (simp add: items_ok_def)
  also have "add_items ?u items = add_items (user_property_out out) (i # items)"
    by (simp add: add_items_def normal_item_def)
  finally show ?case by (simp add: n add.assoc)
qed

definition empty_resp :: esp_mqtt5_publish_resp_property where
  "empty_resp = \<lparr>pr_payload_format_indicator = False, pr_message_expiry_interval = 0, pr_topic_alias = 0,
     pr_response_topic = None, pr_response_topic_len = 0, pr_correlation_data = None, pr_correlation_data_len = 0,
     pr_content_type = None, pr_content_type_len = 0, pr_subscribe_id = 0\<rparr>"

definition items_of :: "mqtt5_user_property_handle \<Rightarrow> mqtt5_user_property list" where
  "items_of h = (case h of None \<Rightarrow> [] | Some l \<Rightarrow> l)"

text \<open>The parsed properties are those of the configuration.\<close>

definition reads_back ::
  "byte list \<Rightarrow> esp_mqtt5_publish_resp_property \<Rightarrow> mqtt5_user_property_handle
     \<Rightarrow> esp_mqtt5_publish_property_config option \<Rightarrow> bool" where
  "reads_back b r u property \<longleftrightarrow>
     (case property of None \<Rightarrow> r = empty_resp \<and> u = None
      | Some p \<Rightarrow>
        pr_payload_format_indicator r = pp_payload_format_indicator p \<and>
        pr_message_expiry_interval r = pp_message_expiry_interval p \<and>
        pr_topic_alias r = pp_topic_alias p \<and>
        field_at b (pr_response_topic r) (pr_response_topic_len r) = pp_response_topic p \<and>
        field_at b (pr_correlation_data r) (pr_correlation_data_len r) =
          (if pp_correlation_data_len p = 0 then None
           else map_option (take (unat (pp_correlation_data_len p))) (pp_correlation_data p)) \<and>
        field_at b (pr_content_type r) (pr_content_type_len r) = pp_content_type p \<and>
        u = add_items None (items_of (pp_user_property p)) \<and> pr_subscribe_id r = 0)"

definition publish_config_ok :: "esp_mqtt5_publish_property_config option \<Rightarrow> bool" where
  "publish_config_ok property \<longleftrightarrow> publish_properties_ok property \<and>
     (case property of None \<Rightarrow> True
      | Some p \<Rightarrow> length (chars (pp_response_topic p)) \<le> 16384 \<and> items_ok (items_of (pp_user_property p)))"

lemma user_bytes_items: "user_bytes h = concat (map item_bytes (items_of h))"
  by (auto simp: user_bytes_def items_of_def split: option.splits)

lemma on_resp_chunks: "on_resp f (out, h) = (out\<lparr>resp_property := f (resp_property out)\<rparr>, h)"
  by (simp add: on_resp_def)

lemma publish_out_swap:
  "out\<lparr>user_property_out := u, resp_property := r\<rparr> = (out\<lparr>resp_property := r, user_property_out := u\<rparr> :: publish_out)"
  by (cases out) simp

lemma publish_block_parsed:
  assumes cfg: "publish_config_ok (Some c)"
    and at: "chunk_at b p plen 0 (publish_property_bytes (Some c) None)"
    and len: "plen = length (publish_property_bytes (Some c) None)"
    and out: "resp_property out = empty_resp" "user_property_out out = None"
  shows "\<exists>r u. publish_loop b p plen 0 (out, []) = Some (True, plen, out\<lparr>resp_property := r, user_property_out := u\<rparr>, []) \<and>
    reads_back b r u (Some c)"
proof -
  let ?c1 = "word_property 0x01 1 (if pp_payload_format_indicator c then 1 else 0)"
  let ?c2 = "word_property 0x02 4 (unat (pp_message_expiry_interval c))"
  let ?c3 = "word_property 0x23 2 (unat (pp_topic_alias c))"
  let ?c4 = "string_bytes 0x08 (pp_response_topic c)"
  let ?n = "unat (pp_correlation_data_len c)"
  let ?c5 = "data_bytes 0x09 (pp_correlation_data c) ?n"
  let ?items = "items_of (pp_user_property c)"
  let ?c6 = "concat (map item_bytes ?items)"
  let ?c7 = "string_bytes 0x03 (pp_content_type c)"
  have bytes: "publish_property_bytes (Some c) None = ?c1 @ ?c2 @ ?c3 @ ?c4 @ ?c5 @ ?c6 @ ?c7"
    by (simp add: publish_property_bytes_def response_topic_bytes_def nonempty_def user_bytes_items)
  have ok: "?n \<le> length (chars (pp_correlation_data c))" "length (chars (pp_response_topic c)) \<le> 16384" "items_ok ?items"
    using cfg by (simp_all add: publish_config_ok_def publish_properties_ok_def)
  define o1 where "o1 = length ?c1"
  define o2 where "o2 = o1 + length ?c2"
  define o3 where "o3 = o2 + length ?c3"
  define o4 where "o4 = o3 + length ?c4"
  define o5 where "o5 = o4 + length ?c5"
  define o6 where "o6 = o5 + length ?c6"
  note a1 = chunk_at_append [OF at [unfolded bytes], unfolded add_0 o1_def [symmetric]]
  note a2 = chunk_at_append [OF a1(2), folded o2_def]
  note a3 = chunk_at_append [OF a2(2), folded o3_def]
  note a4 = chunk_at_append [OF a3(2), folded o4_def]
  note a5 = chunk_at_append [OF a4(2), folded o5_def]
  note a6 = chunk_at_append [OF a5(2), folded o6_def]
  define r0 where "r0 = empty_resp\<lparr>pr_payload_format_indicator := pp_payload_format_indicator c,
     pr_message_expiry_interval := pp_message_expiry_interval c, pr_topic_alias := pp_topic_alias c\<rparr>"
  have "publish_loop b p plen 0 (out, []) = publish_loop b p plen o3 (out\<lparr>resp_property := r0\<rparr>, [])"
    using publish_indicator [OF a1(1), of "(out, [])", unfolded add_0, folded o1_def]
      publish_expiry [OF a2(1), folded o2_def] publish_alias [OF a3(1), folded o3_def] out(1)
    by (simp add: on_resp_chunks r0_def empty_resp_def)
  moreover obtain q4 where q4: "publish_loop b p plen o3 (out\<lparr>resp_property := r0\<rparr>, []) =
      publish_loop b p plen o4 (out\<lparr>resp_property := r0\<lparr>pr_response_topic_len := length (chars (pp_response_topic c)),
        pr_response_topic := q4\<rparr>\<rparr>, [])" "field_at b q4 (length (chars (pp_response_topic c))) = pp_response_topic c"
    using publish_response_topic [OF a4(1) ok(2), of "(out\<lparr>resp_property := r0\<rparr>, [])", folded o4_def]
    by (auto simp: on_resp_chunks r0_def empty_resp_def)
  moreover define r4 where "r4 = r0\<lparr>pr_response_topic_len := length (chars (pp_response_topic c)), pr_response_topic := q4\<rparr>"
  moreover obtain q5 where q5: "publish_loop b p plen o4 (out\<lparr>resp_property := r4\<rparr>, []) =
      publish_loop b p plen o5 (out\<lparr>resp_property := r4\<lparr>pr_correlation_data_len := ?n, pr_correlation_data := q5\<rparr>\<rparr>, [])"
      "field_at b q5 ?n = (if ?n = 0 then None else map_option (take ?n) (pp_correlation_data c))"
    using publish_correlation [OF a5(1) ok(1), of "(out\<lparr>resp_property := r4\<rparr>, [])", folded o5_def]
    by (auto simp: on_resp_chunks r4_def r0_def empty_resp_def)
  moreover define r5 where "r5 = r4\<lparr>pr_correlation_data_len := ?n, pr_correlation_data := q5\<rparr>"
  moreover have "publish_loop b p plen o5 (out\<lparr>resp_property := r5\<rparr>, []) =
      publish_loop b p plen o6 (out\<lparr>resp_property := r5, user_property_out := add_items None ?items\<rparr>, [])"
    using publish_items [OF a6(1) ok(3), of "out\<lparr>resp_property := r5\<rparr>", folded o6_def] out(2) by simp
  moreover obtain q7 where q7: "publish_loop b p plen o6 (out\<lparr>resp_property := r5, user_property_out := add_items None ?items\<rparr>, []) =
      publish_loop b p plen (o6 + length ?c7) (out\<lparr>resp_property := r5\<lparr>pr_content_type_len := length (chars (pp_content_type c)),
        pr_content_type := q7\<rparr>, user_property_out := add_items None ?items\<rparr>, [])"
      "field_at b q7 (length (chars (pp_content_type c))) = pp_content_type c"
    using publish_content_type [OF a6(2), of "(out\<lparr>resp_property := r5, user_property_out := add_items None ?items\<rparr>, [])"]
    by (auto simp: on_resp_chunks publish_out_swap r5_def r4_def r0_def empty_resp_def)
  moreover have "o6 + length ?c7 = plen"
    unfolding len bytes by (simp add: o1_def o2_def o3_def o4_def o5_def o6_def)
  ultimately have loop: "publish_loop b p plen 0 (out, []) = Some (True, plen,
      out\<lparr>resp_property := r5\<lparr>pr_content_type_len := length (chars (pp_content_type c)), pr_content_type := q7\<rparr>,
        user_property_out := add_items None ?items\<rparr>, [])"
    by (simp only: loop_end)
  have "reads_back b (r5\<lparr>pr_content_type_len := length (chars (pp_content_type c)), pr_content_type := q7\<rparr>)
      (add_items None ?items) (Some c)"
    using q4(2) q5(2) q7(2) by (simp add: reads_back_def r5_def r4_def r0_def empty_resp_def unat_eq_0)
  with loop show ?thesis by blast
qed

end
