(* ===== verification/Mqtt5_Message_Props.thy ===== *)
theory Mqtt5_Message_Props
  imports Mqtt5_Message_Parse Mqtt_Message_Props
begin

text \<open>
  The properties of the MQTT 5 codec: the composed packets, what the parsers read back from
  them, and that the parsers return and stay inside the received bytes.
\<close>

section \<open>The builders keep the contract of the 3.1.1 builders\<close>

lemma mqtt5_ack_builder:
  assumes "init_ok c" "mid \<noteq> 0" "8 \<le> buffer_length c"
  shows "\<exists>c'. mqtt5_ack_message ty qos c mid = Some c' \<and>
    composed c c' (if 5 + length (be16 (unat mid) @ [0, 0]) \<le> buffer_length c
      then packet ty 0 qos 0 (be16 (unat mid) @ [0, 0]) else [])"
  using mqtt5_ack_composes [OF assms(1), of mid mid "ids c" ty qos] assms(2,3) by (auto simp: next_id_def)

interpretation connect5: packet_builder "\<lambda>c. mqtt5_msg_connect c info p w"
    "\<lambda>c. will_ok info \<and> (nonempty (will_topic info) \<longrightarrow> will_properties_ok w) \<and> 15 \<le> buffer_length c \<and>
       small (length (mqtt5_connect_body info p w))" 1 0 "\<lambda>c. mqtt5_connect_body info p w" for info p w
proof (unfold_locales, goal_cases)
  case (2 c)
  then show ?case using mqtt5_msg_connect_composes [of info w c p] by blast
qed simp

interpretation puback5: packet_builder "\<lambda>c. mqtt5_msg_puback c mid" "\<lambda>c. mid \<noteq> 0 \<and> 8 \<le> buffer_length c" 4 0
    "\<lambda>c. be16 (unat mid) @ [0, 0]" for mid
  by unfold_locales (use mqtt5_ack_builder in \<open>auto simp: mqtt5_msg_puback_def cong: if_cong\<close>)

interpretation pubrec5: packet_builder "\<lambda>c. mqtt5_msg_pubrec c mid" "\<lambda>c. mid \<noteq> 0 \<and> 8 \<le> buffer_length c" 5 0
    "\<lambda>c. be16 (unat mid) @ [0, 0]" for mid
  by unfold_locales (use mqtt5_ack_builder in \<open>auto simp: mqtt5_msg_pubrec_def cong: if_cong\<close>)

interpretation pubrel5: packet_builder "\<lambda>c. mqtt5_msg_pubrel c mid" "\<lambda>c. mid \<noteq> 0 \<and> 8 \<le> buffer_length c" 6 1
    "\<lambda>c. be16 (unat mid) @ [0, 0]" for mid
  by unfold_locales (use mqtt5_ack_builder in \<open>auto simp: mqtt5_msg_pubrel_def cong: if_cong\<close>)

interpretation pubcomp5: packet_builder "\<lambda>c. mqtt5_msg_pubcomp c mid" "\<lambda>c. mid \<noteq> 0 \<and> 8 \<le> buffer_length c" 7 0
    "\<lambda>c. be16 (unat mid) @ [0, 0]" for mid
  by unfold_locales (use mqtt5_ack_builder in \<open>auto simp: mqtt5_msg_pubcomp_def cong: if_cong\<close>)

section \<open>Reading back acknowledgements\<close>

lemma ack5_read_back:
  fixes mid :: "16 word"
  assumes "ty \<in> {4, 5, 6, 7}" "qos \<in> {0, 1}"
  defines "b \<equiv> packet ty 0 qos 0 (be16 (unat mid) @ [0, 0])"
  shows "mqtt5_get_id b (length b) = Some (unat mid)" "mqtt5_msg_get_reason_code b (length b) = Some 0"
    "mqtt5_get_puback_data [] b (length b) u = Some (Some 4, 1, None, [])"
proof -
  have b: "b = [fixed_header_byte ty 0 qos 0, 4, of_nat (unat mid div 256), of_nat (unat mid), 0, 0]"
    by (simp add: b_def packet_def be16_def encode_length.simps)
  have t: "mqtt_get_type b = Some ty"
    using fixed_header_fields(1) [of ty 0 qos 0] assms(1,2) unfolding b by auto
  have e: "encode_length 4 = [4]" "encode_length 0 = [0]" by (simp_all add: encode_length.simps)
  have v: "get_variable_len b 1 n = Some (4, 1)" if "2 \<le> n" for n
    using get_variable_len_encode [of 1 "[fixed_header_byte ty 0 qos 0]" 4 n "drop 2 b"] that unfolding e by (simp add: b)
  have v0: "get_variable_len b 5 6 = Some (0, 1)"
    using get_variable_len_encode [of 5 "take 5 b" 0 6 "[]"] unfolding e by (simp add: b)
  have five: "(5 :: nat) = Suc (Suc (Suc (Suc (Suc 0))))" by simp
  have l: "length b = 6" "load b 2 = Some (of_nat (unat mid div 256))" "load b 3 = Some (of_nat (unat mid))" "load b 4 = Some 0"
    "load b (Suc (Suc (Suc (Suc 0)))) = Some 0"
    by (simp_all add: b load_def)
  show "mqtt5_get_id b (length b) = Some (unat mid)"
    unfolding mqtt5_get_id_def l(1) using t v [of 6] l assms(1) be16_val_unat [of mid]
    by (auto simp: numeral_2_eq_2 numeral_3_eq_3)
  show "mqtt5_msg_get_reason_code b (length b) = Some 0"
    unfolding mqtt5_msg_get_reason_code_def l(1) using t v [of 6] l assms(1) by auto
  show "mqtt5_get_puback_data [] b (length b) u = Some (Some 4, 1, None, [])"
    unfolding mqtt5_get_puback_data_def l(1) using v [of 6] v0 [unfolded five]
    by (simp add: mqtt5_msg_get_user_property_def property_loop.simps)
qed

text \<open>
  C36. The MQTT 5 acknowledgements: PUBACK, PUBREC, PUBREL and PUBCOMP are composed with a valid
  header, and the parsers read from them the identifier, the reason code 0 (success), the
  one reason byte and no user property.
\<close>

theorem acks5_roundtrip:
  assumes "init_ok c" "mid \<noteq> 0" "9 \<le> buffer_length c"
    and "(build, ty) \<in> {(mqtt5_msg_puback, 4), (mqtt5_msg_pubrec, 5), (mqtt5_msg_pubrel, 6), (mqtt5_msg_pubcomp, 7)}"
  shows "\<exists>c'. build c mid = Some c' \<and> init_ok c' \<and>
    (let b = message_bytes c'; len = out_length c' in
     mqtt_get_type b = Some ty \<and> mqtt_has_valid_msg_hdr b len = Some True \<and>
     map_option fst (mqtt_get_total_length b len) = Some len \<and>
     mqtt5_get_id b len = Some (unat mid) \<and> mqtt5_msg_get_reason_code b len = Some 0 \<and>
     mqtt5_get_puback_data [] b len u = Some (Some 4, 1, None, []))"
proof -
  have *: "\<exists>c'. mqtt5_ack_message t q c mid = Some c' \<and> init_ok c' \<and>
      message_bytes c' = packet t 0 q 0 (be16 (unat mid) @ [0, 0]) \<and> out_length c' = length (message_bytes c')" for t q
    using mqtt5_ack_builder [OF assms(1,2), of t q] assms(1,3) by (auto simp: composed_def init_ok_def)
  have **: "\<exists>q \<in> {0, 1}. build = mqtt5_ack_message ty q \<and>
      (ty, q) \<in> {(4, 0), (5, 0), (6, 1), (7, 0)} \<and> ty \<in> {4, 5, 6, 7}"
    using assms(4) by (auto simp: mqtt5_msg_puback_def mqtt5_msg_pubrec_def mqtt5_msg_pubrel_def mqtt5_msg_pubcomp_def)
  obtain q where q: "q \<in> {0, 1}" "build = mqtt5_ack_message ty q" "(ty, q) \<in> {(4, 0), (5, 0), (6, 1), (7, 0)}" "ty \<in> {4, 5, 6, 7}"
    using ** by blast
  obtain c' where c': "build c mid = Some c'" "init_ok c'"
    "message_bytes c' = packet ty 0 q 0 (be16 (unat mid) @ [0, 0])" "out_length c' = length (message_bytes c')"
    using * q(2) by blast
  let ?b = "packet ty 0 q 0 (be16 (unat mid) @ [0, 0])"
  have "mqtt_get_type ?b = Some ty" "mqtt_has_valid_msg_hdr ?b (length ?b) = Some True"
    using q(3) puback5.header_byte pubrec5.header_byte pubrel5.header_byte pubcomp5.header_byte by auto
  moreover have "map_option fst (mqtt_get_total_length ?b (length ?b)) = Some (length ?b)"
    using packet_total_length [of "be16 (unat mid) @ [0, 0]" ty 0 q 0] by simp
  ultimately show ?thesis
    using c' ack5_read_back [OF q(4,1), of mid] by (auto simp: Let_def)
qed

theorem acks5_roundtrip_witness:
  "\<exists>c'. mqtt5_msg_pubrel (sample_connection 16) 0x1234 = Some c' \<and>
     mqtt5_get_id (message_bytes c') (out_length c') = Some 0x1234 \<and>
     mqtt5_msg_get_reason_code (message_bytes c') (out_length c') = Some 0"
  using acks5_roundtrip [OF sample_init_ok [of 16], of "0x1234" mqtt5_msg_pubrel 6 None] by (auto simp: Let_def)

section \<open>CONNECT, SUBSCRIBE and UNSUBSCRIBE\<close>

text \<open>
  C18. MQTT 5 CONNECT: with room for the ten fixed bytes, \<open>mqtt5_msg_connect\<close> returns. The
  message is the packet of the connect information, with protocol name and level, flags and
  keepalive in front and the blocks of connect and will properties, each behind its own encoded length, if that fits the buffer, and empty
  otherwise; its header is valid and announces its length.
\<close>

theorem connect5_composed:
  fixes info p w
  defines "body \<equiv> mqtt5_connect_body info p w"
  assumes "init_ok c" "15 \<le> buffer_length c" "will_ok info" "nonempty (will_topic info) \<longrightarrow> will_properties_ok w"
    and "small (length body)"
  shows "\<exists>c'. mqtt5_msg_connect c info p w = Some c' \<and> init_ok c' \<and>
    (if 5 + length body \<le> buffer_length c
     then message_bytes c' = packet MQTT_MSG_TYPE_CONNECT 0 0 0 body \<and>
       mqtt_has_valid_msg_hdr (message_bytes c') (out_length c') = Some True \<and>
       map_option fst (mqtt_get_total_length (message_bytes c') (out_length c')) = Some (out_length c')
     else out_length c' = 0)"
proof -
  let ?ready = "will_ok info \<and> (nonempty (will_topic info) \<longrightarrow> will_properties_ok w) \<and> 15 \<le> buffer_length c \<and>
       small (length (mqtt5_connect_body info p w))"
  have r: ?ready using assms by simp
  obtain c' where c': "mqtt5_msg_connect c info p w = Some c'" using connect5.returns [OF assms(2) r] by blast
  have idle: "init_ok c'" and e: "out_length c' = 0 \<longleftrightarrow> buffer_length c < 5 + length body"
    using connect5.stays_idle [OF assms(2) r c'] connect5.empty_iff [OF assms(2) r c'] by (simp_all add: body_def)
  show ?thesis
  proof (cases "5 + length body \<le> buffer_length c")
    case True
    then have "out_length c' \<noteq> 0" using e by simp
    from connect5.self_describing [OF assms(2) r c' this] True c' idle show ?thesis by (simp add: body_def)
  next
    case False
    then show ?thesis using c' idle e by simp
  qed
qed

definition sample_storage :: esp_mqtt5_connection_property_storage where
  "sample_storage = \<lparr>cp_session_expiry_interval = 10, cp_maximum_packet_size = 0, cp_receive_maximum = 3,
     cp_topic_alias_maximum = 0, cp_request_resp_info = True, cp_request_problem_info = False,
     cp_user_property = Some [\<lparr>key = [0x61], val = [0x62]\<rparr>]\<rparr>"

definition sample_will_storage :: esp_mqtt5_connection_will_property_storage where
  "sample_will_storage = \<lparr>wp_will_delay_interval = 0, wp_message_expiry_interval = 0,
     wp_payload_format_indicator = False, wp_content_type = None, wp_response_topic = None,
     wp_correlation_data = None, wp_correlation_data_len = 0, wp_user_property = None\<rparr>"

definition sample_info5 :: mqtt_connect_info where
  "sample_info5 = \<lparr>client_id = Some [0x63], username = None, password = None, will_topic = None, will_message = None,
     keepalive = 120, will_length = 0, will_qos = 0, will_retain = False, clean_session = True,
     protocol_ver = MQTT_PROTOCOL_V_5\<rparr>"

lemma sample_connect_body:
  "mqtt5_connect_body sample_info5 sample_storage sample_will_storage =
     [0, 4, 0x4d, 0x51, 0x54, 0x54, 5, 2, 0, 120, 17, 0x11, 0, 0, 0, 10, 0x21, 0, 3, 0x19, 1,
      0x26, 0, 1, 0x61, 0, 1, 0x62, 0, 1, 0x63]"
  by (simp add: mqtt5_connect_body_def connect_property_bytes_def sample_info5_def sample_storage_def mqtt5_connect_header_def
      connect_flags_def nonempty_def chars_def block_bytes_def word_property_def property_bytes_def be_bytes_two be_bytes_four
      be_bytes_one [simplified] user_bytes_def item_bytes_def c_str_def utf8_field_def be16_def encode_length.simps)

theorem connect5_composed_witness:
  "\<exists>c'. mqtt5_msg_connect (sample_connection 64) sample_info5 sample_storage sample_will_storage = Some c' \<and>
     message_bytes c' = [0x10, 31, 0, 4, 0x4d, 0x51, 0x54, 0x54, 5, 2, 0, 120, 17, 0x11, 0, 0, 0, 10, 0x21, 0, 3, 0x19, 1,
      0x26, 0, 1, 0x61, 0, 1, 0x62, 0, 1, 0x63]"
proof -
  have "packet 1 0 0 0 (mqtt5_connect_body sample_info5 sample_storage sample_will_storage) =
    [0x10, 31, 0, 4, 0x4d, 0x51, 0x54, 0x54, 5, 2, 0, 120, 17, 0x11, 0, 0, 0, 10, 0x21, 0, 3, 0x19, 1,
      0x26, 0, 1, 0x61, 0, 1, 0x62, 0, 1, 0x63]"
    by (simp add: sample_connect_body packet_def fixed_header_byte_def encode_length.simps)
  moreover have "will_ok sample_info5" "\<not> nonempty (will_topic sample_info5)"
    by (simp_all add: will_ok_def sample_info5_def nonempty_def)
  moreover have "length (mqtt5_connect_body sample_info5 sample_storage sample_will_storage) = 31"
    by (simp add: sample_connect_body)
  ultimately show ?thesis
    using connect5_composed [OF sample_init_ok [of 64], of sample_info5 sample_will_storage sample_storage] by auto
qed

text \<open>
  C28. MQTT 5 SUBSCRIBE: \<open>mqtt5_msg_subscribe\<close> takes the next identifier and composes it, the
  block of properties and the filters in order, each with its options byte (\<open>option_byte\<close>: the QoS in
  bits 0 and 1, no local in bit 2, retain as published in bit 3, retain handling in bits 4 and 5) and behind
  \<^verbatim>\<open>$share/<name>/\<close> for a shared subscription; the message is empty when that does not fit.
\<close>

theorem subscribe5_composed:
  fixes property ts
  defines "body \<equiv> mqtt5_subscribe_body property ts"
  assumes "init_ok c" "next_id c 0 = Some (m, src)" "12 \<le> buffer_length c"
    and "\<forall>t \<in> set ts. subscribe_filter_ok property (topic_filter t)" "small (2 + length body)"
  shows "\<exists>c'. mqtt5_msg_subscribe [] c ts property = Some (c', m) \<and> m \<noteq> 0 \<and> ids c' = src \<and> init_ok c' \<and>
    (if 7 + length body \<le> buffer_length c
     then message_bytes c' = packet MQTT_MSG_TYPE_SUBSCRIBE 0 1 0 (be16 (unat m) @ body) \<and>
       mqtt_has_valid_msg_hdr (message_bytes c') (out_length c') = Some True \<and>
       mqtt5_get_id (message_bytes c') (out_length c') = Some (unat m)
     else out_length c' = 0)"
proof -
  obtain c' where c': "mqtt5_msg_subscribe [] c ts property = Some (c', m)" "ids c' = src" "m \<noteq> 0"
     "composed c c' (if 7 + length body \<le> buffer_length c then packet 8 0 1 0 (be16 (unat m) @ body) else [])"
    using mqtt5_msg_subscribe_composes [OF assms(2-5)] assms(6) unfolding body_def by blast
  have ok: "init_ok c'" using c'(4) assms(2) by (auto simp: composed_def init_ok_def)
  show ?thesis
  proof (cases "7 + length body \<le> buffer_length c")
    case True
    let ?b = "packet 8 0 1 0 (be16 (unat m) @ body)"
    have m: "message_bytes c' = ?b" "out_length c' = length ?b" using c'(4) True by (auto simp: composed_def)
    let ?e = "encode_length (2 + length body)"
    have b: "?b = [fixed_header_byte 8 0 1 0] @ ?e @ be16 (unat m) @ body" by (simp add: packet_def)
    have lb: "length ?b = 3 + length ?e + length body" by (simp add: packet_def)
    have v: "get_variable_len ?b 1 (length ?b) = Some (2 + length body, length ?e)"
      unfolding lb unfolding b by (rule get_variable_len_encode) (use assms(6) in auto)
    have t: "mqtt_get_type ?b = Some 8" using subscribe.header_byte(1) by simp
    have l: "load ?b (1 + length ?e) = Some (of_nat (unat m div 256))" "load ?b (1 + length ?e + 1) = Some (of_nat (unat m))"
      unfolding b by (simp_all add: load_def be16_def nth_append)
    have "mqtt5_get_id ?b (length ?b) = Some (unat m)"
      using v t l be16_val_unat [of m] by (simp add: mqtt5_get_id_def lb)
    then show ?thesis using True c' ok m subscribe.header_byte(2) by simp
  next
    case False
    then show ?thesis using c'(1-3) c'(4) [unfolded if_not_P [OF False]] ok by (simp only: if_False) (simp add: composed_def)
  qed
qed

definition sample_subscription :: esp_mqtt5_subscribe_property_config where
  "sample_subscription = \<lparr>sp_subscribe_id = 300, sp_no_local_flag = True, sp_retain_as_published_flag = False,
     sp_retain_handle = 2, sp_is_share_subscribe = True, sp_share_name = Some [0x67], sp_user_property = None\<rparr>"

lemma sample_subscribe_body:
  "mqtt5_subscribe_body (Some sample_subscription) [\<lparr>topic_filter = [0x61], topic_qos = 1\<rparr>] =
     [3, 0x0B, 0xAC, 2, 0, 10, 0x24, 0x73, 0x68, 0x61, 0x72, 0x65, 0x2f, 0x67, 0x2f, 0x61, 0x25]"
  by (simp add: mqtt5_subscribe_body_def subscribe_property_bytes_def mqtt5_topics_bytes_def subscribe_filter_def
      sample_subscription_def shared_name_def option_byte_def block_bytes_def user_bytes_def utf8_field_def be16_def
      chars_def encode_length.simps)

theorem subscribe5_composed_witness:
  "\<exists>c'. mqtt5_msg_subscribe [] (sample_connection 64) [\<lparr>topic_filter = [0x61], topic_qos = 1\<rparr>] (Some sample_subscription)
       = Some (c', 1) \<and>
     message_bytes c' = [0x82, 19, 0, 1, 3, 0x0B, 0xAC, 2, 0, 10, 0x24, 0x73, 0x68, 0x61, 0x72, 0x65, 0x2f, 0x67, 0x2f, 0x61, 0x25]"
proof -
  have "packet 8 0 1 0 (be16 (unat 1) @ mqtt5_subscribe_body (Some sample_subscription) [\<lparr>topic_filter = [0x61], topic_qos = 1\<rparr>])
    = [0x82, 19, 0, 1, 3, 0x0B, 0xAC, 2, 0, 10, 0x24, 0x73, 0x68, 0x61, 0x72, 0x65, 0x2f, 0x67, 0x2f, 0x61, 0x25]"
    by (simp add: sample_subscribe_body packet_def be16_def fixed_header_byte_def encode_length.simps)
  moreover have "subscribe_filter_ok (Some sample_subscription) [0x61]"
    by (simp add: subscribe_filter_ok_def shared_ok_def sample_subscription_def chars_def)
  moreover have "length (mqtt5_subscribe_body (Some sample_subscription) [\<lparr>topic_filter = [0x61], topic_qos = 1\<rparr>]) = 17"
    by (simp add: sample_subscribe_body)
  ultimately show ?thesis
    using subscribe5_composed [OF sample_init_ok sample_next_id, of 64 "[\<lparr>topic_filter = [0x61], topic_qos = 1\<rparr>]" "Some sample_subscription"]
    by auto
qed

section \<open>PUBLISH\<close>

lemma no_properties_parsed:
  assumes "resp_property out = empty_resp" "user_property_out out = None"
  shows "\<exists>r u. publish_loop b p 0 0 (out, []) = Some (True, 0, out\<lparr>resp_property := r, user_property_out := u\<rparr>, []) \<and>
    reads_back b r u None"
  using assms loop_end [of _ b p 0 "(out, [])"]
  by (intro exI [of _ empty_resp] exI [of _ None]) (cases out, simp add: reads_back_def)

lemma publish_properties_parsed:
  assumes "publish_config_ok property" "length (publish_property_bytes property None) < 65536"
    and "drop p b = publish_property_bytes property None @ rest"
    and "resp_property out = empty_resp" "user_property_out out = None"
  shows "\<exists>r u. publish_loop b p (length (publish_property_bytes property None)) 0 (out, []) =
      Some (True, length (publish_property_bytes property None), out\<lparr>resp_property := r, user_property_out := u\<rparr>, []) \<and>
    reads_back b r u property"
proof (cases property)
  case None
  then show ?thesis using no_properties_parsed [OF assms(4,5)] by (simp add: publish_property_bytes_def)
next
  case (Some c)
  have "chunk_at b p (length (publish_property_bytes (Some c) None)) 0 (publish_property_bytes (Some c) None)"
    using assms(2,3) Some by (auto simp: chunk_at_def)
  from publish_block_parsed [OF _ this refl assms(4,5)] assms(1) Some show ?thesis by simp
qed

lemma publish5_parsed:
  fixes topic mid property data qos retain out
  defines "props \<equiv> publish_property_bytes property None"
  defines "body \<equiv> publish_body topic mid (block_bytes props @ data)"
  defines "b \<equiv> packet 3 0 qos retain body"
  assumes cfg: "publish_config_ok property" "length props < 65536" "small (length body)"
    and q: "0 \<le> qos" "qos < 3" "retain \<in> {0, 1}" "mid \<noteq> None \<longleftrightarrow> qos > 0" and t: "length topic < 65536"
    and out: "resp_property out = empty_resp"
  shows "\<exists>off out'. mqtt5_get_publish_property_payload [] b (length b) out = Some (Some off, out', []) \<and>
     payload_len_out out' = of_nat (length data) \<and> drop off b = data \<and>
     msg_topic_len out' = length topic \<and> take (length topic) (drop (msg_topic out') b) = topic \<and>
     property_len_out out' = length props \<and>
     reads_back b (resp_property out') (user_property_out out') property"
    and "mqtt5_get_id b (length b) = Some (case mid of None \<Rightarrow> 0 | Some m \<Rightarrow> unat m)"
proof -
  let ?h = "[fixed_header_byte 3 0 qos retain]" and ?e = "encode_length (length body)" and ?pe = "encode_length (length props)"
  let ?idb = "case mid of None \<Rightarrow> [] | Some m \<Rightarrow> be16 (unat m)"
  have b: "b = ?h @ ?e @ be16 (length topic) @ topic @ ?idb @ ?pe @ props @ data"
    by (simp add: b_def packet_def body_def publish_body_def utf8_field_def block_bytes_def)
  define o1 where "o1 = 1 + length ?e"
  define o2 where "o2 = o1 + 2 + length topic"
  define o3 where "o3 = o2 + length ?idb"
  define p where "p = o3 + length ?pe"
  have idl: "length ?idb = (if qos > 0 then 2 else 0)" using q(4) by (auto split: option.splits)
  have ne: "0 < length ?pe" by (rule length_encode_length_pos)
  have lb: "length b = p + length props + length data" "length body + o1 = length b"
    by (simp_all add: b body_def publish_body_def utf8_field_def block_bytes_def p_def o3_def o2_def o1_def)
  have sm: "small (length props)" using cfg(2) by simp
  have v1: "get_variable_len b 1 (length b) = Some (length body, length ?e)"
    using get_variable_len_encode [of 1 ?h "length body" "length b" "be16 (length topic) @ topic @ ?idb @ ?pe @ props @ data"]
      cfg(3) lb(2) by (simp add: b o1_def)
  have v2: "get_variable_len b o3 (length b) = Some (length props, length ?pe)"
    using get_variable_len_encode [of o3 "?h @ ?e @ be16 (length topic) @ topic @ ?idb" "length props" "length b" "props @ data"]
      sm lb(1) by (simp add: b o3_def o2_def o1_def p_def)
  have l: "load b o1 = Some (of_nat (length topic div 256))" "load b (o1 + 1) = Some (of_nat (length topic))"
    unfolding b by (simp_all add: load_def be16_def nth_append o1_def)
  have tl: "be16_val (of_nat (length topic div 256)) (of_nat (length topic)) = length topic" by (rule be16_val_be16 [OF t])
  have qs: "mqtt_get_qos b = Some (nat qos)"
    using fixed_header_fields(2) [of 3 0 qos retain] q(1-3) by (auto simp: b)
  have dp: "drop p b = props @ data"
    by (simp add: b p_def o3_def o2_def o1_def)
  have dt: "take (length topic) (drop (o1 + 2) b) = topic"
    by (simp add: b o1_def)
  let ?out = "out\<lparr>user_property_out := None, msg_topic := o1 + 2, msg_topic_len := length topic, property_len_out := length props\<rparr>"
  obtain r u where lp: "publish_loop b p (length props) 0 (?out, []) =
      Some (True, length props, ?out\<lparr>resp_property := r, user_property_out := u\<rparr>, [])" "reads_back b r u property"
    using publish_properties_parsed [OF cfg(1,2) [unfolded props_def] dp [unfolded props_def], of ?out] out
    unfolding props_def by auto
  have g: "\<not> length b \<le> o2" "\<not> (0 < nat qos \<and> length b \<le> o2 + 2)" "(if 0 < nat qos then o2 + 2 else o2) = o3"
    "length body + o1 \<le> length b" "u16 (length props) = length props"
    using ne idl lb cfg(2) by (auto simp: p_def o3_def)
  have pl: "(of_nat (length body + o1) - of_nat (p + length props) :: 32 word) = of_nat (length data)"
    unfolding lb(2) lb(1) by simp
  have "mqtt5_get_publish_property_payload [] b (length b) out =
     Some (Some (p + length props), ?out\<lparr>resp_property := r, user_property_out := u, payload_len_out := of_nat (length data)\<rparr>, [])"
    by (simp only: mqtt5_get_publish_property_payload_def Let_def v1 bind.bind_lunit prod.case flip: o1_def)
       (simp only: l bind.bind_lunit tl if_not_P [OF g(1)] if_not_P [OF g(2)] qs g(3,5) v2 prod.case lp(1) not_True_eq_False
          if_False if_P [OF g(4)] pl flip: o2_def p_def)
  moreover have "drop (p + length props) b = data" by (rule drop_after [OF dp refl])
  ultimately show "\<exists>off out'. mqtt5_get_publish_property_payload [] b (length b) out = Some (Some off, out', []) \<and>
     payload_len_out out' = of_nat (length data) \<and> drop off b = data \<and>
     msg_topic_len out' = length topic \<and> take (length topic) (drop (msg_topic out') b) = topic \<and>
     property_len_out out' = length props \<and>
     reads_back b (resp_property out') (user_property_out out') property"
    using lp(2) dt by auto
  have ty: "mqtt_get_type b = Some 3" using fixed_header_fields(1) [of 3 0 qos retain] q(1-3) by (auto simp: b)
  have id: "load b o2 = Some (of_nat (unat m div 256)) \<and> load b (o2 + 1) = Some (of_nat (unat m))" if "mid = Some m" for m
    unfolding b that by (simp add: load_def be16_def nth_append o2_def o1_def)
  have ln: "\<not> length b < o1 + 2" "qos > 0 \<Longrightarrow> \<not> length b < o2 + 2" using ne idl lb by (auto simp: p_def o3_def o2_def)
  have run: "mqtt5_get_id b (length b) = (if length b < o2 + 2 then Some 0 else if nat qos = 0 then Some 0
      else do { h \<leftarrow> load b o2; l \<leftarrow> load b (o2 + 1); Some (be16_val h l) })"
    by (simp only: mqtt5_get_id_def v1 bind.bind_lunit prod.case Let_def flip: o1_def)
       (simp only: if_not_P [OF ln(1)] ty l tl qs bind.bind_lunit Let_def simp_thms if_True flip: o2_def)
  show "mqtt5_get_id b (length b) = Some (case mid of None \<Rightarrow> 0 | Some m \<Rightarrow> unat m)"
  proof (cases mid)
    case None
    then have "qos = 0" using q(1,4) by simp
    then show ?thesis using None by (simp add: run)
  next
    case (Some m)
    then have "qos > 0" using q(4) by simp
    then show ?thesis using ln(2) id [OF Some] Some be16_val_be16 [of "unat m"] unsigned_less [of m] by (simp add: run)
  qed
qed

text \<open>
  What of the properties arrives. With a response information from the broker the response topic
  is sent as topic and information with a slash between them, in a block that is one byte too
  short for them: a zero byte takes the place of the last one.
\<close>

definition published_property ::
  "esp_mqtt5_publish_property_config option \<Rightarrow> cstring option \<Rightarrow> esp_mqtt5_publish_property_config option" where
  "published_property property resp_info =
     map_option (\<lambda>p. if pp_response_topic p \<noteq> None \<and> nonempty resp_info
       then p\<lparr>pp_response_topic := Some (butlast (chars (pp_response_topic p) @ [0x2f] @ chars resp_info) @ [0])\<rparr> else p) property"

lemma published_property_same:
  "topic_given topic (published_property property info) = topic_given topic property"
  "publish_properties_ok (published_property property info) = publish_properties_ok property"
  by (auto simp: published_property_def topic_given_def publish_properties_ok_def split: option.split)

lemma published_property_bytes:
  assumes "publish_config_ok (published_property property info)"
  shows "publish_property_bytes (published_property property info) None = publish_property_bytes property info"
proof (cases property)
  case (Some p)
  let ?s = "chars (pp_response_topic p) @ [0x2f] @ chars info"
  have "response_topic_bytes (Some (butlast ?s @ [0])) None = response_topic_bytes (pp_response_topic p) info"
    if g: "pp_response_topic p \<noteq> None" "nonempty info"
  proof -
    have n: "length ?s < 65536" using assms g by (simp add: Some published_property_def publish_config_ok_def chars_def)
    then have "snprintf_block ((length (chars (pp_response_topic p)) + length (chars info) + 1) mod 65536) ?s = butlast ?s @ [0]"
      by (simp add: snprintf_block_def butlast_conv_take)
    then show ?thesis using g by (simp add: response_topic_bytes_def string_bytes_def nonempty_def)
  qed
  moreover have "response_topic_bytes (pp_response_topic p) None = response_topic_bytes (pp_response_topic p) info"
    if "\<not> (pp_response_topic p \<noteq> None \<and> nonempty info)"
    using that by (auto simp: response_topic_bytes_def string_bytes_def nonempty_def)
  ultimately show ?thesis by (auto simp: publish_property_bytes_def published_property_def Some)
qed (simp add: published_property_def publish_property_bytes_def)

text \<open>
  C7. An MQTT 5 PUBLISH that fits the buffer is parsed back: \<open>mqtt5_get_publish_property_payload\<close>
  finds the topic, every property of the configuration (indicator, expiry, alias, response
  topic, correlation data, content type, the user properties in order) and the payload,
  whatever subset of the properties is set, and \<open>mqtt5_get_id\<close> reads the identifier that
  \<open>mqtt5_msg_publish\<close> returned. One property does not arrive as it was set: if the broker gave
  a response information, the response topic is followed by a slash and the information, and
  the last byte of these is a zero byte instead (\<open>published_property\<close>). The block of properties
  has fewer than 65536 bytes, the response topic at most 16384, and its allocation succeeds.
\<close>

theorem publish5_roundtrip:
  fixes topic m qos property resp_info data data_length
  defines "d \<equiv> take data_length (chars data)"
  defines "body \<equiv> publish_body (chars topic) (if qos > 0 then Some m else None)
     (block_bytes (publish_property_bytes property resp_info) @ d)"
  assumes c: "init_ok c" and t: "topic_given topic property" "length (chars topic) < 65536"
    and d: "data_length \<le> length (chars data)"
    and id: "qos > 0 \<longrightarrow> next_id c 0 = Some (m, src)" and q: "0 \<le> qos" "qos < 3" "retain \<in> {0, 1}"
    and cfg: "publish_config_ok (published_property property resp_info)" "length (publish_property_bytes property resp_info) < 65536"
    and sm: "small (length body)" and fits: "5 + length body \<le> buffer_length c"
    and out: "resp_property out = empty_resp"
  shows "\<exists>c' off out'. mqtt5_msg_publish c topic data (int data_length) qos retain mid0 property resp_info True =
       Some (c', if qos > 0 then m else 0) \<and> init_ok c' \<and>
     (let b = message_bytes c'; len = out_length c' in
      mqtt_get_type b = Some MQTT_MSG_TYPE_PUBLISH \<and> mqtt_get_qos b = Some (nat qos) \<and>
      mqtt5_get_id b len = Some (if qos > 0 then unat m else 0) \<and>
      mqtt5_get_publish_property_payload [] b len out = Some (Some off, out', []) \<and>
      payload_len_out out' = of_nat data_length \<and> drop off b = d \<and>
      msg_topic_len out' = length (chars topic) \<and> take (length (chars topic)) (drop (msg_topic out') b) = chars topic \<and>
      reads_back b (resp_property out') (user_property_out out') (published_property property resp_info))"
proof -
  let ?b = "packet 3 0 qos retain body" and ?p = "published_property property resp_info"
  have bytes: "publish_property_bytes ?p None = publish_property_bytes property resp_info"
    by (rule published_property_bytes [OF cfg(1)])
  have pr: "publish_properties_ok property" using cfg(1) by (simp add: publish_config_ok_def published_property_same)
  obtain c' where c': "mqtt5_msg_publish c topic data (int data_length) qos retain mid0 property resp_info True =
      Some (c', if qos > 0 then m else 0)" "composed c c' ?b"
    using mqtt5_msg_publish_composes [OF c t(1) d id pr, of resp_info retain mid0] sm fits unfolding body_def d_def by blast
  have b: "message_bytes c' = ?b" "out_length c' = length ?b" "init_ok c'"
    using c'(2) c by (auto simp: composed_def init_ok_def)
  have mid: "(if qos > 0 then Some m else None) \<noteq> None \<longleftrightarrow> qos > 0" by simp
  have hd: "mqtt_get_type ?b = Some 3" "mqtt_get_qos ?b = Some (nat qos)"
    using fixed_header_fields [of 3 0 qos retain] q by (auto simp: packet_def)
  have ld: "length d = data_length" using d by (simp add: d_def)
  note parsed = publish5_parsed [OF cfg(1) _ _ q mid t(2) out, where data = d, unfolded bytes, folded body_def, OF cfg(2) sm]
  have "mqtt5_get_id ?b (length ?b) = Some (if qos > 0 then unat m else 0)" using parsed(2) by simp
  moreover obtain off out' where "mqtt5_get_publish_property_payload [] ?b (length ?b) out = Some (Some off, out', [])"
     "payload_len_out out' = of_nat (length d)" "drop off ?b = d"
     "msg_topic_len out' = length (chars topic)" "take (length (chars topic)) (drop (msg_topic out') ?b) = chars topic"
     "reads_back ?b (resp_property out') (user_property_out out') ?p"
    using parsed(1) by blast
  ultimately show ?thesis
    unfolding Let_def b(1,2) using c'(1) b(3) hd ld
    by (intro exI [of _ c'] exI [of _ off] exI [of _ out']) (simp add: b(1,2))
qed

definition sample_publish :: esp_mqtt5_publish_property_config where
  "sample_publish = \<lparr>pp_payload_format_indicator = True, pp_message_expiry_interval = 60, pp_topic_alias = 7,
     pp_response_topic = Some [0x72], pp_correlation_data = Some [1, 2, 3], pp_correlation_data_len = 2,
     pp_content_type = Some [0x74], pp_user_property = Some [\<lparr>key = [0x61], val = [0x62]\<rparr>]\<rparr>"

definition sample_out :: publish_out where
  "sample_out = \<lparr>msg_topic = 0, msg_topic_len = 0, resp_property = empty_resp, property_len_out = 0,
     payload_len_out = 0, user_property_out = None\<rparr>"

lemma sample_publish_bytes:
  "publish_property_bytes (Some sample_publish) (Some [0x69, 0x6a]) =
     [1, 1, 2, 0, 0, 0, 60, 0x23, 0, 7, 8, 0, 4, 0x72, 0x2f, 0x69, 0, 9, 0, 2, 1, 2, 0x26, 0, 1, 0x61, 0, 1, 0x62, 3, 0, 1, 0x74]"
  by (simp add: publish_property_bytes_def sample_publish_def word_property_def property_bytes_def be_bytes_two be_bytes_four
      be_bytes_one [simplified] response_topic_bytes_def nonempty_def string_bytes_def data_bytes_def user_bytes_def item_bytes_def
      c_str_def utf8_field_def be16_def chars_def snprintf_block_def)

lemma sample_published:
  "published_property (Some sample_publish) (Some [0x69, 0x6a]) = Some (sample_publish\<lparr>pp_response_topic := Some [0x72, 0x2f, 0x69, 0]\<rparr>)"
  by (simp add: published_property_def sample_publish_def chars_def nonempty_def)

lemma sample_publish_ok: "publish_config_ok (published_property (Some sample_publish) (Some [0x69, 0x6a]))"
  unfolding sample_published by (simp add: publish_config_ok_def publish_properties_ok_def sample_publish_def chars_def items_ok_def items_of_def c_str_def)

theorem publish5_roundtrip_witness:
  "\<exists>c' off out'. mqtt5_msg_publish (sample_connection 64) (Some [0x61]) (Some [5, 6]) 2 1 0 0 (Some sample_publish) (Some [0x69, 0x6a]) True
       = Some (c', 1) \<and> mqtt5_get_id (message_bytes c') (out_length c') = Some 1 \<and>
     mqtt5_get_publish_property_payload [] (message_bytes c') (out_length c') sample_out = Some (Some off, out', []) \<and>
     drop off (message_bytes c') = [5, 6] \<and> payload_len_out out' = 2 \<and>
     pr_topic_alias (resp_property out') = 7 \<and>
     field_at (message_bytes c') (pr_response_topic (resp_property out')) (pr_response_topic_len (resp_property out')) = Some [0x72, 0x2f, 0x69, 0] \<and>
     user_property_out out' = Some [\<lparr>key = [0x61], val = [0x62]\<rparr>]"
proof -
  let ?body = "publish_body (chars (Some [0x61])) (Some 1) (block_bytes (publish_property_bytes (Some sample_publish) (Some [0x69, 0x6a])) @
     take 2 (chars (Some [5, 6])))"
  have l: "length (publish_property_bytes (Some sample_publish) (Some [0x69, 0x6a])) = 33" "length ?body = 41"
    by (simp_all add: sample_publish_bytes publish_body_def block_bytes_def utf8_field_def chars_def encode_length.simps)
  have t: "topic_given (Some [0x61]) (Some sample_publish)" by (simp add: topic_given_def nonempty_def)
  have o: "resp_property sample_out = empty_resp" by (simp add: sample_out_def)
  have r: "reads_back b r u (published_property (Some sample_publish) (Some [0x69, 0x6a])) \<Longrightarrow>
      pr_topic_alias r = 7 \<and> u = Some [\<lparr>key = [0x61], val = [0x62]\<rparr>] \<and>
      field_at b (pr_response_topic r) (pr_response_topic_len r) = Some [0x72, 0x2f, 0x69, 0]" for b r u
    unfolding sample_published by (auto simp: reads_back_def sample_publish_def add_items_def items_of_def normal_item_def c_str_def)
  show ?thesis
    using publish5_roundtrip [OF sample_init_ok [of 64] t _ _ _ _ _ _ sample_publish_ok _ _ _ o,
        where data = "Some [5, 6]" and data_length = 2 and qos = 1 and m = 1 and src = "Incremental 1" and retain = 0 and ?mid0.0 = 0] r l
    by (auto simp: sample_next_id chars_def Let_def)
qed

text \<open>
  A publish without payload but with a negative length: added to the length of the message it wraps around, and the
  payload is read through the null pointer. MQTT 3.1.1 composes the empty message.
\<close>

lemma publish5_negative_length:
  "mqtt5_msg_publish (sample_connection 64) (Some [0x61]) None (-100) 0 0 0 None None True = None"
  by code_simp

section \<open>The parsers return\<close>

lemma user_property_returns:
  assumes "p + n \<le> length b" "n < 65536"
  obtains u h' where "mqtt5_msg_get_user_property h b p n = Some (u, h')"
proof -
  obtain ok off u h' where "property_loop (user_property_switch b p n) b p n 0 (None, h) = Some (ok, off, u, h')"
    using user_properties.loop_returns [of p n b 0 "(None, h)"] assms by auto
  then show thesis using that by (simp add: mqtt5_msg_get_user_property_def)
qed

lemma get_variable_len_outside: "blen \<le> offset \<Longrightarrow> get_variable_len b offset blen = Some (0, 0)"
  by (simp add: get_variable_len_def variable_len_loop.simps)

text \<open>
  C30. The CONNACK parser returns: for every content of the receive buffer, outcome of every
  allocation and earlier state, \<open>mqtt5_msg_parse_connack_property\<close> ends and reads no more than
  four bytes behind the received message, given that its loop position cannot wrap around
  (fewer than 65532 bytes) and that the stored response information was not freed before.
\<close>

theorem connack_parser_returns:
  assumes "blen + 4 \<le> length b" "blen + 4 < 65536" "sr_response_info (server_resp out) \<noteq> Freed"
  shows "\<exists>err out' h'. mqtt5_msg_parse_connack_property h b blen out = Some (err, out', h') \<and>
    (err = ESP_OK \<longrightarrow> sr_response_info (server_resp out') \<noteq> Freed)"
proof -
  have bl: "blen \<le> length b" using assms(1) by simp
  let ?out = "out\<lparr>reason_code := 0, connack_user_property := None\<rparr>"
  obtain len n where v: "get_variable_len b 1 blen = Some (len, n)" "n \<le> 4" "1 + n \<le> max blen 1"
    using get_variable_len_total [OF bl] by metis
  show ?thesis
  proof (cases "len + (1 + n) > blen")
    case True
    then show ?thesis using v(1) by (simp add: mqtt5_msg_parse_connack_property_def)
  next
    case False
    have in2: "1 + n + 1 < length b" using v(3) assms(1) by (simp add: max_def split: if_splits)
    let ?out1 = "?out\<lparr>ack_flag := b ! (1 + n), reason_code := uint (b ! (1 + n + 1))\<rparr>"
    obtain plen k where k: "get_variable_len b (1 + n + 2) blen = Some (plen, k)" "1 + n + 2 + k \<le> max blen (1 + n + 2)"
      "blen \<le> 1 + n + 2 \<Longrightarrow> plen = 0"
      using get_variable_len_total [OF bl, of "1 + n + 2"] get_variable_len_outside [of blen "1 + n + 2" b]
      by (metis nle_le option.inject prod.inject)
    let ?p = "1 + n + 2 + k"
    have run: "mqtt5_msg_parse_connack_property h b blen out =
      (if plen > unat (of_nat blen - of_nat ?p :: 32 word) then Some (ESP_FAIL, ?out1, h)
       else do { (ok, _, o', h') \<leftarrow> property_loop (connack_switch b ?p plen) b ?p plen 0 (?out1, h);
                 Some (if ok then ESP_OK else ESP_FAIL, o', h') })"
      using v(1) False in2 k(1) by (simp add: mqtt5_msg_parse_connack_property_def load_def)
    show ?thesis
    proof (cases "plen > unat (of_nat blen - of_nat ?p :: 32 word)")
      case True
      then show ?thesis using run by simp
    next
      case ok: False
      obtain okk off out' h' where l: "property_loop (connack_switch b ?p plen) b ?p plen 0 (?out1, h) = Some (okk, off, out', h')"
        "okk \<longrightarrow> sr_response_info (server_resp out') \<noteq> Freed"
      proof (cases "plen = 0")
        case True
        then show thesis using that assms(3) by (simp add: property_loop.simps)
      next
        case False
        then have le: "?p \<le> blen" using k(2,3) by (auto simp: max_def split: if_splits)
        then have "(of_nat blen - of_nat ?p :: 32 word) = of_nat (blen - ?p)" by (simp add: of_nat_diff)
        moreover have "unat (of_nat (blen - ?p) :: 32 word) \<le> blen - ?p" by (simp add: unat_of_nat take_bit_eq_mod)
        ultimately have "plen \<le> blen - ?p" using ok by simp
        then have fits: "?p + plen + 4 \<le> length b" "plen + 4 < 65536" using assms(1,2) le by auto
        show thesis using connack_properties.loop_returns [OF fits, of 0 "(?out1, h)"] assms(3) that by auto
      qed
      then show ?thesis unfolding run using ok by auto
    qed
  qed
qed

definition sample_connack :: connack_out where
  "sample_connack = \<lparr>connection_info = sample_info5, connection_property = sample_storage,
     server_resp = \<lparr>sr_maximum_packet_size = 0, sr_receive_maximum = 0, sr_topic_alias_maximum = 0, sr_max_qos = 2,
       sr_retain_available = True, sr_wildcard_subscribe_available = True, sr_subscribe_identifiers_available = True,
       sr_shared_subscribe_available = True, sr_response_info = Null_Str\<rparr>,
     reason_code = 0, ack_flag = 0, connack_user_property = None\<rparr>"

theorem connack_parser_returns_witness:
  "\<exists>err out' h'. mqtt5_msg_parse_connack_property [False] [0x20, 5, 0, 0, 2, 0x24, 1, 0, 0, 0, 0] 7 sample_connack = Some (err, out', h') \<and>
     (err = ESP_OK \<longrightarrow> sr_response_info (server_resp out') \<noteq> Freed)"
  using connack_parser_returns [of 7 "[0x20, 5, 0, 0, 2, 0x24, 1, 0, 0, 0, 0]" sample_connack "[False]"]
  by (simp add: sample_connack_def)

lemma mqtt5_get_id_total: "len \<le> length b \<Longrightarrow> 0 < length b \<Longrightarrow> \<exists>i. mqtt5_get_id b len = Some i \<and> i < 65536"
proof -
  assume len: "len \<le> length b" "0 < length b"
  obtain v n where "get_variable_len b 1 len = Some (v, n)" using get_variable_len_total [OF len(1)] by metis
  moreover obtain ty q where "mqtt_get_type b = Some ty" "mqtt_get_qos b = Some q"
    using len(2) by (cases b) (auto simp: mqtt_get_type_def mqtt_get_qos_def load_def)
  moreover have "load b i = Some (b ! i)" if "i < len" for i using that len(1) by (simp add: load_def)
  ultimately show ?thesis using be16_val_less by (auto simp: mqtt5_get_id_def Let_def)
qed

text \<open>
  C31. The other MQTT 5 replies: on every message of fewer than 65536 bytes that is in the
  buffer, \<open>mqtt5_get_id\<close>, \<open>mqtt5_msg_get_reason_code\<close> and \<open>mqtt5_get_suback_data\<close> return, read
  nothing outside it, and the reason codes of a SUBACK are a non-empty slice of the message.
\<close>

theorem replies5_stay_inside:
  assumes "0 < len" "len \<le> length b" "len < 65536"
  shows "(\<exists>i. mqtt5_get_id b len = Some i \<and> i < 65536) \<and>
    (\<exists>r. mqtt5_msg_get_reason_code b len = Some r \<and> -1 \<le> r \<and> r < 256) \<and>
    (\<exists>ptr n u h'. mqtt5_get_suback_data h b len = Some (ptr, n, u, h') \<and>
       (case ptr of None \<Rightarrow> n = 0 \<and> u = None | Some i \<Rightarrow> 0 < n \<and> i + n \<le> len))"
proof -
  obtain v n where v: "get_variable_len b 1 len = Some (v, n)" "n \<le> 4" "1 + n \<le> max len 1"
    using get_variable_len_total [OF assms(2)] by metis
  obtain ty q where ty: "mqtt_get_type b = Some ty" and q: "mqtt_get_qos b = Some q"
    using assms by (cases b) (auto simp: mqtt_get_type_def mqtt_get_qos_def load_def)
  have byte: "-1 \<le> uint (x :: byte)" "uint (x :: byte) < 256" for x
    using uint_bounded [of x] by (auto intro: order_trans [of _ 0])
  have ld: "load b i = Some (b ! i)" if "i < len" for i using that assms(2) by (simp add: load_def)
  have id: "\<exists>i. mqtt5_get_id b len = Some i \<and> i < 65536"
    using assms(1,2) by (intro mqtt5_get_id_total) auto
  obtain w k where w: "get_variable_len b (1 + n + 2) len = Some (w, k)" using get_variable_len_total [OF assms(2)] by metis
  have rc: "\<exists>r. mqtt5_msg_get_reason_code b len = Some r \<and> -1 \<le> r \<and> r < 256"
    using v(1) ty w ld byte by (auto simp: mqtt5_msg_get_reason_code_def Let_def)
  have "\<exists>ptr n u h'. mqtt5_get_suback_data h b len = Some (ptr, n, u, h') \<and>
       (case ptr of None \<Rightarrow> n = 0 \<and> u = None | Some i \<Rightarrow> 0 < n \<and> i + n \<le> len)"
  proof (cases "v + (1 + n) \<le> len \<and> 1 + n + 2 < v + (1 + n)")
    case False
    then show ?thesis using v(1) by (auto simp: mqtt5_get_suback_data_def Let_def)
  next
    case True
    let ?t = "v + (1 + n)"
    obtain pl k where k: "get_variable_len b (1 + n + 2) ?t = Some (pl, k)" "1 + n + 2 + k \<le> ?t"
    proof -
      obtain pl k where k: "get_variable_len b (1 + n + 2) ?t = Some (pl, k)" "1 + n + 2 + k \<le> max ?t (1 + n + 2)"
        using get_variable_len_total [of ?t b "1 + n + 2"] True assms(2) by (metis order_trans)
      show thesis by (rule that [OF k(1)]) (use k(2) True in simp)
    qed
    let ?o = "1 + n + 2 + k"
    show ?thesis
    proof (cases "pl > ?t - ?o")
      case True
      then show ?thesis using v(1) k(1) \<open>v + (1 + n) \<le> len \<and> _\<close> by (auto simp: mqtt5_get_suback_data_def Let_def)
    next
      case pl: False
      have "?o + pl \<le> length b" "pl < 65536" using pl k(2) True assms(2,3) by auto
      then obtain u h' where "mqtt5_msg_get_user_property h b ?o pl = Some (u, h')" by (rule user_property_returns)
      then show ?thesis using v(1) k pl True by (auto simp: mqtt5_get_suback_data_def Let_def)
    qed
  qed
  with id rc show ?thesis by blast
qed

theorem replies5_stay_inside_witness:
  "\<exists>i r. mqtt5_get_id [0x90, 4, 0, 9, 0, 0x87] 6 = Some i \<and> mqtt5_msg_get_reason_code [0x90, 4, 0, 9, 0, 0x87] 6 = Some r \<and> r < 256"
  using replies5_stay_inside [of 6 "[0x90, 4, 0, 9, 0, 0x87]" "[]"] by auto

section \<open>Where the parsers do not check\<close>

text \<open>
  The property RECEIVE_MAXIMUM of a CONNACK is read without a check: a message that ends with
  its identifier makes the parser read behind the message.
\<close>

lemma connack_reads_behind: "mqtt5_msg_parse_connack_property [] [0x20, 4, 0, 0, 1, 0x21] 6 out = None"
  by (simp add: mqtt5_msg_parse_connack_property_def get_variable_len_def variable_len_loop.simps load_def
      property_loop.simps read_one_def connack_switch_def unchecked_two_def read_two_def)

text \<open>
  Correlation data is skipped by its announced length with a 16-bit position: a length of
  65533 at position 3 leads back to the start of the block, and the loop never ends.
\<close>

lemma correlation_loops:
  assumes "drop p b = 9 # 0xff # 0xfd # r"
  shows "property_loop (publish_switch b p 3) b p 3 0 s = None"
proof -
  have d: "drop (p + 0) b = 9 # 0xff # 0xfd # r" "drop (p + 1) b = 0xff # 0xfd # r" "drop (p + 2) b = 0xfd # r"
    using assms drop_after [of p b "[9]"] drop_after [of p b "[9, 0xff]"] by auto
  have ld: "load b (p + 0) = Some 9" "load b (p + 1) = Some 0xff" "load b (p + 2) = Some 0xfd"
    using d by (auto dest: load_drop)
  have "be16_val 0xff 0xfd = 65533" by (simp add: be16_val_eq)
  then have rd: "read_one b p 0 = Some (9, 1)" "read_two b p 1 = Some (65533, 3)"
    using ld by (simp_all add: read_one_def read_two_def)
  have again: "\<exists>s'. publish_switch b p 3 9 1 s = Some (True, 0, s')" for s
    using rd(2) by (simp add: publish_switch_def unchecked_slice_def)
  let ?P = "\<lambda>sw b' p' plen off (st :: publish_out \<times> bool list) (y :: bool \<times> nat \<times> publish_out \<times> bool list).
    sw = publish_switch b p 3 \<longrightarrow> b' = b \<longrightarrow> p' = p \<longrightarrow> plen = 3 \<longrightarrow> off = 0 \<longrightarrow> False"
  have never: "?P sw b' p' plen off st y" if "property_loop sw b' p' plen off st = Some y" for sw b' p' plen off st y
    using _ that
  proof (rule property_loop.raw_induct [where P = ?P], intro impI, goal_cases)
    case (1 loop sw b' p' plen off st y)
    obtain s' where "publish_switch b p 3 9 1 st = Some (True, 0, s')" using again by blast
    then have "loop (publish_switch b p 3) b p 3 0 s' = Some y" using 1(2-) rd(1) by simp
    from 1(1) [OF this] show ?case by simp
  qed
  show ?thesis using never [of "publish_switch b p 3" b p 3 0 s] by (metis not_Some_eq)
qed

lemma publish_parser_diverges:
  "mqtt5_get_publish_property_payload [] ([0x30, 7, 0, 1, 0x61, 3, 9, 0xff, 0xfd] @ rest) 9 out = None"
proof -
  let ?b = "[0x30, 7, 0, 1, 0x61, 3, 9, 0xff, 0xfd] @ rest"
  have "drop (Suc (Suc (Suc (Suc (Suc (Suc 0)))))) ?b = 9 # 0xff # 0xfd # rest" by simp
  from correlation_loops [OF this] show ?thesis
    by (simp add: mqtt5_get_publish_property_payload_def get_variable_len_def variable_len_loop.simps load_def
        mqtt_get_qos_def be16_val_eq)
qed

end
