(* ===== verification/Mqtt_Outbox.thy ===== *)
theory Mqtt_Outbox
  imports Mqtt_Prelude
begin

text \<open>
  The outbox of messages that wait for transmission or acknowledgement:
  \<^verbatim>\<open>lib/include/mqtt_outbox.h\<close> and \<^verbatim>\<open>lib/mqtt_outbox.c\<close>.

  The singly linked list is the list of its items in order; an item is identified by the
  address \<open>item_addr\<close> of its structure, which is what an item handle is. What the heap
  answers to an allocation is an argument of \<open>outbox_enqueue\<close>: an address or \<open>None\<close> for the
  item, a block with its old contents or \<open>None\<close> for the buffer. Ticks are milliseconds
  since boot, for which \<^verbatim>\<open>long long\<close> is unbounded.

  Shown are the invariant that every operation keeps, what each operation does to the
  sequence of items, and the contract \<open>outbox_store\<close> on which the client rests.
\<close>

section \<open>Data model\<close>

datatype pending_state = QUEUED | TRANSMITTED | ACKNOWLEDGED | CONFIRMED

record outbox_message =
  om_data :: "byte list"
  om_len :: nat
  om_msg_id :: int
  om_msg_qos :: int
  om_msg_type :: int
  om_remaining_data :: "byte list option"
  om_remaining_len :: nat

record outbox_item =
  item_addr :: nat
  item_buffer :: "byte list"
  item_len :: nat
  item_msg_id :: int
  item_msg_type :: int
  item_msg_qos :: int
  item_tick :: int
  item_pending :: pending_state

record outbox =
  ob_size :: "64 word"
  ob_list :: "outbox_item list"

section \<open>Operations\<close>

definition outbox_init :: "bool \<Rightarrow> bool \<Rightarrow> outbox option" where
  "outbox_init alloc_box alloc_list =
     (if \<not> alloc_box then None else if \<not> alloc_list then None
      else Some \<lparr>ob_size = 0, ob_list = []\<rparr>)"

text \<open>\<open>None\<close> is a copy outside the source or the block, \<open>Some (None, _)\<close> a failed allocation.\<close>

definition outbox_enqueue ::
  "outbox \<Rightarrow> outbox_message \<Rightarrow> int \<Rightarrow> nat option \<Rightarrow> byte list option \<Rightarrow> (nat option \<times> outbox) option" where
  "outbox_enqueue ob message tick new_item new_block =
     (case new_item of None \<Rightarrow> Some (None, ob)
      | Some a \<Rightarrow>
        (case new_block of None \<Rightarrow> Some (None, ob)
         | Some block \<Rightarrow> do {
             bs \<leftarrow> fetch (om_data message) (om_len message);
             buf \<leftarrow> store block 0 bs;
             buf \<leftarrow> (case om_remaining_data message of None \<Rightarrow> Some buf
                     | Some r \<Rightarrow> do {
                         rs \<leftarrow> fetch r (om_remaining_len message);
                         store buf (om_len message) rs });
             let item = \<lparr>item_addr = a, item_buffer = buf,
               item_len = om_len message + om_remaining_len message,
               item_msg_id = om_msg_id message, item_msg_type = om_msg_type message,
               item_msg_qos = om_msg_qos message, item_tick = tick, item_pending = QUEUED\<rparr>;
             Some (Some a, \<lparr>ob_size = ob_size ob + of_nat (item_len item), ob_list = ob_list ob @ [item]\<rparr>)
           }))"

text \<open>\<open>STAILQ_FOREACH\<close> with a return at the first item that satisfies a test.\<close>

fun first_item :: "(outbox_item \<Rightarrow> bool) \<Rightarrow> outbox_item list \<Rightarrow> outbox_item option" where
  "first_item P [] = None"
| "first_item P (x # xs) = (if P x then Some x else first_item P xs)"

definition outbox_get :: "outbox \<Rightarrow> int \<Rightarrow> outbox_item option" where
  "outbox_get ob msg_id = first_item (\<lambda>i. item_msg_id i = msg_id) (ob_list ob)"

text \<open>The item and, through \<open>tick\<close>, its time stamp.\<close>

definition outbox_dequeue :: "outbox \<Rightarrow> pending_state \<Rightarrow> (outbox_item \<times> int) option" where
  "outbox_dequeue ob pending =
     map_option (\<lambda>i. (i, item_tick i)) (first_item (\<lambda>i. item_pending i = pending) (ob_list ob))"

text \<open>\<open>STAILQ_REMOVE\<close>: unlinks the item with the given address.\<close>

fun stailq_remove :: "nat \<Rightarrow> outbox_item list \<Rightarrow> outbox_item list" where
  "stailq_remove a [] = []"
| "stailq_remove a (x # xs) = (if item_addr x = a then xs else x # stailq_remove a xs)"

definition unlink_item :: "outbox_item \<Rightarrow> outbox \<Rightarrow> outbox" where
  "unlink_item i ob =
     \<lparr>ob_size = ob_size ob - of_nat (item_len i), ob_list = stailq_remove (item_addr i) (ob_list ob)\<rparr>"

definition delete_first :: "(outbox_item \<Rightarrow> bool) \<Rightarrow> outbox \<Rightarrow> esp_err \<times> outbox" where
  "delete_first P ob =
     (case first_item P (ob_list ob) of None \<Rightarrow> (ESP_FAIL, ob) | Some i \<Rightarrow> (ESP_OK, unlink_item i ob))"

definition outbox_delete_item :: "outbox \<Rightarrow> nat \<Rightarrow> esp_err \<times> outbox" where
  "outbox_delete_item ob item_to_delete = delete_first (\<lambda>i. item_addr i = item_to_delete) ob"

definition outbox_item_get_data :: "outbox_item option \<Rightarrow> (byte list \<times> nat \<times> 16 word \<times> int \<times> int) option" where
  "outbox_item_get_data item =
     map_option (\<lambda>i. (item_buffer i, item_len i, word_of_int (item_msg_id i), item_msg_type i, item_msg_qos i)) item"

definition outbox_delete :: "outbox \<Rightarrow> int \<Rightarrow> int \<Rightarrow> esp_err \<times> outbox" where
  "outbox_delete ob msg_id msg_type =
     delete_first (\<lambda>i. item_msg_id i = msg_id \<and> 0xff AND item_msg_type i = msg_type) ob"

text \<open>
  \<open>STAILQ_FOREACH_SAFE\<close> with the removal of every item that satisfies a test: the walk
  over the items as they were, each removal from the list as it is.
\<close>

fun delete_loop :: "(outbox_item \<Rightarrow> bool) \<Rightarrow> outbox_item list \<Rightarrow> nat \<Rightarrow> outbox \<Rightarrow> nat \<times> outbox" where
  "delete_loop P [] deleted ob = (deleted, ob)"
| "delete_loop P (i # is) deleted ob =
     (if P i then delete_loop P is (deleted + 1) (unlink_item i ob) else delete_loop P is deleted ob)"

definition outbox_delete_message_type :: "outbox \<Rightarrow> int \<Rightarrow> nat \<times> outbox" where
  "outbox_delete_message_type ob msg_type =
     delete_loop (\<lambda>i. 0xff AND item_msg_type i = msg_type) (ob_list ob) 0 ob"

text \<open>An update of the item that \<open>outbox_get\<close> finds.\<close>

fun update_first :: "int \<Rightarrow> (outbox_item \<Rightarrow> outbox_item) \<Rightarrow> outbox_item list \<Rightarrow> outbox_item list" where
  "update_first msg_id f [] = []"
| "update_first msg_id f (x # xs) =
     (if item_msg_id x = msg_id then f x # xs else x # update_first msg_id f xs)"

definition outbox_set_pending :: "outbox \<Rightarrow> int \<Rightarrow> pending_state \<Rightarrow> esp_err \<times> outbox" where
  "outbox_set_pending ob msg_id pending =
     (case outbox_get ob msg_id of None \<Rightarrow> (ESP_FAIL, ob)
      | Some i \<Rightarrow> (ESP_OK, ob\<lparr>ob_list := update_first msg_id (\<lambda>i. i\<lparr>item_pending := pending\<rparr>) (ob_list ob)\<rparr>))"

definition outbox_item_get_pending :: "outbox_item option \<Rightarrow> pending_state" where
  "outbox_item_get_pending item = (case item of None \<Rightarrow> QUEUED | Some i \<Rightarrow> item_pending i)"

definition outbox_set_tick :: "outbox \<Rightarrow> int \<Rightarrow> int \<Rightarrow> esp_err \<times> outbox" where
  "outbox_set_tick ob msg_id tick =
     (case outbox_get ob msg_id of None \<Rightarrow> (ESP_FAIL, ob)
      | Some i \<Rightarrow> (ESP_OK, ob\<lparr>ob_list := update_first msg_id (\<lambda>i. i\<lparr>item_tick := tick\<rparr>) (ob_list ob)\<rparr>))"

definition outbox_delete_single_expired :: "outbox \<Rightarrow> int \<Rightarrow> int \<Rightarrow> int \<times> outbox" where
  "outbox_delete_single_expired ob current_tick timeout =
     (case first_item (\<lambda>i. current_tick - item_tick i > timeout) (ob_list ob) of
        None \<Rightarrow> (-1, ob) | Some i \<Rightarrow> (item_msg_id i, unlink_item i ob))"

definition outbox_delete_expired :: "outbox \<Rightarrow> int \<Rightarrow> int \<Rightarrow> nat \<times> outbox" where
  "outbox_delete_expired ob current_tick timeout =
     delete_loop (\<lambda>i. current_tick - item_tick i > timeout) (ob_list ob) 0 ob"

definition outbox_get_size :: "outbox \<Rightarrow> 64 word" where
  "outbox_get_size ob = ob_size ob"

definition outbox_delete_all_items :: "outbox \<Rightarrow> outbox" where
  "outbox_delete_all_items ob = snd (delete_loop (\<lambda>i. True) (ob_list ob) 0 ob)"

text \<open>The items are released first, then the outbox itself: no outbox is left.\<close>

definition outbox_destroy :: "outbox \<Rightarrow> outbox \<times> outbox option" where
  "outbox_destroy ob = (outbox_delete_all_items ob, None)"

section \<open>Lemmas on the item list\<close>

lemma first_item_None: "first_item P xs = None \<longleftrightarrow> (\<forall>x \<in> set xs. \<not> P x)"
  by (induction xs) auto

lemma first_item_split:
  "\<forall>y \<in> set ys. \<not> P y \<Longrightarrow> P x \<Longrightarrow> first_item P (ys @ x # zs) = Some x"
  by (induction ys) auto

lemma first_item_Some:
  "first_item P xs = Some x \<Longrightarrow> \<exists>ys zs. xs = ys @ x # zs \<and> P x \<and> (\<forall>y \<in> set ys. \<not> P y)"
proof (induction xs)
  case (Cons a xs)
  show ?case
  proof (cases "P a")
    case True
    then show ?thesis using Cons.prems by (intro exI [of _ "[]"] exI [of _ xs]) auto
  next
    case False
    then obtain ys zs where "xs = ys @ x # zs" "P x" "\<forall>y \<in> set ys. \<not> P y" using Cons by auto
    then show ?thesis using False by (intro exI [of _ "a # ys"] exI [of _ zs]) auto
  qed
qed simp

lemma stailq_remove_first:
  "distinct (map item_addr (ys @ x # zs)) \<Longrightarrow> stailq_remove (item_addr x) (ys @ x # zs) = ys @ zs"
  by (induction ys) auto

lemma update_first_split:
  "xs = ys @ x # zs \<Longrightarrow> item_msg_id x = msg_id \<Longrightarrow> \<forall>y \<in> set ys. item_msg_id y \<noteq> msg_id \<Longrightarrow>
   update_first msg_id f xs = ys @ f x # zs"
  by (induction ys arbitrary: xs) auto

lemma update_first_map:
  "(\<And>i. g (f i) = g i) \<Longrightarrow> map g (update_first msg_id f xs) = map g xs"
  by (induction xs) auto

section \<open>Invariant\<close>

text \<open>No item is in the list twice, the size counter counts the stored bytes, buffers have their length.\<close>

definition outbox_ok :: "outbox \<Rightarrow> bool" where
  "outbox_ok ob \<longleftrightarrow> distinct (map item_addr (ob_list ob)) \<and>
     ob_size ob = of_nat (sum_list (map item_len (ob_list ob))) \<and>
     (\<forall>i \<in> set (ob_list ob). length (item_buffer i) = item_len i)"

lemma sum_list_filter_not:
  "sum_list (map f xs) = sum_list (map f (filter P xs)) + sum_list (map f (filter (\<lambda>x. \<not> P x) xs))"
  for f :: "'a \<Rightarrow> nat"
  by (induction xs) auto

lemma unlink_item_split:
  assumes "outbox_ok ob" "ob_list ob = ys @ i # zs"
  shows "ob_list (unlink_item i ob) = ys @ zs" "outbox_ok (unlink_item i ob)"
  using assms stailq_remove_first [of ys i zs]
  by (auto simp: unlink_item_def outbox_ok_def algebra_simps)

lemma delete_first_split:
  assumes "outbox_ok ob"
  shows "(case first_item P (ob_list ob) of
      None \<Rightarrow> delete_first P ob = (ESP_FAIL, ob) \<and> (\<forall>i \<in> set (ob_list ob). \<not> P i)
    | Some i \<Rightarrow> \<exists>ys zs. ob_list ob = ys @ i # zs \<and> P i \<and> (\<forall>y \<in> set ys. \<not> P y) \<and>
        delete_first P ob = (ESP_OK, unlink_item i ob) \<and>
        ob_list (unlink_item i ob) = ys @ zs \<and> outbox_ok (unlink_item i ob))"
proof (cases "first_item P (ob_list ob)")
  case None
  then show ?thesis using first_item_None [of P "ob_list ob"] by (simp add: delete_first_def)
next
  case (Some i)
  then obtain ys zs where "ob_list ob = ys @ i # zs" "P i" "\<forall>y \<in> set ys. \<not> P y"
    using first_item_Some [OF Some] by blast
  then show ?thesis using Some unlink_item_split [OF assms] by (auto simp: delete_first_def)
qed

lemma delete_first_ok: "outbox_ok ob \<Longrightarrow> outbox_ok (snd (delete_first P ob))"
  using delete_first_split [of ob P] by (auto split: option.splits)

text \<open>The removing loop is a filter that counts.\<close>

lemma delete_loop_filter:
  assumes "outbox_ok ob" "ob_list ob = filter (\<lambda>i. \<not> P i) xs @ ys"
  shows "fst (delete_loop P ys n ob) = n + length (filter P ys) \<and>
    ob_list (snd (delete_loop P ys n ob)) = filter (\<lambda>i. \<not> P i) (xs @ ys) \<and>
    outbox_ok (snd (delete_loop P ys n ob))"
  using assms
proof (induction ys arbitrary: xs n ob)
  case (Cons y ys)
  show ?case
  proof (cases "P y")
    case True
    have "ob_list (unlink_item y ob) = filter (\<lambda>i. \<not> P i) xs @ ys" "outbox_ok (unlink_item y ob)"
      using unlink_item_split Cons.prems by auto
    then show ?thesis using Cons.IH [of "unlink_item y ob" xs "n + 1"] True by simp
  next
    case False
    then show ?thesis using Cons.IH [of ob "xs @ [y]" n] Cons.prems by simp
  qed
qed simp

lemma delete_loop_all:
  assumes "outbox_ok ob"
  shows "fst (delete_loop P (ob_list ob) 0 ob) = length (filter P (ob_list ob))"
    and "ob_list (snd (delete_loop P (ob_list ob) 0 ob)) = filter (\<lambda>i. \<not> P i) (ob_list ob)"
    and "outbox_ok (snd (delete_loop P (ob_list ob) 0 ob))"
  using delete_loop_filter [OF assms, of P "[]" "ob_list ob" 0] by auto

lemma update_first_ok:
  assumes "outbox_ok ob" "\<And>i. item_addr (f i) = item_addr i" "\<And>i. item_len (f i) = item_len i"
    "\<And>i. item_buffer (f i) = item_buffer i"
  shows "outbox_ok (ob\<lparr>ob_list := update_first msg_id f (ob_list ob)\<rparr>)"
proof -
  have "\<forall>i \<in> set (update_first msg_id f xs). length (item_buffer i) = item_len i"
    if "\<forall>i \<in> set xs. length (item_buffer i) = item_len i" for xs
    using that assms(3,4) by (induction xs) auto
  then have "\<forall>i \<in> set (update_first msg_id f (ob_list ob)). length (item_buffer i) = item_len i"
    using assms(1) unfolding outbox_ok_def by blast
  then show ?thesis using assms by (simp add: outbox_ok_def update_first_map)
qed

text \<open>The item that \<open>outbox_enqueue\<close> appends.\<close>

definition new_item :: "nat \<Rightarrow> byte list \<Rightarrow> outbox_message \<Rightarrow> int \<Rightarrow> outbox_item" where
  "new_item a buf message tick = \<lparr>item_addr = a, item_buffer = buf,
     item_len = om_len message + om_remaining_len message,
     item_msg_id = om_msg_id message, item_msg_type = om_msg_type message,
     item_msg_qos = om_msg_qos message, item_tick = tick, item_pending = QUEUED\<rparr>"

text \<open>A message as the client builds it: the first part and, optionally, the rest.\<close>

definition message_ok :: "outbox_message \<Rightarrow> bool" where
  "message_ok m \<longleftrightarrow> om_len m \<le> length (om_data m) \<and>
     (case om_remaining_data m of None \<Rightarrow> om_remaining_len m = 0 | Some r \<Rightarrow> om_remaining_len m \<le> length r)"

definition message_content :: "outbox_message \<Rightarrow> byte list" where
  "message_content m = take (om_len m) (om_data m) @
     (case om_remaining_data m of None \<Rightarrow> [] | Some r \<Rightarrow> take (om_remaining_len m) r)"

lemma length_message_content:
  "message_ok m \<Longrightarrow> length (message_content m) = om_len m + om_remaining_len m"
  by (auto simp: message_ok_def message_content_def split: option.splits)

lemma outbox_enqueue_stores:
  assumes "message_ok m" "length block = om_len m + om_remaining_len m"
  shows "outbox_enqueue ob m tick (Some a) (Some block) =
    Some (Some a, \<lparr>ob_size = ob_size ob + of_nat (om_len m + om_remaining_len m),
                   ob_list = ob_list ob @ [new_item a (message_content m) m tick]\<rparr>)"
proof (cases "om_remaining_data m")
  case None
  then show ?thesis using assms
    by (simp add: outbox_enqueue_def message_ok_def message_content_def new_item_def fetch_def store_def min_absorb2)
next
  case (Some r)
  then show ?thesis using assms
    by (simp add: outbox_enqueue_def message_ok_def message_content_def new_item_def fetch_def store_def min_absorb2 Let_def)
qed

section \<open>Contract\<close>

text \<open>
  What the client relies on, also of the outbox that an application may provide instead
  (\<^verbatim>\<open>CONFIG_MQTT_CUSTOM_OUTBOX\<close>): a sequence of items to which a message is appended, in
  which the oldest item with an identifier changes its state, and from which the oldest
  item with an identifier and type is removed.
\<close>

locale outbox_store =
  fixes inv :: "'ob \<Rightarrow> bool"
    and items :: "'ob \<Rightarrow> outbox_item list"
    and enqueue :: "'ob \<Rightarrow> outbox_message \<Rightarrow> int \<Rightarrow> nat option \<Rightarrow> byte list option \<Rightarrow> (nat option \<times> 'ob) option"
    and dequeue :: "'ob \<Rightarrow> pending_state \<Rightarrow> (outbox_item \<times> int) option"
    and set_pending :: "'ob \<Rightarrow> int \<Rightarrow> pending_state \<Rightarrow> esp_err \<times> 'ob"
    and delete :: "'ob \<Rightarrow> int \<Rightarrow> int \<Rightarrow> esp_err \<times> 'ob"
  assumes enqueue_appends:
      "\<lbrakk>inv ob; message_ok m; length block = om_len m + om_remaining_len m; a \<notin> item_addr ` set (items ob)\<rbrakk> \<Longrightarrow>
       \<exists>ob'. enqueue ob m tick (Some a) (Some block) = Some (Some a, ob') \<and> inv ob' \<and>
         items ob' = items ob @ [new_item a (message_content m) m tick]"
    and dequeue_oldest:
      "\<lbrakk>inv ob; items ob = ys @ i # zs; item_pending i = p; \<forall>y \<in> set ys. item_pending y \<noteq> p\<rbrakk> \<Longrightarrow>
       dequeue ob p = Some (i, item_tick i)"
    and dequeue_none: "\<lbrakk>inv ob; \<forall>i \<in> set (items ob). item_pending i \<noteq> p\<rbrakk> \<Longrightarrow> dequeue ob p = None"
    and set_pending_oldest:
      "\<lbrakk>inv ob; items ob = ys @ i # zs; item_msg_id i = n; \<forall>y \<in> set ys. item_msg_id y \<noteq> n\<rbrakk> \<Longrightarrow>
       \<exists>ob'. set_pending ob n p = (ESP_OK, ob') \<and> inv ob' \<and> items ob' = ys @ i\<lparr>item_pending := p\<rparr> # zs"
    and delete_oldest:
      "\<lbrakk>inv ob; items ob = ys @ i # zs; item_msg_id i = n; 0xff AND item_msg_type i = ty;
        \<forall>y \<in> set ys. item_msg_id y \<noteq> n \<or> 0xff AND item_msg_type y \<noteq> ty\<rbrakk> \<Longrightarrow>
       \<exists>ob'. delete ob n ty = (ESP_OK, ob') \<and> inv ob' \<and> items ob' = ys @ zs"
begin

text \<open>Messages already transmitted do not hide a queued one.\<close>

lemma queued_after_enqueue:
  assumes "inv ob" "message_ok m" "length block = om_len m + om_remaining_len m" "a \<notin> item_addr ` set (items ob)"
    and "\<forall>i \<in> set (items ob). item_pending i \<noteq> QUEUED"
  shows "\<exists>ob'. enqueue ob m tick (Some a) (Some block) = Some (Some a, ob') \<and>
    dequeue ob' QUEUED = Some (new_item a (message_content m) m tick, tick)"
proof -
  obtain ob' where ob': "enqueue ob m tick (Some a) (Some block) = Some (Some a, ob')" "inv ob'"
    "items ob' = items ob @ new_item a (message_content m) m tick # []"
    using enqueue_appends [OF assms(1-4)] by auto
  then show ?thesis using dequeue_oldest [OF ob'(2,3), of QUEUED] assms(5) by (auto simp: new_item_def)
qed

text \<open>The life of a stored message whose identifier is not in use: any state changes, then its removal.\<close>

definition mark_all :: "int \<Rightarrow> pending_state list \<Rightarrow> 'ob \<Rightarrow> 'ob" where
  "mark_all n ps ob = fold (\<lambda>p ob. snd (set_pending ob n p)) ps ob"

lemma mark_all_items:
  assumes "inv ob" "items ob = ys @ [i]" "item_msg_id i = n" "\<forall>y \<in> set ys. item_msg_id y \<noteq> n"
  shows "inv (mark_all n ps ob) \<and> items (mark_all n ps ob) = ys @ [i\<lparr>item_pending := last (item_pending i # ps)\<rparr>]"
  using assms
proof (induction ps arbitrary: ob i)
  case (Cons p ps)
  obtain ob' where ob': "set_pending ob n p = (ESP_OK, ob')" "inv ob'" "items ob' = ys @ [i\<lparr>item_pending := p\<rparr>]"
    using set_pending_oldest [OF Cons.prems(1), of ys i "[]" n p] Cons.prems by auto
  show ?case using Cons.IH [OF ob'(2,3)] Cons.prems ob'(1) by (simp add: mark_all_def)
qed (simp add: mark_all_def)

lemma mark_all_result:
  assumes "inv ob" "items ob = ys @ [i]" "item_msg_id i = n" "\<forall>y \<in> set ys. item_msg_id y \<noteq> n"
  shows "set_pending (mark_all n ps ob) n p = (ESP_OK, mark_all n (ps @ [p]) ob)"
proof -
  let ?j = "i\<lparr>item_pending := last (item_pending i # ps)\<rparr>"
  have "inv (mark_all n ps ob)" "items (mark_all n ps ob) = ys @ [?j]" using mark_all_items [OF assms] by auto
  then have "fst (set_pending (mark_all n ps ob) n p) = ESP_OK"
    using set_pending_oldest [of "mark_all n ps ob" ys ?j "[]" n p] assms(3,4) by auto
  then show ?thesis by (simp add: mark_all_def prod_eq_iff)
qed

lemma message_life:
  assumes "inv ob" "message_ok m" "length block = om_len m + om_remaining_len m" "a \<notin> item_addr ` set (items ob)"
    and "\<forall>i \<in> set (items ob). item_msg_id i \<noteq> om_msg_id m" "0xff AND om_msg_type m = ty"
  shows "\<exists>ob'. enqueue ob m tick (Some a) (Some block) = Some (Some a, ob') \<and>
    (\<forall>ps. items (mark_all (om_msg_id m) ps ob') =
        items ob @ [(new_item a (message_content m) m tick)\<lparr>item_pending := last (QUEUED # ps)\<rparr>] \<and>
      (\<forall>p. set_pending (mark_all (om_msg_id m) ps ob') (om_msg_id m) p = (ESP_OK, mark_all (om_msg_id m) (ps @ [p]) ob')) \<and>
      (\<exists>ob''. delete (mark_all (om_msg_id m) ps ob') (om_msg_id m) ty = (ESP_OK, ob'') \<and> inv ob'' \<and> items ob'' = items ob))"
proof -
  let ?i = "new_item a (message_content m) m tick"
  obtain ob' where ob': "enqueue ob m tick (Some a) (Some block) = Some (Some a, ob')" "inv ob'"
    "items ob' = items ob @ [?i]"
    using enqueue_appends [OF assms(1-4)] by blast
  have i: "item_msg_id ?i = om_msg_id m" "item_msg_type ?i = om_msg_type m" "item_pending ?i = QUEUED" by (simp_all add: new_item_def)
  note life = mark_all_items [OF ob'(2,3) i(1) assms(5), unfolded i(3)] mark_all_result [OF ob'(2,3) i(1) assms(5)]
  have "\<exists>ob''. delete (mark_all (om_msg_id m) ps ob') (om_msg_id m) ty = (ESP_OK, ob'') \<and> inv ob'' \<and> items ob'' = items ob" for ps
    using delete_oldest [of "mark_all (om_msg_id m) ps ob'" "items ob" _ "[]" "om_msg_id m" ty] life(1) [of ps] i assms(5,6) by auto
  then show ?thesis using ob'(1) life by blast
qed

end

interpretation ostore: outbox_store outbox_ok ob_list outbox_enqueue outbox_dequeue outbox_set_pending outbox_delete
proof (unfold_locales, goal_cases)
  case (1 ob m block a tick)
  then show ?case using outbox_enqueue_stores [of m block ob tick a] length_message_content [of m]
    by (auto simp: outbox_ok_def new_item_def algebra_simps)
next
  case (2 ob ys i zs p)
  then show ?case using first_item_split [of ys "\<lambda>i. item_pending i = p" i zs] by (simp add: outbox_dequeue_def)
next
  case (3 ob p)
  then show ?case using first_item_None [of "\<lambda>i. item_pending i = p"] by (simp add: outbox_dequeue_def)
next
  case (4 ob ys i zs n p)
  then show ?case
    using first_item_split [of ys "\<lambda>i. item_msg_id i = n" i zs] update_first_split [of _ ys i zs n]
      update_first_ok [of ob "\<lambda>i. i\<lparr>item_pending := p\<rparr>" n]
    by (simp add: outbox_set_pending_def outbox_get_def)
next
  case (5 ob ys i zs n ty)
  then show ?case
    using first_item_split [of ys "\<lambda>i. item_msg_id i = n \<and> 0xff AND item_msg_type i = ty" i zs]
      unlink_item_split [of ob ys i zs]
    by (simp add: outbox_delete_def delete_first_def)
qed

section \<open>Reachable outboxes\<close>

text \<open>
  Every operation of the interface as a step. Of the heap only this is assumed: a new
  item does not have the address of a live one, and a block has the requested size.
\<close>

inductive outbox_step :: "outbox \<Rightarrow> outbox \<Rightarrow> bool" where
  enqueue: "\<lbrakk>\<forall>a. new = Some a \<longrightarrow> a \<notin> item_addr ` set (ob_list ob);
     \<forall>b. block = Some b \<longrightarrow> length b = om_len m + om_remaining_len m;
     outbox_enqueue ob m tick new block = Some (r, ob')\<rbrakk> \<Longrightarrow> outbox_step ob ob'"
| delete_item: "outbox_delete_item ob a = (r, ob') \<Longrightarrow> outbox_step ob ob'"
| delete: "outbox_delete ob n ty = (r, ob') \<Longrightarrow> outbox_step ob ob'"
| delete_type: "outbox_delete_message_type ob ty = (k, ob') \<Longrightarrow> outbox_step ob ob'"
| set_pending: "outbox_set_pending ob n p = (r, ob') \<Longrightarrow> outbox_step ob ob'"
| set_tick: "outbox_set_tick ob n t = (r, ob') \<Longrightarrow> outbox_step ob ob'"
| single_expired: "outbox_delete_single_expired ob now timeout = (n, ob') \<Longrightarrow> outbox_step ob ob'"
| expired: "outbox_delete_expired ob now timeout = (k, ob') \<Longrightarrow> outbox_step ob ob'"
| delete_all: "outbox_step ob (outbox_delete_all_items ob)"

inductive outbox_reachable :: "outbox \<Rightarrow> bool" where
  init: "outbox_init True True = Some ob \<Longrightarrow> outbox_reachable ob"
| step: "outbox_reachable ob \<Longrightarrow> outbox_step ob ob' \<Longrightarrow> outbox_reachable ob'"

lemma outbox_enqueue_item:
  assumes "outbox_enqueue ob m tick (Some a) (Some block) = Some (r, ob')"
  shows "\<exists>buf. length buf = length block \<and>
    ob' = \<lparr>ob_size = ob_size ob + of_nat (om_len m + om_remaining_len m), ob_list = ob_list ob @ [new_item a buf m tick]\<rparr>"
proof -
  obtain bs buf buf' where buf: "store block 0 bs = Some buf"
    "(case om_remaining_data m of None \<Rightarrow> Some buf
      | Some r \<Rightarrow> do { rs \<leftarrow> fetch r (om_remaining_len m); store buf (om_len m) rs }) = Some buf'"
    and ob': "ob' = \<lparr>ob_size = ob_size ob + of_nat (om_len m + om_remaining_len m), ob_list = ob_list ob @ [new_item a buf' m tick]\<rparr>"
    using assms by (auto simp: outbox_enqueue_def bind_eq_Some_conv new_item_def Let_def)
  have "length buf' = length block"
    using store_length [OF buf(1)] buf(2) by (auto split: option.splits simp: bind_eq_Some_conv dest: store_length)
  then show ?thesis using ob' by blast
qed

lemma outbox_enqueue_ok:
  assumes "outbox_ok ob" "\<forall>a. new = Some a \<longrightarrow> a \<notin> item_addr ` set (ob_list ob)"
    and "\<forall>b. block = Some b \<longrightarrow> length b = om_len m + om_remaining_len m"
    and "outbox_enqueue ob m tick new block = Some (r, ob')"
  shows "outbox_ok ob'"
proof (cases "new = None \<or> block = None")
  case True
  then show ?thesis using assms(1,4) by (auto simp: outbox_enqueue_def split: option.splits)
next
  case False
  then obtain a b where ab: "new = Some a" "block = Some b" by auto
  obtain buf where buf: "length buf = length b"
    "ob' = \<lparr>ob_size = ob_size ob + of_nat (om_len m + om_remaining_len m), ob_list = ob_list ob @ [new_item a buf m tick]\<rparr>"
    using outbox_enqueue_item [OF assms(4) [unfolded ab]] by blast
  then show ?thesis using assms(1-3) ab
    by (auto simp: outbox_ok_def new_item_def algebra_simps)
qed

lemma outbox_step_ok:
  assumes "outbox_step ob ob'" "outbox_ok ob"
  shows "outbox_ok ob'"
  using assms
proof (cases rule: outbox_step.cases)
  case (enqueue new block m tick r)
  show ?thesis by (rule outbox_enqueue_ok [OF assms(2) enqueue])
next
  case (delete_item a r)
  then show ?thesis using delete_first_ok [OF assms(2)] by (metis outbox_delete_item_def snd_conv)
next
  case (delete n ty r)
  then show ?thesis using delete_first_ok [OF assms(2)] by (metis outbox_delete_def snd_conv)
next
  case (delete_type ty k)
  then show ?thesis using delete_loop_all(3) [OF assms(2)] by (metis outbox_delete_message_type_def snd_conv)
next
  case (set_pending n p r)
  then show ?thesis using update_first_ok [OF assms(2)] assms(2)
    by (auto simp: outbox_set_pending_def split: option.splits)
next
  case (set_tick n t r)
  then show ?thesis using update_first_ok [OF assms(2)] assms(2)
    by (auto simp: outbox_set_tick_def split: option.splits)
next
  case (single_expired now timeout n)
  then show ?thesis using delete_first_ok [OF assms(2), of "\<lambda>i. now - item_tick i > timeout"] assms(2)
    by (auto simp: outbox_delete_single_expired_def delete_first_def split: option.splits)
next
  case (expired now timeout k)
  then show ?thesis using delete_loop_all(3) [OF assms(2)] by (metis outbox_delete_expired_def snd_conv)
next
  case delete_all
  then show ?thesis using delete_loop_all(3) [OF assms(2)] by (simp add: outbox_delete_all_items_def)
qed

section \<open>Example\<close>

definition sample_message :: outbox_message where
  "sample_message = \<lparr>om_data = [0x32, 5], om_len = 2, om_msg_id = 7, om_msg_qos = 1, om_msg_type = 3,
     om_remaining_data = Some [0, 1, 0x61, 0, 7], om_remaining_len = 5\<rparr>"

definition sample_outbox :: outbox where
  "sample_outbox = \<lparr>ob_size = 7, ob_list = [new_item 1 [0x32, 5, 0, 1, 0x61, 0, 7] sample_message 100]\<rparr>"

lemma sample_enqueue:
  "outbox_enqueue \<lparr>ob_size = 0, ob_list = []\<rparr> sample_message 100 (Some 1) (Some (replicate 7 0)) =
   Some (Some 1, sample_outbox)"
  by (simp add: outbox_enqueue_def sample_message_def sample_outbox_def new_item_def fetch_def store_def)

lemma sample_outbox_ok: "outbox_ok sample_outbox"
  by (simp add: outbox_ok_def sample_outbox_def new_item_def sample_message_def)

section \<open>Properties\<close>

text \<open>
  C22. In every outbox that the operations can reach from \<open>outbox_init\<close>, no item is linked
  twice, every buffer has its recorded length, and \<open>outbox_get_size\<close> is the number of stored
  bytes (modulo the counter's 64 bits), whatever the order of operations and allocation
  failures.
\<close>

theorem outbox_size_exact:
  assumes "outbox_reachable ob"
  shows "distinct (map item_addr (ob_list ob)) \<and>
    (\<forall>i \<in> set (ob_list ob). length (item_buffer i) = item_len i) \<and>
    unat (outbox_get_size ob) = (\<Sum>i \<leftarrow> ob_list ob. length (item_buffer i)) mod 2 ^ 64"
proof -
  have "outbox_ok ob" using assms
  proof (induction rule: outbox_reachable.induct)
    case (init ob) then show ?case by (auto simp: outbox_init_def outbox_ok_def)
  next
    case (step ob ob') then show ?case using outbox_step_ok by blast
  qed
  moreover from this have "map item_len (ob_list ob) = map (\<lambda>i. length (item_buffer i)) (ob_list ob)"
    by (auto simp: outbox_ok_def)
  ultimately show ?thesis
    by (simp add: outbox_ok_def outbox_get_size_def unat_of_nat take_bit_eq_mod)
qed

theorem outbox_size_exact_witness:
  "outbox_reachable sample_outbox \<and> unat (outbox_get_size sample_outbox) = 7"
proof -
  have "outbox_reachable \<lparr>ob_size = 0, ob_list = []\<rparr>"
    by (rule outbox_reachable.init) (simp add: outbox_init_def)
  then have r: "outbox_reachable sample_outbox"
    by (rule outbox_reachable.step) (rule outbox_step.enqueue [OF _ _ sample_enqueue], simp_all add: sample_message_def)
  then show ?thesis
    using outbox_size_exact [OF r] by (simp add: sample_outbox_def new_item_def sample_message_def)
qed

text \<open>The states of a message set one after the other.\<close>

definition mark_states :: "int \<Rightarrow> pending_state list \<Rightarrow> outbox \<Rightarrow> outbox" where
  "mark_states n ps ob = fold (\<lambda>p ob. snd (outbox_set_pending ob n p)) ps ob"

text \<open>
  C8. A message stored under an identifier not in use goes through any sequence of states
  (\<open>TRANSMITTED\<close>, then \<open>ACKNOWLEDGED\<close> for QoS 2): every \<open>outbox_set_pending\<close> succeeds, afterwards the
  message is found under its identifier in the state set last, and the other items are as they
  were. At any point it is removed by its identifier and type, which leaves the outbox as it was
  before the message was stored.
\<close>

theorem outbox_message_life:
  assumes "outbox_ok ob" "message_ok m" "length block = om_len m + om_remaining_len m"
    and "a \<notin> item_addr ` set (ob_list ob)" "\<forall>i \<in> set (ob_list ob). item_msg_id i \<noteq> om_msg_id m"
  shows "\<exists>ob'. outbox_enqueue ob m tick (Some a) (Some block) = Some (Some a, ob') \<and>
    (\<forall>ps. ob_list (mark_states (om_msg_id m) ps ob') = ob_list ob @ [(new_item a (message_content m) m tick)\<lparr>item_pending := last (QUEUED # ps)\<rparr>] \<and>
      outbox_item_get_pending (outbox_get (mark_states (om_msg_id m) ps ob') (om_msg_id m)) = last (QUEUED # ps) \<and>
      (\<forall>p. outbox_set_pending (mark_states (om_msg_id m) ps ob') (om_msg_id m) p = (ESP_OK, mark_states (om_msg_id m) (ps @ [p]) ob')) \<and>
      outbox_delete (mark_states (om_msg_id m) ps ob') (om_msg_id m) (0xff AND om_msg_type m) = (ESP_OK, ob))"
proof -
  let ?i = "\<lambda>ps. (new_item a (message_content m) m tick)\<lparr>item_pending := last (QUEUED # ps)\<rparr>"
  have mark: "mark_states n ps ob = ostore.mark_all n ps ob" for n ps ob by (simp add: mark_states_def ostore.mark_all_def)
  obtain ob' where ob': "outbox_enqueue ob m tick (Some a) (Some block) = Some (Some a, ob')"
    and life: "\<And>ps. ob_list (mark_states (om_msg_id m) ps ob') = ob_list ob @ [?i ps]"
      "\<And>ps p. outbox_set_pending (mark_states (om_msg_id m) ps ob') (om_msg_id m) p = (ESP_OK, mark_states (om_msg_id m) (ps @ [p]) ob')"
      "\<And>ps. \<exists>ob''. outbox_delete (mark_states (om_msg_id m) ps ob') (om_msg_id m) (0xff AND om_msg_type m) = (ESP_OK, ob'') \<and>
         outbox_ok ob'' \<and> ob_list ob'' = ob_list ob"
    using ostore.message_life [OF assms(1-5) refl, of tick] unfolding mark by blast
  have "outbox_get (mark_states (om_msg_id m) ps ob') (om_msg_id m) = Some (?i ps)" for ps
    using first_item_split [of "ob_list ob" "\<lambda>i. item_msg_id i = om_msg_id m" "?i ps" "[]"] life(1) [of ps] assms(5)
    by (simp add: outbox_get_def new_item_def)
  moreover have "outbox_delete (mark_states (om_msg_id m) ps ob') (om_msg_id m) (0xff AND om_msg_type m) = (ESP_OK, ob)" for ps
    using life(3) [of ps] assms(1) by (auto simp: outbox_ok_def)
  ultimately show ?thesis using ob' life(1,2) by (auto simp: outbox_item_get_pending_def)
qed

theorem outbox_message_life_witness:
  "\<exists>ob' ob''. outbox_enqueue sample_outbox (sample_message\<lparr>om_msg_id := 8\<rparr>) 200 (Some 2) (Some (replicate 7 0)) = Some (Some 2, ob') \<and>
    mark_states 8 [TRANSMITTED, ACKNOWLEDGED] ob' = ob'' \<and>
    outbox_item_get_pending (outbox_get ob'' 8) = ACKNOWLEDGED \<and> outbox_delete ob'' 8 3 = (ESP_OK, sample_outbox)"
proof -
  have "message_ok (sample_message\<lparr>om_msg_id := 8\<rparr>)" by (simp add: message_ok_def sample_message_def)
  moreover have "length (replicate 7 (0 :: byte)) = om_len (sample_message\<lparr>om_msg_id := 8\<rparr>) + om_remaining_len (sample_message\<lparr>om_msg_id := 8\<rparr>)"
    "2 \<notin> item_addr ` set (ob_list sample_outbox)"
    "\<forall>i \<in> set (ob_list sample_outbox). item_msg_id i \<noteq> om_msg_id (sample_message\<lparr>om_msg_id := 8\<rparr>)"
    by (simp_all add: sample_outbox_def new_item_def sample_message_def)
  ultimately obtain ob' where ob': "outbox_enqueue sample_outbox (sample_message\<lparr>om_msg_id := 8\<rparr>) 200 (Some 2) (Some (replicate 7 0)) = Some (Some 2, ob')"
    "\<And>ps. outbox_item_get_pending (outbox_get (mark_states 8 ps ob') 8) = last (QUEUED # ps)"
    "\<And>ps. outbox_delete (mark_states 8 ps ob') 8 (0xff AND 3) = (ESP_OK, sample_outbox)"
    using outbox_message_life [OF sample_outbox_ok, of "sample_message\<lparr>om_msg_id := 8\<rparr>" "replicate 7 0" 2 200]
    by (auto simp: sample_message_def)
  then show ?thesis using ob'(2,3) [of "[TRANSMITTED, ACKNOWLEDGED]"] by simp
qed

text \<open>
  \<open>outbox_delete\<close> removes the oldest item with the identifier and type and nothing
  else, keeping the order; it fails, leaving the outbox alone, exactly if there is none.
\<close>

lemma outbox_delete_exact:
  assumes "outbox_ok ob" "outbox_delete ob msg_id msg_type = (r, ob')"
  shows "if \<exists>i \<in> set (ob_list ob). item_msg_id i = msg_id \<and> 0xff AND item_msg_type i = msg_type
    then r = ESP_OK \<and> (\<exists>ys i zs. ob_list ob = ys @ i # zs \<and> ob_list ob' = ys @ zs \<and>
      item_msg_id i = msg_id \<and> 0xff AND item_msg_type i = msg_type \<and>
      (\<forall>y \<in> set ys. \<not> (item_msg_id y = msg_id \<and> 0xff AND item_msg_type y = msg_type)))
    else r = ESP_FAIL \<and> ob' = ob"
  using delete_first_split [OF assms(1), of "\<lambda>i. item_msg_id i = msg_id \<and> 0xff AND item_msg_type i = msg_type"] assms(2)
    first_item_None [of "\<lambda>i. item_msg_id i = msg_id \<and> 0xff AND item_msg_type i = msg_type" "ob_list ob"]
  by (cases "first_item (\<lambda>i. item_msg_id i = msg_id \<and> 0xff AND item_msg_type i = msg_type) (ob_list ob)")
     (auto simp: outbox_delete_def)

text \<open>
  C38. The deletions of a message type, of expired items and of all items keep exactly the
  other items, in order, and return how many they removed; \<open>outbox_delete_single_expired\<close>
  removes the oldest expired item and returns its identifier, or returns -1 if none is expired.
\<close>

theorem outbox_bulk_delete:
  assumes "outbox_ok ob"
  shows "fst (outbox_delete_message_type ob ty) = length (filter (\<lambda>i. 0xff AND item_msg_type i = ty) (ob_list ob)) \<and>
    ob_list (snd (outbox_delete_message_type ob ty)) = filter (\<lambda>i. 0xff AND item_msg_type i \<noteq> ty) (ob_list ob) \<and>
    fst (outbox_delete_expired ob now timeout) = length (filter (\<lambda>i. now - item_tick i > timeout) (ob_list ob)) \<and>
    ob_list (snd (outbox_delete_expired ob now timeout)) = filter (\<lambda>i. now - item_tick i \<le> timeout) (ob_list ob) \<and>
    outbox_delete_all_items ob = \<lparr>ob_size = 0, ob_list = []\<rparr> \<and>
    (case outbox_delete_single_expired ob now timeout of (n, ob') \<Rightarrow>
      (\<forall>i \<in> set (ob_list ob). now - item_tick i \<le> timeout) \<and> n = -1 \<and> ob' = ob \<or>
      (\<exists>ys i zs. ob_list ob = ys @ i # zs \<and> now - item_tick i > timeout \<and> n = item_msg_id i \<and>
         (\<forall>y \<in> set ys. now - item_tick y \<le> timeout) \<and> ob_list ob' = ys @ zs))"
proof -
  note loop = delete_loop_all [OF assms]
  have all: "ob_list (outbox_delete_all_items ob) = []" "outbox_ok (outbox_delete_all_items ob)"
    using loop(2,3) [of "\<lambda>i. True"] by (simp_all add: outbox_delete_all_items_def)
  then have "outbox_delete_all_items ob = \<lparr>ob_size = 0, ob_list = []\<rparr>" by (simp add: outbox_ok_def)
  moreover have "case outbox_delete_single_expired ob now timeout of (n, ob') \<Rightarrow>
      (\<forall>i \<in> set (ob_list ob). now - item_tick i \<le> timeout) \<and> n = -1 \<and> ob' = ob \<or>
      (\<exists>ys i zs. ob_list ob = ys @ i # zs \<and> now - item_tick i > timeout \<and> n = item_msg_id i \<and>
         (\<forall>y \<in> set ys. now - item_tick y \<le> timeout) \<and> ob_list ob' = ys @ zs)"
    using delete_first_split [OF assms, of "\<lambda>i. now - item_tick i > timeout"]
    by (cases "first_item (\<lambda>i. now - item_tick i > timeout) (ob_list ob)")
       (auto simp: outbox_delete_single_expired_def not_less)
  ultimately show ?thesis
    using loop(1,2) by (simp add: outbox_delete_message_type_def outbox_delete_expired_def not_less)
qed

theorem outbox_bulk_delete_witness:
  "fst (outbox_delete_expired sample_outbox 30200 30000) = 1 \<and> fst (outbox_delete_message_type sample_outbox 8) = 0"
  using outbox_bulk_delete [OF sample_outbox_ok, of 8 30200 30000]
  by (simp add: sample_outbox_def new_item_def sample_message_def)

end
