(* ===== verification/Mqtt_Client_State.thy ===== *)
theory Mqtt_Client_State
  imports Mqtt5_Message Mqtt_Outbox
begin

text \<open>
  The state of a client: \<^verbatim>\<open>lib/include/mqtt_client_priv.h\<close> and \<^verbatim>\<open>lib/include/mqtt5_client_priv.h\<close>,
  with the event structures of \<^verbatim>\<open>include/mqtt5_client.h\<close>.

  A structure that contains another one by value extends its record, so that the fields are
  reached by their own names. The innermost record, \<open>environment\<close>, is what the client calls
  but the repository does not hold: the byte stream of the transport with the outcome of every
  read, write and connect, the clock, the heap, and the events the application has been sent.

  The transport of ESP-IDF promises of a read of at most \<open>n\<close> bytes that it returns between 1
  and \<open>n\<close> of the bytes that arrived, a timeout or an error. Hence a plan of answers: \<open>Rx_Chunk k\<close>
  hands over as many bytes as are asked for, up to \<open>k\<close> and up to what has arrived, which is a
  timeout when that is nothing. Behind the end of the plan every read times out. A write takes a
  part of the bytes, as planned, and behind the end of the plan all of them.

  The build options are those of the default configuration with \<^verbatim>\<open>MQTT_PROTOCOL_5\<close> enabled and
  an event queue of one entry; the three options that change what the client does are fields of
  the configuration.
\<close>

section \<open>Environment\<close>

datatype rx_answer = Rx_Chunk nat | Rx_Timeout | Rx_Eof | Rx_Failed
datatype tx_answer = Tx_Chunk nat | Tx_Timeout | Tx_Failed

text \<open>What \<^verbatim>\<open>esp_tls_get_and_clear_last_error\<close> and \<^verbatim>\<open>esp_transport_get_errno\<close> report.\<close>

record transport_error =
  te_last_esp_err :: int
  te_stack_err :: int
  te_cert_verify_flags :: int
  te_sock_errno :: int

section \<open>Events\<close>

text \<open>
  The data and the topic of the event structure are pointers: into the receive buffer, or to a
  string of their own. What the application reads through them is taken when it is notified.
\<close>

datatype event_ptr = Null_Ptr | In_Recv nat | To_String "byte list"

record esp_mqtt5_server_resp_property =
  es_maximum_packet_size :: "32 word"
  es_receive_maximum :: "16 word"
  es_topic_alias_maximum :: "16 word"
  es_max_qos :: byte
  es_retain_available :: bool
  es_wildcard_subscribe_available :: bool
  es_subscribe_identifiers_available :: bool
  es_shared_subscribe_available :: bool
  es_response_info :: heap_str
  es_response_info_len :: nat

record esp_mqtt5_event_property =
  ep_payload_format_indicator :: bool
  ep_response_topic :: "nat option"
  ep_response_topic_len :: nat
  ep_correlation_data :: "nat option"
  ep_correlation_data_len :: nat
  ep_content_type :: "nat option"
  ep_content_type_len :: nat
  ep_subscribe_id :: "16 word"
  ep_user_property :: mqtt5_user_property_handle
  ep_server :: esp_mqtt5_server_resp_property

record client_event = esp_mqtt_event +
  data_ptr :: event_ptr
  topic_ptr :: event_ptr
  disconnect_return_code :: int
  event_reason_code :: int
  event_property :: esp_mqtt5_event_property

section \<open>Client\<close>

record mqtt_config_storage =
  cs_uri :: "cstring option"
  cs_host :: "cstring option"
  cs_path :: "cstring option"
  cs_scheme :: "cstring option"
  cs_port :: int
  cs_auto_reconnect :: bool
  cs_network_timeout_ms :: int
  cs_refresh_connection_after_ms :: int
  cs_reconnect_timeout_ms :: int
  cs_message_retransmit_timeout :: int
  cs_outbox_limit :: "64 word"
  cs_transport :: "int option"
  MQTT_REPORT_DELETED_MESSAGES :: bool
  MQTT_SKIP_PUBLISH_IF_DISCONNECTED :: bool
  MQTT_TOPIC_PRESENT_ALL_DATA_EVENTS :: bool

record mqtt5_topic_alias =
  ta_topic :: "byte list option"
  ta_topic_len :: "16 word"
  ta_topic_alias :: "16 word"

record mqtt5_config_storage =
  connect_property_info :: esp_mqtt5_connection_property_storage
  will_property_info :: esp_mqtt5_connection_will_property_storage
  server_resp_property_info :: esp_mqtt5_connection_server_resp_property
  disconnect_property_info :: esp_mqtt5_disconnect_property_config
  publish_property_info :: "esp_mqtt5_publish_property_config option"
  subscribe_property_info :: "esp_mqtt5_subscribe_property_config option"
  unsubscribe_property_info :: "esp_mqtt5_unsubscribe_property_config option"
  peer_topic_alias :: "mqtt5_topic_alias list option"

datatype mqtt_client_state =
  MQTT_STATE_INIT | MQTT_STATE_DISCONNECTED | MQTT_STATE_CONNECTED | MQTT_STATE_WAIT_RECONNECT

record environment =
  wire :: "byte list"
  rx_plan :: "rx_answer list"
  sent :: "byte list"
  tx_plan :: "tx_answer list"
  poll_plan :: "bool list"
  connect_plan :: "bool list"
  error_plan :: "transport_error list"
  clock :: nat
  delays :: "nat list"
  allocs :: heap
  events :: "client_event list"

record mqtt_state = environment +
  in_buffer :: "byte list"
  in_buffer_length :: nat
  message_length :: nat
  in_buffer_read_len :: nat
  connection :: mqtt_connection
  pending_msg_id :: "16 word"
  pending_msg_type :: int
  pending_publish_qos :: int

text \<open>
  \<open>transport_list\<close> are the schemes and default ports of the registered transports; a selected
  transport, also the one the application provides in its configuration, is its default port. The bits of the event group \<open>status_bits\<close> are three fields, and so are the local
  variables of the task that outlive an iteration of its loop.
\<close>

record esp_mqtt_client = mqtt_state +
  transport_list :: "(cstring \<times> int) list option"
  transport :: "int option"
  config :: mqtt_config_storage
  state :: mqtt_client_state
  refresh_connection_tick :: "64 word"
  keepalive_tick :: "64 word"
  reconnect_tick :: "64 word"
  mqtt5_config :: mqtt5_config_storage
  send_publish_packet_count :: "16 word"
  wait_timeout_ms :: int
  event :: client_event
  run :: bool
  stopping :: bool
  wait_for_ping_resp :: bool
  outbox :: outbox
  stopped_bit :: bool
  reconnect_bit :: bool
  disconnect_bit :: bool
  task_handle :: bool
  last_retransmit :: "64 word"
  msg_tick :: "64 word"

text \<open>A function of the client: \<open>None\<close> is an access outside an object, or no return.\<close>

type_synonym 'a client_op = "esp_mqtt_client \<Rightarrow> ('a \<times> esp_mqtt_client) option"

abbreviation conn_info :: "esp_mqtt_client \<Rightarrow> mqtt_connect_info" where
  "conn_info c \<equiv> information (connection c)"

abbreviation is_v5 :: "esp_mqtt_client \<Rightarrow> bool" where
  "is_v5 c \<equiv> protocol_ver (conn_info c) = MQTT_PROTOCOL_V_5"

abbreviation outbound :: "esp_mqtt_client \<Rightarrow> mqtt_message" where
  "outbound c \<equiv> outbound_message (connection c)"

section \<open>Calls into the environment\<close>

definition platform_tick_get_ms :: "esp_mqtt_client \<Rightarrow> 64 word \<times> esp_mqtt_client" where
  "platform_tick_get_ms c =
     (let t = (case delays c of [] \<Rightarrow> clock c | d # _ \<Rightarrow> clock c + d)
      in (of_nat t, c\<lparr>clock := t, delays := tl (delays c)\<rparr>))"

datatype read_result = Bytes nat | Timed_Out | Closed_By_Fin | Read_Error

text \<open>A read of at most \<open>n\<close> bytes to position \<open>off\<close> of the receive buffer.\<close>

definition esp_transport_read :: "nat \<Rightarrow> nat \<Rightarrow> read_result client_op" where
  "esp_transport_read off n c =
     (case rx_plan c of
        [] \<Rightarrow> Some (Timed_Out, c)
      | Rx_Chunk k # plan \<Rightarrow>
          let m = min n (min k (length (wire c))); c = c\<lparr>rx_plan := plan\<rparr> in
          if m = 0 then Some (Timed_Out, c)
          else do {
            b \<leftarrow> store (in_buffer c) off (take m (wire c));
            Some (Bytes m, c\<lparr>in_buffer := b, wire := drop m (wire c)\<rparr>)
          }
      | Rx_Timeout # plan \<Rightarrow> Some (Timed_Out, c\<lparr>rx_plan := plan\<rparr>)
      | Rx_Eof # plan \<Rightarrow> Some (Closed_By_Fin, c\<lparr>rx_plan := plan\<rparr>)
      | Rx_Failed # plan \<Rightarrow> Some (Read_Error, c\<lparr>rx_plan := plan\<rparr>))"

text \<open>A write of some bytes: how many were taken, or \<open>None\<close> for an error.\<close>

definition esp_transport_write :: "byte list \<Rightarrow> esp_mqtt_client \<Rightarrow> nat option \<times> esp_mqtt_client" where
  "esp_transport_write bs c =
     (case tx_plan c of
        [] \<Rightarrow> (Some (length bs), c\<lparr>sent := sent c @ bs\<rparr>)
      | Tx_Chunk k # plan \<Rightarrow>
          (Some (min k (length bs)), c\<lparr>tx_plan := plan, sent := sent c @ take k bs\<rparr>)
      | Tx_Timeout # plan \<Rightarrow> (Some 0, c\<lparr>tx_plan := plan\<rparr>)
      | Tx_Failed # plan \<Rightarrow> (None, c\<lparr>tx_plan := plan\<rparr>))"

definition esp_transport_connect :: "esp_mqtt_client \<Rightarrow> bool \<times> esp_mqtt_client" where
  "esp_transport_connect c =
     (case connect_plan c of [] \<Rightarrow> (True, c) | ok # plan \<Rightarrow> (ok, c\<lparr>connect_plan := plan\<rparr>))"

definition esp_transport_poll_read :: "esp_mqtt_client \<Rightarrow> bool \<times> esp_mqtt_client" where
  "esp_transport_poll_read c =
     (case poll_plan c of [] \<Rightarrow> (True, c) | ok # plan \<Rightarrow> (ok, c\<lparr>poll_plan := plan\<rparr>))"

definition last_transport_error :: "esp_mqtt_client \<Rightarrow> transport_error \<times> esp_mqtt_client" where
  "last_transport_error c =
     (case error_plan c of
        [] \<Rightarrow> (\<lparr>te_last_esp_err = 0, te_stack_err = 0, te_cert_verify_flags = 0, te_sock_errno = 0\<rparr>, c)
      | e # plan \<Rightarrow> (e, c\<lparr>error_plan := plan\<rparr>))"

definition client_calloc :: "esp_mqtt_client \<Rightarrow> bool \<times> esp_mqtt_client" where
  "client_calloc c = (let (ok, h) = calloc (allocs c) in (ok, c\<lparr>allocs := h\<rparr>))"

end
