(* ===== verification/Mqtt5_Client.thy ===== *)
theory Mqtt5_Client
  imports Mqtt_Client_State
begin

text \<open>
  The MQTT 5 part of the client: \<^verbatim>\<open>mqtt5_client.c\<close>. Parsed replies go to the event structure and
  to the configuration, the count of unacknowledged publishes and the receive maximum of the
  broker control the flow, topic aliases of the broker are kept in a list, and the properties of
  the next packets are set by the application.
\<close>

definition with_client :: "'a \<Rightarrow> 'a client_op \<Rightarrow> esp_mqtt_client option \<Rightarrow> ('a \<times> esp_mqtt_client option) option" where
  "with_client err f handle =
     (case handle of None \<Rightarrow> Some (err, None)
      | Some c \<Rightarrow> do { (r, c) \<leftarrow> f c; Some (r, Some c) })"

definition upd_event :: "(client_event \<Rightarrow> client_event) \<Rightarrow> esp_mqtt_client \<Rightarrow> esp_mqtt_client" where
  "upd_event f c = c\<lparr>event := f (event c)\<rparr>"

definition upd_property ::
  "(esp_mqtt5_event_property \<Rightarrow> esp_mqtt5_event_property) \<Rightarrow> esp_mqtt_client \<Rightarrow> esp_mqtt_client" where
  "upd_property f = upd_event (\<lambda>e. e\<lparr>event_property := f (event_property e)\<rparr>)"

definition upd_mqtt5 :: "(mqtt5_config_storage \<Rightarrow> mqtt5_config_storage) \<Rightarrow> esp_mqtt_client \<Rightarrow> esp_mqtt_client" where
  "upd_mqtt5 f c = c\<lparr>mqtt5_config := f (mqtt5_config c)\<rparr>"

section \<open>Flow control\<close>

definition esp_mqtt5_increment_packet_counter :: "esp_mqtt_client \<Rightarrow> esp_mqtt_client" where
  "esp_mqtt5_increment_packet_counter c =
     c\<lparr>send_publish_packet_count := send_publish_packet_count c + 1\<rparr>"

definition esp_mqtt5_decrement_packet_counter :: "esp_mqtt_client \<Rightarrow> esp_mqtt_client" where
  "esp_mqtt5_decrement_packet_counter c =
     (if send_publish_packet_count c > 0
      then c\<lparr>send_publish_packet_count := send_publish_packet_count c - 1\<rparr> else c)"

definition esp_mqtt5_client_check_inflight_maximum :: "esp_mqtt_client \<Rightarrow> esp_err" where
  "esp_mqtt5_client_check_inflight_maximum c =
     (if send_publish_packet_count c \<ge> sr_receive_maximum (server_resp_property_info (mqtt5_config c))
      then ESP_FAIL else ESP_OK)"

definition esp_mqtt5_client_subscribe_check :: "esp_mqtt_client \<Rightarrow> int \<Rightarrow> esp_err" where
  "esp_mqtt5_client_subscribe_check c qos =
     (if uint (sr_max_qos (server_resp_property_info (mqtt5_config c))) < qos then ESP_FAIL else ESP_OK)"

definition esp_mqtt5_client_publish_check :: "esp_mqtt_client \<Rightarrow> int \<Rightarrow> int \<Rightarrow> esp_err" where
  "esp_mqtt5_client_publish_check c qos retain =
     (let server = server_resp_property_info (mqtt5_config c) in
      if uint (sr_max_qos server) < qos then ESP_FAIL
      else if \<not> sr_retain_available server \<and> retain \<noteq> 0 then ESP_FAIL
      else ESP_OK)"

section \<open>Replies of the broker\<close>

text \<open>The common part of three functions: a reason code, the data and the user properties of a reply.\<close>

definition set_reply_data :: "nat option \<Rightarrow> nat \<Rightarrow> mqtt5_user_property_handle \<Rightarrow> heap \<Rightarrow> esp_mqtt_client \<Rightarrow> esp_mqtt_client" where
  "set_reply_data data len user_property h c =
     upd_event (\<lambda>e. e\<lparr>data_ptr := (case data of None \<Rightarrow> Null_Ptr | Some i \<Rightarrow> In_Recv i),
         event_data_len := int len, event_total_data_len := int len, event_current_data_offset := 0\<rparr>)
       (upd_property (\<lambda>p. p\<lparr>ep_user_property := user_property\<rparr>) (c\<lparr>allocs := h\<rparr>))"

definition set_reason :: "esp_mqtt_client \<Rightarrow> esp_mqtt_client option" where
  "set_reason c = do {
     reason \<leftarrow> mqtt5_msg_get_reason_code (in_buffer c) (in_buffer_read_len c);
     Some (upd_event (\<lambda>e. e\<lparr>event_reason_code := reason\<rparr>) c)
   }"

definition esp_mqtt5_parse_puback :: "esp_mqtt_client \<Rightarrow> esp_mqtt_client option" where
  "esp_mqtt5_parse_puback c =
     (if is_v5 c then do {
        c \<leftarrow> set_reason c;
        (data, len, user_property, h) \<leftarrow>
          mqtt5_get_puback_data (allocs c) (in_buffer c) (in_buffer_read_len c)
            (ep_user_property (event_property (event c)));
        Some (set_reply_data data len user_property h c)
      } else Some c)"

text \<open>\<^verbatim>\<open>mqtt5_get_pubcomp_data\<close> is another name of \<open>mqtt5_get_puback_data\<close>, and \<^verbatim>\<open>mqtt5_get_unsuback_data\<close> of \<open>mqtt5_get_suback_data\<close>.\<close>

definition esp_mqtt5_parse_pubcomp :: "esp_mqtt_client \<Rightarrow> esp_mqtt_client option" where
  "esp_mqtt5_parse_pubcomp c = esp_mqtt5_parse_puback c"

definition esp_mqtt5_parse_unsuback :: "esp_mqtt_client \<Rightarrow> esp_mqtt_client option" where
  "esp_mqtt5_parse_unsuback c =
     (if is_v5 c then do {
        c \<leftarrow> set_reason c;
        (data, len, user_property, h) \<leftarrow> mqtt5_get_suback_data (allocs c) (in_buffer c) (in_buffer_read_len c);
        Some (set_reply_data data len user_property h c)
      } else Some c)"

definition esp_mqtt5_parse_suback :: "esp_mqtt_client \<Rightarrow> esp_mqtt_client option" where
  "esp_mqtt5_parse_suback c =
     (if is_v5 c then set_reason c else Some c)"

text \<open>The reason code of a DISCONNECT; the caller has checked the protocol version.\<close>

definition esp_mqtt5_parse_disconnect :: "esp_mqtt_client \<Rightarrow> int option" where
  "esp_mqtt5_parse_disconnect c = mqtt5_msg_get_reason_code (in_buffer c) (in_buffer_read_len c)"

abbreviation (input) MQTT5_DEFAULT_RECEIVE_MAXIMUM :: "16 word" where
  "MQTT5_DEFAULT_RECEIVE_MAXIMUM \<equiv> 65535"

definition event_server :: "esp_mqtt5_connection_server_resp_property \<Rightarrow> esp_mqtt5_server_resp_property option" where
  "event_server src = do {
     len \<leftarrow> (case sr_response_info src of Null_Str \<Rightarrow> Some 0 | Str s \<Rightarrow> Some (length (c_str s)) | Freed \<Rightarrow> None);
     Some \<lparr>es_maximum_packet_size = sr_maximum_packet_size src, es_receive_maximum = sr_receive_maximum src,
       es_topic_alias_maximum = sr_topic_alias_maximum src, es_max_qos = sr_max_qos src,
       es_retain_available = sr_retain_available src,
       es_wildcard_subscribe_available = sr_wildcard_subscribe_available src,
       es_subscribe_identifiers_available = sr_subscribe_identifiers_available src,
       es_shared_subscribe_available = sr_shared_subscribe_available src,
       es_response_info = sr_response_info src, es_response_info_len = len\<rparr>
   }"

text \<open>The result and the reason code stored through \<open>connect_rsp_code\<close>.\<close>

definition esp_mqtt5_parse_connack :: "(esp_err \<times> int) client_op" where
  "esp_mqtt5_parse_connack c = do {
     let len = in_buffer_read_len c;
     let c = c\<lparr>in_buffer_read_len := 0\<rparr>;
     let c = upd_mqtt5 (\<lambda>m. m\<lparr>server_resp_property_info :=
       (server_resp_property_info m)\<lparr>sr_receive_maximum := MQTT5_DEFAULT_RECEIVE_MAXIMUM\<rparr>\<rparr>) c;
     (err, out, h) \<leftarrow> mqtt5_msg_parse_connack_property (allocs c) (in_buffer c) len
       \<lparr>connection_info = conn_info c, connection_property = connect_property_info (mqtt5_config c),
        server_resp = server_resp_property_info (mqtt5_config c), reason_code = 0, ack_flag = 0,
        connack_user_property = ep_user_property (event_property (event c))\<rparr>;
     let c = c\<lparr>allocs := h, connection := (connection c)\<lparr>information := connection_info out\<rparr>\<rparr>;
     let c = upd_mqtt5 (\<lambda>m. m\<lparr>connect_property_info := connection_property out,
       server_resp_property_info := server_resp out\<rparr>) c;
     let c = upd_property (\<lambda>p. p\<lparr>ep_user_property := connack_user_property out\<rparr>) c;
     if err \<noteq> ESP_OK then Some ((ESP_FAIL, reason_code out), c)
     else if reason_code out = MQTT_CONNECTION_ACCEPTED then do {
       server \<leftarrow> event_server (server_resp out);
       let c = upd_event (\<lambda>e. e\<lparr>event_session_present := uint (ack_flag out AND 0x01)\<rparr>) c;
       Some ((ESP_OK, reason_code out), upd_property (\<lambda>p. p\<lparr>ep_server := server\<rparr>) c)
     }
     else Some ((ESP_FAIL, reason_code out), c)
   }"

section \<open>Topic aliases of the broker\<close>

fun find_alias :: "16 word \<Rightarrow> mqtt5_topic_alias list \<Rightarrow> mqtt5_topic_alias option" where
  "find_alias a [] = None"
| "find_alias a (x # xs) = (if ta_topic_alias x = a then Some x else find_alias a xs)"

fun update_alias :: "16 word \<Rightarrow> (mqtt5_topic_alias \<Rightarrow> mqtt5_topic_alias) \<Rightarrow> mqtt5_topic_alias list \<Rightarrow> mqtt5_topic_alias list" where
  "update_alias a f [] = []"
| "update_alias a f (x # xs) = (if ta_topic_alias x = a then f x # xs else x # update_alias a f xs)"

text \<open>The stored topic, or \<open>NULL\<close>, and its length.\<close>

definition esp_mqtt5_client_get_topic_alias ::
  "mqtt5_topic_alias list \<Rightarrow> 16 word \<Rightarrow> byte list option \<times> nat" where
  "esp_mqtt5_client_get_topic_alias l topic_alias =
     (case find_alias topic_alias l of None \<Rightarrow> (None, 0) | Some x \<Rightarrow> (ta_topic x, unat (ta_topic_len x)))"

text \<open>
  \<^verbatim>\<open>strncmp\<close> of a topic with a stored one of the same length compares up to the first zero; a
  stored topic is missing when its allocation failed before, and then it is read through \<open>NULL\<close>.
\<close>

definition esp_mqtt5_client_update_topic_alias ::
  "heap \<Rightarrow> mqtt5_topic_alias list \<Rightarrow> 16 word \<Rightarrow> byte list
     \<Rightarrow> (esp_err \<times> mqtt5_topic_alias list \<times> heap) option" where
  "esp_mqtt5_client_update_topic_alias h l topic_alias topic =
     (case find_alias topic_alias l of
        Some x \<Rightarrow> do {
          same \<leftarrow> (if unat (ta_topic_len x) \<noteq> length topic then Some False
                   else do { t \<leftarrow> ta_topic x; Some (c_str t = c_str topic) });
          if same then Some (ESP_OK, l, h)
          else let (ok, h) = calloc h in
            if \<not> ok then Some (ESP_FAIL, update_alias topic_alias (\<lambda>x. x\<lparr>ta_topic := None\<rparr>) l, h)
            else Some (ESP_OK, update_alias topic_alias
              (\<lambda>x. x\<lparr>ta_topic := Some topic, ta_topic_len := of_nat (length topic)\<rparr>) l, h)
        }
      | None \<Rightarrow>
          let (ok, h) = calloc h in
          if \<not> ok then Some (ESP_FAIL, l, h)
          else let (ok, h) = calloc h in
            if \<not> ok then Some (ESP_FAIL, l, h)
            else Some (ESP_OK, l @ [\<lparr>ta_topic = Some topic, ta_topic_len = of_nat (length topic),
              ta_topic_alias = topic_alias\<rparr>], h))"

text \<open>
  The topic to report: the one in the message, or the one stored for its alias; \<open>Inl\<close> is a
  failure. The alias list exists when the maximum that was announced to the broker is not zero.
\<close>

definition resolve_alias ::
  "16 word \<Rightarrow> nat \<Rightarrow> nat \<Rightarrow> (unit + event_ptr \<times> nat) client_op" where
  "resolve_alias topic_alias topic topic_len c =
     (if topic_alias > cp_topic_alias_maximum (connect_property_info (mqtt5_config c)) then Some (Inl (), c)
      else if topic_alias = 0 then Some (Inr (In_Recv topic, topic_len), c)
      else do {
        l \<leftarrow> peer_topic_alias (mqtt5_config c);
        if topic_len = 0 then
          case esp_mqtt5_client_get_topic_alias l topic_alias of
            (None, _) \<Rightarrow> Some (Inl (), c)
          | (Some t, n) \<Rightarrow> Some (Inr (To_String t, n), c)
        else do {
          t \<leftarrow> slice (in_buffer c) topic topic_len;
          (err, l, h) \<leftarrow> esp_mqtt5_client_update_topic_alias (allocs c) l topic_alias t;
          let c = upd_mqtt5 (\<lambda>m. m\<lparr>peer_topic_alias := Some l\<rparr>) (c\<lparr>allocs := h\<rparr>);
          if err \<noteq> ESP_OK then Some (Inl (), c) else Some (Inr (In_Recv topic, topic_len), c)
        }
      })"

text \<open>Topic, its length, offset and length of the payload.\<close>

definition esp_mqtt5_get_publish_data :: "nat \<Rightarrow> (unit + event_ptr \<times> nat \<times> nat \<times> nat) client_op" where
  "esp_mqtt5_get_publish_data msg_read_len c = do {
     (data, out, h) \<leftarrow> mqtt5_get_publish_property_payload (allocs c) (in_buffer c) msg_read_len
       \<lparr>msg_topic = 0, msg_topic_len = msg_read_len,
        resp_property = \<lparr>pr_payload_format_indicator = False, pr_message_expiry_interval = 0,
          pr_topic_alias = 0, pr_response_topic = None, pr_response_topic_len = 0,
          pr_correlation_data = None, pr_correlation_data_len = 0, pr_content_type = None,
          pr_content_type_len = 0, pr_subscribe_id = 0\<rparr>,
        property_len_out = 0, payload_len_out = of_nat msg_read_len, user_property_out = None\<rparr>;
     let c = upd_property (\<lambda>p. p\<lparr>ep_user_property := user_property_out out\<rparr>) (c\<lparr>allocs := h\<rparr>);
     case data of None \<Rightarrow> Some (Inl (), c)
     | Some payload \<Rightarrow> do {
         let property = resp_property out;
         (r, c) \<leftarrow> resolve_alias (pr_topic_alias property) (msg_topic out) (msg_topic_len out) c;
         case r of Inl _ \<Rightarrow> Some (Inl (), c)
         | Inr (topic, topic_len) \<Rightarrow>
             Some (Inr (topic, topic_len, payload, unat (payload_len_out out)),
               upd_property (\<lambda>p. p\<lparr>ep_payload_format_indicator := pr_payload_format_indicator property,
                 ep_response_topic := pr_response_topic property,
                 ep_response_topic_len := pr_response_topic_len property,
                 ep_correlation_data := pr_correlation_data property,
                 ep_correlation_data_len := pr_correlation_data_len property,
                 ep_content_type := pr_content_type property,
                 ep_content_type_len := pr_content_type_len property,
                 ep_subscribe_id := pr_subscribe_id property\<rparr>) c)
       }
   }"

section \<open>User properties\<close>

text \<open>
  The copy of a list: three allocations for each item. The list it appends to is returned also
  when one of them fails.
\<close>

fun user_property_copy :: "heap \<Rightarrow> mqtt5_user_property list \<Rightarrow> mqtt5_user_property list
     \<Rightarrow> esp_err \<times> mqtt5_user_property list \<times> heap" where
  "user_property_copy h new [] = (ESP_OK, new, h)"
| "user_property_copy h new (x # xs) =
     (let (ok, h) = calloc h in if \<not> ok then (ESP_FAIL, new, h)
      else let (ok, h) = calloc h in if \<not> ok then (ESP_FAIL, new, h)
      else let (ok, h) = calloc h in if \<not> ok then (ESP_FAIL, new, h)
      else user_property_copy h (new @ [\<lparr>key = c_str (key x), val = c_str (val x)\<rparr>]) xs)"

definition esp_mqtt5_user_property_copy ::
  "heap \<Rightarrow> mqtt5_user_property_handle \<Rightarrow> mqtt5_user_property_handle
     \<Rightarrow> esp_err \<times> mqtt5_user_property_handle \<times> heap" where
  "esp_mqtt5_user_property_copy h user_property_new user_property_old =
     (case (user_property_new, user_property_old) of
        (Some new, Some old) \<Rightarrow> (let (err, l, h) = user_property_copy h new old in (err, Some l, h))
      | _ \<Rightarrow> (ESP_FAIL, user_property_new, h))"

text \<open>An item of the application: its key and its value, either may be \<open>NULL\<close> and is then skipped.\<close>

record esp_mqtt5_user_property_item =
  upi_key :: "cstring option"
  upi_value :: "cstring option"

fun add_user_items :: "heap \<Rightarrow> mqtt5_user_property list \<Rightarrow> esp_mqtt5_user_property_item list
     \<Rightarrow> mqtt5_user_property list option \<times> heap" where
  "add_user_items h l [] = (Some l, h)"
| "add_user_items h l (i # is) =
     (case (upi_key i, upi_value i) of
        (Some k, Some v) \<Rightarrow>
          (let (ok, h) = calloc h in if \<not> ok then (None, h)
           else let (ok, h) = calloc h in if \<not> ok then (None, h)
           else let (ok, h) = calloc h in if \<not> ok then (None, h)
           else add_user_items h (l @ [\<lparr>key = k, val = v\<rparr>]) is)
      | _ \<Rightarrow> add_user_items h l is)"

text \<open>\<open>item_num\<close> is the length of the array; a failed allocation deletes the whole list.\<close>

definition esp_mqtt5_client_set_user_property ::
  "heap \<Rightarrow> mqtt5_user_property_handle \<Rightarrow> esp_mqtt5_user_property_item list option
     \<Rightarrow> esp_err \<times> mqtt5_user_property_handle \<times> heap" where
  "esp_mqtt5_client_set_user_property h user_property item =
     (case item of None \<Rightarrow> (ESP_FAIL, user_property, h)
      | Some [] \<Rightarrow> (ESP_FAIL, user_property, h)
      | Some is \<Rightarrow>
          let (ok, h) = (if user_property = None then calloc h else (True, h)) in
          if \<not> ok then (ESP_ERR_NO_MEM, None, h)
          else case add_user_items h (case user_property of None \<Rightarrow> [] | Some l \<Rightarrow> l) is of
            (None, h) \<Rightarrow> (ESP_ERR_NO_MEM, None, h)
          | (Some l, h) \<Rightarrow> (ESP_OK, Some l, h))"

fun copy_out :: "heap \<Rightarrow> mqtt5_user_property list \<Rightarrow> nat \<Rightarrow> (cstring \<times> cstring) list option \<times> heap" where
  "copy_out h [] num = (Some [], h)"
| "copy_out h (x # xs) 0 = (Some [], h)"
| "copy_out h (x # xs) (Suc num) =
     (let (ok, h) = calloc h in if \<not> ok then (None, h)
      else let (ok, h) = calloc h in if \<not> ok then (None, h)
      else case copy_out h xs num of
        (None, h) \<Rightarrow> (None, h)
      | (Some r, h) \<Rightarrow> (Some ((c_str (key x), c_str (val x)) # r), h))"

text \<open>The first \<open>item_num\<close> items; the new value of \<open>item_num\<close> is the length of the list.\<close>

definition esp_mqtt5_client_get_user_property ::
  "heap \<Rightarrow> mqtt5_user_property_handle \<Rightarrow> byte \<Rightarrow> esp_err \<times> (cstring \<times> cstring) list \<times> heap" where
  "esp_mqtt5_client_get_user_property h user_property item_num =
     (case user_property of None \<Rightarrow> (ESP_FAIL, [], h)
      | Some l \<Rightarrow>
          if item_num = 0 then (ESP_FAIL, [], h)
          else case copy_out h l (unat item_num) of
            (None, h) \<Rightarrow> (ESP_ERR_NO_MEM, [], h) | (Some r, h) \<Rightarrow> (ESP_OK, r, h))"

definition esp_mqtt5_client_get_user_property_count :: "mqtt5_user_property_handle \<Rightarrow> byte" where
  "esp_mqtt5_client_get_user_property_count user_property =
     (case user_property of None \<Rightarrow> 0 | Some l \<Rightarrow> fold (\<lambda>_ count. count + 1) l 0)"

section \<open>Properties of the next packets\<close>

definition esp_mqtt5_client_set_publish_property ::
  "esp_mqtt5_publish_property_config \<Rightarrow> esp_mqtt_client option \<Rightarrow> (esp_err \<times> esp_mqtt_client option) option" where
  "esp_mqtt5_client_set_publish_property property = with_client ESP_ERR_INVALID_ARG (\<lambda>c.
     if \<not> is_v5 c then Some (ESP_FAIL, c)
     else if pp_topic_alias property > sr_topic_alias_maximum (server_resp_property_info (mqtt5_config c))
     then Some (ESP_FAIL, c)
     else Some (ESP_OK, upd_mqtt5 (\<lambda>m. m\<lparr>publish_property_info := Some property\<rparr>) c))"

definition share_allowed :: "esp_mqtt_client \<Rightarrow> cstring option \<Rightarrow> bool" where
  "share_allowed c share_name \<longleftrightarrow>
     sr_shared_subscribe_available (server_resp_property_info (mqtt5_config c)) \<and> nonempty share_name"

definition esp_mqtt5_client_set_subscribe_property ::
  "esp_mqtt5_subscribe_property_config \<Rightarrow> esp_mqtt_client option \<Rightarrow> (esp_err \<times> esp_mqtt_client option) option" where
  "esp_mqtt5_client_set_subscribe_property property = with_client ESP_ERR_INVALID_ARG (\<lambda>c.
     if sp_retain_handle property > 2 then Some (ESP_FAIL, c)
     else if \<not> is_v5 c then Some (ESP_FAIL, c)
     else if sp_is_share_subscribe property \<and>
       (sp_no_local_flag property \<or> \<not> share_allowed c (sp_share_name property)) then Some (ESP_FAIL, c)
     else Some (ESP_OK, upd_mqtt5 (\<lambda>m. m\<lparr>subscribe_property_info := Some property\<rparr>) c))"

definition esp_mqtt5_client_set_unsubscribe_property ::
  "esp_mqtt5_unsubscribe_property_config \<Rightarrow> esp_mqtt_client option \<Rightarrow> (esp_err \<times> esp_mqtt_client option) option" where
  "esp_mqtt5_client_set_unsubscribe_property property = with_client ESP_ERR_INVALID_ARG (\<lambda>c.
     if \<not> is_v5 c then Some (ESP_FAIL, c)
     else if up_is_share_subscribe property \<and> \<not> share_allowed c (up_share_name property) then Some (ESP_FAIL, c)
     else Some (ESP_OK, upd_mqtt5 (\<lambda>m. m\<lparr>unsubscribe_property_info := Some property\<rparr>) c))"

definition upd_disconnect ::
  "(esp_mqtt5_disconnect_property_config \<Rightarrow> esp_mqtt5_disconnect_property_config) \<Rightarrow> esp_mqtt_client \<Rightarrow> esp_mqtt_client" where
  "upd_disconnect f = upd_mqtt5 (\<lambda>m. m\<lparr>disconnect_property_info := f (disconnect_property_info m)\<rparr>)"

definition esp_mqtt5_client_set_disconnect_property ::
  "esp_mqtt5_disconnect_property_config option \<Rightarrow> esp_mqtt_client option \<Rightarrow> (esp_err \<times> esp_mqtt_client option) option" where
  "esp_mqtt5_client_set_disconnect_property property = with_client ESP_ERR_INVALID_ARG (\<lambda>c.
     if \<not> is_v5 c then Some (ESP_FAIL, c)
     else case property of None \<Rightarrow> Some (ESP_OK, c)
     | Some p \<Rightarrow>
        let c = (if dp_session_expiry_interval p \<noteq> 0
                 then upd_disconnect (\<lambda>d. d\<lparr>dp_session_expiry_interval := dp_session_expiry_interval p\<rparr>) c else c);
            c = (if dp_disconnect_reason p \<noteq> 0
                 then upd_disconnect (\<lambda>d. d\<lparr>dp_disconnect_reason := dp_disconnect_reason p\<rparr>) c else c)
        in if dp_user_property p = None then Some (ESP_OK, c)
        else let (ok, c) = client_calloc c in
          if \<not> ok then Some (ESP_ERR_NO_MEM, upd_disconnect (\<lambda>d. d\<lparr>dp_user_property := None\<rparr>) c)
          else let (err, l, h) = esp_mqtt5_user_property_copy (allocs c) (Some []) (dp_user_property p);
                   c = c\<lparr>allocs := h\<rparr> in
            if err \<noteq> ESP_OK then Some (ESP_FAIL, upd_disconnect (\<lambda>d. d\<lparr>dp_user_property := None\<rparr>) c)
            else Some (ESP_OK, upd_disconnect (\<lambda>d. d\<lparr>dp_user_property := l\<rparr>) c))"

end
