(* ===== verification/Mqtt_Client.thy ===== *)
theory Mqtt_Client
  imports Mqtt5_Client
begin

text \<open>
  The client itself: \<^verbatim>\<open>mqtt_client.c\<close> from the composition of control packets to the task and the
  calls of the application, for all protocol versions. Every function takes the client and
  returns it; the API lock is not a value of the model, since each definition is a piece of code
  that runs under it from beginning to end. Two exceptions: the tests of limit and state at the start of a
  subscription precede the lock in the source, and a handler of the application that calls
  back into the client while an event is dispatched is not part of the model. Calls that only write to
  the log are left out.
\<close>

section \<open>Events\<close>

definition pointed :: "event_ptr \<Rightarrow> int \<Rightarrow> esp_mqtt_client \<Rightarrow> byte list option" where
  "pointed p len c =
     (case p of Null_Ptr \<Rightarrow> None
      | In_Recv i \<Rightarrow> Some (take (nat len) (drop i (in_buffer c)))
      | To_String s \<Rightarrow> Some (take (nat len) s))"

text \<open>The event goes to the event loop with what its pointers lead to; its user properties are deleted.\<close>

definition esp_mqtt_dispatch_event :: "esp_mqtt_client \<Rightarrow> esp_mqtt_client" where
  "esp_mqtt_dispatch_event c =
     (let c = upd_event (\<lambda>e. e\<lparr>event_protocol_ver := protocol_ver (conn_info c)\<rparr>) c;
          e = event c;
          c = c\<lparr>events := events c @
            [e\<lparr>event_data := pointed (data_ptr e) (event_data_len e) c,
               event_topic := pointed (topic_ptr e) (event_topic_len e) c\<rparr>]\<rparr>
      in if is_v5 c then upd_property (\<lambda>p. p\<lparr>ep_user_property := None\<rparr>) c else c)"

definition message_id_of :: "esp_mqtt_client \<Rightarrow> nat \<Rightarrow> nat option" where
  "message_id_of c len = (if is_v5 c then mqtt5_get_id (in_buffer c) len else mqtt_get_id (in_buffer c) len)"

definition esp_mqtt_dispatch_event_with_msgid :: "esp_mqtt_client \<Rightarrow> esp_mqtt_client option" where
  "esp_mqtt_dispatch_event_with_msgid c = do {
     i \<leftarrow> message_id_of c (in_buffer_length c);
     Some (esp_mqtt_dispatch_event (upd_event (\<lambda>e. e\<lparr>event_msg_id := int i\<rparr>) c))
   }"

definition upd_error :: "(esp_mqtt_error_codes \<Rightarrow> esp_mqtt_error_codes) \<Rightarrow> esp_mqtt_client \<Rightarrow> esp_mqtt_client" where
  "upd_error f = upd_event (\<lambda>e. e\<lparr>event_error_handle := map_option f (event_error_handle e)\<rparr>)"

definition esp_mqtt_client_dispatch_transport_error :: "esp_mqtt_client \<Rightarrow> esp_mqtt_client option" where
  "esp_mqtt_client_dispatch_transport_error c =
     (let c = upd_event (\<lambda>e. e\<lparr>event_id := MQTT_EVENT_ERROR, disconnect_return_code := 0, event_reason_code := 0\<rparr>) c;
          (te, c) = last_transport_error c;
          c = upd_error (\<lambda>h. h\<lparr>error_type := MQTT_ERROR_TYPE_TCP_TRANSPORT, connect_return_code := 0,
                esp_tls_last_esp_err := te_last_esp_err te, esp_tls_stack_err := te_stack_err te,
                esp_tls_cert_verify_flags := te_cert_verify_flags te,
                esp_transport_sock_errno := te_sock_errno te\<rparr>) c
      in esp_mqtt_dispatch_event_with_msgid c)"

definition esp_mqtt_client_dispatch_start_error :: "int \<Rightarrow> esp_mqtt_client \<Rightarrow> esp_mqtt_client option" where
  "esp_mqtt_client_dispatch_start_error err c =
     esp_mqtt_dispatch_event_with_msgid
       (upd_error (\<lambda>h. \<lparr>esp_tls_last_esp_err = err, esp_tls_stack_err = 0, esp_tls_cert_verify_flags = 0,
            error_type = MQTT_ERROR_TYPE_TCP_TRANSPORT, connect_return_code = 0, esp_transport_sock_errno = 0\<rparr>)
       (upd_event (\<lambda>e. e\<lparr>event_id := MQTT_EVENT_ERROR, disconnect_return_code := 0\<rparr>) c))"

text \<open>0 for a timeout, -1 for a timeout within a message, -2 for an error or the end of the stream.\<close>

definition esp_mqtt_handle_transport_read_error :: "read_result \<Rightarrow> bool \<Rightarrow> int client_op" where
  "esp_mqtt_handle_transport_read_error err mid_message c =
     (if err = Timed_Out then Some (if mid_message then -1 else 0, c)
      else do { c \<leftarrow> esp_mqtt_client_dispatch_transport_error c; Some (-2, c) })"

section \<open>Sending\<close>

definition upd_outbound :: "(mqtt_message \<Rightarrow> mqtt_message) \<Rightarrow> esp_mqtt_client \<Rightarrow> esp_mqtt_client" where
  "upd_outbound f c = c\<lparr>connection := (connection c)\<lparr>outbound_message := f (outbound c)\<rparr>\<rparr>"

definition mqtt_reset_pending_message :: "esp_mqtt_client \<Rightarrow> esp_mqtt_client" where
  "mqtt_reset_pending_message c =
     upd_outbound (\<lambda>m. m\<lparr>fragmented_msg_total_length := 0, fragmented_msg_data_offset := 0\<rparr>)
       (c\<lparr>pending_msg_id := 0, pending_msg_type := 0, pending_publish_qos := 0\<rparr>)"

text \<open>The bytes behind \<open>outbound_message.data\<close>.\<close>

definition outbound_data :: "esp_mqtt_client \<Rightarrow> byte list" where
  "outbound_data c =
     (case msg_data (outbound c) of
        Null \<Rightarrow> [] | In_Buffer i \<Rightarrow> drop i (buffer (connection c)) | In_Outbox bs \<Rightarrow> bs)"

text \<open>Every write takes at least one of the bytes that are left, or ends the loop.\<close>

function write_loop :: "byte list \<Rightarrow> esp_err client_op" where
  "write_loop bs c =
     (if bs = [] then Some (ESP_OK, c)
      else case esp_transport_write bs c of
        (None, c) \<Rightarrow> do { c \<leftarrow> esp_mqtt_client_dispatch_transport_error c; Some (ESP_FAIL, c) }
      | (Some wlen, c) \<Rightarrow> if wlen = 0 then Some (ESP_ERR_TIMEOUT, c) else write_loop (drop wlen bs) c)"
  by pat_completeness auto
termination
  by (relation "measure (\<lambda>(bs, c). length bs)") auto

declare write_loop.simps [simp del]

definition esp_mqtt_write :: "esp_err client_op" where
  "esp_mqtt_write c = do {
     bs \<leftarrow> fetch (outbound_data c) (msg_length (outbound c));
     write_loop bs c
   }"

text \<open>Composition of a control packet by one of the two codecs.\<close>

definition compose :: "(mqtt_connection \<Rightarrow> mqtt_connection option) \<Rightarrow> (mqtt_connection \<Rightarrow> mqtt_connection option)
     \<Rightarrow> esp_mqtt_client \<Rightarrow> esp_mqtt_client option" where
  "compose v5 v3 c = do {
     conn \<leftarrow> (if is_v5 c then v5 (connection c) else v3 (connection c));
     Some (c\<lparr>connection := conn\<rparr>)
   }"

definition has_message :: "esp_mqtt_client \<Rightarrow> bool" where
  "has_message c \<longleftrightarrow> msg_length (outbound c) \<noteq> 0"

text \<open>An address that no stored item has, as the allocator would return one.\<close>

definition fresh_addr :: "outbox \<Rightarrow> nat" where
  "fresh_addr ob = Suc (fold max (map item_addr (ob_list ob)) 0)"

definition mqtt_enqueue :: "byte list option \<Rightarrow> nat \<Rightarrow> bool client_op" where
  "mqtt_enqueue remaining_data remaining_len c = do {
     let msg = \<lparr>om_data = outbound_data c, om_len = msg_length (outbound c),
       om_msg_id = uint (pending_msg_id c), om_msg_qos = pending_publish_qos c,
       om_msg_type = pending_msg_type c, om_remaining_data = remaining_data,
       om_remaining_len = remaining_len\<rparr>;
     let (tick, c) = platform_tick_get_ms c;
     let (ok_item, c) = client_calloc c;
     let (ok_block, c) = (if ok_item then client_calloc c else (False, c));
     (r, ob) \<leftarrow> outbox_enqueue (outbox c) msg (uint tick)
       (if ok_item then Some (fresh_addr (outbox c)) else None)
       (if ok_block then Some (replicate (om_len msg + remaining_len) 0) else None);
     Some (r \<noteq> None, c\<lparr>outbox := ob\<rparr>)
   }"

definition set_pending :: "int \<Rightarrow> pending_state \<Rightarrow> esp_mqtt_client \<Rightarrow> esp_mqtt_client" where
  "set_pending msg_id p c = c\<lparr>outbox := snd (outbox_set_pending (outbox c) msg_id p)\<rparr>"

definition set_tick :: "int \<Rightarrow> esp_mqtt_client \<Rightarrow> esp_mqtt_client" where
  "set_tick msg_id c =
     (let (tick, c) = platform_tick_get_ms c in c\<lparr>outbox := snd (outbox_set_tick (outbox c) msg_id (uint tick))\<rparr>)"

section \<open>The end of a connection\<close>

definition esp_mqtt_abort_connection :: "esp_mqtt_client \<Rightarrow> esp_mqtt_client option" where
  "esp_mqtt_abort_connection c =
     (let c = (if clean_session (conn_info c)
               then c\<lparr>outbox := snd (outbox_delete_message_type
                      (snd (outbox_delete_message_type (outbox c) MQTT_MSG_TYPE_SUBSCRIBE)) MQTT_MSG_TYPE_UNSUBSCRIBE)\<rparr>
               else c);
          c = c\<lparr>wait_timeout_ms := cs_reconnect_timeout_ms (config c)\<rparr>;
          (now, c) = platform_tick_get_ms c;
          c = c\<lparr>reconnect_tick := now, state := MQTT_STATE_WAIT_RECONNECT\<rparr>;
          c = upd_event (\<lambda>e. e\<lparr>event_id := MQTT_EVENT_DISCONNECTED\<rparr>) (c\<lparr>wait_for_ping_resp := False\<rparr>)
      in esp_mqtt_dispatch_event_with_msgid c)"

section \<open>Keep alive\<close>

definition has_timed_out :: "64 word \<Rightarrow> 64 word \<Rightarrow> esp_mqtt_client \<Rightarrow> bool \<times> esp_mqtt_client" where
  "has_timed_out last_tick timeout c =
     (let (now, c) = platform_tick_get_ms c in (sint (last_tick + timeout - now) \<le> 0, c))"

definition esp_mqtt_client_ping :: "esp_err client_op" where
  "esp_mqtt_client_ping c = do {
     c \<leftarrow> compose mqtt_msg_pingreq mqtt_msg_pingreq c;
     if \<not> has_message c then Some (ESP_FAIL, c)
     else do {
       (err, c) \<leftarrow> esp_mqtt_write c;
       Some (if err \<noteq> ESP_OK then ESP_FAIL else ESP_OK, c)
     }
   }"

definition process_keepalive :: "esp_err client_op" where
  "process_keepalive c =
     (if keepalive (conn_info c) > 0 then
        let keepalive_ms = of_int (keepalive (conn_info c) * 1000) :: 64 word in
        if wait_for_ping_resp c then
          let (out, c) = has_timed_out (keepalive_tick c) keepalive_ms c in
          if out then do {
            c \<leftarrow> esp_mqtt_abort_connection c;
            Some (ESP_FAIL, c\<lparr>wait_for_ping_resp := False\<rparr>)
          } else Some (ESP_OK, c)
        else
          let (out, c) = has_timed_out (keepalive_tick c) (keepalive_ms div 2) c in
          if out then do {
            (err, c) \<leftarrow> esp_mqtt_client_ping c;
            if err = ESP_FAIL then do { c \<leftarrow> esp_mqtt_abort_connection c; Some (ESP_FAIL, c) }
            else Some (ESP_OK, c\<lparr>wait_for_ping_resp := True\<rparr>)
          } else Some (ESP_OK, c)
      else Some (ESP_OK, c))"

section \<open>Receiving\<close>

text \<open>
  A phase of \<open>mqtt_message_receive\<close>: \<open>Some r\<close> when the function returns \<open>r\<close> there, \<open>None\<close> to go on
  with the next phase. The pointer \<open>buf\<close> of the source is always \<open>in_buffer_read_len\<close> bytes behind
  the start of the buffer.
\<close>

type_synonym receive_phase = "esp_mqtt_client \<Rightarrow> (int option \<times> esp_mqtt_client) option"

definition and_then :: "receive_phase \<Rightarrow> receive_phase \<Rightarrow> receive_phase" where
  "and_then s t c = do { (r, c) \<leftarrow> s c; case r of None \<Rightarrow> t c | Some _ \<Rightarrow> Some (r, c) }"

definition read_failed :: "read_result \<Rightarrow> bool \<Rightarrow> receive_phase" where
  "read_failed err mid c = do { (r, c) \<leftarrow> esp_mqtt_handle_transport_read_error err mid c; Some (Some r, c) }"

definition receive_err :: receive_phase where
  "receive_err c = do { c \<leftarrow> esp_mqtt_client_dispatch_transport_error c; Some (Some (-2), c) }"

definition receive_first_byte :: receive_phase where
  "receive_first_byte c =
     (if in_buffer_read_len c = 0 then do {
        (r, c) \<leftarrow> esp_transport_read 0 1 c;
        case r of
          Bytes n \<Rightarrow> do {
            valid \<leftarrow> mqtt_has_valid_msg_hdr (in_buffer c) n;
            if valid then Some (None, c\<lparr>in_buffer_read_len := in_buffer_read_len c + 1\<rparr>) else receive_err c
          }
        | _ \<Rightarrow> read_failed r False c
      } else Some (None, c))"

text \<open>\<open>(client->mqtt_state.in_buffer_read_len < 6) && (*(buf - 1) & 0x80)\<close>.\<close>

definition length_continues :: "esp_mqtt_client \<Rightarrow> bool option" where
  "length_continues c =
     (if in_buffer_read_len c < 6
      then do { v \<leftarrow> load (in_buffer c) (in_buffer_read_len c - 1); Some (v AND 0x80 \<noteq> 0) }
      else Some False)"

lemma esp_transport_read_len:
  "esp_transport_read off n c = Some (r, c') \<Longrightarrow> in_buffer_read_len c' = in_buffer_read_len c"
  by (auto simp: esp_transport_read_def Let_def split: list.splits rx_answer.splits if_splits bind_splits)

function receive_length_loop :: receive_phase where
  "receive_length_loop c = do {
     (r, c) \<leftarrow> esp_transport_read (in_buffer_read_len c) 1 c;
     case r of
       Bytes n \<Rightarrow> do {
         let c = c\<lparr>in_buffer_read_len := in_buffer_read_len c + 1\<rparr>;
         more \<leftarrow> length_continues c;
         if more then receive_length_loop c else Some (None, c)
       }
     | _ \<Rightarrow> read_failed r True c
   }"
  by pat_completeness auto
termination
  by (relation "measure (\<lambda>c. 6 - in_buffer_read_len c)")
     (auto simp: length_continues_def dest!: esp_transport_read_len split: if_splits)

declare receive_length_loop.simps [simp del]

definition receive_length :: receive_phase where
  "receive_length c = do {
     go \<leftarrow> (if in_buffer_read_len c = 1 then Some True else length_continues c);
     if go then receive_length_loop c else Some (None, c)
   }"

text \<open>
  A PUBLISH that is longer than the buffer: its topic length is read, and the header must fit.
  The number of bytes asked for is \<open>in_buffer_read_len - fixed_header_len + 2\<close>, as in the source.
\<close>

definition receive_topic_length :: "nat \<Rightarrow> receive_phase" where
  "receive_topic_length fixed_header_len c =
     (if in_buffer_read_len c < fixed_header_len + 2 then do {
        (r, c) \<leftarrow> esp_transport_read (in_buffer_read_len c) (in_buffer_read_len c - fixed_header_len + 2) c;
        case r of
          Bytes n \<Rightarrow>
            let c = c\<lparr>in_buffer_read_len := in_buffer_read_len c + n\<rparr> in
            if in_buffer_read_len c < fixed_header_len + 2 then Some (Some 0, c) else Some (None, c)
        | _ \<Rightarrow> read_failed r True c
      } else Some (None, c))"

definition receive_header_fits :: "nat \<Rightarrow> receive_phase" where
  "receive_header_fits fixed_header_len c = do {
     h \<leftarrow> load (in_buffer c) fixed_header_len;
     l \<leftarrow> load (in_buffer c) (fixed_header_len + 1);
     qos \<leftarrow> mqtt_get_qos (in_buffer c);
     if in_buffer_length c < fixed_header_len + be16_val h l + (if qos > 0 then 2 else 0)
     then receive_err c else Some (None, c)
   }"

definition receive_rest :: "nat \<Rightarrow> receive_phase" where
  "receive_rest total_len c =
     (if in_buffer_read_len c < total_len then do {
        (r, c) \<leftarrow> esp_transport_read (in_buffer_read_len c) (total_len - in_buffer_read_len c) c;
        case r of
          Bytes n \<Rightarrow>
            let c = c\<lparr>in_buffer_read_len := in_buffer_read_len c + n\<rparr> in
            if in_buffer_read_len c < total_len then Some (Some 0, c) else Some (None, c)
        | _ \<Rightarrow> read_failed r True c
      } else Some (None, c))"

definition receive_body :: receive_phase where
  "receive_body c = do {
     (total_len, fixed_header_len) \<leftarrow> mqtt_get_total_length (in_buffer c) (in_buffer_read_len c);
     let c = c\<lparr>message_length := total_len\<rparr>;
     if in_buffer_length c < total_len then do {
       ty \<leftarrow> mqtt_get_type (in_buffer c);
       if ty = MQTT_MSG_TYPE_PUBLISH then
         and_then (receive_topic_length fixed_header_len)
           (and_then (receive_header_fits fixed_header_len) (receive_rest (in_buffer_length c))) c
       else receive_err c
     }
     else receive_rest total_len c
   }"

definition mqtt_message_receive :: "int client_op" where
  "mqtt_message_receive c = do {
     (r, c) \<leftarrow> and_then receive_first_byte (and_then receive_length receive_body) (c\<lparr>message_length := 0\<rparr>);
     Some (case r of None \<Rightarrow> 1 | Some r \<Rightarrow> r, c)
   }"

section \<open>Delivery of received messages\<close>

text \<open>A \<^verbatim>\<open>size_t\<close> that is stored in an \<^verbatim>\<open>int\<close>.\<close>

definition to_int :: "32 word \<Rightarrow> int" where
  "to_int n = sint n"

text \<open>Reports the part of a payload that is in the buffer as an event of its own.\<close>

definition dispatch_data :: "nat option \<Rightarrow> nat \<Rightarrow> nat \<Rightarrow> event_ptr \<Rightarrow> nat \<Rightarrow> esp_mqtt_client \<Rightarrow> esp_mqtt_client" where
  "dispatch_data data data_len data_offset topic topic_len c =
     esp_mqtt_dispatch_event (upd_event (\<lambda>e. e\<lparr>event_id := MQTT_EVENT_DATA,
       data_ptr := (if data_len > 0 then (case data of None \<Rightarrow> Null_Ptr | Some i \<Rightarrow> In_Recv i) else Null_Ptr),
       event_data_len := to_int (of_nat data_len), event_current_data_offset := to_int (of_nat data_offset),
       topic_ptr := topic, event_topic_len := int topic_len\<rparr>) c)"

text \<open>
  The part of the loop of \<open>deliver_publish\<close> behind the first event: the rest of a message that is
  longer than the buffer is read to the start of the buffer, piece by piece.
\<close>

function deliver_rest :: "nat \<Rightarrow> nat \<Rightarrow> nat \<Rightarrow> event_ptr \<Rightarrow> nat \<Rightarrow> esp_err client_op" where
  "deliver_rest msg_read_len msg_total_len msg_data_offset saved_topic saved_topic_len c =
     (if msg_read_len < msg_total_len then do {
        (r, c) \<leftarrow> esp_transport_read 0 (min (in_buffer_length c) (msg_total_len - msg_read_len)) c;
        case r of
          Bytes n \<Rightarrow>
            if n = 0 then None
            else deliver_rest (msg_read_len + n) msg_total_len (msg_data_offset + n) saved_topic saved_topic_len
              (dispatch_data (Some 0) n msg_data_offset saved_topic saved_topic_len c)
        | _ \<Rightarrow> do {
            (r, c) \<leftarrow> esp_mqtt_handle_transport_read_error r False c;
            Some (if r = 0 then ESP_OK else ESP_FAIL, c)
          }
      } else Some (ESP_OK, c))"
  by pat_completeness auto
termination
  by (relation "measure (\<lambda>(r, t, d, s, l, c). t - r)") auto

declare deliver_rest.simps [simp del]

definition deliver_publish :: "esp_err client_op" where
  "deliver_publish c = do {
     let msg_read_len = in_buffer_read_len c;
     let msg_total_len = message_length c;
     (r, c) \<leftarrow>
       (if is_v5 c then do {
          (r, c) \<leftarrow> esp_mqtt5_get_publish_data msg_read_len c;
          Some (case r of Inl _ \<Rightarrow> None | Inr (topic, topic_len, i, data_len) \<Rightarrow> Some (topic, topic_len, Some i, data_len), c)
        } else do {
          topic \<leftarrow> mqtt_get_publish_topic (in_buffer c) msg_read_len;
          case topic of None \<Rightarrow> Some (None, c)
          | Some (i, topic_len) \<Rightarrow> do {
              (data, data_len) \<leftarrow> mqtt_get_publish_data (in_buffer c) msg_read_len;
              Some (if data_len > 0 \<and> data = None then None
                    else Some (In_Recv i, topic_len, data, data_len), c)
            }
        });
     case r of None \<Rightarrow> Some (ESP_FAIL, c)
     | Some (topic, topic_len, data, data_len) \<Rightarrow> do {
         retain \<leftarrow> mqtt_get_retain (in_buffer c);
         i \<leftarrow> message_id_of c msg_read_len;
         qos \<leftarrow> mqtt_get_qos (in_buffer c);
         dup \<leftarrow> mqtt_get_dup (in_buffer c);
         let c = upd_event (\<lambda>e. e\<lparr>event_retain := (retain \<noteq> 0), event_msg_id := int i, event_qos := int qos,
           event_dup := (dup \<noteq> 0),
           event_total_data_len := to_int (of_nat data_len + of_nat msg_total_len - of_nat msg_read_len)\<rparr>) c;
         saved \<leftarrow> (if MQTT_TOPIC_PRESENT_ALL_DATA_EVENTS (config c)
                   then map_option (\<lambda>s. Some (s, topic_len)) (pointed topic (int topic_len) c) else Some None);
         let c = dispatch_data data data_len 0 topic topic_len c;
         if msg_read_len < msg_total_len then
           case saved of
             None \<Rightarrow> deliver_rest msg_read_len msg_total_len data_len Null_Ptr 0 c
           | Some (s, n) \<Rightarrow> do {
               let (ok, c) = client_calloc c;
               if \<not> ok then Some (ESP_ERR_NO_MEM, c)
               else deliver_rest msg_read_len msg_total_len data_len (To_String (c_str s)) n c
             }
         else Some (ESP_OK, c)
       }
   }"

definition deliver_suback :: "esp_err client_op" where
  "deliver_suback c = do {
     (data, len, c) \<leftarrow>
       (if is_v5 c then do {
          (data, len, user_property, h) \<leftarrow> mqtt5_get_suback_data (allocs c) (in_buffer c) (in_buffer_read_len c);
          Some (data, len, upd_property (\<lambda>p. p\<lparr>ep_user_property := user_property\<rparr>) (c\<lparr>allocs := h\<rparr>))
        } else case mqtt_get_suback_data (in_buffer_read_len c) of (data, len) \<Rightarrow> Some (data, len, c));
     if len = 0 then Some (ESP_FAIL, c)
     else do {
       i \<leftarrow> data;
       codes \<leftarrow> slice (in_buffer c) i len;
       let c = upd_error (\<lambda>h. h\<lparr>esp_tls_stack_err := 0, esp_tls_last_esp_err := 0, esp_tls_cert_verify_flags := 0,
         error_type := (if list_ex (\<lambda>v. v \<ge> 0x80) codes then MQTT_ERROR_TYPE_SUBSCRIBE_FAILED else MQTT_ERROR_TYPE_NONE),
         connect_return_code := MQTT_CONNECTION_ACCEPTED\<rparr>) c;
       let c = upd_event (\<lambda>e. e\<lparr>event_data_len := int len, event_total_data_len := int len,
         event_id := MQTT_EVENT_SUBSCRIBED, data_ptr := In_Recv i, event_current_data_offset := 0\<rparr>) c;
       c \<leftarrow> esp_mqtt_dispatch_event_with_msgid c;
       Some (ESP_OK, c)
     }
   }"

section \<open>Processing of received messages\<close>

text \<open>Deletes the message that a reply belongs to; \<open>False\<close> when there is none.\<close>

definition remove_initiator_message :: "int \<Rightarrow> nat \<Rightarrow> esp_mqtt_client \<Rightarrow> bool \<times> esp_mqtt_client" where
  "remove_initiator_message msg_type msg_id c =
     (let (err, ob) = outbox_delete (outbox c) (int msg_id) msg_type in (err = ESP_OK, c\<lparr>outbox := ob\<rparr>))"

definition process_suback :: "nat \<Rightarrow> esp_err client_op" where
  "process_suback msg_id c =
     (let (found, c) = remove_initiator_message MQTT_MSG_TYPE_SUBSCRIBE msg_id c in
      if found then do { c \<leftarrow> esp_mqtt5_parse_suback c; deliver_suback c } else Some (ESP_OK, c))"

definition process_unsuback :: "nat \<Rightarrow> esp_err client_op" where
  "process_unsuback msg_id c =
     (let (found, c) = remove_initiator_message MQTT_MSG_TYPE_UNSUBSCRIBE msg_id c in
      if found then do {
        c \<leftarrow> esp_mqtt5_parse_unsuback c;
        c \<leftarrow> esp_mqtt_dispatch_event_with_msgid (upd_event (\<lambda>e. e\<lparr>event_id := MQTT_EVENT_UNSUBSCRIBED\<rparr>) c);
        Some (ESP_OK, c)
      } else Some (ESP_OK, c))"

definition process_publish :: "nat \<Rightarrow> nat \<Rightarrow> esp_err client_op" where
  "process_publish msg_qos msg_id c = do {
     (err, c) \<leftarrow> deliver_publish c;
     if err \<noteq> ESP_OK then Some (ESP_FAIL, c)
     else if msg_qos = 1 \<or> msg_qos = 2 then do {
       c \<leftarrow> (if msg_qos = 1
             then compose (\<lambda>conn. mqtt5_msg_puback conn (of_nat msg_id)) (\<lambda>conn. mqtt_msg_puback conn (of_nat msg_id)) c
             else compose (\<lambda>conn. mqtt5_msg_pubrec conn (of_nat msg_id)) (\<lambda>conn. mqtt_msg_pubrec conn (of_nat msg_id)) c);
       if \<not> has_message c then Some (ESP_FAIL, c)
       else do {
         (err, c) \<leftarrow> esp_mqtt_write c;
         Some (if err \<noteq> ESP_OK then ESP_FAIL else ESP_OK, c)
       }
     } else Some (ESP_OK, c)
   }"

text \<open>A PUBACK or a PUBCOMP ends a transmission.\<close>

definition process_published :: "(esp_mqtt_client \<Rightarrow> esp_mqtt_client option) \<Rightarrow> nat \<Rightarrow> esp_err client_op" where
  "process_published parse msg_id c =
     (let (found, c) = remove_initiator_message MQTT_MSG_TYPE_PUBLISH msg_id c in
      if found then do {
        let c = (if is_v5 c then esp_mqtt5_decrement_packet_counter c else c);
        c \<leftarrow> parse c;
        c \<leftarrow> esp_mqtt_dispatch_event_with_msgid (upd_event (\<lambda>e. e\<lparr>event_id := MQTT_EVENT_PUBLISHED\<rparr>) c);
        Some (ESP_OK, c)
      } else Some (ESP_OK, c))"

definition process_pubrec :: "nat \<Rightarrow> esp_err client_op" where
  "process_pubrec msg_id c = do {
     c \<leftarrow> compose (\<lambda>conn. mqtt5_msg_pubrel conn (of_nat msg_id)) (\<lambda>conn. mqtt_msg_pubrel conn (of_nat msg_id)) c;
     if \<not> has_message c then Some (ESP_FAIL, c)
     else do {
       (_, c) \<leftarrow> esp_mqtt_write (set_pending (int msg_id) ACKNOWLEDGED c);
       Some (ESP_OK, c)
     }
   }"

definition process_pubrel :: "nat \<Rightarrow> esp_err client_op" where
  "process_pubrel msg_id c = do {
     c \<leftarrow> compose (\<lambda>conn. mqtt5_msg_pubcomp conn (of_nat msg_id)) (\<lambda>conn. mqtt_msg_pubcomp conn (of_nat msg_id)) c;
     if \<not> has_message c then Some (ESP_FAIL, c)
     else do { (_, c) \<leftarrow> esp_mqtt_write c; Some (ESP_OK, c) }
   }"

definition process_pingresp :: "esp_err client_op" where
  "process_pingresp c =
     (let (now, c) = platform_tick_get_ms (c\<lparr>wait_for_ping_resp := False\<rparr>) in Some (ESP_OK, c\<lparr>keepalive_tick := now\<rparr>))"

definition process_disconnect :: "esp_err client_op" where
  "process_disconnect c =
     (if is_v5 c then do {
        code \<leftarrow> esp_mqtt5_parse_disconnect c;
        c \<leftarrow> esp_mqtt_dispatch_event_with_msgid (upd_event (\<lambda>e. e\<lparr>event_id := MQTT_EVENT_DISCONNECTED,
               disconnect_return_code := code, event_reason_code := code\<rparr>) c);
        Some (ESP_OK, c)
      } else Some (ESP_OK, c))"

text \<open>The \<open>switch\<close> over the type of a message that has been received.\<close>

definition process_message :: "int \<Rightarrow> nat \<Rightarrow> nat \<Rightarrow> esp_err client_op" where
  "process_message msg_type msg_qos msg_id =
     (if msg_type = MQTT_MSG_TYPE_SUBACK then process_suback msg_id
      else if msg_type = MQTT_MSG_TYPE_UNSUBACK then process_unsuback msg_id
      else if msg_type = MQTT_MSG_TYPE_PUBLISH then process_publish msg_qos msg_id
      else if msg_type = MQTT_MSG_TYPE_PUBACK then process_published esp_mqtt5_parse_puback msg_id
      else if msg_type = MQTT_MSG_TYPE_PUBREC then process_pubrec msg_id
      else if msg_type = MQTT_MSG_TYPE_PUBREL then process_pubrel msg_id
      else if msg_type = MQTT_MSG_TYPE_PUBCOMP then process_published esp_mqtt5_parse_pubcomp msg_id
      else if msg_type = MQTT_MSG_TYPE_PINGRESP then process_pingresp
      else if msg_type = MQTT_MSG_TYPE_DISCONNECT then process_disconnect
      else (\<lambda>c. Some (ESP_OK, c)))"

definition mqtt_process_receive :: "esp_err client_op" where
  "mqtt_process_receive c = do {
     let previous_in_buffer_read_len = in_buffer_read_len c;
     (recv, c) \<leftarrow> mqtt_message_receive c;
     if recv = 0 then Some (ESP_OK, c)
     else if recv = -1 then
       Some (if previous_in_buffer_read_len = in_buffer_read_len c then ESP_FAIL else ESP_OK, c)
     else if recv < 0 then Some (ESP_FAIL, c)
     else do {
       msg_type \<leftarrow> mqtt_get_type (in_buffer c);
       msg_qos \<leftarrow> mqtt_get_qos (in_buffer c);
       msg_id \<leftarrow> message_id_of c (message_length c);
       (err, c) \<leftarrow> process_message msg_type msg_qos msg_id c;
       if err \<noteq> ESP_OK then Some (ESP_FAIL, c)
       else Some (ESP_OK, c\<lparr>in_buffer_read_len := 0\<rparr>)
     }
   }"

section \<open>Retransmission\<close>

fun update_addr :: "nat \<Rightarrow> (outbox_item \<Rightarrow> outbox_item) \<Rightarrow> outbox_item list \<Rightarrow> outbox_item list" where
  "update_addr a f [] = []"
| "update_addr a f (x # xs) = (if item_addr x = a then f x # xs else x # update_addr a f xs)"

text \<open>\<open>mqtt_set_dup\<close> through the pointer that \<open>outbox_item_get_data\<close> returned: the stored bytes change.\<close>

definition item_set_dup :: "outbox_item \<Rightarrow> outbox \<Rightarrow> (byte list \<times> outbox) option" where
  "item_set_dup i ob = do {
     b \<leftarrow> mqtt_set_dup (item_buffer i);
     Some (b, ob\<lparr>ob_list := update_addr (item_addr i) (\<lambda>x. x\<lparr>item_buffer := b\<rparr>) (ob_list ob)\<rparr>)
   }"

text \<open>The outbound message becomes a stored item.\<close>

definition load_item :: "outbox_item \<Rightarrow> esp_mqtt_client \<Rightarrow> esp_mqtt_client" where
  "load_item i c =
     upd_outbound (\<lambda>m. m\<lparr>msg_data := In_Outbox (item_buffer i), msg_length := item_len i\<rparr>)
       (c\<lparr>pending_msg_id := word_of_int (item_msg_id i), pending_msg_type := item_msg_type i,
          pending_publish_qos := item_msg_qos i\<rparr>)"

text \<open>\<open>esp_mqtt_write\<close>, and the end of the connection when it fails.\<close>

definition write_or_abort :: "esp_err client_op" where
  "write_or_abort c = do {
     (err, c) \<leftarrow> esp_mqtt_write c;
     if err \<noteq> ESP_OK then do { c \<leftarrow> esp_mqtt_abort_connection c; Some (ESP_FAIL, c) }
     else Some (ESP_OK, c)
   }"

definition mqtt_resend_queued :: "outbox_item \<Rightarrow> esp_err client_op" where
  "mqtt_resend_queued i c = do {
     let c = load_item i c;
     c \<leftarrow> (if pending_msg_type c = MQTT_MSG_TYPE_PUBLISH \<and> pending_publish_qos c > 0 \<and> item_pending i = TRANSMITTED
           then do {
             (b, ob) \<leftarrow> item_set_dup i (outbox c);
             Some (upd_outbound (\<lambda>m. m\<lparr>msg_data := In_Outbox b\<rparr>) (c\<lparr>outbox := ob\<rparr>))
           } else Some c);
     write_or_abort c
   }"

definition mqtt_resend_pubrel :: "outbox_item \<Rightarrow> esp_err client_op" where
  "mqtt_resend_pubrel i c = do {
     let c = load_item i c;
     c \<leftarrow> compose (\<lambda>conn. mqtt5_msg_pubrel conn (pending_msg_id c)) (\<lambda>conn. mqtt_msg_pubrel conn (pending_msg_id c)) c;
     if \<not> has_message c then Some (ESP_FAIL, c) else write_or_abort c
   }"

definition mqtt_get_queued_qos0 :: "outbox \<Rightarrow> outbox_item option" where
  "mqtt_get_queued_qos0 ob = do {
     i \<leftarrow> outbox_get ob 0;
     if item_pending i = QUEUED \<and> (word_of_int (item_msg_id i) :: 16 word) = 0 \<and>
        item_msg_type i = MQTT_MSG_TYPE_PUBLISH \<and> item_msg_qos i = 0
     then Some i else None
   }"

text \<open>
  Requeues the messages of the last connection. An item is found by its state but marked by its
  identifier: when an older item has the same identifier, the loop does not end.
\<close>

partial_function (option) mqtt_requeue_transmitted_messages :: "outbox \<Rightarrow> outbox option" where
  [code]: "mqtt_requeue_transmitted_messages ob =
     (case outbox_dequeue ob TRANSMITTED of None \<Rightarrow> Some ob
      | Some (i, _) \<Rightarrow> do {
          ob \<leftarrow> (if item_msg_type i = MQTT_MSG_TYPE_PUBLISH \<and> item_msg_qos i > 0
                 then map_option snd (item_set_dup i ob) else Some ob);
          case outbox_set_pending ob (uint (word_of_int (item_msg_id i) :: 16 word)) QUEUED of
            (err, ob) \<Rightarrow> if err \<noteq> ESP_OK then Some ob else mqtt_requeue_transmitted_messages ob
        })"

lemma unlink_item_shorter:
  assumes "first_item P (ob_list ob) = Some i"
  shows "length (ob_list (unlink_item i ob)) < length (ob_list ob)"
proof -
  have "length (stailq_remove a xs) < length xs" if "\<exists>x \<in> set xs. item_addr x = a" for a xs
    using that by (induction xs) auto
  moreover have "i \<in> set (ob_list ob)" using first_item_Some [OF assms] by auto
  ultimately show ?thesis by (auto simp: unlink_item_def)
qed

abbreviation (input) OUTBOX_EXPIRED_TIMEOUT_MS :: int where "OUTBOX_EXPIRED_TIMEOUT_MS \<equiv> 30000"

text \<open>Deletes expired messages one by one and reports each of them.\<close>

function delete_expired_loop :: "esp_mqtt_client \<Rightarrow> esp_mqtt_client" where
  "delete_expired_loop c =
     (let (now, c') = platform_tick_get_ms c;
          (msg_id, ob) = outbox_delete_single_expired (outbox c') (uint now) OUTBOX_EXPIRED_TIMEOUT_MS
      in if msg_id \<ge> 0
         then delete_expired_loop (esp_mqtt_dispatch_event (upd_event
                (\<lambda>e. e\<lparr>event_id := MQTT_EVENT_DELETED, event_msg_id := msg_id\<rparr>) (c'\<lparr>outbox := ob\<rparr>)))
         else c'\<lparr>outbox := ob\<rparr>)"
  by pat_completeness auto
termination
proof (relation "measure (\<lambda>c. length (ob_list (outbox c)))", goal_cases)
  case (2 c p now c' q msg_id ob)
  have c': "outbox c' = outbox c" using 2(1,2) by (auto simp: platform_tick_get_ms_def Let_def)
  have "length (ob_list ob) < length (ob_list (outbox c'))"
    using 2(3-) unlink_item_shorter
    by (auto simp: outbox_delete_single_expired_def split: option.splits)
  then show ?case
    by (auto simp: c' esp_mqtt_dispatch_event_def upd_event_def upd_property_def Let_def)
qed simp

declare delete_expired_loop.simps [simp del]

definition mqtt_delete_expired_messages :: "esp_mqtt_client \<Rightarrow> esp_mqtt_client" where
  "mqtt_delete_expired_messages c =
     (if MQTT_REPORT_DELETED_MESSAGES (config c) then delete_expired_loop c
      else let (now, c) = platform_tick_get_ms c in
        c\<lparr>outbox := snd (outbox_delete_expired (outbox c) (uint now) OUTBOX_EXPIRED_TIMEOUT_MS)\<rparr>)"

section \<open>Connecting\<close>

text \<open>The loop that waits for the CONNACK: it ends when time passes or something arrives.\<close>

partial_function (option) connack_loop :: "64 word \<Rightarrow> int client_op" where
  [code]: "connack_loop connack_recv_started c = do {
     (read_len, c) \<leftarrow> mqtt_message_receive c;
     if read_len = 0 then
       case platform_tick_get_ms c of (now, c) \<Rightarrow>
         if now - connack_recv_started < of_int (cs_network_timeout_ms (config c))
         then connack_loop connack_recv_started c else Some (read_len, c)
     else Some (read_len, c)
   }"

definition connection_refused :: "int \<Rightarrow> esp_err client_op" where
  "connection_refused connect_rsp_code c = do {
     c \<leftarrow> esp_mqtt_dispatch_event_with_msgid
       (upd_error (\<lambda>h. h\<lparr>error_type := MQTT_ERROR_TYPE_CONNECTION_REFUSED, connect_return_code := connect_rsp_code,
          esp_tls_stack_err := 0, esp_tls_last_esp_err := 0, esp_tls_cert_verify_flags := 0\<rparr>)
       (upd_event (\<lambda>e. e\<lparr>event_id := MQTT_EVENT_ERROR\<rparr>) c));
     Some (ESP_FAIL, c)
   }"

definition receive_connack :: "esp_err client_op" where
  "receive_connack c = do {
     let (started, c) = platform_tick_get_ms c;
     (read_len, c) \<leftarrow> connack_loop started c;
     if read_len \<le> 0 then Some (ESP_FAIL, c)
     else do {
       ty \<leftarrow> mqtt_get_type (in_buffer c);
       if ty \<noteq> MQTT_MSG_TYPE_CONNACK then Some (ESP_FAIL, c)
       else if is_v5 c then do {
         ((err, code), c) \<leftarrow> esp_mqtt5_parse_connack c;
         if err = ESP_OK then do {
           ob \<leftarrow> mqtt_requeue_transmitted_messages (outbox c);
           Some (ESP_OK, c\<lparr>send_publish_packet_count := 0, outbox := ob\<rparr>)
         } else connection_refused code c
       }
       else do {
         let c = c\<lparr>in_buffer_read_len := 0\<rparr>;
         code \<leftarrow> mqtt_get_connect_return_code (in_buffer c);
         if int code = MQTT_CONNECTION_ACCEPTED then Some (ESP_OK, c) else connection_refused (int code) c
       }
     }
   }"

definition esp_mqtt_connect :: "esp_err client_op" where
  "esp_mqtt_connect c = do {
     let c = mqtt_reset_pending_message (c\<lparr>wait_for_ping_resp := False\<rparr>);
     c \<leftarrow> compose
       (\<lambda>conn. mqtt5_msg_connect conn (information conn) (connect_property_info (mqtt5_config c)) (will_property_info (mqtt5_config c)))
       (\<lambda>conn. mqtt_msg_connect conn (information conn)) c;
     if \<not> has_message c then Some (ESP_FAIL, c)
     else do {
       ty \<leftarrow> mqtt_get_type (outbound_data c);
       i \<leftarrow> (if is_v5 c then mqtt5_get_id (outbound_data c) (msg_length (outbound c))
             else mqtt_get_id (outbound_data c) (msg_length (outbound c)));
       (err, c) \<leftarrow> esp_mqtt_write (c\<lparr>pending_msg_type := ty, pending_msg_id := of_nat i\<rparr>);
       if err \<noteq> ESP_OK then Some (ESP_FAIL, c)
       else receive_connack (c\<lparr>in_buffer_read_len := 0, message_length := 0\<rparr>)
     }
   }"

section \<open>Transports\<close>

definition lower :: "byte \<Rightarrow> byte" where
  "lower b = (if 0x41 \<le> b \<and> b \<le> 0x5a then b + 0x20 else b)"

text \<open>\<^verbatim>\<open>strncasecmp\<close> up to and including the terminator.\<close>

definition scheme_is :: "cstring \<Rightarrow> cstring \<Rightarrow> bool" where
  "scheme_is s t \<longleftrightarrow> map lower s = map lower t"

abbreviation (input) MQTT_OVER_TCP_SCHEME :: cstring where "MQTT_OVER_TCP_SCHEME \<equiv> [0x6d, 0x71, 0x74, 0x74]"
abbreviation (input) MQTT_OVER_SSL_SCHEME :: cstring where "MQTT_OVER_SSL_SCHEME \<equiv> [0x6d, 0x71, 0x74, 0x74, 0x73]"
abbreviation (input) MQTT_OVER_WS_SCHEME :: cstring where "MQTT_OVER_WS_SCHEME \<equiv> [0x77, 0x73]"
abbreviation (input) MQTT_OVER_WSS_SCHEME :: cstring where "MQTT_OVER_WSS_SCHEME \<equiv> [0x77, 0x73, 0x73]"

text \<open>One transport is created, given its default port and added to the list; both can fail.\<close>

definition mqtt_transport_list_add :: "cstring \<Rightarrow> int \<Rightarrow> esp_mqtt_client \<Rightarrow> esp_err \<times> esp_mqtt_client" where
  "mqtt_transport_list_add scheme port c =
     (let (ok, c) = client_calloc c in
      if \<not> ok then (ESP_ERR_NO_MEM, c)
      else let (ok, c) = client_calloc c in
        if \<not> ok then (ESP_ERR_NO_MEM, c)
        else (ESP_OK, c\<lparr>transport_list := map_option (\<lambda>l. l @ [(scheme, port)]) (transport_list c)\<rparr>))"

text \<open>A plain transport, and on top of it the one for web sockets when the scheme asks for it.\<close>

definition add_transports ::
  "cstring \<Rightarrow> int \<Rightarrow> cstring \<Rightarrow> int \<Rightarrow> bool \<Rightarrow> esp_mqtt_client \<Rightarrow> esp_err \<times> esp_mqtt_client" where
  "add_transports base base_port ws ws_port want_ws c =
     (let (err, c) = mqtt_transport_list_add base base_port c in
      if err \<noteq> ESP_OK then (err, c)
      else if want_ws then mqtt_transport_list_add ws ws_port c
      else (ESP_OK, c))"

definition esp_mqtt_client_create_transport :: "esp_mqtt_client \<Rightarrow> esp_err \<times> esp_mqtt_client" where
  "esp_mqtt_client_create_transport c =
     (let c = c\<lparr>transport_list := None\<rparr> in
      case cs_scheme (config c) of None \<Rightarrow> (ESP_FAIL, c)
      | Some scheme \<Rightarrow>
          let (ok, c) = client_calloc c in
          if \<not> ok then (ESP_ERR_NO_MEM, c)
          else let c = c\<lparr>transport_list := Some []\<rparr> in
            if scheme_is scheme MQTT_OVER_TCP_SCHEME \<or> scheme_is scheme MQTT_OVER_WS_SCHEME then
              add_transports MQTT_OVER_TCP_SCHEME 1883 MQTT_OVER_WS_SCHEME 80 (scheme_is scheme MQTT_OVER_WS_SCHEME) c
            else if scheme_is scheme MQTT_OVER_SSL_SCHEME \<or> scheme_is scheme MQTT_OVER_WSS_SCHEME then
              add_transports MQTT_OVER_SSL_SCHEME 8883 MQTT_OVER_WSS_SCHEME 443 (scheme_is scheme MQTT_OVER_WSS_SCHEME) c
            else (ESP_FAIL, c))"

text \<open>\<^verbatim>\<open>esp_transport_list_get_transport\<close>: the first transport whose scheme matches.\<close>

fun find_transport :: "cstring \<Rightarrow> (cstring \<times> int) list \<Rightarrow> int option" where
  "find_transport scheme [] = None"
| "find_transport scheme ((s, port) # l) = (if scheme_is s scheme then Some port else find_transport scheme l)"

definition esp_transport_list_get_transport :: "(cstring \<times> int) list option \<Rightarrow> cstring option \<Rightarrow> int option" where
  "esp_transport_list_get_transport l scheme =
     (case (l, scheme) of (Some l, Some s) \<Rightarrow> find_transport s l | _ \<Rightarrow> None)"

section \<open>The task\<close>

text \<open>The values of \<open>esp_err_t\<close>, which an error event reports as an integer.\<close>

fun esp_err_code :: "esp_err \<Rightarrow> int" where
  "esp_err_code ESP_OK = 0"
| "esp_err_code ESP_FAIL = -1"
| "esp_err_code ESP_ERR_NO_MEM = 0x101"
| "esp_err_code ESP_ERR_INVALID_ARG = 0x102"
| "esp_err_code ESP_ERR_INVALID_STATE = 0x103"
| "esp_err_code ESP_ERR_NOT_SUPPORTED = 0x106"
| "esp_err_code ESP_ERR_TIMEOUT = 0x107"
| "esp_err_code ESP_ERR_EMQTT_OUTBOX_FULL = 0x7501"
| "esp_err_code ESP_ERR_EMQTT_TIME_REQUIRED = 0x7502"

definition start_failed :: "esp_err \<Rightarrow> bool client_op" where
  "start_failed err c = do {
     c \<leftarrow> esp_mqtt_client_dispatch_start_error (esp_err_code err) c;
     Some (False, c\<lparr>run := False\<rparr>)
   }"

text \<open>Selects the transport; \<open>False\<close> when there is none, and then the task is going to end.\<close>

definition select_transport :: "bool client_op" where
  "select_transport c =
     (let c = c\<lparr>transport := cs_transport (config c)\<rparr> in
      if transport c \<noteq> None then Some (True, c)
      else let (err, c) = esp_mqtt_client_create_transport c in
        if err \<noteq> ESP_OK then start_failed err c
        else let c = c\<lparr>transport := esp_transport_list_get_transport (transport_list c) (cs_scheme (config c))\<rparr> in
          if transport c = None then start_failed ESP_ERR_NOT_SUPPORTED c else Some (True, c))"

definition set_default_port :: "esp_mqtt_client \<Rightarrow> esp_mqtt_client" where
  "set_default_port c =
     (if cs_port (config c) = 0
      then c\<lparr>config := (config c)\<lparr>cs_port := (case transport c of None \<Rightarrow> 0 | Some port \<Rightarrow> port)\<rparr>\<rparr> else c)"

definition connected :: "esp_mqtt_client \<Rightarrow> esp_mqtt_client option" where
  "connected c = do {
     let c = upd_event (\<lambda>e. e\<lparr>event_id := MQTT_EVENT_CONNECTED\<rparr>) c;
     c \<leftarrow> (if is_v5 c then Some c
           else do {
             sp \<leftarrow> mqtt_get_connect_session_present (in_buffer c);
             Some (upd_event (\<lambda>e. e\<lparr>event_session_present := int sp\<rparr>) c)
           });
     c \<leftarrow> esp_mqtt_dispatch_event_with_msgid (c\<lparr>state := MQTT_STATE_CONNECTED\<rparr>);
     let (now, c) = platform_tick_get_ms c;
     let c = c\<lparr>refresh_connection_tick := now\<rparr>;
     let (now, c) = platform_tick_get_ms c;
     Some (c\<lparr>keepalive_tick := now\<rparr>)
   }"

definition task_init :: "esp_mqtt_client \<Rightarrow> esp_mqtt_client option" where
  "task_init c = do {
     (ok, c) \<leftarrow> select_transport (c\<lparr>reconnect_bit := False, disconnect_bit := False\<rparr>);
     if \<not> ok then Some c
     else do {
       let c = set_default_port c;
       c \<leftarrow> esp_mqtt_dispatch_event_with_msgid (upd_event (\<lambda>e. e\<lparr>event_id := MQTT_EVENT_BEFORE_CONNECT\<rparr>) c);
       let (ok, c) = esp_transport_connect c;
       if \<not> ok then do {
         c \<leftarrow> esp_mqtt_client_dispatch_transport_error c;
         esp_mqtt_abort_connection c
       }
       else do {
         (err, c) \<leftarrow> esp_mqtt_connect c;
         if err \<noteq> ESP_OK then esp_mqtt_abort_connection c else connected c
       }
     }
   }"

definition send_disconnect_msg :: "esp_err client_op" where
  "send_disconnect_msg c = do {
     c \<leftarrow> compose (\<lambda>conn. mqtt5_msg_disconnect conn (Some (disconnect_property_info (mqtt5_config c)))) mqtt_msg_disconnect c;
     let c = (if is_v5 c \<and> has_message c
              then upd_disconnect (\<lambda>d. \<lparr>dp_session_expiry_interval = 0, dp_disconnect_reason = 0, dp_user_property = None\<rparr>) c
              else c);
     if \<not> has_message c then Some (ESP_FAIL, c)
     else do { (_, c) \<leftarrow> esp_mqtt_write c; Some (ESP_OK, c) }
   }"

text \<open>
  The next item to transmit. When the broker accepts no more publishes of quality 1 or 2, only a
  publish of quality 0 may go out in place of one.
\<close>

definition next_queued :: "esp_mqtt_client \<Rightarrow> outbox_item option" where
  "next_queued c =
     (case outbox_dequeue (outbox c) QUEUED of None \<Rightarrow> None
      | Some (i, _) \<Rightarrow>
          if is_v5 c \<and> esp_mqtt5_client_check_inflight_maximum c \<noteq> ESP_OK \<and>
             item_msg_type i = MQTT_MSG_TYPE_PUBLISH \<and> item_msg_qos i > 0
          then mqtt_get_queued_qos0 (outbox c) else Some i)"

definition send_queued :: "outbox_item \<Rightarrow> esp_mqtt_client \<Rightarrow> esp_mqtt_client option" where
  "send_queued i c = do {
     (err, c) \<leftarrow> mqtt_resend_queued i c;
     if err \<noteq> ESP_OK then Some c
     else if pending_msg_type c = MQTT_MSG_TYPE_PUBLISH \<and> pending_publish_qos c = 0
     then Some (c\<lparr>outbox := snd (outbox_delete_item (outbox c) (item_addr i))\<rparr>)
     else do {
       let c = set_pending (uint (pending_msg_id c)) TRANSMITTED (set_tick (uint (pending_msg_id c)) c);
       Some (if pending_msg_type c = MQTT_MSG_TYPE_PUBLISH \<and> is_v5 c
             then esp_mqtt5_increment_packet_counter c else c)
     }
   }"

text \<open>Resends the oldest item in a state when it is older than the timeout.\<close>

definition resend_old :: "pending_state \<Rightarrow> (outbox_item \<Rightarrow> esp_err client_op) \<Rightarrow> esp_mqtt_client \<Rightarrow> esp_mqtt_client option" where
  "resend_old p resend c =
     (case outbox_dequeue (outbox c) p of None \<Rightarrow> Some c
      | Some (i, tick) \<Rightarrow>
          let c = c\<lparr>msg_tick := of_int tick\<rparr> in
          if last_retransmit c - msg_tick c > of_int (cs_message_retransmit_timeout (config c))
          then map_option snd (resend i c) else Some c)"

definition retransmit :: "esp_mqtt_client \<Rightarrow> esp_mqtt_client option" where
  "retransmit c =
     (let (out, c) = has_timed_out (last_retransmit c) (of_int (cs_message_retransmit_timeout (config c))) c in
      if out then
        let (now, c) = platform_tick_get_ms c in do {
          c \<leftarrow> resend_old TRANSMITTED mqtt_resend_queued (c\<lparr>last_retransmit := now\<rparr>);
          resend_old ACKNOWLEDGED mqtt_resend_pubrel c
        }
      else Some c)"

definition refresh_connection :: "esp_mqtt_client \<Rightarrow> esp_mqtt_client option" where
  "refresh_connection c =
     (if cs_refresh_connection_after_ms (config c) \<noteq> 0 then
        let (out, c) = has_timed_out (refresh_connection_tick c) (of_int (cs_refresh_connection_after_ms (config c))) c in
        if out then do { c \<leftarrow> esp_mqtt_abort_connection c; Some (c\<lparr>state := MQTT_STATE_INIT\<rparr>) } else Some c
      else Some c)"

definition task_connected :: "esp_mqtt_client \<Rightarrow> esp_mqtt_client option" where
  "task_connected c =
     (if disconnect_bit c then do {
        (_, c) \<leftarrow> send_disconnect_msg (c\<lparr>disconnect_bit := False\<rparr>);
        esp_mqtt_abort_connection c
      }
      else do {
        (err, c) \<leftarrow> mqtt_process_receive c;
        if err = ESP_FAIL then esp_mqtt_abort_connection c
        else do {
          let c = (if last_retransmit c = 0
                   then (let (now, c) = platform_tick_get_ms c in c\<lparr>last_retransmit := now\<rparr>) else c);
          c \<leftarrow> (case next_queued c of Some i \<Rightarrow> send_queued i c | None \<Rightarrow> retransmit c);
          (err, c) \<leftarrow> process_keepalive c;
          if err \<noteq> ESP_OK then Some c else refresh_connection c
        }
      })"

abbreviation (input) MQTT_RECON_DEFAULT_MS :: int where "MQTT_RECON_DEFAULT_MS \<equiv> 10000"

definition task_wait_reconnect :: "esp_mqtt_client \<Rightarrow> esp_mqtt_client" where
  "task_wait_reconnect c =
     (if \<not> cs_auto_reconnect (config c) \<and> reconnect_bit c
      then c\<lparr>reconnect_bit := False, state := MQTT_STATE_INIT, wait_timeout_ms := MQTT_RECON_DEFAULT_MS\<rparr>
      else if cs_auto_reconnect (config c) then
        let (now, c) = platform_tick_get_ms c in
        if now - reconnect_tick c > of_int (wait_timeout_ms c)
        then let (now, c) = platform_tick_get_ms (c\<lparr>state := MQTT_STATE_INIT\<rparr>) in c\<lparr>reconnect_tick := now\<rparr>
        else c
      else c)"

text \<open>One iteration of the loop \<open>while (client->run)\<close>.\<close>

definition esp_mqtt_task :: "esp_mqtt_client \<Rightarrow> esp_mqtt_client option" where
  "esp_mqtt_task c = do {
     let c = mqtt_delete_expired_messages c;
     c \<leftarrow> (case state c of
            MQTT_STATE_DISCONNECTED \<Rightarrow> Some c
          | MQTT_STATE_INIT \<Rightarrow> task_init c
          | MQTT_STATE_CONNECTED \<Rightarrow> task_connected c
          | MQTT_STATE_WAIT_RECONNECT \<Rightarrow> Some (task_wait_reconnect c));
     if state c = MQTT_STATE_CONNECTED then
       let (ok, c) = esp_transport_poll_read c in
       if ok then Some c else esp_mqtt_abort_connection c
     else Some c
   }"

text \<open>The task behind its loop.\<close>

definition esp_mqtt_task_end :: "esp_mqtt_client \<Rightarrow> esp_mqtt_client" where
  "esp_mqtt_task_end c =
     c\<lparr>outbox := outbox_delete_all_items (outbox c), state := MQTT_STATE_DISCONNECTED, stopped_bit := True\<rparr>"

section \<open>Calls of the application\<close>

subsection \<open>Start and stop\<close>

text \<open>The outcome of the creation of the task is that of an allocation.\<close>

definition esp_mqtt_client_start :: "esp_mqtt_client option \<Rightarrow> (esp_err \<times> esp_mqtt_client option) option" where
  "esp_mqtt_client_start = with_client ESP_ERR_INVALID_ARG (\<lambda>c.
     if task_handle c \<or> (state c \<noteq> MQTT_STATE_INIT \<and> state c \<noteq> MQTT_STATE_DISCONNECTED) then Some (ESP_FAIL, c)
     else
       let c = c\<lparr>run := True, state := MQTT_STATE_INIT, stopped_bit := False\<rparr>;
           (ok, c) = client_calloc c
       in if ok then Some (ESP_OK, c\<lparr>task_handle := True, last_retransmit := 0, msg_tick := 0\<rparr>)
          else Some (ESP_FAIL, c\<lparr>run := False, task_handle := False, state := MQTT_STATE_DISCONNECTED\<rparr>))"

definition esp_mqtt_client_disconnect :: "esp_mqtt_client option \<Rightarrow> (esp_err \<times> esp_mqtt_client option) option" where
  "esp_mqtt_client_disconnect = with_client ESP_ERR_INVALID_ARG (\<lambda>c. Some (ESP_OK, c\<lparr>disconnect_bit := True\<rparr>))"

definition esp_mqtt_client_reconnect :: "esp_mqtt_client option \<Rightarrow> (esp_err \<times> esp_mqtt_client option) option" where
  "esp_mqtt_client_reconnect = with_client ESP_ERR_INVALID_ARG (\<lambda>c.
     if state c \<noteq> MQTT_STATE_WAIT_RECONNECT then Some (ESP_FAIL, c)
     else Some (ESP_OK, c\<lparr>wait_timeout_ms := 0, reconnect_bit := True\<rparr>))"

text \<open>
  \<open>esp_mqtt_client_stop\<close> up to the wait for the task: \<open>Some err\<close> is a return, \<open>None\<close> the wait; and
  behind the wait, once the task has set \<open>STOPPED_BIT\<close>.
\<close>

definition esp_mqtt_client_stop ::
  "bool \<Rightarrow> esp_mqtt_client option \<Rightarrow> (esp_err option \<times> esp_mqtt_client option) option" where
  "esp_mqtt_client_stop from_task = with_client (Some ESP_ERR_INVALID_ARG) (\<lambda>c.
     if task_handle c \<and> \<not> stopping c then
        if from_task then Some (Some ESP_FAIL, c)
        else do {
          c \<leftarrow> (if state c = MQTT_STATE_CONNECTED then map_option snd (send_disconnect_msg c) else Some c);
          Some (None, c\<lparr>stopping := True, run := False, state := MQTT_STATE_DISCONNECTED\<rparr>)
        }
      else Some (Some ESP_FAIL, c))"

definition esp_mqtt_client_stop_join :: "esp_mqtt_client \<Rightarrow> esp_mqtt_client" where
  "esp_mqtt_client_stop_join c = c\<lparr>task_handle := False, stopping := False\<rparr>"

subsection \<open>Subscriptions\<close>

text \<open>
  The common end of both calls: the composed packet is stored in the outbox as transmitted and
  then written. The result is the packet identifier or -1.
\<close>

definition store_and_write :: "int client_op" where
  "store_and_write c = do {
     ty \<leftarrow> mqtt_get_type (outbound_data c);
     (ok, c) \<leftarrow> mqtt_enqueue None 0 (c\<lparr>pending_msg_type := ty\<rparr>);
     if \<not> ok then Some (-1, c)
     else do {
       (err, c) \<leftarrow> esp_mqtt_write (set_pending (uint (pending_msg_id c)) TRANSMITTED c);
       Some (if err \<noteq> ESP_OK then -1 else uint (pending_msg_id c), c)
     }
   }"

fun max_qos_of :: "int \<Rightarrow> esp_mqtt_topic list \<Rightarrow> int" where
  "max_qos_of q [] = q"
| "max_qos_of q (t # ts) = max_qos_of (if topic_qos t > q then topic_qos t else q) ts"

definition esp_mqtt_client_subscribe_multiple ::
  "esp_mqtt_topic list \<Rightarrow> esp_mqtt_client option \<Rightarrow> (int \<times> esp_mqtt_client option) option" where
  "esp_mqtt_client_subscribe_multiple topic_list = with_client (-1) (\<lambda>c.
     if cs_outbox_limit (config c) > 0 \<and> outbox_get_size (outbox c) > cs_outbox_limit (config c) then Some (-2, c)
     else if state c \<noteq> MQTT_STATE_CONNECTED then Some (-1, c)
     else do {
       let c = mqtt_reset_pending_message c;
       if is_v5 c then
         if topic_list = [] then None
         else if esp_mqtt5_client_subscribe_check c (max_qos_of (topic_qos (hd topic_list)) topic_list) \<noteq> ESP_OK
         then Some (-1, c)
         else do {
           (conn, i) \<leftarrow> mqtt5_msg_subscribe (allocs c) (connection c) topic_list (subscribe_property_info (mqtt5_config c));
           let c = c\<lparr>connection := conn, pending_msg_id := i, allocs := drop (length topic_list) (allocs c)\<rparr>;
           let c = (if has_message c then upd_mqtt5 (\<lambda>m. m\<lparr>subscribe_property_info := None\<rparr>) c else c);
           if \<not> has_message c then Some (-1, c) else store_and_write c
         }
       else do {
         (conn, i) \<leftarrow> mqtt_msg_subscribe (connection c) topic_list;
         let c = c\<lparr>connection := conn, pending_msg_id := i\<rparr>;
         if \<not> has_message c then Some (-1, c) else store_and_write c
       }
     })"

definition esp_mqtt_client_subscribe_single ::
  "cstring \<Rightarrow> int \<Rightarrow> esp_mqtt_client option \<Rightarrow> (int \<times> esp_mqtt_client option) option" where
  "esp_mqtt_client_subscribe_single topic qos =
     esp_mqtt_client_subscribe_multiple [\<lparr>topic_filter = topic, topic_qos = qos\<rparr>]"

definition esp_mqtt_client_unsubscribe ::
  "cstring option \<Rightarrow> esp_mqtt_client option \<Rightarrow> (int \<times> esp_mqtt_client option) option" where
  "esp_mqtt_client_unsubscribe topic = with_client (-1) (\<lambda>c.
     if state c \<noteq> MQTT_STATE_CONNECTED then Some (-1, c)
     else do {
       let c = mqtt_reset_pending_message c;
       (conn, i, c) \<leftarrow>
         (if is_v5 c then do {
            let (ok, c) = client_calloc c;
            (conn, i) \<leftarrow> mqtt5_msg_unsubscribe (connection c) topic (pending_msg_id c)
              (unsubscribe_property_info (mqtt5_config c)) ok;
            Some (conn, i, c)
          } else do {
            (conn, i) \<leftarrow> mqtt_msg_unsubscribe (connection c) topic (pending_msg_id c);
            Some (conn, i, c)
          });
       let c = c\<lparr>connection := conn, pending_msg_id := i\<rparr>;
       let c = (if is_v5 c \<and> has_message c then upd_mqtt5 (\<lambda>m. m\<lparr>unsubscribe_property_info := None\<rparr>) c else c);
       if \<not> has_message c then Some (-1, c) else store_and_write c
     })"

subsection \<open>Publishing\<close>

text \<open>
  A length below 0 reaches this call only together with a null pointer as payload (\<open>payload_length\<close> below); then
  \<open>mqtt_msg_publish\<close> asks no more of it than that it is not positive.
\<close>

definition make_publish :: "cstring option \<Rightarrow> byte list option \<Rightarrow> int \<Rightarrow> int \<Rightarrow> int \<Rightarrow> int client_op" where
  "make_publish topic data len qos retain c = do {
     (conn, i, c) \<leftarrow>
       (if is_v5 c then do {
          let (ok, c) = client_calloc c;
          resp_info \<leftarrow> (case sr_response_info (server_resp_property_info (mqtt5_config c)) of
                          Null_Str \<Rightarrow> Some None | Str s \<Rightarrow> Some (Some (c_str s)) | Freed \<Rightarrow> None);
          (conn, i) \<leftarrow> mqtt5_msg_publish (connection c) topic data len qos retain 0
            (publish_property_info (mqtt5_config c)) resp_info ok;
          Some (conn, i, c)
        } else do {
          (conn, i) \<leftarrow> mqtt_msg_publish (connection c) topic data (nat len) qos retain 0;
          Some (conn, i, c)
        });
     let c = c\<lparr>connection := conn\<rparr>;
     let c = (if is_v5 c \<and> has_message c then upd_mqtt5 (\<lambda>m. m\<lparr>publish_property_info := None\<rparr>) c else c);
     Some (if has_message c then uint i else -1, c)
   }"

text \<open>
  What has been sent of the payload once the current message is written: the length of the
  message less the position of the payload in it, as the \<^verbatim>\<open>int\<close> the source computes.
\<close>

definition data_sent :: "esp_mqtt_client \<Rightarrow> int" where
  "data_sent c = to_int (of_nat (msg_length (outbound c)) - fragmented_msg_data_offset (outbound c))"

text \<open>The bytes behind a pointer that is \<open>i\<close> bytes behind the payload of the application.\<close>

definition payload_at :: "byte list option \<Rightarrow> int \<Rightarrow> byte list option" where
  "payload_at data i = do { d \<leftarrow> data; if i < 0 \<or> int (length d) < i then None else Some (drop (nat i) d) }"

definition mqtt_client_enqueue_publish ::
  "cstring option \<Rightarrow> byte list option \<Rightarrow> int \<Rightarrow> int \<Rightarrow> int \<Rightarrow> bool \<Rightarrow> int client_op" where
  "mqtt_client_enqueue_publish topic data len qos retain store_flag c = do {
     (i, c) \<leftarrow> make_publish topic data len qos retain c;
     if i < 0 then Some (-1, c)
     else if qos > 0 \<or> store_flag then do {
       ty \<leftarrow> mqtt_get_type (outbound_data c);
       let c = c\<lparr>pending_msg_type := ty, pending_msg_id := word_of_int i, pending_publish_qos := qos\<rparr>;
       if fragmented_msg_total_length (outbound c) = 0 then do {
         (ok, c) \<leftarrow> mqtt_enqueue None 0 c;
         Some (if ok then i else -1, c)
       } else do {
         let first_fragment = data_sent c;
         rest \<leftarrow> payload_at data first_fragment;
         (ok, c) \<leftarrow> mqtt_enqueue (Some rest) (nat (len - first_fragment)) c;
         if \<not> ok then Some (-1, c)
         else Some (i, upd_outbound (\<lambda>m. m\<lparr>fragmented_msg_total_length := 0\<rparr>) c)
       }
     } else Some (i, c)
   }"

text \<open>
  The loop that writes a message and the parts of its payload that did not fit the buffer:
  \<open>True\<close> when all is written.
\<close>

partial_function (option) send_loop :: "byte list option \<Rightarrow> int \<Rightarrow> int \<Rightarrow> bool client_op" where
  [code]: "send_loop data current remaining_len c = do {
     (err, c) \<leftarrow> esp_mqtt_write c;
     if err \<noteq> ESP_OK then do { c \<leftarrow> esp_mqtt_abort_connection c; Some (False, c) }
     else let remaining_len = remaining_len - data_sent c; current = current + data_sent c;
              c = upd_outbound (\<lambda>m. m\<lparr>fragmented_msg_data_offset := 0, fragmented_msg_total_length := 0\<rparr>) c in
       if remaining_len > 0 then do {
         let write_len = (if nat remaining_len > buffer_length (connection c)
                          then buffer_length (connection c) else nat remaining_len);
         rest \<leftarrow> payload_at data current;
         bs \<leftarrow> fetch rest write_len;
         b \<leftarrow> store (buffer (connection c)) 0 bs;
         let c = c\<lparr>connection := (connection c)\<lparr>buffer := b\<rparr>\<rparr>;
         send_loop data current remaining_len
           (upd_outbound (\<lambda>m. m\<lparr>msg_data := In_Buffer 0, msg_length := write_len\<rparr>) c)
       }
       else Some (True, c)
   }"

text \<open>A length of 0 or less asks for all of a zero-terminated payload.\<close>

definition payload_length :: "byte list option \<Rightarrow> int \<Rightarrow> int option" where
  "payload_length data len =
     (case data of Some d \<Rightarrow> if len \<le> 0 then map_option int (strlen d) else Some len | None \<Rightarrow> Some len)"

definition outbox_exceeded :: "int \<Rightarrow> esp_mqtt_client \<Rightarrow> bool" where
  "outbox_exceeded len c \<longleftrightarrow> of_int len + outbox_get_size (outbox c) > cs_outbox_limit (config c)"

definition cannot_publish :: "int \<Rightarrow> int client_op" where
  "cannot_publish ret c = Some (ret, upd_outbound (\<lambda>m. m\<lparr>fragmented_msg_total_length := 0\<rparr>) c)"

definition esp_mqtt_client_publish ::
  "cstring option \<Rightarrow> byte list option \<Rightarrow> int \<Rightarrow> int \<Rightarrow> int \<Rightarrow> esp_mqtt_client option
     \<Rightarrow> (int \<times> esp_mqtt_client option) option" where
  "esp_mqtt_client_publish topic data len qos retain = with_client (-1) (\<lambda>c.
     if MQTT_SKIP_PUBLISH_IF_DISCONNECTED (config c) \<and> state c \<noteq> MQTT_STATE_CONNECTED then Some (-1, c)
     else if is_v5 c \<and> esp_mqtt5_client_publish_check c qos retain \<noteq> ESP_OK then Some (-1, c)
     else do {
       len \<leftarrow> payload_length data len;
       if cs_outbox_limit (config c) > 0 \<and> qos > 0 \<and> outbox_exceeded len c then Some (-2, c)
       else do {
         (i, c) \<leftarrow> mqtt_client_enqueue_publish topic data len qos retain False c;
         if i < 0 then Some (-1, c)
         else if state c \<noteq> MQTT_STATE_CONNECTED then cannot_publish (if qos > 0 then i else -1) c
         else if is_v5 c \<and> qos > 0 \<and> esp_mqtt5_client_check_inflight_maximum c \<noteq> ESP_OK then Some (i, c)
         else do {
           (ok, c) \<leftarrow> send_loop data 0 len c;
           if \<not> ok then cannot_publish (-1) c
           else if qos > 0 then do {
             let c = (if is_v5 c then esp_mqtt5_increment_packet_counter c else c);
             Some (i, set_pending i TRANSMITTED (set_tick i c))
           } else Some (i, c)
         }
       }
     })"

definition esp_mqtt_client_enqueue ::
  "cstring option \<Rightarrow> byte list option \<Rightarrow> int \<Rightarrow> int \<Rightarrow> int \<Rightarrow> bool \<Rightarrow> esp_mqtt_client option
     \<Rightarrow> (int \<times> esp_mqtt_client option) option" where
  "esp_mqtt_client_enqueue topic data len qos retain store_flag = with_client (-1) (\<lambda>c. do {
     len \<leftarrow> payload_length data len;
     if cs_outbox_limit (config c) > 0 \<and> outbox_exceeded len c then Some (-2, c)
     else if is_v5 c \<and> esp_mqtt5_client_publish_check c qos retain \<noteq> ESP_OK then Some (-1, c)
     else do {
       (ret, c) \<leftarrow> mqtt_client_enqueue_publish topic data len qos retain store_flag c;
       Some (if ret = 0 \<and> \<not> store_flag then -1 else ret, c)
     }
   })"

subsection \<open>Queries\<close>

definition esp_mqtt_client_get_outbox_size :: "esp_mqtt_client option \<Rightarrow> int" where
  "esp_mqtt_client_get_outbox_size handle =
     (case handle of None \<Rightarrow> 0 | Some c \<Rightarrow> sint (ucast (outbox_get_size (outbox c)) :: 32 word))"

definition esp_mqtt_client_get_transport :: "cstring option \<Rightarrow> esp_mqtt_client option \<Rightarrow> int option" where
  "esp_mqtt_client_get_transport scheme handle =
     (case handle of None \<Rightarrow> None
      | Some c \<Rightarrow> if scheme = None then cs_transport (config c)
                  else esp_transport_list_get_transport (transport_list c) scheme)"

datatype esp_mqtt_client_connection_state =
    MQTT_CLIENT_STATE_NOT_INITIALIZED | MQTT_CLIENT_STATE_NOT_STARTED | MQTT_CLIENT_STATE_DISCONNECTED
  | MQTT_CLIENT_STATE_CONNECTED | MQTT_CLIENT_STATE_WAITING_RECONNECT

definition esp_mqtt_client_get_state :: "esp_mqtt_client option \<Rightarrow> esp_mqtt_client_connection_state" where
  "esp_mqtt_client_get_state handle =
     (case handle of None \<Rightarrow> MQTT_CLIENT_STATE_NOT_INITIALIZED
      | Some c \<Rightarrow> if \<not> task_handle c then MQTT_CLIENT_STATE_NOT_STARTED
        else case state c of
          MQTT_STATE_INIT \<Rightarrow> MQTT_CLIENT_STATE_NOT_STARTED
        | MQTT_STATE_CONNECTED \<Rightarrow> MQTT_CLIENT_STATE_CONNECTED
        | MQTT_STATE_WAIT_RECONNECT \<Rightarrow> MQTT_CLIENT_STATE_WAITING_RECONNECT
        | MQTT_STATE_DISCONNECTED \<Rightarrow> MQTT_CLIENT_STATE_DISCONNECTED)"

end
