(* ===== verification/Mqtt_Client_Receive.thy ===== *)
theory Mqtt_Client_Receive
  imports Mqtt_Client Mqtt_Message_Props Mqtt5_Message_Props
begin

text \<open>
  The receive path of the client: what it takes from the transport is exactly what comes next in
  the byte stream, it writes nothing outside the receive buffer, and it returns a message when
  the whole of it, or of a longer PUBLISH as much as fits, is in the buffer.
\<close>

section \<open>Reports\<close>

text \<open>Two clients that differ in the events they have sent at most.\<close>

definition hush :: "esp_mqtt_client \<Rightarrow> esp_mqtt_client" where
  "hush c = c\<lparr>event := undefined, events := [], error_plan := []\<rparr>"

abbreviation reported :: "esp_mqtt_client \<Rightarrow> esp_mqtt_client \<Rightarrow> bool" where
  "reported c c' \<equiv> hush c' = hush c"

lemma hush_event [simp]: "hush (upd_event f c) = hush c"
  by (simp add: hush_def upd_event_def)

lemma hush_updates [simp]:
  "hush (c\<lparr>event := e\<rparr>) = hush c" "hush (c\<lparr>events := es\<rparr>) = hush c" "hush (c\<lparr>error_plan := p\<rparr>) = hush c"
  by (simp_all add: hush_def)

lemma hush_dispatch [simp]: "hush (esp_mqtt_dispatch_event c) = hush c"
  by (simp add: esp_mqtt_dispatch_event_def upd_property_def Let_def)

lemma hush_error [simp]: "hush (upd_error f c) = hush c"
  by (simp add: upd_error_def)

lemma field_transfer: "f (g c) = f c \<Longrightarrow> f (g c') = f c' \<Longrightarrow> g c' = g c \<Longrightarrow> f c' = f c"
  by metis

lemma hush_field [simp]:
  "wire (hush c) = wire c" "rx_plan (hush c) = rx_plan c" "sent (hush c) = sent c" "tx_plan (hush c) = tx_plan c"
  "in_buffer (hush c) = in_buffer c" "in_buffer_length (hush c) = in_buffer_length c"
  "message_length (hush c) = message_length c" "in_buffer_read_len (hush c) = in_buffer_read_len c"
  "connection (hush c) = connection c" "outbox (hush c) = outbox c" "state (hush c) = state c"
  "config (hush c) = config c" "allocs (hush c) = allocs c" "mqtt5_config (hush c) = mqtt5_config c"
  "send_publish_packet_count (hush c) = send_publish_packet_count c" "task_handle (hush c) = task_handle c"
  "run (hush c) = run c" "stopping (hush c) = stopping c" "stopped_bit (hush c) = stopped_bit c"
  by (simp_all add: hush_def)

lemmas reportedD =
  field_transfer [where g = hush and f = wire, OF hush_field(1) hush_field(1)]
  field_transfer [where g = hush and f = rx_plan, OF hush_field(2) hush_field(2)]
  field_transfer [where g = hush and f = sent, OF hush_field(3) hush_field(3)]
  field_transfer [where g = hush and f = tx_plan, OF hush_field(4) hush_field(4)]
  field_transfer [where g = hush and f = in_buffer, OF hush_field(5) hush_field(5)]
  field_transfer [where g = hush and f = in_buffer_length, OF hush_field(6) hush_field(6)]
  field_transfer [where g = hush and f = message_length, OF hush_field(7) hush_field(7)]
  field_transfer [where g = hush and f = in_buffer_read_len, OF hush_field(8) hush_field(8)]
  field_transfer [where g = hush and f = connection, OF hush_field(9) hush_field(9)]
  field_transfer [where g = hush and f = outbox, OF hush_field(10) hush_field(10)]
  field_transfer [where g = hush and f = state, OF hush_field(11) hush_field(11)]
  field_transfer [where g = hush and f = config, OF hush_field(12) hush_field(12)]
  field_transfer [where g = hush and f = allocs, OF hush_field(13) hush_field(13)]
  field_transfer [where g = hush and f = mqtt5_config, OF hush_field(14) hush_field(14)]
  field_transfer [where g = hush and f = send_publish_packet_count, OF hush_field(15) hush_field(15)]
  field_transfer [where g = hush and f = task_handle, OF hush_field(16) hush_field(16)]
  field_transfer [where g = hush and f = run, OF hush_field(17) hush_field(17)]
  field_transfer [where g = hush and f = stopping, OF hush_field(18) hush_field(18)]
  field_transfer [where g = hush and f = stopped_bit, OF hush_field(19) hush_field(19)]

lemma message_id_of_total: "len \<le> length (in_buffer c) \<Longrightarrow> 0 < length (in_buffer c) \<Longrightarrow> \<exists>i. message_id_of c len = Some i"
  using mqtt5_get_id_total [of len "in_buffer c"] mqtt_get_id_total [of len "in_buffer c"]
  by (auto simp: message_id_of_def)

lemma dispatch_msgid_total:
  assumes "in_buffer_length c \<le> length (in_buffer c)" "0 < length (in_buffer c)"
  obtains c' where "esp_mqtt_dispatch_event_with_msgid c = Some c'" "reported c c'"
  using message_id_of_total [OF assms] that by (auto simp: esp_mqtt_dispatch_event_with_msgid_def)

lemma transport_error_total:
  assumes "in_buffer_length c \<le> length (in_buffer c)" "0 < length (in_buffer c)"
  obtains c' where "esp_mqtt_client_dispatch_transport_error c = Some c'" "reported c c'"
proof -
  let ?f = "\<lambda>e. e\<lparr>event_id := MQTT_EVENT_ERROR, disconnect_return_code := 0, event_reason_code := 0\<rparr>"
  obtain te c1 where te: "last_transport_error (upd_event ?f c) = (te, c1)" by fastforce
  then have c1: "hush c1 = hush c"
    by (cases "error_plan c") (auto simp: last_transport_error_def upd_event_def)
  let ?c2 = "upd_error (\<lambda>h. h\<lparr>error_type := MQTT_ERROR_TYPE_TCP_TRANSPORT, connect_return_code := 0,
                esp_tls_last_esp_err := te_last_esp_err te, esp_tls_stack_err := te_stack_err te,
                esp_tls_cert_verify_flags := te_cert_verify_flags te,
                esp_transport_sock_errno := te_sock_errno te\<rparr>) c1"
  have "in_buffer ?c2 = in_buffer c" "in_buffer_length ?c2 = in_buffer_length c"
    using reportedD(5,6) [of ?c2 c] c1 by simp_all
  then obtain c3 where "esp_mqtt_dispatch_event_with_msgid ?c2 = Some c3" "reported ?c2 c3"
    using dispatch_msgid_total [of ?c2] assms by auto
  then show thesis using that c1 te by (auto simp: esp_mqtt_client_dispatch_transport_error_def Let_def)
qed

lemma read_error_total:
  assumes "in_buffer_length c \<le> length (in_buffer c)" "0 < length (in_buffer c)"
  obtains r c' where "esp_mqtt_handle_transport_read_error err mid c = Some (r, c')" "reported c c'"
    "r = (if err = Timed_Out then if mid then -1 else 0 else -2)"
proof (cases "err = Timed_Out")
  case True
  then show thesis using that by (simp add: esp_mqtt_handle_transport_read_error_def)
next
  case False
  obtain c' where "esp_mqtt_client_dispatch_transport_error c = Some c'" "reported c c'"
    using transport_error_total [OF assms] by blast
  then show thesis using that False by (simp add: esp_mqtt_handle_transport_read_error_def)
qed

section \<open>Reading from the stream\<close>

text \<open>A receive buffer as the client allocates it, and what has been received and will be.\<close>

definition recv_ok :: "esp_mqtt_client \<Rightarrow> bool" where
  "recv_ok c \<longleftrightarrow> length (in_buffer c) = in_buffer_length c \<and> 9 \<le> in_buffer_length c \<and>
     in_buffer_read_len c \<le> in_buffer_length c"

definition stream :: "esp_mqtt_client \<Rightarrow> byte list" where
  "stream c = take (in_buffer_read_len c) (in_buffer c) @ wire c"

text \<open>A client that has read on in the same stream, and is otherwise as before.\<close>

definition silent :: "esp_mqtt_client \<Rightarrow> esp_mqtt_client" where
  "silent c = (hush c)\<lparr>wire := [], rx_plan := [], in_buffer := [], in_buffer_read_len := 0, message_length := 0\<rparr>"

lemma silent_field [simp]:
"sent (silent c) = sent c" "tx_plan (silent c) = tx_plan c" "in_buffer_length (silent c) = in_buffer_length c"
  "connection (silent c) = connection c" "outbox (silent c) = outbox c" "state (silent c) = state c"
  "config (silent c) = config c" "allocs (silent c) = allocs c" "mqtt5_config (silent c) = mqtt5_config c"
  "send_publish_packet_count (silent c) = send_publish_packet_count c" "task_handle (silent c) = task_handle c" "run (silent c) = run c"
  "stopping (silent c) = stopping c" "stopped_bit (silent c) = stopped_bit c"
  by (simp_all add: silent_def)

lemmas silentD =
  field_transfer [where g = silent and f = sent, OF silent_field(1) silent_field(1)]
  field_transfer [where g = silent and f = tx_plan, OF silent_field(2) silent_field(2)]
  field_transfer [where g = silent and f = in_buffer_length, OF silent_field(3) silent_field(3)]
  field_transfer [where g = silent and f = connection, OF silent_field(4) silent_field(4)]
  field_transfer [where g = silent and f = outbox, OF silent_field(5) silent_field(5)]
  field_transfer [where g = silent and f = state, OF silent_field(6) silent_field(6)]
  field_transfer [where g = silent and f = config, OF silent_field(7) silent_field(7)]
  field_transfer [where g = silent and f = allocs, OF silent_field(8) silent_field(8)]
  field_transfer [where g = silent and f = mqtt5_config, OF silent_field(9) silent_field(9)]
  field_transfer [where g = silent and f = send_publish_packet_count, OF silent_field(10) silent_field(10)]
  field_transfer [where g = silent and f = task_handle, OF silent_field(11) silent_field(11)]
  field_transfer [where g = silent and f = run, OF silent_field(12) silent_field(12)]
  field_transfer [where g = silent and f = stopping, OF silent_field(13) silent_field(13)]
  field_transfer [where g = silent and f = stopped_bit, OF silent_field(14) silent_field(14)]

definition read_on :: "esp_mqtt_client \<Rightarrow> esp_mqtt_client \<Rightarrow> bool" where
  "read_on c c' \<longleftrightarrow> recv_ok c' \<and> stream c' = stream c \<and> in_buffer_read_len c \<le> in_buffer_read_len c' \<and>
     silent c' = silent c"

lemma read_on_trans: "read_on c c' \<Longrightarrow> read_on c' c'' \<Longrightarrow> read_on c c''"
  by (simp add: read_on_def)

lemma read_on_refl: "recv_ok c \<Longrightarrow> read_on c c"
  by (simp add: read_on_def)

lemma read_on_hush: "read_on c c' \<Longrightarrow> hush c'' = hush c' \<Longrightarrow> read_on c c''"
  using reportedD(1,5,6,8) [of c'' c'] by (simp add: read_on_def recv_ok_def stream_def silent_def)

lemma transport_read:
  assumes "recv_ok c" "0 < n" "in_buffer_read_len c + n \<le> in_buffer_length c"
  obtains m c' where "esp_transport_read (in_buffer_read_len c) n c = Some (Bytes m, c')" "0 < m" "m \<le> n"
      "read_on c (c'\<lparr>in_buffer_read_len := in_buffer_read_len c + m\<rparr>)" "in_buffer_read_len c' = in_buffer_read_len c"
      "in_buffer_length c' = in_buffer_length c" "message_length c' = message_length c"
      "take (in_buffer_read_len c) (in_buffer c') = take (in_buffer_read_len c) (in_buffer c)"
  | r c' where "esp_transport_read (in_buffer_read_len c) n c = Some (r, c')" "\<forall>m. r \<noteq> Bytes m" "read_on c c'"
      "in_buffer_read_len c' = in_buffer_read_len c" "message_length c' = message_length c"
proof -
  let ?l = "in_buffer_read_len c"
  have same: "read_on c (c\<lparr>rx_plan := plan\<rparr>)" for plan
    using assms(1) by (simp add: read_on_def recv_ok_def stream_def silent_def hush_def)
  show thesis
  proof (cases "rx_plan c")
    case Nil
    then show thesis using that(2) [of Timed_Out c] read_on_refl [OF assms(1)] by (simp add: esp_transport_read_def)
  next
    case (Cons x plan)
    show thesis
    proof (cases x)
      case (Rx_Chunk k)
      define m where "m = min n (min k (length (wire c)))"
      have m: "m \<le> n" "m \<le> length (wire c)" by (simp_all add: m_def)
      show thesis
      proof (cases "m = 0")
        case True
        then show thesis using that(2) [of Timed_Out "c\<lparr>rx_plan := plan\<rparr>"] same Cons Rx_Chunk
          by (simp add: esp_transport_read_def Let_def m_def)
      next
        case False
        have "?l + length (take m (wire c)) \<le> length (in_buffer c)" using assms m by (simp add: recv_ok_def)
        then obtain b where b: "store (in_buffer c) ?l (take m (wire c)) = Some b" by (simp add: store_def)
        let ?c = "c\<lparr>rx_plan := plan, in_buffer := b, wire := drop m (wire c)\<rparr>"
        have tk: "take (?l + m) b = take ?l (in_buffer c) @ take m (wire c)"
          using store_take_end [OF b] m by simp
        have "read_on c (?c\<lparr>in_buffer_read_len := ?l + m\<rparr>)"
          using assms m tk store_length [OF b] by (simp add: read_on_def recv_ok_def stream_def silent_def hush_def)
        moreover have "take ?l b = take ?l (in_buffer c)" using store_take_before [OF b] by simp
        moreover have "esp_transport_read ?l n c = Some (Bytes m, ?c)"
          using Cons Rx_Chunk False b by (simp add: esp_transport_read_def Let_def m_def)
        ultimately show thesis using that(1) [of m ?c] False m by simp
      qed
    qed (use that(2) [of _ "c\<lparr>rx_plan := plan\<rparr>"] same Cons in \<open>auto simp: esp_transport_read_def\<close>)
  qed
qed

section \<open>The phases of a receive\<close>

lemma recv_okD: "recv_ok c \<Longrightarrow> in_buffer_length c \<le> length (in_buffer c) \<and> 0 < length (in_buffer c)"
  by (auto simp: recv_ok_def)

lemma recv_ok_hush: "recv_ok c \<Longrightarrow> hush c' = hush c \<Longrightarrow> recv_ok c'"
  using reportedD(5,6,8) [of c' c] by (simp add: recv_ok_def)

lemma silent_hush: "hush c' = hush c \<Longrightarrow> silent c' = silent c"
  by (simp add: silent_def)

lemma read_onD: "read_on c c' \<Longrightarrow> recv_ok c' \<and> silent c' = silent c \<and> in_buffer_length c' = in_buffer_length c"
  using silentD(3) [of c' c] by (simp add: read_on_def)

text \<open>
  A phase goes on, or it returns one of the codes below 1. It has read on in the stream, except
  that on an error the client may be in the middle of a message that nobody will read.
\<close>

definition phase :: "(int option \<times> esp_mqtt_client) option \<Rightarrow> esp_mqtt_client \<Rightarrow> (esp_mqtt_client \<Rightarrow> bool) \<Rightarrow> bool" where
  "phase p c Q \<longleftrightarrow> (\<exists>r c'. p = Some (r, c') \<and> recv_ok c' \<and> silent c' = silent c \<and>
     (case r of None \<Rightarrow> read_on c c' \<and> Q c' | Some x \<Rightarrow> x = -2 \<or> (x = 0 \<or> x = -1) \<and> read_on c c'))"

lemma phase_done: "read_on c c' \<Longrightarrow> Q c' \<Longrightarrow> phase (Some (None, c')) c Q"
  using read_onD by (auto simp: phase_def)

lemma phase_stop: "read_on c c' \<Longrightarrow> phase (Some (Some 0, c')) c Q"
  using read_onD by (auto simp: phase_def)

lemma phase_and_then:
  assumes "phase (s c) c Q"
    and "\<And>c'. read_on c c' \<Longrightarrow> Q c' \<Longrightarrow> phase (t c') c' R"
  shows "phase (and_then s t c) c R"
proof -
  obtain r c1 where 1: "s c = Some (r, c1)" "recv_ok c1" "silent c1 = silent c"
    "case r of None \<Rightarrow> read_on c c1 \<and> Q c1 | Some x \<Rightarrow> x = -2 \<or> (x = 0 \<or> x = -1) \<and> read_on c c1"
    using assms(1) unfolding phase_def by blast
  show ?thesis
  proof (cases r)
    case None
    then have ro: "read_on c c1" and "phase (t c1) c1 R" using 1 assms(2) by auto
    then obtain r' c2 where "t c1 = Some (r', c2)" "recv_ok c2" "silent c2 = silent c1"
      "case r' of None \<Rightarrow> read_on c1 c2 \<and> R c2 | Some x \<Rightarrow> x = -2 \<or> (x = 0 \<or> x = -1) \<and> read_on c1 c2"
      unfolding phase_def by blast
    then show ?thesis using 1 None read_on_trans [OF ro] unfolding phase_def and_then_def
      by (auto split: option.splits)
  next
    case (Some x)
    then show ?thesis using 1 unfolding phase_def and_then_def by auto
  qed
qed

lemma phase_read_failed:
  assumes "read_on c c'" shows "phase (read_failed err mid c') c Q"
proof -
  obtain r c2 where r: "esp_mqtt_handle_transport_read_error err mid c' = Some (r, c2)" "hush c2 = hush c'"
    "r = (if err = Timed_Out then if mid then -1 else 0 else -2)"
    using read_error_total recv_okD read_onD [OF assms] by metis
  then show ?thesis using read_on_hush [OF assms r(2)] read_onD [OF read_on_hush [OF assms r(2)]]
    by (auto simp: phase_def read_failed_def)
qed

lemma phase_receive_err:
  assumes "recv_ok c'" "silent c' = silent c" shows "phase (receive_err c') c Q"
proof -
  obtain c2 where c2: "esp_mqtt_client_dispatch_transport_error c' = Some c2" "hush c2 = hush c'"
    using transport_error_total recv_okD [OF assms(1)] by metis
  have "recv_ok c2" "silent c2 = silent c" using recv_ok_hush [OF assms(1) c2(2)] silent_hush [OF c2(2)] assms(2) by simp_all
  then show ?thesis using c2(1) by (simp add: phase_def receive_err_def)
qed

text \<open>A read in a phase: it goes on with the bytes that arrived, or the phase returns.\<close>

lemma phase_read:
  assumes "recv_ok c" "0 < n" "in_buffer_read_len c + n \<le> in_buffer_length c"
    "\<And>m c'. esp_transport_read (in_buffer_read_len c) n c = Some (Bytes m, c') \<Longrightarrow> 0 < m \<Longrightarrow> m \<le> n \<Longrightarrow>
       read_on c (c'\<lparr>in_buffer_read_len := in_buffer_read_len c + m\<rparr>) \<Longrightarrow>
       in_buffer_read_len c' = in_buffer_read_len c \<Longrightarrow> message_length c' = message_length c \<Longrightarrow>
       take (in_buffer_read_len c) (in_buffer c') = take (in_buffer_read_len c) (in_buffer c) \<Longrightarrow> phase (f m c') c Q"
    "\<And>r c. g r c = (case r of Bytes m \<Rightarrow> f m c | _ \<Rightarrow> read_failed r mid c)"
  shows "phase (do { (r, c) \<leftarrow> esp_transport_read (in_buffer_read_len c) n c; g r c }) c Q"
proof (rule transport_read [OF assms(1-3)], goal_cases)
  case (1 m c')
  then show ?case using assms(4) [of m c'] by (simp add: assms(5))
next
  case (2 r c')
  then have "phase (read_failed r mid c') c Q" by (intro phase_read_failed)
  then show ?case using 2 by (cases r) (auto simp: assms(5))
qed

lemma first_byte_phase:
  assumes "recv_ok c"
  shows "phase (receive_first_byte c) c (\<lambda>c'. in_buffer_read_len c' = max 1 (in_buffer_read_len c))"
proof (cases "in_buffer_read_len c = 0")
  case True
  let ?f = "\<lambda>n c. do { valid \<leftarrow> mqtt_has_valid_msg_hdr (in_buffer c) n;
    if valid then Some (None, c\<lparr>in_buffer_read_len := in_buffer_read_len c + 1\<rparr>) else receive_err c }"
  have step: "phase (?f m c') c (\<lambda>c'. in_buffer_read_len c' = max 1 (in_buffer_read_len c))"
    if m: "0 < m" "m \<le> 1" "read_on c (c'\<lparr>in_buffer_read_len := in_buffer_read_len c + m\<rparr>)"
      "in_buffer_read_len c' = in_buffer_read_len c" for m c'
  proof -
    have ok: "recv_ok c'" using read_onD [OF m(3)] True m(4) by (auto simp: recv_ok_def)
    have si: "silent c' = silent c" using read_onD [OF m(3)] by (simp add: silent_def hush_def)
    have "mqtt_has_valid_msg_hdr (in_buffer c') m \<noteq> None"
      using mqtt_has_valid_msg_hdr_total [of m "in_buffer c'"] ok m(2) by (auto simp: recv_ok_def)
    moreover have m1: "m = 1" using m by simp
    moreover have "read_on c (c'\<lparr>in_buffer_read_len := 1\<rparr>)" using m(3) True m1 by simp
    ultimately show ?thesis
      using m(4) True phase_receive_err [OF ok si] phase_done [of c "c'\<lparr>in_buffer_read_len := 1\<rparr>"] by auto
  qed
  show ?thesis unfolding receive_first_byte_def if_P [OF True]
    by (rule phase_read [of c 1 ?f _ _ False, unfolded True]) (use assms True step in \<open>auto simp: recv_ok_def split: read_result.splits\<close>)
next
  case False
  then show ?thesis using phase_done [OF read_on_refl [OF assms]] by (simp add: receive_first_byte_def max_def)
qed

text \<open>The bytes from position \<open>i\<close> to the last one read all announce another length byte.\<close>

definition continues :: "byte list \<Rightarrow> nat \<Rightarrow> nat \<Rightarrow> bool" where
  "continues b i j \<longleftrightarrow> (\<forall>k. i \<le> k \<and> k < j \<longrightarrow> b ! k AND 0x80 \<noteq> 0)"

definition length_read :: "esp_mqtt_client \<Rightarrow> esp_mqtt_client \<Rightarrow> bool" where
  "length_read c c' \<longleftrightarrow> in_buffer_read_len c < in_buffer_read_len c' \<and> in_buffer_read_len c' \<le> 6 \<and>
     take (in_buffer_read_len c) (in_buffer c') = take (in_buffer_read_len c) (in_buffer c) \<and>
     continues (in_buffer c') (in_buffer_read_len c) (in_buffer_read_len c' - 1) \<and>
     (in_buffer_read_len c' < 6 \<longrightarrow> in_buffer c' ! (in_buffer_read_len c' - 1) AND 0x80 = 0)"

lemma phase_cases:
  assumes "phase p c Q"
  obtains c' where "p = Some (None, c')" "read_on c c'" "Q c'"
  | x c' where "p = Some (Some x, c')" "recv_ok c'" "silent c' = silent c" "x = -2 \<or> (x = 0 \<or> x = -1) \<and> read_on c c'"
proof -
  obtain r c' where r: "p = Some (r, c')" "recv_ok c'" "silent c' = silent c"
    "case r of None \<Rightarrow> read_on c c' \<and> Q c' | Some x \<Rightarrow> x = -2 \<or> (x = 0 \<or> x = -1) \<and> read_on c c'"
    using assms unfolding phase_def by blast
  then show thesis using that(1) [of c'] that(2) [of _ c'] by (cases r) simp_all
qed

lemma phase_mono:
  assumes "phase p c Q" "\<And>c'. read_on c c' \<Longrightarrow> Q c' \<Longrightarrow> R c'"
  shows "phase p c R"
  using assms(1)
proof (cases rule: phase_cases)
  case (1 c')
  then show ?thesis using assms(2) phase_done by simp
next
  case (2 x c')
  then show ?thesis by (simp add: phase_def)
qed

lemma phase_from:
  assumes "read_on c c1" "phase p c1 Q"
  shows "phase p c Q"
  using assms(2)
proof (cases rule: phase_cases)
  case (1 c')
  then show ?thesis using read_on_trans [OF assms(1)] phase_done by simp
next
  case (2 x c')
  moreover have "silent c' = silent c" using 2 read_onD [OF assms(1)] by simp
  moreover have "read_on c c'" if "read_on c1 c'" using read_on_trans [OF assms(1) that] .
  ultimately show ?thesis by (auto simp: phase_def)
qed

lemma continues_step: "continues b (Suc i) j \<Longrightarrow> b ! i AND 0x80 \<noteq> 0 \<Longrightarrow> continues b i j"
  unfolding continues_def by (metis Suc_leI le_eq_less_or_eq)

lemma length_loop_phase:
  "recv_ok c \<Longrightarrow> 1 \<le> in_buffer_read_len c \<Longrightarrow> in_buffer_read_len c \<le> 5 \<Longrightarrow> phase (receive_length_loop c) c (length_read c)"
proof (induction c rule: receive_length_loop.induct)
  case (1 c)
  let ?l = "in_buffer_read_len c"
  let ?f = "\<lambda>n c. do { let c = c\<lparr>in_buffer_read_len := in_buffer_read_len c + 1\<rparr>;
         more \<leftarrow> length_continues c; if more then receive_length_loop c else Some (None, c) }"
  have step: "phase (?f m c') c (length_read c)"
    if m: "0 < m" "m \<le> 1" "read_on c (c'\<lparr>in_buffer_read_len := ?l + m\<rparr>)" "in_buffer_read_len c' = ?l"
      "take ?l (in_buffer c') = take ?l (in_buffer c)" and rd: "esp_transport_read ?l 1 c = Some (Bytes m, c')" for m c'
  proof -
    let ?c = "c'\<lparr>in_buffer_read_len := ?l + 1\<rparr>"
    have ro: "read_on c ?c" using m by (simp add: le_Suc_eq)
    then have ok: "recv_ok ?c" using read_onD by blast
    show ?thesis
    proof (cases "?l + 1 < 6 \<and> in_buffer c' ! ?l AND 0x80 \<noteq> 0")
      case True
      then have more: "length_continues ?c = Some True"
        using ok by (simp add: length_continues_def load_def recv_ok_def)
      have IH: "phase (receive_length_loop ?c) ?c (length_read ?c)"
        using "1.IH" [OF rd refl refl refl] more ok True m(4) by simp
      have "length_read c c''" if r: "length_read ?c c''" for c''
      proof -
        have tk: "take (?l + 1) (in_buffer c'') = take (?l + 1) (in_buffer c')" using r by (simp add: length_read_def)
        then have "take ?l (in_buffer c'') = take ?l (in_buffer c)"
          using m(5) by (metis le_add1 min.absorb1 take_take)
        moreover have "in_buffer c'' ! ?l = in_buffer c' ! ?l" using tk by (metis less_add_one nth_take)
        then have "continues (in_buffer c'') ?l (in_buffer_read_len c'' - 1)"
          using r True continues_step by (simp add: length_read_def)
        ultimately show ?thesis using r by (auto simp: length_read_def)
      qed
      then show ?thesis using phase_from [OF ro phase_mono [OF IH]] more m(4) by simp
    next
      case False
      then have more: "length_continues ?c = Some False"
        using ok by (auto simp: length_continues_def load_def recv_ok_def)
      have "length_read c ?c" using m "1.prems" False by (auto simp: length_read_def continues_def)
      then show ?thesis using phase_done [OF ro] more m(4) by simp
    qed
  qed
  show ?case
    by (subst receive_length_loop.simps, rule phase_read [of c 1 ?f _ _ True])
       (use 1(2-) step in \<open>auto simp: recv_ok_def split: read_result.splits\<close>)
qed

lemma length_phase:
  assumes "recv_ok c" "1 \<le> in_buffer_read_len c"
  shows "phase (receive_length c) c (\<lambda>c'. 2 \<le> in_buffer_read_len c' \<and>
    (in_buffer_read_len c = 1 \<longrightarrow> length_read c c'))"
proof -
  have lc: "in_buffer_read_len c - 1 < length (in_buffer c)" using assms unfolding recv_ok_def by linarith
  consider "in_buffer_read_len c = 1" | "in_buffer_read_len c \<noteq> 1" "length_continues c = Some True" "in_buffer_read_len c \<le> 5"
    | "in_buffer_read_len c \<noteq> 1" "length_continues c = Some False"
  proof -
    have "length_continues c = Some (in_buffer_read_len c < 6 \<and> in_buffer c ! (in_buffer_read_len c - 1) AND 0x80 \<noteq> 0)"
      using lc by (simp add: length_continues_def load_def)
    then show thesis using that by (cases "in_buffer_read_len c < 6 \<and> in_buffer c ! (in_buffer_read_len c - 1) AND 0x80 \<noteq> 0") auto
  qed
  then show ?thesis
  proof cases
    case 1
    then show ?thesis using phase_mono [OF length_loop_phase [OF assms]]
      by (simp add: receive_length_def length_read_def)
  next
    case 2
    have "phase (receive_length_loop c) c (\<lambda>c'. 2 \<le> in_buffer_read_len c')"
      by (rule phase_mono [OF length_loop_phase [OF assms 2(3)]]) (use assms(2) in \<open>auto simp: length_read_def\<close>)
    then show ?thesis using 2 by (simp add: receive_length_def)
  next
    case 3
    then show ?thesis using phase_done [OF read_on_refl [OF assms(1)]] assms(2) by (simp add: receive_length_def)
  qed
qed

lemma decode_length_end:
  "i < n \<Longrightarrow> 1 \<le> i \<Longrightarrow> n \<le> 5 \<Longrightarrow> n \<le> length b \<Longrightarrow> continues b i (n - 1) \<Longrightarrow> b ! (n - 1) AND 0x80 = 0 \<Longrightarrow>
   \<exists>t'. decode_length b n i t = Some (n, t')"
proof (induction "n - i" arbitrary: i t)
  case (Suc d)
  show ?case
  proof (cases "i = n - 1")
    case True
    then have "n = Suc i" using Suc.prems by simp
    then show ?thesis using Suc.prems by (subst decode_length.simps) (simp add: load_def)
  next
    case False
    then have "b ! i AND 0x80 \<noteq> 0" "continues b (Suc i) (n - 1)" using Suc.prems by (auto simp: continues_def)
    moreover have "i \<le> 4" "i < length b" using Suc.prems False by auto
    ultimately show ?thesis using Suc.hyps(1) [of "Suc i"] Suc.hyps(2) Suc.prems False
      by (subst decode_length.simps) (simp add: load_def)
  qed
qed simp

lemma rest_phase:
  assumes "recv_ok c" "total_len \<le> in_buffer_length c"
  shows "phase (receive_rest total_len c) c (\<lambda>c'. in_buffer_read_len c' = max total_len (in_buffer_read_len c) \<and>
     message_length c' = message_length c \<and>
     take (in_buffer_read_len c) (in_buffer c') = take (in_buffer_read_len c) (in_buffer c))"
    (is "phase _ _ ?Q")
proof (cases "in_buffer_read_len c < total_len")
  case True
  let ?f = "\<lambda>n c. let c = c\<lparr>in_buffer_read_len := in_buffer_read_len c + n\<rparr> in
            if in_buffer_read_len c < total_len then Some (Some 0, c) else Some (None, c)"
  have step: "phase (?f m c') c ?Q"
    if "m \<le> total_len - in_buffer_read_len c" "read_on c (c'\<lparr>in_buffer_read_len := in_buffer_read_len c + m\<rparr>)"
      "in_buffer_read_len c' = in_buffer_read_len c" "message_length c' = message_length c"
      "take (in_buffer_read_len c) (in_buffer c') = take (in_buffer_read_len c) (in_buffer c)" for m c'
    using that True phase_stop phase_done [OF that(2)] by (auto simp: Let_def max_def)
  show ?thesis unfolding receive_rest_def if_P [OF True]
    by (rule phase_read [of c "total_len - in_buffer_read_len c" ?f _ _ True])
       (use assms True step in \<open>auto split: read_result.splits\<close>)
next
  case False
  then show ?thesis using phase_done [OF read_on_refl [OF assms(1)]] by (simp add: receive_rest_def max_def)
qed

lemma topic_length_phase:
  assumes "recv_ok c" "h \<le> in_buffer_read_len c" "h \<le> 5"
  shows "phase (receive_topic_length h c) c (\<lambda>c'. h + 2 \<le> in_buffer_read_len c' \<and> message_length c' = message_length c \<and>
     take (in_buffer_read_len c) (in_buffer c') = take (in_buffer_read_len c) (in_buffer c))" (is "phase _ _ ?Q")
proof (cases "in_buffer_read_len c < h + 2")
  case True
  let ?n = "in_buffer_read_len c - h + 2"
  let ?f = "\<lambda>n c. let c = c\<lparr>in_buffer_read_len := in_buffer_read_len c + n\<rparr> in
            if in_buffer_read_len c < h + 2 then Some (Some 0, c) else Some (None, c)"
  have step: "phase (?f m c') c ?Q"
    if "read_on c (c'\<lparr>in_buffer_read_len := in_buffer_read_len c + m\<rparr>)"
      "in_buffer_read_len c' = in_buffer_read_len c" "message_length c' = message_length c"
      "take (in_buffer_read_len c) (in_buffer c') = take (in_buffer_read_len c) (in_buffer c)" for m c'
    using that phase_stop [OF that(1)] phase_done [OF that(1)] by (simp add: Let_def)
  show ?thesis unfolding receive_topic_length_def if_P [OF True]
    by (rule phase_read [of c ?n ?f _ _ True]) (use assms True step in \<open>auto simp: recv_ok_def split: read_result.splits\<close>)
next
  case False
  then show ?thesis using phase_done [OF read_on_refl [OF assms(1)]] by (simp add: receive_topic_length_def)
qed

lemma header_fits_phase:
  assumes "recv_ok c" "h + 2 \<le> in_buffer_read_len c"
  shows "phase (receive_header_fits h c) c (\<lambda>c'. c' = c)"
proof -
  have "load (in_buffer c) h = Some (in_buffer c ! h)" "load (in_buffer c) (h + 1) = Some (in_buffer c ! (h + 1))"
    using assms by (auto simp: load_def recv_ok_def)
  moreover obtain q where "mqtt_get_qos (in_buffer c) = Some q"
    using header_byte_total(2) [of "in_buffer c"] recv_okD [OF assms(1)] by blast
  ultimately show ?thesis
    using phase_receive_err [OF assms(1) refl] phase_done [OF read_on_refl [OF assms(1)]]
    by (auto simp: receive_header_fits_def)
qed

text \<open>What a receive leaves behind when it returns a message.\<close>

definition arrived :: "esp_mqtt_client \<Rightarrow> bool" where
  "arrived c \<longleftrightarrow> message_length c \<le> in_buffer_length c \<and> message_length c \<le> in_buffer_read_len c \<or>
     in_buffer_length c < message_length c \<and> mqtt_get_type (in_buffer c) = Some MQTT_MSG_TYPE_PUBLISH \<and>
     in_buffer_read_len c = in_buffer_length c"

lemma get_type_take: "take n b = take n b' \<Longrightarrow> 0 < n \<Longrightarrow> n \<le> length b \<Longrightarrow> n \<le> length b' \<Longrightarrow> mqtt_get_type b = mqtt_get_type b'"
  by (metis (no_types, lifting) load_def mqtt_get_type_def nth_take order_less_le_trans)

lemma total_length_cases:
  assumes "recv_ok c" "1 \<le> in_buffer_read_len c"
  obtains t h where "mqtt_get_total_length (in_buffer c) (in_buffer_read_len c) = Some (t, h)"
    "h \<le> 5" "h \<le> in_buffer_read_len c" "h \<le> t" "in_buffer_read_len c \<le> 5 \<Longrightarrow> 2 \<le> in_buffer_read_len c \<Longrightarrow>
       continues (in_buffer c) 1 (in_buffer_read_len c - 1) \<Longrightarrow>
       in_buffer c ! (in_buffer_read_len c - 1) AND 0x80 = 0 \<Longrightarrow> h = in_buffer_read_len c"
proof -
  let ?l = "in_buffer_read_len c"
  have ll: "?l \<le> length (in_buffer c)" using assms by (simp add: recv_ok_def)
  obtain j t where "decode_length (in_buffer c) ?l 1 0 = Some (j, t)" "j \<le> 5" "j \<le> ?l"
    using decode_length_total [OF ll, of 1 0] assms(2) by auto
  then show thesis using that [of "t + j" j] decode_length_end [of 1 ?l "in_buffer c" 0] ll
    by (auto simp: mqtt_get_total_length_def)
qed

lemma body_phase:
  assumes "recv_ok c" "2 \<le> in_buffer_read_len c"
  shows "phase (receive_body c) c (\<lambda>c'. arrived c' \<and>
     (message_length c' \<le> in_buffer_length c \<longrightarrow>
        in_buffer_read_len c' = max (message_length c') (in_buffer_read_len c) \<and>
       (in_buffer_read_len c \<le> 5 \<longrightarrow> continues (in_buffer c) 1 (in_buffer_read_len c - 1) \<longrightarrow>
        in_buffer c ! (in_buffer_read_len c - 1) AND 0x80 = 0 \<longrightarrow> in_buffer_read_len c \<le> message_length c')))"
    (is "phase _ _ ?Q")
proof -
  have len1: "1 \<le> in_buffer_read_len c" using assms(2) by simp
  obtain t h where t: "mqtt_get_total_length (in_buffer c) (in_buffer_read_len c) = Some (t, h)"
    "h \<le> 5" "h \<le> in_buffer_read_len c" "h \<le> t" "in_buffer_read_len c \<le> 5 \<Longrightarrow> 2 \<le> in_buffer_read_len c \<Longrightarrow>
       continues (in_buffer c) 1 (in_buffer_read_len c - 1) \<Longrightarrow>
       in_buffer c ! (in_buffer_read_len c - 1) AND 0x80 = 0 \<Longrightarrow> h = in_buffer_read_len c"
    using total_length_cases [OF assms(1) len1] by metis
  let ?c = "c\<lparr>message_length := t\<rparr>"
  have ro: "read_on c ?c" using assms(1) by (simp add: read_on_def recv_ok_def stream_def silent_def hush_def)
  then have ok: "recv_ok ?c" using read_onD by blast
  obtain ty where ty: "mqtt_get_type (in_buffer c) = Some ty"
    using header_byte_total(1) [of "in_buffer c"] recv_okD [OF assms(1)] by blast
  consider "t \<le> in_buffer_length c" | "in_buffer_length c < t" "ty = MQTT_MSG_TYPE_PUBLISH"
    | "in_buffer_length c < t" "ty \<noteq> MQTT_MSG_TYPE_PUBLISH" by linarith
  then show ?thesis
  proof cases
    case 1
    have "phase (receive_rest t ?c) ?c ?Q"
    proof (rule phase_mono [OF rest_phase [OF ok]], goal_cases)
      case (2 c')
      then show ?case using read_onD [OF 2(1)] 1 t(5) assms(2) \<open>h \<le> t\<close> by (auto simp: arrived_def max_def)
    qed (use 1 in simp)
    then show ?thesis using phase_from [OF ro] t(1) 1 by (simp add: receive_body_def Let_def)
  next
    case 2
    let ?n = "in_buffer_length c"
    have "phase (and_then (receive_topic_length h) (and_then (receive_header_fits h) (receive_rest ?n)) ?c) ?c ?Q"
    proof (rule phase_and_then, rule topic_length_phase [OF ok], goal_cases)
      case (3 c1)
      have c1: "recv_ok c1" "in_buffer_length c1 = ?n" using read_onD [OF 3(1)] by simp_all
      show ?case
      proof (rule phase_and_then, rule header_fits_phase [OF c1(1)], goal_cases)
        case (2 c2)
        have "phase (receive_rest ?n c1) c1 ?Q"
        proof (rule phase_mono [OF rest_phase [OF c1(1)]], goal_cases)
          case (2 c3)
          have ml: "message_length c3 = t" "in_buffer_length c3 = ?n" "recv_ok c3"
            using 2 3 c1 read_onD [OF 2(1)] by auto
          have rl: "in_buffer_read_len c3 = ?n"
            using 2(2) c1 by (auto simp: recv_ok_def max_def)
          have "mqtt_get_type (in_buffer c3) = mqtt_get_type (in_buffer c1)"
            using 2 3 ml(3) c1 by (intro get_type_take [of "in_buffer_read_len c1"]) (auto simp: recv_ok_def)
          moreover have "mqtt_get_type (in_buffer c1) = mqtt_get_type (in_buffer ?c)"
            using 3 assms c1 by (intro get_type_take [of "in_buffer_read_len c"]) (auto simp: recv_ok_def)
          ultimately show ?case using ml rl ty \<open>ty = MQTT_MSG_TYPE_PUBLISH\<close> \<open>?n < t\<close> by (simp add: arrived_def)
        qed (use c1 in simp)
        then show ?case using 2 by simp
      qed (use 3 in simp)
    qed (use t in simp_all)
    then show ?thesis using phase_from [OF ro] t(1) ty 2 by (simp add: receive_body_def Let_def)
  next
    case 3
    then show ?thesis using phase_receive_err [of ?c c] ok ro t(1) ty by (simp add: receive_body_def Let_def read_on_def)
  qed
qed

section \<open>A whole receive\<close>

text \<open>
  Exactly one message is read when none of it was read before; a malformed length field of five
  bytes is the exception.
\<close>

definition exact :: "esp_mqtt_client \<Rightarrow> bool" where
  "exact c \<longleftrightarrow> (message_length c \<le> in_buffer_length c \<longrightarrow>
     in_buffer_read_len c = message_length c \<or> in_buffer_read_len c = 6 \<and> message_length c < 6)"

lemma receive_phases:
  assumes "recv_ok c"
  shows "phase (and_then receive_first_byte (and_then receive_length receive_body) c) c
     (\<lambda>c'. arrived c' \<and> (in_buffer_read_len c = 0 \<longrightarrow> exact c'))"
proof (rule phase_and_then, rule first_byte_phase [OF assms], goal_cases)
  case (1 c1)
  have c1: "recv_ok c1" "1 \<le> in_buffer_read_len c1" "in_buffer_read_len c = 0 \<longrightarrow> in_buffer_read_len c1 = 1"
    using 1 read_onD [OF 1(1)] by auto
  show ?case
  proof (rule phase_and_then, rule length_phase [OF c1(1,2)], goal_cases)
    case c2: (1 c2)
    have ok2: "recv_ok c2" "2 \<le> in_buffer_read_len c2" using c2 read_onD [OF c2(1)] by auto
    show ?case
    proof (rule phase_mono [OF body_phase [OF ok2]], goal_cases)
      case (1 c3)
      have "exact c3" if "in_buffer_read_len c = 0"
        using that c1(3) c2(2) 1(2) read_onD [OF 1(1)]
        by (cases "in_buffer_read_len c2 \<le> 5") (auto simp: exact_def length_read_def max_def)
      then show ?case using 1 by blast
    qed
  qed
qed

lemma receive_total:
  assumes "recv_ok c"
  shows "\<exists>r c'. mqtt_message_receive c = Some (r, c') \<and> recv_ok c' \<and> silent c' = silent c \<and> r \<in> {-2, -1, 0, 1} \<and>
    (r \<noteq> -2 \<longrightarrow> read_on c c') \<and> (r = 1 \<longrightarrow> arrived c' \<and> (in_buffer_read_len c = 0 \<longrightarrow> exact c'))"
proof -
  let ?c = "c\<lparr>message_length := 0\<rparr>"
  have ro: "read_on c ?c" using assms by (simp add: read_on_def recv_ok_def stream_def silent_def hush_def)
  then have ok: "recv_ok ?c" using read_onD by blast
  from phase_from [OF ro receive_phases [OF ok]] show ?thesis
    by (cases rule: phase_cases) (auto simp: mqtt_message_receive_def dest: read_onD)
qed

section \<open>A client for examples\<close>

definition sample_event :: client_event where
  "sample_event = \<lparr>event_id = MQTT_EVENT_ANY, event_data = None, event_data_len = 0, event_total_data_len = 0,
     event_current_data_offset = 0, event_topic = None, event_topic_len = 0, event_msg_id = 0,
     event_session_present = 0,
     event_error_handle = Some \<lparr>esp_tls_last_esp_err = 0, esp_tls_stack_err = 0, esp_tls_cert_verify_flags = 0,
       error_type = MQTT_ERROR_TYPE_NONE, connect_return_code = 0, esp_transport_sock_errno = 0\<rparr>,
     event_retain = False, event_qos = 0, event_dup = False, event_protocol_ver = MQTT_PROTOCOL_UNDEFINED,
     data_ptr = Null_Ptr, topic_ptr = Null_Ptr, disconnect_return_code = 0, event_reason_code = 0,
     event_property = \<lparr>ep_payload_format_indicator = False, ep_response_topic = None, ep_response_topic_len = 0,
       ep_correlation_data = None, ep_correlation_data_len = 0, ep_content_type = None, ep_content_type_len = 0,
       ep_subscribe_id = 0, ep_user_property = None,
       ep_server = \<lparr>es_maximum_packet_size = 0, es_receive_maximum = 0, es_topic_alias_maximum = 0, es_max_qos = 0,
         es_retain_available = False, es_wildcard_subscribe_available = False, es_subscribe_identifiers_available = False,
         es_shared_subscribe_available = False, es_response_info = Null_Str, es_response_info_len = 0\<rparr>\<rparr>\<rparr>"

definition sample_mqtt5_config :: mqtt5_config_storage where
  "sample_mqtt5_config = \<lparr>
     connect_property_info = \<lparr>cp_session_expiry_interval = 0, cp_maximum_packet_size = 0, cp_receive_maximum = 0,
       cp_topic_alias_maximum = 0, cp_request_resp_info = False, cp_request_problem_info = False, cp_user_property = None\<rparr>,
     will_property_info = \<lparr>wp_will_delay_interval = 0, wp_message_expiry_interval = 0, wp_payload_format_indicator = False,
       wp_content_type = None, wp_response_topic = None, wp_correlation_data = None, wp_correlation_data_len = 0,
       wp_user_property = None\<rparr>,
     server_resp_property_info = \<lparr>sr_maximum_packet_size = 0, sr_receive_maximum = 65535, sr_topic_alias_maximum = 0,
       sr_max_qos = 2, sr_retain_available = True, sr_wildcard_subscribe_available = True,
       sr_subscribe_identifiers_available = True, sr_shared_subscribe_available = True, sr_response_info = Null_Str\<rparr>,
     disconnect_property_info = \<lparr>dp_session_expiry_interval = 0, dp_disconnect_reason = 0, dp_user_property = None\<rparr>,
     publish_property_info = None, subscribe_property_info = None, unsubscribe_property_info = None,
     peer_topic_alias = None\<rparr>"

definition sample_client :: "nat \<Rightarrow> esp_mqtt_client" where
  "sample_client n = \<lparr>wire = [], rx_plan = [], sent = [], tx_plan = [], poll_plan = [], connect_plan = [], error_plan = [],
     clock = 1000, delays = [], allocs = [], events = [],
     in_buffer = replicate n 0, in_buffer_length = n, message_length = 0, in_buffer_read_len = 0,
     connection = \<lparr>outbound_message = \<lparr>msg_data = Null, msg_length = 0, fragmented_msg_total_length = 0,
         fragmented_msg_data_offset = 0\<rparr>, ids = Incremental 0, buffer = replicate n 0, buffer_length = n,
       information = \<lparr>client_id = None, username = None, password = None, will_topic = None, will_message = None,
         keepalive = 120, will_length = 0, will_qos = 0, will_retain = False, clean_session = True,
         protocol_ver = MQTT_PROTOCOL_V_3_1_1\<rparr>\<rparr>,
     pending_msg_id = 0, pending_msg_type = 0, pending_publish_qos = 0,
     transport_list = None, transport = Some 1883,
     config = \<lparr>cs_uri = None, cs_host = None, cs_path = None, cs_scheme = None, cs_port = 1883, cs_auto_reconnect = True,
       cs_network_timeout_ms = 10000, cs_refresh_connection_after_ms = 0, cs_reconnect_timeout_ms = 10000,
       cs_message_retransmit_timeout = 1000, cs_outbox_limit = 0, cs_transport = None,
       MQTT_REPORT_DELETED_MESSAGES = False, MQTT_SKIP_PUBLISH_IF_DISCONNECTED = False,
       MQTT_TOPIC_PRESENT_ALL_DATA_EVENTS = False\<rparr>,
     state = MQTT_STATE_CONNECTED, refresh_connection_tick = 0, keepalive_tick = 0, reconnect_tick = 0,
     mqtt5_config = sample_mqtt5_config, send_publish_packet_count = 0, wait_timeout_ms = 0, event = sample_event,
     run = True, stopping = False, wait_for_ping_resp = False, outbox = \<lparr>ob_size = 0, ob_list = []\<rparr>,
     stopped_bit = False, reconnect_bit = False, disconnect_bit = False, task_handle = True,
     last_retransmit = 0, msg_tick = 0\<rparr>"

lemma sample_recv_ok: "9 \<le> n \<Longrightarrow> recv_ok (sample_client n)"
  by (simp add: recv_ok_def sample_client_def)

section \<open>Properties\<close>

text \<open>
  C5. Whatever the transport does, \<open>mqtt_message_receive\<close> returns with one of its four codes and
  changes nothing but the receive buffer, its counters and the reported events. It writes only
  inside the buffer, and unless it reports an error the bytes in the buffer followed by those
  still to come are the same as before: no byte is lost, repeated or reordered, also over many
  calls that each get a part of a message. When it returns 1, the whole message is there, or a
  full buffer of a longer PUBLISH; and when nothing of the message had been read by an earlier
  call, exactly that message has been read.
\<close>

theorem receive_in_stream:
  assumes "recv_ok c"
  shows "\<exists>r c'. mqtt_message_receive c = Some (r, c') \<and> r \<in> {-2, -1, 0, 1} \<and> recv_ok c' \<and> silent c' = silent c \<and>
    (r \<noteq> -2 \<longrightarrow> stream c' = stream c \<and> in_buffer_read_len c \<le> in_buffer_read_len c') \<and>
    (r = 1 \<longrightarrow> arrived c' \<and> (in_buffer_read_len c = 0 \<longrightarrow> exact c'))"
proof -
  obtain r c' where "mqtt_message_receive c = Some (r, c')" "recv_ok c'" "silent c' = silent c" "r \<in> {-2, -1, 0, 1}"
    "r \<noteq> -2 \<longrightarrow> read_on c c'" "r = 1 \<longrightarrow> arrived c' \<and> (in_buffer_read_len c = 0 \<longrightarrow> exact c')"
    using receive_total [OF assms] by (elim exE conjE)
  then show ?thesis by (intro exI [of _ r] exI [of _ c']) (simp add: read_on_def)
qed

theorem receive_in_stream_witness:
  "\<exists>c'. mqtt_message_receive ((sample_client 16)\<lparr>wire := [0x40, 2, 0, 7, 0x30], rx_plan := [Rx_Chunk 1, Rx_Chunk 1, Rx_Chunk 2]\<rparr>) = Some (1, c') \<and>
     stream c' = [0x40, 2, 0, 7, 0x30] \<and> arrived c' \<and> exact c'"
proof -
  let ?c = "(sample_client 16)\<lparr>wire := [0x40, 2, 0, 7, 0x30], rx_plan := [Rx_Chunk 1, Rx_Chunk 1, Rx_Chunk 2]\<rparr>"
  have ok: "recv_ok ?c" using sample_recv_ok [of 16] by (simp add: recv_ok_def)
  have start: "stream ?c = [0x40, 2, 0, 7, 0x30]" "in_buffer_read_len ?c = 0" by (simp_all add: stream_def sample_client_def)
  have "map_option fst (mqtt_message_receive ?c) = Some 1" by code_simp
  then show ?thesis using receive_in_stream [OF ok] start by auto
qed

text \<open>
  A message of which a part was read before is another matter: the test for a length byte looks
  at the last byte read, also when that is beyond the length field. Here three bytes of a PUBACK
  with identifier \<open>0x8081\<close> are in the buffer; the call that gets the fourth one also takes the
  first byte of the next message.
\<close>

lemma receive_takes_next_message:
  "\<exists>c'. mqtt_message_receive ((sample_client 9)\<lparr>in_buffer := [0x40, 2, 0x80, 0, 0, 0, 0, 0, 0], in_buffer_read_len := 3,
       wire := [0x81, 0x30, 3], rx_plan := [Rx_Chunk 1, Rx_Chunk 1]\<rparr>) = Some (1, c') \<and>
     message_length c' = 4 \<and> in_buffer_read_len c' = 5 \<and> wire c' = [3]"
  by (simp add: mqtt_message_receive_def and_then_def receive_first_byte_def receive_length_def length_continues_def
      load_def sample_client_def receive_length_loop.simps esp_transport_read_def store_def receive_body_def
      mqtt_get_total_length_def decode_length.simps receive_rest_def)

end
