(* ===== verification/Mqtt_Client_Send.thy ===== *)
theory Mqtt_Client_Send
  imports Mqtt_Client_Receive Mqtt_Outbox
begin

text \<open>
  Publishing: the bytes that reach the transport are one PUBLISH packet, also when the payload is
  longer than the buffer and when the transport takes it in small pieces, and the outbox holds
  the same packet until it is acknowledged.
\<close>

section \<open>Writing\<close>

text \<open>A transport that takes at least one byte at each write.\<close>

definition willing :: "esp_mqtt_client \<Rightarrow> bool" where
  "willing c \<longleftrightarrow> list_all (\<lambda>a. case a of Tx_Chunk k \<Rightarrow> 0 < k | _ \<Rightarrow> False) (tx_plan c)"

lemma write_loop_willing:
  "willing c \<Longrightarrow> \<exists>plan. write_loop bs c = Some (ESP_OK, c\<lparr>sent := sent c @ bs, tx_plan := plan\<rparr>) \<and>
     willing (c\<lparr>sent := sent c @ bs, tx_plan := plan\<rparr>)"
proof (induction "length bs" arbitrary: bs c rule: less_induct)
  case less
  show ?case
  proof (cases "bs = []")
    case True
    then show ?thesis using less.prems by (intro exI [of _ "tx_plan c"]) (simp add: write_loop.simps)
  next
    case bs: False
    show ?thesis
    proof (cases "tx_plan c")
      case Nil
      then show ?thesis using bs less.prems
        by (intro exI [of _ "[]"]) (simp add: write_loop.simps [of bs] write_loop.simps [of "[]"] esp_transport_write_def willing_def)
    next
      case (Cons a plan)
      then obtain k where a: "a = Tx_Chunk k" "0 < k" using less.prems by (cases a) (auto simp: willing_def)
      let ?c = "c\<lparr>tx_plan := plan, sent := sent c @ take k bs\<rparr>"
      have ok: "willing ?c" using less.prems Cons by (simp add: willing_def)
      have run: "write_loop bs c = write_loop (drop (min k (length bs)) bs) ?c"
      proof -
        have mk: "min k (length bs) \<noteq> 0" using bs a by simp
        then show ?thesis using bs Cons a by (subst write_loop.simps) (simp add: esp_transport_write_def mk split del: if_split)
      qed
      have dr: "drop (min k (length bs)) bs = drop k bs" by (simp add: min_def)
      have "length (drop k bs) < length bs" using bs a by (cases bs) auto
      from less.hyps [OF this ok] obtain p where
        "write_loop (drop k bs) ?c = Some (ESP_OK, ?c\<lparr>sent := sent ?c @ drop k bs, tx_plan := p\<rparr>)"
        "willing (?c\<lparr>sent := sent ?c @ drop k bs, tx_plan := p\<rparr>)" by blast
      then show ?thesis using run dr by (intro exI [of _ p]) (simp add: willing_def)
    qed
  qed
qed

lemma outbound_data_bytes: "take (msg_length (outbound c)) (outbound_data c) = message_bytes (connection c)"
  by (simp add: outbound_data_def message_bytes_def split: msg_ptr.splits)

lemma write_willing:
  assumes "willing c" "length (message_bytes (connection c)) = msg_length (outbound c)"
  shows "\<exists>plan. esp_mqtt_write c = Some (ESP_OK, c\<lparr>sent := sent c @ message_bytes (connection c), tx_plan := plan\<rparr>) \<and>
     willing (c\<lparr>sent := sent c @ message_bytes (connection c), tx_plan := plan\<rparr>)"
proof -
  have "msg_length (outbound c) \<le> length (outbound_data c)"
    using assms(2) outbound_data_bytes [of c] by (metis length_take min.cobounded1)
  then have "fetch (outbound_data c) (msg_length (outbound c)) = Some (message_bytes (connection c))"
    by (simp add: fetch_def outbound_data_bytes)
  then show ?thesis using write_loop_willing [OF assms(1), of "message_bytes (connection c)"] by (simp add: esp_mqtt_write_def)
qed

lemma to_int_nat: "n < 2 ^ 31 \<Longrightarrow> to_int (of_nat n) = int n"
  by (simp add: to_int_def sint_uint unsigned_of_nat take_bit_nat_eq_self signed_take_bit_int_eq_self)

section \<open>The rest of a long payload\<close>

text \<open>The client but for what a transmission changes: the connection's buffer and message, and what was sent.\<close>

definition unsent :: "esp_mqtt_client \<Rightarrow> esp_mqtt_client" where
  "unsent c = c\<lparr>sent := [], tx_plan := [], connection := (connection c)\<lparr>buffer := [], outbound_message :=
     \<lparr>msg_data = Null, msg_length = 0, fragmented_msg_total_length = 0, fragmented_msg_data_offset = 0\<rparr>\<rparr>\<rparr>"

definition idle_message :: "esp_mqtt_client \<Rightarrow> bool" where
  "idle_message c \<longleftrightarrow> fragmented_msg_total_length (outbound c) = 0 \<and> fragmented_msg_data_offset (outbound c) = 0"

definition sending :: "esp_mqtt_client \<Rightarrow> bool" where
  "sending c \<longleftrightarrow> willing c \<and> length (buffer (connection c)) = buffer_length (connection c) \<and>
     0 < buffer_length (connection c)"

text \<open>One turn of the loop: the message goes out, and the next part of the payload takes its place.\<close>

definition next_part :: "byte list \<Rightarrow> nat \<Rightarrow> nat \<Rightarrow> esp_mqtt_client \<Rightarrow> bool" where
  "next_part d cur n c \<longleftrightarrow> idle_message c \<and> msg_data (outbound c) = In_Buffer 0 \<and>
     msg_length (outbound c) = min n (buffer_length (connection c)) \<and>
     message_bytes (connection c) = take (min n (buffer_length (connection c))) (drop cur d)"

lemma send_loop_turn:
  assumes c: "sending c" and len: "length (message_bytes (connection c)) = msg_length (outbound c)"
    and s: "data_sent c = int k" "k < n" "cur + n \<le> length d"
  obtains c' where "send_loop (Some d) (int cur) (int n) c = send_loop (Some d) (int (cur + k)) (int (n - k)) c'"
    "sending c'" "next_part d (cur + k) (n - k) c'" "sent c' = sent c @ message_bytes (connection c)"
    "unsent c' = unsent c" "buffer_length (connection c') = buffer_length (connection c)"
proof -
  let ?bl = "buffer_length (connection c)"
  let ?w = "min (n - k) ?bl"
  obtain plan where w: "esp_mqtt_write c = Some (ESP_OK, c\<lparr>sent := sent c @ message_bytes (connection c), tx_plan := plan\<rparr>)"
    "willing (c\<lparr>sent := sent c @ message_bytes (connection c), tx_plan := plan\<rparr>)"
    using write_willing [OF _ len] c by (auto simp: sending_def)
  let ?c1 = "upd_outbound (\<lambda>m. m\<lparr>fragmented_msg_data_offset := 0, fragmented_msg_total_length := 0\<rparr>)
      (c\<lparr>sent := sent c @ message_bytes (connection c), tx_plan := plan\<rparr>)"
  have bs: "length (take ?w (drop (cur + k) d)) = ?w" using s by simp
  obtain b where b: "store (buffer (connection c)) 0 (take ?w (drop (cur + k) d)) = Some b"
    using c bs by (simp add: store_def sending_def)
  have tb: "take ?w b = take ?w (drop (cur + k) d)" "length b = length (buffer (connection c))"
    using store_take_end [OF b] store_length [OF b] bs by simp_all
  let ?c2 = "upd_outbound (\<lambda>m. m\<lparr>msg_data := In_Buffer 0, msg_length := ?w\<rparr>)
      (?c1\<lparr>connection := (connection ?c1)\<lparr>buffer := b\<rparr>\<rparr>)"
  have pa: "payload_at (Some d) (int cur + int k) = Some (drop (cur + k) d)"
    using s by (simp add: payload_at_def nat_add_distrib)
  have nk: "nat (int n - int k) = n - k" using s by linarith
  have fw: "?w \<le> length d - (cur + k)" using s by simp
  have wl: "(if ?bl < n - k then ?bl else n - k) = ?w" by simp
  have ds: "data_sent (c\<lparr>sent := sent c @ message_bytes (connection c), tx_plan := plan\<rparr>) = int k"
    using s(1) by (simp add: data_sent_def)
  have "send_loop (Some d) (int cur) (int n) c = send_loop (Some d) (int cur + int k) (int n - int k) ?c2"
    using s w(1) ds pa b bs
    by (subst send_loop.simps) (simp add: Let_def fetch_def upd_outbound_def nk wl fw cong: if_cong split del: if_split)
  then have "send_loop (Some d) (int cur) (int n) c = send_loop (Some d) (int (cur + k)) (int (n - k)) ?c2"
    using s by (simp add: of_nat_diff)
  moreover have "sending ?c2" using c w(2) tb(2) by (simp add: sending_def willing_def upd_outbound_def)
  moreover have "next_part d (cur + k) (n - k) ?c2"
    using tb by (simp add: next_part_def idle_message_def upd_outbound_def message_bytes_def)
  ultimately show thesis using that [of ?c2] by (simp add: upd_outbound_def unsent_def)
qed

text \<open>The last turn.\<close>

lemma send_loop_ends:
  assumes c: "sending c" and len: "length (message_bytes (connection c)) = msg_length (outbound c)"
    and s: "n \<le> data_sent c"
  obtains c' where "send_loop d cur n c = Some (True, c')" "sending c'" "idle_message c'"
    "sent c' = sent c @ message_bytes (connection c)" "unsent c' = unsent c"
proof -
  obtain plan where w: "esp_mqtt_write c = Some (ESP_OK, c\<lparr>sent := sent c @ message_bytes (connection c), tx_plan := plan\<rparr>)"
    "willing (c\<lparr>sent := sent c @ message_bytes (connection c), tx_plan := plan\<rparr>)"
    using write_willing [OF _ len] c by (auto simp: sending_def)
  let ?c = "upd_outbound (\<lambda>m. m\<lparr>fragmented_msg_data_offset := 0, fragmented_msg_total_length := 0\<rparr>)
      (c\<lparr>sent := sent c @ message_bytes (connection c), tx_plan := plan\<rparr>)"
  have "data_sent (c\<lparr>sent := sent c @ message_bytes (connection c), tx_plan := plan\<rparr>) = data_sent c"
    by (simp add: data_sent_def)
  then have "send_loop d cur n c = Some (True, ?c)"
    using s w(1) by (subst send_loop.simps) (simp add: Let_def)
  then show thesis using that [of ?c] c w(2) by (simp add: sending_def willing_def idle_message_def unsent_def upd_outbound_def)
qed

text \<open>Once the loop has the rest of the payload to itself, it sends all of it.\<close>

lemma send_loop_rest:
  assumes "sending c" "next_part d cur n c" "0 < n" "cur + n \<le> length d"
    and "buffer_length (connection c) < 2 ^ 31"
  shows "\<exists>c'. send_loop (Some d) (int cur) (int n) c = Some (True, c') \<and> sending c' \<and> idle_message c' \<and>
    sent c' = sent c @ take n (drop cur d) \<and> unsent c' = unsent c"
  using assms
proof (induction n arbitrary: cur c rule: less_induct)
  case (less n)
  let ?w = "min n (buffer_length (connection c))"
  have np: "msg_length (outbound c) = ?w" "message_bytes (connection c) = take ?w (drop cur d)" "idle_message c"
    using less.prems(2) by (simp_all add: next_part_def)
  have bs: "length (message_bytes (connection c)) = msg_length (outbound c)" using np less.prems by simp
  have w0: "0 < ?w" using less.prems by (simp add: sending_def)
  have ds: "data_sent c = int ?w"
    using np less.prems by (simp add: data_sent_def idle_message_def to_int_nat)
  show ?case
  proof (cases "?w < n")
    case True
    then have bl: "?w = buffer_length (connection c)" "buffer_length (connection c) < n" by auto
    obtain c1 where c1: "send_loop (Some d) (int cur) (int n) c = send_loop (Some d) (int (cur + ?w)) (int (n - ?w)) c1"
      "sending c1" "next_part d (cur + ?w) (n - ?w) c1" "sent c1 = sent c @ message_bytes (connection c)"
      "unsent c1 = unsent c" "buffer_length (connection c1) = buffer_length (connection c)"
      using send_loop_turn [OF less.prems(1) bs ds True less.prems(4)] by blast
    obtain c2 where c2: "send_loop (Some d) (int (cur + ?w)) (int (n - ?w)) c1 = Some (True, c2)" "sending c2" "idle_message c2"
      "sent c2 = sent c1 @ take (n - ?w) (drop (cur + ?w) d)" "unsent c2 = unsent c1"
      using less.IH [OF _ c1(2,3)] c1(6) bl w0 less.prems by (auto simp del: of_nat_add)
    have "take n (drop cur d) = take ?w (drop cur d) @ take (n - ?w) (drop (cur + ?w) d)"
      using take_add [of ?w "n - ?w" "drop cur d"] True by (simp add: add.commute)
    then show ?thesis using c1 c2 np by simp
  next
    case False
    obtain c1 where "send_loop (Some d) (int cur) (int n) c = Some (True, c1)" "sending c1" "idle_message c1"
      "sent c1 = sent c @ message_bytes (connection c)" "unsent c1 = unsent c"
      using send_loop_ends [OF less.prems(1) bs, of "int n" "Some d" "int cur"] ds False by auto
    moreover have "?w = n" using False by simp
    ultimately show ?thesis using np by auto
  qed
qed

section \<open>The first part\<close>

lemma publish_payload_offset:
  assumes "publish_payload data n c = Some c'" "fragmented_msg_total_length (outbound_message c') = 0" "0 < out_length c"
  shows "fragmented_msg_data_offset (outbound_message c') = fragmented_msg_data_offset (outbound_message c)"
  using assms by (auto simp: publish_payload_def Let_def bind_eq_Some_conv split: option.splits if_splits)

lemma fini_message_offset:
  assumes "fini_message c ty dup qos retain = Some c'" "out_length c' \<noteq> 0"
  obtains j where "j \<le> 4" "fragmented_msg_total_length (outbound_message c') = fragmented_msg_total_length (outbound_message c)"
    "fragmented_msg_data_offset (outbound_message c') = fragmented_msg_data_offset (outbound_message c) - of_nat j"
  using assms that [of "4 - length (encode_length (if fragmented_msg_total_length (outbound_message c) \<noteq> 0
       then fragmented_msg_total_length (outbound_message c) - 5 else out_length c - 5))"]
  by (auto simp: fini_message_def Let_def bind_eq_Some_conv split: if_splits)

text \<open>How much of the payload a composed PUBLISH has in it, as the client computes it.\<close>

definition held :: "mqtt_connection \<Rightarrow> int" where
  "held c = to_int (of_nat (out_length c) - fragmented_msg_data_offset (outbound_message c))"

lemma data_sent_held: "data_sent c = held (connection c)"
  by (simp add: data_sent_def held_def)

text \<open>
  The position of the payload is only meaningful in a message longer than the buffer; otherwise
  it is what earlier messages left, which was 0 and has been decremented since.
\<close>

definition spent_offset :: "mqtt_connection \<Rightarrow> bool" where
  "spent_offset c \<longleftrightarrow> unat (- fragmented_msg_data_offset (outbound_message c)) < 2 ^ 30"

lemma held_spent:
  assumes "spent_offset c" "fragmented_msg_data_offset (outbound_message c') = fragmented_msg_data_offset (outbound_message c) - of_nat j"
    "j \<le> 4" "out_length c' < 2 ^ 29"
  shows "int (out_length c') \<le> held c'"
proof -
  let ?p = "unat (- fragmented_msg_data_offset (outbound_message c))"
  have o: "fragmented_msg_data_offset (outbound_message c) = - of_nat ?p" by simp
  have "of_nat (out_length c') - fragmented_msg_data_offset (outbound_message c') = of_nat (out_length c' + ?p + j)"
    unfolding assms(2) by (subst o) (simp only: of_nat_add diff_minus_eq_add diff_diff_eq2 ac_simps, simp)
  then show ?thesis using assms by (simp only: held_def spent_offset_def) (subst to_int_nat, simp_all)
qed

lemma publish_offset:
  assumes c: "init_ok c" and t: "nonempty topic" and d: "data = None \<longrightarrow> data_length = 0"
    and id: "qos > 0 \<longrightarrow> next_id c 0 = Some (m, src)"
    and c': "mqtt_msg_publish c topic data data_length qos retain mid0 = Some (c', i)"
    "fragmented_msg_total_length (outbound_message c') = 0" "out_length c' \<noteq> 0"
  obtains j where "j \<le> 4"
    "fragmented_msg_data_offset (outbound_message c') = fragmented_msg_data_offset (outbound_message c) - of_nat j"
proof -
  obtain c1 where c1: "same_frame c c1" "conn_ok c1" "mqtt_msg_publish c topic data data_length qos retain mid0 =
          do { c \<leftarrow> publish_payload data data_length c1; c \<leftarrow> fini_message c 3 0 qos retain;
               Some (c, if qos > 0 then m else 0) }"
    using publish_header [OF c t d id, of retain mid0] c' by (auto split: if_splits)
  obtain c2 where c2: "publish_payload data data_length c1 = Some c2" "fini_message c2 3 0 qos retain = Some c'"
    using c'(1) unfolding c1(3) by (auto simp: bind_eq_Some_conv)
  obtain j where j: "j \<le> 4" "fragmented_msg_total_length (outbound_message c') = fragmented_msg_total_length (outbound_message c2)"
    "fragmented_msg_data_offset (outbound_message c') = fragmented_msg_data_offset (outbound_message c2) - of_nat j"
    using fini_message_offset [OF c2(2) c'(3)] by blast
  have "fragmented_msg_data_offset (outbound_message c2) = fragmented_msg_data_offset (outbound_message c)"
    using publish_payload_offset [OF c2(1)] j(2) c'(2) c1(1,2) by (simp add: conn_ok_def same_frame_def)
  then show thesis using that j by simp
qed

lemma publish_first_part:
  fixes qos
  assumes c: "init_ok c" "spent_offset c" and t: "t \<noteq> []" and d: "len \<le> length d"
    and id: "qos > 0 \<longrightarrow> assign_message_id (ids c) = Some (m, src)"
  defines "mid \<equiv> (if qos > 0 then Some m else None)"
  assumes sm: "small (length (publish_body t mid []) + len)"
    and head: "5 + length (publish_body t mid []) \<le> buffer_length c" "buffer_length c < 2 ^ 31"
  obtains c' k where "mqtt_msg_publish c (Some t) (Some d) len qos retain 0 = Some (c', if qos > 0 then m else 0)"
    "ids c' = (if qos > 0 then src else ids c)" "k \<le> len"
    "message_bytes c' @ drop k (take len d) = packet 3 0 qos retain (publish_body t mid (take len d))"
    "out_length c' = length (message_bytes c')" "out_length c' \<noteq> 0" "information c' = information c"
    "buffer_length c' = buffer_length c" "length (buffer c') = buffer_length c"
    "if fragmented_msg_total_length (outbound_message c') = 0 then k = len \<and> int len \<le> held c' else k < len \<and> held c' = int k"
proof -
  let ?h = "publish_body t mid []"
  let ?k = "buffer_length c - 5 - length ?h"
  have ne: "nonempty (Some t)" "chars (Some t) = t" "chars (Some d) = d" using t by (simp_all add: nonempty_def chars_def)
  have nid: "0 < qos \<longrightarrow> next_id c 0 = Some (m, src)" using id by (simp add: next_id_def)
  have body: "publish_body t mid (take len d) = ?h @ take len d" by (rule publish_body_data)
  have b: "length (buffer c) = buffer_length c" using c(1) by (simp add: init_ok_def)
  show thesis
  proof (cases "5 + length ?h + len \<le> buffer_length c")
    case False
    let ?e = "encode_length (length ?h + len)"
    obtain c' where c': "mqtt_msg_publish c (Some t) (Some d) len qos retain 0 = Some (c', if qos > 0 then m else 0)"
      "ids c' = (if qos > 0 then src else ids c)"
      "message_bytes c' @ drop ?k (take len d) = packet 3 0 qos retain (?h @ take len d)"
      "out_length c' = length (message_bytes c')" "out_length c' = buffer_length c - (4 - length ?e)"
      "buffer_length c' = buffer_length c" "length (buffer c') = length (buffer c)" "information c' = information c"
      "fragmented_msg_total_length (outbound_message c') = 5 + length ?h + len"
      "fragmented_msg_data_offset (outbound_message c') = of_nat (1 + length ?e + length ?h)"
      using mqtt_msg_publish_fragments [OF c(1) ne(1) d nid, of retain 0] sm head False unfolding mid_def ne(2) by auto
    have e: "0 < length ?e" "length ?e \<le> 4" using sm length_encode_small length_encode_length_pos by blast+
    have l: "out_length c' = ?k + (1 + length ?e + length ?h)" unfolding c'(5) using head(1) e by linarith
    have "held c' = int ?k" unfolding held_def c'(10) l using head(2) by (simp only: of_nat_add add_diff_cancel_right') (rule to_int_nat, simp)
    then show thesis using c' l False b body by (intro that [of c' ?k]) simp_all
  next
    case True
    have l: "length (publish_body t mid (take len d)) = length ?h + len" using d by (simp add: body)
    obtain c' where c': "mqtt_msg_publish c (Some t) (Some d) len qos retain 0 = Some (c', if qos > 0 then m else 0)"
      "ids c' = (if qos > 0 then src else ids c)"
      "composed c c' (packet 3 0 qos retain (publish_body t mid (take len d)))"
      using mqtt_msg_publish_composes [OF c(1) ne(1) _ nid, of len "Some d" retain 0] sm True d l unfolding mid_def ne(2,3) by auto
    have cp: "message_bytes c' = packet 3 0 qos retain (publish_body t mid (take len d))" "out_length c' = length (message_bytes c')"
      "buffer_length c' = buffer_length c" "length (buffer c') = buffer_length c" "information c' = information c"
      "fragmented_msg_total_length (outbound_message c') = 0"
      using c'(3) b by (simp_all add: composed_def)
    have n: "out_length c' = 1 + length (encode_length (length ?h + len)) + (length ?h + len)" using cp l by (simp add: length_packet)
    obtain j where j: "j \<le> 4" "fragmented_msg_data_offset (outbound_message c') = fragmented_msg_data_offset (outbound_message c) - of_nat j"
      using publish_offset [OF c(1) ne(1) _ nid c'(1) cp(6)] n by auto
    have "int (out_length c') \<le> held c'"
      using held_spent [OF c(2) j(2,1)] n sm length_encode_small [OF sm] by simp
    then show thesis using c' cp n d by (intro that [of c' len]) (simp_all add: packet_def)
  qed
qed

section \<open>Storing\<close>

definition rest_ok :: "byte list option \<Rightarrow> nat \<Rightarrow> bool" where
  "rest_ok rd rl \<longleftrightarrow> (case rd of None \<Rightarrow> rl = 0 | Some r \<Rightarrow> rl \<le> length r)"

definition stored_item :: "esp_mqtt_client \<Rightarrow> byte list \<Rightarrow> int \<Rightarrow> outbox_item" where
  "stored_item c bs tick = \<lparr>item_addr = fresh_addr (outbox c), item_buffer = bs, item_len = length bs,
     item_msg_id = uint (pending_msg_id c), item_msg_type = pending_msg_type c,
     item_msg_qos = pending_publish_qos c, item_tick = tick, item_pending = QUEUED\<rparr>"

lemma mqtt_enqueue_stores:
  assumes "allocs c = []" "length (message_bytes (connection c)) = msg_length (outbound c)" "rest_ok rd rl"
  obtains now ds where "mqtt_enqueue rd rl c = Some (True, c\<lparr>clock := now, delays := ds,
      outbox := \<lparr>ob_size = ob_size (outbox c) + of_nat (msg_length (outbound c) + rl),
        ob_list = ob_list (outbox c) @ [stored_item c (message_bytes (connection c) @ take rl (chars rd)) (uint (of_nat now :: 64 word))]\<rparr>\<rparr>)"
proof -
  let ?m = "\<lparr>om_data = outbound_data c, om_len = msg_length (outbound c),
       om_msg_id = uint (pending_msg_id c), om_msg_qos = pending_publish_qos c,
       om_msg_type = pending_msg_type c, om_remaining_data = rd, om_remaining_len = rl\<rparr>"
  let ?now = "case delays c of [] \<Rightarrow> clock c | d # _ \<Rightarrow> clock c + d"
  have "msg_length (outbound c) \<le> length (outbound_data c)"
    using assms(2) outbound_data_bytes [of c] by (metis length_take min.cobounded1)
  then have ok: "message_ok ?m" using assms(3) by (auto simp: message_ok_def rest_ok_def split: option.splits)
  have content: "message_content ?m = message_bytes (connection c) @ take rl (chars rd)"
    using assms(3) by (auto simp: message_content_def outbound_data_bytes chars_def rest_ok_def split: option.splits)
  have len: "length (message_bytes (connection c) @ take rl (chars rd)) = msg_length (outbound c) + rl"
    using length_message_content [OF ok] content by simp
  have item: "new_item a (message_content ?m) ?m tick = stored_item c (message_bytes (connection c) @ take rl (chars rd)) tick"
    if "a = fresh_addr (outbox c)" for a tick
    using that len by (simp add: new_item_def stored_item_def content)
  show thesis
    using outbox_enqueue_stores [OF ok, of "replicate (msg_length (outbound c) + rl) 0" "outbox c"
        "uint (of_nat ?now :: 64 word)" "fresh_addr (outbox c)"] assms(1)
    by (intro that [of ?now "tl (delays c)"])
       (simp add: mqtt_enqueue_def platform_tick_get_ms_def client_calloc_def calloc_def Let_def item)
qed

section \<open>A publish call\<close>

text \<open>A PUBLISH that can be composed: its topic and identifier fit the buffer, its payload is there.\<close>

definition publishable :: "cstring \<Rightarrow> byte list \<Rightarrow> nat \<Rightarrow> 16 word option \<Rightarrow> mqtt_connection \<Rightarrow> bool" where
  "publishable t d len mid c \<longleftrightarrow> init_ok c \<and> spent_offset c \<and> t \<noteq> [] \<and> len \<le> length d \<and>
     small (length (publish_body t mid []) + len) \<and>
     5 + length (publish_body t mid []) \<le> buffer_length c \<and> buffer_length c < 2 ^ 31"

definition publish_packet :: "cstring \<Rightarrow> byte list \<Rightarrow> nat \<Rightarrow> int \<Rightarrow> int \<Rightarrow> 16 word option \<Rightarrow> byte list" where
  "publish_packet t d len qos retain mid = packet 3 0 qos retain (publish_body t mid (take len d))"

text \<open>The message in the buffer is the packet up to position \<open>k\<close> of the payload, and the client knows \<open>k\<close>.\<close>

definition first_part :: "byte list \<Rightarrow> byte list \<Rightarrow> nat \<Rightarrow> nat \<Rightarrow> mqtt_connection \<Rightarrow> bool" where
  "first_part pkt d len k conn \<longleftrightarrow> k \<le> len \<and> message_bytes conn @ drop k (take len d) = pkt \<and>
     length (message_bytes conn) = out_length conn \<and> out_length conn \<noteq> 0 \<and>
     length (buffer conn) = buffer_length conn \<and>
     (if k = len then int len \<le> held conn else held conn = int k)"

lemma make_publish_first_part:
  assumes v: "\<not> is_v5 c" and p: "publishable t d len mid (connection c)"
    and id: "if qos > 0 then mid = Some m \<and> assign_message_id (ids (connection c)) = Some (m, src) else mid = None"
  obtains conn k where "make_publish (Some t) (Some d) (int len) qos retain c = Some (if qos > 0 then uint m else 0, c\<lparr>connection := conn\<rparr>)"
    "first_part (publish_packet t d len qos retain mid) d len k conn" "buffer_length conn = buffer_length (connection c)"
    "fragmented_msg_total_length (outbound_message conn) = 0 \<longleftrightarrow> k = len"
    "information conn = information (connection c)"
proof -
  have mid: "(if qos > 0 then Some m else None) = mid" and id': "0 < qos \<longrightarrow> assign_message_id (ids (connection c)) = Some (m, src)"
    using id by (auto split: if_splits)
  obtain conn k where c': "mqtt_msg_publish (connection c) (Some t) (Some d) len qos retain 0 = Some (conn, if qos > 0 then m else 0)"
    "k \<le> len" "message_bytes conn @ drop k (take len d) = publish_packet t d len qos retain mid"
    "out_length conn = length (message_bytes conn)" "out_length conn \<noteq> 0" "information conn = information (connection c)"
    "buffer_length conn = buffer_length (connection c)" "length (buffer conn) = buffer_length (connection c)"
    "if fragmented_msg_total_length (outbound_message conn) = 0 then k = len \<and> int len \<le> held conn else k < len \<and> held conn = int k"
    unfolding publish_packet_def
    by (rule publish_first_part [of "connection c" t len d qos m src retain, unfolded mid]) (use p [unfolded publishable_def] id' in blast)+
  have "make_publish (Some t) (Some d) (int len) qos retain c = Some (if qos > 0 then uint m else 0, c\<lparr>connection := conn\<rparr>)"
    using v c'(1,5,6) by (simp add: make_publish_def has_message_def Let_def)
  then show thesis using c'(2-) by (intro that [of conn k]) (auto simp: first_part_def split: if_splits)
qed

lemma first_part_type:
  assumes "first_part (publish_packet t d len qos retain mid) d len k (connection c)" "0 \<le> qos" "qos < 4" "retain \<in> {0, 1}"
  shows "mqtt_get_type (outbound_data c) = Some 3"
proof -
  have "message_bytes (connection c) \<noteq> []" using assms(1) by (auto simp: first_part_def)
  then obtain b bs where b: "take (msg_length (outbound c)) (outbound_data c) = b # bs"
    by (metis list.exhaust outbound_data_bytes)
  then have "b = fixed_header_byte 3 0 qos retain"
    using assms(1) by (simp add: first_part_def publish_packet_def packet_def outbound_data_bytes)
  then obtain ys where "outbound_data c = fixed_header_byte 3 0 qos retain # ys"
    using b by (cases "outbound_data c") (auto simp: take_Cons split: nat.splits)
  then show ?thesis using fixed_header_fields(1) [of 3 0 qos retain ys] assms(2-) by simp
qed

text \<open>Transmission, from the first part to the last.\<close>

lemma send_loop_all:
  assumes "willing c" "first_part pkt d len k (connection c)" "len \<le> length d" "0 < len"
    and "5 \<le> buffer_length (connection c)" "buffer_length (connection c) < 2 ^ 31"
  obtains c' where "send_loop (Some d) 0 (int len) c = Some (True, c')" "sent c' = sent c @ pkt"
    "sending c'" "idle_message c'" "unsent c' = unsent c"
proof -
  have s: "sending c" and len: "length (message_bytes (connection c)) = msg_length (outbound c)"
    using assms by (simp_all add: sending_def first_part_def)
  show thesis
  proof (cases "k = len")
    case True
    obtain c' where "send_loop (Some d) 0 (int len) c = Some (True, c')" "sending c'" "idle_message c'"
      "sent c' = sent c @ message_bytes (connection c)" "unsent c' = unsent c"
      using send_loop_ends [OF s len, of "int len" "Some d" 0] assms(2) True by (auto simp: first_part_def data_sent_held)
    then show thesis using that [of c'] True assms(2) by (simp add: first_part_def)
  next
    case False
    then have k: "k < len" "data_sent c = int k" using assms(2) by (auto simp: first_part_def data_sent_held)
    obtain c1 where c1: "send_loop (Some d) (int 0) (int len) c = send_loop (Some d) (int (0 + k)) (int (len - k)) c1"
      "sending c1" "next_part d (0 + k) (len - k) c1" "sent c1 = sent c @ message_bytes (connection c)"
      "unsent c1 = unsent c" "buffer_length (connection c1) = buffer_length (connection c)"
      using send_loop_turn [OF s len k(2,1), of 0 d] assms(3) by auto
    obtain c2 where c2: "send_loop (Some d) (int (0 + k)) (int (len - k)) c1 = Some (True, c2)" "sending c2" "idle_message c2"
      "sent c2 = sent c1 @ take (len - k) (drop (0 + k) d)" "unsent c2 = unsent c1"
      using send_loop_rest [OF c1(2,3)] k assms c1(6) by auto
    then show thesis using that [of c2] c1 assms(2) by (simp add: first_part_def drop_take)
  qed
qed

text \<open>What is stored of a PUBLISH with an identifier: the whole packet.\<close>

definition publish_item :: "esp_mqtt_client \<Rightarrow> byte list \<Rightarrow> 16 word \<Rightarrow> int \<Rightarrow> int \<Rightarrow> pending_state \<Rightarrow> outbox_item" where
  "publish_item c pkt m qos tick p = \<lparr>item_addr = fresh_addr (outbox c), item_buffer = pkt, item_len = length pkt,
     item_msg_id = uint m, item_msg_type = 3, item_msg_qos = qos, item_tick = tick, item_pending = p\<rparr>"

text \<open>The client but for the outbox, the clock, the pending message and the message in the buffer.\<close>

definition unqueued :: "esp_mqtt_client \<Rightarrow> esp_mqtt_client" where
  "unqueued c = (unsent c)\<lparr>clock := 0, delays := [], pending_msg_type := 0, pending_msg_id := 0, pending_publish_qos := 0,
     outbox := \<lparr>ob_size = 0, ob_list = []\<rparr>, connection := (connection (unsent c))\<lparr>ids := Random []\<rparr>\<rparr>"

lemma unqueued_updates [simp]:
  "unqueued (c\<lparr>clock := n\<rparr>) = unqueued c" "unqueued (c\<lparr>delays := ds\<rparr>) = unqueued c" "unqueued (c\<lparr>outbox := ob\<rparr>) = unqueued c"
  "unqueued (c\<lparr>pending_msg_type := ty\<rparr>) = unqueued c" "unqueued (c\<lparr>pending_msg_id := i\<rparr>) = unqueued c"
  "unqueued (c\<lparr>pending_publish_qos := q\<rparr>) = unqueued c" "unqueued (upd_outbound f c) = unqueued c"
  by (simp_all add: unqueued_def unsent_def upd_outbound_def)

lemma unqueued_connection: "information conn = information (connection c) \<Longrightarrow> buffer_length conn = buffer_length (connection c) \<Longrightarrow>
   unqueued (c\<lparr>connection := conn\<rparr>) = unqueued c"
  by (simp add: unqueued_def unsent_def)

lemma unqueued_unsent: "unsent c' = unsent c \<Longrightarrow> unqueued c' = unqueued c"
  by (simp add: unqueued_def)

lemma first_part_total [simp]: "first_part pkt d len k (connection (upd_outbound (\<lambda>m. m\<lparr>fragmented_msg_total_length := n\<rparr>) c)) =
    first_part pkt d len k (connection c)"
proof -
  have "message_bytes (connection (upd_outbound (\<lambda>m. m\<lparr>fragmented_msg_total_length := n\<rparr>) c)) = message_bytes (connection c)"
    by (simp add: message_bytes_def upd_outbound_def split: msg_ptr.split)
  then show ?thesis by (simp add: first_part_def held_def) (simp add: upd_outbound_def)
qed

lemma upd_outbound_field [simp]:
  "outbox (upd_outbound f c) = outbox c" "sent (upd_outbound f c) = sent c" "tx_plan (upd_outbound f c) = tx_plan c"
  "buffer_length (connection (upd_outbound f c)) = buffer_length (connection c)"
  by (simp_all add: upd_outbound_def)

lemma unsent_outbox:
  assumes "unsent c' = unsent c"
  shows "outbox c' = outbox c"
proof -
  have "outbox (unsent c) = outbox c" for c by (simp add: unsent_def)
  then show ?thesis using assms by metis
qed

lemma enqueue_publish_stores:
  assumes al: "allocs c = []" and fp: "first_part pkt d len k (connection c)" and d: "len \<le> length d"
    and ty: "mqtt_get_type (outbound_data c) = Some 3"
    and fr: "fragmented_msg_total_length (outbound c) = 0 \<longleftrightarrow> k = len"
    and mk: "make_publish (Some t) (Some d) (int len) qos retain c0 = Some (uint m, c)" and q: "qos > 0"
  obtains c' tick where "mqtt_client_enqueue_publish (Some t) (Some d) (int len) qos retain False c0 = Some (uint m, c')"
    "ob_list (outbox c') = ob_list (outbox c) @ [publish_item c pkt m qos tick QUEUED]"
    "first_part pkt d len k (connection c')" "unqueued c' = unqueued c" "sent c' = sent c" "tx_plan c' = tx_plan c"
    "buffer_length (connection c') = buffer_length (connection c)"
proof -
  let ?c = "c\<lparr>pending_msg_type := 3, pending_msg_id := m, pending_publish_qos := qos\<rparr>"
  have len: "length (message_bytes (connection ?c)) = msg_length (outbound ?c)" using fp by (simp add: first_part_def)
  have k: "k \<le> len" "k \<noteq> len \<longrightarrow> data_sent ?c = int k" using fp by (auto simp: first_part_def data_sent_def held_def)
  have kd: "len - k \<le> length d - k" using d by simp
  have kn: "nat (int len - int k) = len - k" using k(1) by linarith
  have pkt: "message_bytes (connection c) @ take (len - k) (drop k d) = pkt" using fp by (simp add: first_part_def drop_take)
  show thesis
  proof (cases "k = len")
    case True
    obtain now ds where e: "mqtt_enqueue None 0 ?c = Some (True, ?c\<lparr>clock := now, delays := ds,
      outbox := \<lparr>ob_size = ob_size (outbox c) + of_nat (msg_length (outbound c)),
        ob_list = ob_list (outbox c) @ [stored_item ?c (message_bytes (connection c)) (uint (of_nat now :: 64 word))]\<rparr>\<rparr>)"
      using mqtt_enqueue_stores [of ?c None 0] al len by (auto simp: rest_ok_def)
    have "mqtt_client_enqueue_publish (Some t) (Some d) (int len) qos retain False c0 = Some (uint m, snd (the (mqtt_enqueue None 0 ?c)))"
      using mk q ty fr True e by (simp add: mqtt_client_enqueue_publish_def)
    then show thesis using e pkt True fp
      by (intro that [of "snd (the (mqtt_enqueue None 0 ?c))" "uint (of_nat now :: 64 word)"]) (simp_all add: stored_item_def publish_item_def)
  next
    case False
    obtain now ds where e: "mqtt_enqueue (Some (drop k d)) (len - k) ?c = Some (True, ?c\<lparr>clock := now, delays := ds,
      outbox := \<lparr>ob_size = ob_size (outbox c) + of_nat (msg_length (outbound c) + (len - k)),
        ob_list = ob_list (outbox c) @ [stored_item ?c (message_bytes (connection c) @ take (len - k) (drop k d)) (uint (of_nat now :: 64 word))]\<rparr>\<rparr>)"
      using mqtt_enqueue_stores [of ?c "Some (drop k d)" "len - k"] al len kd by (auto simp: rest_ok_def chars_def)
    have pa: "payload_at (Some d) (int k) = Some (drop k d)" using k d by (simp add: payload_at_def)
    have "mqtt_client_enqueue_publish (Some t) (Some d) (int len) qos retain False c0 =
        Some (uint m, upd_outbound (\<lambda>m. m\<lparr>fragmented_msg_total_length := 0\<rparr>) (snd (the (mqtt_enqueue (Some (drop k d)) (len - k) ?c))))"
      using mk q ty fr False e k pa by (simp add: mqtt_client_enqueue_publish_def kn Let_def)
    then show thesis using e [unfolded pkt] fp
      by (intro that [of "upd_outbound (\<lambda>m. m\<lparr>fragmented_msg_total_length := 0\<rparr>) (snd (the (mqtt_enqueue (Some (drop k d)) (len - k) ?c)))"
            "uint (of_nat now :: 64 word)"])
         (simp_all add: stored_item_def publish_item_def)
  qed
qed

section \<open>Properties\<close>

lemma unqueued_field:
  "unqueued c' = unqueued c \<Longrightarrow> state c' = state c" "unqueued c' = unqueued c \<Longrightarrow> config c' = config c"
  "unqueued c' = unqueued c \<Longrightarrow> information (connection c') = information (connection c)"
  "unqueued c' = unqueued c \<Longrightarrow> buffer_length (connection c') = buffer_length (connection c)"
proof -
  have "state (unqueued c) = state c" "config (unqueued c) = config c"
    "information (connection (unqueued c)) = information (connection c)"
    "buffer_length (connection (unqueued c)) = buffer_length (connection c)" for c
    by (simp_all add: unqueued_def unsent_def)
  then show "unqueued c' = unqueued c \<Longrightarrow> state c' = state c" "unqueued c' = unqueued c \<Longrightarrow> config c' = config c"
    "unqueued c' = unqueued c \<Longrightarrow> information (connection c') = information (connection c)"
    "unqueued c' = unqueued c \<Longrightarrow> buffer_length (connection c') = buffer_length (connection c)"
    by metis+
qed

lemma publish_enqueues:
  assumes v: "\<not> is_v5 c" and al: "allocs c = []" and p: "publishable t d len mid (connection c)"
    and id: "if qos > 0 then mid = Some m \<and> assign_message_id (ids (connection c)) = Some (m, src) else mid = None"
    and q: "0 \<le> qos" "qos < 4" "retain \<in> {0, 1}"
  defines "pkt \<equiv> publish_packet t d len qos retain mid"
  obtains c' tick k where "mqtt_client_enqueue_publish (Some t) (Some d) (int len) qos retain False c = Some (if qos > 0 then uint m else 0, c')"
    "ob_list (outbox c') = ob_list (outbox c) @ (if qos > 0 then [publish_item c pkt m qos tick QUEUED] else [])"
    "first_part pkt d len k (connection c')" "unqueued c' = unqueued c" "sent c' = sent c" "tx_plan c' = tx_plan c"
proof -
  obtain conn k where mk: "make_publish (Some t) (Some d) (int len) qos retain c = Some (if qos > 0 then uint m else 0, c\<lparr>connection := conn\<rparr>)"
    "first_part pkt d len k conn" "buffer_length conn = buffer_length (connection c)"
    "fragmented_msg_total_length (outbound_message conn) = 0 \<longleftrightarrow> k = len" "information conn = information (connection c)"
    by (rule make_publish_first_part [OF v p id, of retain, folded pkt_def]) (rule that)
  let ?c = "c\<lparr>connection := conn\<rparr>"
  have u: "unqueued ?c = unqueued c" using mk by (simp add: unqueued_connection)
  show thesis
  proof (cases "qos > 0")
    case True
    have ty: "mqtt_get_type (outbound_data ?c) = Some 3"
      using first_part_type [of t d len qos retain mid k ?c] mk(2) q by (simp add: pkt_def)
    have mk': "make_publish (Some t) (Some d) (int len) qos retain c = Some (uint m, ?c)" using mk(1) True by simp
    show thesis
      by (rule enqueue_publish_stores [of ?c pkt d len k t qos retain c m])
         (use al mk mk' p ty True u that in \<open>auto simp: publishable_def publish_item_def\<close>)
  next
    case False
    then show thesis using mk u by (intro that [of ?c 0 k]) (simp_all add: mqtt_client_enqueue_publish_def)
  qed
qed

text \<open>The marks behind a successful transmission.\<close>

lemma mark_last:
  assumes "ob_list (outbox c) = ys @ [i]" "item_msg_id i = n" "\<forall>y \<in> set ys. item_msg_id y \<noteq> n"
  obtains tick where "ob_list (outbox (set_pending n p (set_tick n c))) = ys @ [i\<lparr>item_tick := tick, item_pending := p\<rparr>]"
    "sent (set_pending n p (set_tick n c)) = sent c" "unqueued (set_pending n p (set_tick n c)) = unqueued c"
    "connection (set_pending n p (set_tick n c)) = connection c" "tx_plan (set_pending n p (set_tick n c)) = tx_plan c"
proof -
  have f: "first_item (\<lambda>i. item_msg_id i = n) (ys @ [j]) = Some j" if "item_msg_id j = n" for j
    using first_item_split [of ys "\<lambda>i. item_msg_id i = n" j "[]"] that assms(3) by simp
  have u: "update_first n g (ys @ [j]) = ys @ [g j]" if "item_msg_id j = n" for g j
    using update_first_split [OF refl that assms(3), of g "[]"] by simp
  obtain now ds where t: "platform_tick_get_ms c = (now, c\<lparr>clock := ds, delays := tl (delays c)\<rparr>)"
    using that platform_tick_get_ms_def [of c] unfolding Let_def by blast
  show thesis using assms f u t
    by (intro that [of "uint now"]) (simp_all add: set_pending_def set_tick_def outbox_set_pending_def outbox_set_tick_def outbox_get_def)
qed

text \<open>
  C3. A publish of a connected MQTT 3.1.1 client whose transport takes bytes, in pieces of any
  size: the bytes that go out are one PUBLISH packet with the given topic, payload, quality of
  service and retain flag, also when the payload is longer than the buffer and has to go out in
  several parts. With QoS 1 or 2 the same packet is behind everything else in the outbox, under the
  identifier that is returned and marked as transmitted; with QoS 0 the outbox is as before. The
  connection is left as the next call needs it, and nothing else of the client changes.
\<close>

theorem publish_on_the_wire:
  assumes "\<not> is_v5 c" "state c = MQTT_STATE_CONNECTED" "cs_outbox_limit (config c) = 0" "allocs c = []" "willing c"
    and p: "publishable t d len mid (connection c)" "0 < len"
    and id: "if qos > 0 then mid = Some m \<and> assign_message_id (ids (connection c)) = Some (m, src) \<and>
        (\<forall>i \<in> set (ob_list (outbox c)). item_msg_id i \<noteq> uint m) else mid = None"
    and q: "0 \<le> qos" "qos < 4" "retain \<in> {0, 1}"
  shows "\<exists>c'. esp_mqtt_client_publish (Some t) (Some d) (int len) qos retain (Some c) = Some (if qos > 0 then uint m else 0, Some c') \<and>
    sent c' = sent c @ packet 3 0 qos retain (publish_body t mid (take len d)) \<and>
    (\<exists>tick. ob_list (outbox c') = ob_list (outbox c) @
       (if qos > 0 then [publish_item c (packet 3 0 qos retain (publish_body t mid (take len d))) m qos tick TRANSMITTED] else [])) \<and>
    willing c' \<and> init_ok (connection c') \<and> spent_offset (connection c') \<and> unqueued c' = unqueued c"
proof -
  let ?pkt = "publish_packet t d len qos retain mid"
  let ?i = "if qos > 0 then uint m else 0"
  have id': "if qos > 0 then mid = Some m \<and> assign_message_id (ids (connection c)) = Some (m, src) else mid = None"
    using id by (auto split: if_splits)
  obtain c1 tick k where c1: "mqtt_client_enqueue_publish (Some t) (Some d) (int len) qos retain False c = Some (?i, c1)"
    "ob_list (outbox c1) = ob_list (outbox c) @ (if qos > 0 then [publish_item c ?pkt m qos tick QUEUED] else [])"
    "first_part ?pkt d len k (connection c1)" "unqueued c1 = unqueued c" "sent c1 = sent c" "tx_plan c1 = tx_plan c"
    by (rule publish_enqueues [OF assms(1,4) p(1) id' q]) (rule that)
  have b: "5 \<le> buffer_length (connection c1)" "buffer_length (connection c1) < 2 ^ 31"
    using unqueued_field(4) [OF c1(4)] p(1) by (simp_all add: publishable_def)
  have w: "willing c1" using assms(5) c1(6) by (simp add: willing_def)
  obtain c2 where c2: "send_loop (Some d) 0 (int len) c1 = Some (True, c2)" "sent c2 = sent c1 @ ?pkt"
    "sending c2" "idle_message c2" "unsent c2 = unsent c1"
    using send_loop_all [OF w c1(3) _ p(2) b] p(1) by (auto simp: publishable_def)
  have u2: "unqueued c2 = unqueued c" using unqueued_unsent [OF c2(5)] c1(4) by simp
  have o2: "outbox c2 = outbox c1" by (rule unsent_outbox [OF c2(5)])
  have ready: "init_ok (connection c')" "spent_offset (connection c')" "willing c'"
    if "connection c' = connection c2" "tx_plan c' = tx_plan c2" for c'
    using that c2(3,4) unqueued_field(4) [OF u2] b unqueued_field(4) [OF c1(4)]
    by (simp_all add: init_ok_def spent_offset_def idle_message_def sending_def willing_def)
  have run: "esp_mqtt_client_publish (Some t) (Some d) (int len) qos retain (Some c) =
      Some (?i, Some (if qos > 0 then set_pending ?i TRANSMITTED (set_tick ?i c2) else c2))"
    using assms(1-3) p(2) c1(1) c2(1) unqueued_field(1,3) [OF c1(4)] unqueued_field(3) [OF u2]
    by (simp add: esp_mqtt_client_publish_def with_client_def payload_length_def)
  show ?thesis
  proof (cases "qos > 0")
    case True
    obtain tick' where "ob_list (outbox (set_pending ?i TRANSMITTED (set_tick ?i c2))) =
        ob_list (outbox c) @ [publish_item c ?pkt m qos tick' TRANSMITTED]"
      "sent (set_pending ?i TRANSMITTED (set_tick ?i c2)) = sent c2"
      "unqueued (set_pending ?i TRANSMITTED (set_tick ?i c2)) = unqueued c2"
      "connection (set_pending ?i TRANSMITTED (set_tick ?i c2)) = connection c2"
      "tx_plan (set_pending ?i TRANSMITTED (set_tick ?i c2)) = tx_plan c2"
      by (rule mark_last [of c2 "ob_list (outbox c)" "publish_item c ?pkt m qos tick QUEUED" ?i TRANSMITTED])
         (use c1(2) o2 True id that in \<open>auto simp: publish_item_def\<close>)
    then show ?thesis using run True ready c2(2) c1(5) u2 by (auto simp: publish_packet_def)
  next
    case False
    then show ?thesis using run ready [of c2] c1(2,5) c2(2) o2 u2 by (simp add: publish_packet_def)
  qed
qed

theorem publish_on_the_wire_witness:
  "\<exists>c'. esp_mqtt_client_publish (Some [0x61]) (Some (replicate 20 0x62)) 20 1 0 (Some ((sample_client 16)\<lparr>tx_plan := [Tx_Chunk 3, Tx_Chunk 1]\<rparr>))
      = Some (1, Some c') \<and>
    sent c' = [0x32, 25, 0, 1, 0x61, 0, 1] @ replicate 20 0x62 \<and> length (ob_list (outbox c')) = 1"
proof -
  let ?c = "(sample_client 16)\<lparr>tx_plan := [Tx_Chunk 3, Tx_Chunk 1]\<rparr>"
  have p: "publishable [0x61] (replicate 20 0x62) 20 (Some 1) (connection ?c)"
    by (simp add: publishable_def init_ok_def spent_offset_def publish_body_def sample_client_def)
  have pkt: "packet 3 0 1 0 (publish_body [0x61] (Some 1) (replicate 20 0x62)) = [0x32, 25, 0, 1, 0x61, 0, 1] @ replicate 20 0x62"
    by (simp add: packet_def publish_body_def fixed_header_byte_def encode_length.simps utf8_field_def be16_def)
  have s: "\<not> is_v5 ?c" "state ?c = MQTT_STATE_CONNECTED" "cs_outbox_limit (config ?c) = 0" "allocs ?c = []" "willing ?c"
    "sent ?c = []" "outbox ?c = \<lparr>ob_size = 0, ob_list = []\<rparr>"
    "assign_message_id (ids (connection ?c)) = Some (1, Incremental 1)"
    by (simp_all add: sample_client_def willing_def)
  show ?thesis
    using publish_on_the_wire [OF s(1-5) p, of 1 1 "Incremental 1" 0] s(6-8) by (auto simp: pkt)
qed

text \<open>
  The position of the payload is not reset when a message longer than the buffer is only stored
  (\<open>esp_mqtt_client_enqueue\<close>, or a publish that cannot be sent yet). The next publish then takes less
  of its payload for sent than is in the message, here a negative amount, and reads on before the
  payload of the application.
\<close>

lemma stale_offset_reads_outside:
  "case esp_mqtt_client_enqueue (Some [0x61, 0x61, 0x61, 0x61, 0x61]) (Some (replicate 20 0x62)) 20 1 0 True (Some (sample_client 16)) of
     Some (i, Some c) \<Rightarrow> i = 1 \<and> esp_mqtt_client_publish (Some [0x61]) (Some [0x62]) 1 0 0 (Some c) = None
   | _ \<Rightarrow> False"
  by code_simp

end
