(* ===== verification/Mqtt_Utils.thy ===== *)
theory Mqtt_Utils
  imports Mqtt_Prelude
begin

text \<open>
  String helpers: \<^verbatim>\<open>lib/mqtt_utils/mqtt_utils.c\<close>.

  \<open>esp_mqtt_decode_percent_encoded_string\<close> works in place: the buffer holds the string and
  its terminating zero, the write position never overtakes the read position. It is shown
  to stay inside the buffer and to implement the decoder \<open>percent_decode\<close> on strings, which
  inverts percent encoding.
\<close>

section \<open>Model\<close>

text \<open>A new zero-terminated copy of \<open>len\<close> bytes; \<open>alloc_ok\<close> is the outcome of \<^verbatim>\<open>calloc\<close>.\<close>

definition mqtt_create_string :: "byte list \<Rightarrow> int \<Rightarrow> bool \<Rightarrow> byte list option option" where
  "mqtt_create_string ptr len alloc_ok =
     (if len \<le> 0 then Some None
      else if \<not> alloc_ok then Some None
      else do {
        bs \<leftarrow> fetch ptr (nat len);
        ret \<leftarrow> store (replicate (nat len + 1) 0) 0 bs;
        Some (Some ret)
      })"

text \<open>\<^verbatim>\<open>isxdigit\<close> and the value \<^verbatim>\<open>strtol\<close> gives a hexadecimal digit.\<close>

definition isxdigit :: "byte \<Rightarrow> bool" where
  "isxdigit c \<longleftrightarrow> 0x30 \<le> c \<and> c \<le> 0x39 \<or> 0x41 \<le> c \<and> c \<le> 0x46 \<or> 0x61 \<le> c \<and> c \<le> 0x66"

definition hex_digit :: "byte \<Rightarrow> byte" where
  "hex_digit c = (if c \<le> 0x39 then c - 0x30 else if c \<le> 0x46 then c - 0x37 else c - 0x57)"

definition hex_value :: "byte \<Rightarrow> byte \<Rightarrow> byte" where
  "hex_value h l = 16 * hex_digit h + hex_digit l"

text \<open>
  The loop: \<open>b\<close> is the buffer, \<open>i\<close> the read and \<open>w\<close> the write position, \<open>n\<close> the length of
  the string at the start. The second digit is read only after the first is one.
\<close>

function decode_loop :: "byte list \<Rightarrow> nat \<Rightarrow> nat \<Rightarrow> nat \<Rightarrow> (int \<times> byte list) option" where
  "decode_loop b n i w =
     (if i < n then do {
        c \<leftarrow> load b i;
        if c = 0x25 then do {
          h \<leftarrow> load b (i + 1);
          if \<not> isxdigit h then Some (-1, b)
          else do {
            l \<leftarrow> load b (i + 2);
            if \<not> isxdigit l then Some (-1, b)
            else do {
              b \<leftarrow> store b w [hex_value h l];
              decode_loop b n (i + 3) (w + 1)
            }
          }
        } else do {
          b \<leftarrow> store b w [c];
          decode_loop b n (i + 1) (w + 1)
        }
      } else do {
        b \<leftarrow> store b w [0];
        Some (int w, b)
      })"
  by pat_completeness auto
termination
  by (relation "measure (\<lambda>(b, n, i, w). n - i)") auto

declare decode_loop.simps [simp del]

definition esp_mqtt_decode_percent_encoded_string :: "byte list option \<Rightarrow> (int \<times> byte list) option" where
  "esp_mqtt_decode_percent_encoded_string uri =
     (case uri of None \<Rightarrow> Some (-1, [])
      | Some b \<Rightarrow> do { uri_len \<leftarrow> strlen b; decode_loop b uri_len 0 0 })"

section \<open>Reference decoder\<close>

fun percent_decode :: "byte list \<Rightarrow> byte list option" where
  "percent_decode [] = Some []"
| "percent_decode (c # cs) =
     (if c = 0x25
      then (case cs of h # l # cs' \<Rightarrow>
              if isxdigit h \<and> isxdigit l then map_option ((#) (hex_value h l)) (percent_decode cs') else None
            | _ \<Rightarrow> None)
      else map_option ((#) c) (percent_decode cs))"

definition to_hex :: "byte \<Rightarrow> byte" where
  "to_hex v = (if v < 10 then v + 0x30 else v + 0x37)"

text \<open>Encoding of a string, escaping the bytes that \<open>esc\<close> selects and \<open>%\<close> itself.\<close>

fun percent_encode :: "(byte \<Rightarrow> bool) \<Rightarrow> byte list \<Rightarrow> byte list" where
  "percent_encode esc [] = []"
| "percent_encode esc (c # cs) =
     (if esc c \<or> c = 0x25 then [0x25, to_hex (c div 16), to_hex (c mod 16)] else [c]) @ percent_encode esc cs"

section \<open>Lemmas\<close>

lemma not_isxdigit_0 [simp]: "\<not> isxdigit 0"
  by (simp add: isxdigit_def)

lemma percent_decode_length: "percent_decode s = Some d \<Longrightarrow> length d \<le> length s"
  by (induction s arbitrary: d rule: percent_decode.induct)
     (fastforce split: if_splits list.splits)+

text \<open>The loop on a buffer whose part behind the read position is the rest of the string.\<close>

lemma decode_loop_correct:
  assumes "length p = i" "w \<le> i" "b = p @ s @ 0 # r" "n = i + length s" "0 \<notin> set s"
  shows "\<exists>ret b'. decode_loop b n i w = Some (ret, b') \<and> length b' = length b \<and> drop (n + 1) b' = r \<and>
    (case percent_decode s of None \<Rightarrow> ret = -1
     | Some d \<Rightarrow> ret = int (w + length d) \<and> take (w + length d + 1) b' = take w p @ d @ [0])"
  using assms
proof (induction s arbitrary: p i w b rule: percent_decode.induct)
  case 1
  have "store b w [0] = Some (b[w := 0])"
    using 1 by (simp add: store_def upd_conv_take_nth_drop)
  then show ?case using 1
    by (subst decode_loop.simps) (auto simp: take_Suc_conv_app_nth)
next
  case (2 c cs)
  have st: "store b w [v] = Some (b[w := v])" for v
    using "2.prems" by (simp add: store_def upd_conv_take_nth_drop)
  have up: "(p @ q @ s)[w := v] = (p @ q)[w := v] @ s" if "q \<noteq> []" for q s v
    using that "2.prems"(1,2) by (auto simp: list_update_append split: nat.splits)
  have tk: "take (w + 1) ((p @ q)[w := v]) = take w p @ [v]" if "q \<noteq> []" for q v
  proof -
    have "w < length (p @ q)" using that "2.prems"(1,2) by (cases q) auto
    then show ?thesis using "2.prems"(1,2) by (simp add: take_Suc_conv_app_nth)
  qed
  show ?case
  proof (cases "c = 0x25")
    case False
    have l: "load b i = Some c" using "2.prems" by (auto simp: load_def)
    have b': "b[w := c] = (p @ [c])[w := c] @ cs @ 0 # r"
      using up [of "[c]" "cs @ 0 # r" c] "2.prems"(3) by simp
    have "decode_loop b n i w = decode_loop (b[w := c]) n (i + 1) (w + 1)"
      using False l st "2.prems" by (subst decode_loop.simps) simp
    moreover have "\<exists>ret b'. decode_loop (b[w := c]) n (i + 1) (w + 1) = Some (ret, b') \<and>
        length b' = length (b[w := c]) \<and> drop (n + 1) b' = r \<and>
        (case percent_decode cs of None \<Rightarrow> ret = -1
         | Some d \<Rightarrow> ret = int (w + 1 + length d) \<and>
             take (w + 1 + length d + 1) b' = take (w + 1) ((p @ [c])[w := c]) @ d @ [0])"
      using "2.IH"(2) [OF False, of "(p @ [c])[w := c]" "i + 1" "w + 1" "b[w := c]"] "2.prems" b' by simp
    ultimately show ?thesis
      using False tk [of "[c]" c] by (auto split: option.splits)
  next
    case True
    have l: "load b i = Some 0x25" using "2.prems" True by (auto simp: load_def)
    show ?thesis
    proof (cases "\<exists>h k cs'. cs = h # k # cs' \<and> isxdigit h \<and> isxdigit k")
      case False
      then have "percent_decode (c # cs) = None" using True by (auto split: list.splits)
      moreover have "decode_loop b n i w = Some (-1, b)"
        using False l "2.prems" True
        by (subst decode_loop.simps; cases cs; cases "tl cs") (auto simp: load_def nth_append)
      ultimately show ?thesis using "2.prems" by simp
    next
      case True': True
      then obtain h k cs' where cs: "cs = h # k # cs'" "isxdigit h" "isxdigit k" by auto
      let ?v = "hex_value h k" and ?q = "[c, h, k]"
      have ld: "load b (i + 1) = Some h" "load b (i + 2) = Some k"
        using "2.prems" cs by (auto simp: load_def nth_append)
      have b': "b[w := ?v] = (p @ ?q)[w := ?v] @ cs' @ 0 # r"
        using up [of ?q "cs' @ 0 # r" ?v] "2.prems"(3) cs by simp
      have "decode_loop b n i w = decode_loop (b[w := ?v]) n (i + 3) (w + 1)"
        using l ld st cs "2.prems" by (subst decode_loop.simps) simp
      moreover have "\<exists>ret b'. decode_loop (b[w := ?v]) n (i + 3) (w + 1) = Some (ret, b') \<and>
          length b' = length (b[w := ?v]) \<and> drop (n + 1) b' = r \<and>
          (case percent_decode cs' of None \<Rightarrow> ret = -1
           | Some d \<Rightarrow> ret = int (w + 1 + length d) \<and>
               take (w + 1 + length d + 1) b' = take (w + 1) ((p @ ?q)[w := ?v]) @ d @ [0])"
        using "2.IH"(1) [OF True cs(1) refl, of "(p @ ?q)[w := ?v]" "i + 3" "w + 1" "b[w := ?v]"] "2.prems" b' cs by simp
      ultimately show ?thesis
        using True cs tk [of ?q ?v] by (auto split: option.splits)
    qed
  qed
qed

lemma to_hex_correct:
  assumes "v < 16"
  shows "isxdigit (to_hex v) \<and> hex_digit (to_hex v) = v"
proof -
  define k where "k = unat v"
  have v: "v = of_nat k" by (simp add: k_def)
  have "k < 16" using assms by (simp add: k_def word_less_nat_alt)
  then have "k \<in> {0,1,2,3,4,5,6,7,8,9,10,11,12,13,14,15}"
    by (simp only: insert_iff empty_iff) presburger
  then show ?thesis unfolding v
    by (elim insertE emptyE) (simp_all add: to_hex_def isxdigit_def hex_digit_def)
qed

lemma hex_value_to_hex: "hex_value (to_hex (c div 16)) (to_hex (c mod 16)) = c \<and>
  isxdigit (to_hex (c div 16)) \<and> isxdigit (to_hex (c mod 16))"
proof -
  have "unat c div 16 < 16" using less_mult_imp_div_less [of "unat c" 16 16] by simp
  then have "c div 16 < 16" by (simp add: word_less_nat_alt unat_div_distrib)
  moreover have "c mod 16 < 16" by (simp add: word_less_nat_alt unat_mod_distrib)
  ultimately show ?thesis using to_hex_correct by (simp add: hex_value_def mult_div_mod_eq)
qed

lemma percent_decode_encode: "percent_decode (percent_encode esc s) = Some s"
  by (induction s) (auto simp: hex_value_to_hex)

lemma percent_encode_nonzero:
  "0 \<notin> set s \<Longrightarrow> 0 \<notin> set (percent_encode esc s)"
proof (induction s)
  case (Cons c s)
  have "isxdigit (to_hex (c div 16))" "isxdigit (to_hex (c mod 16))" using hex_value_to_hex by auto
  then have "to_hex (c div 16) \<noteq> 0" "to_hex (c mod 16) \<noteq> 0" by (metis not_isxdigit_0)+
  then show ?case using Cons by auto
qed simp

section \<open>Properties\<close>

text \<open>
  C33. The in-place percent decoder, on a zero-terminated string, stays inside the buffer,
  leaves everything behind the string alone and returns. It returns -1 exactly for a
  string with a malformed escape; otherwise it returns the length of the decoded string,
  which is then in the buffer, zero-terminated.
\<close>

theorem percent_decode_in_place:
  assumes "0 \<notin> set s"
  shows "\<exists>ret b'. esp_mqtt_decode_percent_encoded_string (Some (s @ 0 # r)) = Some (ret, b') \<and>
    length b' = length (s @ 0 # r) \<and> drop (length s + 1) b' = r \<and>
    (case percent_decode s of None \<Rightarrow> ret = -1
     | Some d \<Rightarrow> ret = int (length d) \<and> take (length d + 1) b' = d @ [0])"
  using decode_loop_correct [of "[]" 0 0 "s @ 0 # r" s r "length s"] assms
  by (cases "percent_decode s") (auto simp: esp_mqtt_decode_percent_encoded_string_def)

theorem percent_decode_in_place_witness:
  "esp_mqtt_decode_percent_encoded_string (Some [0x61, 0x25, 0x34, 0x31, 0, 9]) = Some (2, [0x61, 0x41, 0, 0x31, 0, 9]) \<and>
   map_option fst (esp_mqtt_decode_percent_encoded_string (Some [0x25, 0x34, 0])) = Some (-1)"
  using percent_decode_in_place [of "[0x61, 0x25, 0x34, 0x31]" "[9]"] percent_decode_in_place [of "[0x25, 0x34]" "[]"]
  by (simp add: esp_mqtt_decode_percent_encoded_string_def decode_loop.simps load_def store_def isxdigit_def
      hex_value_def hex_digit_def)

text \<open>
  C34. Decoding inverts percent encoding, whichever bytes the encoder chose to escape: the
  buffer then holds the original string.
\<close>

theorem percent_encoding_roundtrip:
  assumes "0 \<notin> set s"
  shows "\<exists>b'. esp_mqtt_decode_percent_encoded_string (Some (percent_encode esc s @ [0])) = Some (int (length s), b') \<and>
    take (length s) b' = s"
proof -
  have "take (length s) b' = s" if "take (length s + 1) b' = s @ [0]" for b' :: "byte list"
    using arg_cong [OF that, of "take (length s)"] by simp
  then show ?thesis
    using decode_loop_correct [of "[]" 0 0 "percent_encode esc s @ [0]" "percent_encode esc s" "[]" "length (percent_encode esc s)"]
      percent_encode_nonzero [OF assms]
    by (auto simp: esp_mqtt_decode_percent_encoded_string_def percent_decode_encode)
qed

theorem percent_encoding_roundtrip_witness:
  "percent_encode (\<lambda>c. c = 0x2f) [0x61, 0x2f] = [0x61, 0x25, 0x32, 0x46] \<and>
   (\<exists>b'. esp_mqtt_decode_percent_encoded_string (Some [0x61, 0x25, 0x32, 0x46, 0]) = Some (2, b') \<and> take 2 b' = [0x61, 0x2f])"
proof -
  have enc: "percent_encode (\<lambda>c. c = 0x2f) [0x61, 0x2f] = [0x61, 0x25, 0x32, 0x46]"
    and len: "length [0x61, 0x2f :: byte] = 2"
    by (simp_all add: to_hex_def)
  show ?thesis
    using percent_encoding_roundtrip [of "[0x61, 0x2f]" "\<lambda>c. c = 0x2f", unfolded enc len] enc by auto
qed

end
