(* ===== verification/Mqtt_Client_Config.thy ===== *)
theory Mqtt_Client_Config
  imports Mqtt_Client_Send Mqtt_Utils
begin

text \<open>
  The address of the broker: \<open>esp_mqtt_client_set_uri\<close> of \<^verbatim>\<open>mqtt_client.c\<close>. The URL parser is code
  of ESP-IDF: it is the argument \<open>parse_url\<close>, which gives offset and length of each part of a
  string, or nothing for a status other than 0. What is relied on is that the parts lie inside
  the string. The API lock and the log output are left out, as everywhere in the client.
\<close>

section \<open>Model\<close>

datatype url_field = UF_SCHEMA | UF_HOST | UF_PORT | UF_PATH | UF_QUERY | UF_USERINFO

type_synonym http_parser_url = "url_field \<Rightarrow> nat \<times> nat"

abbreviation field_off :: "http_parser_url \<Rightarrow> url_field \<Rightarrow> nat" where "field_off u f \<equiv> fst (u f)"
abbreviation field_len :: "http_parser_url \<Rightarrow> url_field \<Rightarrow> nat" where "field_len u f \<equiv> snd (u f)"

text \<open>\<open>mqtt_create_string\<close> with its allocation, which happens for a positive length only.\<close>

definition new_string :: "byte list \<Rightarrow> nat \<Rightarrow> byte list option client_op" where
  "new_string ptr len c =
     (let (ok, c) = (if len = 0 then (False, c) else client_calloc c) in
      do { s \<leftarrow> mqtt_create_string ptr (int len) ok; Some (s, c) })"

text \<open>\<^verbatim>\<open>strdup\<close>.\<close>

definition new_copy :: "byte list \<Rightarrow> esp_mqtt_client \<Rightarrow> cstring option \<times> esp_mqtt_client" where
  "new_copy s c = (let (ok, c) = client_calloc c in (if ok then Some (c_str s) else None, c))"

text \<open>The part of a string from a field of the URL on, with the terminator.\<close>

definition at_field :: "cstring \<Rightarrow> http_parser_url \<Rightarrow> url_field \<Rightarrow> byte list" where
  "at_field uri u f = drop (field_off u f) (uri @ [0])"

text \<open>
  Path and query; the outer \<open>None\<close> is a read outside the string, \<open>Inl\<close> a failed
  allocation of \<^verbatim>\<open>asprintf\<close>, and \<open>Inr None\<close> is a null pointer.
\<close>

definition new_path :: "cstring \<Rightarrow> http_parser_url \<Rightarrow> (esp_err + cstring option) client_op" where
  "new_path uri u c =
     (if field_len u UF_PATH = 0 \<and> field_len u UF_QUERY = 0 then Some (Inr None, c)
      else do {
        let (ok, c) = client_calloc c;
        path \<leftarrow> fetch (at_field uri u UF_PATH) (field_len u UF_PATH);
        query \<leftarrow> fetch (at_field uri u UF_QUERY) (field_len u UF_QUERY);
        let s = (if field_len u UF_QUERY = 0 then path
                 else if field_len u UF_PATH = 0 then [0x2f, 0x3f] @ query
                 else path @ [0x3f] @ query);
        Some (if ok then Inr (Some (c_str s)) else Inl ESP_ERR_NO_MEM, c)
      })"

text \<open>\<^verbatim>\<open>strchr\<close> in a zero-terminated buffer.\<close>

fun strchr :: "byte \<Rightarrow> byte list \<Rightarrow> nat option option" where
  "strchr x [] = None"
| "strchr x (c # cs) = (if c = x then Some (Some 0) else if c = 0 then Some None
     else map_option (map_option Suc) (strchr x cs))"

text \<open>The password behind the first colon; what is before it stays in the buffer, terminated by a zero.\<close>

definition take_password :: "byte list \<Rightarrow> (esp_err + cstring option \<times> byte list) client_op" where
  "take_password b c = do {
     pos \<leftarrow> strchr 0x3a b;
     case pos of None \<Rightarrow> Some (Inr (None, b), c)
     | Some k \<Rightarrow> do {
         b \<leftarrow> store b k [0];
         (r, pass) \<leftarrow> esp_mqtt_decode_percent_encoded_string (Some (drop (k + 1) b));
         let b = take (k + 1) b @ pass;
         if r < 0 then Some (Inl ESP_FAIL, c)
         else let (s, c) = new_copy pass c in Some (Inr (s, b), c)
       }
   }"

definition new_credentials :: "cstring \<Rightarrow> http_parser_url \<Rightarrow> (esp_err + cstring option \<times> cstring option) client_op" where
  "new_credentials uri u c = do {
     (user_info, c) \<leftarrow> new_string (at_field uri u UF_USERINFO) (field_len u UF_USERINFO) c;
     case user_info of None \<Rightarrow> Some (Inr (None, None), c)
     | Some b \<Rightarrow> do {
         (p, c) \<leftarrow> take_password b c;
         case p of Inl e \<Rightarrow> Some (Inl e, c)
         | Inr (new_password, b) \<Rightarrow> do {
             (r, b) \<leftarrow> esp_mqtt_decode_percent_encoded_string (Some b);
             if r < 0 then Some (Inl ESP_FAIL, c)
             else let (new_username, c) = new_copy b c in Some (Inr (new_username, new_password), c)
           }
       }
   }"

text \<open>The digits at the start of a string; the URL parser reports nothing else as a port.\<close>

definition strtol :: "byte list \<Rightarrow> int" where
  "strtol s = foldl (\<lambda>n d. 10 * n + (uint d - 0x30)) 0 (takeWhile (\<lambda>d. 0x30 \<le> d \<and> d \<le> 0x39) s)"

definition upd_config :: "(mqtt_config_storage \<Rightarrow> mqtt_config_storage) \<Rightarrow> esp_mqtt_client \<Rightarrow> esp_mqtt_client" where
  "upd_config f c = c\<lparr>config := f (config c)\<rparr>"

definition upd_information :: "(mqtt_connect_info \<Rightarrow> mqtt_connect_info) \<Rightarrow> esp_mqtt_client \<Rightarrow> esp_mqtt_client" where
  "upd_information f c = c\<lparr>connection := (connection c)\<lparr>information := f (conn_info c)\<rparr>\<rparr>"

text \<open>The part under the lock: the new values replace the old ones.\<close>

definition apply_uri ::
  "cstring \<Rightarrow> http_parser_url \<Rightarrow> cstring \<Rightarrow> cstring \<Rightarrow> cstring option \<Rightarrow> cstring option \<times> cstring option \<Rightarrow>
     esp_mqtt_client \<Rightarrow> esp_mqtt_client" where
  "apply_uri uri u scheme host path creds c =
     (let c = upd_config (\<lambda>f. f\<lparr>cs_scheme := Some scheme, cs_host := Some host, cs_path := path\<rparr>) c;
          c = (if field_len u UF_PORT \<noteq> 0 then upd_config (\<lambda>f. f\<lparr>cs_port := strtol (at_field uri u UF_PORT)\<rparr>) c else c);
          c = (case fst creds of None \<Rightarrow> c | Some s \<Rightarrow> upd_information (\<lambda>i. i\<lparr>username := Some s\<rparr>) c)
      in (case snd creds of None \<Rightarrow> c | Some s \<Rightarrow> upd_information (\<lambda>i. i\<lparr>password := Some s\<rparr>) c))"

text \<open>\<open>own\<close> says that the argument is the string of the configuration itself, as in the call from \<open>esp_mqtt_set_config\<close>.\<close>

definition esp_mqtt_client_set_uri ::
  "(cstring \<Rightarrow> http_parser_url option) \<Rightarrow> bool \<Rightarrow> cstring \<Rightarrow> esp_err client_op" where
  "esp_mqtt_client_set_uri parse_url own uri c =
     (case parse_url uri of None \<Rightarrow> Some (ESP_FAIL, c)
      | Some u \<Rightarrow> do {
          (scheme, c) \<leftarrow> new_string (at_field uri u UF_SCHEMA) (field_len u UF_SCHEMA) c;
          (host, c) \<leftarrow> new_string (at_field uri u UF_HOST) (field_len u UF_HOST) c;
          case (scheme, host) of
            (Some scheme, Some host) \<Rightarrow> do {
              (path, c) \<leftarrow> new_path uri u c;
              case path of Inl e \<Rightarrow> Some (e, c)
              | Inr path \<Rightarrow> do {
                  (creds, c) \<leftarrow> new_credentials uri u c;
                  case creds of Inl e \<Rightarrow> Some (e, c)
                  | Inr creds \<Rightarrow>
                      if own then Some (ESP_OK, apply_uri uri u (c_str scheme) (c_str host) path creds c)
                      else case new_copy uri c of
                        (None, c) \<Rightarrow> Some (ESP_ERR_NO_MEM, c)
                      | (Some s, c) \<Rightarrow> Some (ESP_OK, apply_uri uri u (c_str scheme) (c_str host) path creds
                          (upd_config (\<lambda>f. f\<lparr>cs_uri := Some s\<rparr>) c))
                }
            }
          | _ \<Rightarrow> Some (ESP_ERR_NO_MEM, c)
        })"

section \<open>Reference\<close>

text \<open>The text of a part, and what the parts say about path and credentials.\<close>

definition part :: "cstring \<Rightarrow> http_parser_url \<Rightarrow> url_field \<Rightarrow> cstring" where
  "part uri u f = take (field_len u f) (drop (field_off u f) uri)"

definition parts_inside :: "cstring \<Rightarrow> http_parser_url \<Rightarrow> bool" where
  "parts_inside uri u \<longleftrightarrow> (\<forall>f. field_off u f + field_len u f \<le> length uri)"

definition uri_path :: "cstring \<Rightarrow> http_parser_url \<Rightarrow> cstring option" where
  "uri_path uri u = (let p = part uri u UF_PATH; q = part uri u UF_QUERY in
     if p = [] \<and> q = [] then None else if q = [] then Some p else if p = [] then Some ([0x2f, 0x3f] @ q) else Some (p @ [0x3f] @ q))"

definition user_part :: "cstring \<Rightarrow> cstring" where "user_part s = takeWhile (\<lambda>b. b \<noteq> 0x3a) s"

definition password_part :: "cstring \<Rightarrow> cstring option" where
  "password_part s = (case dropWhile (\<lambda>b. b \<noteq> 0x3a) s of [] \<Rightarrow> None | _ # p \<Rightarrow> Some p)"

text \<open>Both with percent decoding; \<open>None\<close> is a malformed escape.\<close>

definition uri_credentials :: "cstring \<Rightarrow> (cstring \<times> cstring option) option" where
  "uri_credentials s = do {
     p \<leftarrow> (case password_part s of None \<Rightarrow> Some None | Some p \<Rightarrow> map_option Some (percent_decode p));
     n \<leftarrow> percent_decode (user_part s);
     Some (c_str n, map_option c_str p)
   }"

text \<open>User name and password after the change: what the URI does not have, or what is malformed, keeps its value.\<close>

definition uri_username :: "cstring \<Rightarrow> cstring option \<Rightarrow> cstring option" where
  "uri_username s old = (case uri_credentials s of None \<Rightarrow> old | Some (n, _) \<Rightarrow> if s = [] then old else Some n)"

definition uri_password :: "cstring \<Rightarrow> cstring option \<Rightarrow> cstring option" where
  "uri_password s old = (case uri_credentials s of Some (_, Some q) \<Rightarrow> Some q | _ \<Rightarrow> old)"

text \<open>The client with the address of a URI and given credentials; nothing else of it changes.\<close>

definition addressed ::
  "bool \<Rightarrow> cstring \<Rightarrow> http_parser_url \<Rightarrow> cstring option \<Rightarrow> cstring option \<Rightarrow> esp_mqtt_client \<Rightarrow> esp_mqtt_client" where
  "addressed own uri u n p c = c\<lparr>
     config := (config c)\<lparr>
       cs_uri := (if own then cs_uri (config c) else Some uri),
       cs_scheme := Some (part uri u UF_SCHEMA), cs_host := Some (part uri u UF_HOST), cs_path := uri_path uri u,
       cs_port := (if part uri u UF_PORT = [] then cs_port (config c) else strtol (at_field uri u UF_PORT))\<rparr>,
     connection := (connection c)\<lparr>information := (conn_info c)\<lparr>username := n, password := p\<rparr>\<rparr>\<rparr>"


section \<open>Lemmas\<close>

text \<open>A step that only allocates; with no answer of the allocator left, every allocation succeeds.\<close>

definition allocated :: "esp_mqtt_client \<Rightarrow> esp_mqtt_client \<Rightarrow> bool" where
  "allocated c c' \<longleftrightarrow> (\<exists>h. c' = c\<lparr>allocs := h\<rparr>) \<and> (allocs c = [] \<longrightarrow> allocs c' = [])"

lemma allocated_refl [simp]: "allocated c c"
  by (auto simp: allocated_def intro!: exI [of _ "allocs c"])

lemma allocated_trans [trans]: "allocated a b \<Longrightarrow> allocated b c \<Longrightarrow> allocated a c"
  by (auto simp: allocated_def)

lemma client_calloc_cases:
  obtains ok c' where "client_calloc c = (ok, c')" "allocated c c'" "allocs c = [] \<Longrightarrow> ok"
  by (cases "allocs c") (auto simp: client_calloc_def calloc_def allocated_def)

lemma c_str_id: "0 \<notin> set s \<Longrightarrow> c_str (s @ 0 # r) = s" "0 \<notin> set s \<Longrightarrow> c_str s = s"
  by (induction s) (auto simp: c_str_def)

lemma c_str_terminated: "take (length d + 1) b = d @ [0] \<Longrightarrow> c_str b = c_str d"
proof -
  assume "take (length d + 1) b = d @ [0]"
  then have "b = d @ 0 # drop (length d + 1) b" by (metis append_Cons append_assoc append_take_drop_id self_append_conv2)
  moreover have "c_str (d @ 0 # r) = c_str d" for r by (induction d) (simp_all add: c_str_def)
  ultimately show ?thesis by metis
qed

lemma at_field_part:
  assumes "parts_inside uri u"
  shows "fetch (at_field uri u f) (field_len u f) = Some (part uri u f)" "length (part uri u f) = field_len u f"
    "field_len u f = 0 \<longleftrightarrow> part uri u f = []"
proof -
  have le: "field_off u f + field_len u f \<le> length uri" using assms by (simp add: parts_inside_def)
  then show "fetch (at_field uri u f) (field_len u f) = Some (part uri u f)" "length (part uri u f) = field_len u f"
    by (simp_all add: fetch_def at_field_def part_def)
  then show "field_len u f = 0 \<longleftrightarrow> part uri u f = []" by (metis length_0_conv)
qed

lemma part_nonzero: "0 \<notin> set uri \<Longrightarrow> 0 \<notin> set (part uri u f)"
  by (auto simp: part_def dest: in_set_takeD in_set_dropD)

lemma new_string_part:
  assumes "parts_inside uri u"
  obtains t c' where "new_string (at_field uri u f) (field_len u f) c = Some (t, c')" "allocated c c'"
    "t = None \<or> t = Some (part uri u f @ [0]) \<and> part uri u f \<noteq> []"
    "allocs c = [] \<Longrightarrow> part uri u f \<noteq> [] \<Longrightarrow> t = Some (part uri u f @ [0])"
proof (cases "part uri u f = []")
  case True
  then have "new_string (at_field uri u f) (field_len u f) c = Some (None, c)"
    using at_field_part(3) [OF assms] by (simp add: new_string_def mqtt_create_string_def)
  then show thesis using that [of None c] True by simp
next
  case False
  obtain ok c' where ok: "client_calloc c = (ok, c')" "allocated c c'" "allocs c = [] \<Longrightarrow> ok" by (rule client_calloc_cases [of c]) (rule that)
  have r: "replicate (Suc k) (0 :: byte) = replicate k 0 @ [0]" for k by (simp add: replicate_append_same)
  have "store (replicate (Suc (field_len u f)) 0) 0 (part uri u f) = Some (part uri u f @ [0])"
    using at_field_part(2) [OF assms, of f] unfolding r by (simp add: store_def)
  then have "new_string (at_field uri u f) (field_len u f) c = Some (if ok then Some (part uri u f @ [0]) else None, c')"
    using ok False at_field_part [OF assms, of f] by (simp add: new_string_def mqtt_create_string_def)
  then show thesis using that [of "if ok then Some (part uri u f @ [0]) else None" c'] ok False by simp
qed

lemma new_path_part:
  assumes "parts_inside uri u" "0 \<notin> set uri"
  obtains p c' where "new_path uri u c = Some (p, c')" "allocated c c'" "p = Inl ESP_ERR_NO_MEM \<or> p = Inr (uri_path uri u)"
    "allocs c = [] \<Longrightarrow> p = Inr (uri_path uri u)"
proof (cases "part uri u UF_PATH = [] \<and> part uri u UF_QUERY = []")
  case True
  then have "new_path uri u c = Some (Inr None, c)" "uri_path uri u = None"
    using at_field_part(3) [OF assms(1)] by (simp_all add: new_path_def uri_path_def)
  then show thesis using that [of "Inr None" c] by simp
next
  case False
  obtain ok c' where ok: "client_calloc c = (ok, c')" "allocated c c'" "allocs c = [] \<Longrightarrow> ok" by (rule client_calloc_cases [of c]) (rule that)
  have z: "0 \<notin> set (part uri u UF_PATH)" "0 \<notin> set (part uri u UF_QUERY)" using part_nonzero [OF assms(2)] by auto
  have "new_path uri u c = Some (if ok then Inr (uri_path uri u) else Inl ESP_ERR_NO_MEM, c')"
    using ok(1) False at_field_part [OF assms(1)] z by (auto simp: new_path_def uri_path_def Let_def c_str_id)
  then show thesis using that [of "if ok then Inr (uri_path uri u) else Inl ESP_ERR_NO_MEM" c'] ok by simp
qed

lemma decode_string:
  assumes "0 \<notin> set s"
  obtains ret b' where "esp_mqtt_decode_percent_encoded_string (Some (s @ 0 # r)) = Some (ret, b')" "length b' = length (s @ 0 # r)"
    "percent_decode s = None \<Longrightarrow> ret < 0" "\<And>d. percent_decode s = Some d \<Longrightarrow> 0 \<le> ret \<and> c_str b' = c_str d"
proof -
  obtain ret b' where d: "decode_loop (s @ 0 # r) (length s) 0 0 = Some (ret, b')" "length b' = length (s @ 0 # r)"
    "case percent_decode s of None \<Rightarrow> ret = -1 | Some d \<Rightarrow> ret = int (0 + length d) \<and> take (0 + length d + 1) b' = take 0 [] @ d @ [0]"
    using decode_loop_correct [of "[]" 0 0 "s @ 0 # r" s r "length s", OF _ _ _ _ assms] by auto
  have run: "esp_mqtt_decode_percent_encoded_string (Some (s @ 0 # r)) = Some (ret, b')"
    using d(1) assms by (simp add: esp_mqtt_decode_percent_encoded_string_def)
  show thesis
  proof (rule that [OF run d(2)])
    show "0 \<le> ret \<and> c_str b' = c_str e" if "percent_decode s = Some e" for e
      using d(3) that c_str_terminated [of e b'] by simp
  qed (use d(3) in simp)
qed


lemma strchr_colon:
  "0 \<notin> set s \<Longrightarrow> strchr 0x3a (s @ [0]) = Some (if 0x3a \<in> set s then Some (length (user_part s)) else None)"
  by (induction s) (auto simp: user_part_def)

lemma password_part_None: "password_part s = None \<longleftrightarrow> 0x3a \<notin> set s"
proof (cases "dropWhile (\<lambda>b. b \<noteq> 0x3a) s")
  case Nil
  then have "0x3a \<notin> set s" unfolding dropWhile_eq_Nil_conv by blast
  then show ?thesis by (simp add: password_part_def Nil del: dropWhile_eq_Nil_conv)
next
  case (Cons x p)
  have "dropWhile (\<lambda>b. b \<noteq> 0x3a) s \<noteq> []" unfolding Cons by (rule list.distinct(2))
  then have "\<not> (\<forall>b \<in> set s. b \<noteq> 0x3a)" unfolding dropWhile_eq_Nil_conv .
  moreover have "password_part s = Some p" by (simp add: password_part_def Cons)
  ultimately show ?thesis by auto
qed

lemma password_part_Some:
  assumes "password_part s = Some p"
  shows "s = user_part s @ 0x3a # p"
proof -
  obtain x where x: "dropWhile (\<lambda>b. b \<noteq> 0x3a) s = x # p" using assms by (auto simp: password_part_def split: list.splits)
  then have "x = 0x3a" using hd_dropWhile [of "\<lambda>b. b \<noteq> 0x3a" s] by simp
  then show ?thesis using takeWhile_dropWhile_id [of "\<lambda>b. b \<noteq> 0x3a" s] x by (simp add: user_part_def)
qed

lemma user_part_all: "password_part s = None \<Longrightarrow> user_part s = s"
  by (simp add: password_part_None user_part_def takeWhile_eq_all_conv) metis

lemma new_copy_cases:
  obtains t c' where "new_copy s c = (t, c')" "allocated c c'" "t = None \<or> t = Some (c_str s)" "allocs c = [] \<Longrightarrow> t = Some (c_str s)"
proof -
  obtain ok c' where ok: "client_calloc c = (ok, c')" "allocated c c'" "allocs c = [] \<Longrightarrow> ok" by (rule client_calloc_cases [of c]) (rule that)
  then show thesis using that [of "if ok then Some (c_str s) else None" c'] by (simp add: new_copy_def)
qed

lemma take_password_part:
  assumes "0 \<notin> set s"
  obtains "password_part s = None" "take_password (s @ [0]) c = Some (Inr (None, s @ [0]), c)"
  | p where "password_part s = Some p" "percent_decode p = None" "take_password (s @ [0]) c = Some (Inl ESP_FAIL, c)"
  | p d t r c' where "password_part s = Some p" "percent_decode p = Some d"
      "take_password (s @ [0]) c = Some (Inr (t, user_part s @ 0 # r), c')" "allocated c c'" "t = None \<or> t = Some (c_str d)"
      "allocs c = [] \<Longrightarrow> t = Some (c_str d)"
proof (cases "password_part s")
  case None
  then have "take_password (s @ [0]) c = Some (Inr (None, s @ [0]), c)"
    using strchr_colon [OF assms] by (simp add: take_password_def password_part_None)
  then show thesis using that(1) None by blast
next
  case (Some p)
  then have s: "s = user_part s @ 0x3a # p" and ch: "strchr 0x3a (s @ [0]) = Some (Some (length (user_part s)))"
    using password_part_Some [of s p] strchr_colon [OF assms] password_part_None [of s] by (simp, simp split: if_splits)
  let ?n = "user_part s"
  have st: "store (s @ [0]) (length ?n) [0] = Some (?n @ 0 # p @ [0])"
  proof -
    have "store ((?n @ 0x3a # p) @ [0]) (length ?n) [0] = Some (?n @ 0 # p @ [0])" by (simp add: store_def)
    then show ?thesis using s by simp
  qed
  have z: "0 \<notin> set p" using assms s by (metis Un_iff list.set_intros(2) set_append)
  obtain ret b where b: "esp_mqtt_decode_percent_encoded_string (Some (p @ 0 # [])) = Some (ret, b)"
    "percent_decode p = None \<Longrightarrow> ret < 0" "\<And>d. percent_decode p = Some d \<Longrightarrow> 0 \<le> ret \<and> c_str b = c_str d"
    by (rule decode_string [OF z, of "[]"]) (rule that)
  obtain t c' where t: "new_copy b c = (t, c')" "allocated c c'" "t = None \<or> t = Some (c_str b)" "allocs c = [] \<Longrightarrow> t = Some (c_str b)"
    by (rule new_copy_cases [of b c]) (rule that)
  have run: "take_password (s @ [0]) c = (if ret < 0 then Some (Inl ESP_FAIL, c) else Some (Inr (t, ?n @ 0 # b), c'))"
    using ch st b(1) t(1) by (simp add: take_password_def)
  show thesis
  proof (cases "percent_decode p")
    case None
    then show thesis using that(2) [of p] Some run b(2) by simp
  next
    case (Some d)
    then show thesis using that(3) [of p d t b c'] \<open>password_part s = Some p\<close> run b(3) [OF Some] t by simp
  qed
qed


text \<open>The credentials of a URI: a failed copy leaves them out, a malformed escape is an error.\<close>

lemma new_credentials_part:
  assumes "parts_inside uri u" "0 \<notin> set uri"
  defines "s \<equiv> part uri u UF_USERINFO"
  obtains r c' where "new_credentials uri u c = Some (r, c')" "allocated c c'" "\<And>e. r = Inl e \<Longrightarrow> e = ESP_FAIL"
    "\<And>n p. r = Inr (n, p) \<Longrightarrow> n = None \<and> p = None \<or> s \<noteq> [] \<and> (\<exists>a q. uri_credentials s = Some (a, q) \<and> n \<in> {None, Some a} \<and> p \<in> {None, q})"
    "allocs c = [] \<Longrightarrow> r = (if s = [] then Inr (None, None)
       else case uri_credentials s of None \<Rightarrow> Inl ESP_FAIL | Some (n, p) \<Rightarrow> Inr (Some n, p))"
proof -
  note result = that
  have z: "0 \<notin> set s" using part_nonzero [OF assms(2)] by (simp add: s_def)
  obtain t c1 where t: "new_string (at_field uri u UF_USERINFO) (field_len u UF_USERINFO) c = Some (t, c1)" "allocated c c1"
    "t = None \<or> t = Some (s @ [0]) \<and> s \<noteq> []" "allocs c = [] \<Longrightarrow> s \<noteq> [] \<Longrightarrow> t = Some (s @ [0])"
    by (rule new_string_part [OF assms(1), of UF_USERINFO c, folded s_def]) (rule that)
  show thesis
  proof (cases t)
    case None
    show thesis by (rule that [of "Inr (None, None)" c1]) (use None t in \<open>auto simp: new_credentials_def\<close>)
  next
    case (Some b)
    then have b: "b = s @ [0]" "s \<noteq> []" using t(3) by auto
    have tail: thesis
      if p: "take_password b c1 = Some (Inr (pw, user_part s @ 0 # rest), c2)" "allocated c1 c2"
        and d: "uri_credentials s = percent_decode (user_part s) \<bind> (\<lambda>n. Some (c_str n, q))"
        and pw: "pw = None \<or> pw = q" "allocs c1 = [] \<Longrightarrow> pw = q"
      for pw q rest c2
    proof -
      have zu: "0 \<notin> set (user_part s)" using z by (auto simp: user_part_def dest: set_takeWhileD)
      obtain ret b' where b': "esp_mqtt_decode_percent_encoded_string (Some (user_part s @ 0 # rest)) = Some (ret, b')"
        "percent_decode (user_part s) = None \<Longrightarrow> ret < 0" "\<And>d. percent_decode (user_part s) = Some d \<Longrightarrow> 0 \<le> ret \<and> c_str b' = c_str d"
        by (rule decode_string [OF zu, of rest]) (rule that)
      obtain t' c3 where t': "new_copy b' c2 = (t', c3)" "allocated c2 c3" "t' = None \<or> t' = Some (c_str b')"
        "allocs c2 = [] \<Longrightarrow> t' = Some (c_str b')"
        by (rule new_copy_cases [of b' c2]) (rule that)
      have run: "new_credentials uri u c = Some (if ret < 0 then (Inl ESP_FAIL, c2) else (Inr (t', pw), c3))"
        using t(1) Some p(1) b'(1) t'(1) by (simp add: new_credentials_def)
      have al: "allocated c c2" "allocated c c3" using t(2) p(2) t'(2) allocated_trans by blast+
      have em: "allocs c1 = []" "allocs c2 = []" if "allocs c = []" using that t(2) p(2) by (simp_all add: allocated_def)
      show thesis
      proof (cases "percent_decode (user_part s)")
        case None
        then show thesis using b'(2) run al em d b(2) by (intro result [of "Inl ESP_FAIL" c2]) simp_all
      next
        case (Some n)
        then have n: "\<not> ret < 0" "c_str b' = c_str n" using b'(3) [OF Some] by simp_all
        show thesis by (rule result [of "Inr (t', pw)" c3]) (use n run al em d pw t'(3,4) b(2) Some in auto)
      qed
    qed
    show thesis
    proof (cases rule: take_password_part [OF z, of c1])
      case 1
      then show thesis using tail [of None "[]" c1 None] b user_part_all [of s] by (simp add: uri_credentials_def)
    next
      case (2 p)
      then have "new_credentials uri u c = Some (Inl ESP_FAIL, c1)" "uri_credentials s = None"
        using t(1) Some b by (simp_all add: new_credentials_def uri_credentials_def)
      then show thesis using that [of "Inl ESP_FAIL" c1] t(2) b(2) by simp
    next
      case (3 p d pw r c')
      then show thesis using tail [of pw r c' "Some (c_str d)"] b by (simp add: uri_credentials_def)
    qed
  qed
qed


section \<open>Property\<close>

lemma apply_uri_addressed:
  assumes "parts_inside uri u" "c' = c\<lparr>allocs := h, config := (config c)\<lparr>cs_uri := if own then cs_uri (config c) else Some uri\<rparr>\<rparr>"
  shows "apply_uri uri u (part uri u UF_SCHEMA) (part uri u UF_HOST) (uri_path uri u) (n, p) c' =
    (addressed own uri u (case n of None \<Rightarrow> username (conn_info c) | Some s \<Rightarrow> Some s)
      (case p of None \<Rightarrow> password (conn_info c) | Some s \<Rightarrow> Some s) c)\<lparr>allocs := h\<rparr>"
  using at_field_part(3) [OF assms(1), of UF_PORT]
  by (auto simp: assms(2) apply_uri_def addressed_def upd_config_def upd_information_def Let_def split: option.split)

lemma set_uri_cases:
  assumes "parse_url uri = Some u" "parts_inside uri u" "0 \<notin> set uri"
  obtains (error) err c' where "esp_mqtt_client_set_uri parse_url own uri c = Some (err, c')" "err \<noteq> ESP_OK" "allocated c c'"
      "allocs c = [] \<Longrightarrow> part uri u UF_SCHEMA \<noteq> [] \<Longrightarrow> part uri u UF_HOST \<noteq> [] \<Longrightarrow>
         err = ESP_FAIL \<and> uri_credentials (part uri u UF_USERINFO) = None"
  | (applied) n p c' where "esp_mqtt_client_set_uri parse_url own uri c =
        Some (ESP_OK, apply_uri uri u (part uri u UF_SCHEMA) (part uri u UF_HOST) (uri_path uri u) (n, p) c')"
      "\<exists>h. c' = c\<lparr>allocs := h, config := (config c)\<lparr>cs_uri := if own then cs_uri (config c) else Some uri\<rparr>\<rparr>"
      "part uri u UF_SCHEMA \<noteq> []" "part uri u UF_HOST \<noteq> []"
      "n = None \<and> p = None \<or> part uri u UF_USERINFO \<noteq> [] \<and>
         (\<exists>a q. uri_credentials (part uri u UF_USERINFO) = Some (a, q) \<and> n \<in> {None, Some a} \<and> p \<in> {None, q})"
      "allocs c = [] \<Longrightarrow> \<exists>a. uri_credentials (part uri u UF_USERINFO) = Some (a, p) \<and>
         n = (if part uri u UF_USERINFO = [] then None else Some a)"
proof -
  note result = that
  have id: "c_str (part uri u f @ [0]) = part uri u f" "c_str uri = uri" for f
    using c_str_id(1) [OF part_nonzero [OF assms(3)], of u f "[]"] c_str_id(2) [OF assms(3)] by simp_all
  obtain sch c1 where sch: "new_string (at_field uri u UF_SCHEMA) (field_len u UF_SCHEMA) c = Some (sch, c1)" "allocated c c1"
    "sch = None \<or> sch = Some (part uri u UF_SCHEMA @ [0]) \<and> part uri u UF_SCHEMA \<noteq> []"
    "allocs c = [] \<Longrightarrow> part uri u UF_SCHEMA \<noteq> [] \<Longrightarrow> sch = Some (part uri u UF_SCHEMA @ [0])"
    by (rule new_string_part [OF assms(2), of UF_SCHEMA c]) (rule that)
  obtain ho c2 where ho: "new_string (at_field uri u UF_HOST) (field_len u UF_HOST) c1 = Some (ho, c2)" "allocated c1 c2"
    "ho = None \<or> ho = Some (part uri u UF_HOST @ [0]) \<and> part uri u UF_HOST \<noteq> []"
    "allocs c1 = [] \<Longrightarrow> part uri u UF_HOST \<noteq> [] \<Longrightarrow> ho = Some (part uri u UF_HOST @ [0])"
    by (rule new_string_part [OF assms(2), of UF_HOST c1]) (rule that)
  obtain pa c3 where pa: "new_path uri u c2 = Some (pa, c3)" "allocated c2 c3" "pa = Inl ESP_ERR_NO_MEM \<or> pa = Inr (uri_path uri u)"
    "allocs c2 = [] \<Longrightarrow> pa = Inr (uri_path uri u)"
    by (rule new_path_part [OF assms(2,3), of c2]) (rule that)
  obtain cr c4 where cr: "new_credentials uri u c3 = Some (cr, c4)" "allocated c3 c4" "\<And>e. cr = Inl e \<Longrightarrow> e = ESP_FAIL"
    "\<And>n p. cr = Inr (n, p) \<Longrightarrow> n = None \<and> p = None \<or> part uri u UF_USERINFO \<noteq> [] \<and>
       (\<exists>a q. uri_credentials (part uri u UF_USERINFO) = Some (a, q) \<and> n \<in> {None, Some a} \<and> p \<in> {None, q})"
    "allocs c3 = [] \<Longrightarrow> cr = (if part uri u UF_USERINFO = [] then Inr (None, None)
       else case uri_credentials (part uri u UF_USERINFO) of None \<Rightarrow> Inl ESP_FAIL | Some (n, p) \<Rightarrow> Inr (Some n, p))"
    by (rule new_credentials_part [OF assms(2,3), of c3]) (rule that)
  obtain nu c5 where nu: "new_copy uri c4 = (nu, c5)" "allocated c4 c5" "nu = None \<or> nu = Some uri"
    "allocs c4 = [] \<Longrightarrow> nu = Some uri"
    by (rule new_copy_cases [of uri c4, unfolded id(2)]) (rule that)
  have al: "allocated c c2" "allocated c c3" "allocated c c4" "allocated c c5"
    using sch(2) ho(2) pa(2) cr(2) nu(2) allocated_trans by blast+
  have em: "allocs c1 = []" "allocs c2 = []" "allocs c3 = []" "allocs c4 = []" if "allocs c = []"
    using that sch(2) al by (simp_all add: allocated_def)
  note run = assms(1) sch(1) ho(1) pa(1) cr(1) nu(1)
  consider "sch = None \<or> ho = None" | "sch \<noteq> None" "ho \<noteq> None" "pa = Inl ESP_ERR_NO_MEM"
    | "sch \<noteq> None" "ho \<noteq> None" "pa = Inr (uri_path uri u)" "cr = Inl ESP_FAIL"
    | n p where "sch \<noteq> None" "ho \<noteq> None" "pa = Inr (uri_path uri u)" "cr = Inr (n, p)" "\<not> own" "nu = None"
    | n p where "sch = Some (part uri u UF_SCHEMA @ [0])" "ho = Some (part uri u UF_HOST @ [0])" "pa = Inr (uri_path uri u)" "cr = Inr (n, p)"
        "own \<or> nu \<noteq> None"
    using sch(3) ho(3) pa(3) cr(3) by (cases cr; cases nu) auto
  then show thesis
  proof cases
    case 1
    have "False" if "allocs c = []" "part uri u UF_SCHEMA \<noteq> []" "part uri u UF_HOST \<noteq> []"
      using 1 sch(4) [OF that(1,2)] ho(4) [OF em(1) [OF that(1)] that(3)] by simp
    then show thesis using run 1 al by (intro result(1) [of ESP_ERR_NO_MEM c2]) (auto simp: esp_mqtt_client_set_uri_def split: option.split)
  next
    case 2
    then show thesis using run al pa(4) em(2) by (intro result(1) [of ESP_ERR_NO_MEM c3]) (auto simp: esp_mqtt_client_set_uri_def)
  next
    case 3
    then have "uri_credentials (part uri u UF_USERINFO) = None" if "allocs c = []"
      using cr(5) [OF em(3) [OF that]] by (auto split: if_splits option.splits)
    then show thesis using run 3 al by (intro result(1) [of ESP_FAIL c4]) (auto simp: esp_mqtt_client_set_uri_def)
  next
    case (4 n p)
    then show thesis using run al nu(4) em(4) by (intro result(1) [of ESP_ERR_NO_MEM c5]) (auto simp: esp_mqtt_client_set_uri_def)
  next
    case (5 n p)
    define c6 where "c6 = (if own then c4 else upd_config (\<lambda>f. f\<lparr>cs_uri := nu\<rparr>) c5)"
    have "\<exists>a. uri_credentials (part uri u UF_USERINFO) = Some (a, p) \<and> n = (if part uri u UF_USERINFO = [] then None else Some a)"
      if "allocs c = []"
      using cr(5) [OF em(3) [OF that]] 5(4) by (auto simp: uri_credentials_def password_part_def user_part_def split: if_splits option.splits)
    moreover have "\<exists>h. c6 = c\<lparr>allocs := h, config := (config c)\<lparr>cs_uri := if own then cs_uri (config c) else Some uri\<rparr>\<rparr>"
      using al(3,4) nu(3) 5(5) by (auto simp: c6_def upd_config_def allocated_def)
    moreover have "esp_mqtt_client_set_uri parse_url own uri c =
      Some (ESP_OK, apply_uri uri u (part uri u UF_SCHEMA) (part uri u UF_HOST) (uri_path uri u) (n, p) c6)"
      using run 5 id(1) by (auto simp: esp_mqtt_client_set_uri_def c6_def)
    ultimately show thesis using sch(3) ho(3) 5(1,2) cr(4) [OF 5(4)] by (intro result(2) [of n p c6]) auto
  qed
qed

text \<open>
  C32. Setting the URI of the broker returns, whatever the allocator answers, and reads nothing outside
  the string. An error changes nothing. With \<^verbatim>\<open>ESP_OK\<close>, the URI has a scheme and a host, and they, the path with query and the
  port become those of the URI (a URI without a port keeps the old port); user name and password each become the
  percent-decoded one of the URI or keep the old value, and no other field of the client changes. If no allocation fails and the URI
  has a scheme and a host, a malformed percent escape in the user information is the only error, and
  both credentials that the URI has are taken; it is a failed copy that makes the call report success with the old ones.
\<close>

theorem set_uri_outcome:
  assumes "parse_url uri = Some u" "parts_inside uri u" "0 \<notin> set uri"
  defines "s \<equiv> part uri u UF_USERINFO"
  shows "\<exists>err c'. esp_mqtt_client_set_uri parse_url own uri c = Some (err, c') \<and>
    (err \<noteq> ESP_OK \<longrightarrow> (\<exists>h. c' = c\<lparr>allocs := h\<rparr>)) \<and>
    (err = ESP_OK \<longrightarrow> part uri u UF_SCHEMA \<noteq> [] \<and> part uri u UF_HOST \<noteq> [] \<and>
      (\<exists>n p h. c' = (addressed own uri u n p c)\<lparr>allocs := h\<rparr> \<and>
        n \<in> {username (conn_info c), uri_username s (username (conn_info c))} \<and>
        p \<in> {password (conn_info c), uri_password s (password (conn_info c))})) \<and>
    (allocs c = [] \<longrightarrow> part uri u UF_SCHEMA \<noteq> [] \<longrightarrow> part uri u UF_HOST \<noteq> [] \<longrightarrow>
      (if uri_credentials s = None then err = ESP_FAIL
       else err = ESP_OK \<and> username (conn_info c') = uri_username s (username (conn_info c)) \<and>
         password (conn_info c') = uri_password s (password (conn_info c))))"
proof (cases rule: set_uri_cases [of parse_url uri u own c, OF assms(1-3)])
  case (1 err c')
  then show ?thesis by (auto simp: allocated_def s_def)
next
  case (2 n p c')
  define n' p' where "n' = (case n of None \<Rightarrow> username (conn_info c) | Some s \<Rightarrow> Some s)"
    and "p' = (case p of None \<Rightarrow> password (conn_info c) | Some s \<Rightarrow> Some s)"
  obtain h where h: "c' = c\<lparr>allocs := h, config := (config c)\<lparr>cs_uri := if own then cs_uri (config c) else Some uri\<rparr>\<rparr>"
    using 2(2) by blast
  have run: "esp_mqtt_client_set_uri parse_url own uri c = Some (ESP_OK, (addressed own uri u n' p' c)\<lparr>allocs := h\<rparr>)"
    unfolding 2(1) apply_uri_addressed [OF assms(2) h] n'_def p'_def ..
  have new: "n' \<in> {username (conn_info c), uri_username s (username (conn_info c))}" "p' \<in> {password (conn_info c), uri_password s (password (conn_info c))}"
    using 2(5) by (auto simp: n'_def p'_def uri_username_def uri_password_def s_def split: option.split)
  have all: "n' = uri_username s (username (conn_info c)) \<and> p' = uri_password s (password (conn_info c)) \<and> uri_credentials s \<noteq> None"
    if "allocs c = []"
    using 2(6) [OF that] by (auto simp: n'_def p'_def uri_username_def uri_password_def s_def split: option.split)
  have fields: "username (conn_info ((addressed own uri u n' p' c)\<lparr>allocs := h\<rparr>)) = n'" "password (conn_info ((addressed own uri u n' p' c)\<lparr>allocs := h\<rparr>)) = p'"
    by (simp_all add: addressed_def)
  show ?thesis unfolding run using new all fields 2(3,4) by auto
qed


text \<open>\<^verbatim>\<open>mqtt://u%41:p@h:99/x\<close> and what the parser says of it.\<close>

definition sample_uri :: cstring where
  "sample_uri = [0x6d, 0x71, 0x74, 0x74, 0x3a, 0x2f, 0x2f, 0x75, 0x25, 0x34, 0x31, 0x3a, 0x70, 0x40, 0x68, 0x3a, 0x39, 0x39, 0x2f, 0x78]"

definition sample_url :: http_parser_url where
  "sample_url f = (case f of UF_SCHEMA \<Rightarrow> (0, 4) | UF_HOST \<Rightarrow> (14, 1) | UF_PORT \<Rightarrow> (16, 2) | UF_PATH \<Rightarrow> (18, 2) | UF_QUERY \<Rightarrow> (0, 0)
     | UF_USERINFO \<Rightarrow> (7, 6))"

theorem set_uri_outcome_witness:
  "\<exists>c'. esp_mqtt_client_set_uri (\<lambda>s. if s = sample_uri then Some sample_url else None) False sample_uri (sample_client 16) = Some (ESP_OK, c') \<and>
     cs_scheme (config c') = Some [0x6d, 0x71, 0x74, 0x74] \<and> cs_host (config c') = Some [0x68] \<and> cs_path (config c') = Some [0x2f, 0x78] \<and>
     cs_port (config c') = 99 \<and> username (conn_info c') = Some [0x75, 0x41] \<and> password (conn_info c') = Some [0x70]"
proof -
  let ?parse = "\<lambda>s. if s = sample_uri then Some sample_url else None"
  have ok: "?parse sample_uri = Some sample_url" "parts_inside sample_uri sample_url" "0 \<notin> set sample_uri"
    by (auto simp: parts_inside_def sample_url_def sample_uri_def split: url_field.split)
  have p: "part sample_uri sample_url UF_SCHEMA = [0x6d, 0x71, 0x74, 0x74]" "part sample_uri sample_url UF_HOST = [0x68]"
    "part sample_uri sample_url UF_USERINFO = [0x75, 0x25, 0x34, 0x31, 0x3a, 0x70]" "part sample_uri sample_url UF_PORT = [0x39, 0x39]"
    "uri_path sample_uri sample_url = Some [0x2f, 0x78]" "strtol (at_field sample_uri sample_url UF_PORT) = 99"
    by (simp_all add: part_def uri_path_def at_field_def strtol_def sample_uri_def sample_url_def)
  have c: "uri_credentials [0x75, 0x25, 0x34, 0x31, 0x3a, 0x70] = Some ([0x75, 0x41], Some [0x70])"
    by (simp add: uri_credentials_def password_part_def user_part_def c_str_def isxdigit_def hex_value_def hex_digit_def)
  have a: "allocs (sample_client 16) = []" by (simp add: sample_client_def)
  show ?thesis using set_uri_outcome [of ?parse sample_uri sample_url False "sample_client 16", OF ok] a
    by (auto simp: p c addressed_def uri_username_def uri_password_def)
qed

end
