(* ===== verification/Mqtt5_Client_Config.thy ===== *)
theory Mqtt5_Client_Config
  imports Mqtt_Client_Config
begin

text \<open>
  The configuration of an MQTT 5 client: the rest of \<^verbatim>\<open>mqtt5_client.c\<close> but for the release of
  memory and the log output, and \<open>esp_mqtt_set_if_config\<close> of \<^verbatim>\<open>mqtt_client.c\<close>.
\<close>

section \<open>Default configuration\<close>

definition default_mqtt5_config :: mqtt5_config_storage where
  "default_mqtt5_config = \<lparr>
     connect_property_info = \<lparr>cp_session_expiry_interval = 0, cp_maximum_packet_size = 0, cp_receive_maximum = 0,
       cp_topic_alias_maximum = 0, cp_request_resp_info = False, cp_request_problem_info = False, cp_user_property = None\<rparr>,
     will_property_info = \<lparr>wp_will_delay_interval = 0, wp_message_expiry_interval = 0, wp_payload_format_indicator = False,
       wp_content_type = None, wp_response_topic = None, wp_correlation_data = None, wp_correlation_data_len = 0,
       wp_user_property = None\<rparr>,
     server_resp_property_info = \<lparr>sr_maximum_packet_size = 0, sr_receive_maximum = 65535, sr_topic_alias_maximum = 0,
       sr_max_qos = 2, sr_retain_available = True, sr_wildcard_subscribe_available = True,
       sr_subscribe_identifiers_available = True, sr_shared_subscribe_available = True, sr_response_info = Null_Str\<rparr>,
     disconnect_property_info = \<lparr>dp_session_expiry_interval = 0, dp_disconnect_reason = 0, dp_user_property = None\<rparr>,
     publish_property_info = None, subscribe_property_info = None, unsubscribe_property_info = None,
     peer_topic_alias = None\<rparr>"

definition zero_event_property :: esp_mqtt5_event_property where
  "zero_event_property = \<lparr>ep_payload_format_indicator = False, ep_response_topic = None, ep_response_topic_len = 0,
     ep_correlation_data = None, ep_correlation_data_len = 0, ep_content_type = None, ep_content_type_len = 0,
     ep_subscribe_id = 0, ep_user_property = None,
     ep_server = \<lparr>es_maximum_packet_size = 0, es_receive_maximum = 0, es_topic_alias_maximum = 0, es_max_qos = 0,
       es_retain_available = False, es_wildcard_subscribe_available = False, es_subscribe_identifiers_available = False,
       es_shared_subscribe_available = False, es_response_info = Null_Str, es_response_info_len = 0\<rparr>\<rparr>"

definition esp_mqtt5_create_default_config :: "esp_mqtt_client \<Rightarrow> esp_err \<times> esp_mqtt_client" where
  "esp_mqtt5_create_default_config c =
     (if \<not> is_v5 c then (ESP_OK, c)
      else let (ok, c) = client_calloc c in
        if \<not> ok then (ESP_FAIL, c)
        else let c = upd_property (\<lambda>_. zero_event_property) c; (ok, c) = client_calloc c in
          if \<not> ok then (ESP_FAIL, c) else (ESP_OK, c\<lparr>mqtt5_config := default_mqtt5_config\<rparr>))"

text \<open>Before the broker has stated its limits everything is allowed.\<close>

lemma default_config_permits:
  assumes "is_v5 c" "allocs c = []" "0 \<le> qos" "qos \<le> 2" "send_publish_packet_count c < 65535"
  obtains c' where "esp_mqtt5_create_default_config c = (ESP_OK, c')" "esp_mqtt5_client_publish_check c' qos retain = ESP_OK"
    "esp_mqtt5_client_subscribe_check c' qos = ESP_OK" "esp_mqtt5_client_check_inflight_maximum c' = ESP_OK"
proof (rule that)
  let ?c = "(upd_property (\<lambda>_. zero_event_property) c)\<lparr>mqtt5_config := default_mqtt5_config\<rparr>"
  show "esp_mqtt5_create_default_config c = (ESP_OK, ?c)"
    using assms(1,2) by (simp add: esp_mqtt5_create_default_config_def client_calloc_def calloc_def upd_property_def upd_event_def)
  show "esp_mqtt5_client_publish_check ?c qos retain = ESP_OK" "esp_mqtt5_client_subscribe_check ?c qos = ESP_OK"
    "esp_mqtt5_client_check_inflight_maximum ?c = ESP_OK"
    using assms by (simp_all add: esp_mqtt5_client_publish_check_def esp_mqtt5_client_subscribe_check_def
        esp_mqtt5_client_check_inflight_maximum_def default_mqtt5_config_def upd_property_def upd_event_def)
qed

section \<open>Properties of the connection\<close>

record esp_mqtt5_connection_property_config =
  cc_session_expiry_interval :: "32 word"
  cc_maximum_packet_size :: "32 word"
  cc_receive_maximum :: "16 word"
  cc_topic_alias_maximum :: "16 word"
  cc_request_resp_info :: bool
  cc_request_problem_info :: bool
  cc_user_property :: mqtt5_user_property_handle
  cc_will_delay_interval :: "32 word"
  cc_message_expiry_interval :: "32 word"
  cc_payload_format_indicator :: bool
  cc_content_type :: "cstring option"
  cc_response_topic :: "cstring option"
  cc_correlation_data :: "byte list option"
  cc_correlation_data_len :: "16 word"
  cc_will_user_property :: mqtt5_user_property_handle

text \<open>A new value replaces the old one by a copy; \<open>False\<close> is a failed copy, which leaves a null pointer.\<close>

definition esp_mqtt_set_if_config :: "cstring option \<Rightarrow> cstring option \<Rightarrow> esp_mqtt_client \<Rightarrow> bool \<times> cstring option \<times> esp_mqtt_client" where
  "esp_mqtt_set_if_config new_config old_config c =
     (case new_config of None \<Rightarrow> (True, old_config, c)
      | Some s \<Rightarrow> (case new_copy s c of (t, c) \<Rightarrow> (t \<noteq> None, t, c)))"

text \<open>The settings in the order of the source; \<open>False\<close> goes to the label for a failure.\<close>

type_synonym config_step = "esp_mqtt_client \<Rightarrow> (bool \<times> esp_mqtt_client) option"

fun config_steps :: "config_step list \<Rightarrow> config_step" where
  "config_steps [] c = Some (True, c)"
| "config_steps (s # ss) c = do { (ok, c) \<leftarrow> s c; if ok then config_steps ss c else Some (False, c) }"

definition upd_connect :: "(esp_mqtt5_connection_property_storage \<Rightarrow> esp_mqtt5_connection_property_storage) \<Rightarrow> esp_mqtt_client \<Rightarrow> esp_mqtt_client" where
  "upd_connect f = upd_mqtt5 (\<lambda>m. m\<lparr>connect_property_info := f (connect_property_info m)\<rparr>)"

definition upd_will :: "(esp_mqtt5_connection_will_property_storage \<Rightarrow> esp_mqtt5_connection_will_property_storage) \<Rightarrow> esp_mqtt_client \<Rightarrow> esp_mqtt_client" where
  "upd_will f = upd_mqtt5 (\<lambda>m. m\<lparr>will_property_info := f (will_property_info m)\<rparr>)"

definition set_when :: "bool \<Rightarrow> (esp_mqtt_client \<Rightarrow> esp_mqtt_client) \<Rightarrow> config_step" where
  "set_when p f c = Some (True, if p then f c else c)"

text \<open>The table of topic aliases is made with the first limit.\<close>

definition set_alias_maximum :: "16 word \<Rightarrow> config_step" where
  "set_alias_maximum n c =
     (if n = 0 then Some (True, c)
      else let c = upd_connect (\<lambda>p. p\<lparr>cp_topic_alias_maximum := n\<rparr>) c in
        if peer_topic_alias (mqtt5_config c) \<noteq> None then Some (True, c)
        else let (ok, c) = client_calloc c in
          Some (ok, if ok then upd_mqtt5 (\<lambda>m. m\<lparr>peer_topic_alias := Some []\<rparr>) c else c))"

text \<open>A list of user properties is replaced by a copy of the given one.\<close>

definition set_user_properties ::
  "mqtt5_user_property_handle \<Rightarrow> (mqtt5_user_property_handle \<Rightarrow> esp_mqtt_client \<Rightarrow> esp_mqtt_client) \<Rightarrow> config_step" where
  "set_user_properties new put c =
     (if new = None then Some (True, c)
      else let (ok, c) = client_calloc c in
        if \<not> ok then Some (False, put None c)
        else let (err, l, h) = esp_mqtt5_user_property_copy (allocs c) (Some []) new in
          Some (err = ESP_OK, put l (c\<lparr>allocs := h\<rparr>)))"

definition set_string :: "cstring option \<Rightarrow> cstring option \<Rightarrow> (cstring option \<Rightarrow> esp_mqtt_client \<Rightarrow> esp_mqtt_client) \<Rightarrow> config_step" where
  "set_string new old put c = (let (ok, t, c) = esp_mqtt_set_if_config new old c in Some (ok, put t c))"

definition set_correlation_data :: "byte list option \<Rightarrow> 16 word \<Rightarrow> config_step" where
  "set_correlation_data data len c =
     (case data of None \<Rightarrow> Some (True, c)
      | Some d \<Rightarrow>
          if len = 0 then Some (True, c)
          else let (ok, c) = client_calloc c in
            if \<not> ok then Some (False, upd_will (\<lambda>w. w\<lparr>wp_correlation_data := None\<rparr>) c)
            else do {
              bs \<leftarrow> fetch d (unat len);
              Some (True, upd_will (\<lambda>w. w\<lparr>wp_correlation_data := Some bs, wp_correlation_data_len := len\<rparr>) c)
            })"

definition set_connect_steps :: "esp_mqtt5_connection_property_config \<Rightarrow> config_step list" where
  "set_connect_steps p = [
     set_when (cc_session_expiry_interval p \<noteq> 0) (upd_connect (\<lambda>s. s\<lparr>cp_session_expiry_interval := cc_session_expiry_interval p\<rparr>)),
     (\<lambda>c. Some (True, upd_connect (\<lambda>s. s\<lparr>cp_maximum_packet_size :=
        (if cc_maximum_packet_size p \<noteq> 0 then cc_maximum_packet_size p else of_nat (in_buffer_length c))\<rparr>) c)),
     set_when (cc_receive_maximum p \<noteq> 0) (upd_connect (\<lambda>s. s\<lparr>cp_receive_maximum := cc_receive_maximum p\<rparr>)),
     set_alias_maximum (cc_topic_alias_maximum p),
     set_when (cc_request_resp_info p) (upd_connect (\<lambda>s. s\<lparr>cp_request_resp_info := cc_request_resp_info p\<rparr>)),
     set_when (cc_request_problem_info p) (upd_connect (\<lambda>s. s\<lparr>cp_request_problem_info := cc_request_problem_info p\<rparr>)),
     set_user_properties (cc_user_property p) (\<lambda>l. upd_connect (\<lambda>s. s\<lparr>cp_user_property := l\<rparr>)),
     set_when (cc_payload_format_indicator p) (upd_will (\<lambda>w. w\<lparr>wp_payload_format_indicator := cc_payload_format_indicator p\<rparr>)),
     set_when (cc_will_delay_interval p \<noteq> 0) (upd_will (\<lambda>w. w\<lparr>wp_will_delay_interval := cc_will_delay_interval p\<rparr>)),
     set_when (cc_message_expiry_interval p \<noteq> 0) (upd_will (\<lambda>w. w\<lparr>wp_message_expiry_interval := cc_message_expiry_interval p\<rparr>)),
     (\<lambda>c. set_string (cc_content_type p) (wp_content_type (will_property_info (mqtt5_config c)))
        (\<lambda>t. upd_will (\<lambda>w. w\<lparr>wp_content_type := t\<rparr>)) c),
     (\<lambda>c. set_string (cc_response_topic p) (wp_response_topic (will_property_info (mqtt5_config c)))
        (\<lambda>t. upd_will (\<lambda>w. w\<lparr>wp_response_topic := t\<rparr>)) c),
     set_correlation_data (cc_correlation_data p) (cc_correlation_data_len p),
     set_user_properties (cc_will_user_property p) (\<lambda>l. upd_will (\<lambda>w. w\<lparr>wp_user_property := l\<rparr>))]"

text \<open>
  \<open>Inr\<close> is a failure behind which \<open>esp_mqtt_destroy_config\<close> has released the whole configuration of the
  client and its buffers: what is left cannot be used any more and is not a value of the model.
\<close>

definition esp_mqtt5_client_set_connect_property ::
  "esp_mqtt5_connection_property_config option \<Rightarrow> esp_mqtt_client option \<Rightarrow> ((esp_err \<times> esp_mqtt_client option) + esp_err) option" where
  "esp_mqtt5_client_set_connect_property connect_property handle =
     (case handle of None \<Rightarrow> Some (Inl (ESP_ERR_INVALID_ARG, None))
      | Some c \<Rightarrow>
          if \<not> is_v5 c then Some (Inl (ESP_FAIL, Some c))
          else case connect_property of None \<Rightarrow> Some (Inl (ESP_OK, Some c))
          | Some p \<Rightarrow> do {
              (ok, c) \<leftarrow> config_steps (set_connect_steps p) c;
              Some (if ok then Inl (ESP_OK, Some c) else Inr ESP_ERR_NO_MEM)
            })"


section \<open>What is stored\<close>

text \<open>A property of the application replaces the stored one unless it is zero.\<close>

definition or_else :: "'a :: zero \<Rightarrow> 'a \<Rightarrow> 'a" where
  "or_else new old = (if new \<noteq> 0 then new else old)"

definition copied :: "mqtt5_user_property list \<Rightarrow> mqtt5_user_property list" where
  "copied l = map (\<lambda>x. \<lparr>key = c_str (key x), val = c_str (val x)\<rparr>) l"

definition or_copy :: "mqtt5_user_property_handle \<Rightarrow> mqtt5_user_property_handle \<Rightarrow> mqtt5_user_property_handle" where
  "or_copy new old = (case new of None \<Rightarrow> old | Some l \<Rightarrow> Some (copied l))"

definition merged_connect ::
  "esp_mqtt5_connection_property_config \<Rightarrow> nat \<Rightarrow> esp_mqtt5_connection_property_storage \<Rightarrow> esp_mqtt5_connection_property_storage" where
  "merged_connect p n s = \<lparr>
     cp_session_expiry_interval = or_else (cc_session_expiry_interval p) (cp_session_expiry_interval s),
     cp_maximum_packet_size = or_else (cc_maximum_packet_size p) (of_nat n),
     cp_receive_maximum = or_else (cc_receive_maximum p) (cp_receive_maximum s),
     cp_topic_alias_maximum = or_else (cc_topic_alias_maximum p) (cp_topic_alias_maximum s),
     cp_request_resp_info = (cc_request_resp_info p \<or> cp_request_resp_info s),
     cp_request_problem_info = (cc_request_problem_info p \<or> cp_request_problem_info s),
     cp_user_property = or_copy (cc_user_property p) (cp_user_property s)\<rparr>"

lemma calloc_unlimited: "allocs c = [] \<Longrightarrow> client_calloc c = (True, c)"
  by (simp add: client_calloc_def calloc_def)

lemma user_property_copy_unlimited: "user_property_copy [] new old = (ESP_OK, new @ copied old, [])"
  by (induction old arbitrary: new) (simp_all add: calloc_def copied_def)

lemma set_user_properties_unlimited:
  assumes "allocs c = []" "put old c = c"
  shows "set_user_properties new put c = Some (True, put (or_copy new old) c)"
proof (cases new)
  case (Some l)
  then have "set_user_properties new put c = Some (True, put (Some (copied l)) (c\<lparr>allocs := []\<rparr>))"
    using assms(1) by (simp add: set_user_properties_def calloc_unlimited esp_mqtt5_user_property_copy_def user_property_copy_unlimited)
  also have "c\<lparr>allocs := []\<rparr> = c" using assms(1) by simp
  finally show ?thesis by (simp only: Some or_copy_def option.case)
qed (use assms in \<open>simp add: set_user_properties_def or_copy_def\<close>)

lemma set_string_unlimited:
  "allocs c = [] \<Longrightarrow> set_string new old put c = Some (True, put (case new of None \<Rightarrow> old | Some s \<Rightarrow> Some (c_str s)) c)"
  by (cases new) (simp_all add: set_string_def esp_mqtt_set_if_config_def new_copy_def calloc_unlimited)

lemma upd_parts [simp]:
  "allocs (upd_mqtt5 f c) = allocs c" "allocs (upd_connect g c) = allocs c" "allocs (upd_will k c) = allocs c"
  "in_buffer_length (upd_connect g c) = in_buffer_length c" "in_buffer_length (upd_will k c) = in_buffer_length c"
  "mqtt5_config (upd_mqtt5 f c) = f (mqtt5_config c)"
  "connect_property_info (mqtt5_config (upd_connect g c)) = g (connect_property_info (mqtt5_config c))"
  "connect_property_info (mqtt5_config (upd_will k c)) = connect_property_info (mqtt5_config c)"
  "will_property_info (mqtt5_config (upd_connect g c)) = will_property_info (mqtt5_config c)"
  "will_property_info (mqtt5_config (upd_will k c)) = k (will_property_info (mqtt5_config c))"
  "peer_topic_alias (mqtt5_config (upd_connect g c)) = peer_topic_alias (mqtt5_config c)"
  "peer_topic_alias (mqtt5_config (upd_will k c)) = peer_topic_alias (mqtt5_config c)"
  by (simp_all add: upd_connect_def upd_will_def upd_mqtt5_def)

lemma set_alias_unlimited:
  assumes "allocs c = []"
  obtains c' where "set_alias_maximum n c = Some (True, c')" "allocs c' = []" "in_buffer_length c' = in_buffer_length c"
    "connect_property_info (mqtt5_config c') = (connect_property_info (mqtt5_config c))\<lparr>cp_topic_alias_maximum :=
       or_else n (cp_topic_alias_maximum (connect_property_info (mqtt5_config c)))\<rparr>"
    "n \<noteq> 0 \<Longrightarrow> peer_topic_alias (mqtt5_config c') \<noteq> None"
proof (cases "n = 0")
  case True
  then show thesis using that [of c] assms by (simp add: set_alias_maximum_def or_else_def)
next
  case n: False
  let ?c = "upd_connect (\<lambda>p. p\<lparr>cp_topic_alias_maximum := n\<rparr>) c"
  show thesis
  proof (cases "peer_topic_alias (mqtt5_config c)")
    case None
    then show thesis using that [of "upd_mqtt5 (\<lambda>m. m\<lparr>peer_topic_alias := Some []\<rparr>) ?c"] n assms
      by (simp add: set_alias_maximum_def or_else_def calloc_unlimited upd_mqtt5_def upd_connect_def)
  next
    case (Some l)
    then show thesis using that [of ?c] n assms by (simp add: set_alias_maximum_def or_else_def)
  qed
qed

text \<open>A step on the will that allocates without failure.\<close>

definition will_step :: "config_step \<Rightarrow> bool" where
  "will_step s \<longleftrightarrow> (\<forall>c. allocs c = [] \<longrightarrow> (\<exists>f. s c = Some (True, upd_will f c)))"

lemma upd_will_id: "upd_will (\<lambda>w. w) c = c"
  by (simp add: upd_will_def upd_mqtt5_def)

lemma will_steps:
  "will_step (set_when q (upd_will f))"
  "will_step (\<lambda>c. set_string new (old c) (\<lambda>t. upd_will (g t)) c)"
  "(\<And>d. data = Some d \<Longrightarrow> unat len \<le> length d) \<Longrightarrow> will_step (set_correlation_data data len)"
  "will_step (set_user_properties l (\<lambda>l. upd_will (\<lambda>w. w\<lparr>wp_user_property := l\<rparr>)))"
proof -
  show "will_step (set_when q (upd_will f))"
    using upd_will_id by (auto simp: will_step_def set_when_def) metis
  show "will_step (\<lambda>c. set_string new (old c) (\<lambda>t. upd_will (g t)) c)"
    by (auto simp: will_step_def set_string_unlimited)
  show "will_step (set_correlation_data data len)" if "\<And>d. data = Some d \<Longrightarrow> unat len \<le> length d"
    using that upd_will_id unfolding will_step_def set_correlation_data_def
    by (cases data) (auto simp: calloc_unlimited fetch_def, metis+)
  have "set_user_properties l (\<lambda>l. upd_will (\<lambda>w. w\<lparr>wp_user_property := l\<rparr>)) c = Some (True,
      upd_will (\<lambda>w. w\<lparr>wp_user_property := or_copy l (wp_user_property (will_property_info (mqtt5_config c)))\<rparr>) c)" if "allocs c = []" for c
    by (rule set_user_properties_unlimited [OF that]) (simp add: upd_will_def upd_mqtt5_def)
  then show "will_step (set_user_properties l (\<lambda>l. upd_will (\<lambda>w. w\<lparr>wp_user_property := l\<rparr>)))"
    unfolding will_step_def by blast
qed

lemma config_steps_append:
  "config_steps (ss @ ts) c = do { (ok, c) \<leftarrow> config_steps ss c; if ok then config_steps ts c else Some (False, c) }"
  by (induction ss arbitrary: c) (auto split: bind_split)

lemma run_will_steps:
  assumes "\<forall>s \<in> set ss. will_step s" "allocs c = []"
  shows "\<exists>c'. config_steps ss c = Some (True, c') \<and> allocs c' = [] \<and> connect_property_info (mqtt5_config c') = connect_property_info (mqtt5_config c) \<and>
    peer_topic_alias (mqtt5_config c') = peer_topic_alias (mqtt5_config c)"
  using assms
proof (induction ss arbitrary: c)
  case (Cons s ss)
  then obtain f where f: "s c = Some (True, upd_will f c)" unfolding will_step_def by (metis list.set_intros(1))
  show ?case using Cons.IH [of "upd_will f c"] Cons.prems f by simp
qed simp

text \<open>
  With memory for everything, the stored properties are those of the application where they are not
  zero; the largest packet a client accepts is otherwise as long as its receive buffer.
\<close>

lemma connect_property_stored:
  assumes "allocs c = []" "is_v5 c" "\<And>d. cc_correlation_data p = Some d \<Longrightarrow> unat (cc_correlation_data_len p) \<le> length d"
  obtains c' where "esp_mqtt5_client_set_connect_property (Some p) (Some c) = Some (Inl (ESP_OK, Some c'))"
    "connect_property_info (mqtt5_config c') = merged_connect p (in_buffer_length c) (connect_property_info (mqtt5_config c))"
    "cc_topic_alias_maximum p \<noteq> 0 \<Longrightarrow> peer_topic_alias (mqtt5_config c') \<noteq> None"
proof -
  let ?P = "\<lambda>c. connect_property_info (mqtt5_config c)" and ?A = "\<lambda>c. peer_topic_alias (mqtt5_config c)"
  let ?q = "cc_topic_alias_maximum p"
  obtain c1 where c1: "config_steps (take 3 (set_connect_steps p)) c = Some (True, c1)" "allocs c1 = []"
    "?P c1 = (?P c)\<lparr>cp_session_expiry_interval := or_else (cc_session_expiry_interval p) (cp_session_expiry_interval (?P c)),
       cp_maximum_packet_size := or_else (cc_maximum_packet_size p) (of_nat (in_buffer_length c)),
       cp_receive_maximum := or_else (cc_receive_maximum p) (cp_receive_maximum (?P c))\<rparr>"
    using assms(1) by (simp add: set_connect_steps_def set_when_def or_else_def)
  obtain c2 where c2: "set_alias_maximum ?q c1 = Some (True, c2)" "allocs c2 = []"
    "?P c2 = (?P c1)\<lparr>cp_topic_alias_maximum := or_else ?q (cp_topic_alias_maximum (?P c1))\<rparr>" "?q \<noteq> 0 \<Longrightarrow> ?A c2 \<noteq> None"
    by (rule set_alias_unlimited [OF c1(2), of ?q]) (rule that)
  have w: "\<forall>s \<in> set (drop 7 (set_connect_steps p)). will_step s" using will_steps assms(3) by (auto simp: set_connect_steps_def)
  let ?c3 = "upd_connect (\<lambda>s. s\<lparr>cp_request_resp_info := (cc_request_resp_info p \<or> cp_request_resp_info s),
      cp_request_problem_info := (cc_request_problem_info p \<or> cp_request_problem_info s),
      cp_user_property := or_copy (cc_user_property p) (cp_user_property s)\<rparr>) c2"
  have mid: "config_steps (take 3 (drop 4 (set_connect_steps p))) c2 = Some (True, ?c3)"
  proof -
    let ?d = "upd_connect (\<lambda>s. s\<lparr>cp_request_resp_info := (cc_request_resp_info p \<or> cp_request_resp_info s),
      cp_request_problem_info := (cc_request_problem_info p \<or> cp_request_problem_info s)\<rparr>) c2"
    let ?put = "\<lambda>l. upd_connect (\<lambda>s. s\<lparr>cp_user_property := l\<rparr>)"
    have "set_user_properties (cc_user_property p) ?put ?d = Some (True, ?put (or_copy (cc_user_property p) (cp_user_property (?P ?d))) ?d)"
      by (rule set_user_properties_unlimited) (use c2(2) in \<open>simp_all add: upd_connect_def upd_mqtt5_def\<close>)
    moreover have "config_steps (take 3 (drop 4 (set_connect_steps p))) c2 =
        (case set_user_properties (cc_user_property p) ?put ?d of None \<Rightarrow> None | Some x \<Rightarrow> Some x)"
      by (simp add: set_connect_steps_def set_when_def upd_connect_def upd_mqtt5_def split: option.split)
    ultimately show ?thesis by (simp add: upd_connect_def upd_mqtt5_def)
  qed
  obtain c4 where c4: "config_steps (drop 7 (set_connect_steps p)) ?c3 = Some (True, c4)" "?P c4 = ?P ?c3" "?A c4 = ?A ?c3"
    using run_will_steps [OF w, of ?c3] c2(2) by auto
  have parts: "set_connect_steps p = take 3 (set_connect_steps p) @ set_alias_maximum ?q # take 3 (drop 4 (set_connect_steps p)) @
      drop 7 (set_connect_steps p)"
    by (simp add: set_connect_steps_def)
  have "config_steps (set_connect_steps p) c = Some (True, c4)"
    by (subst parts) (simp add: config_steps_append c1(1) c2(1) mid c4(1))
  then have "esp_mqtt5_client_set_connect_property (Some p) (Some c) = Some (Inl (ESP_OK, Some c4))"
    using assms(2) by (simp add: esp_mqtt5_client_set_connect_property_def)
  then show thesis using that [of c4] c1(3) c2(3,4) c4(2,3) by (simp add: merged_connect_def)
qed

end
