(* ===== verification/Emqtt_Contract.thy ===== *)
theory Emqtt_Contract
  imports Mqtt_Prelude
begin

text \<open>
  The contract layer of the runtime: \<^verbatim>\<open>runtime/include/emqtt_contract.h\<close>,
  \<^verbatim>\<open>runtime/emqtt_contract.c\<close> and \<^verbatim>\<open>runtime/emqtt_receive_internal.h\<close>.

  Validation of texts, topics and configurations, reassembly of fragmented messages and
  the check of a SUBACK. Fixed character arrays are byte lists of the declared size, which
  \<open>config_arrays\<close> states; a read outside an array is \<open>None\<close>.
\<close>

section \<open>Data model\<close>

abbreviation (input) EMQTT_PAYLOAD_MAX :: nat where "EMQTT_PAYLOAD_MAX \<equiv> 4096"
abbreviation (input) EMQTT_TOPIC_MAX :: nat where "EMQTT_TOPIC_MAX \<equiv> 256"
abbreviation (input) EMQTT_SUBSCRIPTIONS_MAX :: nat where "EMQTT_SUBSCRIPTIONS_MAX \<equiv> 8"

record emqtt_subscription =
  sub_topic :: "byte list"
  sub_qos :: nat

record emqtt_config =
  cfg_hostname :: "byte list"
  cfg_port :: nat
  cfg_tls :: bool
  cfg_client_id :: "byte list"
  cfg_username :: "byte list"
  cfg_password :: "byte list"
  cfg_ca_pem :: "byte list"
  cfg_will_topic :: "byte list"
  cfg_will_payload :: "byte list"
  cfg_will_length :: nat
  cfg_will_qos :: nat
  cfg_will_retain :: bool
  cfg_subscriptions :: "emqtt_subscription list"
  cfg_subscription_count :: nat

definition config_arrays :: "emqtt_config \<Rightarrow> bool" where
  "config_arrays c \<longleftrightarrow> length (cfg_hostname c) = 254 \<and> length (cfg_client_id c) = 129 \<and>
     length (cfg_username c) = 129 \<and> length (cfg_password c) = 257 \<and> length (cfg_ca_pem c) = 4097 \<and>
     length (cfg_will_topic c) = 257 \<and> length (cfg_will_payload c) = 512 \<and>
     length (cfg_subscriptions c) = 8 \<and> (\<forall>s \<in> set (cfg_subscriptions c). length (sub_topic s) = 257)"

text \<open>The borrowed fields of a data event; null pointers are \<open>None\<close>.\<close>

record emqtt_fragment =
  frag_topic :: "byte list option"
  frag_topic_length :: int
  frag_data :: "byte list option"
  frag_data_length :: int
  frag_total_length :: int
  frag_offset :: int
  frag_message_id :: int
  frag_qos :: int
  frag_retain :: bool
  frag_duplicate :: bool

record emqtt_message_info =
  info_topic :: "byte list"
  info_length :: nat
  info_message_id :: int
  info_qos :: nat
  info_retain :: bool
  info_duplicate :: bool

record emqtt_message = emqtt_message_info +
  msg_payload :: "byte list"

record emqtt_receive_state =
  received :: nat
  active :: bool

record emqtt_receiver =
  rcv_message :: "emqtt_message option"
  rcv_received :: nat
  rcv_active :: bool

datatype emqtt_rx_result = EMQTT_RX_MORE | EMQTT_RX_COMPLETE | EMQTT_RX_REJECTED

section \<open>Text\<close>

function bounded_length_from :: "byte list \<Rightarrow> nat \<Rightarrow> nat \<Rightarrow> nat option" where
  "bounded_length_from text capacity len =
     (if len < capacity then do {
        c \<leftarrow> load text len;
        if c \<noteq> 0 then bounded_length_from text capacity (Suc len) else Some len
      } else Some len)"
  by pat_completeness auto
termination
  by (relation "measure (\<lambda>(t, c, l). c - l)") auto

declare bounded_length_from.simps [simp del]

definition bounded_length :: "byte list \<Rightarrow> nat \<Rightarrow> nat option" where
  "bounded_length text capacity = bounded_length_from text capacity 0"

text \<open>The continuation bytes of a character; the inner \<open>None\<close> is \<open>return false\<close>.\<close>

fun utf8_extra :: "byte list \<Rightarrow> nat \<Rightarrow> nat \<Rightarrow> nat \<Rightarrow> (nat \<times> nat) option option" where
  "utf8_extra text at 0 code = Some (Some (at, code))"
| "utf8_extra text at (Suc extra) code = do {
     byte \<leftarrow> load text at;
     if byte AND 0xc0 \<noteq> 0x80 then Some None
     else utf8_extra text (Suc at) extra (push_bit 6 code OR unat (byte AND 0x3f))
   }"

text \<open>Code of the first byte, number of continuation bytes and least code of that length.\<close>

definition utf8_first :: "byte \<Rightarrow> (nat \<times> nat \<times> nat) option" where
  "utf8_first first =
     (if 0xc2 \<le> first \<and> first \<le> 0xdf then Some (unat (first AND 0x1f), 1, 0x80)
      else if 0xe0 \<le> first \<and> first \<le> 0xef then Some (unat (first AND 0x0f), 2, 0x800)
      else if 0xf0 \<le> first \<and> first \<le> 0xf4 then Some (unat (first AND 7), 3, 0x10000)
      else if 0x80 \<le> first then None
      else Some (unat first, 0, 0))"

definition utf8_code_bad :: "nat \<Rightarrow> nat \<Rightarrow> bool" where
  "utf8_code_bad code minimum \<longleftrightarrow> code < minimum \<or> code > 0x10ffff \<or> (0xd800 \<le> code \<and> code \<le> 0xdfff) \<or>
     code < 0x20 \<or> (0x7f \<le> code \<and> code \<le> 0x9f) \<or> (0xfdd0 \<le> code \<and> code \<le> 0xfdef) \<or>
     code AND 0xffff \<ge> 0xfffe"

lemma utf8_extra_at: "utf8_extra text at extra code = Some (Some (at', code')) \<Longrightarrow> at' = at + extra"
  by (induction extra arbitrary: at code) (fastforce simp: bind_eq_Some_conv split: if_splits)+

function utf8_from :: "byte list \<Rightarrow> nat \<Rightarrow> nat \<Rightarrow> bool option" where
  "utf8_from text len at =
     (if at < len then do {
        first \<leftarrow> load text at;
        case utf8_first first of None \<Rightarrow> Some False
        | Some (code, extra, minimum) \<Rightarrow>
          if extra > len - Suc at then Some False
          else do {
            r \<leftarrow> utf8_extra text (Suc at) extra code;
            case r of None \<Rightarrow> Some False
            | Some (at', code) \<Rightarrow>
              if utf8_code_bad code minimum then Some False else utf8_from text len at'
          }
      } else Some True)"
  by pat_completeness auto
termination
  by (relation "measure (\<lambda>(t, l, a). l - a)") (auto dest!: utf8_extra_at)

declare utf8_from.simps [simp del]

definition utf8 :: "byte list \<Rightarrow> nat \<Rightarrow> bool option" where
  "utf8 text len = utf8_from text len 0"

section \<open>Topics\<close>

text \<open>The tests for one character; the character before and behind are read only when needed.\<close>

definition hash_bad :: "byte list \<Rightarrow> nat \<Rightarrow> bool \<Rightarrow> nat \<Rightarrow> bool option" where
  "hash_bad topic len flt i =
     (if \<not> flt \<or> i + 1 \<noteq> len then Some True
      else if i > 0 then map_option (\<lambda>p. p \<noteq> 0x2f) (load topic (i - 1)) else Some False)"

definition plus_bad :: "byte list \<Rightarrow> nat \<Rightarrow> bool \<Rightarrow> nat \<Rightarrow> bool option" where
  "plus_bad topic len flt i =
     (if \<not> flt then Some True
      else do {
        before \<leftarrow> (if i > 0 then map_option (\<lambda>p. p \<noteq> 0x2f) (load topic (i - 1)) else Some False);
        if before then Some True
        else if i + 1 < len then map_option (\<lambda>p. p \<noteq> 0x2f) (load topic (i + 1)) else Some False
      })"

function topic_loop :: "byte list \<Rightarrow> nat \<Rightarrow> bool \<Rightarrow> nat \<Rightarrow> bool option" where
  "topic_loop topic len flt i =
     (if i < len then do {
        c \<leftarrow> load topic i;
        bad \<leftarrow> (if c = 0x23 then hash_bad topic len flt i else Some False);
        if bad then Some False
        else do {
          bad \<leftarrow> (if c = 0x2b then plus_bad topic len flt i else Some False);
          if bad then Some False else topic_loop topic len flt (Suc i)
        }
      } else Some True)"
  by pat_completeness auto
termination
  by (relation "measure (\<lambda>(t, l, f, i). l - i)") auto

declare topic_loop.simps [simp del]

definition emqtt_topic_valid :: "byte list option \<Rightarrow> nat \<Rightarrow> bool \<Rightarrow> bool option" where
  "emqtt_topic_valid topic len flt =
     (case topic of None \<Rightarrow> Some False
      | Some t \<Rightarrow>
        if len = 0 \<or> len > EMQTT_TOPIC_MAX then Some False
        else do { u \<leftarrow> utf8 t len; if \<not> u then Some False else topic_loop t len flt 0 })"

section \<open>Configuration\<close>

definition alnum :: "byte \<Rightarrow> bool" where
  "alnum ch \<longleftrightarrow> 0x61 \<le> ch \<and> ch \<le> 0x7a \<or> 0x41 \<le> ch \<and> ch \<le> 0x5a \<or> 0x30 \<le> ch \<and> ch \<le> 0x39"

text \<open>The loop over the host name; \<open>label\<close> is the length of the current label.\<close>

function host_loop :: "byte list \<Rightarrow> nat \<Rightarrow> nat \<Rightarrow> nat \<Rightarrow> bool option" where
  "host_loop host len i label =
     (if i < len then do {
        ch \<leftarrow> load host i;
        if ch = 0x2e then
          if label = 0 then Some False
          else do {
            p \<leftarrow> load host (i - 1);
            if p = 0x2d \<or> i + 1 = len then Some False else host_loop host len (Suc i) 0
          }
        else if \<not> (alnum ch \<or> ch = 0x2d \<and> label > 0) then Some False
        else if label + 1 > 63 \<or> i + 1 = len \<and> ch = 0x2d then Some False
        else host_loop host len (Suc i) (label + 1)
      } else Some True)"
  by pat_completeness auto
termination
  by (relation "measure (\<lambda>(h, l, i, lb). l - i)") auto

declare host_loop.simps [simp del]

text \<open>\<^verbatim>\<open>strstr\<close> on the zero-terminated text: whether a string occurs.\<close>

fun occurs_in :: "byte list \<Rightarrow> byte list \<Rightarrow> bool" where
  "occurs_in needle [] \<longleftrightarrow> needle = []"
| "occurs_in needle (c # cs) \<longleftrightarrow> take (length needle) (c # cs) = needle \<or> occurs_in needle cs"

definition pem_begin :: "byte list" where
  "pem_begin = replicate 5 0x2d @ [0x42, 0x45, 0x47, 0x49, 0x4e, 0x20,
     0x43, 0x45, 0x52, 0x54, 0x49, 0x46, 0x49, 0x43, 0x41, 0x54, 0x45] @ replicate 5 0x2d"

definition pem_end :: "byte list" where
  "pem_end = replicate 5 0x2d @ [0x45, 0x4e, 0x44, 0x20,
     0x43, 0x45, 0x52, 0x54, 0x49, 0x46, 0x49, 0x43, 0x41, 0x54, 0x45] @ replicate 5 0x2d"

text \<open>\<^verbatim>\<open>strcmp\<close> is zero: equal up to the first zero byte.\<close>

fun strings_equal :: "byte list \<Rightarrow> byte list \<Rightarrow> bool option" where
  "strings_equal (a # as) (b # bs) =
     (if a \<noteq> b then Some False else if a = 0 then Some True else strings_equal as bs)"
| "strings_equal _ _ = None"

text \<open>Conjunction in the order of the source: the second test runs only if the first succeeds.\<close>

definition both :: "bool option \<Rightarrow> bool option \<Rightarrow> bool option" where
  "both p q = do { b \<leftarrow> p; if b then q else Some False }"

definition host_valid :: "emqtt_config \<Rightarrow> bool option" where
  "host_valid c = do {
     host_len \<leftarrow> bounded_length (cfg_hostname c) 254;
     if host_len = 0 \<or> host_len = 254 then Some False else host_loop (cfg_hostname c) host_len 0 0
   }"

definition identity_valid :: "emqtt_config \<Rightarrow> bool option" where
  "identity_valid c = do {
     client_id_len \<leftarrow> bounded_length (cfg_client_id c) 129;
     both (both (Some (client_id_len \<noteq> 0 \<and> client_id_len \<noteq> 129)) (utf8 (cfg_client_id c) client_id_len))
       (do {
          user_len \<leftarrow> bounded_length (cfg_username c) 129;
          password_len \<leftarrow> bounded_length (cfg_password c) 257;
          both (Some (user_len \<noteq> 129 \<and> password_len \<noteq> 257))
            (both (utf8 (cfg_username c) user_len)
              (both (utf8 (cfg_password c) password_len)
                (Some (user_len \<noteq> 0 \<or> password_len = 0))))
        })
   }"

definition cert_valid :: "emqtt_config \<Rightarrow> bool option" where
  "cert_valid c = do {
     cert_len \<leftarrow> bounded_length (cfg_ca_pem c) 4097;
     let pem = take cert_len (cfg_ca_pem c);
     Some (cert_len \<noteq> 4097 \<and>
       (cfg_tls c \<longrightarrow> cert_len \<noteq> 0 \<and> occurs_in pem_begin pem \<and> occurs_in pem_end pem) \<and>
       (\<not> cfg_tls c \<longrightarrow> cert_len = 0))
   }"

definition array_topic_valid :: "byte list \<Rightarrow> bool \<Rightarrow> bool option" where
  "array_topic_valid topic flt = do { len \<leftarrow> bounded_length topic 257; emqtt_topic_valid (Some topic) len flt }"

text \<open>No earlier subscription has the same filter (inner loop), for every subscription (outer loop).\<close>

fun no_duplicate :: "byte list \<Rightarrow> emqtt_subscription list \<Rightarrow> bool option" where
  "no_duplicate topic [] = Some True"
| "no_duplicate topic (s # ss) =
     do { eq \<leftarrow> strings_equal topic (sub_topic s); if eq then Some False else no_duplicate topic ss }"

fun subscriptions_valid :: "emqtt_subscription list \<Rightarrow> emqtt_subscription list \<Rightarrow> bool option" where
  "subscriptions_valid earlier [] = Some True"
| "subscriptions_valid earlier (s # ss) =
     (if sub_qos s > 1 then Some False
      else both (array_topic_valid (sub_topic s) True)
        (both (no_duplicate (sub_topic s) earlier) (subscriptions_valid (earlier @ [s]) ss)))"

definition emqtt_config_valid :: "emqtt_config option \<Rightarrow> bool \<Rightarrow> bool option" where
  "emqtt_config_valid config allow_plaintext_lab =
     (case config of None \<Rightarrow> Some False
      | Some c \<Rightarrow>
        both (Some (cfg_port c \<noteq> 0 \<and> (cfg_tls c \<or> allow_plaintext_lab) \<and>
                    cfg_subscription_count c \<le> EMQTT_SUBSCRIPTIONS_MAX \<and> cfg_will_qos c \<le> 1 \<and>
                    cfg_will_length c \<le> length (cfg_will_payload c)))
          (both (host_valid c)
            (both (identity_valid c)
              (both (cert_valid c)
                (both (array_topic_valid (cfg_will_topic c) False)
                  (subscriptions_valid [] (take (cfg_subscription_count c) (cfg_subscriptions c))))))))"

section \<open>Reassembly\<close>

definition emqtt_receive_reset :: "emqtt_receiver option \<Rightarrow> emqtt_receiver option" where
  "emqtt_receive_reset receiver = map_option (\<lambda>r. r\<lparr>rcv_active := False, rcv_received := 0\<rparr>) receiver"

definition fragment_fields_ok :: "nat \<Rightarrow> emqtt_fragment \<Rightarrow> bool" where
  "fragment_fields_ok capacity f \<longleftrightarrow>
     frag_topic_length f \<ge> 0 \<and> frag_data_length f \<ge> 0 \<and> frag_total_length f \<ge> 0 \<and> frag_offset f \<ge> 0 \<and>
     frag_total_length f \<le> int EMQTT_PAYLOAD_MAX \<and> nat (frag_total_length f) \<le> capacity \<and>
     frag_offset f \<le> frag_total_length f \<and> frag_data_length f \<le> frag_total_length f - frag_offset f \<and>
     \<not> (frag_data_length f \<noteq> 0 \<and> frag_data f = None) \<and> frag_qos f \<ge> 0 \<and> frag_qos f \<le> 1 \<and>
     frag_message_id f \<ge> 0 \<and> frag_message_id f \<le> 65535 \<and>
     \<not> (frag_qos f = 1 \<and> frag_message_id f = 0) \<and> \<not> (frag_qos f = 0 \<and> frag_message_id f \<noteq> 0)"

text \<open>The first fragment starts a message; \<open>None\<close> inside is \<open>goto reject\<close>.\<close>

definition receive_first ::
  "emqtt_receive_state \<Rightarrow> emqtt_message_info \<Rightarrow> emqtt_fragment \<Rightarrow>
     (emqtt_receive_state \<times> emqtt_message_info) option option" where
  "receive_first r message f =
     (if frag_offset f \<noteq> 0 then Some None
      else do {
        v \<leftarrow> emqtt_topic_valid (frag_topic f) (nat (frag_topic_length f)) False;
        if \<not> v then Some None
        else do {
          bs \<leftarrow> fetch (the (frag_topic f)) (nat (frag_topic_length f));
          topic \<leftarrow> store (info_topic message) 0 bs;
          topic \<leftarrow> store topic (nat (frag_topic_length f)) [0];
          Some (Some (r\<lparr>received := 0, active := True\<rparr>,
            \<lparr>info_topic = topic, info_length = nat (frag_total_length f),
             info_message_id = frag_message_id f, info_qos = nat (frag_qos f),
             info_retain = frag_retain f, info_duplicate = frag_duplicate f\<rparr>))
        }
      })"

text \<open>A further fragment may repeat the topic, which then must be the same.\<close>

definition topic_repeated :: "emqtt_message_info \<Rightarrow> emqtt_fragment \<Rightarrow> bool option" where
  "topic_repeated message f =
     (if frag_topic_length f = 0 then Some True
      else case frag_topic f of None \<Rightarrow> Some False
      | Some t \<Rightarrow> do {
          len \<leftarrow> strlen (info_topic message);
          if nat (frag_topic_length f) \<noteq> len then Some False
          else do { bs \<leftarrow> fetch t len; Some (bs = take len (info_topic message)) }
        })"

text \<open>Result, state, message information and payload buffer.\<close>

definition emqtt_receive_into ::
  "emqtt_receive_state \<Rightarrow> emqtt_message_info \<Rightarrow> byte list \<Rightarrow> nat \<Rightarrow> emqtt_fragment option \<Rightarrow>
     (emqtt_rx_result \<times> emqtt_receive_state \<times> emqtt_message_info \<times> byte list) option" where
  "emqtt_receive_into r message payload capacity frag =
     (let reject = (\<lambda>message. (EMQTT_RX_REJECTED, \<lparr>received = 0, active = False\<rparr>, message, payload)) in
      case frag of None \<Rightarrow> Some (reject message)
      | Some f \<Rightarrow>
        if \<not> fragment_fields_ok capacity f then Some (reject message)
        else do {
          start \<leftarrow> (if \<not> active r then receive_first r message f
                    else do { same \<leftarrow> topic_repeated message f; Some (if same then Some (r, message) else None) });
          case start of None \<Rightarrow> Some (reject message)
          | Some (r, message) \<Rightarrow>
            if frag_offset f \<noteq> int (received r) \<or> nat (frag_total_length f) \<noteq> info_length message \<or>
               frag_message_id f \<noteq> info_message_id message \<or> nat (frag_qos f) \<noteq> info_qos message \<or>
               frag_retain f \<noteq> info_retain message \<or> frag_duplicate f \<noteq> info_duplicate message \<or>
               (frag_data_length f = 0 \<and> frag_offset f \<noteq> 0) then Some (reject message)
            else do {
              payload \<leftarrow> (case frag_data f of None \<Rightarrow> Some payload
                          | Some d \<Rightarrow> if frag_data_length f = 0 then Some payload
                            else do { bs \<leftarrow> fetch d (nat (frag_data_length f)); store payload (received r) bs });
              let r = r\<lparr>received := received r + nat (frag_data_length f)\<rparr>;
              if received r = info_length message
              then Some (EMQTT_RX_COMPLETE, r\<lparr>active := False\<rparr>, message, payload)
              else Some (EMQTT_RX_MORE, r, message, payload)
            }
        })"

definition empty_info :: emqtt_message_info where
  "empty_info = \<lparr>info_topic = replicate 257 0, info_length = 0, info_message_id = 0, info_qos = 0,
     info_retain = False, info_duplicate = False\<rparr>"

definition emqtt_receive ::
  "emqtt_receiver option \<Rightarrow> emqtt_fragment option \<Rightarrow> (emqtt_rx_result \<times> emqtt_receiver option) option" where
  "emqtt_receive receiver f =
     (case receiver of None \<Rightarrow> Some (EMQTT_RX_REJECTED, None)
      | Some r \<Rightarrow>
        (case rcv_message r of None \<Rightarrow> Some (EMQTT_RX_REJECTED, emqtt_receive_reset receiver)
         | Some message \<Rightarrow> do {
             let info = (if rcv_active r then emqtt_message_info.truncate message else empty_info);
             (result, state, info, payload) \<leftarrow>
               emqtt_receive_into \<lparr>received = rcv_received r, active = rcv_active r\<rparr> info
                 (msg_payload message) (length (msg_payload message)) f;
             let message = message\<lparr>msg_payload := payload\<rparr>;
             let message = (if result \<noteq> EMQTT_RX_REJECTED
               then emqtt_message_info.extend info (emqtt_message.fields payload) else message);
             Some (result, Some \<lparr>rcv_message = Some message, rcv_received = received state, rcv_active = active state\<rparr>)
           }))"

section \<open>SUBACK\<close>

text \<open>The loop stops at the first code that is not granted; \<open>None\<close> is a read outside an array.\<close>

fun suback_loop :: "byte list \<Rightarrow> emqtt_subscription list \<Rightarrow> nat \<Rightarrow> bool option" where
  "suback_loop codes subs 0 = Some True"
| "suback_loop (c # codes) (s # subs) (Suc n) =
     (if unat c > 1 \<or> unat c > sub_qos s then Some False else suback_loop codes subs n)"
| "suback_loop _ _ (Suc n) = None"

definition emqtt_suback_valid ::
  "byte list option \<Rightarrow> nat \<Rightarrow> emqtt_subscription list option \<Rightarrow> nat \<Rightarrow> bool option" where
  "emqtt_suback_valid codes count subscriptions expected =
     (case (codes, subscriptions) of (Some cs, Some subs) \<Rightarrow>
        if expected = 0 \<or> expected > EMQTT_SUBSCRIPTIONS_MAX \<or> count \<noteq> expected then Some False
        else suback_loop cs subs count
      | _ \<Rightarrow> Some False)"

end
