(* ===== verification/Emqtt_Runtime.thy ===== *)
theory Emqtt_Runtime
  imports Emqtt_Contract Mqtt_Event
begin

text \<open>
  The single-owner runtime on top of the client: \<^verbatim>\<open>runtime/include/emqtt.h\<close> and
  \<^verbatim>\<open>runtime/emqtt.c\<close>.

  The state is the record \<open>emqtt_runtime\<close>; every function of the file is a function on it.
  Results are in \<open>option\<close>, \<open>None\<close> being an access outside an object. FreeRTOS queues are not
  part of the repository: their operations are the argument \<open>queue_ops\<close>, one for the queue of
  notices and one for the queue of free slots. What the platform and the SDK answer to a
  call (time, allocation, results of client functions) are further arguments. A handler is
  one step: the SDK task and the owner share only the queues, the fields under
  \<open>capacity_lock\<close> and the atomic flag.
\<close>

section \<open>Data model\<close>

datatype emqtt_state =
  EMQTT_STOPPED | EMQTT_CONNECTING | EMQTT_SUBSCRIBING | EMQTT_READY | EMQTT_DISCONNECTED | EMQTT_FAILED

datatype emqtt_error =
    EMQTT_ERROR_NONE | EMQTT_ERROR_TRANSPORT | EMQTT_ERROR_TLS | EMQTT_ERROR_AUTH | EMQTT_ERROR_BROKER
  | EMQTT_ERROR_SUBSCRIPTION | EMQTT_ERROR_FRAGMENT | EMQTT_ERROR_QUEUE | EMQTT_ERROR_EXPIRED | EMQTT_ERROR_SDK

text \<open>Event kinds are integers in the source, with \<open>NOTICE_SUBACK\<close> outside the enumeration.\<close>

datatype notice_kind =
    EMQTT_EVENT_CONNECTED | EMQTT_EVENT_READY | EMQTT_EVENT_DISCONNECTED | EMQTT_EVENT_MESSAGE
  | EMQTT_EVENT_PUBACK | EMQTT_EVENT_DELETED | EMQTT_EVENT_UNSUBSCRIBED | EMQTT_EVENT_ERROR | NOTICE_SUBACK

record emqtt_event =
  ev_kind :: notice_kind
  ev_error :: emqtt_error
  ev_message_id :: int
  ev_broker_code :: int
  ev_tls_flags :: int
  ev_message :: emqtt_message

record emqtt_capacity_stats =
  rx_peak_uptime_ms :: nat
  rx_peak_observed_until_uptime_ms :: nat
  last_outbox_full_uptime_ms :: nat
  runtime_instance :: "32 word"
  complete_owner_count :: "32 word"
  complete_payload_bytes :: "32 word"
  partial_declared_bytes :: "32 word"
  partial_received_bytes :: "32 word"
  owned_request_bytes :: "32 word"
  outbox_wire_bytes_at_rx_peak :: "32 word"
  outbox_full_count :: "32 word"
  last_outbox_full_payload_bytes :: "32 word"
  notice_count_high_water :: nat
  notice_full_count :: "32 word"
  owned_message_metadata_bytes :: "32 word"
  observation_storage_bytes :: "32 word"
  rx_peak_valid :: bool
  counters_valid :: bool

record notice =
  n_kind :: notice_kind
  n_message_id :: int
  n_slot :: int
  n_broker_code :: int
  n_tls_flags :: int
  n_arrived_us :: int
  n_error :: emqtt_error
  n_suback :: "byte list"
  n_suback_count :: nat

text \<open>A message with its own payload storage.\<close>

record emqtt_owned_message =
  own_info :: emqtt_message_info
  own_payload :: "byte list"

record ('nq, 'sq) emqtt_runtime =
  rt_owner :: nat
  rt_notices :: 'nq
  rt_free_slots :: 'sq
  rt_tls :: bool
  rt_ca_pem :: "byte list option"
  rt_ca_size_bytes :: nat
  rt_subscriptions :: "emqtt_subscription list"
  rt_subscription_count :: nat
  rt_receiver :: emqtt_receive_state
  rt_receiver_message :: "emqtt_owned_message option"
  rt_receiver_slot :: int
  rt_messages :: "emqtt_owned_message option list"
  rt_overflow :: bool
  rt_started :: bool
  rt_faulted :: bool
  rt_state :: emqtt_state
  rt_pending_subscribe :: int
  rt_pending_unsubscribe :: int
  rt_pending_subscribe_count :: nat
  rt_pending_unsubscribe_index :: nat
  rt_pending_subscription :: emqtt_subscription
  rt_pending_dynamic_subscribe :: bool
  rt_subscription_deadline_us :: int
  rt_capacity :: emqtt_capacity_stats

abbreviation (input) NOTICE_CAPACITY :: nat where "NOTICE_CAPACITY \<equiv> 16"
abbreviation (input) EMQTT_PUBLISH_PAYLOAD_MAX_BYTES :: nat where "EMQTT_PUBLISH_PAYLOAD_MAX_BYTES \<equiv> 5120"
abbreviation (input) MESSAGE_SLOTS :: nat where "MESSAGE_SLOTS \<equiv> 3"

text \<open>\<^verbatim>\<open>xQueueSend\<close>, \<^verbatim>\<open>xQueueReceive\<close>, \<^verbatim>\<open>xQueueReset\<close> and \<^verbatim>\<open>uxQueueMessagesWaiting\<close>, without waiting.\<close>

record ('q, 'a) queue_ops =
  xQueueSend :: "'q \<Rightarrow> 'a \<Rightarrow> bool \<times> 'q"
  xQueueReceive :: "'q \<Rightarrow> ('a \<times> 'q) option"
  xQueueReset :: "'q \<Rightarrow> 'q"
  uxQueueMessagesWaiting :: "'q \<Rightarrow> nat"

section \<open>Messages and slots\<close>

text \<open>Validity of the statistics and a counter of them.\<close>

definition capacity_increment :: "bool \<times> 32 word \<Rightarrow> bool \<times> 32 word" where
  "capacity_increment vc = (case vc of (valid, counter) \<Rightarrow>
     if counter = - 1 then (False, counter) else (valid, counter + 1))"

text \<open>The wiped storage of the released message; storage is \<open>length\<close> payload bytes.\<close>

definition release_dynamic_message :: "emqtt_owned_message option \<Rightarrow> byte list option" where
  "release_dynamic_message message =
     (case message of None \<Rightarrow> Some []
      | Some m \<Rightarrow> store (own_payload m) 0 (replicate (info_length (own_info m)) 0))"

definition detach_message_slot ::
  "('n, 's) emqtt_runtime \<Rightarrow> int \<Rightarrow> (emqtt_owned_message option \<times> ('n, 's) emqtt_runtime) option" where
  "detach_message_slot r slot =
     (if 0 \<le> slot \<and> slot < int (length (rt_messages r))
      then Some (rt_messages r ! nat slot, r\<lparr>rt_messages := (rt_messages r)[nat slot := None]\<rparr>)
      else None)"

definition give_slot :: "('s, int) queue_ops \<Rightarrow> ('n, 's) emqtt_runtime \<Rightarrow> int \<Rightarrow> ('n, 's) emqtt_runtime" where
  "give_slot sq r slot =
     (case xQueueSend sq (rt_free_slots r) slot of (sent, q) \<Rightarrow>
        let r = r\<lparr>rt_free_slots := q\<rparr> in if sent then r else r\<lparr>rt_overflow := True\<rparr>)"

definition release_message_slot ::
  "('s, int) queue_ops \<Rightarrow> ('n, 's) emqtt_runtime \<Rightarrow> int \<Rightarrow> ('n, 's) emqtt_runtime option" where
  "release_message_slot sq r slot = do {
     (message, r) \<leftarrow> detach_message_slot r slot;
     _ \<leftarrow> release_dynamic_message message;
     Some (give_slot sq r slot)
   }"

definition post ::
  "('n, notice) queue_ops \<Rightarrow> ('s, int) queue_ops \<Rightarrow> ('n, 's) emqtt_runtime \<Rightarrow> notice \<Rightarrow> ('n, 's) emqtt_runtime option" where
  "post nq sq r n =
     (case xQueueSend nq (rt_notices r) n of (posted, q) \<Rightarrow>
        let r = r\<lparr>rt_notices := q\<rparr>;
            count = uxQueueMessagesWaiting nq q;
            cap = rt_capacity r;
            cap = (if count > notice_count_high_water cap then cap\<lparr>notice_count_high_water := count\<rparr> else cap);
            cap = (if posted then cap
                   else case capacity_increment (counters_valid cap, notice_full_count cap) of (v, c) \<Rightarrow>
                     cap\<lparr>counters_valid := v, notice_full_count := c\<rparr>);
            r = r\<lparr>rt_capacity := cap\<rparr>
        in if posted then Some r
           else do {
             r \<leftarrow> (if n_slot n \<ge> 0 then release_message_slot sq r (n_slot n) else Some r);
             Some (r\<lparr>rt_overflow := True\<rparr>)
           })"

definition clear_pending :: "('n, 's) emqtt_runtime \<Rightarrow> ('n, 's) emqtt_runtime" where
  "clear_pending r = r\<lparr>rt_pending_subscribe := -1, rt_pending_unsubscribe := -1,
     rt_pending_subscribe_count := 0, rt_pending_unsubscribe_index := 0,
     rt_pending_dynamic_subscribe := False,
     rt_pending_subscription := \<lparr>sub_topic = replicate 257 0, sub_qos = 0\<rparr>,
     rt_subscription_deadline_us := 0\<rparr>"

definition release_receiver_slot ::
  "('s, int) queue_ops \<Rightarrow> ('n, 's) emqtt_runtime \<Rightarrow> ('n, 's) emqtt_runtime option" where
  "release_receiver_slot sq r =
     (let slot = rt_receiver_slot r; message = rt_receiver_message r;
          r = r\<lparr>rt_receiver_slot := -1, rt_receiver := \<lparr>received = 0, active = False\<rparr>, rt_receiver_message := None\<rparr>
      in do {
        _ \<leftarrow> release_dynamic_message message;
        Some (if slot \<ge> 0 then give_slot sq r slot else r)
      })"

section \<open>Capacity statistics\<close>

text \<open>
  \<open>sizeof_owned\<close> is \<^verbatim>\<open>sizeof(emqtt_owned_message_t)\<close>. Called with a receiver message only.
\<close>

definition capacity_note_partial ::
  "nat \<Rightarrow> int \<Rightarrow> nat \<Rightarrow> nat \<Rightarrow> ('n, 's) emqtt_runtime \<Rightarrow> ('n, 's) emqtt_runtime option" where
  "capacity_note_partial sizeof_owned outbox_bytes now_ms observed_until_ms r =
     (case rt_receiver_message r of None \<Rightarrow> None
      | Some partial \<Rightarrow>
        let owners = filter (\<lambda>m. m \<noteq> None) (rt_messages r);
            complete = of_nat (length owners) :: 32 word;
            payload = sum_list (map (\<lambda>m. of_nat (info_length (own_info (the m)))) owners) :: 32 word;
            declared = of_nat (info_length (own_info partial)) :: 32 word;
            recvd = of_nat (received (rt_receiver r)) :: 32 word;
            bytes = payload + declared + (complete + 1) * of_nat sizeof_owned;
            cap = rt_capacity r
        in Some (r\<lparr>rt_capacity :=
             (if outbox_bytes < 0 then cap\<lparr>counters_valid := False\<rparr>
              else if \<not> rx_peak_valid cap \<or> bytes > owned_request_bytes cap \<or>
                      (bytes = owned_request_bytes cap \<and> word_of_int outbox_bytes > outbox_wire_bytes_at_rx_peak cap)
              then cap\<lparr>rx_peak_uptime_ms := now_ms, rx_peak_observed_until_uptime_ms := observed_until_ms,
                     complete_owner_count := complete, complete_payload_bytes := payload,
                     partial_declared_bytes := declared, partial_received_bytes := recvd,
                     owned_request_bytes := bytes, outbox_wire_bytes_at_rx_peak := word_of_int outbox_bytes,
                     rx_peak_valid := True\<rparr>
              else cap)\<rparr>))"

section \<open>Events of the client\<close>

text \<open>
  \<open>on_event\<close>, called in the SDK task. \<open>alloc_ok\<close> is the outcome of the allocation of a
  receive buffer, \<open>outbox_bytes\<close> and the times are what the SDK and the timer answer.
\<close>

definition event_error_notice :: "notice \<Rightarrow> esp_mqtt_error_codes \<Rightarrow> notice" where
  "event_error_notice n e =
     (let n = n\<lparr>n_broker_code := connect_return_code e, n_tls_flags := esp_tls_cert_verify_flags e\<rparr>
      in case error_type e of
           MQTT_ERROR_TYPE_TCP_TRANSPORT \<Rightarrow>
             n\<lparr>n_error := (if esp_tls_cert_verify_flags e \<noteq> 0 \<or> esp_tls_stack_err e \<noteq> 0
                            then EMQTT_ERROR_TLS else EMQTT_ERROR_TRANSPORT)\<rparr>
         | MQTT_ERROR_TYPE_CONNECTION_REFUSED \<Rightarrow>
             n\<lparr>n_error := (if connect_return_code e = MQTT_CONNECTION_REFUSE_BAD_USERNAME \<or>
                              connect_return_code e = MQTT_CONNECTION_REFUSE_NOT_AUTHORIZED
                            then EMQTT_ERROR_AUTH else EMQTT_ERROR_BROKER)\<rparr>
         | MQTT_ERROR_TYPE_SUBSCRIBE_FAILED \<Rightarrow> n\<lparr>n_error := EMQTT_ERROR_SUBSCRIPTION\<rparr>
         | MQTT_ERROR_TYPE_NONE \<Rightarrow> n)"

definition suback_notice :: "notice \<Rightarrow> esp_mqtt_event \<Rightarrow> notice option" where
  "suback_notice n event =
     (case event_data event of
        Some d \<Rightarrow>
          if event_data_len event < 1 \<or> event_data_len event > int EMQTT_SUBSCRIPTIONS_MAX
          then Some (n\<lparr>n_error := EMQTT_ERROR_SUBSCRIPTION\<rparr>)
          else do {
            bs \<leftarrow> fetch d (nat (event_data_len event));
            suback \<leftarrow> store (n_suback n) 0 bs;
            Some (n\<lparr>n_suback_count := nat (event_data_len event), n_suback := suback\<rparr>)
          }
      | None \<Rightarrow> Some (n\<lparr>n_error := EMQTT_ERROR_SUBSCRIPTION\<rparr>))"

definition fragment_of_event :: "esp_mqtt_event \<Rightarrow> emqtt_fragment" where
  "fragment_of_event e = \<lparr>frag_topic = event_topic e, frag_topic_length = event_topic_len e,
     frag_data = event_data e, frag_data_length = event_data_len e,
     frag_total_length = event_total_data_len e, frag_offset = event_current_data_offset e,
     frag_message_id = event_msg_id e, frag_qos = event_qos e,
     frag_retain = event_retain e, frag_duplicate = event_dup e\<rparr>"

text \<open>A receive buffer for the first fragment: \<open>Inl\<close> ends the handler.\<close>

definition open_receiver ::
  "('s, int) queue_ops \<Rightarrow> bool \<Rightarrow> int \<Rightarrow> ('n, 's) emqtt_runtime \<Rightarrow>
     ('n, 's) emqtt_runtime + ('n, 's) emqtt_runtime" where
  "open_receiver sq alloc_ok total_len r =
     (let r = (case xQueueReceive sq (rt_free_slots r) of
                 None \<Rightarrow> r\<lparr>rt_receiver_slot := -1\<rparr>
               | Some (slot, q) \<Rightarrow> r\<lparr>rt_receiver_slot := slot, rt_free_slots := q\<rparr>)
      in if \<not> alloc_ok then
           let r = (if rt_receiver_slot r \<ge> 0
                    then r\<lparr>rt_free_slots := snd (xQueueSend sq (rt_free_slots r) (rt_receiver_slot r))\<rparr> else r)
           in Inl (r\<lparr>rt_receiver_slot := -1, rt_overflow := True\<rparr>)
         else Inr (r\<lparr>rt_receiver_message :=
           Some \<lparr>own_info = empty_info\<lparr>info_length := nat total_len\<rparr>, own_payload = replicate (nat total_len) 0\<rparr>\<rparr>))"

text \<open>The end of the data branch, after the fragment core has answered.\<close>

definition finish_fragment ::
  "('n, notice) queue_ops \<Rightarrow> ('s, int) queue_ops \<Rightarrow> notice \<Rightarrow> emqtt_rx_result \<Rightarrow> ('n, 's) emqtt_runtime \<Rightarrow>
     ('n, 's) emqtt_runtime option" where
  "finish_fragment nq sq n result r =
     (if result = EMQTT_RX_REJECTED then do {
        r \<leftarrow> release_receiver_slot sq r;
        post nq sq r (n\<lparr>n_kind := EMQTT_EVENT_ERROR, n_error := EMQTT_ERROR_FRAGMENT\<rparr>)
      }
      else
        let taken = (if rt_receiver_slot r < 0
                     then map_option (\<lambda>(slot, q). (slot, r\<lparr>rt_free_slots := q\<rparr>)) (xQueueReceive sq (rt_free_slots r))
                     else Some (rt_receiver_slot r, r))
        in case taken of
             None \<Rightarrow> do { r \<leftarrow> release_receiver_slot sq r; Some (r\<lparr>rt_overflow := True\<rparr>) }
           | Some (slot, r) \<Rightarrow>
               if 0 \<le> slot \<and> slot < int (length (rt_messages r)) then
                 post nq sq (r\<lparr>rt_messages := (rt_messages r)[nat slot := rt_receiver_message r],
                               rt_receiver_slot := -1, rt_receiver_message := None\<rparr>)
                   (n\<lparr>n_slot := slot, n_kind := EMQTT_EVENT_MESSAGE\<rparr>)
               else None)"

definition on_data ::
  "('n, notice) queue_ops \<Rightarrow> ('s, int) queue_ops \<Rightarrow> nat \<Rightarrow> bool \<Rightarrow> int \<Rightarrow> nat \<Rightarrow> nat \<Rightarrow>
     notice \<Rightarrow> esp_mqtt_event \<Rightarrow> ('n, 's) emqtt_runtime \<Rightarrow> ('n, 's) emqtt_runtime option" where
  "on_data nq sq sizeof_owned alloc_ok outbox_bytes now_ms until_ms n event r =
     (if rt_receiver_message r = None \<and>
         (event_total_data_len event < 0 \<or> event_total_data_len event > int EMQTT_PAYLOAD_MAX) then
        post nq sq r (n\<lparr>n_kind := EMQTT_EVENT_ERROR, n_error := EMQTT_ERROR_FRAGMENT\<rparr>)
      else
        case (if rt_receiver_message r = None
              then open_receiver sq alloc_ok (event_total_data_len event) r else Inr r) of
          Inl r \<Rightarrow> Some r
        | Inr r \<Rightarrow>
          (case rt_receiver_message r of None \<Rightarrow> None
           | Some m \<Rightarrow> do {
               (result, st, info, payload) \<leftarrow>
                 emqtt_receive_into (rt_receiver r) (own_info m) (own_payload m) (info_length (own_info m))
                   (Some (fragment_of_event event));
               let r = r\<lparr>rt_receiver := st, rt_receiver_message := Some \<lparr>own_info = info, own_payload = payload\<rparr>\<rparr>;
               if result = EMQTT_RX_MORE then capacity_note_partial sizeof_owned outbox_bytes now_ms until_ms r
               else finish_fragment nq sq n result r
             }))"

definition on_event ::
  "('n, notice) queue_ops \<Rightarrow> ('s, int) queue_ops \<Rightarrow> nat \<Rightarrow> bool \<Rightarrow> int \<Rightarrow> int \<Rightarrow> nat \<Rightarrow> nat \<Rightarrow>
     esp_mqtt_event \<Rightarrow> ('n, 's) emqtt_runtime \<Rightarrow> ('n, 's) emqtt_runtime option" where
  "on_event nq sq sizeof_owned alloc_ok outbox_bytes now_us now_ms until_ms event r =
     (let n = \<lparr>n_kind = EMQTT_EVENT_CONNECTED, n_message_id = event_msg_id event, n_slot = -1,
               n_broker_code = 0, n_tls_flags = 0, n_arrived_us = now_us, n_error = EMQTT_ERROR_NONE,
               n_suback = replicate EMQTT_SUBSCRIPTIONS_MAX 0, n_suback_count = 0\<rparr>
      in case event_id event of
           MQTT_EVENT_CONNECTED \<Rightarrow>
             do { r \<leftarrow> release_receiver_slot sq r; post nq sq r (n\<lparr>n_kind := EMQTT_EVENT_CONNECTED\<rparr>) }
         | MQTT_EVENT_DISCONNECTED \<Rightarrow>
             do { r \<leftarrow> release_receiver_slot sq r; post nq sq r (n\<lparr>n_kind := EMQTT_EVENT_DISCONNECTED\<rparr>) }
         | MQTT_EVENT_SUBSCRIBED \<Rightarrow>
             do { n \<leftarrow> suback_notice (n\<lparr>n_kind := NOTICE_SUBACK\<rparr>) event; post nq sq r n }
         | MQTT_EVENT_UNSUBSCRIBED \<Rightarrow> post nq sq r (n\<lparr>n_kind := EMQTT_EVENT_UNSUBSCRIBED\<rparr>)
         | MQTT_EVENT_PUBLISHED \<Rightarrow> post nq sq r (n\<lparr>n_kind := EMQTT_EVENT_PUBACK\<rparr>)
         | MQTT_EVENT_DELETED \<Rightarrow>
             post nq sq r (n\<lparr>n_kind := EMQTT_EVENT_DELETED, n_error := EMQTT_ERROR_EXPIRED\<rparr>)
         | MQTT_EVENT_ERROR \<Rightarrow>
             (let n = n\<lparr>n_kind := EMQTT_EVENT_ERROR, n_error := EMQTT_ERROR_SDK\<rparr>
              in post nq sq r (case event_error_handle event of None \<Rightarrow> n | Some e \<Rightarrow> event_error_notice n e))
         | MQTT_EVENT_DATA \<Rightarrow> on_data nq sq sizeof_owned alloc_ok outbox_bytes now_ms until_ms n event r
         | _ \<Rightarrow> Some r)"

section \<open>Owner side\<close>

text \<open>The loop over the message slots in \<open>drain\<close>.\<close>

fun drain_slots :: "nat list \<Rightarrow> ('n, 's) emqtt_runtime \<Rightarrow> ('n, 's) emqtt_runtime option" where
  "drain_slots [] r = Some r"
| "drain_slots (i # is) r = do {
     (message, r) \<leftarrow> detach_message_slot r (int i);
     _ \<leftarrow> release_dynamic_message message;
     drain_slots is r
   }"

definition drain ::
  "('n, notice) queue_ops \<Rightarrow> ('s, int) queue_ops \<Rightarrow> ('n, 's) emqtt_runtime \<Rightarrow> ('n, 's) emqtt_runtime option" where
  "drain nq sq r = do {
     r \<leftarrow> release_receiver_slot sq r;
     let r = r\<lparr>rt_notices := xQueueReset nq (rt_notices r)\<rparr>;
     r \<leftarrow> drain_slots [0..<MESSAGE_SLOTS] r;
     let r = r\<lparr>rt_free_slots := fold (\<lambda>i q. snd (xQueueSend sq q (int i))) [0..<MESSAGE_SLOTS]
                 (xQueueReset sq (rt_free_slots r))\<rparr>;
     let r = clear_pending (r\<lparr>rt_overflow := False\<rparr>);
     Some (r\<lparr>rt_faulted := False\<rparr>)
   }"

definition api_result :: "int \<Rightarrow> esp_err" where
  "api_result n = (if n = -2 then ESP_ERR_EMQTT_OUTBOX_FULL else if n < 0 then ESP_FAIL else ESP_OK)"

text \<open>
  \<open>own\<close> is the result of \<open>owned(r)\<close>: the handle is the live instance and the caller its task.
\<close>

definition owned :: "('n, 's) emqtt_runtime option \<Rightarrow> bool \<Rightarrow> nat \<Rightarrow> bool" where
  "owned r is_instance task = (case r of None \<Rightarrow> False | Some r \<Rightarrow> is_instance \<and> rt_owner r = task)"

definition emqtt_start ::
  "('n, notice) queue_ops \<Rightarrow> ('s, int) queue_ops \<Rightarrow> bool \<Rightarrow> bool \<Rightarrow> bool \<Rightarrow> esp_err \<Rightarrow>
     ('n, 's) emqtt_runtime \<Rightarrow> (esp_err \<times> ('n, 's) emqtt_runtime) option" where
  "emqtt_start nq sq own network_ready trusted_time_ready sdk_start r =
     (if \<not> own \<or> rt_started r \<or> \<not> network_ready then Some (ESP_ERR_INVALID_STATE, r)
      else if rt_tls r \<and> \<not> trusted_time_ready then Some (ESP_ERR_EMQTT_TIME_REQUIRED, r)
      else do {
        r \<leftarrow> drain nq sq r;
        if sdk_start \<noteq> ESP_OK then Some (sdk_start, r\<lparr>rt_state := EMQTT_FAILED\<rparr>)
        else Some (ESP_OK, r\<lparr>rt_started := True, rt_state := EMQTT_CONNECTING\<rparr>)
      })"

definition emqtt_stop ::
  "('n, notice) queue_ops \<Rightarrow> ('s, int) queue_ops \<Rightarrow> bool \<Rightarrow> esp_err \<Rightarrow>
     ('n, 's) emqtt_runtime \<Rightarrow> (esp_err \<times> ('n, 's) emqtt_runtime) option" where
  "emqtt_stop nq sq own sdk_stop r =
     (if \<not> own then Some (ESP_ERR_INVALID_STATE, r)
      else if rt_started r \<and> sdk_stop \<noteq> ESP_OK then Some (sdk_stop, r\<lparr>rt_state := EMQTT_FAILED\<rparr>)
      else do {
        r \<leftarrow> drain nq sq (if rt_started r then r\<lparr>rt_started := False\<rparr> else r);
        Some (ESP_OK, r\<lparr>rt_state := EMQTT_STOPPED\<rparr>)
      })"

text \<open>
  \<open>subscribe_multiple\<close> is \<^verbatim>\<open>esp_mqtt_client_subscribe_multiple\<close> of the client, as a function of
  the topics. The local array has eight entries.
\<close>

type_synonym esp_mqtt_topics = "(byte list \<times> nat) list"

definition submit_subscriptions ::
  "(esp_mqtt_topics \<Rightarrow> int) \<Rightarrow> int \<Rightarrow> ('n, 's) emqtt_runtime \<Rightarrow> emqtt_subscription list \<Rightarrow> nat \<Rightarrow> bool \<Rightarrow>
     (esp_err \<times> ('n, 's) emqtt_runtime) option" where
  "submit_subscriptions subscribe_multiple now_us r subscriptions count dynamic =
     (if count = 0 then Some (ESP_OK, r\<lparr>rt_state := EMQTT_READY\<rparr>)
      else if count > EMQTT_SUBSCRIPTIONS_MAX \<or> count > length subscriptions then None
      else
        let topics = map (\<lambda>s. (sub_topic s, sub_qos s)) (take count subscriptions);
            ident = subscribe_multiple topics
        in if ident \<le> 0
           then Some (if ident = 0 then ESP_FAIL else api_result ident, r\<lparr>rt_state := EMQTT_FAILED\<rparr>)
           else Some (ESP_OK, r\<lparr>rt_pending_subscribe := ident, rt_pending_subscribe_count := count,
                        rt_pending_dynamic_subscribe := dynamic,
                        rt_subscription_deadline_us := now_us + 10000000, rt_state := EMQTT_SUBSCRIBING\<rparr>))"

definition fail_closed ::
  "('n, notice) queue_ops \<Rightarrow> ('s, int) queue_ops \<Rightarrow> esp_err \<Rightarrow> ('n, 's) emqtt_runtime \<Rightarrow> ('n, 's) emqtt_runtime option" where
  "fail_closed nq sq sdk_stop r = do {
     (_, r) \<leftarrow> emqtt_stop nq sq True sdk_stop r;
     Some (r\<lparr>rt_faulted := True, rt_state := EMQTT_FAILED\<rparr>)
   }"

definition empty_event :: emqtt_event where
  "empty_event = \<lparr>ev_kind = EMQTT_EVENT_CONNECTED, ev_error = EMQTT_ERROR_NONE, ev_message_id = 0,
     ev_broker_code = 0, ev_tls_flags = 0,
     ev_message = emqtt_message_info.extend empty_info (emqtt_message.fields (replicate EMQTT_PAYLOAD_MAX 0))\<rparr>"

definition fail_event :: "emqtt_error \<Rightarrow> emqtt_event" where
  "fail_event e = empty_event\<lparr>ev_kind := EMQTT_EVENT_ERROR, ev_error := e\<rparr>"

text \<open>The branches of the switch in \<open>emqtt_poll\<close>.\<close>

definition poll_connected ::
  "('n, notice) queue_ops \<Rightarrow> ('s, int) queue_ops \<Rightarrow> esp_err \<Rightarrow> (esp_mqtt_topics \<Rightarrow> int) \<Rightarrow> int \<Rightarrow> emqtt_event \<Rightarrow>
     ('n, 's) emqtt_runtime \<Rightarrow> (emqtt_event \<times> ('n, 's) emqtt_runtime) option" where
  "poll_connected nq sq sdk_stop subscribe_multiple now_us out r = do {
     (err, r) \<leftarrow> submit_subscriptions subscribe_multiple now_us (clear_pending r)
                  (rt_subscriptions r) (rt_subscription_count r) False;
     if err \<noteq> ESP_OK then do {
       r \<leftarrow> fail_closed nq sq sdk_stop r;
       Some (out\<lparr>ev_kind := EMQTT_EVENT_ERROR, ev_error := EMQTT_ERROR_SUBSCRIPTION\<rparr>, r)
     }
     else Some (if rt_subscription_count r = 0 then out\<lparr>ev_kind := EMQTT_EVENT_READY\<rparr> else out, r)
   }"

definition poll_suback ::
  "('n, notice) queue_ops \<Rightarrow> ('s, int) queue_ops \<Rightarrow> esp_err \<Rightarrow> notice \<Rightarrow> emqtt_event \<Rightarrow>
     ('n, 's) emqtt_runtime \<Rightarrow> (emqtt_event \<times> ('n, 's) emqtt_runtime) option" where
  "poll_suback nq sq sdk_stop n out r = do {
     granted \<leftarrow>
       (if rt_pending_subscribe r \<le> 0 \<or> n_message_id n \<noteq> rt_pending_subscribe r \<or>
           rt_state r \<noteq> EMQTT_SUBSCRIBING \<or> n_error n \<noteq> EMQTT_ERROR_NONE then Some False
        else emqtt_suback_valid (Some (n_suback n)) (n_suback_count n)
          (Some (if rt_pending_dynamic_subscribe r then [rt_pending_subscription r] else rt_subscriptions r))
          (rt_pending_subscribe_count r));
     (out, r) \<leftarrow>
       (if \<not> granted then do {
          r \<leftarrow> fail_closed nq sq sdk_stop r;
          Some (out\<lparr>ev_kind := EMQTT_EVENT_ERROR, ev_error := EMQTT_ERROR_SUBSCRIPTION\<rparr>, r)
        }
        else if rt_pending_dynamic_subscribe r then
          if rt_subscription_count r < length (rt_subscriptions r) then
            Some (out\<lparr>ev_kind := EMQTT_EVENT_READY\<rparr>,
                  r\<lparr>rt_subscriptions := (rt_subscriptions r)[rt_subscription_count r := rt_pending_subscription r],
                    rt_subscription_count := rt_subscription_count r + 1, rt_state := EMQTT_READY\<rparr>)
          else None
        else Some (out\<lparr>ev_kind := EMQTT_EVENT_READY\<rparr>, r\<lparr>rt_state := EMQTT_READY\<rparr>));
     Some (out, clear_pending r)
   }"

text \<open>\<open>memmove\<close> of the entries behind the removed one; the last array entry keeps its value.\<close>

definition remove_subscription :: "('n, 's) emqtt_runtime \<Rightarrow> ('n, 's) emqtt_runtime option" where
  "remove_subscription r =
     (let i = rt_pending_unsubscribe_index r; c = rt_subscription_count r; subs = rt_subscriptions r
      in if i < c \<and> c \<le> length subs
         then Some (r\<lparr>rt_subscriptions := take i subs @ drop (i + 1) (take c subs) @ drop (c - 1) subs,
                      rt_subscription_count := c - 1\<rparr>)
         else None)"

definition poll_unsubscribed ::
  "('n, notice) queue_ops \<Rightarrow> ('s, int) queue_ops \<Rightarrow> esp_err \<Rightarrow> notice \<Rightarrow> emqtt_event \<Rightarrow>
     ('n, 's) emqtt_runtime \<Rightarrow> (emqtt_event \<times> ('n, 's) emqtt_runtime) option" where
  "poll_unsubscribed nq sq sdk_stop n out r = do {
     (out, r) \<leftarrow>
       (if rt_pending_unsubscribe r \<le> 0 \<or> n_message_id n \<noteq> rt_pending_unsubscribe r \<or>
           rt_state r \<noteq> EMQTT_SUBSCRIBING then do {
          r \<leftarrow> fail_closed nq sq sdk_stop r;
          Some (out\<lparr>ev_kind := EMQTT_EVENT_ERROR, ev_error := EMQTT_ERROR_SUBSCRIPTION\<rparr>, r)
        }
        else do { r \<leftarrow> remove_subscription r; Some (out, r\<lparr>rt_state := EMQTT_READY\<rparr>) });
     Some (out, clear_pending r)
   }"

definition poll_message ::
  "('s, int) queue_ops \<Rightarrow> notice \<Rightarrow> emqtt_event \<Rightarrow> ('n, 's) emqtt_runtime \<Rightarrow>
     (emqtt_event \<times> ('n, 's) emqtt_runtime) option" where
  "poll_message sq n out r =
     (if 0 \<le> n_slot n \<and> n_slot n < int (length (rt_messages r)) then
        (case rt_messages r ! nat (n_slot n) of None \<Rightarrow> None
         | Some m \<Rightarrow> do {
             bs \<leftarrow> fetch (own_payload m) (info_length (own_info m));
             payload \<leftarrow> store (msg_payload (ev_message out)) 0 bs;
             r \<leftarrow> release_message_slot sq r (n_slot n);
             Some (out\<lparr>ev_message := emqtt_message_info.extend (own_info m) (emqtt_message.fields payload)\<rparr>, r)
           })
      else None)"

text \<open>The switch of \<open>emqtt_poll\<close>, and the event it starts from.\<close>

definition polled_event :: "notice \<Rightarrow> emqtt_event" where
  "polled_event n = empty_event\<lparr>ev_kind := n_kind n, ev_message_id := n_message_id n, ev_error := n_error n,
     ev_broker_code := n_broker_code n, ev_tls_flags := n_tls_flags n\<rparr>"

definition poll_dispatch ::
  "('n, notice) queue_ops \<Rightarrow> ('s, int) queue_ops \<Rightarrow> esp_err \<Rightarrow> (esp_mqtt_topics \<Rightarrow> int) \<Rightarrow> int \<Rightarrow> notice \<Rightarrow>
     emqtt_event \<Rightarrow> ('n, 's) emqtt_runtime \<Rightarrow> (emqtt_event \<times> ('n, 's) emqtt_runtime) option" where
  "poll_dispatch nq sq sdk_stop subscribe_multiple now_us n out r =
     (case n_kind n of
        EMQTT_EVENT_CONNECTED \<Rightarrow> poll_connected nq sq sdk_stop subscribe_multiple now_us out r
      | NOTICE_SUBACK \<Rightarrow> poll_suback nq sq sdk_stop n out r
      | EMQTT_EVENT_UNSUBSCRIBED \<Rightarrow> poll_unsubscribed nq sq sdk_stop n out r
      | EMQTT_EVENT_DISCONNECTED \<Rightarrow> Some (out, (clear_pending r)\<lparr>rt_state := EMQTT_DISCONNECTED\<rparr>)
      | EMQTT_EVENT_MESSAGE \<Rightarrow> poll_message sq n out r
      | EMQTT_EVENT_ERROR \<Rightarrow>
          if n_error n = EMQTT_ERROR_SUBSCRIPTION
          then do { r \<leftarrow> fail_closed nq sq sdk_stop r; Some (out, r) }
          else Some (out, if n_error n \<noteq> EMQTT_ERROR_FRAGMENT then r\<lparr>rt_state := EMQTT_FAILED\<rparr> else r)
      | _ \<Rightarrow> Some (out, r))"

text \<open>
  \<open>None\<close> inside is \<open>return false\<close>: no event. Here \<open>own\<close> includes that \<open>out\<close> is not null.
\<close>

definition emqtt_poll ::
  "('n, notice) queue_ops \<Rightarrow> ('s, int) queue_ops \<Rightarrow> bool \<Rightarrow> esp_err \<Rightarrow> (esp_mqtt_topics \<Rightarrow> int) \<Rightarrow> int \<Rightarrow>
     ('n, 's) emqtt_runtime \<Rightarrow> (emqtt_event option \<times> ('n, 's) emqtt_runtime) option" where
  "emqtt_poll nq sq own sdk_stop subscribe_multiple now_us r =
     (if \<not> own \<or> rt_faulted r then Some (None, r)
      else if rt_overflow r then do {
        r \<leftarrow> fail_closed nq sq sdk_stop (r\<lparr>rt_overflow := False\<rparr>);
        Some (Some (fail_event EMQTT_ERROR_QUEUE), r)
      }
      else case xQueueReceive nq (rt_notices r) of
        None \<Rightarrow>
          if rt_state r \<noteq> EMQTT_SUBSCRIBING \<or> now_us < rt_subscription_deadline_us r then Some (None, r)
          else do { r \<leftarrow> fail_closed nq sq sdk_stop r; Some (Some (fail_event EMQTT_ERROR_SUBSCRIPTION), r) }
      | Some (n, q) \<Rightarrow>
          let r = r\<lparr>rt_notices := q\<rparr> in
          if rt_state r = EMQTT_SUBSCRIBING \<and> n_arrived_us n \<ge> rt_subscription_deadline_us r then do {
            r \<leftarrow> fail_closed nq sq sdk_stop r;
            Some (Some (fail_event EMQTT_ERROR_SUBSCRIPTION), r)
          }
          else do {
            (out, r) \<leftarrow> poll_dispatch nq sq sdk_stop subscribe_multiple now_us n (polled_event n) r;
            Some (Some out, r)
          })"

definition emqtt_state_of :: "bool \<Rightarrow> ('n, 's) emqtt_runtime \<Rightarrow> emqtt_state" where
  "emqtt_state_of own r = (if own then rt_state r else EMQTT_FAILED)"

section \<open>Publishing and dynamic subscriptions\<close>

text \<open>
  \<open>enqueue\<close> and \<open>unsubscribe\<close> are \<^verbatim>\<open>esp_mqtt_client_enqueue\<close> and
  \<^verbatim>\<open>esp_mqtt_client_unsubscribe\<close> of the client. \<^verbatim>\<open>strnlen\<close> is \<open>bounded_length\<close>. The result of
  \<open>emqtt_enqueue\<close> carries what is written through \<open>message_id\<close>.
\<close>

definition note_outbox_full :: "nat \<Rightarrow> nat \<Rightarrow> emqtt_capacity_stats \<Rightarrow> emqtt_capacity_stats" where
  "note_outbox_full len now_ms cap =
     (case capacity_increment (counters_valid cap, outbox_full_count cap) of (v, c) \<Rightarrow>
        cap\<lparr>counters_valid := v, outbox_full_count := c, last_outbox_full_payload_bytes := of_nat len,
            last_outbox_full_uptime_ms := now_ms\<rparr>)"

definition emqtt_enqueue ::
  "bool \<Rightarrow> (byte list \<Rightarrow> byte list option \<Rightarrow> int \<Rightarrow> nat \<Rightarrow> bool \<Rightarrow> int) \<Rightarrow> nat \<Rightarrow> ('n, 's) emqtt_runtime \<Rightarrow>
     byte list option \<Rightarrow> byte list option \<Rightarrow> nat \<Rightarrow> nat \<Rightarrow> bool \<Rightarrow> bool \<Rightarrow>
     (esp_err \<times> int option \<times> ('n, 's) emqtt_runtime) option" where
  "emqtt_enqueue own enqueue now_ms r topic payload len qos retain message_id_null =
     (if \<not> own \<or> \<not> rt_started r \<or> rt_state r = EMQTT_FAILED then Some (ESP_ERR_INVALID_STATE, None, r)
      else do {
        topic_ok \<leftarrow> (case topic of None \<Rightarrow> Some False
          | Some t \<Rightarrow>
              if message_id_null then Some False
              else do { n \<leftarrow> bounded_length t (EMQTT_TOPIC_MAX + 1); emqtt_topic_valid topic n False });
        if \<not> topic_ok \<or> len > EMQTT_PUBLISH_PAYLOAD_MAX_BYTES \<or> (payload = None \<and> len \<noteq> 0) \<or> qos > 1
        then Some (ESP_ERR_INVALID_ARG, None, r)
        else
          let ident = enqueue (the topic) (if len \<noteq> 0 then payload else None) (int len) qos retain;
              error = api_result ident;
              r = (if error = ESP_ERR_EMQTT_OUTBOX_FULL
                   then r\<lparr>rt_capacity := note_outbox_full len now_ms (rt_capacity r)\<rparr> else r)
          in Some (error, if error = ESP_OK then Some ident else None, r)
      })"

text \<open>The position of the first entry with this filter, or the number of entries.\<close>

fun find_subscription :: "byte list \<Rightarrow> emqtt_subscription list \<Rightarrow> nat option" where
  "find_subscription flt [] = Some 0"
| "find_subscription flt (s # ss) = do {
     eq \<leftarrow> strings_equal flt (sub_topic s);
     if eq then Some 0 else map_option Suc (find_subscription flt ss)
   }"

definition filter_argument_valid :: "byte list option \<Rightarrow> bool option" where
  "filter_argument_valid flt =
     (case flt of None \<Rightarrow> Some False
      | Some f \<Rightarrow> do { n \<leftarrow> bounded_length f (EMQTT_TOPIC_MAX + 1); emqtt_topic_valid flt n True })"

text \<open>\<^verbatim>\<open>strcpy\<close> copies the text and its terminating zero into the array.\<close>

definition emqtt_subscribe ::
  "('n, notice) queue_ops \<Rightarrow> ('s, int) queue_ops \<Rightarrow> bool \<Rightarrow> esp_err \<Rightarrow> (esp_mqtt_topics \<Rightarrow> int) \<Rightarrow> int \<Rightarrow>
     ('n, 's) emqtt_runtime \<Rightarrow> byte list option \<Rightarrow> nat \<Rightarrow> (esp_err \<times> ('n, 's) emqtt_runtime) option" where
  "emqtt_subscribe nq sq own sdk_stop subscribe_multiple now_us r flt qos =
     (if \<not> own \<or> rt_state r \<noteq> EMQTT_READY then Some (ESP_ERR_INVALID_STATE, r)
      else do {
        ok \<leftarrow> (if qos > 1 then Some False else filter_argument_valid flt);
        if \<not> ok \<or> rt_subscription_count r = EMQTT_SUBSCRIPTIONS_MAX then Some (ESP_ERR_INVALID_ARG, r)
        else do {
          fresh \<leftarrow> no_duplicate (the flt) (take (rt_subscription_count r) (rt_subscriptions r));
          if \<not> fresh then Some (ESP_ERR_INVALID_ARG, r)
          else do {
            n \<leftarrow> strlen (the flt);
            topic \<leftarrow> store (sub_topic (rt_pending_subscription r)) 0 (take (n + 1) (the flt));
            let r = r\<lparr>rt_pending_subscription := \<lparr>sub_topic = topic, sub_qos = qos\<rparr>\<rparr>;
            (error, r) \<leftarrow> submit_subscriptions subscribe_multiple now_us r [rt_pending_subscription r] 1 True;
            r \<leftarrow> (if error \<noteq> ESP_OK then fail_closed nq sq sdk_stop r else Some r);
            Some (error, r)
          }
        }
      })"

definition emqtt_unsubscribe ::
  "('n, notice) queue_ops \<Rightarrow> ('s, int) queue_ops \<Rightarrow> bool \<Rightarrow> esp_err \<Rightarrow> (byte list \<Rightarrow> int) \<Rightarrow> int \<Rightarrow>
     ('n, 's) emqtt_runtime \<Rightarrow> byte list option \<Rightarrow> (esp_err \<times> ('n, 's) emqtt_runtime) option" where
  "emqtt_unsubscribe nq sq own sdk_stop unsubscribe now_us r flt =
     (if \<not> own \<or> rt_state r \<noteq> EMQTT_READY then Some (ESP_ERR_INVALID_STATE, r)
      else do {
        ok \<leftarrow> filter_argument_valid flt;
        if \<not> ok then Some (ESP_ERR_INVALID_ARG, r)
        else do {
          index \<leftarrow> find_subscription (the flt) (take (rt_subscription_count r) (rt_subscriptions r));
          if index = rt_subscription_count r then Some (ESP_ERR_INVALID_ARG, r)
          else
            let ident = unsubscribe (the flt)
            in if ident \<le> 0 then do {
                 r \<leftarrow> fail_closed nq sq sdk_stop r;
                 Some (if ident = 0 then ESP_FAIL else api_result ident, r)
               }
               else Some (ESP_OK, r\<lparr>rt_pending_unsubscribe := ident, rt_pending_unsubscribe_index := index,
                            rt_subscription_deadline_us := now_us + 10000000, rt_state := EMQTT_SUBSCRIBING\<rparr>)
        }
      })"

definition emqtt_outbox_size :: "bool \<Rightarrow> int \<Rightarrow> int" where
  "emqtt_outbox_size own sdk_outbox_size = (if own then sdk_outbox_size else -1)"

definition emqtt_get_capacity_snapshot :: "bool \<Rightarrow> ('n, 's) emqtt_runtime \<Rightarrow> emqtt_capacity_stats option" where
  "emqtt_get_capacity_snapshot own r = (if own then Some (rt_capacity r) else None)"

section \<open>Creation and destruction\<close>

text \<open>The file's static variables.\<close>

record ('n, 's) emqtt_statics =
  s_instance :: "('n, 's) emqtt_runtime option"
  s_runtime_instance :: "32 word"

definition release_ca :: "('n, 's) emqtt_runtime \<Rightarrow> ('n, 's) emqtt_runtime option" where
  "release_ca r = do {
     _ \<leftarrow> (case rt_ca_pem r of None \<Rightarrow> Some [] | Some b \<Rightarrow> store b 0 (replicate (rt_ca_size_bytes r) 0));
     Some (r\<lparr>rt_ca_pem := None, rt_ca_size_bytes := 0\<rparr>)
   }"

definition zero_subscription :: emqtt_subscription where
  "zero_subscription = \<lparr>sub_topic = replicate 257 0, sub_qos = 0\<rparr>"

definition zero_capacity :: emqtt_capacity_stats where
  "zero_capacity = \<lparr>rx_peak_uptime_ms = 0, rx_peak_observed_until_uptime_ms = 0, last_outbox_full_uptime_ms = 0,
     runtime_instance = 0, complete_owner_count = 0, complete_payload_bytes = 0, partial_declared_bytes = 0,
     partial_received_bytes = 0, owned_request_bytes = 0, outbox_wire_bytes_at_rx_peak = 0, outbox_full_count = 0,
     last_outbox_full_payload_bytes = 0, notice_count_high_water = 0, notice_full_count = 0,
     owned_message_metadata_bytes = 0, observation_storage_bytes = 0, rx_peak_valid = False, counters_valid = False\<rparr>"

text \<open>The zeroed structure with the fields set up to the creation of the queues.\<close>

definition new_runtime ::
  "emqtt_config \<Rightarrow> nat \<Rightarrow> (byte list \<times> nat) option \<Rightarrow> 'n \<Rightarrow> 's \<Rightarrow> ('n, 's) emqtt_runtime" where
  "new_runtime c task ca notices free_slots =
     \<lparr>rt_owner = task, rt_notices = notices, rt_free_slots = free_slots, rt_tls = cfg_tls c,
      rt_ca_pem = map_option fst ca, rt_ca_size_bytes = (case ca of None \<Rightarrow> 0 | Some (_, n) \<Rightarrow> n),
      rt_subscriptions = take (cfg_subscription_count c) (cfg_subscriptions c) @
        replicate (EMQTT_SUBSCRIPTIONS_MAX - cfg_subscription_count c) zero_subscription,
      rt_subscription_count = cfg_subscription_count c,
      rt_receiver = \<lparr>received = 0, active = False\<rparr>, rt_receiver_message = None, rt_receiver_slot = -1,
      rt_messages = replicate MESSAGE_SLOTS None, rt_overflow = False, rt_started = False, rt_faulted = False,
      rt_state = EMQTT_STOPPED, rt_pending_subscribe = 0, rt_pending_unsubscribe = 0,
      rt_pending_subscribe_count = 0, rt_pending_unsubscribe_index = 0,
      rt_pending_subscription = zero_subscription, rt_pending_dynamic_subscribe = False,
      rt_subscription_deadline_us = 0, rt_capacity = zero_capacity\<rparr>"

text \<open>The configuration passed to the client; the certificate is the owned copy.\<close>

definition official_config :: "emqtt_config \<Rightarrow> byte list option \<Rightarrow> esp_mqtt_client_config" where
  "official_config c ca_pem =
     (let user = (cfg_username c ! 0 \<noteq> 0) in
      \<lparr>address_uri = None, address_hostname = Some (cfg_hostname c),
       address_transport = (if cfg_tls c then MQTT_TRANSPORT_OVER_SSL else MQTT_TRANSPORT_OVER_TCP),
       address_path = None, address_port = cfg_port c,
       verification_certificate = (if cfg_tls c then ca_pem else None),
       verification_skip_cert_common_name_check = False,
       credentials_username = (if user then Some (cfg_username c) else None),
       credentials_client_id = Some (cfg_client_id c), credentials_set_null_client_id = False,
       credentials_password = (if user then Some (cfg_password c) else None),
       will_topic_ptr = Some (cfg_will_topic c),
       will_msg_ptr = Some (if cfg_will_length c \<noteq> 0 then cfg_will_payload c else [0]),
       will_msg_len = int (cfg_will_length c), will_qos_cfg = int (cfg_will_qos c),
       will_retain_cfg = (if cfg_will_retain c then 1 else 0),
       session_disable_clean_session = False, session_keepalive = 30, session_disable_keepalive = False,
       session_protocol_ver = MQTT_PROTOCOL_V_3_1_1, session_message_retransmit_timeout = 5000,
       network_reconnect_timeout_ms = 2000, network_timeout_ms = 3000, network_refresh_connection_after_ms = 0,
       network_disable_auto_reconnect = False, task_priority = 5, task_stack_size = 6144,
       buffer_size_cfg = 1024, buffer_out_size_cfg = 2304, outbox_limit_cfg = 16384\<rparr>)"

text \<open>
  \<open>alloc_rt\<close> and \<open>alloc_ca\<close> are the outcomes of the two allocations, \<open>notices\<close> and
  \<open>free_slots\<close> those of the queue creations, \<open>client_init\<close> (whether the client with this
  configuration is created) and \<open>registered\<close> those of the client; \<open>sizes\<close> are the sizes of a message header and of the observation storage. The
  failure path wipes and frees the structure, so no instance remains.
\<close>

definition emqtt_create ::
  "('n, notice) queue_ops \<Rightarrow> ('s, int) queue_ops \<Rightarrow> bool \<Rightarrow> nat \<Rightarrow> bool \<Rightarrow> bool \<Rightarrow> 'n option \<Rightarrow> 's option \<Rightarrow>
     (esp_mqtt_client_config \<Rightarrow> bool) \<Rightarrow> esp_err \<Rightarrow> nat \<times> nat \<Rightarrow> emqtt_config option \<Rightarrow> bool \<Rightarrow> ('n, 's) emqtt_statics \<Rightarrow>
     (esp_err \<times> ('n, 's) emqtt_statics) option" where
  "emqtt_create nq sq lab task alloc_rt alloc_ca notices free_slots client_init registered sizes config out_null w = do {
     valid \<leftarrow> (if out_null then Some False else emqtt_config_valid config lab);
     if \<not> valid then Some (ESP_ERR_INVALID_ARG, w)
     else if s_instance w \<noteq> None then Some (ESP_ERR_INVALID_STATE, w)
     else if \<not> alloc_rt then Some (ESP_ERR_NO_MEM, w)
     else do {
       let c = the config;
       ca \<leftarrow> (if cfg_tls c then do {
                n \<leftarrow> strlen (cfg_ca_pem c);
                Some (Some (take (n + 1) (cfg_ca_pem c), n + 1))
              } else Some None);
       case (if ca \<noteq> None \<and> \<not> alloc_ca then None else notices, free_slots) of
         (Some n, Some f) \<Rightarrow> do {
           r \<leftarrow> drain nq sq (new_runtime c task ca n f);
           let client = client_init (official_config c (rt_ca_pem r));
           if \<not> client \<or> registered \<noteq> ESP_OK
           then do { _ \<leftarrow> release_ca r; Some (if client then registered else ESP_ERR_NO_MEM, w) }
           else
             let fresh = s_runtime_instance w \<noteq> - 1;
                 k = (if fresh then s_runtime_instance w + 1 else s_runtime_instance w);
                 r = r\<lparr>rt_capacity := (rt_capacity r)\<lparr>counters_valid := fresh, runtime_instance := k,
                        owned_message_metadata_bytes := of_nat (fst sizes),
                        observation_storage_bytes := of_nat (snd sizes)\<rparr>\<rparr>
             in Some (ESP_OK, w\<lparr>s_instance := Some r, s_runtime_instance := k\<rparr>)
         }
       | _ \<Rightarrow> do {
           _ \<leftarrow> (case ca of Some (b, n) \<Rightarrow> if alloc_ca then store b 0 (replicate n 0) else Some [] | None \<Rightarrow> Some []);
           Some (ESP_ERR_NO_MEM, w)
         }
     }
   }"

definition emqtt_destroy ::
  "('n, notice) queue_ops \<Rightarrow> ('s, int) queue_ops \<Rightarrow> bool \<Rightarrow> esp_err \<Rightarrow> esp_err \<Rightarrow> ('n, 's) emqtt_statics \<Rightarrow>
     (esp_err \<times> ('n, 's) emqtt_statics) option" where
  "emqtt_destroy nq sq own sdk_stop sdk_destroy w =
     (case s_instance w of None \<Rightarrow> Some (ESP_ERR_INVALID_STATE, w)
      | Some r \<Rightarrow>
        if \<not> own then Some (ESP_ERR_INVALID_STATE, w)
        else do {
          (error, r) \<leftarrow> emqtt_stop nq sq True sdk_stop r;
          if error \<noteq> ESP_OK then Some (error, w\<lparr>s_instance := Some r\<rparr>)
          else if sdk_destroy \<noteq> ESP_OK then Some (sdk_destroy, w\<lparr>s_instance := Some r\<rparr>)
          else do { _ \<leftarrow> release_ca r; Some (ESP_OK, w\<lparr>s_instance := None\<rparr>) }
        })"

end
