(* ===== verification/Rtos_Queue.thy ===== *)
theory Rtos_Queue
  imports Emqtt_Runtime
begin

text \<open>
  The interface between the runtime and FreeRTOS: a bounded queue used without waiting, as a
  locale, with the ring buffer of the host tests (\<^verbatim>\<open>tests/host/emqtt_runtime_test.c\<close>) as its
  implementation in the repository.
\<close>

section \<open>Queues\<close>

text \<open>
  What the runtime relies on of a FreeRTOS queue that is used without waiting: a bounded
  first-in first-out buffer. \<open>rep q xs\<close> says that the queue \<open>q\<close> holds the items \<open>xs\<close>.
\<close>

locale rtos_queue =
  fixes ops :: "('q, 'a) queue_ops" and rep :: "'q \<Rightarrow> 'a list \<Rightarrow> bool" and capacity :: nat
  assumes bounded: "rep q xs \<Longrightarrow> length xs \<le> capacity"
    and send_room: "rep q xs \<Longrightarrow> length xs < capacity \<Longrightarrow>
      \<exists>q'. xQueueSend ops q x = (True, q') \<and> rep q' (xs @ [x])"
    and send_full: "rep q xs \<Longrightarrow> length xs = capacity \<Longrightarrow> \<exists>q'. xQueueSend ops q x = (False, q') \<and> rep q' xs"
    and receive_empty: "rep q [] \<Longrightarrow> xQueueReceive ops q = None"
    and receive_head: "rep q (x # xs) \<Longrightarrow> \<exists>q'. xQueueReceive ops q = Some (x, q') \<and> rep q' xs"
    and reset_empty: "rep q xs \<Longrightarrow> rep (xQueueReset ops q) []"
    and waiting: "rep q xs \<Longrightarrow> uxQueueMessagesWaiting ops q = length xs"
begin

lemma send_total: "rep q xs \<Longrightarrow>
  \<exists>q'. xQueueSend ops q x = (length xs < capacity, q') \<and> rep q' (if length xs < capacity then xs @ [x] else xs)"
  using send_room [of q xs x] send_full [of q xs x] bounded [of q xs]
  by (cases "length xs < capacity") auto

lemma send_all:
  "rep q xs \<Longrightarrow> length (xs @ ys) \<le> capacity \<Longrightarrow> rep (fold (\<lambda>y q. snd (xQueueSend ops q y)) ys q) (xs @ ys)"
proof (induction ys arbitrary: q xs)
  case (Cons y ys)
  obtain q' where "xQueueSend ops q y = (True, q')" "rep q' (xs @ [y])"
    using send_room [OF Cons.prems(1), of y] Cons.prems(2) by auto
  then show ?case using Cons.IH [of q' "xs @ [y]"] Cons.prems(2) by simp
qed simp

end

text \<open>
  The ring buffer that the host tests put in place of a FreeRTOS queue: an array, the
  position of the oldest item and the number of items.
\<close>

record 'a ring =
  ring_data :: "'a list"
  ring_head :: nat
  ring_count :: nat

definition ring_send :: "'a ring \<Rightarrow> 'a \<Rightarrow> bool \<times> 'a ring" where
  "ring_send q x =
     (if ring_count q = length (ring_data q) then (False, q)
      else (True, q\<lparr>ring_data := (ring_data q)[(ring_head q + ring_count q) mod length (ring_data q) := x],
                    ring_count := ring_count q + 1\<rparr>))"

definition ring_receive :: "'a ring \<Rightarrow> ('a \<times> 'a ring) option" where
  "ring_receive q =
     (if ring_count q = 0 then None
      else Some (ring_data q ! ring_head q,
                 q\<lparr>ring_head := (ring_head q + 1) mod length (ring_data q), ring_count := ring_count q - 1\<rparr>))"

definition ring_reset :: "'a ring \<Rightarrow> 'a ring" where
  "ring_reset q = q\<lparr>ring_head := 0, ring_count := 0\<rparr>"

definition ring_ops :: "('a ring, 'a) queue_ops" where
  "ring_ops = \<lparr>xQueueSend = ring_send, xQueueReceive = ring_receive, xQueueReset = ring_reset,
     uxQueueMessagesWaiting = ring_count\<rparr>"

definition ring_rep :: "nat \<Rightarrow> 'a ring \<Rightarrow> 'a list \<Rightarrow> bool" where
  "ring_rep capacity q xs \<longleftrightarrow> length (ring_data q) = capacity \<and> ring_head q < capacity \<and>
     ring_count q = length xs \<and> length xs \<le> capacity \<and>
     (\<forall>i < length xs. ring_data q ! ((ring_head q + i) mod capacity) = xs ! i)"

lemma ring_positions:
  assumes "i < n" "j < n" "(h + i) mod n = (h + j) mod (n :: nat)"
  shows "i = j"
proof (cases "i \<le> j")
  case True
  then have "n dvd (h + j) - (h + i)" using assms(3) mod_eq_dvd_iff_nat [of "h + i" "h + j" n] by simp
  then have "n dvd j - i" by simp
  then show ?thesis using assms(2) True by (auto dest: dvd_imp_le)
next
  case False
  then have "n dvd (h + i) - (h + j)" using assms(3) mod_eq_dvd_iff_nat [of "h + j" "h + i" n] by simp
  then have "n dvd i - j" by simp
  then show ?thesis using assms(1) False by (auto dest: dvd_imp_le)
qed

lemma ring_send_rep:
  assumes "ring_rep n q xs" "length xs < n"
  shows "\<exists>q'. ring_send q x = (True, q') \<and> ring_rep n q' (xs @ [x])"
proof -
  have "(ring_head q + length xs) mod n \<noteq> (ring_head q + i) mod n" if "i < length xs" for i
    using ring_positions [of i n "length xs" "ring_head q"] that assms(2) by auto
  then show ?thesis using assms
    by (auto simp: ring_send_def ring_rep_def nth_append less_Suc_eq)
qed

lemma ring_receive_rep:
  assumes "ring_rep n q (x # xs)"
  shows "\<exists>q'. ring_receive q = Some (x, q') \<and> ring_rep n q' xs"
proof -
  have "ring_data q ! (((ring_head q + 1) mod n + i) mod n) = xs ! i" if "i < length xs" for i
  proof -
    have "((ring_head q + 1) mod n + i) mod n = (ring_head q + Suc i) mod n" by (simp add: mod_add_left_eq)
    then show ?thesis using assms that by (auto simp: ring_rep_def)
  qed
  moreover have "ring_data q ! ring_head q = x"
    using assms unfolding ring_rep_def by (metis add.right_neutral length_greater_0_conv list.simps(3) mod_less nth_Cons_0)
  ultimately show ?thesis using assms by (auto simp: ring_receive_def ring_rep_def)
qed

interpretation ring_queue: rtos_queue ring_ops "ring_rep capacity" capacity for capacity
proof (unfold_locales, goal_cases)
  case (2 q xs x) then show ?case using ring_send_rep by (simp add: ring_ops_def)
next
  case (5 q x xs) then show ?case using ring_receive_rep by (simp add: ring_ops_def)
qed (auto simp: ring_ops_def ring_rep_def ring_send_def ring_receive_def ring_reset_def)

end
