(* ===== verification/Emqtt_Contract_Props.thy ===== *)
theory Emqtt_Contract_Props
  imports Emqtt_Contract
begin

text \<open>
  The contract layer against reference definitions: UTF-8 as the encoding of a sequence of
  characters, topic filters as sequences of levels, host names as sequences of labels, and
  reassembly as concatenation. Each validator is shown to decide its reference predicate
  and to read only inside the given arrays.
\<close>

section \<open>Bounded tx\<close>

lemma bounded_length_from_correct:
  "capacity \<le> length tx \<Longrightarrow> len \<le> capacity \<Longrightarrow> bounded_length_from tx capacity len =
     Some (len + length (takeWhile (\<lambda>c. c \<noteq> 0) (drop len (take capacity tx))))"
proof (induction tx capacity len rule: bounded_length_from.induct)
  case (1 tx capacity len)
  show ?case
  proof (cases "len < capacity")
    case True
    have d: "drop len (take capacity tx) = tx ! len # drop (Suc len) (take capacity tx)"
      using True "1.prems" by (simp add: Cons_nth_drop_Suc [symmetric])
    show ?thesis
      using True "1.prems" "1.IH" [OF True, of "tx ! len"] d
      by (subst bounded_length_from.simps) (simp add: load_def)
  next
    case False
    then show ?thesis using "1.prems" by (subst bounded_length_from.simps) simp
  qed
qed

definition text_of :: "byte list \<Rightarrow> byte list" where
  "text_of a = takeWhile (\<lambda>c. c \<noteq> 0) a"

lemma bounded_length_eq: "bounded_length tx (length tx) = Some (length (text_of tx))"
  by (simp add: bounded_length_def bounded_length_from_correct text_of_def)

lemma length_text_of: "length (text_of a) \<le> length a"
  by (simp add: text_of_def length_takeWhile_le)

lemma take_text_of: "take (length (text_of a)) a = text_of a"
  by (simp add: text_of_def takeWhile_eq_take [symmetric])

section \<open>UTF-8\<close>

text \<open>The encoding of RFC 3629: six bits per continuation byte.\<close>

abbreviation cont_byte :: "nat \<Rightarrow> byte" where
  "cont_byte n \<equiv> of_nat (0x80 + n mod 64)"

definition utf8_encode :: "nat \<Rightarrow> byte list" where
  "utf8_encode c =
     (if c < 0x80 then [of_nat c]
      else if c < 0x800 then [of_nat (0xc0 + c div 64), cont_byte c]
      else if c < 0x10000 then [of_nat (0xe0 + c div 64 div 64), cont_byte (c div 64), cont_byte c]
      else [of_nat (0xf0 + c div 64 div 64 div 64), cont_byte (c div 64 div 64), cont_byte (c div 64), cont_byte c])"

text \<open>Scalar values that are neither control characters nor noncharacters.\<close>

definition text_char :: "nat \<Rightarrow> bool" where
  "text_char c \<longleftrightarrow> 0x20 \<le> c \<and> c \<le> 0x10ffff \<and> \<not> (0x7f \<le> c \<and> c \<le> 0x9f) \<and>
     \<not> (0xd800 \<le> c \<and> c \<le> 0xdfff) \<and> \<not> (0xfdd0 \<le> c \<and> c \<le> 0xfdef) \<and> c mod 0x10000 < 0xfffe"

definition utf8_text :: "byte list \<Rightarrow> bool" where
  "utf8_text b \<longleftrightarrow> (\<exists>cs. list_all text_char cs \<and> b = concat (map utf8_encode cs))"

lemma byte_mask:
  "unat ((b::byte) AND 0x3f) = unat b mod 64" "unat (b AND 0x1f) = unat b mod 32"
  "unat (b AND 0x0f) = unat b mod 16" "unat (b AND 7) = unat b mod 8"
proof -
  have m: "b AND 0x3f = take_bit 6 b" "b AND 0x1f = take_bit 5 b" "b AND 0x0f = take_bit 4 b" "b AND 7 = take_bit 3 b"
    by (simp_all add: take_bit_eq_mask mask_eq_exp_minus_1)
  show "unat (b AND 0x3f) = unat b mod 64" "unat (b AND 0x1f) = unat b mod 32"
    "unat (b AND 0x0f) = unat b mod 16" "unat (b AND 7) = unat b mod 8"
    unfolding m by (simp_all only: unsigned_take_bit_eq) (simp_all add: take_bit_eq_mod)
qed

lemma continuation_table:
  "list_all (\<lambda>n. ((of_nat n :: byte) AND 0xc0 = 0x80) = (128 \<le> n \<and> n < 192)) [0..<256]"
  by code_simp

lemma continuation_iff: "(b :: byte) AND 0xc0 = 0x80 \<longleftrightarrow> 128 \<le> unat b \<and> unat b < 192"
  using continuation_table unat_byte_less [of b]
  by (auto simp: list_all_iff dest!: bspec [of _ _ "unat b"])

lemma utf8_code_bad_iff: "utf8_code_bad c m \<longleftrightarrow> c < m \<or> \<not> text_char c"
proof -
  have "c AND 0xffff = c mod 0x10000"
    using take_bit_eq_mask [of 16 c] by (simp add: take_bit_eq_mod mask_eq_exp_minus_1)
  then show ?thesis by (auto simp: utf8_code_bad_def text_char_def)
qed

lemma shift_in: "push_bit 6 c OR unat ((b::byte) AND 0x3f) = c * 64 + unat b mod 64"
  using nat_or_add_disjoint [of "unat b mod 64" 6 c] by (simp add: byte_mask)

text \<open>Decoding of one character from the front of a byte list.\<close>

definition continuation :: "byte \<Rightarrow> bool" where
  "continuation b \<longleftrightarrow> 128 \<le> unat b \<and> unat b < 192"

definition code_with :: "nat \<Rightarrow> byte list \<Rightarrow> nat" where
  "code_with c bs = foldl (\<lambda>c b. c * 64 + unat b mod 64) c bs"

fun decode_char :: "byte list \<Rightarrow> (nat \<times> byte list) option" where
  "decode_char [] = None"
| "decode_char (b # bs) =
     (case utf8_first b of None \<Rightarrow> None
      | Some (code, extra, m) \<Rightarrow>
        if length bs < extra \<or> \<not> list_all continuation (take extra bs) then None
        else let c = code_with code (take extra bs) in
          if c < m \<or> \<not> text_char c then None else Some (c, drop extra bs))"

lemma utf8_first_unat:
  "utf8_first b = (let n = unat b in
     if 194 \<le> n \<and> n \<le> 223 then Some (n mod 32, 1, 128)
     else if 224 \<le> n \<and> n \<le> 239 then Some (n mod 16, 2, 2048)
     else if 240 \<le> n \<and> n \<le> 244 then Some (n mod 8, 3, 65536)
     else if 128 \<le> n then None else Some (n, 0, 0))"
  by (simp add: utf8_first_def word_le_nat_alt byte_mask Let_def)

lemma utf8_extra_eq:
  "at + extra \<le> length tx \<Longrightarrow> utf8_extra tx at extra code =
    Some (if list_all continuation (take extra (drop at tx))
          then Some (at + extra, code_with code (take extra (drop at tx))) else None)"
proof (induction extra arbitrary: at code)
  case (Suc extra)
  have "take (Suc extra) (drop at tx) = tx ! at # take extra (drop (Suc at) tx)"
    using Suc.prems by (simp add: Cons_nth_drop_Suc [symmetric])
  then show ?case using Suc
    by (simp add: load_def continuation_iff continuation_def shift_in code_with_def)
qed (simp add: code_with_def)

lemma unat_small_byte: "k < 256 \<Longrightarrow> unat (of_nat k :: byte) = k"
  by (simp add: unat_of_nat take_bit_eq_mod)

lemma six_bits: obtains x y where "c = x * 64 + y" "y < (64 :: nat)"
  using that [of "c div 64" "c mod 64"] by simp

lemma lead_mod:
  "x < 32 \<Longrightarrow> (192 + x) mod 32 = (x :: nat)" "x < 16 \<Longrightarrow> (224 + x) mod 16 = x"
  "x < 5 \<Longrightarrow> (240 + x) mod 8 = x" "a < 64 \<Longrightarrow> (128 + a) mod 64 = (a :: nat)"
  using mod_mult_self2 [of x 32 6] mod_mult_self2 [of x 16 14] mod_mult_self2 [of x 8 30] mod_mult_self2 [of a 64 2]
  by (simp_all add: add.commute)

lemma lead_code:
  "194 \<le> n \<Longrightarrow> n \<le> 223 \<Longrightarrow> n mod 32 < 32 \<and> n = 192 + n mod (32 :: nat)"
  "224 \<le> n \<Longrightarrow> n \<le> 239 \<Longrightarrow> n mod 16 < 16 \<and> n = 224 + n mod (16 :: nat)"
  "240 \<le> n \<Longrightarrow> n \<le> 244 \<Longrightarrow> n mod 8 < 5 \<and> n = 240 + n mod (8 :: nat)"
  "128 \<le> n \<Longrightarrow> n < 192 \<Longrightarrow> n mod 64 < 64 \<and> n = 128 + n mod (64 :: nat)"
  using lead_mod(1) [of "n - 192"] lead_mod(2) [of "n - 224"] lead_mod(3) [of "n - 240"] lead_mod(4) [of "n - 128"]
  by simp_all

lemma decode_char_bytes:
  "x < 32 \<Longrightarrow> a < 64 \<Longrightarrow> 2 \<le> x \<Longrightarrow> text_char (x * 64 + a) \<Longrightarrow>
    decode_char ([of_nat (0xc0 + x), of_nat (0x80 + a)] @ ys) = Some (x * 64 + a, ys)"
  "x < 16 \<Longrightarrow> a < 64 \<Longrightarrow> b < 64 \<Longrightarrow> 2048 \<le> (x * 64 + a) * 64 + b \<Longrightarrow> text_char ((x * 64 + a) * 64 + b) \<Longrightarrow>
    decode_char ([of_nat (0xe0 + x), of_nat (0x80 + a), of_nat (0x80 + b)] @ ys) = Some ((x * 64 + a) * 64 + b, ys)"
  "x < 5 \<Longrightarrow> a < 64 \<Longrightarrow> b < 64 \<Longrightarrow> d < 64 \<Longrightarrow> 65536 \<le> ((x * 64 + a) * 64 + b) * 64 + d \<Longrightarrow>
    text_char (((x * 64 + a) * 64 + b) * 64 + d) \<Longrightarrow>
    decode_char ([of_nat (0xf0 + x), of_nat (0x80 + a), of_nat (0x80 + b), of_nat (0x80 + d)] @ ys) =
      Some (((x * 64 + a) * 64 + b) * 64 + d, ys)"
  by (simp_all add: utf8_first_unat unat_small_byte code_with_def continuation_def Let_def
      lead_mod numeral_2_eq_2 numeral_3_eq_3 del: of_nat_add of_nat_numeral)

lemma decode_char_encode:
  assumes "text_char c"
  shows "decode_char (utf8_encode c @ ys) = Some (c, ys)"
proof -
  have c: "c < 0x110000" using assms by (simp add: text_char_def)
  define u v x where "u = c div 64" and "v = u div 64" and "x = v div 64"
  define a b d where "a = v mod 64" and "b = u mod 64" and "d = c mod 64"
  have lt: "a < 64" "b < 64" "d < 64" by (simp_all add: a_def b_def d_def)
  have e1: "u * 64 + d = c" and e2: "v * 64 + b = u" and e3: "x * 64 + a = v"
    by (simp_all only: u_def v_def x_def a_def b_def d_def div_mult_mod_eq)
  note digits = u_def [symmetric] v_def [symmetric] x_def [symmetric] a_def [symmetric] b_def [symmetric] d_def [symmetric]
  note bytes = decode_char_bytes(1) [of u d ys, unfolded e1] decode_char_bytes(2) [of v b d ys, unfolded e2 e1]
    decode_char_bytes(3) [of x a b d ys, unfolded e3 e2 e1]
  consider "c < 0x80" | "0x80 \<le> c" "c < 0x800" | "0x800 \<le> c" "c < 0x10000" | "0x10000 \<le> c" by linarith
  then show ?thesis
  proof cases
    case 1
    then show ?thesis using assms by (simp add: utf8_encode_def utf8_first_unat unat_small_byte code_with_def)
  next
    case 2
    then have "u < 32" "2 \<le> u" using e1 lt by linarith+
    then have "decode_char ([of_nat (0xc0 + u), of_nat (0x80 + d)] @ ys) = Some (c, ys)"
      using bytes(1) assms lt by blast
    then show ?thesis using 2 by (simp only: utf8_encode_def digits) simp
  next
    case 3
    then have "v < 16" using e1 e2 lt by linarith
    then have "decode_char ([of_nat (0xe0 + v), of_nat (0x80 + b), of_nat (0x80 + d)] @ ys) = Some (c, ys)"
      using bytes(2) assms lt 3 by blast
    then show ?thesis using 3 by (simp only: utf8_encode_def digits) simp
  next
    case 4
    then have "x < 5" using e1 e2 e3 lt c by linarith
    then have "decode_char ([of_nat (0xf0 + x), of_nat (0x80 + a), of_nat (0x80 + b), of_nat (0x80 + d)] @ ys) = Some (c, ys)"
      using bytes(3) assms lt 4 by blast
    then show ?thesis using 4 by (simp only: utf8_encode_def digits) simp
  qed
qed

lemma byte_eqI: "unat (b :: byte) = k \<Longrightarrow> b = of_nat k"
  by auto

lemma continuation_digit: "continuation b \<Longrightarrow> b = of_nat (0x80 + unat b mod 64)"
  using lead_code(4) [of "unat b"] byte_eqI [of b "0x80 + unat b mod 64"] by (simp only: continuation_def)

text \<open>The bytes that were decoded are the encoding of the code.\<close>

lemma encode_bytes:
  "x < 32 \<Longrightarrow> a < 64 \<Longrightarrow> c = x * 64 + a \<Longrightarrow> 128 \<le> c \<Longrightarrow> utf8_encode c = [of_nat (0xc0 + x), of_nat (0x80 + a)]"
  "x < 16 \<Longrightarrow> a < 64 \<Longrightarrow> b < 64 \<Longrightarrow> u = x * 64 + a \<Longrightarrow> c = u * 64 + b \<Longrightarrow> 2048 \<le> c \<Longrightarrow>
    utf8_encode c = [of_nat (0xe0 + x), of_nat (0x80 + a), of_nat (0x80 + b)]"
  "x < 5 \<Longrightarrow> a < 64 \<Longrightarrow> b < 64 \<Longrightarrow> d < 64 \<Longrightarrow> v = x * 64 + a \<Longrightarrow> u = v * 64 + b \<Longrightarrow> c = u * 64 + d \<Longrightarrow> 65536 \<le> c \<Longrightarrow>
    utf8_encode c = [of_nat (0xf0 + x), of_nat (0x80 + a), of_nat (0x80 + b), of_nat (0x80 + d)]"
proof -
  have dm: "(x * 64 + a) div 64 = x" "(x * 64 + a) mod 64 = a" if "a < 64" for x a :: nat
    using that by simp_all
  show "x < 32 \<Longrightarrow> a < 64 \<Longrightarrow> c = x * 64 + a \<Longrightarrow> 128 \<le> c \<Longrightarrow> utf8_encode c = [of_nat (0xc0 + x), of_nat (0x80 + a)]"
    using dm [of a x] by (simp add: utf8_encode_def)
  assume h: "x < 16" "a < 64" "b < 64" "u = x * 64 + a" "c = u * 64 + b" "2048 \<le> c"
  have "c < 0x10000" "\<not> c < 0x800" "\<not> c < 0x80" using h by linarith+
  moreover have "c div 64 = u" "c mod 64 = b" "u div 64 = x" "u mod 64 = a"
    using dm [OF h(2), of x] dm [OF h(3), of u] by (simp_all only: h(4,5))
  ultimately show "utf8_encode c = [of_nat (0xe0 + x), of_nat (0x80 + a), of_nat (0x80 + b)]"
    by (simp only: utf8_encode_def if_False if_True)
next
  have dm: "(x * 64 + a) div 64 = x" "(x * 64 + a) mod 64 = a" if "a < 64" for x a :: nat
    using that by simp_all
  assume h: "x < 5" "a < 64" "b < 64" "d < 64" "v = x * 64 + a" "u = v * 64 + b" "c = u * 64 + d" "65536 \<le> c"
  have "\<not> c < 0x10000" "\<not> c < 0x800" "\<not> c < 0x80" using h by linarith+
  moreover have "c div 64 = u" "c mod 64 = d" "u div 64 = v" "u mod 64 = b" "v div 64 = x" "v mod 64 = a"
    using dm [OF h(2), of x] dm [OF h(3), of v] dm [OF h(4), of u] by (simp_all only: h(5-7))
  ultimately show "utf8_encode c = [of_nat (0xf0 + x), of_nat (0x80 + a), of_nat (0x80 + b), of_nat (0x80 + d)]"
    by (simp only: utf8_encode_def if_False)
qed

lemma utf8_first_cases:
  assumes "utf8_first b = Some (code, extra, m)"
  obtains "extra = 0" "unat b < 128" "code = unat b"
    | "extra = 1" "194 \<le> unat b" "unat b \<le> 223" "code = unat b mod 32" "m = 128"
    | "extra = 2" "224 \<le> unat b" "unat b \<le> 239" "code = unat b mod 16" "m = 2048"
    | "extra = 3" "240 \<le> unat b" "unat b \<le> 244" "code = unat b mod 8" "m = 65536"
proof -
  have f: "(if 194 \<le> unat b \<and> unat b \<le> 223 then Some (unat b mod 32, 1, 128)
     else if 224 \<le> unat b \<and> unat b \<le> 239 then Some (unat b mod 16, 2, 2048)
     else if 240 \<le> unat b \<and> unat b \<le> 244 then Some (unat b mod 8, 3, 65536)
     else if 128 \<le> unat b then None else Some (unat b, 0, 0)) = Some (code, extra, m)"
    using assms by (simp only: utf8_first_unat Let_def)
  show ?thesis
  proof (cases "194 \<le> unat b \<and> unat b \<le> 223")
    case True
    from f [unfolded if_P [OF True]] True that(2) show ?thesis by simp
  next
    case 2: False
    show ?thesis
    proof (cases "224 \<le> unat b \<and> unat b \<le> 239")
      case True
      from f [unfolded if_not_P [OF 2] if_P [OF True]] True that(3) show ?thesis by simp
    next
      case 3: False
      show ?thesis
      proof (cases "240 \<le> unat b \<and> unat b \<le> 244")
        case True
        from f [unfolded if_not_P [OF 2] if_not_P [OF 3] if_P [OF True]] True that(4) show ?thesis by simp
      next
        case False
        have g: "(if 128 \<le> unat b then None else Some (unat b, 0, 0)) = Some (code, extra, m)"
          using f unfolding if_not_P [OF 2] if_not_P [OF 3] if_not_P [OF False] .
        then have "\<not> 128 \<le> unat b" by (metis option.distinct(1))
        with g that(1) show ?thesis by (metis not_le option.inject prod.inject)
      qed
    qed
  qed
qed

lemma decode_char_sound:
  assumes "decode_char xs = Some (c, ys)"
  shows "text_char c \<and> xs = utf8_encode c @ ys"
proof -
  obtain b bs where xs: "xs = b # bs" using assms by (cases xs) auto
  obtain code extra m where f: "utf8_first b = Some (code, extra, m)"
    using assms by (auto simp: xs split: option.splits)
  have *: "extra \<le> length bs" "list_all continuation (take extra bs)" "c = code_with code (take extra bs)"
    "m \<le> c" "text_char c" "ys = drop extra bs"
    using assms unfolding xs decode_char.simps f by (simp_all add: Let_def split: if_splits)
  have digit: "of_nat (0x80 + unat b mod 64) = b" if "continuation b" for b
    using continuation_digit [OF that] by simp
  have lead: "of_nat (k + n) = b" if "unat b = k + n" for b :: byte and k n
    using byte_eqI [OF that] by simp
  from f have "xs = utf8_encode c @ ys"
  proof (cases rule: utf8_first_cases)
    case 1
    then show ?thesis using * by (simp add: xs code_with_def utf8_encode_def)
  next
    case 2
    obtain b1 where bs: "bs = b1 # ys" "continuation b1"
      using * 2(1) by (cases bs) auto
    have "c = code * 64 + unat b1 mod 64" using *(3) bs(1) 2(1) by (simp add: code_with_def)
    then have "utf8_encode c = [b, b1]"
      using encode_bytes(1) [of code "unat b1 mod 64" c] lead_code(1) [OF 2(2,3)] 2(4,5) *(4)
      by (simp only: digit [OF bs(2)] lead [OF conjunct2 [OF lead_code(1) [OF 2(2,3)]]]) simp
    then show ?thesis using bs(1) xs by simp
  next
    case 3
    obtain b1 b2 where bs: "bs = b1 # b2 # ys" "continuation b1" "continuation b2"
      using * 3(1) by (cases bs; cases "tl bs") auto
    have "c = (code * 64 + unat b1 mod 64) * 64 + unat b2 mod 64"
      using *(3) bs(1) 3(1) by (simp add: code_with_def numeral_2_eq_2)
    then have "utf8_encode c = [b, b1, b2]"
      using encode_bytes(2) [of code "unat b1 mod 64" "unat b2 mod 64" _ c, OF _ _ _ refl] lead_code(2) [OF 3(2,3)] 3(4,5) *(4)
      by (simp only: digit [OF bs(2)] digit [OF bs(3)] lead [OF conjunct2 [OF lead_code(2) [OF 3(2,3)]]]) simp
    then show ?thesis using bs(1) xs by simp
  next
    case 4
    obtain b1 b2 b3 where bs: "bs = b1 # b2 # b3 # ys" "continuation b1" "continuation b2" "continuation b3"
      using * 4(1) by (cases bs; cases "tl bs"; cases "tl (tl bs)") auto
    have "c = ((code * 64 + unat b1 mod 64) * 64 + unat b2 mod 64) * 64 + unat b3 mod 64"
      using *(3) bs(1) 4(1) by (simp add: code_with_def numeral_3_eq_3)
    then have "utf8_encode c = [b, b1, b2, b3]"
      using encode_bytes(3) [of code "unat b1 mod 64" "unat b2 mod 64" "unat b3 mod 64" _ _ c, OF _ _ _ _ refl refl]
        lead_code(3) [OF 4(2,3)] 4(4,5) *(4)
      by (simp only: digit [OF bs(2)] digit [OF bs(3)] digit [OF bs(4)] lead [OF conjunct2 [OF lead_code(3) [OF 4(2,3)]]]) simp
    then show ?thesis using bs(1) xs by simp
  qed
  then show ?thesis using *(5) by blast
qed

lemma utf8_text_Nil: "utf8_text []"
  unfolding utf8_text_def by (rule exI [of _ "[]"]) simp

lemma utf8_encode_nonempty: "utf8_encode c \<noteq> []"
  by (simp add: utf8_encode_def)

lemma utf8_text_step:
  assumes "xs \<noteq> []"
  shows "utf8_text xs \<longleftrightarrow> (case decode_char xs of None \<Rightarrow> False | Some (c, ys) \<Rightarrow> utf8_text ys)"
proof (cases "decode_char xs")
  case None
  have False if "utf8_text xs"
  proof -
    obtain cs where cs: "list_all text_char cs" "xs = concat (map utf8_encode cs)"
      using \<open>utf8_text xs\<close> by (auto simp: utf8_text_def)
    then obtain c cs' where "cs = c # cs'" using assms by (cases cs) auto
    then show False using cs None decode_char_encode [of c "concat (map utf8_encode cs')"] by auto
  qed
  then show ?thesis using None by auto
next
  case (Some p)
  obtain c ys where p: "p = (c, ys)" by fastforce
  then have snd: "text_char c" "xs = utf8_encode c @ ys" using decode_char_sound Some by auto
  have "utf8_text xs \<longleftrightarrow> utf8_text ys"
  proof
    assume "utf8_text ys"
    then obtain cs where "list_all text_char cs" "ys = concat (map utf8_encode cs)" by (auto simp: utf8_text_def)
    then show "utf8_text xs" unfolding utf8_text_def using snd by (intro exI [of _ "c # cs"]) simp
  next
    assume "utf8_text xs"
    then obtain cs where cs: "list_all text_char cs" "xs = concat (map utf8_encode cs)" by (auto simp: utf8_text_def)
    then obtain d cs' where d: "cs = d # cs'" using assms by (cases cs) auto
    then have "decode_char xs = Some (d, concat (map utf8_encode cs'))"
      using cs decode_char_encode by simp
    then show "utf8_text ys" using Some p cs d by (auto simp: utf8_text_def)
  qed
  then show ?thesis using Some p by simp
qed

lemma utf8_from_correct:
  "len \<le> length tx \<Longrightarrow> at \<le> len \<Longrightarrow> utf8_from tx len at = Some (utf8_text (drop at (take len tx)))"
proof (induction "len - at" arbitrary: at rule: less_induct)
  case less
  show ?case
  proof (cases "at < len")
    case False
    then show ?thesis using less.prems by (subst utf8_from.simps) (simp add: utf8_text_Nil)
  next
    case True
    let ?rest = "drop (Suc at) (take len tx)"
    have d: "drop at (take len tx) = tx ! at # ?rest"
      using True less.prems by (simp add: Cons_nth_drop_Suc [symmetric])
    have ld: "load tx at = Some (tx ! at)" using True less.prems by (simp add: load_def)
    have len_rest: "length ?rest = len - Suc at" using less.prems by simp
    show ?thesis
    proof (cases "utf8_first (tx ! at)")
      case None
      then show ?thesis using True ld d utf8_text_step [of "tx ! at # ?rest"]
        by (subst utf8_from.simps) simp
    next
      case (Some p)
      obtain code extra m where p: "p = (code, extra, m)" by (metis prod_cases3)
      show ?thesis
      proof (cases "extra > len - Suc at")
        case True': True
        then show ?thesis using True ld d utf8_text_step [of "tx ! at # ?rest"] Some p len_rest
          by (subst utf8_from.simps) simp
      next
        case False
        have tk: "take extra (drop (Suc at) tx) = take extra ?rest"
          using False True by (simp add: take_drop min_def add.commute)
        have ex: "utf8_extra tx (Suc at) extra code =
          Some (if list_all continuation (take extra ?rest) then Some (Suc at + extra, code_with code (take extra ?rest)) else None)"
          using utf8_extra_eq [of "Suc at" extra tx code] False True less.prems by (simp add: tk)
        let ?c = "code_with code (take extra ?rest)"
        have ih: "utf8_from tx len (Suc at + extra) = Some (utf8_text (drop extra ?rest))"
          if "list_all continuation (take extra ?rest)" "\<not> utf8_code_bad ?c m"
          using less.hyps [of "Suc at + extra"] False True less.prems by (simp add: add.commute)
        show ?thesis
          using True ld d utf8_text_step [of "tx ! at # ?rest"] Some p len_rest False ex ih
          by (subst utf8_from.simps) (auto simp: Let_def utf8_code_bad_iff)
      qed
    qed
  qed
qed

lemma utf8_correct: "len \<le> length tx \<Longrightarrow> utf8 tx len = Some (utf8_text (take len tx))"
  using utf8_from_correct [of len tx 0] by (simp add: utf8_def)

section \<open>Topic names and filters\<close>

text \<open>The rule of the protocol: a wildcard is a whole level, and \<open>#\<close> only the last one.\<close>

fun split_at :: "byte \<Rightarrow> byte list \<Rightarrow> byte list list" where
  "split_at sep [] = [[]]"
| "split_at sep (c # cs) =
     (if c = sep then [] # split_at sep cs else (c # hd (split_at sep cs)) # tl (split_at sep cs))"

abbreviation levels :: "byte list \<Rightarrow> byte list list" where
  "levels \<equiv> split_at 0x2f"

definition plain_level :: "byte list \<Rightarrow> bool" where
  "plain_level l \<longleftrightarrow> 0x23 \<notin> set l \<and> 0x2b \<notin> set l"

fun levels_ok :: "bool \<Rightarrow> byte list list \<Rightarrow> bool" where
  "levels_ok flt [] \<longleftrightarrow> True"
| "levels_ok flt (l # ls) \<longleftrightarrow>
     (plain_level l \<or> flt \<and> l = [0x2b] \<or> flt \<and> ls = [] \<and> l = [0x23]) \<and> levels_ok flt ls"

text \<open>What the loop checks, with the character before as an argument.\<close>

definition at_start :: "byte option \<Rightarrow> bool" where
  "at_start prev \<longleftrightarrow> prev = None \<or> prev = Some 0x2f"

fun chars_ok :: "bool \<Rightarrow> byte option \<Rightarrow> byte list \<Rightarrow> bool" where
  "chars_ok flt prev [] \<longleftrightarrow> True"
| "chars_ok flt prev (c # cs) \<longleftrightarrow>
     (c = 0x23 \<longrightarrow> flt \<and> cs = [] \<and> at_start prev) \<and>
     (c = 0x2b \<longrightarrow> flt \<and> at_start prev \<and> (cs = [] \<or> hd cs = 0x2f)) \<and>
     chars_ok flt (Some c) cs"

lemma levels_nonempty: "split_at sep cs \<noteq> []"
  by (cases cs) auto

lemma hd_levels: "hd (levels cs) = [] \<longleftrightarrow> cs = [] \<or> hd cs = 0x2f"
  by (cases cs) auto

lemma levels_single: "hd (levels cs) = [] \<and> tl (levels cs) = [] \<longleftrightarrow> cs = []"
  using levels_nonempty by (cases cs) auto

lemma chars_ok_levels:
  "chars_ok flt prev cs \<longleftrightarrow>
     (if at_start prev then levels_ok flt (levels cs)
      else plain_level (hd (levels cs)) \<and> levels_ok flt (tl (levels cs)))"
proof (induction cs arbitrary: prev)
  case Nil
  then show ?case by (simp add: plain_level_def)
next
  case (Cons c cs)
  obtain l ls where l: "levels cs = l # ls" using levels_nonempty by (cases "levels cs") auto
  have single: "l = [] \<and> ls = [] \<longleftrightarrow> cs = []" and head: "l = [] \<longleftrightarrow> cs = [] \<or> hd cs = 0x2f"
    using levels_single [of cs] hd_levels [of cs] by (simp_all add: l)
  have plain: "plain_level (c # l) \<longleftrightarrow> c \<noteq> 0x23 \<and> c \<noteq> 0x2b \<and> plain_level l" for c l by (auto simp: plain_level_def)
  have start: "at_start (Some c) \<longleftrightarrow> c = 0x2f" for c by (simp add: at_start_def)
  have empty: "plain_level []" by (simp add: plain_level_def)
  consider "c = 0x2f" | "c = 0x23" | "c = 0x2b" | "c \<noteq> 0x2f" "c \<noteq> 0x23" "c \<noteq> 0x2b" by blast
  then show ?case
  proof cases
    case 1
    then show ?thesis using Cons.IH [of "Some c"] by (simp add: start plain_level_def)
  next
    case 2
    then show ?thesis using Cons.IH [of "Some c"] single by (auto simp: start l plain)
  next
    case 3
    then show ?thesis using Cons.IH [of "Some c"] head by (auto simp: start l plain empty)
  next
    case 4
    then show ?thesis using Cons.IH [of "Some c"] by (auto simp: start l plain)
  qed
qed

lemma topic_loop_correct:
  "len \<le> length t \<Longrightarrow> i \<le> len \<Longrightarrow> topic_loop t len flt i =
    Some (chars_ok flt (if i = 0 then None else Some (t ! (i - 1))) (drop i (take len t)))"
proof (induction "len - i" arbitrary: i rule: less_induct)
  case less
  show ?case
  proof (cases "i < len")
    case True
    let ?rest = "drop (Suc i) (take len t)"
    define prev where "prev = (if i = 0 then None else Some (t ! (i - 1)))"
    have d: "drop i (take len t) = t ! i # ?rest" using True less.prems by (simp add: Cons_nth_drop_Suc [symmetric])
    have l: "load t i = Some (t ! i)" using True less.prems by (simp add: load_def)
    have end_iff: "?rest = [] \<longleftrightarrow> i + 1 = len" using True less.prems by auto
    have next_iff: "?rest = [] \<or> hd ?rest = 0x2f \<longleftrightarrow> i + 1 = len \<or> t ! (i + 1) = 0x2f"
      using True less.prems by (cases "i + 1 = len") (auto simp: hd_drop_conv_nth)
    have h: "hash_bad t len flt i = Some (\<not> (flt \<and> i + 1 = len \<and> at_start prev))"
      using True less.prems by (auto simp: hash_bad_def load_def at_start_def prev_def)
    have p: "plus_bad t len flt i = Some (\<not> (flt \<and> at_start prev \<and> (i + 1 = len \<or> t ! (i + 1) = 0x2f)))"
      using True less.prems by (auto simp: plus_bad_def load_def at_start_def prev_def)
    have ih: "topic_loop t len flt (Suc i) = Some (chars_ok flt (Some (t ! i)) ?rest)"
      using less.hyps [of "Suc i"] True less.prems by simp
    define A B K where "A = (flt \<and> i + 1 = len \<and> at_start prev)"
      and "B = (flt \<and> at_start prev \<and> (i + 1 = len \<or> t ! (i + 1) = 0x2f))"
      and "K = chars_ok flt (Some (t ! i)) ?rest"
    have "topic_loop t len flt i = Some ((t ! i = 0x23 \<longrightarrow> A) \<and> (t ! i = 0x2b \<longrightarrow> B) \<and> K)"
      using True h [folded A_def] p [folded B_def] ih [folded K_def] by (subst topic_loop.simps) (simp add: l)
    moreover have "chars_ok flt prev (t ! i # ?rest) \<longleftrightarrow> (t ! i = 0x23 \<longrightarrow> A) \<and> (t ! i = 0x2b \<longrightarrow> B) \<and> K"
      using end_iff next_iff unfolding A_def B_def K_def chars_ok.simps by blast
    ultimately show ?thesis by (simp only: d prev_def)
  next
    case False
    then show ?thesis using less.prems by (subst topic_loop.simps) simp
  qed
qed

definition topic_ok :: "bool \<Rightarrow> byte list \<Rightarrow> bool" where
  "topic_ok flt t \<longleftrightarrow> t \<noteq> [] \<and> length t \<le> 256 \<and> utf8_text t \<and> levels_ok flt (levels t)"

lemma emqtt_topic_valid_correct:
  assumes "len \<le> length t"
  shows "emqtt_topic_valid (Some t) len flt = Some (topic_ok flt (take len t))"
  using topic_loop_correct [OF assms, of 0 flt] utf8_correct [OF assms] assms
  by (auto simp: emqtt_topic_valid_def topic_ok_def chars_ok_levels at_start_def)

section \<open>Host names\<close>

definition host_label_part :: "byte list \<Rightarrow> bool" where
  "host_label_part l \<longleftrightarrow> length l \<le> 63 \<and> (\<forall>c \<in> set l. alnum c \<or> c = 0x2d) \<and> (l \<noteq> [] \<longrightarrow> hd l \<noteq> 0x2d)"

text \<open>Letters, digits and inner hyphens, 1 to 63 of them.\<close>

definition host_label_ok :: "byte list \<Rightarrow> bool" where
  "host_label_ok l \<longleftrightarrow> l \<noteq> [] \<and> host_label_part l \<and> last l \<noteq> 0x2d"

definition host_ok :: "byte list \<Rightarrow> bool" where
  "host_ok h \<longleftrightarrow> (\<forall>l \<in> set (split_at 0x2e h). host_label_ok l)"

fun hosts_from :: "byte list \<Rightarrow> byte list \<Rightarrow> bool" where
  "hosts_from cur [] \<longleftrightarrow> host_label_ok cur"
| "hosts_from cur (c # cs) \<longleftrightarrow>
     (if c = 0x2e then host_label_ok cur \<and> hosts_from [] cs else hosts_from (cur @ [c]) cs)"

lemma hosts_from_split:
  "hosts_from cur cs \<longleftrightarrow> host_label_ok (cur @ hd (split_at 0x2e cs)) \<and> (\<forall>l \<in> set (tl (split_at 0x2e cs)). host_label_ok l)"
proof (induction cs arbitrary: cur)
  case (Cons c cs)
  obtain l ls where "split_at 0x2e cs = l # ls" using levels_nonempty [of "0x2e" cs] by (cases "split_at 0x2e cs") auto
  then show ?case using Cons.IH by auto
qed simp

lemma hosts_from_bad: "\<not> host_label_part cur \<Longrightarrow> \<not> hosts_from cur cs"
  by (auto simp: hosts_from_split host_label_ok_def host_label_part_def hd_append split: if_splits)

lemma host_label_part_snoc:
  "host_label_part cur \<Longrightarrow> host_label_part (cur @ [c]) \<longleftrightarrow> length cur + 1 \<le> 63 \<and> (alnum c \<or> c = 0x2d \<and> cur \<noteq> [])"
  by (cases cur) (auto simp: host_label_part_def alnum_def)

lemma host_loop_correct:
  assumes "len \<le> length host" "i \<le> len" "label \<le> i" "cur = drop (i - label) (take i host)"
    "host_label_part cur" "i = len \<longrightarrow> host_label_ok cur"
  shows "host_loop host len i label = Some (hosts_from cur (drop i (take len host)))"
  using assms
proof (induction "len - i" arbitrary: i label cur rule: less_induct)
  case less
  show ?case
  proof (cases "i < len")
    case False
    then show ?thesis using less.prems by (subst host_loop.simps) simp
  next
    case True
    let ?c = "host ! i" and ?rest = "drop (Suc i) (take len host)"
    have d: "drop i (take len host) = ?c # ?rest" using True less.prems by (simp add: Cons_nth_drop_Suc [symmetric])
    have ld: "load host i = Some ?c" using True less.prems by (simp add: load_def)
    have lab: "length cur = label" using less.prems by simp
    have lst: "label \<noteq> 0 \<Longrightarrow> load host (i - 1) = Some (last cur)"
      using True less.prems by (auto simp: load_def last_conv_nth)
    have ended: "?rest = [] \<longleftrightarrow> i + 1 = len" using True less.prems by auto
    show ?thesis
    proof (cases "?c = 0x2e")
      case dot: True
      have ih: "host_loop host len (Suc i) 0 = Some (hosts_from [] ?rest)" if "i + 1 \<noteq> len"
        using less.hyps [of "Suc i" 0 "[]"] True less.prems that by (simp add: host_label_part_def)
      have "\<not> hosts_from [] ?rest" if "i + 1 = len" using that ended by (simp add: host_label_ok_def del: drop_eq_Nil)
      then show ?thesis
        using True dot ih lst lab less.prems(5) unfolding d
        by (subst host_loop.simps) (auto simp: ld host_label_ok_def)
    next
      case ch: False
      let ?cur = "cur @ [?c]"
      have cur: "?cur = drop (Suc i - (label + 1)) (take (Suc i) host)"
        using less.prems True by (simp add: take_Suc_conv_app_nth)
      show ?thesis
      proof (cases "host_label_part ?cur")
        case bad: False
        then have "host_loop host len i label = Some False"
          using True ch lab host_label_part_snoc [OF less.prems(5)] by (subst host_loop.simps) (auto simp: ld)
        then show ?thesis using hosts_from_bad [OF bad] ch by (simp add: d)
      next
        case good: True
        then have g: "label + 1 \<le> 63" "alnum ?c \<or> ?c = 0x2d \<and> label > 0"
          using host_label_part_snoc [OF less.prems(5)] lab by auto
        show ?thesis
        proof (cases "i + 1 = len \<and> ?c = 0x2d")
          case True': True
          then have "\<not> hosts_from ?cur ?rest" using ended by (simp add: host_label_ok_def del: drop_eq_Nil)
          then show ?thesis using True True' ch g unfolding d
            by (subst host_loop.simps) (simp add: ld)
        next
          case False
          then have ok: "Suc i = len \<longrightarrow> host_label_ok ?cur" using good by (auto simp: host_label_ok_def)
          have "host_loop host len (Suc i) (label + 1) = Some (hosts_from ?cur ?rest)"
            by (rule less.hyps [OF _ less.prems(1) _ _ cur good ok]) (use True less.prems(3) in auto)
          then show ?thesis using True False ch g unfolding d
            by (subst host_loop.simps) (auto simp: ld)
        qed
      qed
    qed
  qed
qed

lemma host_loop_host_ok:
  assumes "len \<le> length host" "0 < len"
  shows "host_loop host len 0 0 = Some (host_ok (take len host))"
proof -
  have "host_ok h \<longleftrightarrow> hosts_from [] h" for h
    using levels_nonempty [of "0x2e" h] by (cases "split_at 0x2e h") (auto simp: host_ok_def hosts_from_split)
  then show ?thesis
    using host_loop_correct [of len host 0 0 "[]"] assms by (simp add: host_label_part_def)
qed

section \<open>Configurations\<close>

definition config_ok :: "bool \<Rightarrow> emqtt_config \<Rightarrow> bool" where
  "config_ok lab c \<longleftrightarrow>
     cfg_port c \<noteq> 0 \<and> (cfg_tls c \<or> lab) \<and> cfg_subscription_count c \<le> 8 \<and>
     cfg_will_qos c \<le> 1 \<and> cfg_will_length c \<le> 512 \<and>
     (let host = text_of (cfg_hostname c) in host \<noteq> [] \<and> length host < 254 \<and> host_ok host) \<and>
     (let cid = text_of (cfg_client_id c) in cid \<noteq> [] \<and> length cid < 129 \<and> utf8_text cid) \<and>
     (let user = text_of (cfg_username c); pass = text_of (cfg_password c) in
        length user < 129 \<and> length pass < 257 \<and> utf8_text user \<and> utf8_text pass \<and> (user = [] \<longrightarrow> pass = [])) \<and>
     (let pem = text_of (cfg_ca_pem c) in length pem < 4097 \<and>
        (if cfg_tls c then pem \<noteq> [] \<and> occurs_in pem_begin pem \<and> occurs_in pem_end pem else pem = [])) \<and>
     topic_ok False (text_of (cfg_will_topic c)) \<and>
     (let subs = take (cfg_subscription_count c) (cfg_subscriptions c) in
        (\<forall>s \<in> set subs. sub_qos s \<le> 1 \<and> topic_ok True (text_of (sub_topic s))) \<and>
        distinct (map (\<lambda>s. text_of (sub_topic s)) subs))"

lemma text_of_less: "length (text_of a) < length a \<longleftrightarrow> 0 \<in> set a"
  unfolding text_of_def
  by (metis (mono_tags, lifting) length_takeWhile_le less_le nat_neq_iff takeWhile_eq_all_conv takeWhile_eq_take take_all_iff not_less)

lemma strings_equal_correct:
  "0 \<in> set a \<Longrightarrow> 0 \<in> set b \<Longrightarrow> strings_equal a b = Some (text_of a = text_of b)"
  by (induction a b rule: strings_equal.induct) (auto simp: text_of_def)

lemma array_topic_valid_correct:
  "length t = 257 \<Longrightarrow> array_topic_valid t flt = Some (topic_ok flt (text_of t))"
  using bounded_length_eq [of t] emqtt_topic_valid_correct [OF length_text_of, of t flt]
  by (simp add: array_topic_valid_def take_text_of)

lemma topic_ok_terminated: "length t = 257 \<Longrightarrow> topic_ok flt (text_of t) \<Longrightarrow> 0 \<in> set t"
  using text_of_less [of t] by (simp add: topic_ok_def)

lemma both_Some [simp]: "both (Some p) q = (if p then q else Some False)"
  by (simp add: both_def)

lemma both_conj: "both (Some p) (Some q) = Some (p \<and> q)"
  by simp

lemma no_duplicate_correct:
  "0 \<in> set t \<Longrightarrow> \<forall>s \<in> set ss. 0 \<in> set (sub_topic s) \<Longrightarrow>
   no_duplicate t ss = Some (text_of t \<notin> (\<lambda>s. text_of (sub_topic s)) ` set ss)"
  by (induction ss) (auto simp: strings_equal_correct)

lemma subscriptions_valid_correct:
  "\<forall>s \<in> set ss. length (sub_topic s) = 257 \<Longrightarrow> \<forall>s \<in> set earlier. 0 \<in> set (sub_topic s) \<Longrightarrow>
   distinct (map (\<lambda>s. text_of (sub_topic s)) earlier) \<Longrightarrow>
   subscriptions_valid earlier ss =
     Some ((\<forall>s \<in> set ss. sub_qos s \<le> 1 \<and> topic_ok True (text_of (sub_topic s))) \<and>
           distinct (map (\<lambda>s. text_of (sub_topic s)) (earlier @ ss)))"
proof (induction ss arbitrary: earlier)
  case (Cons s ss)
  show ?case
  proof (cases "sub_qos s \<le> 1 \<and> topic_ok True (text_of (sub_topic s))")
    case True
    then have z: "0 \<in> set (sub_topic s)" using topic_ok_terminated Cons.prems(1) by auto
    note nd = no_duplicate_correct [OF z Cons.prems(2)]
    show ?thesis
    proof (cases "text_of (sub_topic s) \<in> (\<lambda>s. text_of (sub_topic s)) ` set earlier")
      case True': True
      then show ?thesis using True nd Cons.prems(1) by (auto simp: array_topic_valid_correct)
    next
      case False
      then show ?thesis using True nd Cons.prems Cons.IH [of "earlier @ [s]"] z
        by (auto simp: array_topic_valid_correct)
    qed
  next
    case False
    then show ?thesis using Cons.prems(1) by (auto simp: array_topic_valid_correct)
  qed
qed simp

section \<open>Reassembly\<close>

text \<open>The pointers of a fragment are valid for the lengths that go with them.\<close>

definition frag_readable :: "emqtt_fragment \<Rightarrow> bool" where
  "frag_readable f \<longleftrightarrow>
     (case frag_topic f of None \<Rightarrow> True | Some t \<Rightarrow> nat (frag_topic_length f) \<le> length t) \<and>
     (case frag_data f of None \<Rightarrow> True | Some d \<Rightarrow> nat (frag_data_length f) \<le> length d)"

definition frag_topic_text :: "emqtt_fragment \<Rightarrow> byte list" where
  "frag_topic_text f = (case frag_topic f of None \<Rightarrow> [] | Some t \<Rightarrow> take (nat (frag_topic_length f)) t)"

definition frag_bytes :: "emqtt_fragment \<Rightarrow> byte list" where
  "frag_bytes f = (case frag_data f of None \<Rightarrow> [] | Some d \<Rightarrow> take (nat (frag_data_length f)) d)"

text \<open>\<open>info\<close> describes the message that fragment \<open>f\<close> belongs to.\<close>

definition describes :: "emqtt_message_info \<Rightarrow> emqtt_fragment \<Rightarrow> bool" where
  "describes info f \<longleftrightarrow> nat (frag_total_length f) = info_length info \<and> frag_message_id f = info_message_id info \<and>
     nat (frag_qos f) = info_qos info \<and> frag_retain f = info_retain info \<and> frag_duplicate f = info_duplicate info"

text \<open>A message of which the bytes \<open>got\<close> have been received.\<close>

definition assembling :: "emqtt_receive_state \<Rightarrow> emqtt_message_info \<Rightarrow> byte list \<Rightarrow> byte list \<Rightarrow> byte list \<Rightarrow> bool" where
  "assembling r info payload topic got \<longleftrightarrow>
     active r \<and> received r = length got \<and> take (length got) payload = got \<and>
     length got < info_length info \<and> info_length info \<le> length payload \<and>
     (\<exists>junk. info_topic info = topic @ 0 # junk) \<and> 0 \<notin> set topic \<and> length (info_topic info) = 257"

definition starts :: "nat \<Rightarrow> emqtt_fragment \<Rightarrow> bool" where
  "starts capacity f \<longleftrightarrow> fragment_fields_ok capacity f \<and> frag_offset f = 0 \<and> frag_topic f \<noteq> None \<and>
     topic_ok False (frag_topic_text f)"

definition continues :: "emqtt_message_info \<Rightarrow> nat \<Rightarrow> byte list \<Rightarrow> byte list \<Rightarrow> emqtt_fragment \<Rightarrow> bool" where
  "continues info capacity topic got f \<longleftrightarrow> fragment_fields_ok capacity f \<and> describes info f \<and>
     (frag_topic_length f \<noteq> 0 \<longrightarrow> frag_topic f \<noteq> None \<and> frag_topic_text f = topic) \<and>
     frag_offset f = int (length got) \<and> (frag_bytes f = [] \<longrightarrow> frag_offset f = 0)"

lemma length_frag_bytes:
  "frag_readable f \<Longrightarrow> fragment_fields_ok cap f \<Longrightarrow> length (frag_bytes f) = nat (frag_data_length f)"
  by (auto simp: frag_readable_def fragment_fields_ok_def frag_bytes_def split: option.splits)

lemma length_frag_topic_text:
  "frag_readable f \<Longrightarrow> frag_topic f \<noteq> None \<Longrightarrow> length (frag_topic_text f) = nat (frag_topic_length f)"
  by (auto simp: frag_readable_def frag_topic_text_def split: option.splits)

lemma utf8_text_nonzero: "utf8_text t \<Longrightarrow> 0 \<notin> set t"
proof -
  have "0 \<notin> set (utf8_encode c)" if "text_char c" for c
  proof -
    have nz: "(of_nat k :: byte) \<noteq> 0" if "0 < k" "k < 256" for k
      using that unat_small_byte [of k] by (metis less_irrefl unat_0)
    have c: "c < 0x110000" "0 < c" using that by (auto simp: text_char_def)
    have cont: "cont_byte n \<noteq> 0" for n
      by (rule nz) (use mod_less_divisor [of 64 n] in linarith)+
    show ?thesis using c nz [of c] nz [of "0xc0 + c div 64"] nz [of "0xe0 + c div 64 div 64"] nz [of "0xf0 + c div 64 div 64 div 64"]
      cont by (auto simp: utf8_encode_def simp del: of_nat_add)
  qed
  then show "utf8_text t \<Longrightarrow> 0 \<notin> set t" by (auto simp: utf8_text_def list_all_iff)
qed

definition rx_start ::
  "emqtt_receive_state \<Rightarrow> emqtt_message_info \<Rightarrow> emqtt_fragment \<Rightarrow> (emqtt_receive_state \<times> emqtt_message_info) option option" where
  "rx_start r info f = (if \<not> active r then receive_first r info f
     else do { same \<leftarrow> topic_repeated info f; Some (if same then Some (r, info) else None) })"

definition rx_fits :: "emqtt_receive_state \<Rightarrow> emqtt_message_info \<Rightarrow> emqtt_fragment \<Rightarrow> bool" where
  "rx_fits r info f \<longleftrightarrow> frag_offset f = int (received r) \<and> describes info f \<and>
     \<not> (frag_data_length f = 0 \<and> frag_offset f \<noteq> 0)"

abbreviation rejected :: "emqtt_message_info \<Rightarrow> byte list \<Rightarrow>
    (emqtt_rx_result \<times> emqtt_receive_state \<times> emqtt_message_info \<times> byte list) option" where
  "rejected info payload \<equiv> Some (EMQTT_RX_REJECTED, \<lparr>received = 0, active = False\<rparr>, info, payload)"

lemma receive_into_rejects:
  "\<not> fragment_fields_ok cap f \<Longrightarrow> emqtt_receive_into r info payload cap (Some f) = rejected info payload"
  "fragment_fields_ok cap f \<Longrightarrow> rx_start r info f = Some None \<Longrightarrow>
    emqtt_receive_into r info payload cap (Some f) = rejected info payload"
  "fragment_fields_ok cap f \<Longrightarrow> rx_start r info f = Some (Some (r1, info1)) \<Longrightarrow> \<not> rx_fits r1 info1 f \<Longrightarrow>
    emqtt_receive_into r info payload cap (Some f) = rejected info1 payload"
  by (auto simp: emqtt_receive_into_def rx_start_def [symmetric] rx_fits_def describes_def Let_def)

lemma receive_into_accepts:
  assumes "frag_readable f" "fragment_fields_ok cap f" "cap = length payload"
    and st: "rx_start r info f = Some (Some (r1, info1))" and fit: "rx_fits r1 info1 f"
  defines "n \<equiv> received r1 + length (frag_bytes f)"
  shows "emqtt_receive_into r info payload cap (Some f) =
    Some (if n = info_length info1 then EMQTT_RX_COMPLETE else EMQTT_RX_MORE,
          r1\<lparr>received := n, active := (n \<noteq> info_length info1 \<and> active r1)\<rparr>, info1,
          take (received r1) payload @ frag_bytes f @ drop n payload)"
proof -
  have len: "length (frag_bytes f) = nat (frag_data_length f)" using length_frag_bytes assms(1,2) by blast
  have n: "n \<le> length payload"
    using assms(2,3) fit len by (auto simp: n_def fragment_fields_ok_def rx_fits_def)
  have copy: "(case frag_data f of None \<Rightarrow> Some payload
      | Some d \<Rightarrow> if frag_data_length f = 0 then Some payload
        else do { bs \<leftarrow> fetch d (nat (frag_data_length f)); store payload (received r1) bs }) =
      Some (take (received r1) payload @ frag_bytes f @ drop n payload)"
  proof (cases "frag_data f")
    case None
    then show ?thesis using assms(2) by (simp add: n_def frag_bytes_def fragment_fields_ok_def)
  next
    case (Some d)
    then have d: "nat (frag_data_length f) \<le> length d" "frag_bytes f = take (nat (frag_data_length f)) d"
      using assms(1) by (auto simp: frag_readable_def frag_bytes_def)
    show ?thesis
    proof (cases "frag_data_length f = 0")
      case True
      then show ?thesis using Some d by (simp add: n_def)
    next
      case False
      then show ?thesis using Some d n len by (simp add: fetch_def store_def n_def)
    qed
  qed
  show ?thesis
    using fit assms(2) st copy len
    by (auto simp: emqtt_receive_into_def rx_start_def [symmetric] rx_fits_def describes_def Let_def n_def)
qed

text \<open>The first fragment of a message, on an idle receiver.\<close>

lemma rx_start_idle:
  assumes "frag_readable f" "fragment_fields_ok cap f" "\<not> active r" "length (info_topic info) = 257"
  shows "if starts cap f then \<exists>info1 junk. rx_start r info f = Some (Some (r\<lparr>received := 0, active := True\<rparr>, info1)) \<and>
      info_topic info1 = frag_topic_text f @ 0 # junk \<and> length (info_topic info1) = 257 \<and> describes info1 f
    else rx_start r info f = Some None"
proof (cases "frag_topic f")
  case None
  then show ?thesis using assms by (auto simp: rx_start_def receive_first_def emqtt_topic_valid_def starts_def)
next
  case (Some t)
  let ?n = "nat (frag_topic_length f)"
  have n: "?n \<le> length t" using assms(1) Some by (simp add: frag_readable_def)
  have v: "emqtt_topic_valid (frag_topic f) ?n False = Some (topic_ok False (frag_topic_text f))"
    using emqtt_topic_valid_correct [OF n, of False] Some by (simp add: frag_topic_text_def)
  show ?thesis
  proof (cases "starts cap f")
    case False
    then show ?thesis using assms v Some by (auto simp: rx_start_def receive_first_def starts_def)
  next
    case True
    have t: "frag_topic_text f = take ?n t" "length (frag_topic_text f) = ?n" "?n \<le> 256"
      using True n Some by (auto simp: frag_topic_text_def starts_def topic_ok_def)
    have s1: "store (info_topic info) 0 (take ?n t) = Some (take ?n t @ drop ?n (info_topic info))"
      using t n assms(4) by (simp add: store_def)
    have s2: "store (take ?n t @ drop ?n (info_topic info)) ?n [0] = Some (take ?n t @ 0 # drop (Suc ?n) (info_topic info))"
      using t n assms(4) by (simp add: store_def)
    show ?thesis using True assms v Some n t s1 s2
      by (auto simp: rx_start_def receive_first_def fetch_def starts_def describes_def)
  qed
qed

text \<open>A further fragment.\<close>

lemma rx_start_active:
  assumes "frag_readable f" "fragment_fields_ok cap f" "assembling r info payload topic got"
  shows "rx_start r info f =
    Some (if frag_topic_length f \<noteq> 0 \<longrightarrow> frag_topic f \<noteq> None \<and> frag_topic_text f = topic then Some (r, info) else None)"
proof -
  obtain junk where a: "active r" "info_topic info = topic @ 0 # junk" "0 \<notin> set topic"
    using assms(3) by (auto simp: assembling_def)
  have "topic_repeated info f = Some (frag_topic_length f \<noteq> 0 \<longrightarrow> frag_topic f \<noteq> None \<and> frag_topic_text f = topic)"
  proof (cases "frag_topic_length f = 0 \<or> frag_topic f = None")
    case True
    then show ?thesis by (auto simp: topic_repeated_def)
  next
    case False
    then obtain t where t: "frag_topic f = Some t" "frag_topic_length f \<noteq> 0" by auto
    then have n: "nat (frag_topic_length f) \<le> length t" using assms(1) by (simp add: frag_readable_def)
    show ?thesis using t n a(2,3)
      by (auto simp: topic_repeated_def fetch_def frag_topic_text_def)
  qed
  then show ?thesis using a(1) by (simp add: rx_start_def)
qed

lemma frag_bytes_empty:
  "frag_readable f \<Longrightarrow> fragment_fields_ok cap f \<Longrightarrow> frag_data_length f = 0 \<longleftrightarrow> frag_bytes f = []"
  using length_frag_bytes [of f cap] by (auto simp: fragment_fields_ok_def)

text \<open>Receiving one fragment, exactly.\<close>

lemma receive_into_active:
  assumes "frag_readable f" "assembling r info payload topic got"
  shows "if continues info (length payload) topic got f
    then \<exists>r' payload'. emqtt_receive_into r info payload (length payload) (Some f) =
        Some (if length (got @ frag_bytes f) = info_length info then EMQTT_RX_COMPLETE else EMQTT_RX_MORE, r', info, payload') \<and>
      length payload' = length payload \<and> take (length (got @ frag_bytes f)) payload' = got @ frag_bytes f \<and>
      (if length (got @ frag_bytes f) = info_length info then \<not> active r'
       else assembling r' info payload' topic (got @ frag_bytes f))
    else emqtt_receive_into r info payload (length payload) (Some f) = rejected info payload"
proof (cases "fragment_fields_ok (length payload) f")
  case False
  then show ?thesis using receive_into_rejects(1) by (simp add: continues_def)
next
  case ok: True
  note st = rx_start_active [OF assms(1) ok assms(2)]
  have a: "active r" "received r = length got" "take (length got) payload = got" "length got < info_length info"
    "info_length info \<le> length payload"
    using assms(2) by (auto simp: assembling_def)
  show ?thesis
  proof (cases "continues info (length payload) topic got f")
    case True
    then have fit: "rx_fits r info f" and st': "rx_start r info f = Some (Some (r, info))"
      using a(2) st frag_bytes_empty [OF assms(1) ok] by (auto simp: rx_fits_def continues_def)
    have "frag_data_length f \<le> frag_total_length f - int (length got)" "0 \<le> frag_data_length f"
      "nat (frag_total_length f) = info_length info"
      using True ok by (simp_all add: continues_def describes_def fragment_fields_ok_def)
    then have le: "length (got @ frag_bytes f) \<le> info_length info"
      using length_frag_bytes [OF assms(1) ok] by simp
    define n p r' where "n = length (got @ frag_bytes f)" and "p = got @ frag_bytes f @ drop n payload"
      and "r' = r\<lparr>received := n, active := (n \<noteq> info_length info \<and> active r)\<rparr>"
    have "emqtt_receive_into r info payload (length payload) (Some f) =
        Some (if n = info_length info then EMQTT_RX_COMPLETE else EMQTT_RX_MORE, r', info, p)"
      using receive_into_accepts [OF assms(1) ok refl st' fit] unfolding a(2,3) n_def p_def r'_def length_append .
    moreover have "length p = length payload" "take n p = got @ frag_bytes f"
      using le a(5) by (simp_all add: p_def n_def)
    moreover have "if n = info_length info then \<not> active r' else assembling r' info p topic (got @ frag_bytes f)"
      using assms(2) calculation(2,3) le unfolding assembling_def by (auto simp: r'_def n_def)
    ultimately show ?thesis using True unfolding n_def by auto
  next
    case False
    show ?thesis
    proof (cases "frag_topic_length f \<noteq> 0 \<longrightarrow> frag_topic f \<noteq> None \<and> frag_topic_text f = topic")
      case True
      then have "rx_start r info f = Some (Some (r, info))" using st by simp
      moreover have "\<not> rx_fits r info f"
        using False True ok a(2) frag_bytes_empty [OF assms(1) ok] by (auto simp: rx_fits_def continues_def)
      ultimately show ?thesis using receive_into_rejects(3) [OF ok] False by simp
    next
      case False': False
      then have "rx_start r info f = Some None" using st by (simp only: if_False)
      then show ?thesis using receive_into_rejects(2) [OF ok] False by simp
    qed
  qed
qed

lemma receive_into_idle:
  assumes "frag_readable f" "\<not> active r" "length (info_topic info) = 257"
  shows "if starts (length payload) f
    then \<exists>r' info' payload'. emqtt_receive_into r info payload (length payload) (Some f) =
        Some (if length (frag_bytes f) = info_length info' then EMQTT_RX_COMPLETE else EMQTT_RX_MORE, r', info', payload') \<and>
      describes info' f \<and> (\<exists>junk. info_topic info' = frag_topic_text f @ 0 # junk) \<and> length (info_topic info') = 257 \<and>
      length payload' = length payload \<and> take (length (frag_bytes f)) payload' = frag_bytes f \<and>
      (if length (frag_bytes f) = info_length info' then \<not> active r'
       else assembling r' info' payload' (frag_topic_text f) (frag_bytes f))
    else emqtt_receive_into r info payload (length payload) (Some f) = rejected info payload"
proof (cases "fragment_fields_ok (length payload) f")
  case False
  then show ?thesis using receive_into_rejects(1) by (simp add: starts_def)
next
  case ok: True
  note st = rx_start_idle [OF assms(1) ok assms(2,3)]
  show ?thesis
  proof (cases "starts (length payload) f")
    case False
    then show ?thesis using st receive_into_rejects(2) [OF ok] by simp
  next
    case True
    then obtain info1 junk where st': "rx_start r info f = Some (Some (r\<lparr>received := 0, active := True\<rparr>, info1))"
      "info_topic info1 = frag_topic_text f @ 0 # junk" "length (info_topic info1) = 257" "describes info1 f"
      using st by auto
    have fit: "rx_fits (r\<lparr>received := 0, active := True\<rparr>) info1 f"
      using True st'(4) by (auto simp: rx_fits_def starts_def)
    have "length (frag_bytes f) \<le> info_length info1" "info_length info1 \<le> length payload"
      using ok st'(4) length_frag_bytes [OF assms(1) ok] by (auto simp: describes_def fragment_fields_ok_def)
    moreover have "0 \<notin> set (frag_topic_text f)"
      using True utf8_text_nonzero by (auto simp: starts_def topic_ok_def)
    ultimately show ?thesis
      using receive_into_accepts [OF assms(1) ok refl st'(1) fit] True st'(2-4)
      by (auto simp: assembling_def)
  qed
qed

text \<open>A sequence of fragments.\<close>

fun feed :: "emqtt_receive_state \<Rightarrow> emqtt_message_info \<Rightarrow> byte list \<Rightarrow> emqtt_fragment list \<Rightarrow>
    (emqtt_rx_result list \<times> emqtt_receive_state \<times> emqtt_message_info \<times> byte list) option" where
  "feed r info payload [] = Some ([], r, info, payload)"
| "feed r info payload (f # fs) = do {
     (res, r, info, payload) \<leftarrow> emqtt_receive_into r info payload (length payload) (Some f);
     (results, rest) \<leftarrow> feed r info payload fs;
     Some (res # results, rest)
   }"

lemma feed_active_sound:
  assumes "assembling r info payload topic got" "\<forall>f \<in> set fs. frag_readable f" "fs \<noteq> []"
    and "feed r info payload fs = Some (replicate (length fs - 1) EMQTT_RX_MORE @ [EMQTT_RX_COMPLETE], r', info', payload')"
  shows "info' = info \<and> \<not> active r' \<and> info_length info = length (got @ concat (map frag_bytes fs)) \<and>
    take (info_length info) payload' = got @ concat (map frag_bytes fs) \<and> (\<forall>f \<in> set fs. describes info f)"
  using assms
proof (induction fs arbitrary: r payload got)
  case (Cons f fs)
  have c: "continues info (length payload) topic got f"
    using receive_into_active [of f r info payload topic got] Cons.prems
    by (cases fs) (auto split: if_splits simp: bind_eq_Some_conv)
  obtain r1 payload1 where step: "emqtt_receive_into r info payload (length payload) (Some f) =
      Some (if length (got @ frag_bytes f) = info_length info then EMQTT_RX_COMPLETE else EMQTT_RX_MORE, r1, info, payload1)"
    "take (length (got @ frag_bytes f)) payload1 = got @ frag_bytes f"
    "if length (got @ frag_bytes f) = info_length info then \<not> active r1 else assembling r1 info payload1 topic (got @ frag_bytes f)"
    using receive_into_active [of f r info payload topic got] Cons.prems c by auto
  have d: "describes info f" using c by (simp add: continues_def)
  show ?case
  proof (cases fs)
    case Nil
    then have "length (got @ frag_bytes f) = info_length info" "r' = r1" "info' = info" "payload' = payload1"
      using Cons.prems(4) step(1) by (auto split: if_splits)
    then show ?thesis using step d Nil by auto
  next
    case (Cons g gs)
    have "length (got @ frag_bytes f) \<noteq> info_length info"
      using Cons.prems(4) step(1) Cons by (auto simp: bind_eq_Some_conv split: if_splits)
    moreover from this have "feed r1 info payload1 fs =
        Some (replicate (length fs - 1) EMQTT_RX_MORE @ [EMQTT_RX_COMPLETE], r', info', payload')"
      using Cons.prems(4) step(1) Cons by (auto simp: bind_eq_Some_conv)
    ultimately show ?thesis
      using Cons.IH [of r1 payload1 "got @ frag_bytes f"] step(3) Cons.prems(2) Cons d by auto
  qed
qed simp

text \<open>The fragments of a message that arrives in the given pieces: the topic comes with the first.\<close>

fun later_fragments :: "emqtt_fragment \<Rightarrow> nat \<Rightarrow> byte list list \<Rightarrow> emqtt_fragment list" where
  "later_fragments f off [] = []"
| "later_fragments f off (c # cs) =
     f\<lparr>frag_topic := None, frag_topic_length := 0, frag_data := Some c, frag_data_length := int (length c),
       frag_offset := int off\<rparr> # later_fragments f (off + length c) cs"

definition message_fragments :: "emqtt_fragment \<Rightarrow> byte list \<Rightarrow> byte list \<Rightarrow> byte list list \<Rightarrow> emqtt_fragment list" where
  "message_fragments f topic c cs =
     (let f = f\<lparr>frag_total_length := int (length (concat (c # cs)))\<rparr> in
      f\<lparr>frag_topic := Some topic, frag_topic_length := int (length topic), frag_data := Some c,
        frag_data_length := int (length c), frag_offset := 0\<rparr> # later_fragments f (length c) cs)"

definition meta_ok :: "emqtt_fragment \<Rightarrow> bool" where
  "meta_ok f \<longleftrightarrow> frag_qos f \<in> {0, 1} \<and> 0 \<le> frag_message_id f \<and> frag_message_id f \<le> 65535 \<and>
     (frag_qos f = 1 \<longleftrightarrow> frag_message_id f \<noteq> 0)"

lemma replicate_first: "xs \<noteq> [] \<Longrightarrow> replicate (length xs) x = x # replicate (length xs - 1) x"
  by (cases xs) auto

lemma feed_later:
  assumes "assembling r info payload topic got" "describes info f" "meta_ok f" "info_length info \<le> 4096"
    and "frag_total_length f = int (length (got @ concat cs))" "\<forall>c \<in> set cs. c \<noteq> []"
  shows "\<exists>r' payload'. feed r info payload (later_fragments f (length got) cs) =
      Some (replicate (length cs - 1) EMQTT_RX_MORE @ [EMQTT_RX_COMPLETE], r', info, payload') \<and>
    \<not> active r' \<and> take (info_length info) payload' = got @ concat cs"
  using assms
proof (induction cs arbitrary: r payload got)
  case Nil
  then show ?case by (simp add: assembling_def describes_def)
next
  case (Cons c cs)
  define g where "g = f\<lparr>frag_topic := None, frag_topic_length := 0, frag_data := Some c,
    frag_data_length := int (length c), frag_offset := int (length got)\<rparr>"
  have g: "frag_readable g" "frag_bytes g = c" "describes info g"
    using Cons.prems(2) by (simp_all add: g_def frag_readable_def frag_bytes_def describes_def)
  have il: "info_length info = length (got @ c @ concat cs)" "info_length info \<le> length payload"
    using Cons.prems(1,2,5) by (auto simp: describes_def assembling_def)
  have "fragment_fields_ok (length payload) g"
    using Cons.prems(3,4,5) il by (auto simp: fragment_fields_ok_def g_def meta_ok_def)
  then have "continues info (length payload) topic got g"
    using g Cons.prems(6) by (auto simp: continues_def g_def)
  then obtain r1 payload1 where step: "emqtt_receive_into r info payload (length payload) (Some g) =
      Some (if length (got @ c) = info_length info then EMQTT_RX_COMPLETE else EMQTT_RX_MORE, r1, info, payload1)"
    "take (length (got @ c)) payload1 = got @ c"
    "if length (got @ c) = info_length info then \<not> active r1 else assembling r1 info payload1 topic (got @ c)"
    using receive_into_active [OF g(1) Cons.prems(1)] g(2) by auto
  show ?case
  proof (cases "cs = []")
    case True
    then show ?thesis using step il by (simp add: g_def [symmetric])
  next
    case False
    then have more: "length (got @ c) \<noteq> info_length info"
      using il Cons.prems(6) by (cases cs; auto)
    then obtain r' payload' where "feed r1 info payload1 (later_fragments f (length (got @ c)) cs) =
      Some (replicate (length cs - 1) EMQTT_RX_MORE @ [EMQTT_RX_COMPLETE], r', info, payload')"
      "\<not> active r'" "take (info_length info) payload' = (got @ c) @ concat cs"
      using step(3) Cons.IH [of r1 payload1 "got @ c"] Cons.prems(2-6) by auto
    then show ?thesis using step(1) more replicate_first [OF False, of EMQTT_RX_MORE] by (simp add: g_def [symmetric])
  qed
qed

section \<open>SUBACK\<close>

lemma suback_loop_correct:
  "n \<le> length codes \<Longrightarrow> n \<le> length subs \<Longrightarrow>
   suback_loop codes subs n = Some (\<forall>i < n. unat (codes ! i) \<le> 1 \<and> unat (codes ! i) \<le> sub_qos (subs ! i))"
proof (induction codes subs n rule: suback_loop.induct)
  case (2 c codes s subs n)
  then show ?case by (auto simp: less_Suc_eq_0_disj)
qed auto

section \<open>Examples\<close>

definition pad :: "nat \<Rightarrow> byte list \<Rightarrow> byte list" where
  "pad n s = s @ replicate (n - length s) 0"

lemma text_of_pad: "0 \<notin> set s \<Longrightarrow> text_of (pad n s) = s"
proof (induction s arbitrary: n)
  case Nil
  show ?case by (cases n) (simp_all add: text_of_def pad_def)
next
  case (Cons c s)
  then show ?case using Cons.IH [of "n - 1"] by (simp add: text_of_def pad_def)
qed

lemma occurs_in_prefix: "n \<noteq> [] \<Longrightarrow> occurs_in n (n @ r)"
  by (cases n) auto

lemma occurs_in_suffix: "n \<noteq> [] \<Longrightarrow> occurs_in n (p @ n)"
  using occurs_in_prefix [of n "[]"] by (induction p) auto

lemma length_pad: "length s \<le> n \<Longrightarrow> length (pad n s) = n"
  by (simp add: pad_def)

definition sample_config :: emqtt_config where
  "sample_config = \<lparr>cfg_hostname = pad 254 [0x61, 0x2e, 0x62], cfg_port = 8883, cfg_tls = True,
     cfg_client_id = pad 129 [0x65], cfg_username = pad 129 [], cfg_password = pad 257 [],
     cfg_ca_pem = pad 4097 (pem_begin @ pem_end), cfg_will_topic = pad 257 [0x77], cfg_will_payload = replicate 512 0,
     cfg_will_length = 0, cfg_will_qos = 1, cfg_will_retain = False,
     cfg_subscriptions = replicate 8 \<lparr>sub_topic = pad 257 [0x23], sub_qos = 1\<rparr>, cfg_subscription_count = 1\<rparr>"

definition sample_fragment :: emqtt_fragment where
  "sample_fragment = \<lparr>frag_topic = None, frag_topic_length = 0, frag_data = None, frag_data_length = 0,
     frag_total_length = 0, frag_offset = 0, frag_message_id = 5, frag_qos = 1, frag_retain = False, frag_duplicate = False\<rparr>"

lemma utf8_text_ascii: "\<forall>c \<in> set s. 0x20 \<le> unat c \<and> unat c < 0x7f \<Longrightarrow> utf8_text s"
  unfolding utf8_text_def
proof (intro exI conjI)
  assume a: "\<forall>c \<in> set s. 0x20 \<le> unat c \<and> unat c < 0x7f"
  show "list_all text_char (map unat s)" using a by (auto simp: list_all_iff text_char_def)
  show "s = concat (map utf8_encode (map unat s))" using a by (induction s) (auto simp: utf8_encode_def)
qed

section \<open>Properties\<close>

text \<open>
  C24. \<open>utf8\<close> decides, reading only the given bytes, whether a text is the UTF-8 encoding of
  a sequence of characters other than surrogates, control characters and noncharacters;
  overlong encodings and truncated characters are therefore refused.
\<close>

theorem utf8_exact:
  assumes "len \<le> length tx"
  shows "utf8 tx len = Some (\<exists>cs. list_all text_char cs \<and> take len tx = concat (map utf8_encode cs))"
  using utf8_correct [OF assms] by (simp add: utf8_text_def)

theorem utf8_exact_witness:
  "utf8 [0xe2, 0x82, 0xac, 0] 3 = Some True \<and> utf8 [0xc0, 0xaf] 2 = Some False"
proof -
  have "\<exists>cs. list_all text_char cs \<and> take 3 [0xe2, 0x82, 0xac, 0] = concat (map utf8_encode cs)"
    by (rule exI [of _ "[0x20ac]"]) (simp add: text_char_def utf8_encode_def)
  then show ?thesis
    using utf8_exact [of 3 "[0xe2, 0x82, 0xac, 0]"]
    by (simp add: utf8_def utf8_from.simps load_def utf8_first_def)
qed

text \<open>
  C23. A topic is valid exactly if it has 1 to 256 bytes of valid UTF-8 and, in a filter,
  every wildcard is a whole level and \<open>#\<close> the last one; a topic name has no wildcard at all.
\<close>

theorem topic_valid_exact:
  assumes "len \<le> length t"
  shows "emqtt_topic_valid (Some t) len flt = Some (0 < len \<and> len \<le> 256 \<and> utf8_text (take len t) \<and>
    levels_ok flt (levels (take len t)))"
  using emqtt_topic_valid_correct [OF assms, of flt] assms by (auto simp: topic_ok_def)

theorem topic_valid_exact_witness:
  "emqtt_topic_valid (Some [0x61, 0x2f, 0x2b, 0x2f, 0x23]) 5 True = Some True \<and>
   emqtt_topic_valid (Some [0x61, 0x2b]) 2 True = Some False"
proof -
  have "utf8_text [0x61, 0x2f, 0x2b, 0x2f, 0x23]"
    unfolding utf8_text_def
    by (rule exI [of _ "[0x61, 0x2f, 0x2b, 0x2f, 0x23]"]) (simp add: text_char_def utf8_encode_def)
  then show ?thesis
    using topic_valid_exact [of 5 "[0x61, 0x2f, 0x2b, 0x2f, 0x23]" True] topic_valid_exact [of 2 "[0x61, 0x2b]" True]
    by (simp add: plain_level_def)
qed

text \<open>
  C15. Whatever the fragments: if a sequence of them, on an idle receiver, is answered with
  \<open>EMQTT_RX_MORE\<close> up to the last, which is answered with \<open>EMQTT_RX_COMPLETE\<close>, the payload buffer
  holds exactly the concatenation of their data, of the announced length, and the message
  information is that of every fragment, with the topic of the first, which is valid.
\<close>

theorem reassembly_sound:
  assumes "\<not> active r" "length (info_topic info) = 257" "\<forall>f \<in> set fs. frag_readable f" "fs \<noteq> []"
    and run: "feed r info payload fs = Some (replicate (length fs - 1) EMQTT_RX_MORE @ [EMQTT_RX_COMPLETE], r', info', payload')"
  shows "take (info_length info') payload' = concat (map frag_bytes fs) \<and>
    info_length info' = length (concat (map frag_bytes fs)) \<and> (\<forall>f \<in> set fs. describes info' f) \<and>
    topic_ok False (frag_topic_text (hd fs)) \<and> (\<exists>junk. info_topic info' = frag_topic_text (hd fs) @ 0 # junk) \<and> \<not> active r'"
proof -
  obtain f gs where fs: "fs = f # gs" using assms(4) by (cases fs) auto
  note spec = receive_into_idle [of f r info payload]
  have st: "starts (length payload) f"
    using spec assms(1-3) run fs by (cases gs) (auto simp: bind_eq_Some_conv split: if_splits)
  obtain r1 info1 payload1 where step: "emqtt_receive_into r info payload (length payload) (Some f) =
        Some (if length (frag_bytes f) = info_length info1 then EMQTT_RX_COMPLETE else EMQTT_RX_MORE, r1, info1, payload1)"
      "describes info1 f" "\<exists>junk. info_topic info1 = frag_topic_text f @ 0 # junk"
      "take (length (frag_bytes f)) payload1 = frag_bytes f"
      "if length (frag_bytes f) = info_length info1 then \<not> active r1
       else assembling r1 info1 payload1 (frag_topic_text f) (frag_bytes f)"
    using spec assms(1-3) st fs by auto
  have t: "topic_ok False (frag_topic_text f)" using st by (simp add: starts_def)
  show ?thesis
  proof (cases "gs = []")
    case True
    then have "length (frag_bytes f) = info_length info1" "r' = r1" "info' = info1" "payload' = payload1"
      using run step(1) fs by (auto split: if_splits)
    then show ?thesis using step t fs True by auto
  next
    case False
    then have len: "replicate (length fs - 1) EMQTT_RX_MORE = EMQTT_RX_MORE # replicate (length gs - 1) EMQTT_RX_MORE"
      using fs replicate_first [OF False] by simp
    then have more: "length (frag_bytes f) \<noteq> info_length info1"
      and "feed r1 info1 payload1 gs = Some (replicate (length gs - 1) EMQTT_RX_MORE @ [EMQTT_RX_COMPLETE], r', info', payload')"
      using run [unfolded len] step(1) fs by (auto simp: bind_eq_Some_conv split: if_splits)
    then show ?thesis
      using feed_active_sound [of r1 info1 payload1 "frag_topic_text f" "frag_bytes f" gs r' info' payload'] step t fs False assms(3)
      by auto
  qed
qed

theorem reassembly_sound_witness:
  "\<exists>r' info' payload'. feed \<lparr>received = 0, active = False\<rparr> empty_info (replicate 4 0)
      (message_fragments sample_fragment [0x74] [1, 2] [[3]]) =
      Some ([EMQTT_RX_MORE, EMQTT_RX_COMPLETE], r', info', payload') \<and> take (info_length info') payload' = [1, 2, 3]"
proof -
  let ?fs = "message_fragments sample_fragment [0x74] [1, 2] [[3]]"
  have t: "emqtt_topic_valid (Some [0x74]) 1 False = Some True"
    by (simp add: emqtt_topic_valid_def utf8_def utf8_from.simps utf8_first_def load_def utf8_code_bad_def topic_loop.simps)
  obtain r' info' payload' where run: "feed \<lparr>received = 0, active = False\<rparr> empty_info (replicate 4 0) ?fs =
      Some ([EMQTT_RX_MORE, EMQTT_RX_COMPLETE], r', info', payload')"
    by (simp add: message_fragments_def sample_fragment_def empty_info_def Let_def emqtt_receive_into_def fragment_fields_ok_def
        receive_first_def t [simplified] fetch_def store_def topic_repeated_def)
  have fs: "concat (map frag_bytes ?fs) = [1, 2, 3]" "\<forall>f \<in> set ?fs. frag_readable f" "length ?fs = 2" "?fs \<noteq> []"
    by (simp_all add: message_fragments_def sample_fragment_def frag_bytes_def frag_readable_def Let_def)
  have "take (info_length info') payload' = concat (map frag_bytes ?fs)"
    by (rule conjunct1 [OF reassembly_sound [OF _ _ fs(2,4), of "\<lparr>received = 0, active = False\<rparr>" empty_info "replicate 4 0" r']])
       (use run in \<open>simp_all add: fs(3)\<close>, simp add: empty_info_def)
  then show ?thesis using run fs(1) by auto
qed

text \<open>
  C16. Every message of at most 4096 bytes that fits the buffer, with a valid topic, is
  accepted in whatever non-empty pieces it arrives (or in one empty piece), and completes
  exactly with its last piece.
\<close>

theorem reassembly_complete:
  assumes "\<not> active r" "length (info_topic info) = 257" "topic_ok False topic" "meta_ok f"
    and "length (concat (c # cs)) \<le> 4096" "length (concat (c # cs)) \<le> length payload"
    and "\<forall>d \<in> set cs. d \<noteq> []" "c \<noteq> [] \<or> cs = []"
  shows "\<exists>r' info' payload'. feed r info payload (message_fragments f topic c cs) =
      Some (replicate (length cs) EMQTT_RX_MORE @ [EMQTT_RX_COMPLETE], r', info', payload') \<and>
    \<not> active r' \<and> info_length info' = length (concat (c # cs)) \<and>
    take (info_length info') payload' = concat (c # cs)"
proof -
  define h where "h = f\<lparr>frag_total_length := int (length (concat (c # cs)))\<rparr>"
  define g where "g = h\<lparr>frag_topic := Some topic, frag_topic_length := int (length topic), frag_data := Some c,
    frag_data_length := int (length c), frag_offset := 0\<rparr>"
  have g: "frag_readable g" "frag_bytes g = c" "frag_topic_text g = topic"
    by (simp_all add: g_def frag_readable_def frag_bytes_def frag_topic_text_def)
  have h: "meta_ok h" "frag_total_length h = int (length (concat (c # cs)))" using assms(4) by (auto simp: h_def meta_ok_def)
  have "starts (length payload) g"
  proof -
    have "fragment_fields_ok (length payload) g"
      unfolding fragment_fields_ok_def using h assms(5,6) by (auto simp: g_def meta_ok_def)
    then show ?thesis using assms(3) g(3) by (simp add: starts_def) (simp add: g_def)
  qed
  then obtain r1 info1 payload1 where step: "emqtt_receive_into r info payload (length payload) (Some g) =
        Some (if length c = info_length info1 then EMQTT_RX_COMPLETE else EMQTT_RX_MORE, r1, info1, payload1)"
      "describes info1 g" "take (length c) payload1 = c"
      "if length c = info_length info1 then \<not> active r1 else assembling r1 info1 payload1 topic c"
    using receive_into_idle [OF g(1) assms(1,2), of payload] g(2,3) by auto
  have d: "describes info1 h" "info_length info1 = length (concat (c # cs))"
    using step(2) h(2) by (auto simp: g_def describes_def)
  have fr: "message_fragments f topic c cs = g # later_fragments h (length c) cs"
    by (simp add: message_fragments_def h_def g_def Let_def)
  show ?thesis
  proof (cases "cs = []")
    case True
    then show ?thesis using step d fr by simp
  next
    case False
    then have more: "length c \<noteq> info_length info1"
      using d(2) assms(7) by (cases cs; auto)
    then obtain r' payload' where "feed r1 info1 payload1 (later_fragments h (length c) cs) =
        Some (replicate (length cs - 1) EMQTT_RX_MORE @ [EMQTT_RX_COMPLETE], r', info1, payload')"
      "\<not> active r'" "take (info_length info1) payload' = c @ concat cs"
      using feed_later [of r1 info1 payload1 topic c h cs] step(4) d h assms(5,7) by auto
    then show ?thesis using step(1) more d(2) fr replicate_first [OF False, of EMQTT_RX_MORE] by simp
  qed
qed

theorem reassembly_complete_witness:
  "\<exists>r' info' payload'. feed \<lparr>received = 0, active = False\<rparr> empty_info (replicate 4 0)
      (message_fragments sample_fragment [0x74] [1, 2] [[3], [4]]) =
      Some ([EMQTT_RX_MORE, EMQTT_RX_MORE, EMQTT_RX_COMPLETE], r', info', payload') \<and>
    take (info_length info') payload' = [1, 2, 3, 4]"
proof -
  have "topic_ok False [0x74]" by (simp add: topic_ok_def utf8_text_ascii plain_level_def)
  moreover have "meta_ok sample_fragment" by (simp add: meta_ok_def sample_fragment_def)
  ultimately show ?thesis
    using reassembly_complete [of "\<lparr>received = 0, active = False\<rparr>" empty_info "[0x74]" sample_fragment "[1, 2]" "[[3], [4]]" "replicate 4 0"]
    by (auto simp: empty_info_def)
qed

text \<open>
  C26. A SUBACK is accepted exactly if it has one code for each of the 1 to 8 requested
  subscriptions and every code grants a QoS of 0 or 1 not above the requested one.
\<close>

theorem suback_valid_exact:
  assumes "count \<le> length codes" "expected \<le> length subs"
  shows "emqtt_suback_valid (Some codes) count (Some subs) expected =
    Some (0 < expected \<and> expected \<le> 8 \<and> count = expected \<and>
      (\<forall>i < count. unat (codes ! i) \<le> 1 \<and> unat (codes ! i) \<le> sub_qos (subs ! i)))"
  using suback_loop_correct [OF assms(1), of subs] assms(2)
  by (auto simp: emqtt_suback_valid_def)

theorem suback_valid_exact_witness:
  "emqtt_suback_valid (Some [1]) 1 (Some [\<lparr>sub_topic = [0x61], sub_qos = 0\<rparr>]) 1 = Some False"
  using suback_valid_exact [of 1 "[1]" 1 "[\<lparr>sub_topic = [0x61], sub_qos = 0\<rparr>]"] by simp

lemma config_valid_correct:
  assumes "config_arrays c"
  shows "emqtt_config_valid (Some c) lab = Some (config_ok lab c)"
proof -
  note a = assms [unfolded config_arrays_def]
  have bl: "bounded_length (cfg_hostname c) 254 = Some (length (text_of (cfg_hostname c)))"
    "bounded_length (cfg_client_id c) 129 = Some (length (text_of (cfg_client_id c)))"
    "bounded_length (cfg_username c) 129 = Some (length (text_of (cfg_username c)))"
    "bounded_length (cfg_password c) 257 = Some (length (text_of (cfg_password c)))"
    "bounded_length (cfg_ca_pem c) 4097 = Some (length (text_of (cfg_ca_pem c)))"
    using a bounded_length_eq by metis+
  have le: "length (text_of (cfg_hostname c)) \<le> 254" "length (text_of (cfg_client_id c)) \<le> 129"
    "length (text_of (cfg_username c)) \<le> 129" "length (text_of (cfg_password c)) \<le> 257"
    "length (text_of (cfg_ca_pem c)) \<le> 4097"
    using a length_text_of by metis+
  have u: "utf8 t (length (text_of t)) = Some (utf8_text (text_of t))" for t
    using utf8_correct [OF length_text_of, of t] by (simp add: take_text_of)
  have host: "host_valid c = Some (let host = text_of (cfg_hostname c) in host \<noteq> [] \<and> length host < 254 \<and> host_ok host)"
    using host_loop_host_ok [OF length_text_of, of "cfg_hostname c"] le(1)
    by (auto simp: host_valid_def bl take_text_of Let_def)
  have ident: "identity_valid c = Some ((let cid = text_of (cfg_client_id c) in cid \<noteq> [] \<and> length cid < 129 \<and> utf8_text cid) \<and>
     (let user = text_of (cfg_username c); pass = text_of (cfg_password c) in
        length user < 129 \<and> length pass < 257 \<and> utf8_text user \<and> utf8_text pass \<and> (user = [] \<longrightarrow> pass = [])))"
    using le by (auto simp: identity_valid_def bl u Let_def)
  have cert: "cert_valid c = Some (let pem = text_of (cfg_ca_pem c) in length pem < 4097 \<and>
        (if cfg_tls c then pem \<noteq> [] \<and> occurs_in pem_begin pem \<and> occurs_in pem_end pem else pem = []))"
    using le by (auto simp: cert_valid_def bl take_text_of Let_def)
  have subs: "\<forall>s \<in> set (take (cfg_subscription_count c) (cfg_subscriptions c)). length (sub_topic s) = 257"
    using a by (meson in_set_takeD)
  have subs': "subscriptions_valid [] (take (cfg_subscription_count c) (cfg_subscriptions c)) =
     Some (let subs = take (cfg_subscription_count c) (cfg_subscriptions c) in
        (\<forall>s \<in> set subs. sub_qos s \<le> 1 \<and> topic_ok True (text_of (sub_topic s))) \<and>
        distinct (map (\<lambda>s. text_of (sub_topic s)) subs))"
    using subscriptions_valid_correct [OF subs, of "[]"] by (simp add: Let_def)
  have will: "array_topic_valid (cfg_will_topic c) False = Some (topic_ok False (text_of (cfg_will_topic c)))"
    and payload: "length (cfg_will_payload c) = 512"
    using a array_topic_valid_correct [of "cfg_will_topic c" False] by simp_all
  show ?thesis
    by (simp only: emqtt_config_valid_def option.case host ident cert will subs' payload both_conj config_ok_def conj_assoc)
qed

lemma sample_config_arrays: "config_arrays sample_config"
  by (simp add: config_arrays_def sample_config_def length_pad pem_begin_def pem_end_def)

lemma sample_config_ok: "config_ok False sample_config"
proof -
  have pem: "text_of (pad 4097 (pem_begin @ pem_end)) = pem_begin @ pem_end"
    by (rule text_of_pad) (simp add: pem_begin_def pem_end_def)
  have occ: "occurs_in pem_begin (pem_begin @ pem_end)" "occurs_in pem_end (pem_begin @ pem_end)"
    by (rule occurs_in_prefix, simp add: pem_begin_def, rule occurs_in_suffix, simp add: pem_end_def)
  have len: "length pem_begin = 27" "length pem_end = 25" "pem_begin \<noteq> []"
    by (simp_all add: pem_begin_def pem_end_def)
  show ?thesis
    by (simp add: config_ok_def sample_config_def text_of_pad pem occ len Let_def host_ok_def host_label_ok_def
        host_label_part_def alnum_def utf8_text_ascii topic_ok_def plain_level_def)
qed

text \<open>
  C25. \<open>emqtt_config_valid\<close> never reads outside the arrays of a configuration, and accepts it
  exactly if it has a port, TLS with a certificate (or, in the lab mode without TLS, no
  certificate), a host name of proper labels, a client identifier, a user name whenever
  there is a password, all texts zero-terminated and UTF-8, a valid will topic, and
  subscriptions of valid filters, all different.
\<close>

theorem config_valid_exact:
  assumes "config_arrays c"
  shows "emqtt_config_valid (Some c) lab = Some (config_ok lab c)"
  using assms by (rule config_valid_correct)

theorem config_valid_exact_witness:
  "emqtt_config_valid (Some sample_config) False = Some True"
  using config_valid_exact [OF sample_config_arrays, of False] sample_config_ok by simp

end
