(* ===== verification/Emqtt_Runtime_Inv.thy ===== *)
theory Emqtt_Runtime_Inv
  imports Rtos_Queue Emqtt_Contract_Props "HOL-Library.Multiset"
begin

text \<open>
  The invariant of the runtime of \<^verbatim>\<open>runtime/emqtt.c\<close> and the handler of client events under
  it: where the three message slots are, what a stored message looks like, and what each
  event does to the queue of notices, the receiver and the waiting messages.
\<close>

section \<open>The invariant\<close>

text \<open>
  The three slots are shared out between the queue of free slots, the notices that carry a
  message, the receiver and slots in transit. A slot has a message exactly if a notice
  carries it or it is in transit.
\<close>

definition slot_of :: "notice \<Rightarrow> int list" where
  "slot_of n = (if n_slot n \<ge> 0 then [n_slot n] else [])"

definition receiver_slots :: "('n, 's) emqtt_runtime \<Rightarrow> int list" where
  "receiver_slots r = (if rt_receiver_slot r \<ge> 0 then [rt_receiver_slot r] else [])"

definition message_ok :: "emqtt_owned_message \<Rightarrow> bool" where
  "message_ok m \<longleftrightarrow> length (own_payload m) = info_length (own_info m) \<and> info_length (own_info m) \<le> 4096 \<and>
     length (info_topic (own_info m)) = 257 \<and> topic_ok False (text_of (info_topic (own_info m))) \<and>
     info_qos (own_info m) \<le> 1"

definition notice_ok :: "notice \<Rightarrow> bool" where
  "notice_ok n \<longleftrightarrow> (n_kind n = EMQTT_EVENT_MESSAGE \<longleftrightarrow> n_slot n \<ge> 0) \<and> length (n_suback n) = 8 \<and> n_suback_count n \<le> 8"

definition receiver_ok :: "('n, 's) emqtt_runtime \<Rightarrow> bool" where
  "receiver_ok r \<longleftrightarrow>
     (case rt_receiver_message r of
        None \<Rightarrow> rt_receiver_slot r = -1 \<and> \<not> active (rt_receiver r)
      | Some m \<Rightarrow> message_ok m \<and>
          (\<exists>topic got. assembling (rt_receiver r) (own_info m) (own_payload m) topic got))"

text \<open>
  The desired subscriptions are always a list that could have been configured; a pending
  request fits to them; the recorded size of the certificate is right.
\<close>

definition subs_valid :: "emqtt_subscription list \<Rightarrow> bool" where
  "subs_valid ss \<longleftrightarrow>
     (\<forall>s \<in> set ss. length (sub_topic s) = 257 \<and> sub_qos s \<le> 1 \<and> topic_ok True (text_of (sub_topic s))) \<and>
     distinct (map (\<lambda>s. text_of (sub_topic s)) ss)"

abbreviation desired :: "('n, 's) emqtt_runtime \<Rightarrow> emqtt_subscription list" where
  "desired r \<equiv> take (rt_subscription_count r) (rt_subscriptions r)"

definition owner_ok :: "('n, 's) emqtt_runtime \<Rightarrow> bool" where
  "owner_ok r \<longleftrightarrow> length (rt_subscriptions r) = 8 \<and> rt_subscription_count r \<le> 8 \<and> subs_valid (desired r) \<and>
     length (sub_topic (rt_pending_subscription r)) = 257 \<and>
     (rt_pending_dynamic_subscribe r \<longrightarrow> rt_subscription_count r < 8 \<and> rt_pending_subscribe_count r = 1 \<and>
        subs_valid (desired r @ [rt_pending_subscription r])) \<and>
     (rt_pending_unsubscribe r > 0 \<longrightarrow> rt_pending_unsubscribe_index r < rt_subscription_count r) \<and>
     (rt_state r = EMQTT_READY \<longrightarrow> rt_pending_subscribe r \<le> 0 \<and> rt_pending_unsubscribe r \<le> 0 \<and>
        \<not> rt_pending_dynamic_subscribe r) \<and>
     (\<forall>b. rt_ca_pem r = Some b \<longrightarrow> length b = rt_ca_size_bytes r)"

definition messages_ok :: "int set \<Rightarrow> emqtt_owned_message option list \<Rightarrow> bool" where
  "messages_ok S ms \<longleftrightarrow> length ms = 3 \<and> (\<forall>i < 3. ms ! i \<noteq> None \<longleftrightarrow> int i \<in> S) \<and> (\<forall>m. Some m \<in> set ms \<longrightarrow> message_ok m)"

definition runtime_core :: "notice list \<Rightarrow> int list \<Rightarrow> int list \<Rightarrow> ('n, 's) emqtt_runtime \<Rightarrow> bool" where
  "runtime_core ns fs transit r \<longleftrightarrow>
     mset fs + mset (concat (map slot_of ns)) + mset (receiver_slots r) + mset transit = mset [0, 1, 2] \<and>
     messages_ok (set (concat (map slot_of ns)) \<union> set transit) (rt_messages r) \<and>
     (\<forall>n \<in> set ns. notice_ok n) \<and> receiver_ok r \<and> owner_ok r"

lemma slots_bound:
  assumes "runtime_core ns fs transit r"
  shows "set fs \<union> set (concat (map slot_of ns)) \<union> set (receiver_slots r) \<union> set transit = {0, 1, 2}"
    and "length fs + length (concat (map slot_of ns)) + length (receiver_slots r) + length transit = 3"
proof -
  have m: "mset (fs @ concat (map slot_of ns) @ receiver_slots r @ transit) = mset [0, 1, 2]"
    using assms by (simp add: runtime_core_def ac_simps)
  show "set fs \<union> set (concat (map slot_of ns)) \<union> set (receiver_slots r) \<union> set transit = {0, 1, 2}"
    using mset_eq_setD [OF m] by auto
  show "length fs + length (concat (map slot_of ns)) + length (receiver_slots r) + length transit = 3"
    using mset_eq_length [OF m] by simp
qed

section \<open>Slots and notices under the invariant\<close>

definition runtime_rep ::
  "('n \<Rightarrow> notice list \<Rightarrow> bool) \<Rightarrow> ('s \<Rightarrow> int list \<Rightarrow> bool) \<Rightarrow> notice list \<Rightarrow> int list \<Rightarrow> int list \<Rightarrow>
     ('n, 's) emqtt_runtime \<Rightarrow> bool" where
  "runtime_rep nrep srep ns fs transit r \<longleftrightarrow>
     nrep (rt_notices r) ns \<and> srep (rt_free_slots r) fs \<and> runtime_core ns fs transit r"

text \<open>All of it but the condition on the receiver.\<close>

definition runtime_flux where
  "runtime_flux nrep srep ns fs t r \<longleftrightarrow> nrep (rt_notices r) ns \<and> srep (rt_free_slots r) fs \<and>
     mset fs + mset (concat (map slot_of ns)) + mset (receiver_slots r) + mset t = mset [0, 1, 2] \<and>
     messages_ok (set (concat (map slot_of ns)) \<union> set t) (rt_messages r) \<and> (\<forall>n \<in> set ns. notice_ok n) \<and> owner_ok r"

lemma runtime_rep_flux: "runtime_rep nrep srep ns fs t r \<longleftrightarrow> runtime_flux nrep srep ns fs t r \<and> receiver_ok r"
  by (auto simp: runtime_rep_def runtime_flux_def runtime_core_def)

text \<open>The fields that only the owner writes.\<close>

definition owner_part where
  "owner_part r = (rt_owner r, rt_tls r, rt_ca_pem r, rt_ca_size_bytes r, rt_subscriptions r, rt_subscription_count r,
     rt_started r, rt_faulted r, rt_state r, rt_pending_subscribe r, rt_pending_unsubscribe r,
     rt_pending_subscribe_count r, rt_pending_unsubscribe_index r, rt_pending_subscription r,
     rt_pending_dynamic_subscribe r, rt_subscription_deadline_us r)"

text \<open>The complete messages that wait for the owner, in order.\<close>

definition inbox :: "notice list \<Rightarrow> ('n, 's) emqtt_runtime \<Rightarrow> emqtt_owned_message list" where
  "inbox ns r = map (\<lambda>s. the (rt_messages r ! nat s)) (concat (map slot_of ns))"

lemma owner_ok_owner: "owner_part r' = owner_part r \<Longrightarrow> owner_ok r' = owner_ok r"
  by (simp add: owner_part_def owner_ok_def)

lemma receiver_frame:
  assumes "rt_receiver r' = rt_receiver r" "rt_receiver_message r' = rt_receiver_message r"
    "rt_receiver_slot r' = rt_receiver_slot r"
  shows "receiver_slots r' = receiver_slots r" "receiver_ok r' = receiver_ok r"
  using assms by (cases "rt_receiver_message r"; simp add: receiver_slots_def receiver_ok_def)+

lemma owner_part_frame [simp]:
  "owner_part (r\<lparr>rt_notices := v0\<rparr>) = owner_part r"
  "owner_part (r\<lparr>rt_free_slots := v1\<rparr>) = owner_part r"
  "owner_part (r\<lparr>rt_capacity := v2\<rparr>) = owner_part r"
  "owner_part (r\<lparr>rt_overflow := v3\<rparr>) = owner_part r"
  "owner_part (r\<lparr>rt_receiver := v4\<rparr>) = owner_part r"
  "owner_part (r\<lparr>rt_receiver_message := v5\<rparr>) = owner_part r"
  "owner_part (r\<lparr>rt_receiver_slot := v6\<rparr>) = owner_part r"
  "owner_part (r\<lparr>rt_messages := v7\<rparr>) = owner_part r"
  by (simp_all add: owner_part_def)

lemma inbox_frame [simp]:
  "inbox ns (r\<lparr>rt_notices := v0\<rparr>) = inbox ns r"
  "inbox ns (r\<lparr>rt_free_slots := v1\<rparr>) = inbox ns r"
  "inbox ns (r\<lparr>rt_capacity := v2\<rparr>) = inbox ns r"
  "inbox ns (r\<lparr>rt_overflow := v3\<rparr>) = inbox ns r"
  "inbox ns (r\<lparr>rt_receiver := v4\<rparr>) = inbox ns r"
  "inbox ns (r\<lparr>rt_receiver_message := v5\<rparr>) = inbox ns r"
  "inbox ns (r\<lparr>rt_receiver_slot := v6\<rparr>) = inbox ns r"
  "inbox ns (r\<lparr>rt_state := v7\<rparr>) = inbox ns r"
  "inbox ns (r\<lparr>rt_started := v8\<rparr>) = inbox ns r"
  "inbox ns (r\<lparr>rt_faulted := v9\<rparr>) = inbox ns r"
  "inbox ns (r\<lparr>rt_subscriptions := v10\<rparr>) = inbox ns r"
  "inbox ns (r\<lparr>rt_subscription_count := v11\<rparr>) = inbox ns r"
  "inbox ns (r\<lparr>rt_pending_subscribe := v12\<rparr>) = inbox ns r"
  "inbox ns (r\<lparr>rt_pending_unsubscribe := v13\<rparr>) = inbox ns r"
  "inbox ns (r\<lparr>rt_pending_subscribe_count := v14\<rparr>) = inbox ns r"
  "inbox ns (r\<lparr>rt_pending_unsubscribe_index := v15\<rparr>) = inbox ns r"
  "inbox ns (r\<lparr>rt_pending_subscription := v16\<rparr>) = inbox ns r"
  "inbox ns (r\<lparr>rt_pending_dynamic_subscribe := v17\<rparr>) = inbox ns r"
  "inbox ns (r\<lparr>rt_subscription_deadline_us := v18\<rparr>) = inbox ns r"
  by (simp_all add: inbox_def)

lemma inbox_append: "inbox (ns @ ms) r = inbox ns r @ inbox ms r"
  by (simp add: inbox_def)

lemma release_dynamic_message_ok:
  "message_ok m \<Longrightarrow> release_dynamic_message (Some m) = Some (replicate (info_length (own_info m)) 0)"
  by (simp add: release_dynamic_message_def message_ok_def store_def)

lemma slot_index: "s \<in> {0, 1, 2 :: int} \<Longrightarrow> 0 \<le> s \<and> s < 3 \<and> nat s < 3 \<and> int (nat s) = s"
  by auto

lemma core_transit:
  assumes "runtime_core ns fs (s # t) r"
  shows "s \<in> {0, 1, 2}" "\<exists>m. rt_messages r ! nat s = Some m \<and> message_ok m" "length (rt_messages r) = 3"
    "s \<notin> set (concat (map slot_of ns)) \<union> set t" "length fs < 3"
proof -
  show s: "s \<in> {0, 1, 2}" using slots_bound(1) [OF assms] by auto
  show "length (rt_messages r) = 3" using assms by (simp add: runtime_core_def messages_ok_def)
  show "\<exists>m. rt_messages r ! nat s = Some m \<and> message_ok m"
    using assms slot_index [OF s] unfolding runtime_core_def messages_ok_def
    by (metis Un_iff list.set_intros(1) not_Some_eq nth_mem)
  show "length fs < 3" using slots_bound(2) [OF assms] by simp
  have m: "mset (fs @ concat (map slot_of ns) @ receiver_slots r @ s # t) = mset [0, 1, 2]"
    using assms by (simp add: runtime_core_def ac_simps)
  have "distinct (fs @ concat (map slot_of ns) @ receiver_slots r @ s # t)"
    using mset_eq_imp_distinct_iff [OF m] by simp
  then show "s \<notin> set (concat (map slot_of ns)) \<union> set t" by auto
qed

lemma messages_ok_clear:
  assumes "messages_ok (insert s S) ms" "s \<in> {0, 1, 2}" "s \<notin> S"
  shows "messages_ok S (ms[nat s := None])"
proof -
  have "set (ms[nat s := None]) \<subseteq> insert None (set ms)" by (rule set_update_subset_insert)
  then have "message_ok m" if "Some m \<in> set (ms[nat s := None])" for m
    using that assms(1) by (auto simp: messages_ok_def)
  moreover have "ms[nat s := None] ! i \<noteq> None \<longleftrightarrow> int i \<in> S" if "i < 3" for i
    using that assms slot_index [OF assms(2)] by (cases "i = nat s") (auto simp: messages_ok_def)
  ultimately show ?thesis using assms(1) by (simp add: messages_ok_def)
qed

lemma messages_ok_set:
  assumes "messages_ok S ms" "s \<in> {0, 1, 2}" "message_ok m"
  shows "messages_ok (insert s S) (ms[nat s := Some m])"
proof -
  have "set (ms[nat s := Some m]) \<subseteq> insert (Some m) (set ms)" by (rule set_update_subset_insert)
  then have "message_ok m'" if "Some m' \<in> set (ms[nat s := Some m])" for m'
    using that assms(1,3) by (auto simp: messages_ok_def)
  moreover have "ms[nat s := Some m] ! i \<noteq> None \<longleftrightarrow> int i \<in> insert s S" if "i < 3" for i
    using that assms slot_index [OF assms(2)] by (cases "i = nat s") (auto simp: messages_ok_def)
  ultimately show ?thesis using assms(1) by (simp add: messages_ok_def)
qed

lemma inbox_update:
  assumes "s \<in> {0, 1, 2}" "set (concat (map slot_of ns)) \<subseteq> {0, 1, 2}" "s \<notin> set (concat (map slot_of ns))"
  shows "inbox ns (r\<lparr>rt_messages := (rt_messages r)[nat s := v]\<rparr>) = inbox ns r"
proof -
  have "nat s \<noteq> nat x" if "x \<in> set (concat (map slot_of ns))" for x
    using that assms by (metis int_nat_eq slot_index subsetD)
  then show ?thesis unfolding inbox_def by (intro map_cong refl) (simp add: nth_list_update_neq)
qed

locale runtime_queues =
  notices: rtos_queue nq nrep 16 + slots: rtos_queue sq srep 3
  for nq :: "('n, notice) queue_ops" and nrep :: "'n \<Rightarrow> notice list \<Rightarrow> bool"
    and sq :: "('s, int) queue_ops" and srep :: "'s \<Rightarrow> int list \<Rightarrow> bool"
begin

lemma give_slot_ok:
  assumes "srep (rt_free_slots r) fs" "length fs < 3"
  shows "\<exists>q. give_slot sq r s = r\<lparr>rt_free_slots := q\<rparr> \<and> srep q (fs @ [s])"
  using slots.send_room [OF assms, of s] by (auto simp: give_slot_def Let_def)

lemma release_message_slot_ok:
  assumes "runtime_rep nrep srep ns fs (s # t) r"
  shows "\<exists>q. release_message_slot sq r s =
      Some (r\<lparr>rt_messages := (rt_messages r)[nat s := None], rt_free_slots := q\<rparr>) \<and>
    runtime_rep nrep srep ns (fs @ [s]) t (r\<lparr>rt_messages := (rt_messages r)[nat s := None], rt_free_slots := q\<rparr>)"
proof -
  have core: "runtime_core ns fs (s # t) r" and rep: "nrep (rt_notices r) ns" "srep (rt_free_slots r) fs"
    using assms by (auto simp: runtime_rep_def)
  note tr = core_transit [OF core]
  obtain m where m: "rt_messages r ! nat s = Some m" "message_ok m" using tr(2) by auto
  let ?r = "r\<lparr>rt_messages := (rt_messages r)[nat s := None]\<rparr>"
  obtain q where q: "give_slot sq ?r s = ?r\<lparr>rt_free_slots := q\<rparr>" "srep q (fs @ [s])"
    using give_slot_ok [of ?r fs s] rep(2) tr(5) by auto
  have "release_message_slot sq r s = Some (?r\<lparr>rt_free_slots := q\<rparr>)"
    using tr(3) slot_index [OF tr(1)] m q(1)
    by (simp add: release_message_slot_def detach_message_slot_def release_dynamic_message_ok)
  moreover have "runtime_core ns (fs @ [s]) t (?r\<lparr>rt_free_slots := q\<rparr>)"
    using core tr(4) messages_ok_clear [OF _ tr(1,4), of "rt_messages r"]
      receiver_frame [of "?r\<lparr>rt_free_slots := q\<rparr>" r] owner_ok_owner [of "?r\<lparr>rt_free_slots := q\<rparr>" r]
    by (simp add: runtime_core_def owner_part_def)
  ultimately show ?thesis using rep(1) q(2) by (intro exI [of _ q]) (simp add: runtime_rep_def)
qed

lemma core_frame:
  assumes "runtime_core ns fs t r" "rt_messages r' = rt_messages r" "rt_receiver r' = rt_receiver r"
    "rt_receiver_message r' = rt_receiver_message r" "rt_receiver_slot r' = rt_receiver_slot r"
    "owner_part r' = owner_part r"
  shows "runtime_core ns fs t r'"
  using assms(1,2) receiver_frame [OF assms(3-5)] owner_ok_owner [OF assms(6)] by (simp add: runtime_core_def)

lemma post_ok:
  assumes "runtime_rep nrep srep ns fs (slot_of n @ t) r" "notice_ok n"
  shows "\<exists>r'. post nq sq r n = Some r' \<and> owner_part r' = owner_part r \<and>
    rt_receiver r' = rt_receiver r \<and> rt_receiver_message r' = rt_receiver_message r \<and> rt_receiver_slot r' = rt_receiver_slot r \<and>
    (if length ns < 16 then runtime_rep nrep srep (ns @ [n]) fs t r' \<and> rt_overflow r' = rt_overflow r \<and> rt_messages r' = rt_messages r
     else runtime_rep nrep srep ns (fs @ slot_of n) t r' \<and> rt_overflow r' \<and> inbox ns r' = inbox ns r)"
proof -
  have core: "runtime_core ns fs (slot_of n @ t) r" and rep: "nrep (rt_notices r) ns" "srep (rt_free_slots r) fs"
    using assms by (auto simp: runtime_rep_def)
  obtain q where q: "xQueueSend nq (rt_notices r) n = (length ns < 16, q)"
    "nrep q (if length ns < 16 then ns @ [n] else ns)"
    using notices.send_total [OF rep(1), of n] by auto
  show ?thesis
  proof (cases "length ns < 16")
    case True
    have "runtime_core (ns @ [n]) fs t r"
      using core assms(2) by (auto simp: runtime_core_def ac_simps Un_assoc)
    then have "runtime_rep nrep srep (ns @ [n]) fs t (r\<lparr>rt_notices := q, rt_capacity := c\<rparr>)" for c
      using q(2) rep(2) True core_frame [of "ns @ [n]" fs t r "r\<lparr>rt_notices := q, rt_capacity := c\<rparr>"]
      by (simp add: runtime_rep_def owner_part_def)
    then show ?thesis using q True by (auto simp: post_def Let_def owner_part_def)
  next
    case False
    define c1 where "c1 = (let cap = rt_capacity r; count = uxQueueMessagesWaiting nq q in
      if count > notice_count_high_water cap then cap\<lparr>notice_count_high_water := count\<rparr> else cap)"
    define c where "c = (case capacity_increment (counters_valid c1, notice_full_count c1) of (v, k) \<Rightarrow>
      c1\<lparr>counters_valid := v, notice_full_count := k\<rparr>)"
    let ?r = "r\<lparr>rt_notices := q, rt_capacity := c\<rparr>"
    have R: "runtime_rep nrep srep ns fs (slot_of n @ t) ?r"
      using q(2) rep False core_frame [OF core, of ?r] by (simp add: runtime_rep_def owner_part_def)
    have p: "post nq sq r n = do {
        r \<leftarrow> (if n_slot n \<ge> 0 then release_message_slot sq ?r (n_slot n) else Some ?r);
        Some (r\<lparr>rt_overflow := True\<rparr>) }"
      using q(1) False by (simp add: post_def Let_def c_def c1_def split: prod.splits)
    have over: "runtime_rep nrep srep ns fs' t (r2\<lparr>rt_overflow := True\<rparr>)" if "runtime_rep nrep srep ns fs' t r2" for fs' r2
      using that core_frame [of ns fs' t r2 "r2\<lparr>rt_overflow := True\<rparr>"] by (simp add: runtime_rep_def owner_part_def)
    show ?thesis
    proof (cases "n_slot n \<ge> 0")
      case True
      then have sl: "slot_of n = [n_slot n]" by (simp add: slot_of_def)
      then have tr: "runtime_core ns fs (n_slot n # t) r" using core by simp
      obtain q' where q': "release_message_slot sq ?r (n_slot n) =
          Some (?r\<lparr>rt_messages := (rt_messages ?r)[nat (n_slot n) := None], rt_free_slots := q'\<rparr>)"
        "runtime_rep nrep srep ns (fs @ [n_slot n]) t
          (?r\<lparr>rt_messages := (rt_messages ?r)[nat (n_slot n) := None], rt_free_slots := q'\<rparr>)"
        using release_message_slot_ok [of ns fs "n_slot n" t ?r] R sl by auto
      have "inbox ns (r\<lparr>rt_messages := (rt_messages r)[nat (n_slot n) := None]\<rparr>) = inbox ns r"
        using core_transit(1,4) [OF tr] slots_bound(1) [OF tr] by (intro inbox_update) auto
      then show ?thesis using p q' over [OF q'(2)] True False sl by (auto simp: owner_part_def inbox_def)
    next
      case neg: False
      then have sl: "slot_of n = []" by (simp add: slot_of_def)
      then show ?thesis using p neg False over [of fs ?r] R by (auto simp: owner_part_def inbox_def)
    qed
  qed
qed

lemma release_receiver_slot_ok:
  assumes "runtime_flux nrep srep ns fs t r"
    and len: "\<And>m. rt_receiver_message r = Some m \<Longrightarrow> length (own_payload m) = info_length (own_info m)"
  shows "\<exists>r'. release_receiver_slot sq r = Some r' \<and> runtime_rep nrep srep ns (fs @ receiver_slots r) t r' \<and>
    owner_part r' = owner_part r \<and> rt_receiver_message r' = None \<and> rt_overflow r' = rt_overflow r \<and> rt_messages r' = rt_messages r"
proof -
  let ?r = "r\<lparr>rt_receiver_slot := -1, rt_receiver := \<lparr>received = 0, active = False\<rparr>, rt_receiver_message := None\<rparr>"
  have rel: "\<exists>w. release_dynamic_message (rt_receiver_message r) = Some w"
    using len by (auto simp: release_dynamic_message_def store_def split: option.splits)
  note fl = assms(1) [unfolded runtime_flux_def]
  have core: "runtime_core ns (fs @ receiver_slots r) t (?r\<lparr>rt_free_slots := q\<rparr>)" for q
    using fl by (simp add: runtime_core_def receiver_ok_def receiver_slots_def owner_ok_def ac_simps)
  show ?thesis
  proof (cases "rt_receiver_slot r \<ge> 0")
    case True
    have "length (fs @ concat (map slot_of ns) @ receiver_slots r @ t) = 3"
      using fl mset_eq_length [of "fs @ concat (map slot_of ns) @ receiver_slots r @ t" "[0, 1, 2]"]
      by (simp add: ac_simps)
    then have "length fs < 3" using True by (simp add: receiver_slots_def)
    then obtain q where "give_slot sq ?r (rt_receiver_slot r) = ?r\<lparr>rt_free_slots := q\<rparr>" "srep q (fs @ [rt_receiver_slot r])"
      using give_slot_ok [of ?r fs "rt_receiver_slot r"] fl by auto
    then show ?thesis using rel True core [of q] fl
      by (auto simp: release_receiver_slot_def Let_def runtime_rep_def owner_part_def receiver_slots_def)
  next
    case False
    then show ?thesis using rel core [of "rt_free_slots r"] fl
      by (auto simp: release_receiver_slot_def Let_def runtime_rep_def owner_part_def receiver_slots_def)
  qed
qed

lemma release_receiver_slot_inv:
  assumes "runtime_rep nrep srep ns fs t r"
  shows "\<exists>r'. release_receiver_slot sq r = Some r' \<and> runtime_rep nrep srep ns (fs @ receiver_slots r) t r' \<and>
    owner_part r' = owner_part r \<and> rt_receiver_message r' = None \<and> rt_overflow r' = rt_overflow r \<and> rt_messages r' = rt_messages r"
  using assms by (intro release_receiver_slot_ok) (auto simp: runtime_rep_flux receiver_ok_def message_ok_def)

end

section \<open>Events\<close>

definition plain_notice :: "notice \<Rightarrow> bool" where
  "plain_notice n \<longleftrightarrow> n_slot n = -1 \<and> length (n_suback n) = 8 \<and> n_suback_count n \<le> 8"

lemma plain_notice_ok: "plain_notice n \<Longrightarrow> n_kind n \<noteq> EMQTT_EVENT_MESSAGE \<Longrightarrow> notice_ok n \<and> slot_of n = []"
  by (auto simp: plain_notice_def notice_ok_def slot_of_def)

text \<open>The receiver holds a started message of which the bytes \<open>got\<close> have arrived.\<close>

definition receiving :: "('n, 's) emqtt_runtime \<Rightarrow> emqtt_message_info \<Rightarrow> byte list \<Rightarrow> byte list \<Rightarrow> bool" where
  "receiving r info topic got \<longleftrightarrow> (\<exists>m. rt_receiver_message r = Some m \<and> own_info m = info \<and> message_ok m \<and>
     assembling (rt_receiver r) info (own_payload m) topic got)"

lemma receiver_ok_cases:
  assumes "receiver_ok r"
  obtains "rt_receiver_message r = None" "rt_receiver_slot r = -1" "\<not> active (rt_receiver r)"
  | info topic got where "receiving r info topic got"
  using assms that by (cases "rt_receiver_message r") (auto simp: receiver_ok_def receiving_def)

lemma receiving_ok: "receiving r info topic got \<Longrightarrow> receiver_ok r"
  unfolding receiving_def receiver_ok_def by (metis option.simps(5))

text \<open>A notice without a message is queued, or its loss is recorded.\<close>

definition posted where
  "posted ns r n r' ns' \<longleftrightarrow> owner_part r' = owner_part r \<and> inbox ns' r' = inbox ns r \<and>
     (if length ns < 16 then ns' = ns @ [n] \<and> rt_overflow r' = rt_overflow r else ns' = ns \<and> rt_overflow r')"

text \<open>A complete message gets a slot, its own or a free one, and a notice.\<close>

definition completed where
  "completed ns r m n r' ns' \<longleftrightarrow> owner_part r' = owner_part r \<and> rt_receiver_message r' = None \<and>
     (if length ns < 16
      then (\<exists>s. 0 \<le> s \<and> ns' = ns @ [n\<lparr>n_slot := s, n_kind := EMQTT_EVENT_MESSAGE\<rparr>]) \<and>
           inbox ns' r' = inbox ns r @ [m] \<and> rt_overflow r' = rt_overflow r
      else ns' = ns \<and> inbox ns' r' = inbox ns r \<and> rt_overflow r')"

text \<open>Without a slot the message is dropped and the loss recorded.\<close>

definition finished where
  "finished ns fs r m n r' ns' \<longleftrightarrow>
     (if receiver_slots r = [] \<and> fs = []
      then ns' = ns \<and> owner_part r' = owner_part r \<and> rt_receiver_message r' = None \<and> inbox ns' r' = inbox ns r \<and> rt_overflow r'
      else completed ns r m n r' ns')"

context runtime_queues
begin

lemma capacity_note_partial_ok:
  "rt_receiver_message r = Some m \<Longrightarrow> \<exists>c. capacity_note_partial z ob now til r = Some (r\<lparr>rt_capacity := c\<rparr>)"
  by (simp only: capacity_note_partial_def Let_def option.case) (rule exI, rule refl)

lemma post_plain:
  assumes "runtime_rep nrep srep ns fs t r" "plain_notice n" "n_kind n \<noteq> EMQTT_EVENT_MESSAGE"
  shows "\<exists>r' ns'. post nq sq r n = Some r' \<and> runtime_rep nrep srep ns' fs t r' \<and>
    rt_receiver_message r' = rt_receiver_message r \<and> posted ns r n r' ns'"
proof -
  have n: "notice_ok n" "slot_of n = []" using plain_notice_ok assms(2,3) by auto
  then show ?thesis using post_ok [of ns fs n t r] assms(1)
    by (cases "length ns < 16") (auto simp: inbox_def posted_def)
qed

lemma finish_reject:
  assumes "runtime_flux nrep srep ns fs t r" "rt_receiver_message r = Some m"
    "length (own_payload m) = info_length (own_info m)" "plain_notice n"
  shows "\<exists>r' ns' fs'. finish_fragment nq sq n EMQTT_RX_REJECTED r = Some r' \<and> runtime_rep nrep srep ns' fs' t r' \<and>
    rt_receiver_message r' = None \<and> posted ns r (n\<lparr>n_kind := EMQTT_EVENT_ERROR, n_error := EMQTT_ERROR_FRAGMENT\<rparr>) r' ns'"
proof -
  let ?n = "n\<lparr>n_kind := EMQTT_EVENT_ERROR, n_error := EMQTT_ERROR_FRAGMENT\<rparr>"
  obtain r1 where r1: "release_receiver_slot sq r = Some r1" "runtime_rep nrep srep ns (fs @ receiver_slots r) t r1"
    "owner_part r1 = owner_part r" "rt_receiver_message r1 = None" "rt_overflow r1 = rt_overflow r" "rt_messages r1 = rt_messages r"
    using release_receiver_slot_ok [OF assms(1)] assms(2,3) by auto
  have "plain_notice ?n" using assms(4) by (simp add: plain_notice_def)
  then obtain r' ns' where r': "post nq sq r1 ?n = Some r'" "runtime_rep nrep srep ns' (fs @ receiver_slots r) t r'"
    "rt_receiver_message r' = rt_receiver_message r1" "posted ns r1 ?n r' ns'"
    using post_plain [OF r1(2), of ?n] by auto
  have "posted ns r ?n r' ns'" using r'(4) r1(3,5,6) by (simp add: posted_def inbox_def)
  then show ?thesis using r' r1(1,4) by (auto simp: finish_fragment_def)
qed

lemma post_completed:
  assumes "nrep (rt_notices r) ns" "srep (rt_free_slots r) fs"
    and slots: "mset fs + mset (concat (map slot_of ns)) + mset (s # t) = mset [0, 1, 2]"
    and "messages_ok (set (concat (map slot_of ns)) \<union> set t) (rt_messages r)" "\<forall>n \<in> set ns. notice_ok n" "owner_ok r"
    and "message_ok m" "\<not> active (rt_receiver r)" "plain_notice n"
  shows "\<exists>r' ns' fs'. post nq sq (r\<lparr>rt_messages := (rt_messages r)[nat s := Some m], rt_receiver_slot := -1,
      rt_receiver_message := None\<rparr>) (n\<lparr>n_slot := s, n_kind := EMQTT_EVENT_MESSAGE\<rparr>) = Some r' \<and>
    runtime_rep nrep srep ns' fs' t r' \<and> completed ns r m n r' ns'"
proof -
  let ?n = "n\<lparr>n_slot := s, n_kind := EMQTT_EVENT_MESSAGE\<rparr>"
  let ?r = "r\<lparr>rt_messages := (rt_messages r)[nat s := Some m], rt_receiver_slot := -1, rt_receiver_message := None\<rparr>"
  have eq: "mset (fs @ concat (map slot_of ns) @ s # t) = mset [0, 1, 2]" using slots by (simp add: ac_simps)
  have s: "s \<in> {0, 1, 2}" using mset_eq_setD [OF eq] by auto
  have sub: "set (concat (map slot_of ns)) \<subseteq> {0, 1, 2}" using mset_eq_setD [OF eq] by auto
  have "distinct (fs @ concat (map slot_of ns) @ s # t)" using mset_eq_imp_distinct_iff [OF eq] by simp
  then have new: "s \<notin> set (concat (map slot_of ns))" by auto
  have n: "slot_of ?n = [s]" "notice_ok ?n"
    using slot_index [OF s] assms(9) by (simp_all add: slot_of_def notice_ok_def plain_notice_def)
  have "runtime_core ns fs (slot_of ?n @ t) ?r"
    using slots messages_ok_set [OF assms(4) s assms(7)] assms(5,6,8)
    by (simp add: n(1) runtime_core_def receiver_slots_def receiver_ok_def owner_ok_def)
  then have R: "runtime_rep nrep srep ns fs (slot_of ?n @ t) ?r" using assms(1,2) by (simp add: runtime_rep_def)
  have box: "inbox ns ?r = inbox ns r"
    using inbox_update [OF s sub new, of r "Some m"] by (simp add: inbox_def)
  have at: "rt_messages ?r ! nat s = Some m"
    using assms(4) slot_index [OF s] by (simp add: messages_ok_def)
  obtain r' where r': "post nq sq ?r ?n = Some r'" "owner_part r' = owner_part ?r" "rt_receiver_message r' = None"
    "if length ns < 16 then runtime_rep nrep srep (ns @ [?n]) fs t r' \<and> rt_overflow r' = rt_overflow ?r \<and> rt_messages r' = rt_messages ?r
     else runtime_rep nrep srep ns (fs @ slot_of ?n) t r' \<and> rt_overflow r' \<and> inbox ns r' = inbox ns ?r"
    using post_ok [OF R n(2)] by auto
  have own: "owner_part ?r = owner_part r" by (simp add: owner_part_def)
  show ?thesis
  proof (cases "length ns < 16")
    case True
    then have ms: "rt_messages r' = rt_messages ?r" using r'(4) by simp
    have "inbox (ns @ [?n]) r' = inbox (ns @ [?n]) ?r" using ms unfolding inbox_def by simp
    also have "\<dots> = inbox ns r @ [m]" using box at n(1) by (simp add: inbox_append) (simp add: inbox_def)
    finally have "inbox (ns @ [?n]) r' = inbox ns r @ [m]" .
    then have "completed ns r m n r' (ns @ [?n])"
      using True r' own slot_index [OF s] by (auto simp: completed_def)
    then show ?thesis using r' True by auto
  next
    case False
    then have "completed ns r m n r' ns" using r' own box by (auto simp: completed_def)
    then show ?thesis using r' False by auto
  qed
qed

lemma finish_complete:
  assumes fl: "runtime_flux nrep srep ns fs t r" and m: "rt_receiver_message r = Some m" "message_ok m"
    and "\<not> active (rt_receiver r)" "plain_notice n"
  shows "\<exists>r' ns' fs'. finish_fragment nq sq n EMQTT_RX_COMPLETE r = Some r' \<and> runtime_rep nrep srep ns' fs' t r' \<and>
    finished ns fs r m n r' ns'"
proof -
  note f = fl [unfolded runtime_flux_def]
  have len: "length (rt_messages r) = 3" using f by (simp add: messages_ok_def)
  have sl: "s \<in> {0, 1, 2}" if "mset fs' + mset (concat (map slot_of ns)) + mset (s # t) = mset [0, 1, 2]" for s fs'
    using mset_eq_setD [of "fs' @ concat (map slot_of ns) @ s # t" "[0, 1, 2]"] that by (auto simp: ac_simps)
  show ?thesis
  proof (cases "rt_receiver_slot r \<ge> 0")
    case True
    then have rs: "receiver_slots r = [rt_receiver_slot r]" by (simp add: receiver_slots_def)
    then have eq: "mset fs + mset (concat (map slot_of ns)) + mset (rt_receiver_slot r # t) = mset [0, 1, 2]" using f by simp
    show ?thesis
      using post_completed [of r ns fs "rt_receiver_slot r" t m n] f eq m assms(4,5) rs slot_index [OF sl [OF eq]] len
      by (simp add: finish_fragment_def finished_def)
  next
    case False
    then have rs: "receiver_slots r = []" by (simp add: receiver_slots_def)
    show ?thesis
    proof (cases fs)
      case Nil
      obtain r1 where r1: "release_receiver_slot sq r = Some r1" "runtime_rep nrep srep ns (fs @ receiver_slots r) t r1"
        "owner_part r1 = owner_part r" "rt_receiver_message r1 = None" "rt_messages r1 = rt_messages r"
        using release_receiver_slot_ok [OF fl] m by (auto simp: message_ok_def)
      have "xQueueReceive sq (rt_free_slots r) = None" using slots.receive_empty f Nil by simp
      then have "finish_fragment nq sq n EMQTT_RX_COMPLETE r = Some (r1\<lparr>rt_overflow := True\<rparr>)"
        using False r1 by (simp add: finish_fragment_def)
      moreover have "runtime_rep nrep srep ns (fs @ receiver_slots r) t (r1\<lparr>rt_overflow := True\<rparr>)"
        using r1(2) core_frame [of ns "fs @ receiver_slots r" t r1 "r1\<lparr>rt_overflow := True\<rparr>"]
        by (simp add: runtime_rep_def owner_part_def)
      ultimately show ?thesis using r1 Nil rs by (intro exI conjI) (auto simp: finished_def inbox_def)
    next
      case (Cons s fs')
      then obtain q where q: "xQueueReceive sq (rt_free_slots r) = Some (s, q)" "srep q fs'"
        using slots.receive_head [of "rt_free_slots r" s fs'] f by auto
      have eq: "mset fs' + mset (concat (map slot_of ns)) + mset (s # t) = mset [0, 1, 2]"
        using f rs Cons by (simp add: ac_simps)
      have "owner_ok (r\<lparr>rt_free_slots := q\<rparr>)" using f by (simp add: owner_ok_def)
      then obtain r' ns' fs2 where "post nq sq ((r\<lparr>rt_free_slots := q\<rparr>)\<lparr>rt_messages := (rt_messages r)[nat s := Some m], rt_receiver_slot := -1,
          rt_receiver_message := None\<rparr>) (n\<lparr>n_slot := s, n_kind := EMQTT_EVENT_MESSAGE\<rparr>) = Some r'"
        "runtime_rep nrep srep ns' fs2 t r'" "completed ns (r\<lparr>rt_free_slots := q\<rparr>) m n r' ns'"
        using post_completed [of "r\<lparr>rt_free_slots := q\<rparr>" ns fs' s t m n] f q(2) eq m assms(4,5) by auto
      moreover from this(3) have "completed ns r m n r' ns'"
        by (auto simp: completed_def split: if_splits)
      ultimately show ?thesis using False q(1) m(1) len slot_index [OF sl [OF eq]] Cons
        by (simp add: finish_fragment_def finished_def) blast
    qed
  qed
qed


lemma data_step:
  assumes "rt_receiver_message r = Some m"
    "emqtt_receive_into (rt_receiver r) (own_info m) (own_payload m) (info_length (own_info m)) (Some (fragment_of_event e)) =
      Some (result, st, info, payload)"
  shows "on_data nq sq z al ob now til n e r =
    (let r = r\<lparr>rt_receiver := st, rt_receiver_message := Some \<lparr>own_info = info, own_payload = payload\<rparr>\<rparr>
     in if result = EMQTT_RX_MORE then capacity_note_partial z ob now til r else finish_fragment nq sq n result r)"
  using assms by (simp add: on_data_def Let_def)

text \<open>The continuation of the handler, by the answer of the fragment core.\<close>

lemma data_more:
  assumes fl: "runtime_flux nrep srep ns fs t r"
    and "receiving (r\<lparr>rt_receiver := st, rt_receiver_message := Some m\<rparr>) info topic got"
  shows "\<exists>r'. capacity_note_partial z ob now til (r\<lparr>rt_receiver := st, rt_receiver_message := Some m\<rparr>) = Some r' \<and>
    runtime_rep nrep srep ns fs t r' \<and> receiving r' info topic got \<and> owner_part r' = owner_part r \<and>
    rt_overflow r' = rt_overflow r \<and> inbox ns r' = inbox ns r \<and> receiver_slots r' = receiver_slots r"
proof -
  let ?r = "r\<lparr>rt_receiver := st, rt_receiver_message := Some m\<rparr>"
  obtain c where c: "capacity_note_partial z ob now til ?r = Some (?r\<lparr>rt_capacity := c\<rparr>)"
    using capacity_note_partial_ok [of ?r m z ob now til] by auto
  have rcv: "receiving (?r\<lparr>rt_capacity := c\<rparr>) info topic got" using assms(2) by (simp add: receiving_def)
  have rs: "receiver_slots (?r\<lparr>rt_capacity := c\<rparr>) = receiver_slots r" by (simp add: receiver_slots_def)
  have "runtime_flux nrep srep ns fs t (?r\<lparr>rt_capacity := c\<rparr>)"
    using fl rs owner_ok_owner [of "?r\<lparr>rt_capacity := c\<rparr>" r] by (simp add: runtime_flux_def)
  then show ?thesis using c rcv rs receiving_ok [OF rcv] by (simp add: runtime_rep_flux)
qed

lemma flux_frame:
  assumes "runtime_flux nrep srep ns fs t r"
  shows "runtime_flux nrep srep ns fs t (r\<lparr>rt_receiver := st, rt_receiver_message := Some m\<rparr>)"
proof -
  let ?r = "r\<lparr>rt_receiver := st, rt_receiver_message := Some m\<rparr>"
  have "receiver_slots ?r = receiver_slots r" by (simp add: receiver_slots_def)
  then show ?thesis using assms owner_ok_owner [of ?r r] by (simp add: runtime_flux_def)
qed

lemma data_finish:
  assumes fl: "runtime_flux nrep srep ns fs t r" and "message_ok m" "\<not> active st" "plain_notice n"
  shows "\<exists>r' ns' fs'. finish_fragment nq sq n EMQTT_RX_COMPLETE (r\<lparr>rt_receiver := st, rt_receiver_message := Some m\<rparr>) = Some r' \<and>
    runtime_rep nrep srep ns' fs' t r' \<and> finished ns fs r m n r' ns'"
proof -
  let ?r = "r\<lparr>rt_receiver := st, rt_receiver_message := Some m\<rparr>"
  obtain r' ns' fs' where "finish_fragment nq sq n EMQTT_RX_COMPLETE ?r = Some r'" "runtime_rep nrep srep ns' fs' t r'"
    "finished ns fs ?r m n r' ns'"
    using finish_complete [where m = m and n = n, OF flux_frame [where st = st and m = m, OF fl]] assms(2-4) by auto
  moreover from this(3) have "finished ns fs r m n r' ns'"
    by (auto simp: finished_def completed_def receiver_slots_def split: if_splits)
  ultimately show ?thesis by blast
qed

lemma data_reject:
  assumes fl: "runtime_flux nrep srep ns fs t r" and "length (own_payload m) = info_length (own_info m)" "plain_notice n"
  shows "\<exists>r' ns' fs'. finish_fragment nq sq n EMQTT_RX_REJECTED (r\<lparr>rt_receiver := st, rt_receiver_message := Some m\<rparr>) = Some r' \<and>
    runtime_rep nrep srep ns' fs' t r' \<and> rt_receiver_message r' = None \<and>
    posted ns r (n\<lparr>n_kind := EMQTT_EVENT_ERROR, n_error := EMQTT_ERROR_FRAGMENT\<rparr>) r' ns'"
proof -
  let ?r = "r\<lparr>rt_receiver := st, rt_receiver_message := Some m\<rparr>"
  obtain r' ns' fs' where "finish_fragment nq sq n EMQTT_RX_REJECTED ?r = Some r'" "runtime_rep nrep srep ns' fs' t r'"
    "rt_receiver_message r' = None" "posted ns ?r (n\<lparr>n_kind := EMQTT_EVENT_ERROR, n_error := EMQTT_ERROR_FRAGMENT\<rparr>) r' ns'"
    using finish_reject [where m = m and n = n, OF flux_frame [where st = st and m = m, OF fl]] assms(2-3) by auto
  moreover from this(4) have "posted ns r (n\<lparr>n_kind := EMQTT_EVENT_ERROR, n_error := EMQTT_ERROR_FRAGMENT\<rparr>) r' ns'"
    by (auto simp: posted_def split: if_splits)
  ultimately show ?thesis by blast
qed

lemma on_data_active:
  assumes R: "runtime_rep nrep srep ns fs t r" and rcv: "receiving r info topic got"
    and f: "frag_readable (fragment_of_event e)" and n: "plain_notice n"
  defines "all \<equiv> got @ frag_bytes (fragment_of_event e)"
  shows "if continues info (info_length info) topic got (fragment_of_event e)
    then if length all = info_length info
      then \<exists>r' ns' fs'. on_data nq sq z al ob now til n e r = Some r' \<and> runtime_rep nrep srep ns' fs' t r' \<and>
        finished ns fs r \<lparr>own_info = info, own_payload = all\<rparr> n r' ns'
      else \<exists>r'. on_data nq sq z al ob now til n e r = Some r' \<and> runtime_rep nrep srep ns fs t r' \<and>
        receiving r' info topic all \<and> owner_part r' = owner_part r \<and> rt_overflow r' = rt_overflow r \<and>
        inbox ns r' = inbox ns r \<and> receiver_slots r' = receiver_slots r
    else \<exists>r' ns' fs'. on_data nq sq z al ob now til n e r = Some r' \<and> runtime_rep nrep srep ns' fs' t r' \<and>
      rt_receiver_message r' = None \<and>
      posted ns r (n\<lparr>n_kind := EMQTT_EVENT_ERROR, n_error := EMQTT_ERROR_FRAGMENT\<rparr>) r' ns'"
proof -
  obtain m where m: "rt_receiver_message r = Some m" "own_info m = info" "message_ok m"
    "assembling (rt_receiver r) info (own_payload m) topic got"
    using rcv by (auto simp: receiving_def)
  have len: "length (own_payload m) = info_length info" using m by (simp add: message_ok_def)
  have fl: "runtime_flux nrep srep ns fs t r" using R by (simp add: runtime_rep_flux)
  note core = receive_into_active [OF f m(4), unfolded len, folded all_def]
  note step = data_step [OF m(1), unfolded m(2), of e]
  show ?thesis
  proof (cases "continues info (info_length info) topic got (fragment_of_event e)")
    case True
    then obtain st p where sp: "emqtt_receive_into (rt_receiver r) info (own_payload m) (info_length info) (Some (fragment_of_event e)) =
        Some (if length all = info_length info then EMQTT_RX_COMPLETE else EMQTT_RX_MORE, st, info, p)"
      "length p = info_length info" "take (length all) p = all"
      "if length all = info_length info then \<not> active st else assembling st info p topic all"
      using core len by auto
    have ok: "message_ok \<lparr>own_info = info, own_payload = p\<rparr>" using m(2,3) sp(2) by (simp add: message_ok_def)
    show ?thesis
    proof (cases "length all = info_length info")
      case comp: True
      then have "p = all" using sp(2,3) by simp
      then show ?thesis using step [OF sp(1)] data_finish [OF fl ok _ n, of st] True comp sp(4) by simp
    next
      case False
      then have "receiving (r\<lparr>rt_receiver := st, rt_receiver_message := Some \<lparr>own_info = info, own_payload = p\<rparr>\<rparr>) info topic all"
        using ok sp(4) by (simp add: receiving_def)
      from data_more [OF fl this] show ?thesis using step [OF sp(1)] True False by simp
    qed
  next
    case False
    then have "emqtt_receive_into (rt_receiver r) info (own_payload m) (info_length info) (Some (fragment_of_event e)) =
        rejected info (own_payload m)" using core by simp
    from step [OF this] show ?thesis
      using data_reject [OF fl _ n, of "\<lparr>own_info = info, own_payload = own_payload m\<rparr>"] False len by simp
  qed
qed

end

lemma message_of_fragment:
  assumes "starts (nat (frag_total_length f)) f" "describes info f" "info_topic info = frag_topic_text f @ 0 # junk"
    "length (info_topic info) = 257" "length payload = nat (frag_total_length f)"
  shows "message_ok \<lparr>own_info = info, own_payload = payload\<rparr>" "text_of (info_topic info) = frag_topic_text f"
proof -
  have t: "topic_ok False (frag_topic_text f)" and q: "frag_qos f \<le> 1" and l: "frag_total_length f \<le> 4096"
    using assms(1) by (auto simp: starts_def fragment_fields_ok_def)
  have "\<forall>c \<in> set (frag_topic_text f). c \<noteq> 0"
    using utf8_text_nonzero [of "frag_topic_text f"] t by (auto simp: topic_ok_def)
  then show tx: "text_of (info_topic info) = frag_topic_text f"
    by (simp add: text_of_def assms(3) takeWhile_append)
  show "message_ok \<lparr>own_info = info, own_payload = payload\<rparr>"
    using tx t q l assms(2,4,5) by (auto simp: message_ok_def describes_def)
qed

context runtime_queues
begin

lemma open_receiver_ok:
  assumes R: "runtime_rep nrep srep ns fs t r" and none: "rt_receiver_message r = None"
  shows "\<exists>r1. open_receiver sq True len r = Inr r1 \<and> runtime_flux nrep srep ns (tl fs) t r1 \<and>
    rt_receiver_message r1 = Some \<lparr>own_info = empty_info\<lparr>info_length := nat len\<rparr>, own_payload = replicate (nat len) 0\<rparr> \<and>
    rt_receiver r1 = rt_receiver r \<and> receiver_slots r1 = take 1 fs \<and> owner_part r1 = owner_part r \<and>
    rt_overflow r1 = rt_overflow r \<and> rt_messages r1 = rt_messages r"
proof -
  have core: "runtime_core ns fs t r" and rep: "nrep (rt_notices r) ns" "srep (rt_free_slots r) fs"
    using R by (auto simp: runtime_rep_def)
  have "rt_receiver_slot r = -1" using core none by (simp add: runtime_core_def receiver_ok_def)
  then have rs: "receiver_slots r = []" by (simp add: receiver_slots_def)
  show ?thesis
  proof (cases fs)
    case Nil
    then have e: "xQueueReceive sq (rt_free_slots r) = None" using rep slots.receive_empty by simp
    show ?thesis using core rep rs Nil e owner_ok_owner [of "r\<lparr>rt_receiver_slot := -1, rt_receiver_message := m\<rparr>" r for m]
      by (simp add: open_receiver_def runtime_flux_def runtime_core_def receiver_slots_def)
  next
    case (Cons s fs')
    then obtain q where q: "xQueueReceive sq (rt_free_slots r) = Some (s, q)" "srep q fs'"
      using slots.receive_head rep(2) by blast
    have "s \<in> {0, 1, 2}" using slots_bound(1) [OF core] Cons by auto
    then have s: "0 \<le> s" by auto
    then show ?thesis
      using core rep rs Cons q owner_ok_owner [of "r\<lparr>rt_receiver_slot := s, rt_free_slots := q, rt_receiver_message := m\<rparr>" r for m]
      by (simp add: open_receiver_def runtime_flux_def runtime_core_def receiver_slots_def)
  qed
qed

lemma open_receiver_fails:
  assumes R: "runtime_rep nrep srep ns fs t r" and none: "rt_receiver_message r = None"
  shows "\<exists>r1 fs'. open_receiver sq False len r = Inl r1 \<and> runtime_rep nrep srep ns fs' t r1 \<and>
    rt_receiver_message r1 = None \<and> owner_part r1 = owner_part r \<and> rt_overflow r1 \<and> rt_messages r1 = rt_messages r"
proof -
  have core: "runtime_core ns fs t r" and rep: "nrep (rt_notices r) ns" "srep (rt_free_slots r) fs"
    using R by (auto simp: runtime_rep_def)
  have idle: "rt_receiver_slot r = -1" "\<not> active (rt_receiver r)" using core none by (simp_all add: runtime_core_def receiver_ok_def)
  then have rs: "receiver_slots r = []" by (simp add: receiver_slots_def)
  have result: "runtime_rep nrep srep ns fs' t (r\<lparr>rt_free_slots := q, rt_receiver_slot := -1, rt_overflow := True\<rparr>)"
    if "srep q fs'" "mset fs' = mset fs" for q fs'
    using that core rep rs idle none
      owner_ok_owner [of "r\<lparr>rt_free_slots := q, rt_receiver_slot := -1, rt_overflow := True\<rparr>" r]
    by (simp add: runtime_rep_def runtime_core_def receiver_slots_def receiver_ok_def)
  show ?thesis
  proof (cases fs)
    case Nil
    then have e: "xQueueReceive sq (rt_free_slots r) = None" using rep slots.receive_empty by simp
    then show ?thesis using result [OF rep(2)] none by (simp add: open_receiver_def) blast
  next
    case (Cons s fs')
    then obtain q where q: "xQueueReceive sq (rt_free_slots r) = Some (s, q)" "srep q fs'"
      using slots.receive_head rep(2) by blast
    have "s \<in> {0, 1, 2}" using slots_bound(1) [OF core] Cons by auto
    then have s: "0 \<le> s" by auto
    have "length fs' < 3" using slots_bound(2) [OF core] Cons by simp
    then obtain q' where "xQueueSend sq q s = (True, q')" "srep q' (fs' @ [s])" using slots.send_room q(2) by blast
    then show ?thesis using q(1) s result [of q' "fs' @ [s]"] none Cons
      by (simp add: open_receiver_def) blast
  qed
qed

lemma on_data_idle:
  assumes R: "runtime_rep nrep srep ns fs t r" and none: "rt_receiver_message r = None"
    and f: "frag_readable (fragment_of_event e)" and n: "plain_notice n"
    and len: "0 \<le> event_total_data_len e" "event_total_data_len e \<le> 4096"
  defines "g \<equiv> fragment_of_event e"
  shows "if starts (nat (event_total_data_len e)) g
    then if length (frag_bytes g) = nat (event_total_data_len e)
      then \<exists>r' ns' fs' info. on_data nq sq z True ob now til n e r = Some r' \<and> runtime_rep nrep srep ns' fs' t r' \<and>
        describes info g \<and> text_of (info_topic info) = frag_topic_text g \<and>
        finished ns fs r \<lparr>own_info = info, own_payload = frag_bytes g\<rparr> n r' ns'
      else \<exists>r' info. on_data nq sq z True ob now til n e r = Some r' \<and> runtime_rep nrep srep ns (tl fs) t r' \<and>
        describes info g \<and> text_of (info_topic info) = frag_topic_text g \<and>
        receiving r' info (frag_topic_text g) (frag_bytes g) \<and> owner_part r' = owner_part r \<and>
        rt_overflow r' = rt_overflow r \<and> inbox ns r' = inbox ns r \<and> receiver_slots r' = take 1 fs
    else \<exists>r' ns' fs'. on_data nq sq z True ob now til n e r = Some r' \<and> runtime_rep nrep srep ns' fs' t r' \<and>
      rt_receiver_message r' = None \<and>
      posted ns r (n\<lparr>n_kind := EMQTT_EVENT_ERROR, n_error := EMQTT_ERROR_FRAGMENT\<rparr>) r' ns'"
proof -
  let ?len = "nat (event_total_data_len e)"
  let ?info = "empty_info\<lparr>info_length := ?len\<rparr>" and ?p = "replicate ?len (0 :: byte)"
  have rs: "receiver_slots r = []" and idle: "\<not> active (rt_receiver r)"
    using R none by (auto simp: runtime_rep_def runtime_core_def receiver_ok_def receiver_slots_def)
  obtain r1 where o: "open_receiver sq True (event_total_data_len e) r = Inr r1"
    and r1: "runtime_flux nrep srep ns (tl fs) t r1" "rt_receiver_message r1 = Some \<lparr>own_info = ?info, own_payload = ?p\<rparr>"
      "rt_receiver r1 = rt_receiver r" "receiver_slots r1 = take 1 fs" "owner_part r1 = owner_part r"
      "rt_overflow r1 = rt_overflow r" "rt_messages r1 = rt_messages r"
    using open_receiver_ok [OF R none] by blast
  have box: "inbox ns r1 = inbox ns r" using r1(7) by (simp add: inbox_def)
  have g: "frag_total_length g = event_total_data_len e" by (simp add: g_def fragment_of_event_def)
  have od: "on_data nq sq z True ob now til n e r = on_data nq sq z True ob now til n e r1"
    using none len r1(2) o by (simp add: on_data_def)
  note step = data_step [OF r1(2), of e, folded g_def, unfolded r1(3), simplified]
  note core = receive_into_idle [where info = "?info" and payload = ?p, OF f idle, folded g_def, simplified]
  show ?thesis
  proof (cases "starts ?len g")
    case True
    then obtain st info p junk where sp: "emqtt_receive_into (rt_receiver r) ?info ?p ?len (Some g) =
        Some (if length (frag_bytes g) = info_length info then EMQTT_RX_COMPLETE else EMQTT_RX_MORE, st, info, p)"
      "describes info g" "info_topic info = frag_topic_text g @ 0 # junk" "length (info_topic info) = 257"
      "length p = ?len" "take (length (frag_bytes g)) p = frag_bytes g"
      "if length (frag_bytes g) = info_length info then \<not> active st else assembling st info p (frag_topic_text g) (frag_bytes g)"
      using core by (auto simp: empty_info_def)
    have il: "info_length info = ?len" using sp(2) g by (simp add: describes_def)
    have ok: "message_ok \<lparr>own_info = info, own_payload = p\<rparr>" and tx: "text_of (info_topic info) = frag_topic_text g"
      using message_of_fragment [of g info junk p] True sp g by auto
    show ?thesis
    proof (cases "length (frag_bytes g) = ?len")
      case comp: True
      then have p: "p = frag_bytes g" using sp(5,6) by simp
      obtain r' ns' fs' where "finish_fragment nq sq n EMQTT_RX_COMPLETE (r1\<lparr>rt_receiver := st, rt_receiver_message :=
          Some \<lparr>own_info = info, own_payload = p\<rparr>\<rparr>) = Some r'" "runtime_rep nrep srep ns' fs' t r'"
        "finished ns (tl fs) r1 \<lparr>own_info = info, own_payload = p\<rparr> n r' ns'"
        using data_finish [OF r1(1) ok _ n, of st] sp(7) comp il by auto
      moreover from this(3) have "finished ns fs r \<lparr>own_info = info, own_payload = p\<rparr> n r' ns'"
        using r1(4-6) box rs by (cases fs) (auto simp: finished_def completed_def split: if_splits)
      ultimately show ?thesis using od step [OF sp(1)] True comp il sp(2) tx p by auto
    next
      case False
      have rcv: "receiving (r1\<lparr>rt_receiver := st, rt_receiver_message := Some \<lparr>own_info = info, own_payload = p\<rparr>\<rparr>) info
          (frag_topic_text g) (frag_bytes g)"
        using ok sp(7) False il by (simp add: receiving_def)
      obtain r' where "capacity_note_partial z ob now til (r1\<lparr>rt_receiver := st, rt_receiver_message :=
          Some \<lparr>own_info = info, own_payload = p\<rparr>\<rparr>) = Some r'" "runtime_rep nrep srep ns (tl fs) t r'"
        "receiving r' info (frag_topic_text g) (frag_bytes g)" "owner_part r' = owner_part r" "rt_overflow r' = rt_overflow r"
        "inbox ns r' = inbox ns r" "receiver_slots r' = take 1 fs"
        using data_more [where st = st and z = z and ob = ob and now = now and til = til, OF r1(1) rcv] r1(4-6) box by auto
      then show ?thesis using od step [OF sp(1)] True False il sp(2) tx by auto
    qed
  next
    case False
    then have "emqtt_receive_into (rt_receiver r) ?info ?p ?len (Some g) = rejected ?info ?p"
      using core by (simp add: empty_info_def)
    moreover obtain r' ns' fs' where r': "finish_fragment nq sq n EMQTT_RX_REJECTED (r1\<lparr>rt_receiver := \<lparr>received = 0, active = False\<rparr>,
        rt_receiver_message := Some \<lparr>own_info = ?info, own_payload = ?p\<rparr>\<rparr>) = Some r'" "runtime_rep nrep srep ns' fs' t r'"
      "rt_receiver_message r' = None" "posted ns r1 (n\<lparr>n_kind := EMQTT_EVENT_ERROR, n_error := EMQTT_ERROR_FRAGMENT\<rparr>) r' ns'"
      using data_reject [OF r1(1) _ n, of "\<lparr>own_info = ?info, own_payload = ?p\<rparr>" "\<lparr>received = 0, active = False\<rparr>"] by auto
    moreover have "posted ns r (n\<lparr>n_kind := EMQTT_EVENT_ERROR, n_error := EMQTT_ERROR_FRAGMENT\<rparr>) r' ns'"
      using r'(4) r1(5,6) box by (simp add: posted_def)
    ultimately show ?thesis using od step False by auto
  qed
qed

end

text \<open>What the client promises about an event: its pointers are valid for their lengths.\<close>

abbreviation event_readable :: "esp_mqtt_event \<Rightarrow> bool" where
  "event_readable e \<equiv> frag_readable (fragment_of_event e)"

definition event_notice :: "int \<Rightarrow> esp_mqtt_event \<Rightarrow> notice" where
  "event_notice now_us e = \<lparr>n_kind = EMQTT_EVENT_CONNECTED, n_message_id = event_msg_id e, n_slot = -1,
     n_broker_code = 0, n_tls_flags = 0, n_arrived_us = now_us, n_error = EMQTT_ERROR_NONE,
     n_suback = replicate 8 0, n_suback_count = 0\<rparr>"

lemma event_notice_plain [simp]: "plain_notice (event_notice now_us e)"
  "plain_notice ((event_notice now_us e)\<lparr>n_kind := k\<rparr>)" "plain_notice ((event_notice now_us e)\<lparr>n_kind := k, n_error := x\<rparr>)"
  by (simp_all add: plain_notice_def event_notice_def)

lemma event_error_notice_plain:
  "plain_notice n \<Longrightarrow> plain_notice (event_error_notice n c) \<and> n_kind (event_error_notice n c) = n_kind n"
  by (cases "error_type c") (simp_all add: event_error_notice_def plain_notice_def)

lemma suback_notice_plain:
  assumes "plain_notice n" "event_readable e"
  shows "\<exists>n'. suback_notice n e = Some n' \<and> plain_notice n' \<and> n_kind n' = n_kind n"
proof (cases "event_data e")
  case None
  then show ?thesis using assms(1) by (simp add: suback_notice_def plain_notice_def)
next
  case (Some d)
  then have "nat (event_data_len e) \<le> length d" using assms(2) by (simp add: frag_readable_def fragment_of_event_def)
  then show ?thesis using assms(1) Some by (auto simp: suback_notice_def plain_notice_def fetch_def store_def)
qed

lemma on_event_data:
  "event_id e = MQTT_EVENT_DATA \<Longrightarrow> on_event nq sq z al ob now_us now til e r = on_data nq sq z al ob now til (event_notice now_us e) e r"
  by (simp add: on_event_def event_notice_def)

text \<open>
  A handler run keeps the invariant, leaves the owner's fields and the waiting messages
  alone and adds at most one notice.
\<close>

definition event_result where
  "event_result nrep srep ns t r result \<longleftrightarrow> (\<exists>r' ns' fs'. result = Some r' \<and> runtime_rep nrep srep ns' fs' t r' \<and>
     owner_part r' = owner_part r \<and> (\<exists>ms. inbox ns' r' = inbox ns r @ ms \<and> length ms \<le> 1) \<and>
     (ns' = ns \<or> (\<exists>n. ns' = ns @ [n])) \<and> (rt_overflow r \<longrightarrow> rt_overflow r'))"

context runtime_queues
begin

lemma event_result_posted:
  "posted ns r n r' ns' \<Longrightarrow> runtime_rep nrep srep ns' fs' t r' \<Longrightarrow> event_result nrep srep ns t r (Some r')"
  unfolding event_result_def posted_def by (auto split: if_splits)

lemma event_result_finished:
  "finished ns fs r m n r' ns' \<Longrightarrow> runtime_rep nrep srep ns' fs' t r' \<Longrightarrow> event_result nrep srep ns t r (Some r')"
  unfolding event_result_def finished_def completed_def
  by (rule exI [of _ r'], rule exI [of _ ns'], rule exI [of _ fs']) (auto split: if_splits)

lemma event_result_same:
  "runtime_rep nrep srep ns fs' t r' \<Longrightarrow> owner_part r' = owner_part r \<Longrightarrow> inbox ns r' = inbox ns r \<Longrightarrow>
   (rt_overflow r \<longrightarrow> rt_overflow r') \<Longrightarrow> event_result nrep srep ns t r (Some r')"
  unfolding event_result_def by auto

lemma on_data_result:
  assumes R: "runtime_rep nrep srep ns fs t r" and f: "event_readable e" and n: "plain_notice n"
  shows "event_result nrep srep ns t r (on_data nq sq z al ob now til n e r)"
proof -
  have rok: "receiver_ok r" using R by (simp add: runtime_rep_flux)
  have n': "plain_notice (n\<lparr>n_kind := EMQTT_EVENT_ERROR, n_error := EMQTT_ERROR_FRAGMENT\<rparr>)"
    using n by (simp add: plain_notice_def)
  from rok show ?thesis
  proof (cases rule: receiver_ok_cases)
    case 1
    consider "event_total_data_len e < 0 \<or> event_total_data_len e > 4096"
      | "0 \<le> event_total_data_len e" "event_total_data_len e \<le> 4096" "\<not> al"
      | "0 \<le> event_total_data_len e" "event_total_data_len e \<le> 4096" "al" by linarith
    then show ?thesis
    proof cases
      case bad: 1
      then have "on_data nq sq z al ob now til n e r =
          post nq sq r (n\<lparr>n_kind := EMQTT_EVENT_ERROR, n_error := EMQTT_ERROR_FRAGMENT\<rparr>)"
        using 1(1) by (simp add: on_data_def)
      then show ?thesis using post_plain [OF R n'] event_result_posted by force
    next
      case 2
      then show ?thesis using open_receiver_fails [OF R 1(1), of "event_total_data_len e"] 1(1)
        by (auto simp: on_data_def inbox_def intro!: event_result_same)
    next
      case 3
      show ?thesis
        using on_data_idle [OF R 1(1) f n 3(1,2), of z ob now til] 3(3)
        by (auto split: if_splits intro: event_result_posted event_result_finished event_result_same)
    qed
  next
    case (2 info topic got)
    show ?thesis
      using on_data_active [OF R 2 f n, of z al ob now til]
      by (auto split: if_splits intro: event_result_posted event_result_finished event_result_same)
  qed
qed

lemma post_result:
  assumes "runtime_rep nrep srep ns fs t r" "plain_notice n" "n_kind n \<noteq> EMQTT_EVENT_MESSAGE"
  shows "event_result nrep srep ns t r (post nq sq r n)"
  using post_plain [OF assms] event_result_posted by force

lemma release_post_result:
  assumes R: "runtime_rep nrep srep ns fs t r" and "plain_notice n" "n_kind n \<noteq> EMQTT_EVENT_MESSAGE"
  shows "event_result nrep srep ns t r (do { r \<leftarrow> release_receiver_slot sq r; post nq sq r n })"
proof -
  obtain r1 where r1: "release_receiver_slot sq r = Some r1" "runtime_rep nrep srep ns (fs @ receiver_slots r) t r1"
    "owner_part r1 = owner_part r" "rt_overflow r1 = rt_overflow r" "rt_messages r1 = rt_messages r"
    using release_receiver_slot_inv [OF R] by blast
  obtain r' ns' where r': "post nq sq r1 n = Some r'" "runtime_rep nrep srep ns' (fs @ receiver_slots r) t r'" "posted ns r1 n r' ns'"
    using post_plain [OF r1(2) assms(2,3)] by blast
  have "posted ns r n r' ns'" using r'(3) r1(3-5) by (simp add: posted_def inbox_def)
  then show ?thesis using r1(1) r'(1,2) event_result_posted by simp
qed

lemma on_event_result:
  assumes R: "runtime_rep nrep srep ns fs t r" and f: "event_readable e"
  shows "event_result nrep srep ns t r (on_event nq sq z al ob now_us now til e r)"
proof -
  let ?n = "event_notice now_us e"
  have un: "on_event nq sq z al ob now_us now til e r = (case event_id e of
      MQTT_EVENT_CONNECTED \<Rightarrow> do { r \<leftarrow> release_receiver_slot sq r; post nq sq r (?n\<lparr>n_kind := EMQTT_EVENT_CONNECTED\<rparr>) }
    | MQTT_EVENT_DISCONNECTED \<Rightarrow> do { r \<leftarrow> release_receiver_slot sq r; post nq sq r (?n\<lparr>n_kind := EMQTT_EVENT_DISCONNECTED\<rparr>) }
    | MQTT_EVENT_SUBSCRIBED \<Rightarrow> do { n \<leftarrow> suback_notice (?n\<lparr>n_kind := NOTICE_SUBACK\<rparr>) e; post nq sq r n }
    | MQTT_EVENT_UNSUBSCRIBED \<Rightarrow> post nq sq r (?n\<lparr>n_kind := EMQTT_EVENT_UNSUBSCRIBED\<rparr>)
    | MQTT_EVENT_PUBLISHED \<Rightarrow> post nq sq r (?n\<lparr>n_kind := EMQTT_EVENT_PUBACK\<rparr>)
    | MQTT_EVENT_DELETED \<Rightarrow> post nq sq r (?n\<lparr>n_kind := EMQTT_EVENT_DELETED, n_error := EMQTT_ERROR_EXPIRED\<rparr>)
    | MQTT_EVENT_ERROR \<Rightarrow> (let n = ?n\<lparr>n_kind := EMQTT_EVENT_ERROR, n_error := EMQTT_ERROR_SDK\<rparr> in
        post nq sq r (case event_error_handle e of None \<Rightarrow> n | Some c \<Rightarrow> event_error_notice n c))
    | MQTT_EVENT_DATA \<Rightarrow> on_data nq sq z al ob now til ?n e r
    | _ \<Rightarrow> Some r)"
    by (simp only: on_event_def event_notice_def Let_def)
  obtain n' where n': "suback_notice (?n\<lparr>n_kind := NOTICE_SUBACK\<rparr>) e = Some n'" "plain_notice n'" "n_kind n' = NOTICE_SUBACK"
    using suback_notice_plain [of "?n\<lparr>n_kind := NOTICE_SUBACK\<rparr>" e] f by auto
  note err = event_error_notice_plain [of "?n\<lparr>n_kind := EMQTT_EVENT_ERROR, n_error := EMQTT_ERROR_SDK\<rparr>"]
  show ?thesis
    unfolding un
    using post_result [OF R] release_post_result [OF R] on_data_result [OF R f] n' err
      event_result_same [OF R refl refl]
    by (simp add: Let_def split: esp_mqtt_event_id.split option.split)
qed

end

end
