(* ===== verification/Emqtt_Runtime_Calls.thy ===== *)
theory Emqtt_Runtime_Calls
  imports Emqtt_Runtime_Inv
begin

text \<open>
  The calls of the owner under the invariant: starting and stopping, failing closed,
  polling, subscribing, publishing, creation and destruction; and the states that any
  interleaving of events and calls reaches.
\<close>

section \<open>Starting and stopping\<close>

text \<open>What \<open>drain\<close> needs: queues, and storage whose recorded lengths are right.\<close>

definition drainable where
  "drainable nrep srep r \<longleftrightarrow> (\<exists>ns. nrep (rt_notices r) ns) \<and> (\<exists>fs. srep (rt_free_slots r) fs) \<and>
     length (rt_messages r) = 3 \<and> (\<forall>m. Some m \<in> set (rt_messages r) \<longrightarrow> length (own_payload m) = info_length (own_info m)) \<and>
     (\<forall>m. rt_receiver_message r = Some m \<longrightarrow> length (own_payload m) = info_length (own_info m)) \<and> owner_ok r"

lemma runtime_rep_drainable: "runtime_rep nrep srep ns fs t r \<Longrightarrow> drainable nrep srep r"
  by (auto simp: runtime_rep_def runtime_core_def drainable_def messages_ok_def message_ok_def receiver_ok_def)

lemma drainable_frame [simp]:
  "drainable nrep srep (r\<lparr>rt_started := b\<rparr>) = drainable nrep srep r"
  "drainable nrep srep (r\<lparr>rt_overflow := b\<rparr>) = drainable nrep srep r"
  "drainable nrep srep (r\<lparr>rt_faulted := b\<rparr>) = drainable nrep srep r"
  by (simp_all add: drainable_def owner_ok_def)

lemma release_length_ok:
  "\<forall>m. v = Some m \<longrightarrow> length (own_payload m) = info_length (own_info m) \<Longrightarrow> \<exists>w. release_dynamic_message v = Some w"
  by (cases v) (simp_all add: release_dynamic_message_def store_def)

lemma drain_slots_ok:
  assumes "length (rt_messages r) = 3" "\<forall>m. Some m \<in> set (rt_messages r) \<longrightarrow> length (own_payload m) = info_length (own_info m)"
  shows "drain_slots [0..<MESSAGE_SLOTS] r = Some (r\<lparr>rt_messages := [None, None, None]\<rparr>)"
proof -
  obtain a b c where ms: "rt_messages r = [a, b, c]"
    using assms(1) by (auto simp: numeral_3_eq_3 length_Suc_conv)
  obtain x y z where "release_dynamic_message a = Some x" "release_dynamic_message b = Some y" "release_dynamic_message c = Some z"
    using release_length_ok [of a] release_length_ok [of b] release_length_ok [of c] assms(2) ms by auto
  moreover have "[0..<MESSAGE_SLOTS] = [0, 1, 2]" by (simp add: upt_rec)
  ultimately show ?thesis using ms by (simp add: detach_message_slot_def)
qed

text \<open>The state after \<open>drain\<close>: everything empty, the owner's request state cleared.\<close>

definition drained where
  "drained nrep srep r r' \<longleftrightarrow> runtime_rep nrep srep [] [0, 1, 2] [] r' \<and>
     owner_part r' = owner_part ((clear_pending r)\<lparr>rt_faulted := False\<rparr>) \<and> \<not> rt_overflow r' \<and>
     rt_receiver_message r' = None \<and> rt_capacity r' = rt_capacity r"

lemma owner_ok_clear: "owner_ok r \<Longrightarrow> owner_ok (clear_pending r)"
  by (simp add: owner_ok_def clear_pending_def)

lemma owner_ok_state: "owner_ok r \<Longrightarrow> s \<noteq> EMQTT_READY \<Longrightarrow> owner_ok (r\<lparr>rt_state := s\<rparr>)"
  by (simp add: owner_ok_def)

lemma runtime_rep_state:
  "runtime_rep nrep srep ns fs t r \<Longrightarrow> s \<noteq> EMQTT_READY \<Longrightarrow> runtime_rep nrep srep ns fs t (r\<lparr>rt_state := s\<rparr>)"
  using owner_ok_state [of r s] receiver_frame [of "r\<lparr>rt_state := s\<rparr>" r]
  by (auto simp: runtime_rep_def runtime_core_def)

lemma runtime_rep_flags:
  "runtime_rep nrep srep ns fs t (r\<lparr>rt_faulted := b\<rparr>) = runtime_rep nrep srep ns fs t r"
  "runtime_rep nrep srep ns fs t (r\<lparr>rt_started := b\<rparr>) = runtime_rep nrep srep ns fs t r"
  "runtime_rep nrep srep ns fs t (r\<lparr>rt_overflow := b\<rparr>) = runtime_rep nrep srep ns fs t r"
  using receiver_frame [of "r\<lparr>rt_faulted := b\<rparr>" r] receiver_frame [of "r\<lparr>rt_started := b\<rparr>" r]
    receiver_frame [of "r\<lparr>rt_overflow := b\<rparr>" r]
  by (simp_all add: runtime_rep_def runtime_core_def owner_ok_def)

lemma runtime_rep_clear:
  assumes "runtime_rep nrep srep ns fs t r"
  shows "runtime_rep nrep srep ns fs t (clear_pending r)"
proof -
  have "receiver_slots (clear_pending r) = receiver_slots r" "receiver_ok (clear_pending r) = receiver_ok r"
    by (rule receiver_frame; simp add: clear_pending_def)+
  then show ?thesis using assms owner_ok_clear [of r] by (auto simp: runtime_rep_def runtime_core_def) (simp_all add: clear_pending_def)
qed

text \<open>
  The invariant between calls. A slot may be lost only after the client refused to stop
  while the runtime was failing, and then the runtime is faulted until it is drained. A
  faulted runtime is in the failed state.
\<close>

definition runtime_inv where
  "runtime_inv nrep srep r \<longleftrightarrow>
     (\<exists>ns fs lost. runtime_rep nrep srep ns fs lost r \<and> (lost = [] \<or> rt_faulted r)) \<and>
     (rt_faulted r \<longrightarrow> rt_state r = EMQTT_FAILED)"

lemma runtime_invI: "runtime_rep nrep srep ns fs [] r \<Longrightarrow> \<not> rt_faulted r \<or> rt_state r = EMQTT_FAILED \<Longrightarrow> runtime_inv nrep srep r"
  by (auto simp: runtime_inv_def)

text \<open>After \<open>fail_closed\<close>: failed and faulted, the desired subscriptions as before.\<close>

definition failed_closed where
  "failed_closed sdk_stop r r' \<longleftrightarrow> rt_faulted r' \<and> rt_state r' = EMQTT_FAILED \<and>
     rt_subscriptions r' = rt_subscriptions r \<and> rt_subscription_count r' = rt_subscription_count r \<and>
     rt_started r' = (rt_started r \<and> sdk_stop \<noteq> ESP_OK) \<and> rt_owner r' = rt_owner r"

context runtime_queues
begin

lemma give_slot_any:
  assumes "srep (rt_free_slots r) fs"
  shows "\<exists>q b fs'. give_slot sq r s = r\<lparr>rt_free_slots := q, rt_overflow := b\<rparr> \<and> srep q fs'"
proof -
  obtain q where "xQueueSend sq (rt_free_slots r) s = (length fs < 3, q)" "srep q (if length fs < 3 then fs @ [s] else fs)"
    using slots.send_total [OF assms] by auto
  then show ?thesis
    by (intro exI [of _ q] exI [of _ "if length fs < 3 then rt_overflow r else True"] exI conjI) (simp_all add: give_slot_def Let_def)
qed

lemma release_receiver_any:
  assumes "drainable nrep srep r"
  shows "\<exists>q b fs'. release_receiver_slot sq r = Some (r\<lparr>rt_receiver_slot := -1, rt_receiver := \<lparr>received = 0, active = False\<rparr>,
      rt_receiver_message := None, rt_free_slots := q, rt_overflow := b\<rparr>) \<and> srep q fs'"
proof -
  let ?r = "r\<lparr>rt_receiver_slot := -1, rt_receiver := \<lparr>received = 0, active = False\<rparr>, rt_receiver_message := None\<rparr>"
  obtain w fs where w: "release_dynamic_message (rt_receiver_message r) = Some w" "srep (rt_free_slots r) fs"
    using assms release_length_ok [of "rt_receiver_message r"] by (auto simp: drainable_def)
  then obtain q b fs' where g: "give_slot sq ?r (rt_receiver_slot r) = ?r\<lparr>rt_free_slots := q, rt_overflow := b\<rparr>" "srep q fs'"
    using give_slot_any [of ?r fs "rt_receiver_slot r"] by auto
  have k: "?r = ?r\<lparr>rt_free_slots := rt_free_slots r, rt_overflow := rt_overflow r\<rparr>" by simp
  show ?thesis
  proof (cases "rt_receiver_slot r \<ge> 0")
    case True
    then show ?thesis using w(1) g by (auto simp: release_receiver_slot_def Let_def)
  next
    case False
    then have "release_receiver_slot sq r = Some ?r" using w(1) by (simp add: release_receiver_slot_def Let_def)
    then show ?thesis using k w(2) by metis
  qed
qed

lemma drain_ok:
  assumes "drainable nrep srep r"
  shows "\<exists>r'. drain nq sq r = Some r' \<and> drained nrep srep r r'"
proof -
  obtain q b fs where rel: "release_receiver_slot sq r = Some (r\<lparr>rt_receiver_slot := -1,
      rt_receiver := \<lparr>received = 0, active = False\<rparr>, rt_receiver_message := None, rt_free_slots := q, rt_overflow := b\<rparr>)" "srep q fs"
    using release_receiver_any [OF assms] by blast
  define r1 where "r1 = r\<lparr>rt_receiver_slot := -1, rt_receiver := \<lparr>received = 0, active = False\<rparr>, rt_receiver_message := None,
      rt_free_slots := q, rt_overflow := b, rt_notices := xQueueReset nq (rt_notices r)\<rparr>"
  have ms: "drain_slots [0..<MESSAGE_SLOTS] r1 = Some (r1\<lparr>rt_messages := [None, None, None]\<rparr>)"
    using drain_slots_ok [of r1] assms by (simp add: r1_def drainable_def)
  define q' where "q' = fold (\<lambda>i q. snd (xQueueSend sq q (int i))) [0..<MESSAGE_SLOTS] (xQueueReset sq q)"
  have "q' = fold (\<lambda>y q. snd (xQueueSend sq q y)) (map int [0..<MESSAGE_SLOTS]) (xQueueReset sq q)"
    by (simp add: q'_def fold_map comp_def)
  moreover have "map int [0..<MESSAGE_SLOTS] = [0, 1, 2]" by (simp add: upt_rec)
  ultimately have q': "srep q' [0, 1, 2]"
    using slots.send_all [OF slots.reset_empty [OF rel(2)], of "[0, 1, 2]"] by simp
  define r2 where "r2 = (clear_pending (r1\<lparr>rt_messages := [None, None, None], rt_free_slots := q', rt_overflow := False\<rparr>))\<lparr>rt_faulted := False\<rparr>"
  have "drain nq sq r = Some r2" using rel(1) ms by (simp add: drain_def r2_def r1_def q'_def)
  moreover have "runtime_rep nrep srep [] [0, 1, 2] [] r2"
    using assms q' notices.reset_empty
    by (auto simp: r2_def r1_def runtime_rep_def runtime_core_def receiver_slots_def messages_ok_def receiver_ok_def drainable_def
        clear_pending_def owner_ok_def less_Suc_eq numeral_3_eq_3)
  moreover have "owner_part r2 = owner_part ((clear_pending r)\<lparr>rt_faulted := False\<rparr>)" "\<not> rt_overflow r2"
      "rt_receiver_message r2 = None" "rt_capacity r2 = rt_capacity r"
    by (simp_all add: r2_def r1_def clear_pending_def owner_part_def)
  ultimately show ?thesis by (auto simp: drained_def)
qed

lemma stop_ok:
  assumes "drainable nrep srep r"
  shows "\<exists>r'. emqtt_stop nq sq True sdk_stop r = Some (if rt_started r then sdk_stop else ESP_OK, r') \<and>
    (if rt_started r \<and> sdk_stop \<noteq> ESP_OK then r' = r\<lparr>rt_state := EMQTT_FAILED\<rparr>
     else \<exists>r1. drained nrep srep (r\<lparr>rt_started := False\<rparr>) r1 \<and> r' = r1\<lparr>rt_state := EMQTT_STOPPED\<rparr>)"
proof -
  have d: "drainable nrep srep (r\<lparr>rt_started := False\<rparr>)" using assms by simp
  obtain r1 where r1: "drain nq sq (r\<lparr>rt_started := False\<rparr>) = Some r1" "drained nrep srep (r\<lparr>rt_started := False\<rparr>) r1"
    using drain_ok [OF d] by blast
  have "drain nq sq (if rt_started r then r\<lparr>rt_started := False\<rparr> else r) = Some r1"
  proof (cases "rt_started r")
    case False
    then have eq: "r\<lparr>rt_started := False\<rparr> = r" by (cases r) simp
    show ?thesis using r1(1) [unfolded eq] False by simp
  qed (use r1(1) in simp)
  then show ?thesis using r1(2) by (cases "rt_started r") (auto simp: emqtt_stop_def)
qed

lemma drained_state: "drained nrep srep r r1 \<Longrightarrow> s \<noteq> EMQTT_READY \<Longrightarrow> runtime_rep nrep srep [] [0, 1, 2] [] (r1\<lparr>rt_state := s\<rparr>)"
  by (simp add: drained_def runtime_rep_state)

lemma fail_closed_ok:
  assumes R: "runtime_rep nrep srep ns fs t r"
  shows "\<exists>r'. fail_closed nq sq sdk_stop r = Some r' \<and> runtime_inv nrep srep r' \<and> failed_closed sdk_stop r r' \<and>
    (sdk_stop = ESP_OK \<or> \<not> rt_started r \<longrightarrow> runtime_rep nrep srep [] [0, 1, 2] [] r')"
proof (cases "rt_started r \<and> sdk_stop \<noteq> ESP_OK")
  case True
  then have "fail_closed nq sq sdk_stop r = Some (r\<lparr>rt_faulted := True, rt_state := EMQTT_FAILED\<rparr>)"
    by (simp add: fail_closed_def emqtt_stop_def)
  moreover have "runtime_rep nrep srep ns fs t (r\<lparr>rt_faulted := True, rt_state := EMQTT_FAILED\<rparr>)"
    by (rule runtime_rep_state) (use R in \<open>simp_all add: runtime_rep_flags\<close>)
  ultimately show ?thesis using True by (auto simp: runtime_inv_def failed_closed_def)
next
  case False
  then obtain r1 where r1: "emqtt_stop nq sq True sdk_stop r = Some (if rt_started r then sdk_stop else ESP_OK, r1\<lparr>rt_state := EMQTT_STOPPED\<rparr>)"
    "drained nrep srep (r\<lparr>rt_started := False\<rparr>) r1"
    using stop_ok [OF runtime_rep_drainable [OF R], of sdk_stop] by auto
  let ?r = "r1\<lparr>rt_state := EMQTT_FAILED, rt_faulted := True\<rparr>"
  have "fail_closed nq sq sdk_stop r = Some ?r" using r1(1) by (simp add: fail_closed_def)
  moreover have "runtime_rep nrep srep [] [0, 1, 2] [] ?r"
    using drained_state [OF r1(2), of EMQTT_FAILED] by (simp add: runtime_rep_flags)
  moreover have "failed_closed sdk_stop r ?r"
    using r1(2) False by (auto simp: failed_closed_def drained_def owner_part_def clear_pending_def)
  ultimately show ?thesis using runtime_invI [of nrep srep "[]" "[0, 1, 2]" ?r] by simp
qed

end

section \<open>Polling\<close>

abbreviation subscription_failure :: "emqtt_event \<Rightarrow> emqtt_event" where
  "subscription_failure out \<equiv> out\<lparr>ev_kind := EMQTT_EVENT_ERROR, ev_error := EMQTT_ERROR_SUBSCRIPTION\<rparr>"

text \<open>A SUBACK that answers the pending request in time and grants it.\<close>

definition granted :: "notice \<Rightarrow> ('n, 's) emqtt_runtime \<Rightarrow> bool" where
  "granted n r \<longleftrightarrow> rt_pending_subscribe r > 0 \<and> n_message_id n = rt_pending_subscribe r \<and>
     rt_state r = EMQTT_SUBSCRIBING \<and> n_error n = EMQTT_ERROR_NONE \<and>
     emqtt_suback_valid (Some (n_suback n)) (n_suback_count n)
       (Some (if rt_pending_dynamic_subscribe r then [rt_pending_subscription r] else rt_subscriptions r))
       (rt_pending_subscribe_count r) = Some True"

definition unsubscribed :: "notice \<Rightarrow> ('n, 's) emqtt_runtime \<Rightarrow> bool" where
  "unsubscribed n r \<longleftrightarrow> rt_pending_unsubscribe r > 0 \<and> n_message_id n = rt_pending_unsubscribe r \<and> rt_state r = EMQTT_SUBSCRIBING"

text \<open>The list of desired subscriptions without the entry at \<open>i\<close>.\<close>

definition without :: "nat \<Rightarrow> 'a list \<Rightarrow> 'a list" where
  "without i xs = take i xs @ drop (i + 1) xs"

lemma subs_valid_without: "subs_valid ss \<Longrightarrow> subs_valid (without i ss)"
proof -
  have "set (without i ss) \<subseteq> set ss" by (auto simp: without_def dest: in_set_takeD in_set_dropD)
  moreover have "distinct (map f (without i ss))" if "distinct (map f ss)" for f
    using that set_take_disj_set_drop_if_distinct [OF that, of i "i + 1"]
    by (simp add: without_def take_map [symmetric] drop_map [symmetric])
  ultimately show "subs_valid ss \<Longrightarrow> subs_valid (without i ss)" by (auto simp: subs_valid_def)
qed

lemma suback_total:
  assumes "owner_ok r" "length (n_suback n) = 8" "n_suback_count n \<le> 8"
  shows "\<exists>b. emqtt_suback_valid (Some (n_suback n)) (n_suback_count n)
       (Some (if rt_pending_dynamic_subscribe r then [rt_pending_subscription r] else rt_subscriptions r))
       (rt_pending_subscribe_count r) = Some b"
proof -
  let ?k = "rt_pending_subscribe_count r"
  let ?subs = "if rt_pending_dynamic_subscribe r then [rt_pending_subscription r] else rt_subscriptions r"
  have "?k \<le> length ?subs" if "?k \<le> 8" using assms(1) that by (simp add: owner_ok_def)
  then have "\<exists>b. suback_loop (n_suback n) ?subs ?k = Some b" if "?k \<le> 8"
    using suback_loop_correct [of ?k "n_suback n" ?subs] assms(2) that by auto
  then show ?thesis by (auto simp: emqtt_suback_valid_def)
qed

context runtime_queues
begin

lemma fail_branch:
  assumes "runtime_rep nrep srep ns fs t r"
  shows "\<exists>r'. fail_closed nq sq sdk_stop r = Some r' \<and> runtime_inv nrep srep r' \<and> failed_closed sdk_stop r r'"
  using fail_closed_ok [OF assms] by blast

lemma runtime_inv_clear:
  assumes "runtime_inv nrep srep r" shows "runtime_inv nrep srep (clear_pending r)"
proof -
  have "rt_faulted (clear_pending r) = rt_faulted r" "rt_state (clear_pending r) = rt_state r" by (simp_all add: clear_pending_def)
  then show ?thesis using assms runtime_rep_clear unfolding runtime_inv_def by metis
qed

lemma failed_closed_clear: "failed_closed sdk_stop r r' \<Longrightarrow> failed_closed sdk_stop r (clear_pending r')"
  by (simp add: failed_closed_def clear_pending_def)

lemma runtime_rep_subs:
  assumes "runtime_rep nrep srep ns fs t r" "owner_ok r'" "rt_messages r' = rt_messages r" "rt_receiver r' = rt_receiver r"
    "rt_receiver_message r' = rt_receiver_message r" "rt_receiver_slot r' = rt_receiver_slot r"
    "rt_notices r' = rt_notices r" "rt_free_slots r' = rt_free_slots r"
  shows "runtime_rep nrep srep ns fs t r'"
  using assms(1,2,3,7,8) receiver_frame [OF assms(4-6)] by (simp add: runtime_rep_def runtime_core_def)

lemma poll_connected_ok:
  assumes R: "runtime_rep nrep srep ns fs [] r" and nf: "\<not> rt_faulted r"
  shows "\<exists>out' r'. poll_connected nq sq sdk_stop sub now_us out r = Some (out', r') \<and> runtime_inv nrep srep r' \<and> desired r' = desired r \<and>
    (let ident = sub (map (\<lambda>s. (sub_topic s, sub_qos s)) (desired r)) in
     if rt_subscription_count r = 0 then out' = out\<lparr>ev_kind := EMQTT_EVENT_READY\<rparr> \<and> r' = (clear_pending r)\<lparr>rt_state := EMQTT_READY\<rparr>
     else if ident \<le> 0 then out' = subscription_failure out \<and> failed_closed sdk_stop r r'
     else out' = out \<and> r' = (clear_pending r)\<lparr>rt_pending_subscribe := ident, rt_pending_subscribe_count := rt_subscription_count r,
       rt_subscription_deadline_us := now_us + 10000000, rt_state := EMQTT_SUBSCRIBING\<rparr>)"
proof -
  have so: "owner_ok r" using R by (simp add: runtime_rep_def runtime_core_def)
  let ?c = "clear_pending r"
  have C: "runtime_rep nrep srep ns fs [] ?c" by (rule runtime_rep_clear [OF R])
  have cnt: "rt_subscription_count ?c = rt_subscription_count r" "rt_pending_dynamic_subscribe ?c = False"
    by (simp_all add: clear_pending_def)
  have np: "api_result i \<noteq> ESP_OK" if "i < 0" for i using that by (simp add: api_result_def)
  define ident where "ident = sub (map (\<lambda>s. (sub_topic s, sub_qos s)) (desired r))"
  consider "rt_subscription_count r = 0" | "rt_subscription_count r \<noteq> 0" "ident \<le> 0" | "rt_subscription_count r \<noteq> 0" "ident > 0"
    by linarith
  then show ?thesis
  proof cases
    case 1
    let ?r = "?c\<lparr>rt_state := EMQTT_READY\<rparr>"
    have "owner_ok ?r" using so by (simp add: owner_ok_def clear_pending_def)
    then have "runtime_rep nrep srep ns fs [] ?r" by (rule runtime_rep_subs [OF C]) simp_all
    then have "runtime_inv nrep srep ?r" by (rule runtime_invI) (simp add: clear_pending_def nf)
    then show ?thesis using 1 cnt by (auto simp: poll_connected_def submit_subscriptions_def clear_pending_def)
  next
    case 2
    obtain r' where r': "fail_closed nq sq sdk_stop (?c\<lparr>rt_state := EMQTT_FAILED\<rparr>) = Some r'" "runtime_inv nrep srep r'"
      "failed_closed sdk_stop (?c\<lparr>rt_state := EMQTT_FAILED\<rparr>) r'"
      using fail_branch [OF runtime_rep_state [OF C, of EMQTT_FAILED]] by auto
    have "failed_closed sdk_stop r r'" "desired r' = desired r" using r'(3) by (simp_all add: failed_closed_def clear_pending_def)
    then show ?thesis using 2 r' so np [of ident]
      by (auto simp: poll_connected_def submit_subscriptions_def ident_def [symmetric] Let_def owner_ok_def)
  next
    case 3
    let ?r = "?c\<lparr>rt_pending_subscribe := ident, rt_pending_subscribe_count := rt_subscription_count r,
       rt_pending_dynamic_subscribe := False, rt_subscription_deadline_us := now_us + 10000000, rt_state := EMQTT_SUBSCRIBING\<rparr>"
    have "owner_ok ?r" using so by (simp add: owner_ok_def clear_pending_def)
    then have "runtime_rep nrep srep ns fs [] ?r" by (rule runtime_rep_subs [OF C]) simp_all
    then have "runtime_inv nrep srep ?r" by (rule runtime_invI) (simp add: clear_pending_def nf)
    then show ?thesis using 3 so
      by (auto simp: poll_connected_def submit_subscriptions_def ident_def [symmetric] Let_def owner_ok_def clear_pending_def)
  qed
qed

lemma poll_suback_ok:
  assumes R: "runtime_rep nrep srep ns fs [] r" and n: "notice_ok n" and nf: "\<not> rt_faulted r"
  shows "\<exists>out' r'. poll_suback nq sq sdk_stop n out r = Some (out', r') \<and> runtime_inv nrep srep r' \<and>
    (if granted n r then out' = out\<lparr>ev_kind := EMQTT_EVENT_READY\<rparr> \<and> rt_state r' = EMQTT_READY \<and> rt_faulted r' = rt_faulted r \<and>
       desired r' = (if rt_pending_dynamic_subscribe r then desired r @ [rt_pending_subscription r] else desired r)
     else out' = subscription_failure out \<and> failed_closed sdk_stop r r')"
proof -
  have so: "owner_ok r" using R by (simp add: runtime_rep_def runtime_core_def)
  obtain b where b: "emqtt_suback_valid (Some (n_suback n)) (n_suback_count n)
       (Some (if rt_pending_dynamic_subscribe r then [rt_pending_subscription r] else rt_subscriptions r))
       (rt_pending_subscribe_count r) = Some b"
    using suback_total [OF so] n by (auto simp: notice_ok_def)
  have g: "(if rt_pending_subscribe r \<le> 0 \<or> n_message_id n \<noteq> rt_pending_subscribe r \<or>
           rt_state r \<noteq> EMQTT_SUBSCRIBING \<or> n_error n \<noteq> EMQTT_ERROR_NONE then Some False
        else emqtt_suback_valid (Some (n_suback n)) (n_suback_count n)
          (Some (if rt_pending_dynamic_subscribe r then [rt_pending_subscription r] else rt_subscriptions r))
          (rt_pending_subscribe_count r)) = Some (granted n r)"
    using b by (auto simp: granted_def)
  show ?thesis
  proof (cases "granted n r")
    case False
    obtain r' where "fail_closed nq sq sdk_stop r = Some r'" "runtime_inv nrep srep r'" "failed_closed sdk_stop r r'"
      using fail_branch [OF R] by blast
    then show ?thesis using False g runtime_inv_clear failed_closed_clear by (auto simp: poll_suback_def)
  next
    case True
    show ?thesis
    proof (cases "rt_pending_dynamic_subscribe r")
      case dyn: True
      let ?r = "r\<lparr>rt_subscriptions := (rt_subscriptions r)[rt_subscription_count r := rt_pending_subscription r],
        rt_subscription_count := rt_subscription_count r + 1, rt_state := EMQTT_READY\<rparr>"
      have c: "rt_subscription_count r < length (rt_subscriptions r)" using so dyn by (simp add: owner_ok_def)
      then have d: "desired (clear_pending ?r) = desired r @ [rt_pending_subscription r]"
        by (simp add: clear_pending_def take_Suc_conv_app_nth)
      have "owner_ok (clear_pending ?r)"
        using so dyn c d by (simp add: owner_ok_def clear_pending_def)
      then have "runtime_rep nrep srep ns fs [] (clear_pending ?r)"
        by (rule runtime_rep_subs [OF R]) (simp_all add: clear_pending_def)
      then have "runtime_inv nrep srep (clear_pending ?r)" by (rule runtime_invI) (simp add: clear_pending_def nf)
      then show ?thesis using g True dyn c d by (auto simp: poll_suback_def clear_pending_def)
    next
      case False
      let ?r = "r\<lparr>rt_state := EMQTT_READY\<rparr>"
      have "owner_ok (clear_pending ?r)" using so by (simp add: owner_ok_def clear_pending_def)
      then have "runtime_rep nrep srep ns fs [] (clear_pending ?r)"
        by (rule runtime_rep_subs [OF R]) (simp_all add: clear_pending_def)
      then have "runtime_inv nrep srep (clear_pending ?r)" by (rule runtime_invI) (simp add: clear_pending_def nf)
      then show ?thesis using g True False by (auto simp: poll_suback_def clear_pending_def)
    qed
  qed
qed

lemma poll_unsubscribed_ok:
  assumes R: "runtime_rep nrep srep ns fs [] r" and nf: "\<not> rt_faulted r"
  shows "\<exists>out' r'. poll_unsubscribed nq sq sdk_stop n out r = Some (out', r') \<and> runtime_inv nrep srep r' \<and>
    (if unsubscribed n r then out' = out \<and> rt_state r' = EMQTT_READY \<and> rt_faulted r' = rt_faulted r \<and>
       desired r' = without (rt_pending_unsubscribe_index r) (desired r)
     else out' = subscription_failure out \<and> failed_closed sdk_stop r r')"
proof -
  have so: "owner_ok r" using R by (simp add: runtime_rep_def runtime_core_def)
  show ?thesis
  proof (cases "unsubscribed n r")
    case False
    obtain r' where "fail_closed nq sq sdk_stop r = Some r'" "runtime_inv nrep srep r'" "failed_closed sdk_stop r r'"
      using fail_branch [OF R] by blast
    then show ?thesis using False runtime_inv_clear failed_closed_clear
      by (auto simp: poll_unsubscribed_def unsubscribed_def)
  next
    case True
    let ?i = "rt_pending_unsubscribe_index r" and ?c = "rt_subscription_count r"
    have i: "?i < ?c" "?c \<le> length (rt_subscriptions r)" using so True by (auto simp: owner_ok_def unsubscribed_def)
    define r1 where "r1 = r\<lparr>rt_subscriptions := take ?i (rt_subscriptions r) @ drop (?i + 1) (desired r) @ drop (?c - 1) (rt_subscriptions r),
        rt_subscription_count := ?c - 1\<rparr>"
    have rm: "remove_subscription r = Some r1" using i by (simp add: remove_subscription_def r1_def Let_def)
    let ?r = "clear_pending (r1\<lparr>rt_state := EMQTT_READY\<rparr>)"
    have e: "?c - Suc 0 = ?i" if "?c - Suc 0 \<le> ?i" using that i by linarith
    have d: "desired ?r = without ?i (desired r)"
      using i by (auto simp: clear_pending_def r1_def without_def min_def e)
    have "length (rt_subscriptions r1) = 8" using i so by (simp add: r1_def owner_ok_def)
    then have "owner_ok ?r"
      using so i d subs_valid_without [of "desired r" ?i] by (simp add: owner_ok_def clear_pending_def r1_def)
    then have "runtime_rep nrep srep ns fs [] ?r"
      by (rule runtime_rep_subs [OF R]) (simp_all add: clear_pending_def r1_def)
    then have "runtime_inv nrep srep ?r" by (rule runtime_invI) (simp add: clear_pending_def r1_def nf)
    then show ?thesis using True rm d
      by (auto simp: poll_unsubscribed_def unsubscribed_def clear_pending_def r1_def)
  qed
qed

lemma poll_message_ok:
  assumes R: "runtime_rep nrep srep ns fs [s] r" and n: "n_slot n = s" and out: "length (msg_payload (ev_message out)) = 4096"
  shows "\<exists>m q. rt_messages r ! nat s = Some m \<and> message_ok m \<and>
    poll_message sq n out r = Some (out\<lparr>ev_message := emqtt_message_info.extend (own_info m)
      (emqtt_message.fields (own_payload m @ drop (info_length (own_info m)) (msg_payload (ev_message out))))\<rparr>,
      r\<lparr>rt_messages := (rt_messages r)[nat s := None], rt_free_slots := q\<rparr>) \<and>
    runtime_rep nrep srep ns (fs @ [s]) [] (r\<lparr>rt_messages := (rt_messages r)[nat s := None], rt_free_slots := q\<rparr>)"
proof -
  have core: "runtime_core ns fs (s # []) r" using R by (simp add: runtime_rep_def)
  obtain m where m: "rt_messages r ! nat s = Some m" "message_ok m" using core_transit(2) [OF core] by blast
  obtain q where "release_message_slot sq r s = Some (r\<lparr>rt_messages := (rt_messages r)[nat s := None], rt_free_slots := q\<rparr>)"
    "runtime_rep nrep srep ns (fs @ [s]) [] (r\<lparr>rt_messages := (rt_messages r)[nat s := None], rt_free_slots := q\<rparr>)"
    using release_message_slot_ok [OF R] by blast
  then show ?thesis
    using m n out slot_index [OF core_transit(1) [OF core]] core_transit(3) [OF core]
    by (auto simp: poll_message_def fetch_def store_def message_ok_def)
qed

end

lemma bounded_length_cstring_from:
  "0 \<in> set f \<Longrightarrow> len \<le> length (text_of f) \<Longrightarrow> len \<le> cap \<Longrightarrow>
   bounded_length_from f cap len = Some (min cap (length (text_of f)))"
proof (induction "cap - len" arbitrary: len)
  case 0
  then show ?case by (subst bounded_length_from.simps) simp
next
  case (Suc k)
  have le: "length (text_of f) < length f" using text_of_less Suc.prems(1) by blast
  show ?case
  proof (cases "len = length (text_of f)")
    case True
    then have "f ! len = 0" using le nth_length_takeWhile [of "\<lambda>c. c \<noteq> 0" f] by (auto simp: text_of_def)
    then show ?thesis using True le Suc.hyps(2) by (subst bounded_length_from.simps) (simp add: load_def)
  next
    case False
    then have lt: "len < length (text_of f)" using Suc.prems(2) by simp
    then have "f ! len \<noteq> 0"
      unfolding text_of_def by (metis (mono_tags) nth_mem set_takeWhileD takeWhile_nth)
    moreover have "len < cap" using Suc.hyps(2) by linarith
    ultimately show ?thesis using lt le Suc.hyps Suc.prems(1) by (subst bounded_length_from.simps) (simp add: load_def)
  qed
qed

lemma bounded_length_cstring: "0 \<in> set f \<Longrightarrow> bounded_length f cap = Some (min cap (length (text_of f)))"
  using bounded_length_cstring_from [of f 0 cap] by (simp add: bounded_length_def)

lemma cstring_topic_valid:
  assumes "0 \<in> set f"
  shows "do { n \<leftarrow> bounded_length f (EMQTT_TOPIC_MAX + 1); emqtt_topic_valid (Some f) n flt } = Some (topic_ok flt (text_of f))"
proof (cases "length (text_of f) \<le> 256")
  case True
  then show ?thesis
    using bounded_length_cstring [OF assms, of 257] emqtt_topic_valid_correct [OF length_text_of, of f flt]
    by (simp add: take_text_of min_def)
next
  case False
  then show ?thesis
    using bounded_length_cstring [OF assms, of 257] by (simp add: emqtt_topic_valid_def topic_ok_def min_def)
qed

lemma filter_argument_valid_ok: "0 \<in> set f \<Longrightarrow> filter_argument_valid (Some f) = Some (topic_ok True (text_of f))"
  using cstring_topic_valid by (simp add: filter_argument_valid_def)

text \<open>The argument of a subscription call is null or a zero-terminated text.\<close>

definition cstring_arg :: "byte list option \<Rightarrow> bool" where
  "cstring_arg a = (case a of None \<Rightarrow> True | Some f \<Rightarrow> 0 \<in> set f)"

definition arg_text :: "byte list option \<Rightarrow> byte list" where
  "arg_text a = (case a of None \<Rightarrow> [] | Some f \<Rightarrow> text_of f)"

lemma topic_ok_Nil: "\<not> topic_ok flt []"
  by (simp add: topic_ok_def)

lemma filter_argument_total: "cstring_arg a \<Longrightarrow> filter_argument_valid a = Some (topic_ok True (arg_text a))"
proof (cases a)
  case None
  then show ?thesis by (simp add: arg_text_def topic_ok_Nil filter_argument_valid_def)
qed (simp add: cstring_arg_def arg_text_def filter_argument_valid_ok)

lemma strlen_text: "0 \<in> set f \<Longrightarrow> strlen f = Some (length (text_of f))"
  by (induction f) (auto simp: text_of_def)

lemma text_of_terminated: "0 \<notin> set t \<Longrightarrow> text_of (t @ 0 # rest) = t"
  by (induction t) (auto simp: text_of_def)

lemma take_text_zero: "0 \<in> set f \<Longrightarrow> take (length (text_of f) + 1) f = text_of f @ [0]"
  by (induction f) (auto simp: text_of_def)

lemma find_subscription_ok:
  "0 \<in> set f \<Longrightarrow> \<forall>s \<in> set ss. 0 \<in> set (sub_topic s) \<Longrightarrow>
   find_subscription f ss = Some (length (takeWhile (\<lambda>s. text_of (sub_topic s) \<noteq> text_of f) ss))"
  by (induction ss) (auto simp: strings_equal_correct)

lemma desired_terminated: "owner_ok r \<Longrightarrow> \<forall>s \<in> set (desired r). 0 \<in> set (sub_topic s)"
  using topic_ok_terminated by (auto simp: owner_ok_def subs_valid_def)

text \<open>\<open>emqtt_subscribe\<close>: an accepted request is pending, the desired list unchanged.\<close>

definition subscribe_accepts where
  "subscribe_accepts r a qos \<longleftrightarrow> rt_state r = EMQTT_READY \<and> qos \<le> 1 \<and> topic_ok True (arg_text a) \<and>
     rt_subscription_count r < 8 \<and> arg_text a \<notin> (\<lambda>s. text_of (sub_topic s)) ` set (desired r)"

context runtime_queues
begin

lemma subscribe_refused:
  assumes R: "runtime_rep nrep srep ns fs t r" and a: "cstring_arg a" and no: "\<not> subscribe_accepts r a qos"
  shows "\<exists>err. emqtt_subscribe nq sq own sdk_stop sub now_us r a qos = Some (err, r) \<and> err \<noteq> ESP_OK"
proof -
  have so: "owner_ok r" using R by (simp add: runtime_rep_def runtime_core_def)
  have c: "rt_subscription_count r < 8 \<longleftrightarrow> rt_subscription_count r \<noteq> 8" using so by (auto simp: owner_ok_def)
  have v: "(if 1 < qos then Some False else filter_argument_valid a) = Some (qos \<le> 1 \<and> topic_ok True (arg_text a))"
    using filter_argument_total [OF a] by auto
  show ?thesis
  proof (cases "own \<and> rt_state r = EMQTT_READY \<and> qos \<le> 1 \<and> topic_ok True (arg_text a) \<and> rt_subscription_count r < 8")
    case True
    then obtain f where f: "a = Some f" "0 \<in> set f" using a topic_ok_Nil by (cases a) (auto simp: cstring_arg_def arg_text_def)
    have "no_duplicate f (desired r) = Some False"
      using no True no_duplicate_correct [OF f(2) desired_terminated [OF so]] f(1)
      by (simp add: subscribe_accepts_def arg_text_def)
    then show ?thesis using True f v by (simp add: emqtt_subscribe_def)
  next
    case False
    then show ?thesis using v c by (auto simp: emqtt_subscribe_def)
  qed
qed

lemma subscribe_accepted:
  assumes R: "runtime_rep nrep srep ns fs [] r" and a: "cstring_arg a" and yes: "subscribe_accepts r a qos"
  shows "\<exists>f topic. a = Some f \<and> text_of topic = text_of f \<and> length topic = 257 \<and>
    (let ident = sub [(topic, qos)]; ps = \<lparr>sub_topic = topic, sub_qos = qos\<rparr> in
     if ident > 0
     then emqtt_subscribe nq sq True sdk_stop sub now_us r a qos =
         Some (ESP_OK, r\<lparr>rt_pending_subscription := ps, rt_pending_subscribe := ident, rt_pending_subscribe_count := 1,
           rt_pending_dynamic_subscribe := True, rt_subscription_deadline_us := now_us + 10000000, rt_state := EMQTT_SUBSCRIBING\<rparr>) \<and>
       runtime_rep nrep srep ns fs [] (r\<lparr>rt_pending_subscription := ps, rt_pending_subscribe := ident, rt_pending_subscribe_count := 1,
           rt_pending_dynamic_subscribe := True, rt_subscription_deadline_us := now_us + 10000000, rt_state := EMQTT_SUBSCRIBING\<rparr>)
     else \<exists>r' err. emqtt_subscribe nq sq True sdk_stop sub now_us r a qos = Some (err, r') \<and> err \<noteq> ESP_OK \<and>
       runtime_inv nrep srep r' \<and> failed_closed sdk_stop r r')"
proof -
  note y = yes [unfolded subscribe_accepts_def]
  have so: "owner_ok r" using R by (simp add: runtime_rep_def runtime_core_def)
  obtain f where f: "a = Some f" "0 \<in> set f" using a y topic_ok_Nil by (cases a) (auto simp: cstring_arg_def arg_text_def)
  have t: "topic_ok True (text_of f)" "length (text_of f) \<le> 256" using y f(1) by (auto simp: arg_text_def topic_ok_def)
  have nz: "0 \<notin> set (text_of f)" by (auto simp: text_of_def dest: set_takeWhileD)
  have v: "(if 1 < qos then Some False else filter_argument_valid a) = Some True" using filter_argument_total [OF a] y by simp
  have nd: "no_duplicate f (desired r) = Some True"
    using y no_duplicate_correct [OF f(2) desired_terminated [OF so]] f(1) by (simp add: arg_text_def)
  define topic where "topic = text_of f @ 0 # drop (length (text_of f) + 1) (sub_topic (rt_pending_subscription r))"
  have len: "length (sub_topic (rt_pending_subscription r)) = 257" using so by (simp add: owner_ok_def)
  have st: "store (sub_topic (rt_pending_subscription r)) 0 (take (length (text_of f) + 1) f) = Some topic"
    using take_text_zero [OF f(2)] len t(2) by (simp add: store_def topic_def)
  have tx: "text_of topic = text_of f" "length topic = 257"
    using text_of_terminated [OF nz] len t(2) by (simp_all add: topic_def)
  define ps where "ps = \<lparr>sub_topic = topic, sub_qos = qos\<rparr>"
  define ident where "ident = sub [(topic, qos)]"
  have e: "emqtt_subscribe nq sq True sdk_stop sub now_us r a qos = do {
      (error, r) \<leftarrow> submit_subscriptions sub now_us (r\<lparr>rt_pending_subscription := ps\<rparr>) [ps] 1 True;
      r \<leftarrow> (if error \<noteq> ESP_OK then fail_closed nq sq sdk_stop r else Some r);
      Some (error, r) }"
    using y f(1) v nd strlen_text [OF f(2)] st by (simp add: emqtt_subscribe_def ps_def)
  show ?thesis
  proof (cases "ident > 0")
    case True
    let ?r = "r\<lparr>rt_pending_subscription := ps, rt_pending_subscribe := ident, rt_pending_subscribe_count := 1,
           rt_pending_dynamic_subscribe := True, rt_subscription_deadline_us := now_us + 10000000, rt_state := EMQTT_SUBSCRIBING\<rparr>"
    have "subs_valid (desired r @ [ps])" using so y t(1) tx f(1) by (auto simp: owner_ok_def subs_valid_def ps_def arg_text_def)
    then have "owner_ok ?r" using so y tx(2) by (auto simp: owner_ok_def ps_def)
    then have "runtime_rep nrep srep ns fs [] ?r" by (rule runtime_rep_subs [OF R]) simp_all
    moreover have "emqtt_subscribe nq sq True sdk_stop sub now_us r a qos = Some (ESP_OK, ?r)"
      unfolding e using True by (simp add: submit_subscriptions_def ps_def ident_def)
    ultimately show ?thesis using True f(1) tx unfolding ident_def ps_def by (intro exI [of _ f] exI [of _ topic]) (simp add: Let_def)
  next
    case False
    let ?r = "r\<lparr>rt_pending_subscription := ps, rt_state := EMQTT_FAILED\<rparr>"
    have "owner_ok ?r" using so y tx(2) by (auto simp: owner_ok_def ps_def)
    then have "runtime_rep nrep srep ns fs [] ?r" by (rule runtime_rep_subs [OF R]) simp_all
    then obtain r' where r': "fail_closed nq sq sdk_stop ?r = Some r'" "runtime_inv nrep srep r'" "failed_closed sdk_stop ?r r'"
      using fail_branch by blast
    have "failed_closed sdk_stop r r'" using r'(3) by (simp add: failed_closed_def)
    moreover have "\<exists>err. emqtt_subscribe nq sq True sdk_stop sub now_us r a qos = Some (err, r') \<and> err \<noteq> ESP_OK"
      unfolding e using False r'(1) by (auto simp: submit_subscriptions_def ps_def ident_def api_result_def Let_def)
    ultimately show ?thesis using False f(1) tx r'(2) unfolding ident_def ps_def
      by (intro exI [of _ f] exI [of _ topic]) (auto simp add: Let_def)
  qed
qed

end

text \<open>How a poll may change the list of desired subscriptions.\<close>

definition subscriptions_step where
  "subscriptions_step n r r' \<longleftrightarrow> desired r' =
     (if n_kind n = NOTICE_SUBACK \<and> granted n r \<and> rt_pending_dynamic_subscribe r then desired r @ [rt_pending_subscription r]
      else if n_kind n = EMQTT_EVENT_UNSUBSCRIBED \<and> unsubscribed n r then without (rt_pending_unsubscribe_index r) (desired r)
      else desired r)"

lemma failed_closed_desired: "failed_closed sdk_stop r r' \<Longrightarrow> desired r' = desired r"
  by (simp add: failed_closed_def)

lemma failed_closed_frame [simp]:
  "failed_closed sdk_stop (r\<lparr>rt_notices := q\<rparr>) r' = failed_closed sdk_stop r r'"
  "failed_closed sdk_stop (r\<lparr>rt_overflow := b\<rparr>) r' = failed_closed sdk_stop r r'"
  by (simp_all add: failed_closed_def)

lemma granted_frame [simp]:
  "granted n (r\<lparr>rt_notices := q\<rparr>) = granted n r" "unsubscribed n (r\<lparr>rt_notices := q\<rparr>) = unsubscribed n r"
  by (simp_all add: granted_def unsubscribed_def)

context runtime_queues
begin

lemma receive_notice:
  assumes "runtime_rep nrep srep (n # ns) fs t r"
  shows "\<exists>q. xQueueReceive nq (rt_notices r) = Some (n, q) \<and> runtime_rep nrep srep ns fs (slot_of n @ t) (r\<lparr>rt_notices := q\<rparr>) \<and> notice_ok n"
proof -
  have core: "runtime_core (n # ns) fs t r" and rep: "nrep (rt_notices r) (n # ns)" "srep (rt_free_slots r) fs"
    using assms by (auto simp: runtime_rep_def)
  obtain q where q: "xQueueReceive nq (rt_notices r) = Some (n, q)" "nrep q ns" using notices.receive_head [OF rep(1)] by blast
  have "runtime_core ns fs (slot_of n @ t) r"
    using core by (simp add: runtime_core_def ac_simps Un_assoc)
  then have "runtime_core ns fs (slot_of n @ t) (r\<lparr>rt_notices := q\<rparr>)" by (rule core_frame) simp_all
  then show ?thesis using q rep(2) core by (simp add: runtime_rep_def runtime_core_def)
qed

lemma poll_overflow:
  assumes "runtime_rep nrep srep ns fs t r" "\<not> rt_faulted r" "rt_overflow r"
  shows "\<exists>r'. emqtt_poll nq sq True sdk_stop sub now_us r = Some (Some (fail_event EMQTT_ERROR_QUEUE), r') \<and>
    runtime_inv nrep srep r' \<and> failed_closed sdk_stop r r'"
proof -
  have "runtime_rep nrep srep ns fs t (r\<lparr>rt_overflow := False\<rparr>)" using assms(1) by (simp add: runtime_rep_flags)
  from fail_branch [OF this, of sdk_stop] show ?thesis using assms(2,3) by (auto simp: emqtt_poll_def)
qed

lemma poll_empty:
  assumes "runtime_rep nrep srep [] fs t r" "\<not> rt_faulted r" "\<not> rt_overflow r"
  shows "if rt_state r = EMQTT_SUBSCRIBING \<and> rt_subscription_deadline_us r \<le> now_us
    then \<exists>r'. emqtt_poll nq sq True sdk_stop sub now_us r = Some (Some (fail_event EMQTT_ERROR_SUBSCRIPTION), r') \<and>
      runtime_inv nrep srep r' \<and> failed_closed sdk_stop r r'
    else emqtt_poll nq sq True sdk_stop sub now_us r = Some (None, r)"
proof -
  have "xQueueReceive nq (rt_notices r) = None" using notices.receive_empty assms(1) by (simp add: runtime_rep_def)
  then show ?thesis using fail_branch [OF assms(1), of sdk_stop] assms(2,3) by (auto simp: emqtt_poll_def)
qed

lemma poll_late:
  assumes "runtime_rep nrep srep (n # ns) fs t r" "\<not> rt_faulted r" "\<not> rt_overflow r"
    "rt_state r = EMQTT_SUBSCRIBING" "rt_subscription_deadline_us r \<le> n_arrived_us n"
  shows "\<exists>r'. emqtt_poll nq sq True sdk_stop sub now_us r = Some (Some (fail_event EMQTT_ERROR_SUBSCRIPTION), r') \<and>
      runtime_inv nrep srep r' \<and> failed_closed sdk_stop r r'"
proof -
  obtain q where q: "xQueueReceive nq (rt_notices r) = Some (n, q)" "runtime_rep nrep srep ns fs (slot_of n @ t) (r\<lparr>rt_notices := q\<rparr>)"
    using receive_notice [OF assms(1)] by blast
  show ?thesis using fail_branch [OF q(2), of sdk_stop] q(1) assms(2-5) by (auto simp: emqtt_poll_def)
qed

text \<open>A notice in time, with the branches of the switch.\<close>

lemma poll_notice:
  assumes R: "runtime_rep nrep srep (n # ns) fs [] r" and nf: "\<not> rt_faulted r" "\<not> rt_overflow r"
    and time: "rt_state r = EMQTT_SUBSCRIBING \<Longrightarrow> n_arrived_us n < rt_subscription_deadline_us r"
  shows "\<exists>out r'. emqtt_poll nq sq True sdk_stop sub now_us r = Some (Some out, r') \<and>
    runtime_inv nrep srep r' \<and> subscriptions_step n r r' \<and>
    (n_kind n = EMQTT_EVENT_MESSAGE \<longrightarrow> (\<exists>m q q'. rt_messages r ! nat (n_slot n) = Some m \<and> message_ok m \<and>
       out = (polled_event n)\<lparr>ev_message := emqtt_message_info.extend (own_info m)
         (emqtt_message.fields (own_payload m @ replicate (4096 - info_length (own_info m)) 0))\<rparr> \<and>
       r' = r\<lparr>rt_notices := q, rt_messages := (rt_messages r)[nat (n_slot n) := None], rt_free_slots := q'\<rparr> \<and>
       runtime_rep nrep srep ns (fs @ [n_slot n]) [] r')) \<and>
    (n_kind n \<in> {EMQTT_EVENT_PUBACK, EMQTT_EVENT_DELETED} \<longrightarrow> out = polled_event n \<and> runtime_rep nrep srep ns fs [] r') \<and>
    (n_kind n = NOTICE_SUBACK \<and> \<not> granted n r \<or> n_kind n = EMQTT_EVENT_UNSUBSCRIBED \<and> \<not> unsubscribed n r \<longrightarrow>
       out = subscription_failure (polled_event n) \<and> failed_closed sdk_stop r r')"
proof -
  obtain q where q: "xQueueReceive nq (rt_notices r) = Some (n, q)" "runtime_rep nrep srep ns fs (slot_of n) (r\<lparr>rt_notices := q\<rparr>)"
    and n: "notice_ok n"
    using receive_notice [OF R] by auto
  let ?r = "r\<lparr>rt_notices := q\<rparr>" and ?out = "polled_event n"
  have nf': "\<not> rt_faulted ?r" using nf by simp
  have plain: "runtime_rep nrep srep ns fs [] ?r" if "n_kind n \<noteq> EMQTT_EVENT_MESSAGE"
    using q(2) n that by (simp add: notice_ok_def slot_of_def split: if_splits)
  have late: "\<not> (rt_state r = EMQTT_SUBSCRIBING \<and> rt_subscription_deadline_us r \<le> n_arrived_us n)" using time by auto
  have p: "emqtt_poll nq sq True sdk_stop sub now_us r = do {
      (out, r) \<leftarrow> poll_dispatch nq sq sdk_stop sub now_us n ?out ?r; Some (Some out, r) }"
    using q(1) nf late by (auto simp: emqtt_poll_def Let_def)
  show ?thesis
  proof (cases "n_kind n")
    case EMQTT_EVENT_CONNECTED
    obtain out' r' where o: "poll_connected nq sq sdk_stop sub now_us ?out ?r = Some (out', r')" "runtime_inv nrep srep r'"
      "desired r' = desired r"
      using poll_connected_ok [OF plain [unfolded EMQTT_EVENT_CONNECTED, simplified] nf', of sdk_stop sub now_us ?out] by auto
    then show ?thesis using p EMQTT_EVENT_CONNECTED by (simp add: poll_dispatch_def subscriptions_step_def)
  next
    case NOTICE_SUBACK
    obtain out' r' where o: "poll_suback nq sq sdk_stop n ?out ?r = Some (out', r')" "runtime_inv nrep srep r'"
      "if granted n r then desired r' = (if rt_pending_dynamic_subscribe r then desired r @ [rt_pending_subscription r] else desired r)
       else out' = subscription_failure ?out \<and> failed_closed sdk_stop r r'"
      using poll_suback_ok [OF plain n nf', of sdk_stop ?out] NOTICE_SUBACK by (auto split: if_splits)
    then show ?thesis using p NOTICE_SUBACK failed_closed_desired [of sdk_stop r r']
      by (auto simp: poll_dispatch_def subscriptions_step_def split: if_splits)
  next
    case EMQTT_EVENT_UNSUBSCRIBED
    obtain out' r' where o: "poll_unsubscribed nq sq sdk_stop n ?out ?r = Some (out', r')" "runtime_inv nrep srep r'"
      "if unsubscribed n r then desired r' = without (rt_pending_unsubscribe_index r) (desired r)
       else out' = subscription_failure ?out \<and> failed_closed sdk_stop r r'"
      using poll_unsubscribed_ok [OF plain nf', of sdk_stop n ?out] EMQTT_EVENT_UNSUBSCRIBED by (auto split: if_splits)
    then show ?thesis using p EMQTT_EVENT_UNSUBSCRIBED failed_closed_desired [of sdk_stop r r']
      by (auto simp: poll_dispatch_def subscriptions_step_def split: if_splits)
  next
    case EMQTT_EVENT_DISCONNECTED
    have "runtime_rep nrep srep ns fs [] ((clear_pending ?r)\<lparr>rt_state := EMQTT_DISCONNECTED\<rparr>)"
      using runtime_rep_state [OF runtime_rep_clear [OF plain]] EMQTT_EVENT_DISCONNECTED by simp
    then have "runtime_inv nrep srep ((clear_pending ?r)\<lparr>rt_state := EMQTT_DISCONNECTED\<rparr>)"
      by (rule runtime_invI) (simp add: clear_pending_def nf)
    then show ?thesis using p EMQTT_EVENT_DISCONNECTED by (simp add: poll_dispatch_def subscriptions_step_def clear_pending_def)
  next
    case EMQTT_EVENT_MESSAGE
    then have s: "slot_of n = [n_slot n]" using n by (simp add: notice_ok_def slot_of_def)
    have l: "length (msg_payload (ev_message ?out)) = 4096"
      by (simp add: polled_event_def empty_event_def emqtt_message_info.extend_def emqtt_message.fields_def)
    obtain m q' where m: "rt_messages r ! nat (n_slot n) = Some m" "message_ok m"
      "poll_message sq n ?out ?r = Some (?out\<lparr>ev_message := emqtt_message_info.extend (own_info m)
        (emqtt_message.fields (own_payload m @ drop (info_length (own_info m)) (msg_payload (ev_message ?out))))\<rparr>,
        ?r\<lparr>rt_messages := (rt_messages r)[nat (n_slot n) := None], rt_free_slots := q'\<rparr>)"
      "runtime_rep nrep srep ns (fs @ [n_slot n]) [] (?r\<lparr>rt_messages := (rt_messages r)[nat (n_slot n) := None], rt_free_slots := q'\<rparr>)"
      using poll_message_ok [of ns fs "n_slot n" ?r n ?out] q(2) s l by auto
    have z: "drop k (msg_payload (ev_message ?out)) = replicate (4096 - k) 0" for k
      by (simp add: polled_event_def empty_event_def emqtt_message_info.extend_def emqtt_message.fields_def)
    have "runtime_inv nrep srep (?r\<lparr>rt_messages := (rt_messages r)[nat (n_slot n) := None], rt_free_slots := q'\<rparr>)"
      using m(4) by (rule runtime_invI) (simp add: nf)
    then show ?thesis using p EMQTT_EVENT_MESSAGE m(1,2,4) m(3) [unfolded z] by (auto simp: poll_dispatch_def subscriptions_step_def)
  next
    case EMQTT_EVENT_ERROR
    note P = plain [unfolded EMQTT_EVENT_ERROR, simplified]
    have ok: "runtime_inv nrep srep (?r\<lparr>rt_state := EMQTT_FAILED\<rparr>)" "runtime_inv nrep srep ?r"
      using runtime_invI [OF runtime_rep_state [OF P, of EMQTT_FAILED]] runtime_invI [OF P] nf by simp_all
    obtain r' where r': "fail_closed nq sq sdk_stop ?r = Some r'" "runtime_inv nrep srep r'" "failed_closed sdk_stop r r'"
      using fail_branch [OF P, of sdk_stop] by auto
    show ?thesis using p EMQTT_EVENT_ERROR ok r' failed_closed_desired [OF r'(3)] by (auto simp: poll_dispatch_def subscriptions_step_def)
  qed (use p plain runtime_invI [OF plain] nf in \<open>simp_all add: poll_dispatch_def subscriptions_step_def\<close>)
qed

lemma poll_cases:
  assumes "runtime_inv nrep srep r"
  shows "\<exists>out r'. emqtt_poll nq sq own sdk_stop sub now_us r = Some (out, r') \<and> runtime_inv nrep srep r' \<and>
    (desired r' = desired r \<or> (\<exists>n ns fs. own \<and> runtime_rep nrep srep (n # ns) fs [] r \<and>
       (rt_state r = EMQTT_SUBSCRIBING \<longrightarrow> n_arrived_us n < rt_subscription_deadline_us r) \<and> subscriptions_step n r r'))"
proof (cases "own \<and> \<not> rt_faulted r")
  case False
  then show ?thesis using assms by (auto simp: emqtt_poll_def)
next
  case True
  then obtain ns fs where R: "runtime_rep nrep srep ns fs [] r" using assms by (auto simp: runtime_inv_def)
  consider "rt_overflow r" | "\<not> rt_overflow r" "ns = []"
    | n ns' where "\<not> rt_overflow r" "ns = n # ns'" "rt_state r = EMQTT_SUBSCRIBING" "rt_subscription_deadline_us r \<le> n_arrived_us n"
    | n ns' where "\<not> rt_overflow r" "ns = n # ns'" "rt_state r = EMQTT_SUBSCRIBING \<longrightarrow> n_arrived_us n < rt_subscription_deadline_us r"
    by (cases ns) (simp, metis not_le)+
  then show ?thesis
  proof cases
    case 1
    then show ?thesis using poll_overflow [OF R, of sdk_stop sub now_us] True failed_closed_desired by fastforce
  next
    case 2
    then show ?thesis using poll_empty [of fs "[]" r now_us sdk_stop sub] R True assms failed_closed_desired
      by (fastforce split: if_splits)
  next
    case 3
    then show ?thesis using poll_late [of n ns' fs "[]" r sdk_stop sub now_us] R True failed_closed_desired by fastforce
  next
    case 4
    then obtain out r' where "emqtt_poll nq sq True sdk_stop sub now_us r = Some (Some out, r')" "runtime_inv nrep srep r'" "subscriptions_step n r r'"
      using poll_notice [of n ns' fs r sdk_stop sub now_us] R True by blast
    then show ?thesis using True R 4 by auto
  qed
qed

lemma poll_total:
  assumes "runtime_inv nrep srep r"
  shows "\<exists>out r'. emqtt_poll nq sq own sdk_stop sub now_us r = Some (out, r') \<and> runtime_inv nrep srep r'"
  using poll_cases [OF assms] by blast

lemma poll_subscriptions:
  assumes "runtime_inv nrep srep r"
  shows "\<exists>out r'. emqtt_poll nq sq own sdk_stop sub now_us r = Some (out, r') \<and>
    (desired r' = desired r \<or> (\<exists>n ns fs. own \<and> runtime_rep nrep srep (n # ns) fs [] r \<and>
       (rt_state r = EMQTT_SUBSCRIBING \<longrightarrow> n_arrived_us n < rt_subscription_deadline_us r) \<and> subscriptions_step n r r'))"
  using poll_cases [OF assms] by blast

end

section \<open>All operations in any order\<close>

lemma runtime_inv_subs: "runtime_inv nrep srep r \<Longrightarrow> owner_ok r"
  by (auto simp: runtime_inv_def runtime_rep_def runtime_core_def)

lemma runtime_inv_ready:
  "runtime_inv nrep srep r \<Longrightarrow> rt_state r = EMQTT_READY \<Longrightarrow> \<exists>ns fs. runtime_rep nrep srep ns fs [] r \<and> \<not> rt_faulted r"
  by (auto simp: runtime_inv_def)

lemma runtime_inv_drainable: "runtime_inv nrep srep r \<Longrightarrow> drainable nrep srep r"
  using runtime_rep_drainable by (auto simp: runtime_inv_def)

lemma runtime_inv_owner:
  assumes "runtime_rep nrep srep ns' fs' t r'" "owner_part r' = owner_part r" "t = [] \<or> rt_faulted r" "rt_faulted r \<longrightarrow> rt_state r = EMQTT_FAILED"
  shows "runtime_inv nrep srep r'"
proof -
  have "rt_faulted r' = rt_faulted r" "rt_state r' = rt_state r" using assms(2) by (simp_all add: owner_part_def)
  then show ?thesis using assms(1,3,4) unfolding runtime_inv_def by metis
qed

text \<open>The arguments of \<open>emqtt_enqueue\<close> that are accepted.\<close>

definition enqueue_accepts where
  "enqueue_accepts a payload len qos \<longleftrightarrow>
     topic_ok False (arg_text a) \<and> len \<le> 5120 \<and> (payload = None \<longrightarrow> len = 0) \<and> qos \<le> (1 :: nat)"

context runtime_queues
begin

lemma on_event_total:
  assumes "runtime_inv nrep srep r" "event_readable e"
  shows "\<exists>r'. on_event nq sq z al ob now_us now til e r = Some r' \<and> runtime_inv nrep srep r' \<and> owner_part r' = owner_part r"
proof -
  obtain ns fs lost where R: "runtime_rep nrep srep ns fs lost r" and l: "lost = [] \<or> rt_faulted r" "rt_faulted r \<longrightarrow> rt_state r = EMQTT_FAILED"
    using assms(1) by (auto simp: runtime_inv_def)
  obtain r' ns' fs' where "on_event nq sq z al ob now_us now til e r = Some r'" "runtime_rep nrep srep ns' fs' lost r'"
    "owner_part r' = owner_part r"
    using on_event_result [OF R assms(2), of z al ob now_us now til] by (auto simp: event_result_def)
  then show ?thesis using runtime_inv_owner [OF _ _ l] by blast
qed

lemma stop_total:
  assumes "runtime_inv nrep srep r"
  shows "\<exists>err r'. emqtt_stop nq sq own sdk_stop r = Some (err, r') \<and> runtime_inv nrep srep r' \<and> desired r' = desired r"
proof (cases own)
  case False
  then show ?thesis using assms by (simp add: emqtt_stop_def)
next
  case True
  obtain ns fs lost where R: "runtime_rep nrep srep ns fs lost r" and l: "lost = [] \<or> rt_faulted r" "rt_faulted r \<longrightarrow> rt_state r = EMQTT_FAILED"
    using assms(1) by (auto simp: runtime_inv_def)
  obtain r' where r': "emqtt_stop nq sq True sdk_stop r = Some (if rt_started r then sdk_stop else ESP_OK, r')"
    "if rt_started r \<and> sdk_stop \<noteq> ESP_OK then r' = r\<lparr>rt_state := EMQTT_FAILED\<rparr>
     else \<exists>r1. drained nrep srep (r\<lparr>rt_started := False\<rparr>) r1 \<and> r' = r1\<lparr>rt_state := EMQTT_STOPPED\<rparr>"
    using stop_ok [OF runtime_inv_drainable [OF assms], of sdk_stop] by blast
  show ?thesis
  proof (cases "rt_started r \<and> sdk_stop \<noteq> ESP_OK")
    case t: True
    have "runtime_rep nrep srep ns fs lost r'" using r'(2) t runtime_rep_state [OF R, of EMQTT_FAILED] by simp
    then have "runtime_inv nrep srep r'" using r'(2) t l unfolding runtime_inv_def by auto
    then show ?thesis using r' t True by auto
  next
    case False
    then obtain r1 where r1: "drained nrep srep (r\<lparr>rt_started := False\<rparr>) r1" "r' = r1\<lparr>rt_state := EMQTT_STOPPED\<rparr>" using r'(2) by auto
    have "runtime_rep nrep srep [] [0, 1, 2] [] r'" using drained_state [OF r1(1), of EMQTT_STOPPED] r1(2) by simp
    moreover have "\<not> rt_faulted r'" "desired r' = desired r"
      using r1 by (simp_all add: drained_def owner_part_def clear_pending_def)
    ultimately show ?thesis using r'(1) True runtime_invI [of nrep srep "[]" "[0, 1, 2]" r'] by auto
  qed
qed

lemma start_total:
  assumes "runtime_inv nrep srep r"
  shows "\<exists>err r'. emqtt_start nq sq own net tm sdk_start r = Some (err, r') \<and> runtime_inv nrep srep r' \<and> desired r' = desired r \<and>
    (err = ESP_OK \<longrightarrow> rt_started r' \<and> \<not> rt_faulted r' \<and> \<not> rt_overflow r' \<and> rt_state r' = EMQTT_CONNECTING \<and> net \<and> (rt_tls r \<longrightarrow> tm))"
proof -
  obtain r1 where r1: "drain nq sq r = Some r1" "drained nrep srep r r1"
    using drain_ok [OF runtime_inv_drainable [OF assms]] by blast
  have nf: "\<not> rt_faulted r1" "desired r1 = desired r" using r1(2) by (simp_all add: drained_def owner_part_def clear_pending_def)
  have a: "runtime_inv nrep srep (r1\<lparr>rt_state := EMQTT_FAILED\<rparr>)"
    using runtime_invI [OF drained_state [OF r1(2), of EMQTT_FAILED]] by simp
  have "runtime_rep nrep srep [] [0, 1, 2] [] (r1\<lparr>rt_started := True, rt_state := EMQTT_CONNECTING\<rparr>)"
    by (rule runtime_rep_state) (use r1(2) in \<open>simp_all add: drained_def runtime_rep_flags\<close>)
  then have b: "runtime_inv nrep srep (r1\<lparr>rt_started := True, rt_state := EMQTT_CONNECTING\<rparr>)"
    by (rule runtime_invI) (simp add: nf)
  show ?thesis using assms a b nf r1 by (auto simp: emqtt_start_def drained_def)
qed

lemma subscribe_total:
  assumes "runtime_inv nrep srep r" "cstring_arg a"
  shows "\<exists>err r'. emqtt_subscribe nq sq own sdk_stop sub now_us r a qos = Some (err, r') \<and> runtime_inv nrep srep r' \<and> desired r' = desired r"
proof (cases "own \<and> subscribe_accepts r a qos")
  case False
  obtain ns fs lost where R: "runtime_rep nrep srep ns fs lost r" using assms(1) by (auto simp: runtime_inv_def)
  show ?thesis
  proof (cases own)
    case True
    then show ?thesis using False subscribe_refused [OF R assms(2), of qos own sdk_stop sub now_us] assms(1) by auto
  qed (use assms(1) in \<open>simp add: emqtt_subscribe_def\<close>)
next
  case True
  then obtain ns fs where R: "runtime_rep nrep srep ns fs [] r" and nf: "\<not> rt_faulted r"
    using runtime_inv_ready [OF assms(1)] by (auto simp: subscribe_accepts_def)
  obtain topic where t: "let ident = sub [(topic, qos)]; ps = \<lparr>sub_topic = topic, sub_qos = qos\<rparr> in
     if ident > 0
     then emqtt_subscribe nq sq True sdk_stop sub now_us r a qos =
         Some (ESP_OK, r\<lparr>rt_pending_subscription := ps, rt_pending_subscribe := ident, rt_pending_subscribe_count := 1,
           rt_pending_dynamic_subscribe := True, rt_subscription_deadline_us := now_us + 10000000, rt_state := EMQTT_SUBSCRIBING\<rparr>) \<and>
       runtime_rep nrep srep ns fs [] (r\<lparr>rt_pending_subscription := ps, rt_pending_subscribe := ident, rt_pending_subscribe_count := 1,
           rt_pending_dynamic_subscribe := True, rt_subscription_deadline_us := now_us + 10000000, rt_state := EMQTT_SUBSCRIBING\<rparr>)
     else \<exists>r' err. emqtt_subscribe nq sq True sdk_stop sub now_us r a qos = Some (err, r') \<and> err \<noteq> ESP_OK \<and>
       runtime_inv nrep srep r' \<and> failed_closed sdk_stop r r'"
    using subscribe_accepted [OF R assms(2), of qos sub sdk_stop now_us] True by blast
  show ?thesis
  proof (cases "sub [(topic, qos)] > 0")
    case pos: True
    then show ?thesis using t True runtime_invI [of nrep srep ns fs] nf by (auto simp: Let_def)
  next
    case False
    then obtain r' err where "emqtt_subscribe nq sq True sdk_stop sub now_us r a qos = Some (err, r')"
      "runtime_inv nrep srep r'" "failed_closed sdk_stop r r'"
      using t by (auto simp: Let_def)
    then show ?thesis using True failed_closed_desired [of sdk_stop r r'] by auto
  qed
qed

lemma unsubscribe_total:
  assumes "runtime_inv nrep srep r" "cstring_arg a"
  shows "\<exists>err r'. emqtt_unsubscribe nq sq own sdk_stop unsub now_us r a = Some (err, r') \<and> runtime_inv nrep srep r' \<and> desired r' = desired r"
proof (cases "own \<and> rt_state r = EMQTT_READY \<and> topic_ok True (arg_text a)")
  case False
  then show ?thesis using assms filter_argument_total [OF assms(2)] by (auto simp: emqtt_unsubscribe_def)
next
  case True
  then obtain ns fs where R: "runtime_rep nrep srep ns fs [] r" and nf: "\<not> rt_faulted r"
    using runtime_inv_ready [OF assms(1)] by auto
  have so: "owner_ok r" by (rule runtime_inv_subs [OF assms(1)])
  obtain f where f: "a = Some f" "0 \<in> set f" using assms(2) True topic_ok_Nil by (cases a) (auto simp: cstring_arg_def arg_text_def)
  define i where "i = length (takeWhile (\<lambda>s. text_of (sub_topic s) \<noteq> text_of f) (desired r))"
  have fi: "find_subscription f (desired r) = Some i" unfolding i_def by (rule find_subscription_ok [OF f(2) desired_terminated [OF so]])
  have "i \<le> length (desired r)" unfolding i_def by (rule length_takeWhile_le)
  then have i: "i \<le> rt_subscription_count r" using so by (simp add: owner_ok_def)
  have v: "filter_argument_valid a = Some True" using filter_argument_total [OF assms(2)] True by simp
  consider "i = rt_subscription_count r" | "i < rt_subscription_count r" "unsub f \<le> 0" | "i < rt_subscription_count r" "unsub f > 0"
    using i by linarith
  then show ?thesis
  proof cases
    case 1
    then show ?thesis using True v fi f assms(1) by (simp add: emqtt_unsubscribe_def)
  next
    case 2
    obtain r' where "fail_closed nq sq sdk_stop r = Some r'" "runtime_inv nrep srep r'" "failed_closed sdk_stop r r'"
      using fail_branch [OF R] by blast
    then show ?thesis using 2 True v fi f failed_closed_desired [of sdk_stop r r'] by (simp add: emqtt_unsubscribe_def Let_def)
  next
    case 3
    let ?r = "r\<lparr>rt_pending_unsubscribe := unsub f, rt_pending_unsubscribe_index := i,
      rt_subscription_deadline_us := now_us + 10000000, rt_state := EMQTT_SUBSCRIBING\<rparr>"
    have "owner_ok ?r" using so 3 True by (simp add: owner_ok_def)
    then have "runtime_rep nrep srep ns fs [] ?r" by (rule runtime_rep_subs [OF R]) simp_all
    then have "runtime_inv nrep srep ?r" by (rule runtime_invI) (simp add: nf)
    then show ?thesis using 3 True v fi f by (simp add: emqtt_unsubscribe_def Let_def)
  qed
qed

lemma enqueue_total:
  assumes "runtime_inv nrep srep r" "cstring_arg a"
  shows "\<exists>err ident r'. emqtt_enqueue own enq now_ms r a payload len qos retain False = Some (err, ident, r') \<and>
    runtime_inv nrep srep r' \<and> owner_part r' = owner_part r \<and>
    (if own \<and> rt_started r \<and> rt_state r \<noteq> EMQTT_FAILED \<and> enqueue_accepts a payload len qos
     then err = api_result (enq (the a) (if len \<noteq> 0 then payload else None) (int len) qos retain)
     else err \<in> {ESP_ERR_INVALID_STATE, ESP_ERR_INVALID_ARG} \<and> ident = None \<and> r' = r)"
proof -
  have v: "(case a of None \<Rightarrow> Some False | Some t \<Rightarrow> if False then Some False
      else do { n \<leftarrow> bounded_length t (EMQTT_TOPIC_MAX + 1); emqtt_topic_valid a n False }) = Some (topic_ok False (arg_text a))"
    using cstring_topic_valid assms(2) by (cases a) (auto simp: cstring_arg_def arg_text_def topic_ok_Nil)
  obtain ns fs lost where R: "runtime_rep nrep srep ns fs lost r" and l: "lost = [] \<or> rt_faulted r" "rt_faulted r \<longrightarrow> rt_state r = EMQTT_FAILED"
    using assms(1) by (auto simp: runtime_inv_def)
  have "runtime_rep nrep srep ns fs lost (r\<lparr>rt_capacity := c\<rparr>)" for c
    using R core_frame [of ns fs lost r "r\<lparr>rt_capacity := c\<rparr>"] by (simp add: runtime_rep_def)
  then have c: "runtime_inv nrep srep (r\<lparr>rt_capacity := c\<rparr>)" for c by (rule runtime_inv_owner [OF _ _ l]) simp
  show ?thesis
  proof (cases "own \<and> rt_started r \<and> rt_state r \<noteq> EMQTT_FAILED \<and> enqueue_accepts a payload len qos")
    case False
    then show ?thesis unfolding emqtt_enqueue_def v using assms(1) by (auto simp: enqueue_accepts_def)
  next
    case True
    define err where "err = api_result (enq (the a) (if len \<noteq> 0 then payload else None) (int len) qos retain)"
    have "\<exists>ident. emqtt_enqueue own enq now_ms r a payload len qos retain False = Some (err, ident,
        if err = ESP_ERR_EMQTT_OUTBOX_FULL then r\<lparr>rt_capacity := note_outbox_full len now_ms (rt_capacity r)\<rparr> else r)"
      unfolding emqtt_enqueue_def v using True by (auto simp: enqueue_accepts_def Let_def err_def)
    then show ?thesis using True assms(1) c unfolding err_def [symmetric] by auto
  qed
qed

end

section \<open>Creation, destruction, reachable states\<close>

lemma config_ok_subs:
  "config_arrays c \<Longrightarrow> config_ok lab c \<Longrightarrow> subs_valid (take (cfg_subscription_count c) (cfg_subscriptions c))"
  by (auto simp: config_arrays_def config_ok_def subs_valid_def Let_def dest: in_set_takeD)

lemma config_pem: "config_arrays c \<Longrightarrow> config_ok lab c \<Longrightarrow> 0 \<in> set (cfg_ca_pem c)"
  using text_of_less [of "cfg_ca_pem c"] by (auto simp: config_arrays_def config_ok_def Let_def)

definition ca_fits :: "(byte list \<times> nat) option \<Rightarrow> bool" where
  "ca_fits ca \<longleftrightarrow> (case ca of None \<Rightarrow> True | Some (b, n) \<Rightarrow> length b = n)"

lemma new_runtime_ok:
  assumes "config_arrays c" "config_ok lab c" "ca_fits ca" "nrep q []" "srep q' []"
  shows "drainable nrep srep (new_runtime c task ca q q')" "desired (new_runtime c task ca q q') = take (cfg_subscription_count c) (cfg_subscriptions c)"
proof -
  have l: "length (cfg_subscriptions c) = 8" "cfg_subscription_count c \<le> 8"
    using assms(1,2) by (auto simp: config_arrays_def config_ok_def)
  show d: "desired (new_runtime c task ca q q') = take (cfg_subscription_count c) (cfg_subscriptions c)"
    using l by (simp add: new_runtime_def)
  have "owner_ok (new_runtime c task ca q q')"
    using d l config_ok_subs [OF assms(1,2)] assms(3)
    by (auto simp: owner_ok_def new_runtime_def zero_subscription_def ca_fits_def split: option.splits)
  then show "drainable nrep srep (new_runtime c task ca q q')"
    using assms(4,5) by (auto simp: drainable_def new_runtime_def)
qed

text \<open>The copy of the certificate: the text and its terminating zero.\<close>

definition owned_ca :: "emqtt_config \<Rightarrow> byte list option" where
  "owned_ca c = (if cfg_tls c then Some (text_of (cfg_ca_pem c) @ [0]) else None)"

text \<open>The outcome of \<open>emqtt_create\<close>, in the order of its checks.\<close>

definition create_error ::
  "bool \<Rightarrow> bool \<Rightarrow> bool \<Rightarrow> 'n option \<Rightarrow> 's option \<Rightarrow> (esp_mqtt_client_config \<Rightarrow> bool) \<Rightarrow> esp_err \<Rightarrow> emqtt_config \<Rightarrow>
     ('n, 's) emqtt_statics \<Rightarrow> esp_err" where
  "create_error lab alloc_rt alloc_ca notices free_slots client_init registered c w =
     (if \<not> config_ok lab c then ESP_ERR_INVALID_ARG
      else if s_instance w \<noteq> None then ESP_ERR_INVALID_STATE
      else if \<not> alloc_rt \<or> (cfg_tls c \<and> \<not> alloc_ca) \<or> notices = None \<or> free_slots = None \<or>
         \<not> client_init (official_config c (owned_ca c)) then ESP_ERR_NO_MEM
      else registered)"

context runtime_queues
begin

lemma release_ca_ok: "owner_ok r \<Longrightarrow> \<exists>r'. release_ca r = Some r'"
  by (auto simp: release_ca_def owner_ok_def store_def split: option.splits)

lemma create_ok:
  assumes c: "config_arrays c" and q: "\<And>q. notices = Some q \<Longrightarrow> nrep q []" "\<And>q. free_slots = Some q \<Longrightarrow> srep q []"
    and err_def: "err = create_error lab alloc_rt alloc_ca notices free_slots client_init registered c w"
  shows "if err = ESP_OK
    then \<exists>r k. emqtt_create nq sq lab task alloc_rt alloc_ca notices free_slots client_init registered sz (Some c) False w =
        Some (ESP_OK, w\<lparr>s_instance := Some r, s_runtime_instance := k\<rparr>) \<and>
      runtime_rep nrep srep [] [0, 1, 2] [] r \<and> rt_state r = EMQTT_STOPPED \<and> \<not> rt_started r \<and> \<not> rt_faulted r \<and>
      \<not> rt_overflow r \<and> rt_owner r = task \<and> rt_receiver_message r = None \<and>
      desired r = take (cfg_subscription_count c) (cfg_subscriptions c)
    else emqtt_create nq sq lab task alloc_rt alloc_ca notices free_slots client_init registered sz (Some c) False w = Some (err, w)"
proof (cases "config_ok lab c \<and> s_instance w = None \<and> alloc_rt")
  case False
  then show ?thesis using config_valid_correct [OF c, of lab] by (auto simp: emqtt_create_def err_def create_error_def)
next
  case True
  define ca where "ca = (if cfg_tls c then Some (take (length (text_of (cfg_ca_pem c)) + 1) (cfg_ca_pem c),
    length (text_of (cfg_ca_pem c)) + 1) else None)"
  have pem: "0 \<in> set (cfg_ca_pem c)" using config_pem c True by blast
  have fits: "ca_fits ca" using text_of_less [of "cfg_ca_pem c"] pem by (auto simp: ca_fits_def ca_def)
  have ca: "(if cfg_tls c then do { n \<leftarrow> strlen (cfg_ca_pem c); Some (Some (take (n + 1) (cfg_ca_pem c), n + 1)) }
      else Some None) = Some ca"
    using strlen_text [OF pem] by (simp add: ca_def)
  have wipe: "\<exists>b. (case ca of Some (b, n) \<Rightarrow> if alloc_ca then store b 0 (replicate n 0) else Some [] | None \<Rightarrow> Some []) = Some b"
    using fits by (auto simp: ca_fits_def store_def split: option.splits)
  have e: "emqtt_create nq sq lab task alloc_rt alloc_ca notices free_slots client_init registered sz (Some c) False w =
    (case (if ca \<noteq> None \<and> \<not> alloc_ca then None else notices, free_slots) of
         (Some n, Some f) \<Rightarrow> do {
           r \<leftarrow> drain nq sq (new_runtime c task ca n f);
           let client = client_init (official_config c (rt_ca_pem r));
           if \<not> client \<or> registered \<noteq> ESP_OK
           then do { _ \<leftarrow> release_ca r; Some (if client then registered else ESP_ERR_NO_MEM, w) }
           else
             let fresh = s_runtime_instance w \<noteq> - 1;
                 k = (if fresh then s_runtime_instance w + 1 else s_runtime_instance w);
                 r = r\<lparr>rt_capacity := (rt_capacity r)\<lparr>counters_valid := fresh, runtime_instance := k,
                        owned_message_metadata_bytes := of_nat (fst sz),
                        observation_storage_bytes := of_nat (snd sz)\<rparr>\<rparr>
             in Some (ESP_OK, w\<lparr>s_instance := Some r, s_runtime_instance := k\<rparr>)
         }
       | _ \<Rightarrow> do {
           _ \<leftarrow> (case ca of Some (b, n) \<Rightarrow> if alloc_ca then store b 0 (replicate n 0) else Some [] | None \<Rightarrow> Some []);
           Some (ESP_ERR_NO_MEM, w)
         })"
    using True config_valid_correct [OF c, of lab] ca by (simp add: emqtt_create_def)
  show ?thesis
  proof (cases "(cfg_tls c \<and> \<not> alloc_ca) \<or> notices = None \<or> free_slots = None")
    case bad: True
    then show ?thesis using True wipe unfolding e
      by (auto simp: err_def create_error_def ca_def split: option.splits)
  next
    case False
    then obtain qn qf where qq: "notices = Some qn" "free_slots = Some qf" by auto
    have cfg: "config_ok lab c" using True by simp
    have new: "drainable nrep srep (new_runtime c task ca qn qf)"
      "desired (new_runtime c task ca qn qf) = take (cfg_subscription_count c) (cfg_subscriptions c)"
      using new_runtime_ok [where nrep = nrep and srep = srep, OF c cfg fits q(1) [OF qq(1)] q(2) [OF qq(2)]] by auto
    obtain r1 where r1: "drain nq sq (new_runtime c task ca qn qf) = Some r1" "drained nrep srep (new_runtime c task ca qn qf) r1"
      using drain_ok new by blast
    have "rt_ca_pem r1 = map_option fst ca" using r1(2) by (simp add: drained_def owner_part_def clear_pending_def new_runtime_def)
    then have pem1: "rt_ca_pem r1 = owned_ca c" using take_text_zero [OF pem] by (simp add: ca_def owned_ca_def)
    have o: "owner_ok r1" using r1(2) by (simp add: drained_def runtime_rep_def runtime_core_def)
    have "\<not> (ca \<noteq> None \<and> \<not> alloc_ca)" using False by (auto simp: ca_def)
    then have sel: "(if ca \<noteq> None \<and> \<not> alloc_ca then None else notices) = Some qn" using qq(1) by auto
    show ?thesis
    proof (cases "client_init (official_config c (owned_ca c)) \<and> registered = ESP_OK")
      case ok: True
      have cap: "runtime_rep nrep srep [] [0, 1, 2] [] (r1\<lparr>rt_capacity := x\<rparr>)" for x
        using r1(2) core_frame [of "[]" "[0, 1, 2]" "[]" r1 "r1\<lparr>rt_capacity := x\<rparr>"] by (simp add: drained_def runtime_rep_def)
      have "desired (r1\<lparr>rt_capacity := x\<rparr>) = take (cfg_subscription_count c) (cfg_subscriptions c)" for x
        using new(2) r1(2)
        by (simp add: drained_def owner_part_def clear_pending_def)
      moreover have "rt_state r1 = EMQTT_STOPPED" "\<not> rt_started r1" "\<not> rt_faulted r1" "\<not> rt_overflow r1" "rt_owner r1 = task"
        "rt_receiver_message r1 = None"
        using r1(2) by (simp_all add: drained_def owner_part_def clear_pending_def new_runtime_def)
      moreover have "\<exists>k x. emqtt_create nq sq lab task alloc_rt alloc_ca notices free_slots client_init registered sz (Some c) False w =
          Some (ESP_OK, w\<lparr>s_instance := Some (r1\<lparr>rt_capacity := x\<rparr>), s_runtime_instance := k\<rparr>)"
        unfolding e unfolding sel qq(2) using ok r1(1)
        by (simp only: pem1 Let_def option.case prod.case bind.bind_lunit simp_thms if_False) (rule exI, rule exI, rule refl)
      moreover have "err = ESP_OK" using True False ok by (simp add: err_def create_error_def)
      ultimately show ?thesis using cap by auto
    next
      case bad: False
      obtain r2 where "release_ca r1 = Some r2" using release_ca_ok [OF o] by blast
      then show ?thesis unfolding e unfolding sel qq(2) using True False bad r1(1) by (auto simp: pem1 err_def create_error_def)
    qed
  qed
qed

lemma destroy_total:
  assumes "runtime_inv nrep srep r" "s_instance w = Some r"
  shows "\<exists>err w'. emqtt_destroy nq sq own sdk_stop sdk_destroy w = Some (err, w') \<and>
    (if err = ESP_OK then s_instance w' = None else \<exists>r'. s_instance w' = Some r' \<and> runtime_inv nrep srep r')"
proof (cases own)
  case False
  then show ?thesis using assms by (simp add: emqtt_destroy_def)
next
  case True
  obtain err r' where r': "emqtt_stop nq sq True sdk_stop r = Some (err, r')" "runtime_inv nrep srep r'"
    using stop_total [OF assms(1), of True sdk_stop] by blast
  obtain r2 where "release_ca r' = Some r2" using release_ca_ok runtime_inv_subs [OF r'(2)] by blast
  then show ?thesis using r' True assms(2) by (auto simp: emqtt_destroy_def)
qed

end

text \<open>
  The states of an instance: created, then any sequence of events in the client's task and
  of calls by the owner or by another task (\<open>own\<close> false), with any answers of the client,
  the clock and the allocator.
\<close>

inductive runtime_reachable ::
  "('n, notice) queue_ops \<Rightarrow> ('s, int) queue_ops \<Rightarrow> ('n \<Rightarrow> notice list \<Rightarrow> bool) \<Rightarrow> ('s \<Rightarrow> int list \<Rightarrow> bool) \<Rightarrow>
     ('n, 's) emqtt_runtime \<Rightarrow> bool"
  for nq sq nrep srep where
  created: "config_arrays c \<Longrightarrow> nrep q [] \<Longrightarrow> srep q' [] \<Longrightarrow>
    emqtt_create nq sq lab task True al (Some q) (Some q') ci reg sz (Some c) False w = Some (ESP_OK, w') \<Longrightarrow>
    s_instance w' = Some r \<Longrightarrow> runtime_reachable nq sq nrep srep r"
| event: "runtime_reachable nq sq nrep srep r \<Longrightarrow> event_readable e \<Longrightarrow>
    on_event nq sq z al ob now_us now_ms til e r = Some r' \<Longrightarrow> runtime_reachable nq sq nrep srep r'"
| poll: "runtime_reachable nq sq nrep srep r \<Longrightarrow>
    emqtt_poll nq sq own stp sub now_us r = Some (out, r') \<Longrightarrow> runtime_reachable nq sq nrep srep r'"
| start: "runtime_reachable nq sq nrep srep r \<Longrightarrow>
    emqtt_start nq sq own net tm sta r = Some (err, r') \<Longrightarrow> runtime_reachable nq sq nrep srep r'"
| stop: "runtime_reachable nq sq nrep srep r \<Longrightarrow>
    emqtt_stop nq sq own stp r = Some (err, r') \<Longrightarrow> runtime_reachable nq sq nrep srep r'"
| enqueue: "runtime_reachable nq sq nrep srep r \<Longrightarrow> cstring_arg a \<Longrightarrow>
    emqtt_enqueue own enq now_ms r a payload len qos retain False = Some (err, ident, r') \<Longrightarrow> runtime_reachable nq sq nrep srep r'"
| subscribe: "runtime_reachable nq sq nrep srep r \<Longrightarrow> cstring_arg a \<Longrightarrow>
    emqtt_subscribe nq sq own stp sub now_us r a qos = Some (err, r') \<Longrightarrow> runtime_reachable nq sq nrep srep r'"
| unsubscribe: "runtime_reachable nq sq nrep srep r \<Longrightarrow> cstring_arg a \<Longrightarrow>
    emqtt_unsubscribe nq sq own stp unsub now_us r a = Some (err, r') \<Longrightarrow> runtime_reachable nq sq nrep srep r'"

context runtime_queues
begin

lemma reachable_inv: "runtime_reachable nq sq nrep srep r \<Longrightarrow> runtime_inv nrep srep r"
proof (induction rule: runtime_reachable.induct)
  case (created c q q' lab task al ci reg sz w w' r)
  have e: "create_error lab True al (Some q) (Some q') ci reg c w = ESP_OK"
    using create_ok [of c "Some q" "Some q'" "create_error lab True al (Some q) (Some q') ci reg c w" lab True al ci reg w task sz] created by (auto split: if_splits)
  then obtain r1 k where "w' = w\<lparr>s_instance := Some r1, s_runtime_instance := k\<rparr>" "runtime_rep nrep srep [] [0, 1, 2] [] r1" "\<not> rt_faulted r1"
    using create_ok [of c "Some q" "Some q'" "create_error lab True al (Some q) (Some q') ci reg c w" lab True al ci reg w task sz] created by auto
  then show ?case using created(5) runtime_invI [of nrep srep "[]" "[0, 1, 2]" r1] by simp
next
  case (event r e z al ob now_us now_ms til r')
  then show ?case using on_event_total [OF event.IH event.hyps(2), of z al ob now_us now_ms til] by auto
next
  case (poll r own stp sub now_us out r')
  then show ?case using poll_total [OF poll.IH, of own stp sub now_us] by auto
next
  case (start r own net tm sta err r')
  then show ?case using start_total [OF start.IH, of own net tm sta] by auto
next
  case (stop r own stp err r')
  then show ?case using stop_total [OF stop.IH, of own stp] by auto
next
  case (enqueue r a own enq now_ms payload len qos retain err ident r')
  then show ?case using enqueue_total [OF enqueue.IH enqueue.hyps(2), of own enq now_ms payload len qos retain] by auto
next
  case (subscribe r a own stp sub now_us qos err r')
  then show ?case using subscribe_total [OF subscribe.IH subscribe.hyps(2), of own stp sub now_us qos] by auto
next
  case (unsubscribe r a own stp unsub now_us err r')
  then show ?case using unsubscribe_total [OF unsubscribe.IH unsubscribe.hyps(2), of own stp unsub now_us] by auto
qed

end

end
