(* ===== verification/Emqtt_Runtime_Props.thy ===== *)
theory Emqtt_Runtime_Props
  imports Emqtt_Runtime_Calls
begin

text \<open>
  Properties of the runtime. Their statements hold for every implementation of the queue
  interface; the witnesses run on the ring buffer.
\<close>

section \<open>Messages end to end\<close>

text \<open>Data events in the client's task, each with its times; every allocation succeeds.\<close>

type_synonym timed_event = "int \<times> nat \<times> nat \<times> esp_mqtt_event"

fun run_events ::
  "('n, notice) queue_ops \<Rightarrow> ('s, int) queue_ops \<Rightarrow> nat \<Rightarrow> int \<Rightarrow> timed_event list \<Rightarrow> ('n, 's) emqtt_runtime \<Rightarrow>
     ('n, 's) emqtt_runtime option" where
  "run_events nq sq z ob [] r = Some r"
| "run_events nq sq z ob ((now_us, now_ms, til, e) # tes) r =
     do { r \<leftarrow> on_event nq sq z True ob now_us now_ms til e r; run_events nq sq z ob tes r }"

abbreviation event_of :: "timed_event \<Rightarrow> esp_mqtt_event" where
  "event_of te \<equiv> snd (snd (snd te))"

definition fragments_of :: "timed_event list \<Rightarrow> emqtt_fragment list \<Rightarrow> bool" where
  "fragments_of tes fs \<longleftrightarrow> map (\<lambda>te. fragment_of_event (event_of te)) tes = fs \<and> (\<forall>te \<in> set tes. event_id (event_of te) = MQTT_EVENT_DATA)"

lemma fragments_of_Cons:
  assumes "fragments_of tes (g # gs)"
  obtains now_us now_ms til e tes' where "tes = (now_us, now_ms, til, e) # tes'" "fragment_of_event e = g"
    "event_id e = MQTT_EVENT_DATA" "fragments_of tes' gs"
  using assms that by (cases tes) (auto simp: fragments_of_def)

context runtime_queues
begin

lemma run_later:
  assumes "runtime_rep nrep srep ns fs [] r" "receiving r info topic got" "describes info f" "meta_ok f" "info_length info \<le> 4096"
    and "frag_total_length f = int (length (got @ concat cs))" "\<forall>c \<in> set cs. c \<noteq> []" "cs \<noteq> []"
    and "fragments_of tes (later_fragments f (length got) cs)" "receiver_slots r \<noteq> [] \<or> fs \<noteq> []" "length ns < 16"
  shows "\<exists>r' ns' fs'. run_events nq sq z ob tes r = Some r' \<and> runtime_rep nrep srep ns' fs' [] r' \<and>
    inbox ns' r' = inbox ns r @ [\<lparr>own_info = info, own_payload = got @ concat cs\<rparr>] \<and>
    owner_part r' = owner_part r \<and> rt_overflow r' = rt_overflow r \<and>
    (\<exists>n. ns' = ns @ [n] \<and> n_kind n = EMQTT_EVENT_MESSAGE)"
  using assms
proof (induction cs arbitrary: r got tes fs)
  case (Cons c cs)
  define g where "g = f\<lparr>frag_topic := None, frag_topic_length := 0, frag_data := Some c,
    frag_data_length := int (length c), frag_offset := int (length got)\<rparr>"
  have "fragments_of tes (g # later_fragments f (length got + length c) cs)" using Cons.prems(9) by (simp add: g_def)
  then obtain now_us now_ms til e tes' where tes: "tes = (now_us, now_ms, til, e) # tes'" "fragment_of_event e = g"
    "event_id e = MQTT_EVENT_DATA" "fragments_of tes' (later_fragments f (length got + length c) cs)"
    by (rule fragments_of_Cons)
  have g: "frag_readable g" "frag_bytes g = c" "describes info g"
    using Cons.prems(3) by (simp_all add: g_def frag_readable_def frag_bytes_def describes_def)
  have il: "info_length info = length (got @ c @ concat cs)" using Cons.prems(3,6) by (auto simp: describes_def)
  have "fragment_fields_ok (info_length info) g"
    using Cons.prems(4,5,6) il by (auto simp: fragment_fields_ok_def g_def meta_ok_def)
  then have cont: "continues info (info_length info) topic got (fragment_of_event e)"
    using g Cons.prems(7) tes(2) by (auto simp: continues_def g_def)
  have read: "event_readable e" using g(1) tes(2) by simp
  note step = on_data_active [OF Cons.prems(1,2) read event_notice_plain(1) [of now_us e], of z True ob now_ms til, unfolded tes(2) g(2)]
  have ev: "on_event nq sq z True ob now_us now_ms til e r = on_data nq sq z True ob now_ms til (event_notice now_us e) e r"
    by (rule on_event_data [OF tes(3)])
  show ?case
  proof (cases "cs = []")
    case True
    then have full: "length (got @ c) = info_length info" using il by simp
    then obtain r' ns' fs' where r': "on_data nq sq z True ob now_ms til (event_notice now_us e) e r = Some r'"
      "runtime_rep nrep srep ns' fs' [] r'" "finished ns fs r \<lparr>own_info = info, own_payload = got @ c\<rparr> (event_notice now_us e) r' ns'"
      using step cont tes(2) by auto
    have "tes' = []" using tes(4) True by (simp add: fragments_of_def)
    then have "run_events nq sq z ob tes r = Some r'" using tes(1) ev r'(1) by simp
    then show ?thesis using r'(2,3) Cons.prems(10,11) True
      by (intro exI [of _ r'] exI [of _ ns'] exI [of _ fs']) (auto simp: finished_def completed_def)
  next
    case False
    then have more: "length (got @ c) \<noteq> info_length info" using il Cons.prems(7) by (cases cs; auto)
    then obtain r1 where r1: "on_data nq sq z True ob now_ms til (event_notice now_us e) e r = Some r1" "runtime_rep nrep srep ns fs [] r1"
      "receiving r1 info topic (got @ c)" "owner_part r1 = owner_part r" "rt_overflow r1 = rt_overflow r" "inbox ns r1 = inbox ns r"
      "receiver_slots r1 = receiver_slots r"
      using step cont tes(2) by auto
    have "\<exists>r' ns' fs'. run_events nq sq z ob tes' r1 = Some r' \<and> runtime_rep nrep srep ns' fs' [] r' \<and>
      inbox ns' r' = inbox ns r1 @ [\<lparr>own_info = info, own_payload = (got @ c) @ concat cs\<rparr>] \<and>
      owner_part r' = owner_part r1 \<and> rt_overflow r' = rt_overflow r1 \<and> (\<exists>n. ns' = ns @ [n] \<and> n_kind n = EMQTT_EVENT_MESSAGE)"
      using Cons.IH [OF r1(2,3) Cons.prems(3-5)] Cons.prems(6,7,10,11) False tes(4) r1(7) by simp
    then show ?thesis using tes(1) ev r1(1,4-6) by simp
  qed
qed simp

lemma run_message:
  assumes R: "runtime_rep nrep srep ns fs [] r" and none: "rt_receiver_message r = None"
    and room: "fs \<noteq> []" "length ns < 16"
    and m: "meta_ok f" "topic_ok False topic" "length (concat (c # cs)) \<le> 4096" "\<forall>c \<in> set cs. c \<noteq> []" "c = [] \<longrightarrow> cs = []"
    and tes: "fragments_of tes (message_fragments f topic c cs)"
  shows "\<exists>r' ns' fs' info. run_events nq sq z ob tes r = Some r' \<and> runtime_rep nrep srep ns' fs' [] r' \<and>
    inbox ns' r' = inbox ns r @ [\<lparr>own_info = info, own_payload = concat (c # cs)\<rparr>] \<and>
    text_of (info_topic info) = topic \<and> info_length info = length (concat (c # cs)) \<and> int (info_qos info) = frag_qos f \<and>
    info_message_id info = frag_message_id f \<and> info_retain info = frag_retain f \<and> info_duplicate info = frag_duplicate f \<and>
    owner_part r' = owner_part r \<and> rt_overflow r' = rt_overflow r \<and> (\<exists>n. ns' = ns @ [n] \<and> n_kind n = EMQTT_EVENT_MESSAGE)"
proof -
  define f1 where "f1 = f\<lparr>frag_total_length := int (length (concat (c # cs)))\<rparr>"
  define g where "g = f1\<lparr>frag_topic := Some topic, frag_topic_length := int (length topic), frag_data := Some c,
        frag_data_length := int (length c), frag_offset := 0\<rparr>"
  have mf: "message_fragments f topic c cs = g # later_fragments f1 (length c) cs"
    by (simp add: message_fragments_def Let_def g_def f1_def)
  obtain now_us now_ms til e tes' where te: "tes = (now_us, now_ms, til, e) # tes'" "fragment_of_event e = g"
    "event_id e = MQTT_EVENT_DATA" "fragments_of tes' (later_fragments f1 (length c) cs)"
    using tes fragments_of_Cons unfolding mf by metis
  have g: "frag_readable g" "frag_bytes g = c" "frag_topic_text g = topic" "frag_total_length g = int (length (concat (c # cs)))"
    by (simp_all add: g_def f1_def frag_readable_def frag_bytes_def frag_topic_text_def)
  have tl: "event_total_data_len e = int (length (concat (c # cs)))"
    using te(2) g(4) by (metis fragment_of_event_def emqtt_fragment.select_convs(5))
  have st: "starts (nat (event_total_data_len e)) g"
    using m(1,2,3) g(3) tl by (auto simp: starts_def fragment_fields_ok_def g_def f1_def meta_ok_def)
  have read: "event_readable e" using g(1) te(2) by simp
  have ev: "on_event nq sq z True ob now_us now_ms til e r = on_data nq sq z True ob now_ms til (event_notice now_us e) e r"
    by (rule on_event_data [OF te(3)])
  have meta: "int (info_qos info) = frag_qos f \<and> info_message_id info = frag_message_id f \<and> info_retain info = frag_retain f \<and>
      info_duplicate info = frag_duplicate f \<and> info_length info = length (concat (c # cs)) \<and> describes info f1" if "describes info g" for info
    using that m(1) by (auto simp: describes_def g_def f1_def meta_ok_def)
  have len: "0 \<le> event_total_data_len e" "event_total_data_len e \<le> 4096" using tl m(3) by simp_all
  note step = on_data_idle [OF R none read event_notice_plain(1) [of now_us e] len, of z ob now_ms til, unfolded te(2) g(2,3)]
  show ?thesis
  proof (cases "cs = []")
    case True
    then have "length c = nat (event_total_data_len e)" using tl by simp
    then obtain r' ns' fs' info where r': "on_data nq sq z True ob now_ms til (event_notice now_us e) e r = Some r'"
      "runtime_rep nrep srep ns' fs' [] r'" "describes info g" "text_of (info_topic info) = topic"
      "finished ns fs r \<lparr>own_info = info, own_payload = c\<rparr> (event_notice now_us e) r' ns'"
      using step st by auto
    have "tes' = []" using te(4) True by (simp add: fragments_of_def)
    then have run: "run_events nq sq z ob tes r = Some r'" using te(1) ev r'(1) by simp
    have "completed ns r \<lparr>own_info = info, own_payload = c\<rparr> (event_notice now_us e) r' ns'"
      using r'(5) room(1) by (simp add: finished_def)
    then have "inbox ns' r' = inbox ns r @ [\<lparr>own_info = info, own_payload = concat (c # cs)\<rparr>]" "owner_part r' = owner_part r"
      "rt_overflow r' = rt_overflow r" "\<exists>n. ns' = ns @ [n] \<and> n_kind n = EMQTT_EVENT_MESSAGE"
      using room(2) True by (auto simp: completed_def)
    then show ?thesis using run r'(2,4) meta [OF r'(3)] by blast
  next
    case False
    then have "length (concat cs) > 0" using m(4) by (cases cs) auto
    then have "length c \<noteq> nat (event_total_data_len e)" unfolding tl nat_int by simp
    then obtain r1 info where r1: "on_data nq sq z True ob now_ms til (event_notice now_us e) e r = Some r1"
      "runtime_rep nrep srep ns (tl fs) [] r1" "describes info g" "text_of (info_topic info) = topic"
      "receiving r1 info topic c" "owner_part r1 = owner_part r" "rt_overflow r1 = rt_overflow r" "inbox ns r1 = inbox ns r"
      "receiver_slots r1 = take 1 fs"
      using step st by auto
    have mk: "meta_ok f1" "frag_total_length f1 = int (length (c @ concat cs))" using m(1) by (auto simp: f1_def meta_ok_def)
    have il: "info_length info \<le> 4096" using meta [OF r1(3)] m(3) by simp
    have sl: "receiver_slots r1 \<noteq> [] \<or> tl fs \<noteq> []" using r1(9) room(1) by (cases fs) auto
    have de: "describes info f1" using meta [OF r1(3)] by blast
    obtain r' ns' fs' where "run_events nq sq z ob tes' r1 = Some r'" "runtime_rep nrep srep ns' fs' [] r'"
      "inbox ns' r' = inbox ns r1 @ [\<lparr>own_info = info, own_payload = c @ concat cs\<rparr>]"
      "owner_part r' = owner_part r1" "rt_overflow r' = rt_overflow r1" "\<exists>n. ns' = ns @ [n] \<and> n_kind n = EMQTT_EVENT_MESSAGE"
      using run_later [OF r1(2,5) de mk(1) il mk(2) m(4) False te(4) sl room(2), of z ob] by blast
    then show ?thesis using te(1) ev r1(1,4,6,7,8) meta [OF r1(3)] by auto
  qed
qed

lemma poll_delivers:
  assumes R: "runtime_rep nrep srep (n # ns) fs [] r" and nf: "\<not> rt_faulted r" "\<not> rt_overflow r"
    and time: "rt_state r = EMQTT_SUBSCRIBING \<Longrightarrow> n_arrived_us n < rt_subscription_deadline_us r"
    and msg: "n_kind n = EMQTT_EVENT_MESSAGE"
  shows "\<exists>out r' m. emqtt_poll nq sq True sdk_stop sub now_us r = Some (Some out, r') \<and>
    runtime_rep nrep srep ns (fs @ [n_slot n]) [] r' \<and> inbox (n # ns) r = m # inbox ns r' \<and>
    ev_kind out = EMQTT_EVENT_MESSAGE \<and> emqtt_message_info.truncate (ev_message out) = own_info m \<and>
    msg_payload (ev_message out) = own_payload m @ replicate (4096 - length (own_payload m)) 0 \<and> owner_part r' = owner_part r"
proof -
  obtain out r' m q q' where p: "emqtt_poll nq sq True sdk_stop sub now_us r = Some (Some out, r')"
    "rt_messages r ! nat (n_slot n) = Some m" "message_ok m"
    "out = (polled_event n)\<lparr>ev_message := emqtt_message_info.extend (own_info m)
         (emqtt_message.fields (own_payload m @ replicate (4096 - info_length (own_info m)) 0))\<rparr>"
    "r' = r\<lparr>rt_notices := q, rt_messages := (rt_messages r)[nat (n_slot n) := None], rt_free_slots := q'\<rparr>"
    "runtime_rep nrep srep ns (fs @ [n_slot n]) [] r'"
    using poll_notice [OF R nf time, of sdk_stop sub now_us] msg by blast
  have core: "runtime_core (n # ns) fs [] r" using R by (simp add: runtime_rep_def)
  have s: "slot_of n = [n_slot n]" using core msg by (simp add: runtime_core_def notice_ok_def slot_of_def)
  have eq: "mset (fs @ n_slot n # concat (map slot_of ns) @ receiver_slots r) = mset [0, 1, 2]"
    using core s by (simp add: runtime_core_def ac_simps)
  then have "distinct (fs @ n_slot n # concat (map slot_of ns) @ receiver_slots r)"
    using mset_eq_imp_distinct_iff [OF eq] by simp
  then have new: "n_slot n \<notin> set (concat (map slot_of ns))" by auto
  have sub: "n_slot n \<in> {0, 1, 2}" "set (concat (map slot_of ns)) \<subseteq> {0, 1, 2}" using mset_eq_setD [OF eq] by auto
  have "inbox ns r' = inbox ns r" using inbox_update [OF sub new, of r None] by (simp add: p(5) inbox_def)
  moreover have "inbox (n # ns) r = m # inbox ns r" using p(2) s by (simp add: inbox_def)
  ultimately show ?thesis
    using p(1,3,6) msg by (intro exI [of _ out] exI [of _ r'] exI [of _ m])
      (simp add: p(4,5) polled_event_def message_ok_def emqtt_message_info.truncate_def emqtt_message_info.extend_def emqtt_message.fields_def)
qed

end

section \<open>The runtime on the ring buffer\<close>

interpretation ring_runtime: runtime_queues ring_ops "ring_rep 16" ring_ops "ring_rep 3"
  by unfold_locales

lemmas ring_queues = ring_runtime.runtime_queues_axioms

definition sample_notice :: notice where
  "sample_notice = \<lparr>n_kind = EMQTT_EVENT_CONNECTED, n_message_id = 0, n_slot = -1, n_broker_code = 0, n_tls_flags = 0,
     n_arrived_us = 0, n_error = EMQTT_ERROR_NONE, n_suback = replicate 8 0, n_suback_count = 0\<rparr>"

definition empty_ring :: "nat \<Rightarrow> 'a \<Rightarrow> 'a ring" where
  "empty_ring n x = \<lparr>ring_data = replicate n x, ring_head = 0, ring_count = 0\<rparr>"

lemma empty_ring_rep: "0 < n \<Longrightarrow> ring_rep n (empty_ring n x) []"
  by (simp add: ring_rep_def empty_ring_def)

abbreviation sample_create where
  "sample_create \<equiv> emqtt_create ring_ops ring_ops False 1 True True (Some (empty_ring 16 sample_notice)) (Some (empty_ring 3 (0 :: int)))
     (\<lambda>_. True) ESP_OK (300, 100) (Some sample_config) False \<lparr>s_instance = None, s_runtime_instance = 0\<rparr>"

lemma sample_created:
  obtains r k where "sample_create = Some (ESP_OK, \<lparr>s_instance = Some r, s_runtime_instance = k\<rparr>)"
    "runtime_rep (ring_rep 16) (ring_rep 3) [] [0, 1, 2] [] r" "rt_state r = EMQTT_STOPPED" "\<not> rt_started r" "\<not> rt_faulted r"
    "\<not> rt_overflow r" "rt_receiver_message r = None" "desired r = take 1 (cfg_subscriptions sample_config)"
proof -
  have e: "create_error False True True (Some (empty_ring 16 sample_notice)) (Some (empty_ring 3 (0 :: int))) (\<lambda>_. True) ESP_OK sample_config
      \<lparr>s_instance = None, s_runtime_instance = 0\<rparr> = ESP_OK"
    using sample_config_ok by (simp add: create_error_def)
  have c: "cfg_subscription_count sample_config = 1" by (simp add: sample_config_def)
  have q: "\<And>q. Some (empty_ring 16 sample_notice) = Some q \<Longrightarrow> ring_rep 16 q []"
    "\<And>q. Some (empty_ring 3 (0 :: int)) = Some q \<Longrightarrow> ring_rep 3 q []"
    using empty_ring_rep [of 16] empty_ring_rep [of 3] by auto
  show thesis
    using ring_runtime.create_ok [OF sample_config_arrays q e [symmetric], of 1 "(300, 100)"] that c by auto
qed

lemma sample_runtime_inv:
  assumes "runtime_rep (ring_rep 16) (ring_rep 3) ns fs [] r" "\<not> rt_faulted r"
  shows "runtime_inv (ring_rep 16) (ring_rep 3) r"
  using runtime_invI [OF assms(1)] assms(2) by simp

section \<open>Properties\<close>

text \<open>
  C4. Whatever the order of events in the client's task and of calls of the application, with
  any answers of the client, the clock and the allocator and any bytes in the events: the
  invariant holds, in particular every message slot is exactly in one place and every
  stored message has the storage its length says, and no function accesses memory outside
  its objects.
\<close>

theorem runtime_memory_safe:
  assumes "runtime_queues nq nrep sq srep" "runtime_reachable nq sq nrep srep r"
  shows "runtime_inv nrep srep r \<and>
    (event_readable e \<longrightarrow> on_event nq sq z al ob now_us now_ms til e r \<noteq> None) \<and>
    emqtt_poll nq sq own stp sub now_us r \<noteq> None \<and> emqtt_start nq sq own net tm sta r \<noteq> None \<and> emqtt_stop nq sq own stp r \<noteq> None \<and>
    (cstring_arg a \<longrightarrow> emqtt_enqueue own enq now_ms r a payload len qos retain False \<noteq> None \<and>
       emqtt_subscribe nq sq own stp sub now_us r a qos \<noteq> None \<and> emqtt_unsubscribe nq sq own stp unsub now_us r a \<noteq> None) \<and>
    (s_instance w = Some r \<longrightarrow> emqtt_destroy nq sq own stp des w \<noteq> None)"
proof -
  have i: "runtime_inv nrep srep r" by (rule runtime_queues.reachable_inv [OF assms])
  show ?thesis
    using i runtime_queues.on_event_total [OF assms(1) i, of e z al ob now_us now_ms til]
      runtime_queues.poll_total [OF assms(1) i, of own stp sub now_us] runtime_queues.start_total [OF assms(1) i, of own net tm sta]
      runtime_queues.stop_total [OF assms(1) i, of own stp]
      runtime_queues.enqueue_total [OF assms(1) i, of a own enq now_ms payload len qos retain]
      runtime_queues.subscribe_total [OF assms(1) i, of a own stp sub now_us qos]
      runtime_queues.unsubscribe_total [OF assms(1) i, of a own stp unsub now_us]
      runtime_queues.destroy_total [OF assms(1) i, of w own stp des]
    by auto
qed

theorem runtime_memory_safe_witness:
  "\<exists>r. sample_create \<noteq> None \<and> runtime_inv (ring_rep 16) (ring_rep 3) r \<and> s_instance (snd (the sample_create)) = Some r \<and>
     emqtt_poll ring_ops ring_ops True ESP_OK (\<lambda>_. 1) 0 r \<noteq> None"
proof -
  obtain r k where c: "sample_create = Some (ESP_OK, \<lparr>s_instance = Some r, s_runtime_instance = k\<rparr>)"
    using sample_created by metis
  have "runtime_reachable ring_ops ring_ops (ring_rep 16) (ring_rep 3) r"
    by (rule runtime_reachable.created [where nrep = "ring_rep 16" and srep = "ring_rep 3", OF sample_config_arrays _ _ c])
      (simp_all add: empty_ring_rep)
  from runtime_memory_safe [OF ring_queues this] c show ?thesis by auto
qed

text \<open>
  C9. A message whose fragments arrive in any number of pieces, for an idle receiver with a
  free slot and room in the queue of notices, ends in the inbox, behind the messages that
  were there, with exactly its topic, quality of service, flags and payload.
\<close>

theorem message_reaches_inbox:
  assumes "runtime_queues nq nrep sq srep" "runtime_rep nrep srep ns fs [] r" "rt_receiver_message r = None"
    and "fs \<noteq> []" "length ns < 16"
    and "meta_ok f" "topic_ok False topic" "length (concat (c # cs)) \<le> 4096" "\<forall>c \<in> set cs. c \<noteq> []" "c = [] \<longrightarrow> cs = []"
    and "fragments_of tes (message_fragments f topic c cs)"
  shows "\<exists>r' ns' fs' info. run_events nq sq z ob tes r = Some r' \<and> runtime_rep nrep srep ns' fs' [] r' \<and>
    inbox ns' r' = inbox ns r @ [\<lparr>own_info = info, own_payload = concat (c # cs)\<rparr>] \<and>
    text_of (info_topic info) = topic \<and> info_length info = length (concat (c # cs)) \<and> int (info_qos info) = frag_qos f \<and>
    info_message_id info = frag_message_id f \<and> info_retain info = frag_retain f \<and> info_duplicate info = frag_duplicate f \<and>
    owner_part r' = owner_part r \<and> rt_overflow r' = rt_overflow r"
  using runtime_queues.run_message [OF assms, of z ob] by blast

definition sample_event :: "emqtt_fragment \<Rightarrow> timed_event" where
  "sample_event f = (0, 0, 0, \<lparr>event_id = MQTT_EVENT_DATA, event_data = frag_data f, event_data_len = frag_data_length f,
     event_total_data_len = frag_total_length f, event_current_data_offset = frag_offset f, event_topic = frag_topic f,
     event_topic_len = frag_topic_length f, event_msg_id = frag_message_id f, event_session_present = 0,
     event_error_handle = None, event_retain = frag_retain f, event_qos = frag_qos f, event_dup = frag_duplicate f,
     event_protocol_ver = MQTT_PROTOCOL_V_3_1_1\<rparr>)"

lemma sample_event_fragments: "fragments_of (map sample_event gs) gs"
  by (induction gs) (simp_all add: fragments_of_def sample_event_def fragment_of_event_def)

lemma sample_message_ok: "meta_ok sample_fragment" "topic_ok False [0x74]"
  by (simp_all add: meta_ok_def sample_fragment_def topic_ok_def plain_level_def utf8_text_ascii)

theorem message_reaches_inbox_witness:
  "\<exists>r r' ns' m. run_events ring_ops ring_ops 300 0
      (map sample_event (message_fragments sample_fragment [0x74] [1, 2] [[3], [4, 5]])) r = Some r' \<and>
     inbox ns' r' = [m] \<and> own_payload m = [1, 2, 3, 4, 5] \<and> text_of (info_topic (own_info m)) = [0x74]"
proof -
  obtain r where r: "runtime_rep (ring_rep 16) (ring_rep 3) [] [0, 1, 2] [] r" "rt_receiver_message r = None"
    using sample_created by metis
  show ?thesis
    using message_reaches_inbox [OF ring_queues r _ _ sample_message_ok _ _ _ sample_event_fragments,
        of "[1, 2]" "[[3], [4, 5]]" 300 0]
    by (fastforce simp: inbox_def)
qed

text \<open>
  C10. The owner gets the waiting messages in the order of their arrival, each once: a poll
  that finds the notice of a message returns the first message of the inbox, with unused
  payload bytes zero, removes it and gives its slot back.
\<close>

theorem poll_delivers_in_order:
  assumes "runtime_queues nq nrep sq srep" "runtime_rep nrep srep (n # ns) fs [] r" "\<not> rt_faulted r" "\<not> rt_overflow r"
    and "rt_state r = EMQTT_SUBSCRIBING \<Longrightarrow> n_arrived_us n < rt_subscription_deadline_us r"
    and "n_kind n = EMQTT_EVENT_MESSAGE"
  shows "\<exists>out r' m. emqtt_poll nq sq True sdk_stop sub now_us r = Some (Some out, r') \<and>
    runtime_rep nrep srep ns (fs @ [n_slot n]) [] r' \<and> inbox (n # ns) r = m # inbox ns r' \<and>
    ev_kind out = EMQTT_EVENT_MESSAGE \<and> emqtt_message_info.truncate (ev_message out) = own_info m \<and>
    msg_payload (ev_message out) = own_payload m @ replicate (4096 - length (own_payload m)) 0 \<and> owner_part r' = owner_part r"
  using runtime_queues.poll_delivers [OF assms] by blast

theorem poll_delivers_in_order_witness:
  "\<exists>r r1 r' out. run_events ring_ops ring_ops 300 0 (map sample_event (message_fragments sample_fragment [0x74] [1, 2] [[3]])) r = Some r1 \<and>
     emqtt_poll ring_ops ring_ops True ESP_OK (\<lambda>_. 1) 0 r1 = Some (Some out, r') \<and>
     take 3 (msg_payload (ev_message out)) = [1, 2, 3]"
proof -
  obtain r where r: "runtime_rep (ring_rep 16) (ring_rep 3) [] [0, 1, 2] [] r" "rt_receiver_message r = None"
    "\<not> rt_faulted r" "\<not> rt_overflow r" "rt_state r = EMQTT_STOPPED"
    using sample_created by metis
  obtain r1 n fs info where r1: "run_events ring_ops ring_ops 300 0
        (map sample_event (message_fragments sample_fragment [0x74] [1, 2] [[3]])) r = Some r1"
      "runtime_rep (ring_rep 16) (ring_rep 3) [n] fs [] r1" "inbox [n] r1 = [\<lparr>own_info = info, own_payload = [1, 2, 3]\<rparr>]"
      "owner_part r1 = owner_part r" "rt_overflow r1 = rt_overflow r" "n_kind n = EMQTT_EVENT_MESSAGE"
    using ring_runtime.run_message [OF r(1,2) _ _ sample_message_ok _ _ _ sample_event_fragments, of "[1, 2]" "[[3]]" 300 0]
    by (fastforce simp: inbox_def)
  have "\<not> rt_faulted r1" "\<not> rt_overflow r1" "rt_state r1 \<noteq> EMQTT_SUBSCRIBING" using r r1(4,5) by (simp_all add: owner_part_def)
  with poll_delivers_in_order [OF ring_queues r1(2) _ _ _ r1(6), of ESP_OK "\<lambda>_. 1" 0] r1(1,3) show ?thesis
    by fastforce
qed

text \<open>
  C12. After a lost event the runtime fails closed: the next poll reports a queue error, the
  client is stopped and the state is failed; from then on polls report nothing and
  publishing and subscribing are refused, until a successful start. The desired
  subscriptions survive.
\<close>

theorem overflow_fails_closed:
  assumes "runtime_queues nq nrep sq srep" "runtime_inv nrep srep r" "\<not> rt_faulted r" "rt_overflow r"
  shows "\<exists>r'. emqtt_poll nq sq True stp sub now_us r = Some (Some (fail_event EMQTT_ERROR_QUEUE), r') \<and>
    failed_closed stp r r' \<and> runtime_inv nrep srep r' \<and>
    (\<forall>own stp' sub' now'. emqtt_poll nq sq own stp' sub' now' r' = Some (None, r')) \<and>
    (\<forall>own enq now_ms a payload len qos retain b.
       emqtt_enqueue own enq now_ms r' a payload len qos retain b = Some (ESP_ERR_INVALID_STATE, None, r')) \<and>
    (\<forall>own stp' sub' now' a qos. emqtt_subscribe nq sq own stp' sub' now' r' a qos = Some (ESP_ERR_INVALID_STATE, r'))"
proof -
  obtain ns fs where R: "runtime_rep nrep srep ns fs [] r" using assms(2,3) by (auto simp: runtime_inv_def)
  obtain r' where r': "emqtt_poll nq sq True stp sub now_us r = Some (Some (fail_event EMQTT_ERROR_QUEUE), r')"
    "runtime_inv nrep srep r'" "failed_closed stp r r'"
    using runtime_queues.poll_overflow [OF assms(1) R assms(3,4)] by blast
  have "rt_faulted r'" "rt_state r' = EMQTT_FAILED" using r'(3) by (simp_all add: failed_closed_def)
  then show ?thesis using r' by (auto simp: emqtt_poll_def emqtt_enqueue_def emqtt_subscribe_def)
qed

theorem overflow_fails_closed_witness:
  "\<exists>r r'. rt_overflow r \<and> emqtt_poll ring_ops ring_ops True ESP_OK (\<lambda>_. 1) 0 r = Some (Some (fail_event EMQTT_ERROR_QUEUE), r') \<and>
     rt_state r' = EMQTT_FAILED"
proof -
  obtain r where r: "runtime_rep (ring_rep 16) (ring_rep 3) [] [0, 1, 2] [] r" "\<not> rt_faulted r" using sample_created by metis
  have "runtime_inv (ring_rep 16) (ring_rep 3) (r\<lparr>rt_overflow := True\<rparr>)"
    using r by (intro sample_runtime_inv [of "[]" "[0, 1, 2]"]) (simp_all add: runtime_rep_flags)
  then obtain r' where "emqtt_poll ring_ops ring_ops True ESP_OK (\<lambda>_. 1) 0 (r\<lparr>rt_overflow := True\<rparr>) =
      Some (Some (fail_event EMQTT_ERROR_QUEUE), r')" "failed_closed ESP_OK (r\<lparr>rt_overflow := True\<rparr>) r'"
    using overflow_fails_closed [OF ring_queues, of "r\<lparr>rt_overflow := True\<rparr>" ESP_OK "\<lambda>_. 1" 0] r(2) by auto
  then show ?thesis by (intro exI [of _ "r\<lparr>rt_overflow := True\<rparr>"] exI [of _ r']) (simp add: failed_closed_def)
qed

text \<open>
  C13. The list of desired subscriptions is always valid (proper filters, no duplicates, at most
  eight), and changes only in a poll that takes a SUBACK granting the pending dynamic
  subscription, which is then appended, or the UNSUBACK of the pending request, whose
  filter is then removed. Failures, timeouts, disconnections and the requests themselves
  leave it alone.
\<close>

theorem desired_changes_only_when_granted:
  assumes "runtime_queues nq nrep sq srep" "runtime_inv nrep srep r" "cstring_arg a"
  shows "subs_valid (desired r) \<and> length (desired r) \<le> 8 \<and>
    (\<exists>out r'. emqtt_poll nq sq own stp sub now_us r = Some (out, r') \<and>
       (desired r' = desired r \<or>
        (\<exists>n ns fs. own \<and> runtime_rep nrep srep (n # ns) fs [] r \<and>
           (rt_state r = EMQTT_SUBSCRIBING \<longrightarrow> n_arrived_us n < rt_subscription_deadline_us r) \<and>
           (n_kind n = NOTICE_SUBACK \<and> granted n r \<and> rt_pending_dynamic_subscribe r \<and>
              desired r' = desired r @ [rt_pending_subscription r] \<or>
            n_kind n = EMQTT_EVENT_UNSUBSCRIBED \<and> unsubscribed n r \<and>
              desired r' = without (rt_pending_unsubscribe_index r) (desired r))))) \<and>
    (\<exists>err r'. emqtt_subscribe nq sq own stp sub now_us r a qos = Some (err, r') \<and> desired r' = desired r) \<and>
    (\<exists>err r'. emqtt_unsubscribe nq sq own stp unsub now_us r a = Some (err, r') \<and> desired r' = desired r) \<and>
    (\<exists>err r'. emqtt_start nq sq own net tm sta r = Some (err, r') \<and> desired r' = desired r) \<and>
    (\<exists>err r'. emqtt_stop nq sq own stp r = Some (err, r') \<and> desired r' = desired r)"
proof -
  note q = assms(1)
  have v: "subs_valid (desired r)" "length (desired r) \<le> 8"
    using runtime_inv_subs [OF assms(2)] by (simp_all add: owner_ok_def)
  have step: "\<exists>out r'. emqtt_poll nq sq own stp sub now_us r = Some (out, r') \<and>
       (desired r' = desired r \<or>
        (\<exists>n ns fs. own \<and> runtime_rep nrep srep (n # ns) fs [] r \<and>
           (rt_state r = EMQTT_SUBSCRIBING \<longrightarrow> n_arrived_us n < rt_subscription_deadline_us r) \<and> subscriptions_step n r r'))"
    by (rule runtime_queues.poll_subscriptions [OF q assms(2)])
  show ?thesis
  proof (intro conjI)
    obtain out r' where p: "emqtt_poll nq sq own stp sub now_us r = Some (out, r')"
      "desired r' = desired r \<or>
        (\<exists>n ns fs. own \<and> runtime_rep nrep srep (n # ns) fs [] r \<and>
           (rt_state r = EMQTT_SUBSCRIBING \<longrightarrow> n_arrived_us n < rt_subscription_deadline_us r) \<and> subscriptions_step n r r')"
      using step by blast
    show "\<exists>out r'. emqtt_poll nq sq own stp sub now_us r = Some (out, r') \<and>
       (desired r' = desired r \<or>
        (\<exists>n ns fs. own \<and> runtime_rep nrep srep (n # ns) fs [] r \<and>
           (rt_state r = EMQTT_SUBSCRIBING \<longrightarrow> n_arrived_us n < rt_subscription_deadline_us r) \<and>
           (n_kind n = NOTICE_SUBACK \<and> granted n r \<and> rt_pending_dynamic_subscribe r \<and>
              desired r' = desired r @ [rt_pending_subscription r] \<or>
            n_kind n = EMQTT_EVENT_UNSUBSCRIBED \<and> unsubscribed n r \<and>
              desired r' = without (rt_pending_unsubscribe_index r) (desired r))))"
      using p unfolding subscriptions_step_def by (metis (full_types))
  qed (use v runtime_queues.subscribe_total [OF q assms(2,3)] runtime_queues.unsubscribe_total [OF q assms(2,3)]
      runtime_queues.start_total [OF q assms(2)] runtime_queues.stop_total [OF q assms(2)] in blast)+
qed

text \<open>A request for one more subscription is pending and its SUBACK has arrived.\<close>

definition sample_suback :: notice where
  "sample_suback = sample_notice\<lparr>n_kind := NOTICE_SUBACK, n_message_id := 7, n_suback := [1, 0, 0, 0, 0, 0, 0, 0], n_suback_count := 1\<rparr>"

lemma sample_pending:
  obtains r where "runtime_rep (ring_rep 16) (ring_rep 3) [sample_suback] [0, 1, 2] [] r" "\<not> rt_faulted r" "\<not> rt_overflow r"
    "rt_state r = EMQTT_SUBSCRIBING" "rt_subscription_deadline_us r = 10" "rt_pending_dynamic_subscribe r"
    "granted sample_suback r" "length (desired r) = 1"
proof -
  obtain r0 where r0: "runtime_rep (ring_rep 16) (ring_rep 3) [] [0, 1, 2] [] r0" "\<not> rt_faulted r0" "\<not> rt_overflow r0"
    "desired r0 = take 1 (cfg_subscriptions sample_config)"
    using sample_created by metis
  have plain: "plain_notice sample_suback" "n_kind sample_suback \<noteq> EMQTT_EVENT_MESSAGE"
    by (simp_all add: plain_notice_def sample_suback_def sample_notice_def)
  obtain r1 where r1: "runtime_rep (ring_rep 16) (ring_rep 3) [sample_suback] [0, 1, 2] [] r1" "owner_part r1 = owner_part r0"
    "rt_overflow r1 = rt_overflow r0"
    using ring_runtime.post_plain [OF r0(1) plain] by (auto simp: posted_def)
  define ps where "ps = \<lparr>sub_topic = pad 257 [0x61], sub_qos = 1\<rparr>"
  define r where "r = r1\<lparr>rt_pending_subscription := ps, rt_pending_subscribe := 7, rt_pending_subscribe_count := 1,
    rt_pending_dynamic_subscribe := True, rt_subscription_deadline_us := 10, rt_state := EMQTT_SUBSCRIBING\<rparr>"
  have so: "owner_ok r1" using r1(1) by (simp add: runtime_rep_def runtime_core_def)
  have d: "desired r1 = [\<lparr>sub_topic = pad 257 [0x23], sub_qos = 1\<rparr>]"
    using r1(2) r0(4) by (simp add: owner_part_def sample_config_def take_replicate)
  have len: "length (desired r1) = 1" using d by simp
  have tx: "text_of (pad 257 [0x61]) = [0x61]" "text_of (pad 257 [0x23]) = [0x23]" by (rule text_of_pad; simp)+
  have "subs_valid (desired r1 @ [ps])"
    using d tx so by (auto simp: subs_valid_def ps_def length_pad topic_ok_def plain_level_def utf8_text_ascii owner_ok_def)
  moreover have "rt_subscription_count r1 < 8" using len so by (auto simp: owner_ok_def)
  ultimately have "owner_ok r" using so by (auto simp: owner_ok_def r_def ps_def length_pad)
  then have "runtime_rep (ring_rep 16) (ring_rep 3) [sample_suback] [0, 1, 2] [] r"
    by (rule ring_runtime.runtime_rep_subs [OF r1(1)]) (simp_all add: r_def)
  moreover have "granted sample_suback r"
    by (simp add: granted_def r_def ps_def sample_suback_def sample_notice_def emqtt_suback_valid_def)
  moreover have "\<not> rt_faulted r" "\<not> rt_overflow r" using r0(2,3) r1(2,3) by (simp_all add: owner_part_def r_def)
  ultimately show thesis using that [of r] len by (simp add: r_def)
qed

theorem desired_changes_only_when_granted_witness:
  "\<exists>r out r'. granted sample_suback r \<and> emqtt_poll ring_ops ring_ops True ESP_OK (\<lambda>_. 1) 5 r = Some (out, r') \<and> subs_valid (desired r)"
proof -
  obtain r where r: "runtime_rep (ring_rep 16) (ring_rep 3) [sample_suback] [0, 1, 2] [] r" "\<not> rt_faulted r" "granted sample_suback r"
    using sample_pending by metis
  have "cstring_arg None" by (simp add: cstring_arg_def)
  from desired_changes_only_when_granted [OF ring_queues sample_runtime_inv [OF r(1,2)] this, of True ESP_OK "\<lambda>_. 1" 5] r(3)
  show ?thesis by blast
qed

text \<open>
  C14. A subscription request ends: when its deadline has passed and no event waits that
  arrived in time, the next poll fails closed with a subscription error. Events of the
  client cannot extend the wait: no handler run changes the state or the deadline.
\<close>

theorem subscription_deadline:
  assumes "runtime_queues nq nrep sq srep" "runtime_rep nrep srep ns fs [] r" "\<not> rt_faulted r" "\<not> rt_overflow r"
    and "rt_state r = EMQTT_SUBSCRIBING" "rt_subscription_deadline_us r \<le> now_us"
    and "ns = [] \<or> rt_subscription_deadline_us r \<le> n_arrived_us (hd ns)"
  shows "(\<exists>r'. emqtt_poll nq sq True stp sub now_us r = Some (Some (fail_event EMQTT_ERROR_SUBSCRIPTION), r') \<and> failed_closed stp r r') \<and>
    (event_readable e \<longrightarrow> (\<exists>r'. on_event nq sq z al ob us ms til e r = Some r' \<and> rt_state r' = EMQTT_SUBSCRIBING \<and>
       rt_subscription_deadline_us r' = rt_subscription_deadline_us r))"
proof
  show "\<exists>r'. emqtt_poll nq sq True stp sub now_us r = Some (Some (fail_event EMQTT_ERROR_SUBSCRIPTION), r') \<and> failed_closed stp r r'"
  proof (cases ns)
    case Nil
    then show ?thesis
      using runtime_queues.poll_empty [OF assms(1), of fs "[]" r now_us stp sub] assms(2-6) by auto
  next
    case (Cons n ns')
    then show ?thesis
      using runtime_queues.poll_late [OF assms(1), of n ns' fs "[]" r stp sub now_us] assms(2-7) by auto
  qed
  have i: "runtime_inv nrep srep r" using runtime_invI [OF assms(2)] assms(3) by simp
  show "event_readable e \<longrightarrow> (\<exists>r'. on_event nq sq z al ob us ms til e r = Some r' \<and> rt_state r' = EMQTT_SUBSCRIBING \<and>
       rt_subscription_deadline_us r' = rt_subscription_deadline_us r)"
    using runtime_queues.on_event_total [OF assms(1) i, of e z al ob us ms til] assms(5) by (auto simp: owner_part_def)
qed

theorem subscription_deadline_witness:
  "\<exists>r r'. rt_state r = EMQTT_SUBSCRIBING \<and>
     emqtt_poll ring_ops ring_ops True ESP_OK (\<lambda>_. 1) 20 r = Some (Some (fail_event EMQTT_ERROR_SUBSCRIPTION), r')"
proof -
  obtain r0 where r0: "runtime_rep (ring_rep 16) (ring_rep 3) [] [0, 1, 2] [] r0" "\<not> rt_faulted r0" "\<not> rt_overflow r0"
    using sample_created by metis
  let ?r = "r0\<lparr>rt_state := EMQTT_SUBSCRIBING\<rparr>\<lparr>rt_subscription_deadline_us := 10\<rparr>"
  have "owner_ok ?r" using r0(1) by (simp add: runtime_rep_def runtime_core_def owner_ok_def)
  then have "runtime_rep (ring_rep 16) (ring_rep 3) [] [0, 1, 2] [] ?r"
    by (rule ring_runtime.runtime_rep_subs [OF r0(1)]) simp_all
  then obtain r' where "emqtt_poll ring_ops ring_ops True ESP_OK (\<lambda>_. 1) 20 ?r = Some (Some (fail_event EMQTT_ERROR_SUBSCRIPTION), r')"
    using subscription_deadline [OF ring_queues, of "[]" "[0, 1, 2]" ?r 20 ESP_OK "\<lambda>_. 1" "event_of (sample_event sample_fragment)" 0 True 0 0 0 0] r0 by auto
  then show ?thesis by (intro exI [of _ ?r] exI [of _ r']) simp
qed

text \<open>
  C27. \<open>emqtt_create\<close> returns exactly the error that the order of its checks gives, and leaves no
  instance behind when it fails; on success there is one stopped instance, owned by the
  calling task, with the configured subscriptions, empty queues and all slots free.
\<close>

theorem create_outcome:
  assumes "runtime_queues nq nrep sq srep" "config_arrays c"
    and "\<And>q. notices = Some q \<Longrightarrow> nrep q []" "\<And>q. free_slots = Some q \<Longrightarrow> srep q []"
  shows "let err = create_error lab alloc_rt alloc_ca notices free_slots client_init registered c w;
             result = emqtt_create nq sq lab task alloc_rt alloc_ca notices free_slots client_init registered sz (Some c) False w
    in if err \<noteq> ESP_OK then result = Some (err, w)
       else \<exists>r k. result = Some (ESP_OK, w\<lparr>s_instance := Some r, s_runtime_instance := k\<rparr>) \<and>
         runtime_rep nrep srep [] [0, 1, 2] [] r \<and> rt_state r = EMQTT_STOPPED \<and> \<not> rt_started r \<and> rt_owner r = task \<and>
         desired r = take (cfg_subscription_count c) (cfg_subscriptions c)"
  using runtime_queues.create_ok [where notices = notices and free_slots = free_slots and lab = lab and alloc_rt = alloc_rt and alloc_ca = alloc_ca and client_init = client_init
      and registered = registered and w = w and task = task and sz = sz, OF assms(1,2,3,4) refl]
  by (auto simp: Let_def split: if_splits)

theorem create_outcome_witness: "\<exists>w. sample_create = Some (ESP_OK, w) \<and> s_instance w \<noteq> None"
proof -
  have e: "create_error False True True (Some (empty_ring 16 sample_notice)) (Some (empty_ring 3 (0 :: int))) (\<lambda>_. True) ESP_OK sample_config
      \<lparr>s_instance = None, s_runtime_instance = 0\<rparr> = ESP_OK"
    using sample_config_ok by (simp add: create_error_def)
  have q: "\<And>q. Some (empty_ring 16 sample_notice) = Some q \<Longrightarrow> ring_rep 16 q []"
    "\<And>q. Some (empty_ring 3 (0 :: int)) = Some q \<Longrightarrow> ring_rep 3 q []"
    using empty_ring_rep [of 16] empty_ring_rep [of 3] by auto
  from create_outcome [where notices = "Some (empty_ring 16 sample_notice)" and free_slots = "Some (empty_ring 3 (0 :: int))" and lab = False and alloc_rt = True and alloc_ca = True and client_init = "\<lambda>_. True" and registered = ESP_OK
      and w = "\<lparr>s_instance = None, s_runtime_instance = 0\<rparr>" and task = 1 and sz = "(300, 100)", OF ring_queues sample_config_arrays q]
  show ?thesis unfolding e by (auto simp: Let_def)
qed

end
