(* ===== verification/Client_Runtime.thy ===== *)
theory Client_Runtime
  imports Mqtt_Client_Send Emqtt_Runtime_Props
begin

text \<open>
  From the transport to the owner: a PUBLISH that the client has started to receive becomes data
  events, and the runtime puts them together again.
\<close>

section \<open>Reading the rest of a message\<close>

text \<open>A transport that gives \<open>n\<close> more bytes, at least one at each read.\<close>

definition supplied :: "nat \<Rightarrow> esp_mqtt_client \<Rightarrow> bool" where
  "supplied n c \<longleftrightarrow> n \<le> length (wire c) \<and> n \<le> length (rx_plan c) \<and>
     list_all (\<lambda>a. case a of Rx_Chunk k \<Rightarrow> 0 < k | _ \<Rightarrow> False) (take n (rx_plan c))"

lemma supplied_read:
  assumes "supplied n c" "0 < n" "0 < k" "off + min k n \<le> length (in_buffer c)"
  obtains m b where "esp_transport_read off (min k n) c =
      Some (Bytes m, c\<lparr>rx_plan := tl (rx_plan c), in_buffer := b, wire := drop m (wire c)\<rparr>)"
    "0 < m" "m \<le> n" "m \<le> k" "store (in_buffer c) off (take m (wire c)) = Some b"
    "supplied (n - m) (c\<lparr>rx_plan := tl (rx_plan c), in_buffer := b, wire := drop m (wire c)\<rparr>)"
proof -
  obtain j plan where p: "rx_plan c = Rx_Chunk j # plan" "0 < j"
    using assms(1,2) by (cases "rx_plan c"; cases n) (auto simp: supplied_def split: rx_answer.splits)
  define m where "m = min (min k n) (min j (length (wire c)))"
  have m: "0 < m" "m \<le> n" "m \<le> k" "m \<le> length (wire c)" using assms p by (auto simp: m_def supplied_def)
  have "off + length (take m (wire c)) \<le> length (in_buffer c)" using m assms(4) by simp
  then obtain b where b: "store (in_buffer c) off (take m (wire c)) = Some b" by (simp add: store_def)
  have "take n (rx_plan c) = Rx_Chunk j # take (n - 1) plan" using p assms(2) by (cases n) auto
  then have "list_all (\<lambda>a. case a of Rx_Chunk k \<Rightarrow> 0 < k | _ \<Rightarrow> False) (take (n - 1) plan)"
    using assms(1) by (simp add: supplied_def)
  moreover have "take (n - m) plan = take (n - m) (take (n - 1) plan)" using m by (simp add: min_def)
  ultimately have "list_all (\<lambda>a. case a of Rx_Chunk k \<Rightarrow> 0 < k | _ \<Rightarrow> False) (take (n - m) plan)"
    unfolding list_all_iff by (metis in_set_takeD)
  then have "supplied (n - m) (c\<lparr>rx_plan := tl (rx_plan c), in_buffer := b, wire := drop m (wire c)\<rparr>)"
    using assms(1) p m by (auto simp: supplied_def)
  moreover have "esp_transport_read off (min k n) c =
      Some (Bytes m, c\<lparr>rx_plan := tl (rx_plan c), in_buffer := b, wire := drop m (wire c)\<rparr>)"
    using p b m(1) by (simp add: esp_transport_read_def Let_def m_def [symmetric])
  ultimately show thesis using that m b by blast
qed

section \<open>Data events\<close>

abbreviation fragment_sent :: "client_event \<Rightarrow> emqtt_fragment" where
  "fragment_sent e \<equiv> fragment_of_event (esp_mqtt_event.truncate e)"

text \<open>What data events report in addition to their piece of the payload and the topic.\<close>

definition same_message :: "client_event \<Rightarrow> emqtt_fragment \<Rightarrow> bool" where
  "same_message e f \<longleftrightarrow> event_total_data_len e = frag_total_length f \<and> event_msg_id e = frag_message_id f \<and>
     event_qos e = frag_qos f \<and> event_retain e = frag_retain f \<and> event_dup e = frag_duplicate f"

lemma dispatch_data_event:
  assumes "data_len < 2 ^ 31" "data_offset < 2 ^ 31" "0 < data_len" "same_message (event c) f"
  obtains e where "events (dispatch_data (Some i) data_len data_offset topic topic_len c) = events c @ [e]"
    "event_id e = MQTT_EVENT_DATA"
    "same_message (event (dispatch_data (Some i) data_len data_offset topic topic_len c)) f"
    "fragment_sent e =
       f\<lparr>frag_topic := pointed topic (int topic_len) c, frag_topic_length := int topic_len,
         frag_data := Some (take data_len (drop i (in_buffer c))), frag_data_length := int data_len,
         frag_offset := int data_offset\<rparr>"
proof -
  let ?d = "dispatch_data (Some i) data_len data_offset topic topic_len c"
  define e where "e = (event c)\<lparr>event_id := MQTT_EVENT_DATA, data_ptr := In_Recv i, event_data_len := int data_len,
    event_current_data_offset := int data_offset, topic_ptr := topic, event_topic_len := int topic_len,
    event_protocol_ver := protocol_ver (conn_info c)\<rparr>"
  define e' where "e' = e\<lparr>event_data := Some (take data_len (drop i (in_buffer c))), event_topic := pointed topic (int topic_len) c\<rparr>"
  have p: "pointed q n (c\<lparr>event := x\<rparr>) = pointed q n c" for q n x by (simp add: pointed_def split: event_ptr.split)
  have q: "pointed (In_Recv i) (int data_len) c = Some (take data_len (drop i (in_buffer c)))" by (simp add: pointed_def)
  have d: "?d = (let d = c\<lparr>event := e, events := events c @ [e']\<rparr> in
      if is_v5 c then upd_property (\<lambda>p. p\<lparr>ep_user_property := None\<rparr>) d else d)"
    using assms by (simp add: p q dispatch_data_def esp_mqtt_dispatch_event_def upd_event_def to_int_nat Let_def e_def e'_def)
  show thesis
  proof (rule that)
    show "events ?d = events c @ [e']" by (simp add: d Let_def upd_property_def upd_event_def)
    show "event_id e' = MQTT_EVENT_DATA" by (simp add: e'_def e_def)
    show "same_message (event ?d) f"
      using assms(4) by (auto simp: d Let_def upd_property_def upd_event_def same_message_def e_def)
    show "fragment_sent e' = f\<lparr>frag_topic := pointed topic (int topic_len) c, frag_topic_length := int topic_len,
         frag_data := Some (take data_len (drop i (in_buffer c))), frag_data_length := int data_len,
         frag_offset := int data_offset\<rparr>"
      using assms(4) by (simp add: same_message_def fragment_of_event_def esp_mqtt_event.truncate_def e'_def e_def)
  qed
qed

lemma dispatch_data_silent [simp]:
  "hush (dispatch_data data data_len data_offset topic topic_len c) = hush c"
  by (simp add: dispatch_data_def)

section \<open>Delivery of a message\<close>

lemma deliver_rest_events:
  assumes "length (in_buffer c) = in_buffer_length c" "0 < in_buffer_length c" "supplied n c" "same_message (event c) f"
    and "data_offset + n < 2 ^ 31"
  shows "\<exists>c' cs es. deliver_rest r (r + n) data_offset Null_Ptr 0 c = Some (ESP_OK, c') \<and> silent c' = silent c \<and>
    wire c' = drop n (wire c) \<and> events c' = events c @ es \<and> concat cs = take n (wire c) \<and> (\<forall>p \<in> set cs. p \<noteq> []) \<and>
    map fragment_sent es = later_fragments f data_offset cs \<and> (\<forall>e \<in> set es. event_id e = MQTT_EVENT_DATA)"
  using assms
proof (induction n arbitrary: r data_offset c rule: less_induct)
  case (less n)
  show ?case
  proof (cases "n = 0")
    case True
    then show ?thesis by (intro exI [of _ c] exI [of _ "[]"]) (simp add: deliver_rest.simps [of r])
  next
    case False
    obtain m b where m: "esp_transport_read 0 (min (in_buffer_length c) n) c =
        Some (Bytes m, c\<lparr>rx_plan := tl (rx_plan c), in_buffer := b, wire := drop m (wire c)\<rparr>)"
      "0 < m" "m \<le> n" "m \<le> in_buffer_length c" "store (in_buffer c) 0 (take m (wire c)) = Some b"
      "supplied (n - m) (c\<lparr>rx_plan := tl (rx_plan c), in_buffer := b, wire := drop m (wire c)\<rparr>)"
      using supplied_read [OF less.prems(3), of "in_buffer_length c" 0] False less.prems(1,2) by auto
    let ?c = "c\<lparr>rx_plan := tl (rx_plan c), in_buffer := b, wire := drop m (wire c)\<rparr>"
    let ?d = "dispatch_data (Some 0) m data_offset Null_Ptr 0 ?c"
    have lw: "m \<le> length (wire c)" using less.prems(3) m(3) by (simp add: supplied_def)
    have b: "take m b = take m (wire c)" "length b = length (in_buffer c)"
      using store_take_end [OF m(5)] store_length [OF m(5)] lw by simp_all
    have h: "hush ?d = hush ?c" by simp
    note k = reportedD(1,2,5,6) [OF h]
    have sd: "silent ?d = silent c" using silent_hush [OF h] by (simp add: silent_def hush_def)
    obtain e where e: "events ?d = events c @ [e]" "event_id e = MQTT_EVENT_DATA" "same_message (event ?d) f"
      "fragment_sent e = f\<lparr>frag_topic := None, frag_topic_length := 0, frag_data := Some (take m (wire c)),
         frag_data_length := int m, frag_offset := int data_offset\<rparr>"
      using dispatch_data_event [of m data_offset ?c f 0 Null_Ptr 0] less.prems(4,5) m(2,3) b(1) by (auto simp: pointed_def)
    have sup: "supplied (n - m) ?d" using m(6) k by (simp add: supplied_def)
    obtain c' cs es where c': "deliver_rest (r + m) (r + m + (n - m)) (data_offset + m) Null_Ptr 0 ?d = Some (ESP_OK, c')"
      "silent c' = silent ?d" "wire c' = drop (n - m) (wire ?d)" "events c' = events ?d @ es" "concat cs = take (n - m) (wire ?d)"
      "\<forall>p \<in> set cs. p \<noteq> []" "map fragment_sent es = later_fragments f (data_offset + m) cs"
      "\<forall>e \<in> set es. event_id e = MQTT_EVENT_DATA"
      using less.IH [of "n - m" ?d "data_offset + m" "r + m"] m(2,3) k b(2) less.prems(1,2,5) sup e(3) by auto
    have run: "deliver_rest r (r + n) data_offset Null_Ptr 0 c = Some (ESP_OK, c')"
      using c'(1) m(1-3) False by (subst deliver_rest.simps) simp
    have "take m (wire c) @ take (n - m) (drop m (wire c)) = take n (wire c)"
      using m(3) by (metis le_add_diff_inverse take_add)
    then show ?thesis using run c' e k sd m(2,3) lw
      by (intro exI [of _ c'] exI [of _ "take m (wire c) # cs"] exI [of _ "e # es"]) (auto simp: add.commute)
  qed
qed


text \<open>
  The client when \<open>mqtt_message_receive\<close> has returned a PUBLISH: in the buffer is its start, with all of
  the header and at least a byte of the payload, and the rest comes next from the transport.
\<close>

abbreviation publish_packet :: "int \<Rightarrow> int \<Rightarrow> int \<Rightarrow> cstring \<Rightarrow> 16 word option \<Rightarrow> byte list \<Rightarrow> byte list" where
  "publish_packet dup qos retain topic mid d \<equiv> packet MQTT_MSG_TYPE_PUBLISH dup qos retain (publish_body topic mid d)"

definition publish_received ::
  "int \<Rightarrow> int \<Rightarrow> int \<Rightarrow> cstring \<Rightarrow> 16 word option \<Rightarrow> byte list \<Rightarrow> byte list \<Rightarrow> esp_mqtt_client \<Rightarrow> bool" where
  "publish_received dup qos retain topic mid d tail c \<longleftrightarrow>
     recv_ok c \<and> stream c = publish_packet dup qos retain topic mid d @ tail \<and>
     message_length c = length (publish_packet dup qos retain topic mid d) \<and>
     in_buffer_read_len c = min (message_length c) (in_buffer_length c) \<and>
     publish_start_ok dup qos retain (length (publish_body topic mid d)) topic mid \<and>
     publish_header_length (length (publish_body topic mid d)) topic mid < in_buffer_read_len c"

lemma publish_received_buffer:
  assumes "publish_received dup qos retain topic mid d tail c"
  defines "n \<equiv> length (publish_body topic mid d)"
  defines "k \<equiv> in_buffer_read_len c - publish_header_length n topic mid"
  obtains rest where "in_buffer c = publish_start dup qos retain n topic mid rest" "take k rest = take k d" "k \<le> length rest"
    "k \<le> length d" "wire c = drop k d @ tail" "0 < k" "in_buffer_read_len c = publish_header_length n topic mid + k"
    "message_length c = publish_header_length n topic mid + length d"
    "1 + length (encode_length n) + n = publish_header_length n topic mid + length d"
proof -
  let ?l = "in_buffer_read_len c" and ?h = "publish_header_length n topic mid"
  have pk: "publish_packet dup qos retain topic mid d = publish_start dup qos retain n topic mid d"
    by (simp add: packet_publish_start n_def)
  have s: "take ?l (in_buffer c) @ wire c = publish_start dup qos retain n topic mid d @ tail" "?h < ?l" "?l \<le> length (in_buffer c)"
    "message_length c = ?h + length d" "?l = min (message_length c) (in_buffer_length c)"
    using assms(1) unfolding publish_received_def recv_ok_def stream_def pk n_def [symmetric] length_publish_start by metis+
  define hd where "hd = publish_start dup qos retain n topic mid []"
  have app: "publish_start dup qos retain n topic mid xs = hd @ xs" for xs
    by (simp add: hd_def publish_start_def publish_body_alt)
  have lh: "length hd = ?h" by (simp add: hd_def length_publish_start)
  have k: "?l = ?h + k" "0 < k" "k \<le> length d" using s by (auto simp: k_def)
  define rest where "rest = drop ?h (in_buffer c)"
  have tk: "take ?l (in_buffer c) = hd @ take k d" "wire c = drop k d @ tail"
  proof -
    have ll: "length (take ?l (in_buffer c)) = ?l" using s by simp
    have "take ?l (in_buffer c) @ wire c = (hd @ take k d) @ (drop k d @ tail)" using s(1) by (simp add: app)
    moreover have "length (take ?l (in_buffer c)) = length (hd @ take k d)" using ll k lh by simp
    ultimately show "take ?l (in_buffer c) = hd @ take k d" "wire c = drop k d @ tail" by (metis append_eq_append_conv)+
  qed
  have "in_buffer c = take ?h (in_buffer c) @ rest" by (simp add: rest_def)
  moreover have "take ?h (in_buffer c) = hd" using tk(1) k lh by (metis append_take_drop_id append_eq_conv_conj le_add1 min.absorb1 take_take)
  ultimately have ib: "in_buffer c = hd @ rest" by simp
  then have "take k rest = take k d" using tk(1) k lh by simp
  moreover have "k \<le> length rest" using s(3) k by (simp add: rest_def)
  moreover have "1 + length (encode_length n) + n = ?h + length d"
    by (simp add: publish_header_length_def n_def publish_body_alt length_id_field utf8_field_def be16_def)
  ultimately show thesis using that [of rest] ib app tk(2) k s(4) by simp
qed

definition publish_fragment :: "int \<Rightarrow> int \<Rightarrow> int \<Rightarrow> 16 word option \<Rightarrow> nat \<Rightarrow> emqtt_fragment" where
  "publish_fragment dup qos retain mid n = \<lparr>frag_topic = None, frag_topic_length = 0, frag_data = None, frag_data_length = 0,
     frag_total_length = int n, frag_offset = 0, frag_message_id = (case mid of None \<Rightarrow> 0 | Some m \<Rightarrow> int (unat m)),
     frag_qos = qos, frag_retain = (retain \<noteq> 0), frag_duplicate = (dup \<noteq> 0)\<rparr>"

lemma deliver_publish_events:
  assumes r: "publish_received dup qos retain topic mid d tail c" and v: "\<not> is_v5 c"
    and t: "\<not> MQTT_TOPIC_PRESENT_ALL_DATA_EVENTS (config c)" and sup: "supplied (message_length c - in_buffer_read_len c) c"
  shows "\<exists>c' c0 cs es. deliver_publish c = Some (ESP_OK, c') \<and> silent c' = silent c \<and> wire c' = tail \<and>
    events c' = events c @ es \<and> c0 @ concat cs = d \<and> (\<forall>p \<in> set (c0 # cs). p \<noteq> []) \<and>
    map fragment_sent es = message_fragments (publish_fragment dup qos retain mid (length d)) topic c0 cs \<and>
    (\<forall>e \<in> set es. event_id e = MQTT_EVENT_DATA)"
proof -
  define n where "n = length (publish_body topic mid d)"
  define h where "h = publish_header_length n topic mid"
  define k where "k = in_buffer_read_len c - h"
  obtain rest where b: "in_buffer c = publish_start dup qos retain n topic mid rest" "take k rest = take k d" "k \<le> length rest"
    "k \<le> length d" "wire c = drop k d @ tail" "0 < k" "in_buffer_read_len c = h + k" "message_length c = h + length d"
    "1 + length (encode_length n) + n = h + length d"
    using publish_received_buffer [OF r] unfolding n_def h_def k_def by metis
  have ok: "publish_start_ok dup qos retain n topic mid" using r by (simp add: publish_received_def n_def)
  have sm: "h + length d < 2 ^ 31"
    using ok length_encode_small [of n] b(9) by (auto simp: publish_start_ok_def)
  let ?f = "publish_fragment dup qos retain mid (length d)"
  have hl: "3 + length (encode_length n) + length topic \<le> h" by (simp add: h_def publish_header_length_def)
  have ty: "mqtt_get_publish_topic (in_buffer c) (h + k) = Some (Some (3 + length (encode_length n), length topic))"
    using publish_start_topic [OF ok] hl by (simp add: b(1))
  have da: "mqtt_get_publish_data (in_buffer c) (h + k) = Some (Some h, k)"
    using publish_start_data [OF ok, of "h + k"] b(4,6,9) by (simp add: b(1) h_def [symmetric])
  have id: "mqtt_get_id (in_buffer c) (h + k) = Some (case mid of None \<Rightarrow> 0 | Some m \<Rightarrow> unat m)"
    using publish_start_get_id [OF ok, of "h + k"] by (simp add: b(1) h_def [symmetric])
  have hdr: "mqtt_get_retain (in_buffer c) = Some (nat retain)" "mqtt_get_qos (in_buffer c) = Some (nat qos)"
    "mqtt_get_dup (in_buffer c) = Some (nat dup)"
    using ok fixed_header_fields [of 3 dup qos retain] by (auto simp: publish_start_ok_def publish_start_def b(1))
  define c1 where "c1 = upd_event (\<lambda>e. e\<lparr>event_retain := (nat retain \<noteq> 0), event_msg_id := int (case mid of None \<Rightarrow> 0 | Some m \<Rightarrow> unat m),
     event_qos := int (nat qos), event_dup := (nat dup \<noteq> 0),
     event_total_data_len := to_int (of_nat k + of_nat (h + length d) - of_nat (h + k))\<rparr>) c"
  let ?d = "dispatch_data (Some h) k 0 (In_Recv (3 + length (encode_length n))) (length topic) c1"
  have "(of_nat k :: 32 word) + of_nat (h + length d) - of_nat (h + k) = of_nat (length d)" by simp
  then have "event_total_data_len (event c1) = int (length d)"
    using sm to_int_nat [of "length d"] by (simp add: c1_def upd_event_def)
  then have sm1: "same_message (event c1) ?f"
    using ok by (auto simp: same_message_def publish_fragment_def c1_def upd_event_def publish_start_ok_def split: option.split)
  have hc: "hush ?d = hush c" by (simp add: c1_def)
  note kd = reportedD(1,2,5,6,7,8,12) [OF hc]
  have pt: "pointed (In_Recv (3 + length (encode_length n))) (int (length topic)) c1 = Some topic"
    by (simp add: numeral_3_eq_3 pointed_def c1_def upd_event_def b(1) publish_start_def publish_body_def utf8_field_def be16_def)
  have dt: "take k (drop h (in_buffer c1)) = take k d"
  proof -
    have "drop h (in_buffer c) = rest"
      by (simp add: b(1) h_def publish_header_length_def publish_start_def publish_body_alt utf8_field_def be16_def id_field_def split: option.split)
    then show ?thesis using b(2) by (simp add: c1_def upd_event_def)
  qed
  obtain e where e: "events ?d = events c @ [e]" "event_id e = MQTT_EVENT_DATA" "same_message (event ?d) ?f"
    "fragment_sent e = ?f\<lparr>frag_topic := Some topic, frag_topic_length := int (length topic), frag_data := Some (take k d),
       frag_data_length := int k, frag_offset := 0\<rparr>"
  proof -
    obtain e where "events ?d = events c1 @ [e]" "event_id e = MQTT_EVENT_DATA" "same_message (event ?d) ?f"
      "fragment_sent e = ?f\<lparr>frag_topic := pointed (In_Recv (3 + length (encode_length n))) (int (length topic)) c1,
         frag_topic_length := int (length topic), frag_data := Some (take k (drop h (in_buffer c1))), frag_data_length := int k,
         frag_offset := int 0\<rparr>"
      by (rule dispatch_data_event [OF _ _ b(6) sm1, of 0]) (use sm b(4) in simp, simp, rule that)
    then show thesis using that [of e] pt dt by (simp add: c1_def upd_event_def)
  qed
  have run: "deliver_publish c = (if h + k < h + length d then deliver_rest (h + k) (h + length d) k Null_Ptr 0 ?d else Some (ESP_OK, ?d))"
    using v t b(6) ty da id hdr
    by (simp add: deliver_publish_def Let_def b(7,8) message_id_of_def c1_def upd_event_def not_le cong: if_cong)
  have fr: "message_fragments ?f topic (take k d) cs = (?f\<lparr>frag_topic := Some topic, frag_topic_length := int (length topic),
      frag_data := Some (take k d), frag_data_length := int k, frag_offset := 0\<rparr>) # later_fragments ?f k cs"
    if "concat cs = drop k d" for cs
    using that b(4) by (simp add: message_fragments_def Let_def publish_fragment_def)
  show ?thesis
  proof (cases "k = length d")
    case True
    then show ?thesis using run e b(4-6) kd fr [of "[]"] silent_hush [OF hc]
      by (intro exI [of _ ?d] exI [of _ d] exI [of _ "[]"] exI [of _ "[e]"]) auto
  next
    case False
    define m where "m = length d - k"
    have m: "h + length d = h + k + m" "k + m = length d" using b(4) by (simp_all add: m_def)
    have su: "supplied m ?d" using sup kd m by (simp add: supplied_def b(7,8))
    have bl: "length (in_buffer ?d) = in_buffer_length ?d" "0 < in_buffer_length ?d"
      using r kd by (simp_all add: publish_received_def recv_ok_def)
    obtain c' cs es where c': "deliver_rest (h + k) (h + k + m) k Null_Ptr 0 ?d = Some (ESP_OK, c')" "silent c' = silent ?d"
      "wire c' = drop m (wire ?d)" "events c' = events ?d @ es" "concat cs = take m (wire ?d)" "\<forall>p \<in> set cs. p \<noteq> []"
      "map fragment_sent es = later_fragments ?f k cs" "\<forall>e \<in> set es. event_id e = MQTT_EVENT_DATA"
      using deliver_rest_events [OF bl su e(3), of k "h + k"] m sm by auto
    have "concat cs = drop k d" using c'(5) kd b(5) m by simp
    then show ?thesis using run c' e b(4-6) kd m False fr [of cs] silent_hush [OF hc]
      by (intro exI [of _ c'] exI [of _ "take k d"] exI [of _ cs] exI [of _ "e # es"]) auto
  qed
qed


section \<open>The acknowledgement\<close>

definition acknowledgement :: "int \<Rightarrow> 16 word option \<Rightarrow> byte list" where
  "acknowledgement qos mid = (case mid of None \<Rightarrow> []
     | Some m \<Rightarrow> packet (if qos = 1 then MQTT_MSG_TYPE_PUBACK else MQTT_MSG_TYPE_PUBREC) 0 0 0 (be16 (unat m)))"

lemma process_publish_events:
  assumes r: "publish_received dup qos retain topic mid d tail c" and v: "\<not> is_v5 c"
    and t: "\<not> MQTT_TOPIC_PRESENT_ALL_DATA_EVENTS (config c)" and sup: "supplied (message_length c - in_buffer_read_len c) c"
    and w: "willing c" "init_ok (connection c)" "7 \<le> buffer_length (connection c)" and m: "mid \<noteq> Some 0"
  shows "\<exists>c' c0 cs es. process_publish (nat qos) (case mid of None \<Rightarrow> 0 | Some m \<Rightarrow> unat m) c = Some (ESP_OK, c') \<and> wire c' = tail \<and>
    sent c' = sent c @ acknowledgement qos mid \<and>
    events c' = events c @ es \<and> c0 @ concat cs = d \<and> (\<forall>p \<in> set (c0 # cs). p \<noteq> []) \<and>
    map fragment_sent es = message_fragments (publish_fragment dup qos retain mid (length d)) topic c0 cs \<and>
    (\<forall>e \<in> set es. event_id e = MQTT_EVENT_DATA)"
proof -
  obtain c1 c0 cs es where c1: "deliver_publish c = Some (ESP_OK, c1)" "silent c1 = silent c" "wire c1 = tail"
    and es: "events c1 = events c @ es" "c0 @ concat cs = d \<and> (\<forall>p \<in> set (c0 # cs). p \<noteq> []) \<and>
      map fragment_sent es = message_fragments (publish_fragment dup qos retain mid (length d)) topic c0 cs \<and>
      (\<forall>e \<in> set es. event_id e = MQTT_EVENT_DATA)"
    using deliver_publish_events [OF r v t sup] by blast
  note k = silentD(1,2,4) [OF c1(2)]
  have q: "0 \<le> qos" "qos < 3" "mid \<noteq> None \<longleftrightarrow> qos > 0" using r by (auto simp: publish_received_def publish_start_ok_def)
  show ?thesis
  proof (cases mid)
    case None
    then have "qos = 0" using q by simp
    then show ?thesis using c1 es k None
      by (intro exI [of _ c1] exI [of _ c0] exI [of _ cs] exI [of _ es]) (simp add: process_publish_def acknowledgement_def)
  next
    case (Some i)
    then have q12: "qos = 1 \<or> qos = 2" "i \<noteq> 0" using q m by auto
    let ?ty = "if qos = 1 then MQTT_MSG_TYPE_PUBACK else MQTT_MSG_TYPE_PUBREC"
    obtain conn where conn: "ack_message ?ty 0 (connection c1) i = Some conn"
      "composed (connection c1) conn (packet ?ty 0 0 0 (be16 (unat i)))"
      using ack_builder [OF _ q12(2), of "connection c1" ?ty 0] w k by auto
    have co: "compose (\<lambda>conn. mqtt5_msg_puback conn i) (\<lambda>conn. mqtt_msg_puback conn i) c1 = Some (c1\<lparr>connection := conn\<rparr>)" if "qos = 1"
      using that conn(1) v k by (simp add: compose_def mqtt_msg_puback_def)
    have co2: "compose (\<lambda>conn. mqtt5_msg_pubrec conn i) (\<lambda>conn. mqtt_msg_pubrec conn i) c1 = Some (c1\<lparr>connection := conn\<rparr>)" if "qos = 2"
      using that conn(1) v k by (simp add: compose_def mqtt_msg_pubrec_def)
    let ?c2 = "c1\<lparr>connection := conn\<rparr>"
    have mb: "message_bytes conn = packet ?ty 0 0 0 (be16 (unat i))" "out_length conn = length (packet ?ty 0 0 0 (be16 (unat i)))"
      using conn(2) by (simp_all add: composed_def)
    have wi: "willing ?c2" using w(1) k by (simp add: willing_def)
    obtain plan where wr: "esp_mqtt_write ?c2 = Some (ESP_OK, ?c2\<lparr>sent := sent c @ packet ?ty 0 0 0 (be16 (unat i)), tx_plan := plan\<rparr>)"
      using write_willing [OF wi] mb k by auto
    have hm: "has_message ?c2" using mb by (simp add: has_message_def packet_def)
    have "process_publish (nat qos) (unat i) c = Some (ESP_OK, ?c2\<lparr>sent := sent c @ packet ?ty 0 0 0 (be16 (unat i)), tx_plan := plan\<rparr>)"
      using q12(1) c1(1) co co2 wr hm by (auto simp: process_publish_def)
    then show ?thesis using c1 es Some
      by (intro exI [of _ "?c2\<lparr>sent := sent c @ packet ?ty 0 0 0 (be16 (unat i)), tx_plan := plan\<rparr>"] exI [of _ c0] exI [of _ cs] exI [of _ es])
        (simp add: acknowledgement_def)
  qed
qed

section \<open>From the transport to the inbox\<close>

text \<open>The events of the client as the runtime's handler gets them, each at its times.\<close>

definition handled :: "(int \<times> nat \<times> nat) list \<Rightarrow> client_event list \<Rightarrow> timed_event list" where
  "handled ts es = map2 (\<lambda>(us, ms, til) e. (us, ms, til, esp_mqtt_event.truncate e)) ts es"

lemma handled_fragments:
  assumes "length ts = length es" "\<forall>e \<in> set es. event_id e = MQTT_EVENT_DATA"
  shows "fragments_of (handled ts es) (map fragment_sent es)"
  using assms
  by (induction ts es rule: list_induct2) (auto simp: fragments_of_def handled_def esp_mqtt_event.truncate_def)


text \<open>
  C1. A PUBLISH of quality of service 0 or 1 that the client has begun to receive, on an MQTT 3.1.1
  connection, reaches the owner whole: the client takes exactly the rest of the packet from the
  transport, in whatever pieces it comes, sends the acknowledgement the quality of service asks for,
  and its data events, handled by a runtime with an idle receiver, a free slot and room in the queue of notices, put one
  message with exactly this topic, payload and these flags at the end of the inbox. The payload has 1 to 4096 bytes, and
  the bytes keep coming (\<open>supplied\<close>: no read times out).
\<close>

theorem publish_reaches_inbox:
  assumes "publish_received dup qos retain topic mid d tail c" "qos < 2" "mid \<noteq> Some 0"
    and "\<not> is_v5 c" "\<not> MQTT_TOPIC_PRESENT_ALL_DATA_EVENTS (config c)"
    and "supplied (message_length c - in_buffer_read_len c) c"
    and "willing c" "init_ok (connection c)" "7 \<le> buffer_length (connection c)"
    and "runtime_queues nq nrep sq srep" "runtime_rep nrep srep ns fs [] r" "rt_receiver_message r = None" "fs \<noteq> []" "length ns < 16"
    and "topic_ok False topic" "length d \<le> 4096"
  shows "\<exists>c' es. process_publish (nat qos) (case mid of None \<Rightarrow> 0 | Some m \<Rightarrow> unat m) c = Some (ESP_OK, c') \<and>
    wire c' = tail \<and> sent c' = sent c @ acknowledgement qos mid \<and> events c' = events c @ es \<and>
    (\<forall>ts. length ts = length es \<longrightarrow>
      (\<exists>r' ns' fs' info. run_events nq sq z ob (handled ts es) r = Some r' \<and> runtime_rep nrep srep ns' fs' [] r' \<and>
        inbox ns' r' = inbox ns r @ [\<lparr>own_info = info, own_payload = d\<rparr>] \<and>
        text_of (info_topic info) = topic \<and> info_length info = length d \<and> int (info_qos info) = qos \<and>
        info_message_id info = (case mid of None \<Rightarrow> 0 | Some m \<Rightarrow> int (unat m)) \<and>
        info_retain info = (retain \<noteq> 0) \<and> info_duplicate info = (dup \<noteq> 0) \<and> rt_overflow r' = rt_overflow r))"
proof -
  let ?f = "publish_fragment dup qos retain mid (length d)"
  obtain c' c0 cs es where c': "process_publish (nat qos) (case mid of None \<Rightarrow> 0 | Some m \<Rightarrow> unat m) c = Some (ESP_OK, c')"
    "wire c' = tail" "sent c' = sent c @ acknowledgement qos mid" "events c' = events c @ es"
    and d: "c0 @ concat cs = d" "\<forall>p \<in> set (c0 # cs). p \<noteq> []"
    and es: "map fragment_sent es = message_fragments ?f topic c0 cs" "\<forall>e \<in> set es. event_id e = MQTT_EVENT_DATA"
    using process_publish_events [OF assms(1,4-9,3)] by blast
  have q: "0 \<le> qos" "mid \<noteq> None \<longleftrightarrow> 0 < qos" using assms(1) by (auto simp: publish_received_def publish_start_ok_def)
  then have meta: "meta_ok ?f"
    using assms(2,3) uint_bounded [of "the mid"] by (cases mid) (auto simp: meta_ok_def publish_fragment_def uint_0_iff)
  show ?thesis
  proof (rule exI [of _ c'], rule exI [of _ es], intro conjI allI impI)
    show "\<exists>r' ns' fs' info. run_events nq sq z ob (handled ts es) r = Some r' \<and> runtime_rep nrep srep ns' fs' [] r' \<and>
        inbox ns' r' = inbox ns r @ [\<lparr>own_info = info, own_payload = d\<rparr>] \<and>
        text_of (info_topic info) = topic \<and> info_length info = length d \<and> int (info_qos info) = qos \<and>
        info_message_id info = (case mid of None \<Rightarrow> 0 | Some m \<Rightarrow> int (unat m)) \<and>
        info_retain info = (retain \<noteq> 0) \<and> info_duplicate info = (dup \<noteq> 0) \<and> rt_overflow r' = rt_overflow r"
      if "length ts = length es" for ts
      using runtime_queues.run_message [OF assms(10-14) meta assms(15), of c0 cs "handled ts es" z ob]
        handled_fragments [OF that es(2)] d assms(16) unfolding es(1)
      by (fastforce simp: publish_fragment_def)
  qed (rule c')+
qed

definition sample_receiving :: esp_mqtt_client where
  "sample_receiving = (sample_client 9)\<lparr>in_buffer := [0x32, 11, 0, 1, 0x74, 0, 7, 1, 2], in_buffer_read_len := 9, message_length := 13,
     wire := [3, 4, 5, 6, 0xd0, 0], rx_plan := [Rx_Chunk 3, Rx_Chunk 100, Rx_Chunk 1, Rx_Chunk 1]\<rparr>"

lemma sample_receiving_ok:
  "publish_received 0 1 0 [0x74] (Some 7) [1, 2, 3, 4, 5, 6] [0xd0, 0] sample_receiving" "supplied 4 sample_receiving"
  by (simp_all add: publish_received_def sample_receiving_def sample_client_def recv_ok_def stream_def packet_def publish_body_def
      utf8_field_def be16_def encode_length.simps publish_start_ok_def publish_header_length_def fixed_header_byte_def supplied_def)

theorem publish_reaches_inbox_witness:
  "\<exists>c' es r r' ns' m. process_publish 1 7 sample_receiving = Some (ESP_OK, c') \<and> wire c' = [0xd0, 0] \<and> sent c' = [0x40, 2, 0, 7] \<and>
     events c' = es \<and> run_events ring_ops ring_ops 300 0 (handled (replicate (length es) (0, 0, 0)) es) r = Some r' \<and>
     inbox ns' r' = [m] \<and> own_payload m = [1, 2, 3, 4, 5, 6]"
proof -
  obtain r where r: "runtime_rep (ring_rep 16) (ring_rep 3) [] [0, 1, 2] [] r" "rt_receiver_message r = None"
    using sample_created by metis
  have c: "\<not> is_v5 sample_receiving" "\<not> MQTT_TOPIC_PRESENT_ALL_DATA_EVENTS (config sample_receiving)" "willing sample_receiving"
    "init_ok (connection sample_receiving)" "7 \<le> buffer_length (connection sample_receiving)"
    "supplied (message_length sample_receiving - in_buffer_read_len sample_receiving) sample_receiving"
    "sent sample_receiving = []" "events sample_receiving = []"
    using sample_receiving_ok(2) by (simp_all add: sample_receiving_def sample_client_def willing_def init_ok_def)
  have a: "acknowledgement 1 (Some 7) = [0x40, 2, 0, 7]"
    by (simp add: acknowledgement_def packet_def encode_length.simps fixed_header_byte_def be16_def)
  obtain c' where c': "process_publish (Suc 0) 7 sample_receiving = Some (ESP_OK, c')" "wire c' = [0xd0, 0]" "sent c' = [0x40, 2, 0, 7]"
    and run: "\<And>ts. length ts = length (events c') \<Longrightarrow> \<exists>r' ns' info.
      run_events ring_ops ring_ops 300 0 (handled ts (events c')) r = Some r' \<and>
      inbox ns' r' = [\<lparr>own_info = info, own_payload = [1, 2, 3, 4, 5, 6]\<rparr>]"
  proof -
    have "inbox [] r = []" by (simp add: inbox_def)
    then show thesis
      using that publish_reaches_inbox [OF sample_receiving_ok(1) _ _ c(1,2,6,3-5) ring_queues r _ _ sample_message_ok(2), of 300 0]
      by (simp add: a c(7,8)) blast
  qed
  let ?es = "events c'"
  obtain r' ns' info where "run_events ring_ops ring_ops 300 0 (handled (replicate (length ?es) (0, 0, 0)) ?es) r = Some r'"
    "inbox ns' r' = [\<lparr>own_info = info, own_payload = [1, 2, 3, 4, 5, 6]\<rparr>]"
    using run [of "replicate (length ?es) (0, 0, 0)"] by auto
  then show ?thesis using c' by (intro exI [of _ c'] exI [of _ ?es] exI [of _ r] exI [of _ r'] exI [of _ ns']) simp
qed

end
