(* ===== verification/Mqtt_Client_Requeue.thy ===== *)
theory Mqtt_Client_Requeue
  imports Mqtt_Client_Send
begin

text \<open>
  The messages of the last connection when a new one is made: each goes back to the queue once,
  a PUBLISH that has to be confirmed with its duplicate flag set.
\<close>

section \<open>Reference\<close>

definition duplicate :: "byte list \<Rightarrow> byte list" where
  "duplicate b = (hd b OR 0x08) # tl b"

definition requeued :: "outbox_item \<Rightarrow> outbox_item" where
  "requeued i = (if item_pending i \<noteq> TRANSMITTED then i
     else if item_msg_type i = MQTT_MSG_TYPE_PUBLISH \<and> item_msg_qos i > 0
     then i\<lparr>item_buffer := duplicate (item_buffer i), item_pending := QUEUED\<rparr>
     else i\<lparr>item_pending := QUEUED\<rparr>)"

text \<open>Every identifier of a message on its way belongs to this message only, and fits sixteen bits.\<close>

definition in_flight_ok :: "outbox_item list \<Rightarrow> bool" where
  "in_flight_ok xs \<longleftrightarrow> distinct (map item_addr xs) \<and> (\<forall>x \<in> set xs. item_buffer x \<noteq> []) \<and>
     (\<forall>x \<in> set xs. item_pending x = TRANSMITTED \<longrightarrow> 0 \<le> item_msg_id x \<and> item_msg_id x \<le> 65535 \<and>
        (\<forall>y \<in> set xs. item_msg_id y = item_msg_id x \<longrightarrow> item_addr y = item_addr x))"

lemma set_dup_duplicate: "b \<noteq> [] \<Longrightarrow> mqtt_set_dup b = Some (duplicate b)"
  by (cases b) (simp_all add: mqtt_set_dup_def load_def store_def duplicate_def)

lemma update_addr_split:
  "distinct (map item_addr (ys @ x # zs)) \<Longrightarrow> update_addr (item_addr x) f (ys @ x # zs) = ys @ f x # zs"
  by (induction ys) auto

lemma requeued_others: "\<forall>y \<in> set ys. item_pending y \<noteq> TRANSMITTED \<Longrightarrow> map requeued ys = ys"
  by (induction ys) (auto simp: requeued_def)

lemma requeued_pending: "item_pending (requeued x) \<noteq> TRANSMITTED"
  by (simp add: requeued_def)

lemma requeued_again: "requeued (requeued x) = requeued x"
  using requeued_pending [of x] by (simp add: requeued_def)

section \<open>The loop\<close>

lemma in_flight_requeued:
  assumes ok: "in_flight_ok (ys @ i # zs)"
  shows "in_flight_ok (ys @ requeued i # zs)"
proof -
  have q: "item_addr (requeued i) = item_addr i" "item_msg_id (requeued i) = item_msg_id i" "item_buffer (requeued i) \<noteq> []"
    using ok by (auto simp: requeued_def duplicate_def in_flight_ok_def)
  have old: "0 \<le> item_msg_id x \<and> item_msg_id x \<le> 65535 \<and> (\<forall>y \<in> set (ys @ i # zs). item_msg_id y = item_msg_id x \<longrightarrow> item_addr y = item_addr x)"
    if "x \<in> set (ys @ requeued i # zs)" "item_pending x = TRANSMITTED" for x
  proof -
    have "x \<in> set (ys @ i # zs)" using that requeued_pending [of i] by auto
    then show ?thesis using ok that(2) unfolding in_flight_ok_def by blast
  qed
  have "item_addr y = item_addr x" if "x \<in> set (ys @ requeued i # zs)" "item_pending x = TRANSMITTED"
    "y \<in> set (ys @ requeued i # zs)" "item_msg_id y = item_msg_id x" for x y
  proof (cases "y = requeued i")
    case True
    moreover have "i \<in> set (ys @ i # zs)" by simp
    ultimately show ?thesis using old [OF that(1,2)] that(4) q(1,2) by metis
  next
    case False
    then have "y \<in> set (ys @ i # zs)" using that(3) by auto
    then show ?thesis using old [OF that(1,2)] that(4) by blast
  qed
  moreover have "\<forall>x \<in> set (ys @ requeued i # zs). item_buffer x \<noteq> []" using ok q(3) by (auto simp: in_flight_ok_def)
  moreover have "distinct (map item_addr (ys @ requeued i # zs))" using ok q(1) by (simp add: in_flight_ok_def)
  ultimately show ?thesis using old unfolding in_flight_ok_def by blast
qed

lemma requeue_turn:
  assumes ok: "in_flight_ok (ob_list ob)" and d: "outbox_dequeue ob TRANSMITTED = Some (i, t)"
  obtains ys zs where "ob_list ob = ys @ i # zs" "\<forall>y \<in> set ys. item_pending y \<noteq> TRANSMITTED" "item_pending i = TRANSMITTED"
    "mqtt_requeue_transmitted_messages ob = mqtt_requeue_transmitted_messages (ob\<lparr>ob_list := ys @ requeued i # zs\<rparr>)"
    "in_flight_ok (ys @ requeued i # zs)"
proof -
  obtain ys zs where s: "ob_list ob = ys @ i # zs" "item_pending i = TRANSMITTED" "\<forall>y \<in> set ys. item_pending y \<noteq> TRANSMITTED"
    using d first_item_Some [of "\<lambda>x. item_pending x = TRANSMITTED" "ob_list ob" i] by (auto simp: outbox_dequeue_def)
  have id: "0 \<le> item_msg_id i" "item_msg_id i \<le> 65535" "item_buffer i \<noteq> []" using ok s by (auto simp: in_flight_ok_def)
  then have w: "uint (word_of_int (item_msg_id i) :: 16 word) = item_msg_id i"
    by (simp add: uint_word_of_int)
  have dis: "distinct (map item_addr (ys @ i # zs))" using ok s by (simp add: in_flight_ok_def)
  have new: "item_msg_id y \<noteq> item_msg_id i" if "y \<in> set ys" for y
  proof
    assume "item_msg_id y = item_msg_id i"
    then have "item_addr y = item_addr i" using ok s that by (auto simp: in_flight_ok_def)
    then show False using dis that by (metis distinct.simps(2) distinct_append imageI insertI1 list.set(2) list.simps(9) list.set_map map_append disjoint_iff)
  qed
  define i1 where "i1 = (if item_msg_type i = MQTT_MSG_TYPE_PUBLISH \<and> item_msg_qos i > 0
     then i\<lparr>item_buffer := duplicate (item_buffer i)\<rparr> else i)"
  have r: "requeued i = i1\<lparr>item_pending := QUEUED\<rparr>" using s(2) by (simp add: requeued_def i1_def)
  have i1: "item_msg_id i1 = item_msg_id i" "item_addr i1 = item_addr i" "item_buffer i1 \<noteq> []"
    using id(3) by (simp_all add: i1_def duplicate_def)
  have dup: "(if item_msg_type i = MQTT_MSG_TYPE_PUBLISH \<and> item_msg_qos i > 0 then map_option snd (item_set_dup i ob) else Some ob)
      = Some (ob\<lparr>ob_list := ys @ i1 # zs\<rparr>)"
    using s(1) update_addr_split [OF dis] by (simp add: item_set_dup_def set_dup_duplicate [OF id(3)] i1_def)
  have f: "first_item (\<lambda>x. item_msg_id x = item_msg_id i) (ys @ i1 # zs) = Some i1"
    by (rule first_item_split) (use new i1 in auto)
  have u: "update_first (item_msg_id i) (\<lambda>x. x\<lparr>item_pending := QUEUED\<rparr>) (ys @ i1 # zs) = ys @ requeued i # zs"
    using update_first_split [OF refl i1(1), of ys] new by (simp add: r)
  have "mqtt_requeue_transmitted_messages ob = mqtt_requeue_transmitted_messages (ob\<lparr>ob_list := ys @ requeued i # zs\<rparr>)"
    by (subst mqtt_requeue_transmitted_messages.simps) (simp add: d dup w outbox_set_pending_def outbox_get_def f u cong: if_cong)
  moreover have "in_flight_ok (ys @ requeued i # zs)" using in_flight_requeued ok s(1) by simp
  ultimately show thesis using that s by blast
qed

lemma requeue_all:
  assumes "in_flight_ok (ob_list ob)"
  shows "mqtt_requeue_transmitted_messages ob = Some (ob\<lparr>ob_list := map requeued (ob_list ob)\<rparr>)"
  using assms
proof (induction "length (filter (\<lambda>x. item_pending x = TRANSMITTED) (ob_list ob))" arbitrary: ob rule: less_induct)
  case less
  show ?case
  proof (cases "outbox_dequeue ob TRANSMITTED")
    case None
    then have "\<forall>y \<in> set (ob_list ob). item_pending y \<noteq> TRANSMITTED" by (auto simp: outbox_dequeue_def first_item_None)
    then show ?thesis using None requeued_others [of "ob_list ob"] by (subst mqtt_requeue_transmitted_messages.simps) simp
  next
    case (Some it)
    then obtain i t where "outbox_dequeue ob TRANSMITTED = Some (i, t)" by (cases it) auto
    then obtain ys zs where s: "ob_list ob = ys @ i # zs" "\<forall>y \<in> set ys. item_pending y \<noteq> TRANSMITTED" "item_pending i = TRANSMITTED"
      "mqtt_requeue_transmitted_messages ob = mqtt_requeue_transmitted_messages (ob\<lparr>ob_list := ys @ requeued i # zs\<rparr>)"
      "in_flight_ok (ys @ requeued i # zs)"
      using requeue_turn [OF less.prems] by metis
    have "mqtt_requeue_transmitted_messages (ob\<lparr>ob_list := ys @ requeued i # zs\<rparr>) =
        Some (ob\<lparr>ob_list := map requeued (ys @ requeued i # zs)\<rparr>)"
      using less.hyps [of "ob\<lparr>ob_list := ys @ requeued i # zs\<rparr>"] s(1,3,5) requeued_pending [of i] by simp
    then show ?thesis using s(1,4) requeued_again [of i] by simp
  qed
qed


section \<open>Properties\<close>

text \<open>
  C11. When no other stored message has the identifier of a message on its way, requeueing for a new
  connection ends, and it changes exactly those messages: they wait in the queue again, in the same
  order, a PUBLISH with quality of service above 0 with the duplicate flag set and every other byte
  as it was.
\<close>

theorem requeue_transmitted:
  assumes "in_flight_ok (ob_list ob)"
  shows "\<exists>ob'. mqtt_requeue_transmitted_messages ob = Some ob' \<and> ob_list ob' = map requeued (ob_list ob) \<and>
    ob_size ob' = ob_size ob \<and> outbox_dequeue ob' TRANSMITTED = None \<and>
    (outbox_ok ob \<longrightarrow> outbox_ok ob')"
proof (intro exI conjI impI)
  show "mqtt_requeue_transmitted_messages ob = Some (ob\<lparr>ob_list := map requeued (ob_list ob)\<rparr>)"
    by (rule requeue_all [OF assms])
  show "outbox_dequeue (ob\<lparr>ob_list := map requeued (ob_list ob)\<rparr>) TRANSMITTED = None"
    using requeued_pending by (auto simp: outbox_dequeue_def first_item_None)
  have r: "item_addr (requeued i) = item_addr i" "item_len (requeued i) = item_len i"
    "item_buffer i \<noteq> [] \<Longrightarrow> length (item_buffer (requeued i)) = length (item_buffer i)" for i
    by (simp_all add: requeued_def duplicate_def)
  have m: "map item_addr (map requeued xs) = map item_addr xs" "map item_len (map requeued xs) = map item_len xs" for xs
    by (simp_all add: r)
  show "outbox_ok (ob\<lparr>ob_list := map requeued (ob_list ob)\<rparr>)" if "outbox_ok ob"
    using that assms r m by (auto simp: outbox_ok_def in_flight_ok_def simp del: map_map)
qed simp_all

definition sample_item :: "nat \<Rightarrow> int \<Rightarrow> pending_state \<Rightarrow> outbox_item" where
  "sample_item a i p = \<lparr>item_addr = a, item_buffer = [0x32, 5, 0, 1, 0x74, 0, of_int i], item_len = 7, item_msg_id = i,
     item_msg_type = MQTT_MSG_TYPE_PUBLISH, item_msg_qos = 1, item_tick = 0, item_pending = p\<rparr>"

theorem requeue_transmitted_witness:
  "\<exists>ob'. mqtt_requeue_transmitted_messages \<lparr>ob_size = 21, ob_list = [sample_item 1 7 QUEUED, sample_item 2 8 TRANSMITTED, sample_item 3 9 TRANSMITTED]\<rparr>
     = Some ob' \<and> map item_pending (ob_list ob') = [QUEUED, QUEUED, QUEUED] \<and> map (hd \<circ> item_buffer) (ob_list ob') = [0x32, 0x3a, 0x3a]"
proof -
  have ok: "in_flight_ok [sample_item 1 7 QUEUED, sample_item 2 8 TRANSMITTED, sample_item 3 9 TRANSMITTED]"
    by (simp add: in_flight_ok_def sample_item_def)
  show ?thesis
    using requeue_transmitted [of "\<lparr>ob_size = 21, ob_list = [sample_item 1 7 QUEUED, sample_item 2 8 TRANSMITTED, sample_item 3 9 TRANSMITTED]\<rparr>"] ok
    by (auto simp: requeued_def sample_item_def duplicate_def)
qed

text \<open>
  The condition is needed: with an older message of the same identifier in the queue the loop marks
  that one again and again.
\<close>

lemma requeue_diverges:
  "mqtt_requeue_transmitted_messages \<lparr>ob_size = s, ob_list = [sample_item 1 7 QUEUED, (sample_item 2 7 TRANSMITTED)\<lparr>item_msg_qos := 0\<rparr>]\<rparr> = None"
    (is "mqtt_requeue_transmitted_messages ?ob = None")
proof -
  have "ob \<noteq> ?ob" if "mqtt_requeue_transmitted_messages ob = Some ob'" for ob ob'
  proof (rule mqtt_requeue_transmitted_messages.raw_induct [where P = "\<lambda>ob ob'. ob \<noteq> ?ob"], goal_cases)
    case (1 f ob ob')
    show ?case
    proof
      assume "ob = ?ob"
      then have "f ?ob = Some ob'"
        using 1(2) by (simp add: outbox_dequeue_def sample_item_def outbox_set_pending_def outbox_get_def)
      then show False using 1(1) by blast
    qed
  qed (rule that)
  then show ?thesis by (cases "mqtt_requeue_transmitted_messages ?ob") auto
qed

end
