(* ===== verification/Mqtt_Client_Frame.thy ===== *)
theory Mqtt_Client_Frame
  imports Mqtt_Client_Receive Mqtt_Outbox
begin

text \<open>
  What the operations of the client leave alone: the codecs keep the settings of the connection,
  and events, writes, replies and ticks keep everything that the invariant of the client is about.
\<close>

section \<open>Results of an operation\<close>

text \<open>What holds of the result of an operation, if it returns.\<close>

definition holds :: "('a \<Rightarrow> bool) \<Rightarrow> 'a option \<Rightarrow> bool" where
  "holds P m \<longleftrightarrow> (\<forall>x. m = Some x \<longrightarrow> P x)"

lemma holds_basic [simp]: "holds P None" "holds P (Some x) \<longleftrightarrow> P x" "holds (\<lambda>_. True) m"
  by (simp_all add: holds_def)

lemma holds_bind [simp]: "holds P (m \<bind> f) \<longleftrightarrow> holds (\<lambda>x. holds P (f x)) m"
  by (cases m) simp_all

lemma holds_if [simp]: "holds P (if b then m else n) \<longleftrightarrow> (b \<longrightarrow> holds P m) \<and> (\<not> b \<longrightarrow> holds P n)"
  by simp

lemma holds_map [simp]: "holds P (map_option f m) \<longleftrightarrow> holds (\<lambda>x. P (f x)) m"
  by (cases m) simp_all

lemma holdsI: "(\<And>x. m = Some x \<Longrightarrow> P x) \<Longrightarrow> holds P m"
  by (simp add: holds_def)

lemma holdsD: "holds P m \<Longrightarrow> m = Some x \<Longrightarrow> P x"
  by (simp add: holds_def)

lemma holds_mono: "holds P m \<Longrightarrow> (\<And>x. P x \<Longrightarrow> Q x) \<Longrightarrow> holds Q m"
  by (simp add: holds_def)

lemma holds_bindI: "holds Q m \<Longrightarrow> (\<And>x. Q x \<Longrightarrow> holds P (f x)) \<Longrightarrow> holds P (m \<bind> f)"
  by (cases m) simp_all

section \<open>The codecs\<close>

definition kept :: "mqtt_connection \<Rightarrow> mqtt_connection \<Rightarrow> bool" where
  "kept c c' \<longleftrightarrow> information c' = information c \<and> buffer_length c' = buffer_length c \<and>
     length (buffer c') = length (buffer c)"

lemma kept_refl [simp]: "kept c c"
  by (simp add: kept_def)

lemma kept_trans [trans]: "kept a b \<Longrightarrow> kept b c \<Longrightarrow> kept a c"
  by (simp add: kept_def)

lemma kept_updates [simp]:
  "kept a (set_out_length c n) = kept a c" "kept a (c\<lparr>ids := s\<rparr>) = kept a c" "kept a (c\<lparr>outbound_message := m\<rparr>) = kept a c"
  "kept a (set_message_header_size c) = kept a c" "kept a (mqtt5_init_message c) = kept a c"
  "kept a (fail_message c) = kept a c" "kept a (mqtt5_fail_message c) = kept a c"
  by (simp_all add: kept_def set_out_length_def set_message_header_size_def mqtt5_init_message_def fail_message_def mqtt5_fail_message_def)

lemma kept_buffer: "kept a (c\<lparr>buffer := b\<rparr>) \<longleftrightarrow> kept a (c\<lparr>buffer := buffer c\<rparr>)" if "length b = length (buffer c)"
  using that by (simp add: kept_def)

lemma holds_store: "(\<And>b'. length b' = length b \<Longrightarrow> P b') \<Longrightarrow> holds P (store b i bs)"
  by (auto simp: holds_def dest: store_length)

definition keeps :: "build_step \<Rightarrow> bool" where
  "keeps s \<longleftrightarrow> (\<forall>a c. kept a c \<longrightarrow> holds (\<lambda>(ok, c'). kept a c') (s c))"

lemma keepsD: "keeps s \<Longrightarrow> kept a c \<Longrightarrow> holds (\<lambda>(ok, c'). kept a c') (s c)"
  by (simp add: keeps_def)

named_theorems keeping

lemma keeps_proceed [keeping]: "keeps proceed"
  by (simp add: keeps_def proceed_def)

lemma keeps_fail [keeping]: "keeps (\<lambda>c. Some (False, c))"
  by (simp add: keeps_def)

lemma keeps_chain [keeping]:
  assumes "keeps s" "keeps t"
  shows "keeps (chain s t)"
  unfolding keeps_def
proof (intro allI impI)
  fix a c assume "kept a c"
  then show "holds (\<lambda>(ok, c'). kept a c') (chain s t c)"
    unfolding chain_def holds_bind
    by (rule holds_mono [OF keepsD [OF assms(1)]]) (auto intro: keepsD [OF assms(2)])
qed

lemma keeps_if [keeping]: "keeps s \<Longrightarrow> keeps t \<Longrightarrow> keeps (if p then s else t)"
  by simp

lemma keeps_when [keeping]: "keeps s \<Longrightarrow> keeps (when_step p s)"
  by (simp add: when_step_def keeping)

lemma keeps_option [keeping]: "keeps s \<Longrightarrow> (\<And>x. keeps (t x)) \<Longrightarrow> keeps (case m of None \<Rightarrow> s | Some x \<Rightarrow> t x)"
  by (cases m) simp_all

lemma kept_stored: "kept a c \<Longrightarrow> store (buffer c) i bs = Some b \<Longrightarrow> kept a (c\<lparr>buffer := b\<rparr>)"
  by (simp add: kept_def store_length)

lemma keeps_atomic [keeping]:
  "keeps (or_byte i f)" "keeps (raw_step bs)" "keeps (put_step bs)" "keeps (store_step i v)" "keeps (string_step s n)"
  "keeps (property_step ty n d len)"
  by (auto simp: keeps_def or_byte_def raw_step_def put_step_def store_step_def string_step_def append_string_def
      property_step_def append_property_def holds_def bind_eq_Some_conv Let_def kept_stored split: if_splits)

lemma move_up_length: "move_up n b i j = Some b' \<Longrightarrow> length b' = length b"
  by (induction n arbitrary: b i) (auto simp: bind_eq_Some_conv store_length)

lemma keeps_update_property: "kept a c \<Longrightarrow> holds (\<lambda>(r, c'). kept a c') (update_property_len_value c n i)"
  unfolding update_property_len_value_def Let_def
  by (cases "generate_variable_len n")
     (simp_all add: kept_def, auto simp: holds_def dest!: move_up_length store_length)

lemma keeps_property_block [keeping]:
  assumes "keeps s"
  shows "keeps (property_block s)"
proof -
  let ?u = "\<lambda>p c. do { (r, c) \<leftarrow> update_property_len_value c (out_length c - p - 1) p; Some (r \<noteq> -1, c) }"
  have "keeps (?u p)" for p
    unfolding keeps_def holds_bind by (auto intro!: holds_mono [OF keeps_update_property])
  then have "keeps (chain s (?u p))" for p by (rule keeps_chain [OF assms])
  then show ?thesis by (simp add: keeps_def property_block_def Let_def)
qed

lemma keeps_user_property [keeping]: "keeps (user_property_step h)"
proof -
  have "keeps (user_property_items l)" for l by (induction l) (auto intro: keeping)
  then show ?thesis by (auto simp: user_property_step_def intro: keeping)
qed

lemma keeps_shared_topic [keeping]: "keeps (shared_topic_step ok n t)"
  unfolding shared_topic_step_def keeps_def using keepsD [OF keeps_atomic(6)]
  by (auto simp: holds_def bind_eq_Some_conv)

lemma keeps_field [keeping]: "keeps (field_step d n)" "keeps (string_property ty s)"
  by (auto simp: field_step_def string_property_def intro!: keeping)

lemma keeps_blocks [keeping]:
  "keeps (connect_properties p)" "keeps (will_properties w)" "keeps (subscribe_properties sp)"
  "keeps (disconnect_properties dp i)" "keeps (publish_properties ok pp ri)"
  by (auto simp: connect_properties_def will_properties_def subscribe_properties_def disconnect_properties_def
      publish_properties_def response_topic_step_def Let_def intro!: keeping)

lemma keeps_topics [keeping]: "keeps (subscribe_topics ts)" "keeps (mqtt5_subscribe_topics h sp ts)"
proof -
  show "keeps (subscribe_topics ts)" by (induction ts) (auto intro: keeping)
  show "keeps (mqtt5_subscribe_topics h sp ts)"
    by (induction h sp ts rule: mqtt5_subscribe_topics.induct) (auto split: prod.split option.split intro!: keeping)
qed

lemma kept_fini:
  "kept a c \<Longrightarrow> holds (kept a) (fini_message c ty dup qos retain)"
  "kept a c \<Longrightarrow> holds (kept a) (mqtt5_fini_message c ty dup qos retain)"
  by (simp_all add: fini_message_def mqtt5_fini_message_def Let_def) (auto simp: holds_def kept_stored)

lemma kept_finish:
  "keeps s \<Longrightarrow> kept a c \<Longrightarrow> holds (kept a) (finish s ty dup qos retain c)"
  "keeps s \<Longrightarrow> kept a c \<Longrightarrow> holds (kept a) (mqtt5_finish s ty dup qos retain c)"
  unfolding finish_def mqtt5_finish_def holds_bind
  by (auto intro!: holds_mono [OF keepsD] kept_fini)

lemma kept_message_id:
  "kept a c \<Longrightarrow> holds (\<lambda>(m, c'). kept a c') (append_message_id c i)"
  "kept a c \<Longrightarrow> holds (\<lambda>(m, c'). kept a c') (mqtt5_append_message_id c i)"
  by (auto simp: append_message_id_def mqtt5_append_message_id_def holds_def bind_eq_Some_conv Let_def kept_def
      dest!: store_length split: if_splits)

lemma kept_payload:
  "kept a c \<Longrightarrow> holds (kept a) (publish_payload data n c)"
  "kept a c \<Longrightarrow> holds (kept a) (mqtt5_publish_payload data len c)"
  by (auto simp: publish_payload_def mqtt5_publish_payload_def holds_def bind_eq_Some_conv Let_def kept_def
      dest!: store_length split: option.splits if_splits)

lemma kept_connect:
  "kept a c \<Longrightarrow> holds (kept a) (mqtt_msg_connect c info)"
  "kept a c \<Longrightarrow> holds (kept a) (mqtt5_msg_connect c info cp wp)"
  by (auto simp: mqtt_msg_connect_def mqtt5_msg_connect_def Let_def connect_clean_def connect_client_id_def connect_will_def
      connect_username_def connect_password_def mqtt5_connect_client_id_def mqtt5_connect_will_def mqtt5_connect_username_def
      mqtt5_connect_password_def intro!: kept_finish keeping)

lemma kept_ack:
  "kept a c \<Longrightarrow> holds (kept a) (ack_message ty qos c i)"
  "kept a c \<Longrightarrow> holds (kept a) (mqtt5_ack_message ty qos c i)"
  unfolding ack_message_def mqtt5_ack_message_def holds_bind
  by (auto intro!: holds_mono [OF kept_message_id(1)] holds_mono [OF kept_message_id(2)] kept_finish kept_fini keeping)

lemma kept_bodyless:
  "kept a c \<Longrightarrow> holds (kept a) (mqtt_msg_pingreq c)" "kept a c \<Longrightarrow> holds (kept a) (mqtt_msg_disconnect c)"
  "kept a c \<Longrightarrow> holds (kept a) (mqtt5_msg_disconnect c dp)"
  by (auto simp: mqtt_msg_pingreq_def mqtt_msg_disconnect_def mqtt5_msg_disconnect_def intro!: kept_fini kept_finish keeping)

lemma kept_subscribe:
  "kept a c \<Longrightarrow> holds (\<lambda>(c', i). kept a c') (mqtt_msg_subscribe c ts)"
  "kept a c \<Longrightarrow> holds (\<lambda>(c', i). kept a c') (mqtt5_msg_subscribe h c ts sp)"
  "kept a c \<Longrightarrow> holds (\<lambda>(c', i). kept a c') (mqtt_msg_unsubscribe c topic m)"
  "kept a c \<Longrightarrow> holds (\<lambda>(c', i). kept a c') (mqtt5_msg_unsubscribe c topic m up ok)"
  unfolding mqtt_msg_subscribe_def mqtt5_msg_subscribe_def mqtt_msg_unsubscribe_def mqtt5_msg_unsubscribe_def holds_bind Let_def
  by (auto intro!: holds_mono [OF kept_message_id(1)] holds_mono [OF kept_message_id(2)] kept_finish keeping)

lemma kept_append:
  "kept a c \<Longrightarrow> holds (\<lambda>(r, c'). kept a c') (append_string c s n)"
  by (auto simp: append_string_def holds_def bind_eq_Some_conv kept_stored split: if_splits)

lemma kept_publish:
  "kept a c \<Longrightarrow> holds (\<lambda>(c', i). kept a c') (mqtt_msg_publish c topic data n qos retain m)"
  "kept a c \<Longrightarrow> holds (\<lambda>(c', i). kept a c') (mqtt5_msg_publish c topic data len qos retain m pp ri ok)"
  unfolding mqtt_msg_publish_def mqtt5_msg_publish_def holds_bind Let_def
  by (auto intro!: holds_mono [OF kept_message_id(1)] holds_mono [OF kept_message_id(2)] holds_mono [OF kept_append]
      holds_mono [OF kept_payload(1)] holds_mono [OF kept_payload(2)] holds_mono [OF kept_fini(1)] holds_mono [OF kept_fini(2)]
      holds_mono [OF keepsD [OF keeps_property_block]] holds_mono [OF keepsD [OF keeps_atomic(6)]] keeping)

section \<open>Events, writes and replies\<close>

text \<open>The part of a client that the invariant is about.\<close>

definition core where
  "core (c :: esp_mqtt_client) = ((in_buffer_length c, length (in_buffer c), in_buffer_read_len c, outbox c, pending_msg_type c, pending_publish_qos c),
     (length (buffer (connection c)), buffer_length (connection c), protocol_ver (conn_info c), state c,
      send_publish_packet_count c, sr_receive_maximum (server_resp_property_info (mqtt5_config c))))"

named_theorems quiet

lemma core_updates [simp]:
  "core (upd_event f c) = core c" "core (upd_property g c) = core c" "core (upd_error h c) = core c" "core (upd_outbound u c) = core c"
  "core (c\<lparr>events := es\<rparr>) = core c" "core (c\<lparr>allocs := hp\<rparr>) = core c" "core (c\<lparr>clock := n\<rparr>) = core c" "core (c\<lparr>delays := ds\<rparr>) = core c"
  "core (c\<lparr>sent := bs\<rparr>) = core c" "core (c\<lparr>tx_plan := tx\<rparr>) = core c" "core (c\<lparr>rx_plan := rx\<rparr>) = core c" "core (c\<lparr>wire := bs\<rparr>) = core c"
  "core (c\<lparr>error_plan := ep\<rparr>) = core c" "core (c\<lparr>wait_for_ping_resp := b\<rparr>) = core c" "core (c\<lparr>keepalive_tick := t\<rparr>) = core c"
  "core (c\<lparr>message_length := n\<rparr>) = core c" "core (c\<lparr>pending_msg_id := i\<rparr>) = core c" "core (c\<lparr>transport := tr\<rparr>) = core c"
  "core (c\<lparr>transport_list := trs\<rparr>) = core c" "core (c\<lparr>run := b\<rparr>) = core c" "core (c\<lparr>last_retransmit := t\<rparr>) = core c"
  "core (c\<lparr>msg_tick := t\<rparr>) = core c" "core (c\<lparr>refresh_connection_tick := t\<rparr>) = core c" "core (c\<lparr>reconnect_tick := t\<rparr>) = core c"
  "core (c\<lparr>wait_timeout_ms := z\<rparr>) = core c" "core (c\<lparr>reconnect_bit := b\<rparr>) = core c" "core (c\<lparr>disconnect_bit := b\<rparr>) = core c"
  "core (c\<lparr>stopping := b\<rparr>) = core c" "core (c\<lparr>task_handle := b\<rparr>) = core c" "core (c\<lparr>stopped_bit := b\<rparr>) = core c"
  "core (c\<lparr>config := cf\<rparr>) = core c" "core (c\<lparr>connect_plan := cp\<rparr>) = core c" "core (c\<lparr>poll_plan := cp\<rparr>) = core c"
  by (simp_all add: core_def upd_event_def upd_property_def upd_error_def upd_outbound_def)

lemma core_mqtt5 [simp]: "server_resp_property_info (f (mqtt5_config c)) = server_resp_property_info (mqtt5_config c) \<Longrightarrow> core (upd_mqtt5 f c) = core c"
  by (simp add: core_def upd_mqtt5_def)

lemma core_connection: "kept (connection c) conn \<Longrightarrow> core (c\<lparr>connection := conn\<rparr>) = core c"
  by (simp add: core_def kept_def)

lemma core_dispatch [simp]: "core (esp_mqtt_dispatch_event c) = core c"
  by (simp add: esp_mqtt_dispatch_event_def Let_def)

lemma core_dispatch_data [simp]: "core (dispatch_data d n i t k c) = core c"
  by (simp add: dispatch_data_def)

lemma core_tick: "platform_tick_get_ms c = (t, c') \<Longrightarrow> core c' = core c"
  by (auto simp: platform_tick_get_ms_def Let_def)

lemma core_calloc: "client_calloc c = (ok, c') \<Longrightarrow> core c' = core c"
  by (auto simp: client_calloc_def split: prod.splits)

lemma core_timed_out: "has_timed_out t n c = (out, c') \<Longrightarrow> core c' = core c"
  by (auto simp: has_timed_out_def dest: core_tick split: prod.splits)

lemma core_write: "esp_transport_write bs c = (r, c') \<Longrightarrow> core c' = core c"
  by (auto simp: esp_transport_write_def split: list.splits tx_answer.splits)

lemma core_last_error: "last_transport_error c = (e, c') \<Longrightarrow> core c' = core c"
  by (auto simp: last_transport_error_def split: list.splits)

lemma core_transport: "esp_transport_connect c = (ok, c') \<Longrightarrow> core c' = core c" "esp_transport_poll_read c = (ok, c') \<Longrightarrow> core c' = core c"
  by (auto simp: esp_transport_connect_def esp_transport_poll_read_def split: list.splits)

lemmas core_pairs = core_tick core_calloc core_timed_out core_write core_last_error core_transport

lemma quiet_msgid [quiet]: "core c = k \<Longrightarrow> holds (\<lambda>c'. core c' = k) (esp_mqtt_dispatch_event_with_msgid c)"
  by (auto simp: esp_mqtt_dispatch_event_with_msgid_def holds_def bind_eq_Some_conv)

lemma quiet_errors [quiet]:
  "core c = k \<Longrightarrow> holds (\<lambda>c'. core c' = k) (esp_mqtt_client_dispatch_transport_error c)"
  "core c = k \<Longrightarrow> holds (\<lambda>c'. core c' = k) (esp_mqtt_client_dispatch_start_error err c)"
  unfolding esp_mqtt_client_dispatch_transport_error_def esp_mqtt_client_dispatch_start_error_def Let_def
  by (auto split: prod.split dest!: core_last_error intro!: quiet_msgid)

lemma quiet_read_error [quiet]: "core c = k \<Longrightarrow> holds (\<lambda>(r, c'). core c' = k) (esp_mqtt_handle_transport_read_error e mid c)"
  by (auto simp: esp_mqtt_handle_transport_read_error_def intro!: quiet)

lemma quiet_write_loop: "core c = k \<Longrightarrow> holds (\<lambda>(r, c'). core c' = k) (write_loop bs c)"
proof (induction bs c rule: write_loop.induct)
  case (1 bs c)
  obtain r c1 where w: "esp_transport_write bs c = (r, c1)" by fastforce
  then have c1: "core c1 = k" using core_write "1.prems" by simp
  have IH: "holds (\<lambda>(r, c'). core c' = k) (write_loop (drop n bs) c1)" if "bs \<noteq> []" "r = Some n" "n \<noteq> 0" for n
    using "1.IH" [OF that(1) w [symmetric] that(2,3)] c1 .
  show ?case using IH c1 "1.prems"
    by (subst write_loop.simps) (auto simp: w split: option.split intro!: quiet)
qed

lemma quiet_write [quiet]: "core c = k \<Longrightarrow> holds (\<lambda>(r, c'). core c' = k) (esp_mqtt_write c)"
  by (auto simp: esp_mqtt_write_def fetch_def intro!: quiet_write_loop)

lemma quiet_compose [quiet]:
  assumes "core c = k" "holds (kept (connection c)) (v5 (connection c))" "holds (kept (connection c)) (v3 (connection c))"
  shows "holds (\<lambda>c'. core c' = k) (compose v5 v3 c)"
  using assms by (auto simp: compose_def holds_def bind_eq_Some_conv core_connection split: if_splits)

lemma quiet_ping [quiet]: "core c = k \<Longrightarrow> holds (\<lambda>(r, c'). core c' = k) (esp_mqtt_client_ping c)"
  unfolding esp_mqtt_client_ping_def holds_bind
  by (rule holds_mono [OF quiet_compose]) (auto intro!: kept_bodyless holds_mono [OF quiet_write])

lemma core_in_buffer: "length b = length (in_buffer c) \<Longrightarrow> core (c\<lparr>in_buffer := b\<rparr>) = core c"
  by (simp add: core_def)

lemma quiet_read [quiet]: "core c = k \<Longrightarrow> holds (\<lambda>(r, c'). core c' = k) (esp_transport_read off n c)"
  by (auto simp: esp_transport_read_def Let_def core_in_buffer intro!: holds_store split: list.split rx_answer.split)

lemma quiet_reason [quiet]: "core c = k \<Longrightarrow> holds (\<lambda>c'. core c' = k) (set_reason c)"
  by (auto simp: set_reason_def holds_def bind_eq_Some_conv)

lemma core_reply [simp]: "core (set_reply_data data n up h c) = core c"
  by (simp add: set_reply_data_def)

lemma quiet_replies [quiet]:
  "core c = k \<Longrightarrow> holds (\<lambda>c'. core c' = k) (esp_mqtt5_parse_puback c)" "core c = k \<Longrightarrow> holds (\<lambda>c'. core c' = k) (esp_mqtt5_parse_pubcomp c)"
  "core c = k \<Longrightarrow> holds (\<lambda>c'. core c' = k) (esp_mqtt5_parse_suback c)" "core c = k \<Longrightarrow> holds (\<lambda>c'. core c' = k) (esp_mqtt5_parse_unsuback c)"
  unfolding esp_mqtt5_parse_pubcomp_def esp_mqtt5_parse_puback_def esp_mqtt5_parse_suback_def esp_mqtt5_parse_unsuback_def
  by (auto intro!: holds_mono [OF quiet_reason] intro: holdsI)

lemma quiet_alias [quiet]: "core c = k \<Longrightarrow> holds (\<lambda>(r, c'). core c' = k) (resolve_alias a t n c)"
  unfolding resolve_alias_def holds_if holds_bind Let_def
  by (auto intro!: holdsI split: prod.split option.split)

lemma quiet_publish_data [quiet]: "core c = k \<Longrightarrow> holds (\<lambda>(r, c'). core c' = k) (esp_mqtt5_get_publish_data n c)"
  unfolding esp_mqtt5_get_publish_data_def holds_bind Let_def
  by (rule holdsI) (auto split: option.split sum.split intro!: holds_mono [OF quiet_alias])

lemma quiet_deliver_rest: "core c = k \<Longrightarrow> holds (\<lambda>(r, c'). core c' = k) (deliver_rest n m d s l c)"
proof (induction n m d s l c rule: deliver_rest.induct)
  case (1 n m d s l c)
  have IH: "holds (\<lambda>(r, c'). core c' = k) (deliver_rest (n + i) m (d + i) s l (dispatch_data (Some 0) i d s l c1))"
    if "n < m" "esp_transport_read 0 (min (in_buffer_length c) (m - n)) c = Some (Bytes i, c1)" "i \<noteq> 0" for i c1
    using "1.IH" [OF that(1,2) refl refl that(3)] holdsD [OF quiet_read [OF "1.prems"] that(2)] by simp
  have err: "holds (\<lambda>(r, c'). core c' = k) (esp_mqtt_handle_transport_read_error e False c1)"
    if "esp_transport_read 0 (min (in_buffer_length c) (m - n)) c = Some (r, c1)" for e r c1
    using holdsD [OF quiet_read [OF "1.prems"] that] by (auto intro!: quiet)
  show ?case using "1.prems" IH err
    by (subst deliver_rest.simps) (auto intro!: holdsI [of "esp_transport_read i j b" for i j b] holds_mono [OF err] split: read_result.split)
qed

lemma quiet_deliver_publish [quiet]: "core c = k \<Longrightarrow> holds (\<lambda>(r, c'). core c' = k) (deliver_publish c)"
proof -
  assume c: "core c = k"
  show ?thesis
    unfolding deliver_publish_def holds_bind Let_def
  proof (rule holds_mono [where P = "\<lambda>(r, c). core c = k"], goal_cases)
    case 1
    show ?case using c
      by (auto intro!: holds_mono [OF quiet_publish_data] holdsI [of "mqtt_get_publish_topic b n" for b n] holdsI [of "mqtt_get_publish_data b n" for b n]
          split: option.split)
  next
    case (2 x)
    then show ?case
      by (auto split: option.split prod.split dest!: core_calloc intro!: quiet_deliver_rest holdsI [of "mqtt_get_retain b" for b]
          holdsI [of "message_id_of b n" for b n] holdsI [of "mqtt_get_qos b" for b] holdsI [of "mqtt_get_dup b" for b]
          holdsI [of "pointed b n i" for b n i])
  qed
qed

lemma quiet_deliver_suback [quiet]:
  assumes "core c = k"
  shows "holds (\<lambda>(r, c'). core c' = k) (deliver_suback c)"
  unfolding deliver_suback_def holds_bind Let_def
proof (rule holds_mono [where P = "\<lambda>(d, l, c). core c = k"], goal_cases)
  case 1
  show ?case using assms by (auto intro!: holdsI [of "mqtt5_get_suback_data h b n" for h b n] split: prod.split)
next
  case (2 x)
  then obtain d l c1 where x: "x = (d, l, c1)" "core c1 = k" by (cases x) auto
  then show ?case by (cases d) (auto intro!: holdsI [of "slice b i n" for b i n] holds_mono [OF quiet_msgid])
qed

lemma quiet_process:
  "core c = k \<Longrightarrow> holds (\<lambda>(r, c'). core c' = k) (process_publish q i c)"
  "core c = k \<Longrightarrow> holds (\<lambda>(r, c'). core c' = k) (process_pubrel i c)"
  "core c = k \<Longrightarrow> holds (\<lambda>(r, c'). core c' = k) (process_pingresp c)"
  "core c = k \<Longrightarrow> holds (\<lambda>(r, c'). core c' = k) (process_disconnect c)"
proof -
  assume c: "core c = k"
  show "holds (\<lambda>(r, c'). core c' = k) (process_publish q i c)"
    unfolding process_publish_def holds_bind using c
    by (auto simp: mqtt_msg_puback_def mqtt5_msg_puback_def mqtt_msg_pubrec_def mqtt5_msg_pubrec_def
        intro!: holds_mono [OF quiet_deliver_publish] holds_mono [OF quiet_compose] holds_mono [OF quiet_write] kept_ack)
  show "holds (\<lambda>(r, c'). core c' = k) (process_pubrel i c)"
    unfolding process_pubrel_def holds_bind using c
    by (auto simp: mqtt_msg_pubcomp_def mqtt5_msg_pubcomp_def
        intro!: holds_mono [OF quiet_compose] holds_mono [OF quiet_write] kept_ack)
  show "holds (\<lambda>(r, c'). core c' = k) (process_pingresp c)"
    using c by (auto simp: process_pingresp_def dest!: core_tick split: prod.split)
  show "holds (\<lambda>(r, c'). core c' = k) (process_disconnect c)"
    using c by (auto simp: process_disconnect_def intro!: holdsI [of "esp_mqtt5_parse_disconnect c"] holds_mono [OF quiet_msgid])
qed

end
