(* ===== verification/Mqtt_Client_Results.thy ===== *)
theory Mqtt_Client_Results
  imports Mqtt_Client_Frame Mqtt_Client_Send
begin

text \<open>
  The results of the calls of the application in \<^verbatim>\<open>mqtt_client.c\<close> that return an identifier: a packet
  identifier or one of two error values.
\<close>

definition call_result :: "int \<Rightarrow> bool" where
  "call_result r \<longleftrightarrow> r = -1 \<or> 0 \<le> r \<and> r \<le> 65535"

named_theorems results

lemma result_values [results, simp]: "call_result (-1)" "call_result (uint (i :: 16 word))"
  using uint_bounded [of i] by (auto simp: call_result_def)

lemma result_if [results]: "call_result a \<Longrightarrow> call_result b \<Longrightarrow> call_result (if p then a else b)"
  by simp

lemma holds_option [simp]: "holds P (case m of None \<Rightarrow> Some a | Some x \<Rightarrow> f x) \<longleftrightarrow> (m = None \<longrightarrow> P a) \<and> (\<forall>x. m = Some x \<longrightarrow> holds P (f x))"
  by (cases m) simp_all

lemma results_make_publish [results]:
  "holds (\<lambda>(i, c'). call_result i) (make_publish topic data len qos retain c)"
  by (simp add: make_publish_def Let_def case_prod_unfold holdsI)

lemma results_enqueue [results]:
  "holds (\<lambda>(i, c'). call_result i) (mqtt_client_enqueue_publish topic data len qos retain st c)"
  unfolding mqtt_client_enqueue_publish_def holds_bind
  by (rule holds_mono [OF results_make_publish]) (auto simp: Let_def case_prod_unfold intro!: holdsI split del: if_split intro: results)

lemma results_store_and_write [results]: "holds (\<lambda>(i, c'). call_result i) (store_and_write c)"
  by (auto simp: store_and_write_def case_prod_unfold intro!: holdsI)

section \<open>The calls\<close>

text \<open>The calls that return a packet identifier, with what the application passes to them.\<close>

datatype id_call =
    Publish "cstring option" "byte list option" int int int
  | Enqueue "cstring option" "byte list option" int int int bool
  | Subscribe "esp_mqtt_topic list"
  | Unsubscribe "cstring option"

fun run_call :: "id_call \<Rightarrow> esp_mqtt_client option \<Rightarrow> (int \<times> esp_mqtt_client option) option" where
  "run_call (Publish topic data len qos retain) = esp_mqtt_client_publish topic data len qos retain"
| "run_call (Enqueue topic data len qos retain st) = esp_mqtt_client_enqueue topic data len qos retain st"
| "run_call (Subscribe ts) = esp_mqtt_client_subscribe_multiple ts"
| "run_call (Unsubscribe topic) = esp_mqtt_client_unsubscribe topic"

section \<open>The limit of the outbox\<close>

text \<open>The bytes of all stored messages, and those of the payload that a call is given.\<close>

definition stored_bytes :: "esp_mqtt_client \<Rightarrow> int" where
  "stored_bytes c = int (\<Sum>i \<leftarrow> ob_list (outbox c). length (item_buffer i))"

definition payload_bytes :: "byte list option \<Rightarrow> int \<Rightarrow> int" where
  "payload_bytes data len =
     (case data of Some d \<Rightarrow> if len \<le> 0 then int (length (takeWhile (\<lambda>b. b \<noteq> 0) d)) else len | None \<Rightarrow> len)"

text \<open>What a call would add to the outbox as its limit sees it: the payload without its header.\<close>

fun added_bytes :: "id_call \<Rightarrow> int" where
  "added_bytes (Publish topic data len qos retain) = payload_bytes data len"
| "added_bytes (Enqueue topic data len qos retain st) = payload_bytes data len"
| "added_bytes _ = 0"

definition over_limit :: "id_call \<Rightarrow> esp_mqtt_client \<Rightarrow> bool" where
  "over_limit k c \<longleftrightarrow> 0 < uint (cs_outbox_limit (config c)) \<and>
     uint (cs_outbox_limit (config c)) < added_bytes k + stored_bytes c"

text \<open>What the broker announced that it does not accept.\<close>

definition not_accepted :: "int \<Rightarrow> int \<Rightarrow> esp_mqtt_client \<Rightarrow> bool" where
  "not_accepted qos retain c \<longleftrightarrow> is_v5 c \<and>
     (uint (sr_max_qos (server_resp_property_info (mqtt5_config c))) < qos \<or>
      retain \<noteq> 0 \<and> \<not> sr_retain_available (server_resp_property_info (mqtt5_config c)))"

text \<open>
  The calls that the limit refuses. A publish that fails for another reason first is not among
  them, nor is one of quality 0, and an unsubscription is not limited.
\<close>

fun refused :: "id_call \<Rightarrow> esp_mqtt_client \<Rightarrow> bool" where
  "refused (Publish topic data len qos retain) c \<longleftrightarrow> 0 < qos \<and> over_limit (Publish topic data len qos retain) c \<and>
     \<not> (MQTT_SKIP_PUBLISH_IF_DISCONNECTED (config c) \<and> state c \<noteq> MQTT_STATE_CONNECTED) \<and> \<not> not_accepted qos retain c"
| "refused (Enqueue topic data len qos retain st) c \<longleftrightarrow> over_limit (Enqueue topic data len qos retain st) c"
| "refused (Subscribe ts) c \<longleftrightarrow> over_limit (Subscribe ts) c"
| "refused (Unsubscribe topic) c \<longleftrightarrow> False"

text \<open>The sizes are in the range of \<^verbatim>\<open>size_t\<close>.\<close>

definition sizes_ok :: "id_call \<Rightarrow> esp_mqtt_client \<Rightarrow> bool" where
  "sizes_ok k c \<longleftrightarrow> outbox_ok (outbox c) \<and> 0 \<le> added_bytes k \<and> added_bytes k + stored_bytes c < 2 ^ 64"

lemma outbox_size_bytes:
  assumes "outbox_ok (outbox c)" "stored_bytes c < 2 ^ 64"
  shows "uint (outbox_get_size (outbox c)) = stored_bytes c"
proof -
  have "(\<Sum>i \<leftarrow> ob_list (outbox c). length (item_buffer i)) = sum_list (map item_len (ob_list (outbox c)))"
    using assms(1) by (intro arg_cong [where f = sum_list] map_cong) (auto simp: outbox_ok_def)
  then have "outbox_get_size (outbox c) = word_of_int (stored_bytes c)"
    using assms(1) by (simp add: outbox_get_size_def outbox_ok_def stored_bytes_def)
  moreover have "0 \<le> stored_bytes c" by (simp add: stored_bytes_def)
  ultimately show ?thesis using assms(2) by (simp add: uint_word_of_int_eq take_bit_eq_mod)
qed

lemma exceeded_exact:
  assumes "outbox_ok (outbox c)" "0 \<le> n" "n + stored_bytes c < 2 ^ 64"
  shows "outbox_exceeded n c \<longleftrightarrow> uint (cs_outbox_limit (config c)) < n + stored_bytes c"
proof -
  have s: "0 \<le> stored_bytes c" by (simp add: stored_bytes_def)
  have "outbox_get_size (outbox c) = word_of_int (stored_bytes c)"
    using outbox_size_bytes [OF assms(1)] assms(2,3) by (metis (no_types) add_increasing less_le_trans linorder_not_le s word_of_int_uint)
  then have "of_int n + outbox_get_size (outbox c) = (word_of_int (n + stored_bytes c) :: 64 word)" by simp
  then have "uint (of_int n + outbox_get_size (outbox c) :: 64 word) = n + stored_bytes c"
    using assms(2,3) s by (simp only: uint_word_of_int_eq take_bit_eq_mod) simp
  then show ?thesis by (simp add: outbox_exceeded_def word_less_def)
qed

lemma strlen_takeWhile: "strlen d = Some n \<Longrightarrow> n = length (takeWhile (\<lambda>b. b \<noteq> 0) d)"
  by (induction d arbitrary: n) (auto split: if_splits)

lemma payload_length_bytes: "payload_length data len = Some n \<Longrightarrow> n = payload_bytes data len"
  by (auto simp: payload_length_def payload_bytes_def dest: strlen_takeWhile split: option.splits if_splits)

lemma publish_check_exact:
  "is_v5 c \<and> esp_mqtt5_client_publish_check c qos retain \<noteq> ESP_OK \<longleftrightarrow> not_accepted qos retain c"
  by (auto simp: esp_mqtt5_client_publish_check_def not_accepted_def Let_def)

section \<open>The results\<close>

definition verdict :: "id_call \<Rightarrow> esp_mqtt_client \<Rightarrow> int \<times> esp_mqtt_client \<Rightarrow> bool" where
  "verdict k c = (\<lambda>(r, c'). if refused k c then r = -2 \<and> c' = c else call_result r)"

lemma verdictI: "\<not> refused k c \<Longrightarrow> holds (\<lambda>(r, c'). call_result r) m \<Longrightarrow> holds (verdict k c) m"
  by (erule holds_mono) (auto simp: verdict_def)

definition ruled :: "id_call \<Rightarrow> esp_mqtt_client \<Rightarrow> bool" where
  "ruled k c \<longleftrightarrow> holds (\<lambda>(r, co). \<exists>c'. co = Some c' \<and> verdict k c (r, c')) (run_call k (Some c))"

lemma ruledI: "run_call k (Some c) = with_client (-1) f (Some c) \<Longrightarrow> holds (verdict k c) (f c) \<Longrightarrow> ruled k c"
  by (auto simp: ruled_def with_client_def holds_def bind_eq_Some_conv)

lemma ruled_publish:
  assumes "sizes_ok (Publish topic data len qos retain) c"
  shows "ruled (Publish topic data len qos retain) c"
proof -
  let ?k = "Publish topic data len qos retain"
  have after: "holds (\<lambda>(r, c'). call_result r) (do {
      (i, c) \<leftarrow> mqtt_client_enqueue_publish topic data len qos retain False c;
      if i < 0 then Some (-1, c)
      else if state c \<noteq> MQTT_STATE_CONNECTED then cannot_publish (if qos > 0 then i else -1) c
      else if is_v5 c \<and> qos > 0 \<and> esp_mqtt5_client_check_inflight_maximum c \<noteq> ESP_OK then Some (i, c)
      else do {
        (ok, c) \<leftarrow> send_loop data 0 len c;
        if \<not> ok then cannot_publish (-1) c
        else if qos > 0 then do {
          let c = (if is_v5 c then esp_mqtt5_increment_packet_counter c else c);
          Some (i, set_pending i TRANSMITTED (set_tick i c))
        } else Some (i, c)
      }})" for len c
    unfolding holds_bind
    by (rule holds_mono [OF results_enqueue])
      (auto simp: cannot_publish_def Let_def intro!: results holdsI [of "send_loop d m n b" for d m n b])
  have ex: "outbox_exceeded n c \<longleftrightarrow> uint (cs_outbox_limit (config c)) < added_bytes ?k + stored_bytes c"
    if "payload_length data len = Some n" for n
    using exceeded_exact [of c n] assms payload_length_bytes [OF that] by (simp add: sizes_ok_def)
  let ?early = "MQTT_SKIP_PUBLISH_IF_DISCONNECTED (config c) \<and> state c \<noteq> MQTT_STATE_CONNECTED \<or> not_accepted qos retain c"
  have early: "holds (verdict ?k c) (Some (-1, c))" if ?early using that by (intro verdictI) auto
  have rest: "refused ?k c \<longleftrightarrow> cs_outbox_limit (config c) > 0 \<and> qos > 0 \<and> outbox_exceeded n c"
    if "\<not> ?early" "payload_length data len = Some n" for n
    using that ex [OF that(2)] by (auto simp: over_limit_def word_less_def)
  show ?thesis
    by (rule ruledI [OF run_call.simps(1) [unfolded esp_mqtt_client_publish_def, THEN fun_cong]], cases "payload_length data len")
       (use early rest in \<open>auto simp: publish_check_exact verdict_def simp del: holds_bind intro!: after\<close>)
qed

lemma ruled_enqueue:
  assumes "sizes_ok (Enqueue topic data len qos retain st) c"
  shows "ruled (Enqueue topic data len qos retain st) c"
proof -
  let ?k = "Enqueue topic data len qos retain st"
  have "refused ?k c \<longleftrightarrow> cs_outbox_limit (config c) > 0 \<and> outbox_exceeded n c" if "payload_length data len = Some n" for n
    using exceeded_exact [of c n] assms payload_length_bytes [OF that] by (auto simp: sizes_ok_def over_limit_def word_less_def)
  then show ?thesis
    by (intro ruledI [OF run_call.simps(2) [unfolded esp_mqtt_client_enqueue_def, THEN fun_cong]], cases "payload_length data len")
       (auto simp: case_prod_unfold verdict_def intro!: holds_mono [OF results_enqueue] simp del: refused.simps)
qed

lemma ruled_subscribe:
  assumes "sizes_ok (Subscribe ts) c"
  shows "ruled (Subscribe ts) c"
proof -
  have "refused (Subscribe ts) c \<longleftrightarrow> cs_outbox_limit (config c) > 0 \<and> outbox_get_size (outbox c) > cs_outbox_limit (config c)"
    using outbox_size_bytes [of c] assms by (auto simp: sizes_ok_def over_limit_def word_less_def)
  then show ?thesis
    by (intro ruledI [OF run_call.simps(3) [unfolded esp_mqtt_client_subscribe_multiple_def, THEN fun_cong]])
       (auto simp: Let_def verdict_def intro!: holds_mono [OF results_store_and_write]
          holdsI [of "mqtt5_msg_subscribe a b c d" for a b c d] holdsI [of "mqtt_msg_subscribe b c" for b c] simp del: refused.simps)
qed

lemma ruled_unsubscribe: "ruled (Unsubscribe topic) c"
  by (rule ruledI [OF run_call.simps(4) [unfolded esp_mqtt_client_unsubscribe_def, THEN fun_cong]], rule verdictI)
     (auto simp: Let_def case_prod_unfold intro!: holds_mono [OF results_store_and_write]
        holdsI [of "mqtt5_msg_unsubscribe a b c d e" for a b c d e] holdsI [of "mqtt_msg_unsubscribe b c d" for b c d])

lemma call_ruled: "sizes_ok k c \<Longrightarrow> ruled k c"
  by (cases k) (simp_all add: ruled_publish ruled_enqueue ruled_subscribe ruled_unsubscribe)

section \<open>Property\<close>

text \<open>
  C37. A call that returns a packet identifier returns a value of sixteen bits, -1 for a failure, or
  -2, and it returns -2 exactly if the outbox limit refuses it: the stored bytes and the payload of
  the call together are more than the configured limit. For a publish this is checked only at
  QoS 1 or 2, behind the checks of the connection and of what an MQTT 5 broker accepts, for a
  message to enqueue and a subscription (without payload) before anything else, and for an
  unsubscription never. A call that gets -2 has changed nothing. Without a client the result is -1.
  The sizes are those of a well-formed outbox and a payload of no negative length, together
  below \<open>2 ^ 64\<close>.
\<close>

theorem call_results:
  assumes "sizes_ok k c" "run_call k (Some c) = Some (r, co')"
  shows "r \<in> {-2..65535} \<and> (r = -2 \<longleftrightarrow> refused k c) \<and> (r = -2 \<longrightarrow> co' = Some c) \<and> run_call k None = Some (-1, None)"
proof -
  obtain c' where c': "co' = Some c'" "verdict k c (r, c')"
    using holdsD [OF call_ruled [OF assms(1), unfolded ruled_def] assms(2)] by auto
  have "run_call k None = Some (-1, None)"
    by (cases k) (simp_all add: esp_mqtt_client_publish_def esp_mqtt_client_enqueue_def
        esp_mqtt_client_subscribe_multiple_def esp_mqtt_client_unsubscribe_def with_client_def)
  then show ?thesis using c' by (auto simp: verdict_def call_result_def split: if_splits)
qed

text \<open>A client with a limit of four bytes: a publish of four bytes is accepted, one of five is not.\<close>

definition limited_client :: esp_mqtt_client where
  "limited_client = (sample_client 32)\<lparr>config := (config (sample_client 32))\<lparr>cs_outbox_limit := 4\<rparr>\<rparr>"

theorem call_results_witness:
  "(\<exists>r co'. run_call (Publish (Some [0x74]) (Some [1, 2, 3, 4, 5]) 5 1 0) (Some limited_client) = Some (r, co') \<and> r = -2) \<and>
   (\<exists>r co'. run_call (Publish (Some [0x74]) (Some [1, 2, 3, 4]) 4 1 0) (Some limited_client) = Some (r, co') \<and> r \<noteq> -2)"
proof -
  let ?k = "Publish (Some [0x74]) (Some [1, 2, 3, 4, 5]) 5 1 0" and ?l = "Publish (Some [0x74]) (Some [1, 2, 3, 4]) 4 1 0"
  have s: "sizes_ok ?k limited_client" "sizes_ok ?l limited_client" "refused ?k limited_client" "\<not> refused ?l limited_client"
    by (simp_all add: sizes_ok_def outbox_ok_def payload_bytes_def stored_bytes_def over_limit_def not_accepted_def limited_client_def sample_client_def)
  have "run_call ?k (Some limited_client) \<noteq> None" "run_call ?l (Some limited_client) \<noteq> None" by code_simp+
  then obtain r co r' co' where "run_call ?k (Some limited_client) = Some (r, co)" "run_call ?l (Some limited_client) = Some (r', co')" by auto
  then show ?thesis using call_results [OF s(1)] call_results [OF s(2)] s(3,4) by blast
qed

end
