(* ===== verification/Mqtt_Client_Inv.thy ===== *)
theory Mqtt_Client_Inv
  imports Mqtt_Client_Frame
begin

text \<open>
  The invariant of the client over every sequence of task iterations, calls of the application and
  answers of the environment: buffers and outbox are well formed, and the counter of a connected
  MQTT 5 client does not exceed what the broker accepts. What the counter counts is the subject of
  \<open>Mqtt_Client_Flow\<close>.
\<close>

section \<open>The outbox\<close>

text \<open>What identifies a stored message: its kind and its identifier.\<close>

definition item_key :: "outbox_item \<Rightarrow> int \<times> int \<times> int" where
  "item_key i = (item_msg_type i, item_msg_qos i, item_msg_id i)"

definition keys :: "outbox \<Rightarrow> (int \<times> int \<times> int) list" where
  "keys ob = map item_key (ob_list ob)"

definition stored_ok :: "outbox \<Rightarrow> bool" where
  "stored_ok ob \<longleftrightarrow> outbox_ok ob \<and>
     (\<forall>(ty, q, n) \<in> set (keys ob). 0 \<le> q \<and> uint (word_of_int n :: 16 word) = n)"

lemma stored_okI: "stored_ok ob \<Longrightarrow> outbox_ok ob' \<Longrightarrow> set (keys ob') \<subseteq> set (keys ob) \<Longrightarrow> stored_ok ob'"
  by (auto simp: stored_ok_def)

lemma stored_okD:
  assumes "stored_ok ob" "i \<in> set (ob_list ob)"
  shows "0 \<le> item_msg_qos i" "uint (word_of_int (item_msg_id i) :: 16 word) = item_msg_id i"
  using assms by (auto simp: stored_ok_def keys_def item_key_def)

lemma delete_first_subset:
  assumes "outbox_ok ob"
  shows "set (ob_list (snd (delete_first P ob))) \<subseteq> set (ob_list ob)"
  using delete_first_split [OF assms, of P] by (auto split: option.splits)

lemma stored_ok_delete:
  assumes "stored_ok ob"
  shows "stored_ok (snd (delete_first P ob))"
proof -
  have ok: "outbox_ok ob" using assms by (simp add: stored_ok_def)
  show ?thesis
    by (rule stored_okI [OF assms]) (simp_all add: delete_first_ok ok keys_def image_mono delete_first_subset)
qed

lemma stored_ok_loop: "stored_ok ob \<Longrightarrow> stored_ok (snd (delete_loop P (ob_list ob) 0 ob))"
  using delete_loop_all [of ob P] by (auto simp: stored_ok_def keys_def)

lemma stored_ok_deletions:
  assumes "stored_ok ob"
  shows "stored_ok (snd (outbox_delete ob n ty))" "stored_ok (snd (outbox_delete_item ob a))"
    "stored_ok (snd (outbox_delete_message_type ob ty))" "stored_ok (snd (outbox_delete_expired ob now timeout))"
    "stored_ok (outbox_delete_all_items ob)" "stored_ok (snd (outbox_delete_single_expired ob now timeout))"
proof -
  have "snd (outbox_delete_single_expired ob now timeout) = snd (delete_first (\<lambda>i. now - item_tick i > timeout) ob)"
    by (simp add: outbox_delete_single_expired_def delete_first_def split: option.split)
  then show "stored_ok (snd (outbox_delete_single_expired ob now timeout))" using stored_ok_delete [OF assms] by simp
qed (simp_all add: assms outbox_delete_def outbox_delete_item_def outbox_delete_message_type_def outbox_delete_expired_def
      outbox_delete_all_items_def stored_ok_delete stored_ok_loop)

lemma stored_ok_marks:
  assumes "stored_ok ob"
  shows "stored_ok (snd (outbox_set_pending ob n p))" "stored_ok (snd (outbox_set_tick ob n t))"
proof -
  have ok: "outbox_ok ob" using assms by (simp add: stored_ok_def)
  have upd: "stored_ok (ob\<lparr>ob_list := update_first n f (ob_list ob)\<rparr>)"
    if f: "\<And>i. item_key (f i) = item_key i" "\<And>i. item_addr (f i) = item_addr i" "\<And>i. item_len (f i) = item_len i"
      "\<And>i. item_buffer (f i) = item_buffer i" for f
    by (rule stored_okI [OF assms update_first_ok [OF ok f(2-4)]]) (simp add: keys_def update_first_map f)
  show "stored_ok (snd (outbox_set_pending ob n p))" "stored_ok (snd (outbox_set_tick ob n t))"
    unfolding outbox_set_pending_def outbox_set_tick_def
    using assms by (auto simp: item_key_def split: option.split intro!: upd)
qed

lemma fresh_addr_new: "fresh_addr ob \<notin> item_addr ` set (ob_list ob)"
proof -
  have ge: "m \<le> fold max l m" for m :: nat and l
  proof (induction l arbitrary: m)
    case (Cons a l)
    show ?case using Cons.IH [of "max a m"] by simp
  qed simp
  have "x \<le> fold max l m" if "x \<in> set l" for x m :: nat and l
    using that
  proof (induction l arbitrary: m)
    case (Cons a l)
    then show ?case using ge [of "max a m" l] by auto
  qed simp
  then have "\<forall>i \<in> set (ob_list ob). item_addr i < fresh_addr ob" by (simp add: fresh_addr_def less_Suc_eq_le)
  then show ?thesis by auto
qed

lemma stored_ok_enqueue:
  assumes "stored_ok ob" "0 \<le> om_msg_qos m \<and> uint (word_of_int (om_msg_id m) :: 16 word) = om_msg_id m" "\<forall>b. block = Some b \<longrightarrow> length b = om_len m + om_remaining_len m"
    and "outbox_enqueue ob m tick new block = Some (r, ob')" "\<forall>a. new = Some a \<longrightarrow> a = fresh_addr ob"
  shows "stored_ok ob'"
proof -
  have new: "\<forall>a. new = Some a \<longrightarrow> a \<notin> item_addr ` set (ob_list ob)" using assms(5) fresh_addr_new [of ob] by metis
  have "outbox_ok ob'"
    by (rule outbox_enqueue_ok [OF _ new assms(3,4)]) (use assms(1) in \<open>simp add: stored_ok_def\<close>)
  moreover have "ob' = ob \<or> (\<exists>a buf. ob_list ob' = ob_list ob @ [new_item a buf m tick])"
    using outbox_enqueue_item assms(4) by (cases new; cases block) (fastforce simp: outbox_enqueue_def)+
  ultimately show ?thesis using assms(1,2) by (auto simp: stored_ok_def new_item_def keys_def item_key_def)
qed

lemma update_addr_map: "(\<And>i. g (f i) = g i) \<Longrightarrow> map g (update_addr a f xs) = map g xs"
  by (induction xs) auto

lemma stored_ok_dup:
  assumes "stored_ok ob" "i \<in> set (ob_list ob)" "item_set_dup i ob = Some (b, ob')"
  shows "stored_ok ob'"
proof -
  obtain b where b: "mqtt_set_dup (item_buffer i) = Some b"
    "ob' = ob\<lparr>ob_list := update_addr (item_addr i) (\<lambda>x. x\<lparr>item_buffer := b\<rparr>) (ob_list ob)\<rparr>"
    using assms(3) by (auto simp: item_set_dup_def bind_eq_Some_conv)
  let ?f = "\<lambda>x. x\<lparr>item_buffer := b\<rparr>"
  have l: "length b = length (item_buffer i)"
    using b(1) by (auto simp: mqtt_set_dup_def bind_eq_Some_conv store_length)
  have ok: "distinct (map item_addr (ob_list ob))" "\<forall>i \<in> set (ob_list ob). length (item_buffer i) = item_len i"
    using assms(1) by (auto simp: stored_ok_def outbox_ok_def)
  have "\<forall>x \<in> set (update_addr (item_addr i) ?f xs). length (item_buffer x) = item_len x"
    if "distinct (map item_addr xs)" "\<forall>x \<in> set xs. length (item_buffer x) = item_len x" "\<forall>x \<in> set xs. item_addr x = item_addr i \<longrightarrow> x = i" for xs
    using that l by (induction xs) auto
  moreover have "\<forall>x \<in> set (ob_list ob). item_addr x = item_addr i \<longrightarrow> x = i"
    using ok(1) assms(2) by (auto simp: distinct_map inj_on_def)
  ultimately have "outbox_ok ob'"
    using ok assms(1) by (simp add: stored_ok_def outbox_ok_def b update_addr_map [of item_addr ?f] update_addr_map [of item_len ?f])
  moreover have "keys ob' = keys ob" by (simp add: b keys_def update_addr_map item_key_def)
  ultimately show ?thesis by (intro stored_okI [OF assms(1)]) (simp_all only: order_refl)
qed

section \<open>The invariant\<close>

definition receive_maximum :: "esp_mqtt_client \<Rightarrow> 16 word" where
  "receive_maximum c = sr_receive_maximum (server_resp_property_info (mqtt5_config c))"

definition client_ok :: "esp_mqtt_client \<Rightarrow> bool" where
  "client_ok c \<longleftrightarrow> recv_ok c \<and> stored_ok (outbox c) \<and> 0 \<le> pending_publish_qos c \<and>
     length (buffer (connection c)) = buffer_length (connection c) \<and>
     (state c = MQTT_STATE_CONNECTED \<and> is_v5 c \<longrightarrow> send_publish_packet_count c \<le> receive_maximum c)"

lemma client_ok_core: "core c' = core c \<Longrightarrow> client_ok c' = client_ok c"
  by (simp add: core_def client_ok_def recv_ok_def receive_maximum_def)

lemmas client_ok_simps [simp] = core_updates [THEN client_ok_core] core_dispatch [THEN client_ok_core] core_dispatch_data [THEN client_ok_core]

lemma client_ok_quiet: "(\<And>k. core c = k \<Longrightarrow> holds (\<lambda>(r, c'). core c' = k) m) \<Longrightarrow> client_ok c \<Longrightarrow> holds (\<lambda>(r, c'). client_ok c') m"
  unfolding holds_def using client_ok_core by fast

lemma client_ok_quiet': "(\<And>k. core c = k \<Longrightarrow> holds (\<lambda>c'. core c' = k) m) \<Longrightarrow> client_ok c \<Longrightarrow> holds client_ok m"
  unfolding holds_def using client_ok_core by fast

lemma client_ok_updates:
  "client_ok c \<Longrightarrow> stored_ok ob \<Longrightarrow> client_ok (c\<lparr>outbox := ob\<rparr>)"
  "client_ok c \<Longrightarrow> s \<noteq> MQTT_STATE_CONNECTED \<Longrightarrow> client_ok (c\<lparr>state := s\<rparr>)"
  "client_ok c \<Longrightarrow> client_ok (c\<lparr>in_buffer_read_len := 0\<rparr>)"
  "client_ok c \<Longrightarrow> client_ok (c\<lparr>pending_msg_type := ty\<rparr>)"
  "client_ok c \<Longrightarrow> 0 \<le> q \<Longrightarrow> client_ok (c\<lparr>pending_publish_qos := q\<rparr>)"
  by (auto simp: client_ok_def recv_ok_def receive_maximum_def)

lemma client_ok_stored: "client_ok c \<Longrightarrow> stored_ok (outbox c)"
  by (simp add: client_ok_def)

named_theorems inv

lemma inv_marks [inv]:
  "client_ok c \<Longrightarrow> client_ok (set_pending n p c)" "client_ok c \<Longrightarrow> client_ok (set_tick n c)"
proof -
  assume c: "client_ok c"
  then show "client_ok (set_pending n p c)"
    by (simp add: set_pending_def client_ok_updates stored_ok_marks client_ok_stored)
  obtain t c1 where t: "platform_tick_get_ms c = (t, c1)" by fastforce
  then have "client_ok c1" using c core_tick client_ok_core by metis
  then show "client_ok (set_tick n c)"
    by (simp add: set_tick_def t client_ok_updates stored_ok_marks client_ok_stored)
qed

text \<open>The end of a connection leaves a client that is not connected.\<close>

definition offline :: "esp_mqtt_client \<Rightarrow> bool" where
  "offline c \<longleftrightarrow> client_ok c \<and> state c \<noteq> MQTT_STATE_CONNECTED"

lemma offline_core: "core c' = core c \<Longrightarrow> offline c' = offline c"
  using client_ok_core [of c' c] by (simp add: offline_def core_def)

lemmas offline_simps [simp] = core_updates [THEN offline_core] core_dispatch [THEN offline_core]

lemma offline_quiet: "(\<And>k. core c = k \<Longrightarrow> holds (\<lambda>c'. core c' = k) m) \<Longrightarrow> offline c \<Longrightarrow> holds offline m"
  unfolding holds_def using offline_core by fast

lemma offline_state: "client_ok c \<Longrightarrow> s \<noteq> MQTT_STATE_CONNECTED \<Longrightarrow> offline (c\<lparr>state := s\<rparr>)"
  by (simp add: offline_def client_ok_updates)

lemma inv_abort [inv]:
  assumes "client_ok c"
  shows "holds offline (esp_mqtt_abort_connection c)"
proof -
  let ?c = "if clean_session (conn_info c)
     then c\<lparr>outbox := snd (outbox_delete_message_type (snd (outbox_delete_message_type (outbox c) 8)) 10)\<rparr> else c"
  have c1: "client_ok ?c"
    using assms by (simp add: client_ok_updates stored_ok_deletions client_ok_stored)
  obtain t c2 where t: "platform_tick_get_ms (?c\<lparr>wait_timeout_ms := cs_reconnect_timeout_ms (config ?c)\<rparr>) = (t, c2)" by fastforce
  have "client_ok c2" using c1 client_ok_core [OF core_tick [OF t]] by (simp split del: if_split)
  then have "offline (c2\<lparr>reconnect_tick := t, state := MQTT_STATE_WAIT_RECONNECT\<rparr>)" by (intro offline_state) simp_all
  then show ?thesis
    unfolding esp_mqtt_abort_connection_def Let_def t [unfolded Let_def] prod.case
    by (intro offline_quiet [OF quiet_msgid]) simp_all
qed

lemma offline_ok: "offline c \<Longrightarrow> client_ok c"
  by (simp add: offline_def)

lemma inv_abort_ok: "client_ok c \<Longrightarrow> holds client_ok (esp_mqtt_abort_connection c)"
  by (rule holds_mono [OF inv_abort offline_ok])

lemma client_ok_pairs:
  "platform_tick_get_ms c = (t, c') \<Longrightarrow> client_ok c' = client_ok c" "client_calloc c = (ok, c') \<Longrightarrow> client_ok c' = client_ok c"
  "has_timed_out t n c = (ok, c') \<Longrightarrow> client_ok c' = client_ok c"
  by (rule client_ok_core, erule core_pairs)+

section \<open>Processing\<close>

lemma inv_keepalive [inv]:
  assumes "client_ok c"
  shows "holds (\<lambda>(r, c'). client_ok c') (process_keepalive c)"
  using assms unfolding process_keepalive_def Let_def
  by (auto split: prod.split dest!: client_ok_pairs(3) intro!: holds_mono [OF inv_abort_ok] holds_mono [OF client_ok_quiet [OF quiet_ping]])

lemma inv_remove [inv]:
  "client_ok c \<Longrightarrow> remove_initiator_message ty n c = (found, c') \<Longrightarrow> client_ok c'"
  using stored_ok_deletions(1) [OF client_ok_stored, of c "int n" ty]
  by (auto simp: remove_initiator_message_def split: prod.splits intro!: client_ok_updates)

lemma word_pred_le: "0 < n \<Longrightarrow> n \<le> m \<Longrightarrow> n - 1 \<le> m" for n :: "16 word"
  by unat_arith

lemma word_succ_le: "n < m \<Longrightarrow> n + 1 \<le> m" for n :: "16 word"
  by unat_arith

lemma inv_decrement [inv]: "client_ok c \<Longrightarrow> client_ok (esp_mqtt5_decrement_packet_counter c)"
  by (auto simp: esp_mqtt5_decrement_packet_counter_def client_ok_def recv_ok_def receive_maximum_def word_pred_le)

lemma inv_process:
  assumes c: "client_ok c"
  shows "holds (\<lambda>(r, c'). client_ok c') (process_suback n c)" "holds (\<lambda>(r, c'). client_ok c') (process_unsuback n c)"
    "holds (\<lambda>(r, c'). client_ok c') (process_published esp_mqtt5_parse_puback n c)"
    "holds (\<lambda>(r, c'). client_ok c') (process_published esp_mqtt5_parse_pubcomp n c)"
    "holds (\<lambda>(r, c'). client_ok c') (process_pubrec n c)"
proof -
  note rm = inv_remove [OF c]
  show "holds (\<lambda>(r, c'). client_ok c') (process_suback n c)"
    unfolding process_suback_def Let_def
    by (auto split: prod.split dest!: rm intro!: holds_mono [OF client_ok_quiet' [OF quiet_replies(3)]] client_ok_quiet [OF quiet_deliver_suback])
  show "holds (\<lambda>(r, c'). client_ok c') (process_unsuback n c)"
    unfolding process_unsuback_def Let_def
    by (auto split: prod.split dest!: rm intro!: holds_mono [OF client_ok_quiet' [OF quiet_replies(4)]] holds_mono [OF client_ok_quiet' [OF quiet_msgid]])
  show "holds (\<lambda>(r, c'). client_ok c') (process_published esp_mqtt5_parse_puback n c)"
    unfolding process_published_def Let_def
    by (auto split: prod.split dest!: rm intro!: inv_decrement holds_mono [OF client_ok_quiet' [OF quiet_replies(1)]] holds_mono [OF client_ok_quiet' [OF quiet_msgid]])
  show "holds (\<lambda>(r, c'). client_ok c') (process_published esp_mqtt5_parse_pubcomp n c)"
    unfolding process_published_def Let_def
    by (auto split: prod.split dest!: rm intro!: inv_decrement holds_mono [OF client_ok_quiet' [OF quiet_replies(2)]] holds_mono [OF client_ok_quiet' [OF quiet_msgid]])
  show "holds (\<lambda>(r, c'). client_ok c') (process_pubrec n c)"
    unfolding process_pubrec_def holds_bind
    by (rule holds_mono [OF client_ok_quiet' [OF quiet_compose]])
       (auto simp: c mqtt_msg_pubrel_def mqtt5_msg_pubrel_def intro!: kept_ack holds_mono [OF client_ok_quiet [OF quiet_write]] inv_marks)
qed

lemma inv_process_message [inv]:
  assumes "client_ok c"
  shows "holds (\<lambda>(r, c'). client_ok c') (process_message ty q n c)"
  using inv_process [OF assms] client_ok_quiet [OF quiet_process(1) assms] client_ok_quiet [OF quiet_process(2) assms]
    client_ok_quiet [OF quiet_process(3) assms] client_ok_quiet [OF quiet_process(4) assms] assms
  unfolding process_message_def by (simp split del: if_split) (simp add: if_split)

text \<open>Receiving keeps all but the receive buffer; \<open>receive_total\<close> says what it keeps of that.\<close>

lemma receive_keeps:
  assumes "client_ok c" "mqtt_message_receive c = Some (r, c')"
  shows "client_ok c'" "state c' = state c" "connection c' = connection c"
proof -
  have "recv_ok c'" "silent c' = silent c"
    using receive_total [of c] assms by (auto simp: client_ok_def)
  moreover have "pending_publish_qos (silent c) = pending_publish_qos c" for c by (simp add: silent_def hush_def)
  ultimately have "recv_ok c'" "outbox c' = outbox c" "state c' = state c" "connection c' = connection c"
    "mqtt5_config c' = mqtt5_config c" "send_publish_packet_count c' = send_publish_packet_count c"
    "pending_publish_qos c' = pending_publish_qos c"
    using silentD [of c' c] by metis+
  then show "client_ok c'" "state c' = state c" "connection c' = connection c"
    using assms(1) by (simp_all add: client_ok_def receive_maximum_def)
qed

lemma inv_process_receive [inv]:
  assumes "client_ok c"
  shows "holds (\<lambda>(r, c'). client_ok c') (mqtt_process_receive c)"
proof -
  have "holds (\<lambda>(r, c'). client_ok c') (mqtt_message_receive c)"
    using receive_keeps [OF assms] by (auto simp: holds_def)
  then show ?thesis
    unfolding mqtt_process_receive_def holds_bind Let_def
    by (rule holds_mono)
       (auto intro!: holdsI [of "mqtt_get_type b" for b] holdsI [of "mqtt_get_qos b" for b] holdsI [of "message_id_of b n" for b n]
         holds_mono [OF inv_process_message] client_ok_updates)
qed

section \<open>Storing and sending\<close>

lemma inv_enqueue [inv]:
  assumes "client_ok c"
  shows "holds (\<lambda>(r, c'). client_ok c') (mqtt_enqueue rd n c)"
proof (rule holdsI, clarify)
  fix r c' assume r: "mqtt_enqueue rd n c = Some (r, c')"
  let ?m = "\<lparr>om_data = outbound_data c, om_len = msg_length (outbound c), om_msg_id = uint (pending_msg_id c),
     om_msg_qos = pending_publish_qos c, om_msg_type = pending_msg_type c, om_remaining_data = rd, om_remaining_len = n\<rparr>"
  obtain t c1 where c1: "platform_tick_get_ms c = (t, c1)" by fastforce
  obtain oki c2 where c2: "client_calloc c1 = (oki, c2)" by fastforce
  obtain okb c3 where c3: "(if oki then client_calloc c2 else (False, c2)) = (okb, c3)" by fastforce
  have core: "core c3 = core c" using core_tick [OF c1] core_calloc [OF c2] c3 core_calloc [of c2] by (auto split: if_splits)
  then have o: "outbox c3 = outbox c" by (simp add: core_def)
  obtain res ob where ob: "outbox_enqueue (outbox c) ?m (uint t) (if oki then Some (fresh_addr (outbox c)) else None)
      (if okb then Some (replicate (om_len ?m + n) 0) else None) = Some (res, ob)" and c': "c' = c3\<lparr>outbox := ob\<rparr>"
    using r c1 c2 c3 o by (auto simp: mqtt_enqueue_def Let_def bind_eq_Some_conv cong: if_cong)
  have "stored_ok ob"
    by (rule stored_ok_enqueue [OF _ _ _ ob]) (use assms in \<open>auto simp: client_ok_def\<close>)
  then show "client_ok c'" using assms client_ok_core [OF core] by (simp add: c' client_ok_updates)
qed

lemma inv_load [inv]: "client_ok c \<Longrightarrow> 0 \<le> item_msg_qos i \<Longrightarrow> client_ok (load_item i c)"
  by (simp add: load_item_def client_ok_updates)

lemma inv_write_or_abort [inv]: "client_ok c \<Longrightarrow> holds (\<lambda>(r, c'). client_ok c') (write_or_abort c)"
  unfolding write_or_abort_def holds_bind
  by (auto intro!: holds_mono [OF client_ok_quiet [OF quiet_write]] holds_mono [OF inv_abort_ok])

lemma write_or_abort_core: "core c = k \<Longrightarrow> holds (\<lambda>(r, c'). r = ESP_OK \<longrightarrow> core c' = k) (write_or_abort c)"
  unfolding write_or_abort_def holds_bind
  by (rule holds_mono [OF quiet_write]) (auto simp: holds_def bind_eq_Some_conv split: if_splits)

text \<open>A stored item: its place in the outbox.\<close>

lemma stored_item_qos: "client_ok c \<Longrightarrow> i \<in> set (ob_list (outbox c)) \<Longrightarrow> 0 \<le> item_msg_qos i"
  using stored_okD client_ok_stored by blast

text \<open>What matters for the flow of publishes.\<close>

definition flow where
  "flow (c :: esp_mqtt_client) = (pending_msg_type c, pending_publish_qos c, state c, protocol_ver (conn_info c),
     send_publish_packet_count c, receive_maximum c)"

lemma flow_core: "core c' = core c \<Longrightarrow> flow c' = flow c"
  by (simp add: core_def flow_def receive_maximum_def)

lemmas flow_simps [simp] = core_updates [THEN flow_core]

lemma inv_resend_queued:
  assumes c: "client_ok c" and i: "i \<in> set (ob_list (outbox c))"
  shows "holds (\<lambda>(r, c'). client_ok c' \<and> (r = ESP_OK \<longrightarrow> flow c' = flow (load_item i c))) (mqtt_resend_queued i c)"
proof -
  let ?c = "load_item i c"
  have c1: "client_ok ?c" using c stored_item_qos [OF c i] by (rule inv_load)
  have i1: "i \<in> set (ob_list (outbox ?c))" using i by (simp add: load_item_def upd_outbound_def)
  have out: "holds (\<lambda>(r, c'). client_ok c' \<and> (r = ESP_OK \<longrightarrow> flow c' = flow ?c)) (write_or_abort c2)"
    if "client_ok c2" "flow c2 = flow ?c" for c2
  proof (rule holdsI, clarify)
    fix r c' assume r: "write_or_abort c2 = Some (r, c')"
    have "client_ok c'" using holdsD [OF inv_write_or_abort [OF that(1)] r] by simp
    moreover have "r = ESP_OK \<longrightarrow> flow c' = flow ?c" using holdsD [OF write_or_abort_core [OF refl] r] flow_core [of c' c2] that(2) by simp
    ultimately show "client_ok c' \<and> (r = ESP_OK \<longrightarrow> flow c' = flow ?c)" by simp
  qed
  have dup: "client_ok (c1\<lparr>outbox := ob\<rparr>) \<and> flow (c1\<lparr>outbox := ob\<rparr>) = flow c1"
    if "item_set_dup i (outbox c1) = Some (b, ob)" "client_ok c1" "i \<in> set (ob_list (outbox c1))" for b ob c1
    using stored_ok_dup [OF client_ok_stored [OF that(2)] that(3,1)] that(2)
    by (simp add: client_ok_updates) (simp add: flow_def receive_maximum_def)
  show ?thesis
    unfolding mqtt_resend_queued_def Let_def holds_bind
    by (rule holdsI) (use c1 i1 in \<open>auto simp: bind_eq_Some_conv dest!: dup split: if_splits intro!: out\<close>)
qed

lemma inv_resend_pubrel:
  assumes c: "client_ok c" and i: "i \<in> set (ob_list (outbox c))"
  shows "holds (\<lambda>(r, c'). client_ok c') (mqtt_resend_pubrel i c)"
  unfolding mqtt_resend_pubrel_def Let_def holds_bind
  by (rule holds_mono [OF client_ok_quiet' [OF quiet_compose]])
     (auto simp: mqtt_msg_pubrel_def mqtt5_msg_pubrel_def intro!: kept_ack inv_write_or_abort inv_load c stored_item_qos [OF c i])

lemma dequeue_in: "outbox_dequeue ob p = Some (i, t) \<Longrightarrow> i \<in> set (ob_list ob)"
  by (auto simp: outbox_dequeue_def dest!: first_item_Some)

lemma inv_resend_old:
  assumes c: "client_ok c"
    and r: "\<And>c i. client_ok c \<Longrightarrow> i \<in> set (ob_list (outbox c)) \<Longrightarrow> holds (\<lambda>(r, c'). client_ok c') (resend i c)"
  shows "holds client_ok (resend_old p resend c)"
  using c dequeue_in [of "outbox c" p]
  by (auto simp: resend_old_def Let_def split: option.split intro!: holds_mono [OF r])

lemma inv_retransmit [inv]:
  assumes "client_ok c"
  shows "holds client_ok (retransmit c)"
proof -
  have q: "holds (\<lambda>(r, c'). client_ok c') (mqtt_resend_queued i c)" if "client_ok c" "i \<in> set (ob_list (outbox c))" for c i
    by (rule holds_mono [OF inv_resend_queued [OF that]]) auto
  show ?thesis using assms
    unfolding retransmit_def Let_def
    by (auto split: prod.split dest!: client_ok_pairs intro!: holds_mono [OF inv_resend_old [OF _ q]] inv_resend_old [OF _ inv_resend_pubrel])
qed

text \<open>The check that comes before the next item is sent is what keeps the count below the maximum.\<close>

definition may_send :: "esp_mqtt_client \<Rightarrow> bool" where
  "may_send c \<longleftrightarrow> send_publish_packet_count c < receive_maximum c"

lemma check_inflight: "esp_mqtt5_client_check_inflight_maximum c = ESP_OK \<longleftrightarrow> may_send c"
  by (auto simp: esp_mqtt5_client_check_inflight_maximum_def may_send_def receive_maximum_def not_le)

lemma may_send_flow: "flow c' = flow c \<Longrightarrow> may_send c' = may_send c"
  by (simp add: flow_def may_send_def)

lemma inv_increment:
  assumes "client_ok c" "is_v5 c \<longrightarrow> may_send c"
  shows "client_ok (esp_mqtt5_increment_packet_counter c)"
  using assms word_succ_le
  by (auto simp: esp_mqtt5_increment_packet_counter_def client_ok_def recv_ok_def receive_maximum_def may_send_def)

lemma next_queued_admitted:
  assumes "client_ok c" "next_queued c = Some i"
  shows "i \<in> set (ob_list (outbox c))" "is_v5 c \<and> item_msg_type i = MQTT_MSG_TYPE_PUBLISH \<and> item_msg_qos i \<noteq> 0 \<longrightarrow> may_send c"
proof -
  obtain j t where j: "outbox_dequeue (outbox c) QUEUED = Some (j, t)"
    using assms(2) by (auto simp: next_queued_def split: option.splits)
  note inj = dequeue_in [OF j]
  have qj: "0 \<le> item_msg_qos j" using stored_item_qos [OF assms(1) inj] .
  have q0: "i \<in> set (ob_list (outbox c)) \<and> item_msg_qos i = 0" if "mqtt_get_queued_qos0 (outbox c) = Some i"
    using that by (auto simp: mqtt_get_queued_qos0_def outbox_get_def bind_eq_Some_conv dest!: first_item_Some split: if_splits)
  show "i \<in> set (ob_list (outbox c))" "is_v5 c \<and> item_msg_type i = MQTT_MSG_TYPE_PUBLISH \<and> item_msg_qos i \<noteq> 0 \<longrightarrow> may_send c"
    using assms(2) j inj qj q0 by (auto simp: next_queued_def check_inflight split: if_splits)
qed

lemma flow_marks: "flow (set_pending n p (set_tick m c)) = flow c"
proof -
  obtain t c1 where t: "platform_tick_get_ms c = (t, c1)" by fastforce
  have "flow (c\<lparr>outbox := ob\<rparr>) = flow c" for c ob by (simp add: flow_def receive_maximum_def)
  then show ?thesis using flow_core [OF core_tick [OF t]] by (simp add: set_pending_def set_tick_def t)
qed

lemma inv_send_queued [inv]:
  assumes c: "client_ok c" "next_queued c = Some i"
  shows "holds client_ok (send_queued i c)"
proof -
  note i = next_queued_admitted [OF c]
  have lf: "flow (load_item i c) = (item_msg_type i, item_msg_qos i, state c, protocol_ver (conn_info c), send_publish_packet_count c, receive_maximum c)"
    by (simp add: load_item_def flow_def upd_outbound_def receive_maximum_def)
  show ?thesis
    unfolding send_queued_def holds_bind
  proof (rule holds_mono [OF inv_resend_queued [OF c(1) i(1)]], clarify)
    fix r c1 assume c1: "client_ok c1" "r = ESP_OK \<longrightarrow> flow c1 = flow (load_item i c)"
    let ?c2 = "set_pending (uint (pending_msg_id c1)) TRANSMITTED (set_tick (uint (pending_msg_id c1)) c1)"
    have c2: "client_ok ?c2" "flow ?c2 = flow c1" using c1(1) by (simp_all add: inv_marks flow_marks)
    have "client_ok (esp_mqtt5_increment_packet_counter ?c2)"
      if "r = ESP_OK" "\<not> (pending_msg_type c1 = 3 \<and> pending_publish_qos c1 = 0)" "pending_msg_type ?c2 = 3" "is_v5 ?c2"
      using that c1(2) c2 i(2) lf by (intro inv_increment) (auto simp: flow_def may_send_def)
    then show "holds client_ok (if r \<noteq> ESP_OK then Some c1
        else if pending_msg_type c1 = 3 \<and> pending_publish_qos c1 = 0
        then Some (c1\<lparr>outbox := snd (outbox_delete_item (outbox c1) (item_addr i))\<rparr>)
        else let c = ?c2 in Some (if pending_msg_type c = 3 \<and> is_v5 c then esp_mqtt5_increment_packet_counter c else c))"
      using c1(1) c2(1) by (simp add: Let_def client_ok_updates stored_ok_deletions client_ok_stored)
  qed
qed

lemma inv_refresh [inv]: "client_ok c \<Longrightarrow> holds client_ok (refresh_connection c)"
  unfolding refresh_connection_def Let_def
  by (auto split: prod.split dest!: client_ok_pairs intro!: holds_mono [OF inv_abort_ok] client_ok_updates)

lemma inv_expired [inv]: "client_ok c \<Longrightarrow> client_ok (mqtt_delete_expired_messages c)"
proof -
  have loop: "client_ok c \<Longrightarrow> client_ok (delete_expired_loop c)" for c
  proof (induction c rule: delete_expired_loop.induct)
    case (1 c)
    obtain t c1 where t: "platform_tick_get_ms c = (t, c1)" by fastforce
    obtain n ob where n: "outbox_delete_single_expired (outbox c1) (uint t) 30000 = (n, ob)" by fastforce
    have c1: "client_ok c1" using "1.prems" client_ok_pairs(1) [OF t] by simp
    then have "client_ok (c1\<lparr>outbox := ob\<rparr>)"
      using stored_ok_deletions(6) [OF client_ok_stored [OF c1], of "uint t" 30000] n by (simp add: client_ok_updates)
    then show ?case using "1.IH" [OF t [symmetric] refl n [symmetric] refl]
      by (subst delete_expired_loop.simps) (simp add: t n)
  qed
  assume "client_ok c"
  then show ?thesis
    using loop by (auto simp: mqtt_delete_expired_messages_def dest!: client_ok_pairs(1) split: prod.split
        intro!: client_ok_updates stored_ok_deletions client_ok_stored)
qed

section \<open>Connecting\<close>

definition none_transmitted :: "outbox \<Rightarrow> bool" where
  "none_transmitted ob \<longleftrightarrow> (\<forall>i \<in> set (ob_list ob). item_pending i \<noteq> TRANSMITTED)"

lemma update_addr_ids: "map item_msg_id (update_addr a (\<lambda>x. x\<lparr>item_buffer := b\<rparr>) xs) = map item_msg_id xs"
  by (induction xs) auto

lemma item_set_dup_ids: "item_set_dup i ob = Some (b, ob') \<Longrightarrow> map item_msg_id (ob_list ob') = map item_msg_id (ob_list ob)"
  by (auto simp: item_set_dup_def bind_eq_Some_conv update_addr_ids)

text \<open>Identifiers are kept in 16 bits, so that the item that is to be marked is always found.\<close>

lemma set_pending_found: "n \<in> set (map item_msg_id (ob_list ob)) \<Longrightarrow> fst (outbox_set_pending ob n p) = ESP_OK"
  by (cases "outbox_get ob n") (auto simp: outbox_set_pending_def outbox_get_def first_item_None)

lemma inv_requeue:
  assumes "stored_ok ob"
  shows "holds (\<lambda>ob'. stored_ok ob' \<and> none_transmitted ob') (mqtt_requeue_transmitted_messages ob)"
proof (rule holdsI)
  fix ob' assume run: "mqtt_requeue_transmitted_messages ob = Some ob'"
  let ?P = "\<lambda>ob ob'. stored_ok ob \<longrightarrow> stored_ok ob' \<and> none_transmitted ob'"
  have "?P ob ob'"
  proof (rule mqtt_requeue_transmitted_messages.raw_induct [where P = ?P], goal_cases)
    case (1 f ob ob')
    show ?case
    proof (cases "outbox_dequeue ob TRANSMITTED")
      case None
      then have "none_transmitted ob" by (simp add: outbox_dequeue_def first_item_None none_transmitted_def)
      then show ?thesis using 1(2) None by simp
    next
      case (Some it)
      then obtain i t where i: "outbox_dequeue ob TRANSMITTED = Some (i, t)" by (cases it) auto
      then obtain ob1 where ob1: "(if item_msg_type i = 3 \<and> item_msg_qos i > 0 then map_option snd (item_set_dup i ob) else Some ob) = Some ob1"
        using 1(2) by (auto simp: bind_eq_Some_conv)
      obtain err ob2 where ob2: "outbox_set_pending ob1 (uint (word_of_int (item_msg_id i) :: 16 word)) QUEUED = (err, ob2)" by fastforce
      have fin: "(if err \<noteq> ESP_OK then Some ob2 else f ob2) = Some ob'" using 1(2) i ob1 ob2 by simp
      have "stored_ok ob2 \<and> err = ESP_OK" if ok: "stored_ok ob"
      proof -
        note mem = dequeue_in [OF i]
        have "stored_ok ob1" using ob1 stored_ok_dup [OF ok mem] ok by (auto split: if_splits)
        moreover have "map item_msg_id (ob_list ob1) = map item_msg_id (ob_list ob)"
          using ob1 item_set_dup_ids [of i ob] by (auto split: if_splits)
        then have "item_msg_id i \<in> set (map item_msg_id (ob_list ob1))" using mem by (simp del: set_map add: imageI) simp
        ultimately show ?thesis
          using stored_ok_marks(1) [of ob1 "item_msg_id i" QUEUED] set_pending_found [of "item_msg_id i" ob1 QUEUED] ob2 stored_okD(2) [OF ok mem]
          by simp
      qed
      then show ?thesis using fin 1(1) [of ob2 ob'] by (auto split: if_splits)
    qed
  qed (rule run)
  then show "stored_ok ob' \<and> none_transmitted ob'" using assms by simp
qed

text \<open>Waiting for the CONNACK.\<close>

lemma connack_loop_keeps:
  assumes "offline c"
  shows "holds (\<lambda>(r, c'). offline c' \<and> connection c' = connection c) (connack_loop started c)"
proof (rule holdsI, clarify)
  fix r c' assume run: "connack_loop started c = Some (r, c')"
  let ?P = "\<lambda>c rc. offline c \<longrightarrow> offline (snd rc) \<and> connection (snd rc) = connection c"
  have "?P c (r, c')"
  proof (rule connack_loop.raw_induct [where P = "\<lambda>s. ?P"], goal_cases)
    case (1 f s c rc)
    show ?case
    proof (rule impI)
      assume c: "offline c"
      obtain r1 c1 where r1: "mqtt_message_receive c = Some (r1, c1)" using 1(2) by (auto simp: bind_eq_Some_conv)
      have c1: "offline c1" "connection c1 = connection c"
        using receive_keeps [OF _ r1] c by (simp_all add: offline_def)
      obtain now c2 where t: "platform_tick_get_ms c1 = (now, c2)" by fastforce
      have c2: "offline c2" "connection c2 = connection c"
        using c1 offline_core [OF core_tick [OF t]] t by (auto simp: platform_tick_get_ms_def Let_def)
      have "rc = (r1, c1) \<or> rc = (r1, c2) \<or> f s c2 = Some rc"
        using 1(2) r1 t by (simp split: if_splits)
      then show "offline (snd rc) \<and> connection (snd rc) = connection c"
        using c1 c2 1(1) [of s c2 rc] by auto
    qed
  qed (rule run)
  then show "offline c' \<and> connection c' = connection c" using assms by simp
qed

text \<open>A CONNACK that is accepted clears the count of publishes under way.\<close>

lemma offline_updates:
  "offline c \<Longrightarrow> stored_ok ob \<Longrightarrow> offline (c\<lparr>outbox := ob\<rparr>)" "offline c \<Longrightarrow> offline (c\<lparr>in_buffer_read_len := 0\<rparr>)"
  "offline c \<Longrightarrow> offline (c\<lparr>send_publish_packet_count := n\<rparr>)" "offline c \<Longrightarrow> offline (c\<lparr>pending_msg_type := ty\<rparr>)"
  "offline c \<Longrightarrow> offline (c\<lparr>allocs := h, connection := (connection c)\<lparr>information := info\<rparr>\<rparr>)" "offline c \<Longrightarrow> offline (upd_mqtt5 f c)"
  "offline c \<Longrightarrow> 0 \<le> q \<Longrightarrow> offline (c\<lparr>pending_publish_qos := q\<rparr>)"
  by (auto simp: offline_def client_ok_def recv_ok_def receive_maximum_def upd_mqtt5_def)

lemma offline_parse_connack:
  assumes "offline c"
  shows "holds (\<lambda>(r, c'). offline c') (esp_mqtt5_parse_connack c)"
  unfolding esp_mqtt5_parse_connack_def holds_bind Let_def
  by (rule holdsI) (auto intro!: offline_updates holdsI [of "event_server x" for x] assms)

lemma offline_refused: "offline c \<Longrightarrow> holds (\<lambda>(r, c'). offline c' \<and> r = ESP_FAIL) (connection_refused n c)"
  unfolding connection_refused_def holds_bind by (auto intro!: holds_mono [OF offline_quiet [OF quiet_msgid]])

definition accepted :: "esp_err \<times> esp_mqtt_client \<Rightarrow> bool" where
  "accepted r \<longleftrightarrow> offline (snd r) \<and> (fst r = ESP_OK \<and> is_v5 (snd r) \<longrightarrow>
     send_publish_packet_count (snd r) = 0 \<and> none_transmitted (outbox (snd r)))"

lemma inv_receive_connack:
  assumes "offline c"
  shows "holds accepted (receive_connack c)"
proof -
  obtain t c1 where t: "platform_tick_get_ms c = (t, c1)" by fastforce
  have c1: "offline c1" using assms offline_core [OF core_tick [OF t]] by simp
  have refused: "holds accepted (connection_refused n c2)" if "offline c2" for n c2
    by (rule holds_mono [OF offline_refused [OF that]]) (auto simp: accepted_def)
  have v5: "holds accepted (do { ob \<leftarrow> mqtt_requeue_transmitted_messages (outbox c2);
        Some (ESP_OK, c2\<lparr>send_publish_packet_count := 0, outbox := ob\<rparr>) })" if "offline c2" for c2
    unfolding holds_bind
    by (rule holds_mono [OF inv_requeue]) (use that in \<open>auto simp: accepted_def offline_updates, simp add: offline_def client_ok_stored\<close>)
  show ?thesis
    unfolding receive_connack_def t Let_def prod.case holds_bind
  proof (rule holds_mono [OF connack_loop_keeps [OF c1]], clarify)
    fix n c2 assume c2: "offline c2" "connection c2 = connection c1"
    have v: "is_v5 c2 = is_v5 c1" using c2 by simp
    have "holds accepted (do { ((err, code), c) \<leftarrow> esp_mqtt5_parse_connack c2;
         if err = ESP_OK then do { ob \<leftarrow> mqtt_requeue_transmitted_messages (outbox c);
           Some (ESP_OK, c\<lparr>send_publish_packet_count := 0, outbox := ob\<rparr>) } else connection_refused code c })"
      unfolding holds_bind [of _ "esp_mqtt5_parse_connack c2"]
      by (rule holds_mono [OF offline_parse_connack [OF c2(1)]]) (auto simp: v5 refused simp del: holds_bind)
    moreover have "holds accepted (do { code \<leftarrow> mqtt_get_connect_return_code (in_buffer c3);
         if int code = 0 then Some (ESP_OK, c3) else connection_refused (int code) c3 })"
      if "c3 = c2\<lparr>in_buffer_read_len := 0\<rparr>" "\<not> is_v5 c2" for c3
      unfolding holds_bind
      by (rule holdsI) (use that c2 in \<open>auto simp: accepted_def offline_updates intro!: refused\<close>)
    ultimately show "holds accepted (if n \<le> 0 then Some (ESP_FAIL, c2) else do { ty \<leftarrow> mqtt_get_type (in_buffer c2);
        if ty \<noteq> 2 then Some (ESP_FAIL, c2)
        else if is_v5 c2 then do { ((err, code), c) \<leftarrow> esp_mqtt5_parse_connack c2;
           if err = ESP_OK then do { ob \<leftarrow> mqtt_requeue_transmitted_messages (outbox c);
             Some (ESP_OK, c\<lparr>send_publish_packet_count := 0, outbox := ob\<rparr>) } else connection_refused code c }
        else do { code \<leftarrow> mqtt_get_connect_return_code (in_buffer (c2\<lparr>in_buffer_read_len := 0\<rparr>));
           if int code = 0 then Some (ESP_OK, c2\<lparr>in_buffer_read_len := 0\<rparr>)
           else connection_refused (int code) (c2\<lparr>in_buffer_read_len := 0\<rparr>) } })"
      using c2 by (cases "mqtt_get_type (in_buffer c2)") (auto simp: accepted_def Let_def simp del: holds_bind)
  qed
qed

lemma offline_reset: "offline c \<Longrightarrow> offline (mqtt_reset_pending_message c)"
  by (simp add: mqtt_reset_pending_message_def offline_updates)

lemma offline_quiet_op: "(\<And>k. core c = k \<Longrightarrow> holds (\<lambda>(r, c'). core c' = k) m) \<Longrightarrow> offline c \<Longrightarrow> holds (\<lambda>(r, c'). offline c') m"
  unfolding holds_def using offline_core by fast

lemma inv_connect:
  assumes "offline c"
  shows "holds accepted (esp_mqtt_connect c)"
  unfolding esp_mqtt_connect_def Let_def holds_bind
proof (rule holds_mono [OF offline_quiet [of "mqtt_reset_pending_message (c\<lparr>wait_for_ping_resp := False\<rparr>)", OF quiet_compose]], goal_cases)
  case (5 c1)
  have "accepted (ESP_FAIL, c2)" if "offline c2" for c2 using that by (simp add: accepted_def)
  moreover have "holds (\<lambda>x. holds accepted (case x of (err, c) \<Rightarrow>
      if err \<noteq> ESP_OK then Some (ESP_FAIL, c) else receive_connack (c\<lparr>in_buffer_read_len := 0, message_length := 0\<rparr>)))
    (esp_mqtt_write (c1\<lparr>pending_msg_type := ty, pending_msg_id := i\<rparr>))" for ty i
    by (rule holds_mono [OF offline_quiet_op [OF quiet_write]])
       (auto simp: 5 offline_updates accepted_def intro!: inv_receive_connack offline_updates)
  ultimately show ?case using 5 by (auto intro!: holdsI [of "mqtt_get_type b" for b] holdsI [of "mqtt5_get_id b n" for b n] holdsI [of "mqtt_get_id b n" for b n])
qed (use assms in \<open>auto intro!: kept_connect offline_reset\<close>)

text \<open>A connection that begins: nothing of it is under way.\<close>

definition starting :: "esp_mqtt_client \<Rightarrow> bool" where
  "starting c \<longleftrightarrow> client_ok c \<and> (state c = MQTT_STATE_CONNECTED \<and> is_v5 c \<longrightarrow>
     send_publish_packet_count c = 0 \<and> none_transmitted (outbox c))"

lemma starting_core: "core c' = core c \<Longrightarrow> starting c' = starting c"
  using client_ok_core [of c' c] by (simp add: starting_def core_def)

lemmas starting_simps [simp] = core_updates [THEN starting_core]

lemma starting_tick: "platform_tick_get_ms c = (t, c') \<Longrightarrow> starting c' = starting c"
  by (rule starting_core, erule core_tick)

lemma starting_quiet: "(\<And>k. core c = k \<Longrightarrow> holds (\<lambda>c'. core c' = k) m) \<Longrightarrow> starting c \<Longrightarrow> holds starting m"
  unfolding holds_def using starting_core by fast

lemma offline_starting: "offline c \<Longrightarrow> starting c"
  by (simp add: offline_def starting_def)

lemma starting_ok: "starting c \<Longrightarrow> client_ok c"
  by (simp add: starting_def)

lemma inv_connected:
  assumes "offline c" "is_v5 c \<longrightarrow> send_publish_packet_count c = 0 \<and> none_transmitted (outbox c)"
  shows "holds starting (connected c)"
proof -
  have on: "starting (c1\<lparr>state := MQTT_STATE_CONNECTED\<rparr>)" if "core c1 = core c" for c1
    using assms that by (auto simp: starting_def offline_def client_ok_def recv_ok_def receive_maximum_def core_def)
  have run: "holds starting (do { c2 \<leftarrow> esp_mqtt_dispatch_event_with_msgid (c1\<lparr>state := MQTT_STATE_CONNECTED\<rparr>);
      let (now, c) = platform_tick_get_ms c2; let c = c\<lparr>refresh_connection_tick := now\<rparr>; let (now, c) = platform_tick_get_ms c;
      Some (c\<lparr>keepalive_tick := now\<rparr>) })" if "core c1 = core c" for c1
    unfolding holds_bind Let_def
    by (rule holds_mono [OF starting_quiet [OF quiet_msgid]]) (auto intro: on [OF that] split: prod.split dest!: starting_tick)
  show ?thesis
    unfolding connected_def Let_def
    using run [of "upd_event f c" for f] run [of "upd_event f (upd_event g c)" for f g]
    by (auto simp: Let_def intro!: holdsI [of "mqtt_get_connect_session_present b" for b])
qed

section \<open>The task\<close>

lemma core_transports: "esp_mqtt_client_create_transport c = (err, c') \<Longrightarrow> core c' = core c"
  by (auto simp: esp_mqtt_client_create_transport_def add_transports_def mqtt_transport_list_add_def Let_def
      dest!: core_calloc split: prod.splits if_splits option.splits)

lemma quiet_select [quiet]:
  assumes "core c = k"
  shows "holds (\<lambda>(ok, c'). core c' = k) (select_transport c)"
proof -
  have f: "holds (\<lambda>(ok, c'). core c' = k) (start_failed err c1)" if "core c1 = k" for err c1 k
    unfolding start_failed_def holds_bind by (rule holds_mono [OF quiet_errors(2) [OF that]]) simp
  show ?thesis using assms
    by (auto simp: select_transport_def Let_def dest!: core_transports split: prod.split intro!: f)
qed

lemma core_default_port [simp]: "core (set_default_port c) = core c"
  by (simp add: set_default_port_def)

lemma inv_task_init:
  assumes "offline c"
  shows "holds starting (task_init c)"
proof -
  have abort: "holds starting (esp_mqtt_abort_connection c1)" if "client_ok c1" for c1
    by (rule holds_mono [OF inv_abort [OF that] offline_starting])
  have conn: "holds starting (do { (err, c) \<leftarrow> esp_mqtt_connect c1; if err \<noteq> ESP_OK then esp_mqtt_abort_connection c else connected c })"
    if "offline c1" for c1
    unfolding holds_bind
    by (rule holds_mono [OF inv_connect [OF that]]) (auto simp: accepted_def intro!: abort inv_connected offline_ok)
  have go: "holds starting (let (ok, c) = esp_transport_connect c1 in
      if \<not> ok then do { c \<leftarrow> esp_mqtt_client_dispatch_transport_error c; esp_mqtt_abort_connection c }
      else do { (err, c) \<leftarrow> esp_mqtt_connect c; if err \<noteq> ESP_OK then esp_mqtt_abort_connection c else connected c })"
    if c1: "offline c1" for c1
  proof -
    obtain ok c2 where t: "esp_transport_connect c1 = (ok, c2)" by fastforce
    have c2: "offline c2" using c1 offline_core [OF core_transport(1) [OF t]] by simp
    have "holds starting (do { c \<leftarrow> esp_mqtt_client_dispatch_transport_error c2; esp_mqtt_abort_connection c })"
      unfolding holds_bind by (rule holds_mono [OF client_ok_quiet' [OF quiet_errors(1)]]) (auto intro!: abort offline_ok c2)
    then show ?thesis using conn [OF c2] by (simp add: t del: holds_bind)
  qed
  show ?thesis
    unfolding task_init_def holds_bind [of _ "select_transport x" for x]
  proof (rule holds_mono [OF offline_quiet_op [OF quiet_select]], goal_cases)
    case (3 x)
    have "holds starting (do { c \<leftarrow> esp_mqtt_dispatch_event_with_msgid (upd_event (\<lambda>e. e\<lparr>event_id := MQTT_EVENT_BEFORE_CONNECT\<rparr>) (set_default_port c1));
        let (ok, c) = esp_transport_connect c;
        if \<not> ok then do { c \<leftarrow> esp_mqtt_client_dispatch_transport_error c; esp_mqtt_abort_connection c }
        else do { (err, c) \<leftarrow> esp_mqtt_connect c; if err \<noteq> ESP_OK then esp_mqtt_abort_connection c else connected c } })" if "offline c1" for c1
      unfolding holds_bind [of _ "esp_mqtt_dispatch_event_with_msgid x" for x]
      by (rule holds_mono [OF offline_quiet [OF quiet_msgid]]) (use that offline_core [OF core_default_port] go in \<open>auto simp del: holds_bind\<close>)
    then show ?case using 3 by (auto simp: Let_def offline_starting simp del: holds_bind)
  qed (use assms in auto)
qed

lemma inv_disconnect_msg: "core c = k \<Longrightarrow> holds (\<lambda>(r, c'). core c' = k) (send_disconnect_msg c)"
  unfolding send_disconnect_msg_def holds_bind Let_def
  by (rule holds_mono [OF quiet_compose]) (auto simp: upd_disconnect_def intro!: kept_bodyless holds_mono [OF quiet_write])

lemma inv_task_connected [inv]:
  assumes "client_ok c"
  shows "holds client_ok (task_connected c)"
proof -
  have tick: "client_ok (if last_retransmit c = 0 then let (now, c) = platform_tick_get_ms c in c\<lparr>last_retransmit := now\<rparr> else c)"
    if "client_ok c" for c using that by (auto dest!: client_ok_pairs(1) split: prod.split)
  have rest: "holds client_ok (do { c \<leftarrow> (case next_queued c1 of Some i \<Rightarrow> send_queued i c1 | None \<Rightarrow> retransmit c1);
      (err, c) \<leftarrow> process_keepalive c; if err \<noteq> ESP_OK then Some c else refresh_connection c })" if "client_ok c1" for c1
    unfolding holds_bind
    by (rule holds_mono [where P = client_ok])
       (use that in \<open>auto split: option.split intro!: inv_send_queued inv_retransmit holds_mono [OF inv_keepalive] inv_refresh\<close>)
  show ?thesis
    unfolding task_connected_def holds_if Let_def
  proof (intro conjI impI)
    show "holds client_ok (do { (_, c) \<leftarrow> send_disconnect_msg (c\<lparr>disconnect_bit := False\<rparr>); esp_mqtt_abort_connection c })"
      unfolding holds_bind
      by (rule holds_mono [OF client_ok_quiet [OF inv_disconnect_msg]]) (use assms in \<open>auto intro!: inv_abort_ok\<close>)
    show "holds client_ok (do { (err, c) \<leftarrow> mqtt_process_receive c;
        if err = ESP_FAIL then esp_mqtt_abort_connection c
        else do {
          c \<leftarrow> (case next_queued (if last_retransmit c = 0 then case platform_tick_get_ms c of (now, c) \<Rightarrow> c\<lparr>last_retransmit := now\<rparr> else c) of
              Some i \<Rightarrow> send_queued i (if last_retransmit c = 0 then case platform_tick_get_ms c of (now, c) \<Rightarrow> c\<lparr>last_retransmit := now\<rparr> else c)
            | None \<Rightarrow> retransmit (if last_retransmit c = 0 then case platform_tick_get_ms c of (now, c) \<Rightarrow> c\<lparr>last_retransmit := now\<rparr> else c));
          (err, c) \<leftarrow> process_keepalive c;
          if err \<noteq> ESP_OK then Some c else refresh_connection c
        } })"
      unfolding holds_bind [of _ "mqtt_process_receive c"]
      by (rule holds_mono [OF inv_process_receive [OF assms]])
         (auto intro!: inv_abort_ok rest tick [unfolded Let_def] simp del: holds_bind split del: if_split)
  qed
qed

lemma inv_wait [inv]: "client_ok c \<Longrightarrow> client_ok (task_wait_reconnect c)"
  by (auto simp: task_wait_reconnect_def Let_def dest!: client_ok_pairs(1) split: prod.split intro!: client_ok_updates)

lemma inv_task:
  assumes "client_ok c"
  shows "holds client_ok (esp_mqtt_task c)"
proof -
  let ?c = "mqtt_delete_expired_messages c"
  have c: "client_ok ?c" using assms by (rule inv_expired)
  have poll: "holds client_ok (if state c1 = MQTT_STATE_CONNECTED then
       let (ok, c) = esp_transport_poll_read c1 in if ok then Some c else esp_mqtt_abort_connection c else Some c1)"
    if "client_ok c1" for c1
    using that client_ok_core [OF core_transport(2)] by (auto split: prod.split intro!: inv_abort_ok)
  show ?thesis
    unfolding esp_mqtt_task_def Let_def [of ?c] holds_bind
    by (rule holds_mono [where P = client_ok])
       (use c poll in \<open>auto split: mqtt_client_state.split intro!: holds_mono [OF inv_task_init] inv_task_connected inv_wait simp: offline_def starting_ok\<close>)
qed

section \<open>Calls of the application\<close>

lemma client_ok_reset: "client_ok c \<Longrightarrow> client_ok (mqtt_reset_pending_message c)"
  by (simp add: mqtt_reset_pending_message_def client_ok_updates)

lemma client_ok_connection: "client_ok c \<Longrightarrow> kept (connection c) conn \<Longrightarrow> client_ok (c\<lparr>connection := conn\<rparr>)"
  using client_ok_core [OF core_connection] by blast

lemma inv_store_and_write [inv]:
  assumes "client_ok c"
  shows "holds (\<lambda>(r, c'). client_ok c') (store_and_write c)"
  unfolding store_and_write_def holds_bind
  by (rule holdsI) (auto intro!: holds_mono [OF inv_enqueue] holds_mono [OF client_ok_quiet [OF quiet_write]] inv_marks client_ok_updates assms)

lemma client_ok_mqtt5:
  "(\<And>m. server_resp_property_info (f m) = server_resp_property_info m) \<Longrightarrow> client_ok (upd_mqtt5 f c) = client_ok c"
  by (rule client_ok_core) simp

lemma inv_make_publish:
  assumes "client_ok c"
  shows "holds (\<lambda>(r, c'). client_ok c') (make_publish topic data len qos retain c)"
proof -
  have fin: "client_ok (if is_v5 c1 \<and> has_message c1 then upd_mqtt5 (\<lambda>m. m\<lparr>publish_property_info := None\<rparr>) c1 else c1)"
    if "client_ok c1" for c1 using that by (simp add: client_ok_mqtt5)
  show ?thesis
    unfolding make_publish_def holds_bind
  proof (rule holds_mono [where P = "\<lambda>(conn, i, c). client_ok c \<and> kept (connection c) conn"], goal_cases)
    case 1
    have al: "client_ok c1" if "client_calloc c = (ok, c1)" for ok c1 using client_ok_pairs(2) [OF that] assms by simp
    show ?case using assms
      by (auto split: prod.split dest!: al intro!: holds_mono [OF kept_publish(1) [OF kept_refl]]
          holds_mono [OF kept_publish(2) [OF kept_refl]] holdsI [of "case sr_response_info x of Null_Str \<Rightarrow> a | Str s \<Rightarrow> b s | Freed \<Rightarrow> d" for x a b d])
  next
    case (2 x)
    then obtain conn i c1 where x: "x = (conn, i, c1)" "client_ok (c1\<lparr>connection := conn\<rparr>)"
      using client_ok_connection by (cases x) auto
    then show ?case using fin [OF x(2)] by (simp add: Let_def split del: if_split)
  qed
qed

lemma inv_enqueue_publish:
  assumes "client_ok c" "0 \<le> qos"
  shows "holds (\<lambda>(r, c'). client_ok c') (mqtt_client_enqueue_publish topic data len qos retain store_flag c)"
proof -
  have q: "holds (\<lambda>(r, c'). client_ok c') (mqtt_enqueue rd n (c1\<lparr>pending_msg_type := ty, pending_msg_id := i, pending_publish_qos := qos\<rparr>))"
    if "client_ok c1" for c1 rd n ty i
    using that assms(2) by (intro inv_enqueue client_ok_updates) (simp_all add: client_ok_updates)
  show ?thesis
    unfolding mqtt_client_enqueue_publish_def holds_bind Let_def
    by (rule holds_mono [OF inv_make_publish [OF assms(1)]])
       (auto intro!: holdsI [of "mqtt_get_type b" for b] holdsI [of "payload_at b n" for b n] holds_mono [OF q])
qed

lemma send_loop_keeps:
  assumes "client_ok c"
  shows "holds (\<lambda>(ok, c'). client_ok c' \<and> (ok \<longrightarrow> core c' = core c) \<and> (\<not> ok \<longrightarrow> offline c')) (send_loop data cur n c)"
proof (rule holdsI, clarify)
  fix ok c' assume run: "send_loop data cur n c = Some (ok, c')"
  let ?P = "\<lambda>c rc. client_ok c \<longrightarrow> client_ok (snd rc) \<and> (fst rc \<longrightarrow> core (snd rc) = core c) \<and> (\<not> fst rc \<longrightarrow> offline (snd rc))"
  have "?P c (ok, c')"
  proof (rule send_loop.raw_induct [where P = "\<lambda>d n m. ?P"], goal_cases)
    case (1 f d cur n c rc)
    show ?case
    proof (rule impI)
      assume c: "client_ok c"
      obtain err c1 where w: "esp_mqtt_write c = Some (err, c1)" using 1(2) by (auto simp: bind_eq_Some_conv)
      have k1: "core c1 = core c" using holdsD [OF quiet_write [OF refl] w] by simp
      then have c1: "client_ok c1" using c client_ok_core by blast
      let ?c2 = "upd_outbound (\<lambda>m. m\<lparr>fragmented_msg_data_offset := 0, fragmented_msg_total_length := 0\<rparr>) c1"
      show "client_ok (snd rc) \<and> (fst rc \<longrightarrow> core (snd rc) = core c) \<and> (\<not> fst rc \<longrightarrow> offline (snd rc))"
      proof (cases "err = ESP_OK")
        case False
        then obtain c2 where "esp_mqtt_abort_connection c1 = Some c2" "rc = (False, c2)"
          using 1(2) w by (auto simp: bind_eq_Some_conv)
        then show ?thesis using holdsD [OF inv_abort [OF c1]] by (simp add: offline_ok)
      next
        case True
        then consider "rc = (True, ?c2)" | bs b x y u where "store (buffer (connection ?c2)) 0 bs = Some b"
          "f d x y (upd_outbound u (?c2\<lparr>connection := (connection ?c2)\<lparr>buffer := b\<rparr>\<rparr>)) = Some rc"
          using 1(2) w by (auto simp: Let_def bind_eq_Some_conv split: if_splits)
        then show ?thesis
        proof cases
          case 2
          have "core (?c2\<lparr>connection := (connection ?c2)\<lparr>buffer := b\<rparr>\<rparr>) = core ?c2"
            using store_length [OF 2(1)] by (intro core_connection) (simp add: kept_def)
          then have k3: "core (upd_outbound u (?c2\<lparr>connection := (connection ?c2)\<lparr>buffer := b\<rparr>\<rparr>)) = core c" using k1 by simp
          then show ?thesis using 1(1) [OF 2(2)] c client_ok_core [OF k3] by auto
        qed (use k1 c1 in auto)
      qed
    qed
  qed (rule run)
  then show "client_ok c' \<and> (ok \<longrightarrow> core c' = core c) \<and> (\<not> ok \<longrightarrow> offline c')" using assms by simp
qed

text \<open>An operation behind the check of its handle.\<close>

definition inv_call :: "('a \<times> esp_mqtt_client option) option \<Rightarrow> bool" where
  "inv_call m \<longleftrightarrow> holds (\<lambda>(r, h). \<forall>c. h = Some c \<longrightarrow> client_ok c) m"

lemma inv_with_client: "holds (\<lambda>(r, c'). client_ok c') (f c) \<Longrightarrow> inv_call (with_client err f (Some c))"
  unfolding inv_call_def with_client_def by (auto simp: holds_def bind_eq_Some_conv)

lemma inv_publish:
  assumes "client_ok c" "0 \<le> qos"
  shows "inv_call (esp_mqtt_client_publish topic data len qos retain (Some c))"
proof -
  have mark: "client_ok (set_pending i TRANSMITTED (set_tick i (if is_v5 c2 then esp_mqtt5_increment_packet_counter c2 else c2)))"
    if "client_ok c2" "is_v5 c2 \<longrightarrow> may_send c2" for c2 i
    using that by (auto intro!: inv_marks inv_increment)
  have send: "holds (\<lambda>(r, c'). client_ok c') (do { (ok, c) \<leftarrow> send_loop data 0 n c1;
       if \<not> ok then cannot_publish (-1) c
       else if 0 < (q :: int) then do {
         let c = (if is_v5 c then esp_mqtt5_increment_packet_counter c else c);
         Some (i, set_pending i TRANSMITTED (set_tick i c)) } else Some (i, c) })"
    if "client_ok c1" "q > 0 \<and> is_v5 c1 \<longrightarrow> may_send c1" for c1 n i q
    unfolding holds_bind
  proof (rule holds_mono [OF send_loop_keeps [OF that(1)]], clarify)
    fix ok c2 assume c2: "client_ok c2" "ok \<longrightarrow> core c2 = core c1"
    have "is_v5 c2 \<longrightarrow> may_send c2" if "ok" "q > 0"
      using \<open>q > 0 \<and> is_v5 c1 \<longrightarrow> may_send c1\<close> c2(2) that may_send_flow [OF flow_core, of c2 c1] by (auto simp: core_def)
    then show "holds (\<lambda>(r, c'). client_ok c') (if \<not> ok then cannot_publish (- 1) c2
        else if 0 < q then let c = if is_v5 c2 then esp_mqtt5_increment_packet_counter c2 else c2
          in Some (i, set_pending i TRANSMITTED (set_tick i c)) else Some (i, c2))"
      using c2 mark [of c2 i] by (auto simp: cannot_publish_def Let_def)
  qed
  show ?thesis
    unfolding esp_mqtt_client_publish_def
    by (rule inv_with_client)
       (use assms in \<open>auto simp: cannot_publish_def check_inflight intro!: holds_bindI [of "\<lambda>_. True" "payload_length d n" for d n]
          holds_bindI [OF inv_enqueue_publish] send simp del: holds_bind\<close>)
qed

lemma inv_enqueue_call:
  assumes "client_ok c" "0 \<le> qos"
  shows "inv_call (esp_mqtt_client_enqueue topic data len qos retain store_flag (Some c))"
  unfolding esp_mqtt_client_enqueue_def
  by (rule inv_with_client)
     (use assms in \<open>auto intro!: holds_bindI [of "\<lambda>_. True" "payload_length d n" for d n] holds_bindI [OF inv_enqueue_publish] simp del: holds_bind\<close>)

lemma inv_composed:
  assumes "client_ok c"
  shows "holds (\<lambda>(r, c'). client_ok c') (if \<not> has_message c then Some (-1, c) else store_and_write c)"
  using assms inv_store_and_write by simp

lemma inv_subscribe:
  assumes "client_ok c"
  shows "inv_call (esp_mqtt_client_subscribe_multiple topics (Some c))"
proof -
  let ?c = "mqtt_reset_pending_message c"
  have r: "client_ok ?c" using assms by (rule client_ok_reset)
  have v5: "holds (\<lambda>(r, c'). client_ok c') (do {
      (conn, i) \<leftarrow> mqtt5_msg_subscribe (allocs ?c) (connection ?c) topics (subscribe_property_info (mqtt5_config ?c));
      let c = ?c\<lparr>connection := conn, pending_msg_id := i, allocs := drop (length topics) (allocs ?c)\<rparr>;
      let c = (if has_message c then upd_mqtt5 (\<lambda>m. m\<lparr>subscribe_property_info := None\<rparr>) c else c);
      if \<not> has_message c then Some (-1, c) else store_and_write c })"
    unfolding Let_def
    by (rule holds_bindI [OF kept_subscribe(2) [OF kept_refl]], clarify, rule inv_composed) (simp add: client_ok_mqtt5 client_ok_connection r)
  have v3: "holds (\<lambda>(r, c'). client_ok c') (do { (conn, i) \<leftarrow> mqtt_msg_subscribe (connection ?c) topics;
      let c = ?c\<lparr>connection := conn, pending_msg_id := i\<rparr>;
      if \<not> has_message c then Some (-1, c) else store_and_write c })"
    unfolding Let_def
    by (rule holds_bindI [OF kept_subscribe(1) [OF kept_refl]], clarify, rule inv_composed) (simp add: client_ok_connection r)
  show ?thesis
    unfolding esp_mqtt_client_subscribe_multiple_def
    by (rule inv_with_client) (use assms r v5 v3 in \<open>simp add: Let_def [of ?c] del: holds_bind\<close>)
qed

lemma inv_unsubscribe:
  assumes "client_ok c"
  shows "inv_call (esp_mqtt_client_unsubscribe topic (Some c))"
proof -
  let ?c = "mqtt_reset_pending_message c"
  have r: "client_ok ?c" using assms by (rule client_ok_reset)
  have al: "client_ok c1" if "client_calloc ?c = (ok, c1)" for ok c1 using client_ok_pairs(2) [OF that] r by simp
  have build: "holds (\<lambda>(conn, i, c). client_ok c \<and> kept (connection c) conn)
    (if is_v5 ?c then do { let (ok, c) = client_calloc ?c;
        (conn, i) \<leftarrow> mqtt5_msg_unsubscribe (connection c) topic (pending_msg_id c) (unsubscribe_property_info (mqtt5_config c)) ok;
        Some (conn, i, c) }
     else do { (conn, i) \<leftarrow> mqtt_msg_unsubscribe (connection ?c) topic (pending_msg_id ?c); Some (conn, i, ?c) })"
    using r by (auto split: prod.split dest!: al intro!: holds_mono [OF kept_subscribe(3) [OF kept_refl]] holds_mono [OF kept_subscribe(4) [OF kept_refl]])
  have fin: "holds (\<lambda>(r, c'). client_ok c') (let c = c1\<lparr>connection := conn, pending_msg_id := i\<rparr>;
       c = (if is_v5 c \<and> has_message c then upd_mqtt5 (\<lambda>m. m\<lparr>unsubscribe_property_info := None\<rparr>) c else c)
       in if \<not> has_message c then Some (-1, c) else store_and_write c)" if "client_ok c1" "kept (connection c1) conn" for c1 conn i
    unfolding Let_def using client_ok_connection [OF that] by (intro inv_composed) (simp add: client_ok_mqtt5)
  have "holds (\<lambda>(r, c'). client_ok c') (do { (conn, i, c) \<leftarrow> (if is_v5 ?c then do { let (ok, c) = client_calloc ?c;
        (conn, i) \<leftarrow> mqtt5_msg_unsubscribe (connection c) topic (pending_msg_id c) (unsubscribe_property_info (mqtt5_config c)) ok;
        Some (conn, i, c) }
     else do { (conn, i) \<leftarrow> mqtt_msg_unsubscribe (connection ?c) topic (pending_msg_id ?c); Some (conn, i, ?c) });
     let c = c\<lparr>connection := conn, pending_msg_id := i\<rparr>;
     let c = (if is_v5 c \<and> has_message c then upd_mqtt5 (\<lambda>m. m\<lparr>unsubscribe_property_info := None\<rparr>) c else c);
     if \<not> has_message c then Some (-1, c) else store_and_write c })"
    by (rule holds_bindI [OF build]) (use fin in auto)
  then show ?thesis
    unfolding esp_mqtt_client_unsubscribe_def Let_def
    by (intro inv_with_client) (use assms in \<open>simp add: Let_def del: holds_bind\<close>)
qed

lemma inv_start_stop:
  assumes "client_ok c"
  shows "inv_call (esp_mqtt_client_start (Some c))" "inv_call (esp_mqtt_client_disconnect (Some c))"
    "inv_call (esp_mqtt_client_reconnect (Some c))" "inv_call (esp_mqtt_client_stop t (Some c))"
    "client_ok (esp_mqtt_client_stop_join c)" "client_ok (esp_mqtt_task_end c)"
proof -
  have al: "client_ok c2" if "client_calloc (c\<lparr>run := True, state := MQTT_STATE_INIT, stopped_bit := False\<rparr>) = (ok, c2)" for ok c2
    using client_ok_pairs(2) [OF that] assms client_ok_core [of "c\<lparr>run := True, state := MQTT_STATE_INIT, stopped_bit := False\<rparr>" "c\<lparr>state := MQTT_STATE_INIT\<rparr>"]
    by (simp add: client_ok_updates core_def)
  show "inv_call (esp_mqtt_client_start (Some c))"
    unfolding esp_mqtt_client_start_def
    by (rule inv_with_client) (use assms al in \<open>auto simp: Let_def split: prod.split intro!: client_ok_updates\<close>)
  show "inv_call (esp_mqtt_client_disconnect (Some c))" "inv_call (esp_mqtt_client_reconnect (Some c))"
    unfolding esp_mqtt_client_disconnect_def esp_mqtt_client_reconnect_def by (rule inv_with_client, use assms in simp)+
  show "inv_call (esp_mqtt_client_stop t (Some c))"
    unfolding esp_mqtt_client_stop_def
    by (rule inv_with_client) (use assms in \<open>auto intro!: holds_mono [OF client_ok_quiet [OF inv_disconnect_msg]] client_ok_updates\<close>)
  show "client_ok (esp_mqtt_client_stop_join c)" using assms by (simp add: esp_mqtt_client_stop_join_def)
  show "client_ok (esp_mqtt_task_end c)"
    using assms by (simp add: esp_mqtt_task_end_def client_ok_updates stored_ok_deletions client_ok_stored)
qed

lemma inv_properties:
  assumes "client_ok c"
  shows "inv_call (esp_mqtt5_client_set_publish_property pp (Some c))" "inv_call (esp_mqtt5_client_set_subscribe_property sp (Some c))"
    "inv_call (esp_mqtt5_client_set_unsubscribe_property up (Some c))" "inv_call (esp_mqtt5_client_set_disconnect_property dp (Some c))"
proof -
  have d: "client_ok (upd_disconnect f c) = client_ok c" for f c by (simp add: upd_disconnect_def client_ok_mqtt5)
  show "inv_call (esp_mqtt5_client_set_publish_property pp (Some c))" "inv_call (esp_mqtt5_client_set_subscribe_property sp (Some c))"
    "inv_call (esp_mqtt5_client_set_unsubscribe_property up (Some c))"
    unfolding esp_mqtt5_client_set_publish_property_def esp_mqtt5_client_set_subscribe_property_def esp_mqtt5_client_set_unsubscribe_property_def
    by (rule inv_with_client, use assms in \<open>simp add: client_ok_mqtt5\<close>)+
  show "inv_call (esp_mqtt5_client_set_disconnect_property dp (Some c))"
    unfolding esp_mqtt5_client_set_disconnect_property_def
    by (rule inv_with_client) (use assms in \<open>auto simp: Let_def d dest!: client_ok_pairs(2) split: option.split prod.split\<close>)
qed

section \<open>Reachable clients\<close>

text \<open>
  Every operation as a step: iterations of the task while it runs, its end, the calls of the
  application, and the answers that the network, the clock and the allocator are going to give.
  Messages have a quality of service of 0 or more, as the interface asks.
\<close>

inductive client_step :: "esp_mqtt_client \<Rightarrow> esp_mqtt_client \<Rightarrow> bool" where
  task: "task_handle c \<Longrightarrow> run c \<Longrightarrow> esp_mqtt_task c = Some c' \<Longrightarrow> client_step c c'"
| task_end: "task_handle c \<Longrightarrow> \<not> run c \<Longrightarrow> client_step c (esp_mqtt_task_end c)"
| start: "esp_mqtt_client_start (Some c) = Some (r, Some c') \<Longrightarrow> client_step c c'"
| stop: "esp_mqtt_client_stop from_task (Some c) = Some (e, Some c') \<Longrightarrow> client_step c c'"
| stop_join: "stopping c \<Longrightarrow> stopped_bit c \<Longrightarrow> client_step c (esp_mqtt_client_stop_join c)"
| disconnect: "esp_mqtt_client_disconnect (Some c) = Some (r, Some c') \<Longrightarrow> client_step c c'"
| reconnect: "esp_mqtt_client_reconnect (Some c) = Some (r, Some c') \<Longrightarrow> client_step c c'"
| subscribe: "esp_mqtt_client_subscribe_multiple topics (Some c) = Some (i, Some c') \<Longrightarrow> client_step c c'"
| unsubscribe: "esp_mqtt_client_unsubscribe topic (Some c) = Some (i, Some c') \<Longrightarrow> client_step c c'"
| publish: "0 \<le> qos \<Longrightarrow> esp_mqtt_client_publish topic data len qos retain (Some c) = Some (i, Some c') \<Longrightarrow> client_step c c'"
| enqueue: "0 \<le> qos \<Longrightarrow> esp_mqtt_client_enqueue topic data len qos retain store_flag (Some c) = Some (i, Some c') \<Longrightarrow> client_step c c'"
| publish_property: "esp_mqtt5_client_set_publish_property pp (Some c) = Some (r, Some c') \<Longrightarrow> client_step c c'"
| subscribe_property: "esp_mqtt5_client_set_subscribe_property sp (Some c) = Some (r, Some c') \<Longrightarrow> client_step c c'"
| unsubscribe_property: "esp_mqtt5_client_set_unsubscribe_property up (Some c) = Some (r, Some c') \<Longrightarrow> client_step c c'"
| disconnect_property: "esp_mqtt5_client_set_disconnect_property dp (Some c) = Some (r, Some c') \<Longrightarrow> client_step c c'"
| world: "client_step c (c\<lparr>wire := w, rx_plan := rx, tx_plan := tx, poll_plan := po, connect_plan := co, error_plan := er,
     clock := t, delays := ds, allocs := h\<rparr>)"

text \<open>A client as \<^verbatim>\<open>esp_mqtt_client_init\<close> leaves it.\<close>

definition client_new :: "esp_mqtt_client \<Rightarrow> bool" where
  "client_new c \<longleftrightarrow> length (in_buffer c) = in_buffer_length c \<and> 9 \<le> in_buffer_length c \<and> in_buffer_read_len c = 0 \<and>
     length (buffer (connection c)) = buffer_length (connection c) \<and> outbox c = \<lparr>ob_size = 0, ob_list = []\<rparr> \<and>
     pending_publish_qos c = 0 \<and> state c = MQTT_STATE_INIT"

inductive client_reachable :: "esp_mqtt_client \<Rightarrow> bool" where
  new: "client_new c \<Longrightarrow> client_reachable c"
| step: "client_reachable c \<Longrightarrow> client_step c c' \<Longrightarrow> client_reachable c'"

lemma inv_callD: "inv_call m \<Longrightarrow> m = Some (r, Some c') \<Longrightarrow> client_ok c'"
  by (auto simp: inv_call_def holds_def)

lemma client_step_ok:
  assumes "client_step c c'" "client_ok c"
  shows "client_ok c'"
  using assms
proof cases
  case task
  then show ?thesis using inv_task [OF assms(2)] by (simp add: holds_def)
qed (use assms(2) in \<open>auto dest!: inv_callD [rotated] intro: inv_start_stop inv_subscribe inv_unsubscribe inv_publish inv_enqueue_call inv_properties\<close>)

lemma client_new_ok: "client_new c \<Longrightarrow> client_ok c"
  by (simp add: client_new_def client_ok_def recv_ok_def stored_ok_def keys_def outbox_ok_def)

lemma client_reachable_ok: "client_reachable c \<Longrightarrow> client_ok c"
  by (induction rule: client_reachable.induct) (auto intro: client_new_ok client_step_ok)

end
