(* ===== verification/Mqtt_Client_Flow.thy ===== *)
theory Mqtt_Client_Flow
  imports Mqtt_Client_Inv "HOL-Library.Sublist"
begin

text \<open>
  Flow control of MQTT 5 seen from the outbox: how many publishes of quality 1 and 2 have been sent
  and are not yet acknowledged, and that the counter of the client bounds them.
\<close>

section \<open>Messages in flight\<close>

definition acknowledged_kind :: "outbox_item \<Rightarrow> bool" where
  "acknowledged_kind i \<longleftrightarrow> item_msg_type i = MQTT_MSG_TYPE_PUBLISH \<and> item_msg_qos i > 0"

definition flying :: "outbox_item \<Rightarrow> bool" where
  "flying i \<longleftrightarrow> acknowledged_kind i \<and> item_pending i \<noteq> QUEUED"

text \<open>The publishes of quality 1 and 2 that were sent and whose exchange is not complete.\<close>

definition in_flight :: "esp_mqtt_client \<Rightarrow> nat" where
  "in_flight c = length (filter flying (ob_list (outbox c)))"

text \<open>No stored message has the identifier of a stored publish of quality 1 or 2.\<close>

definition own_ids :: "esp_mqtt_client \<Rightarrow> bool" where
  "own_ids c \<longleftrightarrow> (\<forall>i \<in> set (ob_list (outbox c)). acknowledged_kind i \<longrightarrow>
     count_list (map item_msg_id (ob_list (outbox c))) (item_msg_id i) = 1)"

text \<open>The identifier of the PUBACK, PUBREC or PUBCOMP that the client is about to receive, if it is one.\<close>

definition acknowledgement :: "esp_mqtt_client \<Rightarrow> nat option" where
  "acknowledgement c = do {
     (r, c) \<leftarrow> mqtt_message_receive c;
     ty \<leftarrow> mqtt_get_type (in_buffer c);
     if r > 0 \<and> ty \<in> {MQTT_MSG_TYPE_PUBACK, MQTT_MSG_TYPE_PUBREC, MQTT_MSG_TYPE_PUBCOMP}
     then message_id_of c (message_length c) else None
   }"

text \<open>Every publish that is stored under an identifier is one of quality 1 or 2 that was sent.\<close>

definition sent_as :: "nat \<Rightarrow> esp_mqtt_client \<Rightarrow> bool" where
  "sent_as n c \<longleftrightarrow> (\<forall>i \<in> set (ob_list (outbox c)).
     item_msg_id i = int n \<and> 0xff AND item_msg_type i = MQTT_MSG_TYPE_PUBLISH \<longrightarrow> flying i)"

text \<open>The broker acknowledges only what was sent to it.\<close>

definition solicited :: "esp_mqtt_client \<Rightarrow> bool" where
  "solicited c \<longleftrightarrow> (case acknowledgement (mqtt_delete_expired_messages c) of None \<Rightarrow> True | Some n \<Rightarrow> sent_as n c)"

text \<open>
  A connection and the clients it leads to, while it lasts: it begins with an iteration of the task
  that leaves the client connected.
\<close>

inductive connection_run :: "esp_mqtt_client \<Rightarrow> esp_mqtt_client \<Rightarrow> bool" where
  begins: "client_reachable c \<Longrightarrow> state c \<noteq> MQTT_STATE_CONNECTED \<Longrightarrow> esp_mqtt_task c = Some d \<Longrightarrow>
     state d = MQTT_STATE_CONNECTED \<Longrightarrow> is_v5 d \<Longrightarrow> connection_run d d"
| goes_on: "connection_run d c \<Longrightarrow> client_step c c' \<Longrightarrow> own_ids c \<Longrightarrow> own_ids c' \<Longrightarrow> solicited c \<Longrightarrow>
     state c' = MQTT_STATE_CONNECTED \<Longrightarrow> connection_run d c'"

subsection \<open>Counting stored messages\<close>

definition skeleton :: "outbox \<Rightarrow> ((int \<times> int \<times> int) \<times> pending_state) list" where
  "skeleton ob = map (\<lambda>i. (item_key i, item_pending i)) (ob_list ob)"

definition lighter :: "outbox \<Rightarrow> outbox \<Rightarrow> bool" where
  "lighter ob' ob \<longleftrightarrow> subseq (skeleton ob') (skeleton ob)"

lemma in_flight_skeleton:
  "in_flight c = length (filter (\<lambda>((ty, q, n), p). ty = 3 \<and> q > 0 \<and> p \<noteq> QUEUED) (skeleton (outbox c)))"
  by (simp add: in_flight_def skeleton_def filter_map comp_def item_key_def flying_def [abs_def] acknowledged_kind_def conj_assoc)

definition own_keys :: "(int \<times> int \<times> int) list \<Rightarrow> bool" where
  "own_keys ks \<longleftrightarrow> (\<forall>(ty, q, n) \<in> set ks. ty = 3 \<and> q > 0 \<longrightarrow> count_list (map (snd \<circ> snd) ks) n = 1)"

lemma own_ids_keys: "own_ids c \<longleftrightarrow> own_keys (keys (outbox c))"
  by (simp add: own_ids_def own_keys_def keys_def item_key_def acknowledged_kind_def comp_def)

lemma keys_skeleton: "keys ob = map fst (skeleton ob)"
  by (simp add: keys_def skeleton_def)

lemma count_list_subseq: "subseq xs ys \<Longrightarrow> count_list xs x \<le> count_list ys x"
  by (induction rule: list_emb.induct) auto

lemma own_keys_subseq:
  assumes "subseq ks ks'" "own_keys ks'"
  shows "own_keys ks"
  unfolding own_keys_def
proof (clarify)
  fix ty q n assume k: "(3, q, n) \<in> set ks" "(0 :: int) < q"
  then have "(3, q, n) \<in> set ks'" using assms(1) by (auto dest: subseq_order.trans simp: subseq_singleton_left [symmetric] simp del: subseq_singleton_left)
  then have "count_list (map (snd \<circ> snd) ks') n = 1" using assms(2) k(2) by (auto simp: own_keys_def)
  moreover have "count_list (map (snd \<circ> snd) ks) n \<le> count_list (map (snd \<circ> snd) ks') n"
    by (rule count_list_subseq [OF subseq_map [OF assms(1)]])
  moreover have "count_list (map (snd \<circ> snd) ks) n \<noteq> 0" using k(1) image_eqI [of n "snd \<circ> snd" "(3, q, n)" "set ks"] by (simp add: count_list_0_iff)
  ultimately show "count_list (map (snd \<circ> snd) ks) n = 1" by simp
qed

lemma lighter_flow:
  assumes "lighter ob (outbox c)"
  shows "in_flight (c\<lparr>outbox := ob\<rparr>) \<le> in_flight c" "own_ids c \<Longrightarrow> own_ids (c\<lparr>outbox := ob\<rparr>)"
proof -
  have l: "subseq (skeleton ob) (skeleton (outbox c))" using assms by (simp add: lighter_def)
  show "in_flight (c\<lparr>outbox := ob\<rparr>) \<le> in_flight c"
    unfolding in_flight_skeleton using list_emb_length [OF subseq_filter [OF l]] by simp
  show "own_ids (c\<lparr>outbox := ob\<rparr>)" if "own_ids c"
    using own_keys_subseq [OF subseq_map [OF l, of fst]] that by (simp add: own_ids_keys keys_skeleton)
qed

lemma lighter_deletions:
  assumes "outbox_ok ob"
  shows "lighter (snd (delete_first P ob)) ob" "lighter (snd (delete_loop P (ob_list ob) 0 ob)) ob"
proof -
  have "subseq (ys @ zs) (ys @ i # zs)" for ys zs and i :: outbox_item by (rule list_emb_append_mono) auto
  then show "lighter (snd (delete_first P ob)) ob"
    using delete_first_split [OF assms, of P] by (auto simp: lighter_def skeleton_def split: option.splits intro: subseq_map)
  show "lighter (snd (delete_loop P (ob_list ob) 0 ob)) ob"
    using delete_loop_all(2) [OF assms, of P] by (simp add: lighter_def skeleton_def subseq_map)
qed

lemma flying_update:
  "length (filter flying (update_first n f xs)) \<le> Suc (length (filter flying xs))"
  "\<forall>i \<in> set xs. item_msg_id i = n \<longrightarrow> flying (f i) = flying i \<Longrightarrow>
    length (filter flying (update_first n f xs)) = length (filter flying xs)"
  by (induction xs) auto

lemma flying_delete:
  assumes "outbox_ok ob" "fst (delete_first P ob) = ESP_OK" "\<forall>i \<in> set (ob_list ob). P i \<longrightarrow> flying i"
  shows "Suc (length (filter flying (ob_list (snd (delete_first P ob))))) = length (filter flying (ob_list ob))"
  using delete_first_split [OF assms(1), of P] assms(2,3) by (auto split: option.splits)

text \<open>Marking a message as sent.\<close>

lemma set_pending_keys: "keys (snd (outbox_set_pending ob n p)) = keys ob"
  by (simp add: outbox_set_pending_def keys_def update_first_map item_key_def split: option.split)

lemma set_pending_flight:
  "in_flight (set_pending n p c) \<le> Suc (in_flight c)"
  "\<forall>i \<in> set (ob_list (outbox c)). item_msg_id i = n \<longrightarrow> flying (i\<lparr>item_pending := p\<rparr>) = flying i \<Longrightarrow>
     in_flight (set_pending n p c) = in_flight c"
  by (auto simp: set_pending_def outbox_set_pending_def in_flight_def flying_update split: option.split)

lemma set_pending_other:
  assumes "\<forall>i \<in> set (ob_list (outbox c)). item_msg_id i = n \<longrightarrow> \<not> acknowledged_kind i"
  shows "in_flight (set_pending n p c) = in_flight c"
  by (rule set_pending_flight(2)) (use assms in \<open>auto simp: flying_def acknowledged_kind_def\<close>)

text \<open>The identifier of a message of another kind belongs to no publish of quality 1 or 2.\<close>

lemma own_ids_other:
  assumes "own_ids c" "i \<in> set (ob_list (outbox c))" "\<not> acknowledged_kind i"
  shows "\<forall>j \<in> set (ob_list (outbox c)). item_msg_id j = item_msg_id i \<longrightarrow> \<not> acknowledged_kind j"
proof (intro ballI impI notI)
  fix j assume j: "j \<in> set (ob_list (outbox c))" "item_msg_id j = item_msg_id i" "acknowledged_kind j"
  let ?xs = "ob_list (outbox c)"
  have one: "count_list (map item_msg_id ?xs) (item_msg_id j) = 1" using assms(1) j by (auto simp: own_ids_def)
  obtain ys zs where s: "?xs = ys @ i # zs" using assms(2) split_list by metis
  have "j \<in> set (ys @ zs)" using j(1,3) assms(3) s by auto
  then have "item_msg_id j \<in> set (map item_msg_id (ys @ zs))" by (metis imageI set_map)
  then have "count_list (map item_msg_id (ys @ zs)) (item_msg_id j) \<noteq> 0" by (metis count_list_0_iff)
  then show False using one s j(2) by simp
qed

section \<open>The bound\<close>

text \<open>At most \<open>k\<close> messages in flight are not covered by the counter.\<close>

definition flow_ok :: "nat \<Rightarrow> esp_mqtt_client \<Rightarrow> bool" where
  "flow_ok k c \<longleftrightarrow> client_ok c \<and> (state c = MQTT_STATE_CONNECTED \<longrightarrow>
     is_v5 c \<and> in_flight c \<le> unat (send_publish_packet_count c) + k)"

definition tracked :: "nat \<Rightarrow> esp_mqtt_client \<Rightarrow> bool" where
  "tracked k c \<longleftrightarrow> flow_ok k c \<and> own_ids c"

lemma flow_ok_core: "core c' = core c \<Longrightarrow> flow_ok k c' = flow_ok k c"
  using client_ok_core [of c' c] by (simp add: flow_ok_def core_def in_flight_def)

lemma tracked_core: "core c' = core c \<Longrightarrow> tracked k c' = tracked k c"
  using flow_ok_core [of c' c k] by (simp add: tracked_def core_def own_ids_def)

lemmas flow_ok_simps [simp] = core_updates [THEN flow_ok_core] core_dispatch [THEN flow_ok_core]
lemmas tracked_simps [simp] = core_updates [THEN tracked_core] core_dispatch [THEN tracked_core]

lemma tracked_quiet: "(\<And>k. core c = k \<Longrightarrow> holds (\<lambda>(r, c'). core c' = k) m) \<Longrightarrow> tracked k c \<Longrightarrow> holds (\<lambda>(r, c'). tracked k c') m"
  unfolding holds_def using tracked_core by fast

lemma tracked_quiet': "(\<And>k. core c = k \<Longrightarrow> holds (\<lambda>c'. core c' = k) m) \<Longrightarrow> tracked k c \<Longrightarrow> holds (tracked k) m"
  unfolding holds_def using tracked_core by fast

lemma tracked_pairs:
  "platform_tick_get_ms c = (t, c') \<Longrightarrow> tracked k c' = tracked k c" "has_timed_out t n c = (ok, c') \<Longrightarrow> tracked k c' = tracked k c"
  "esp_transport_poll_read c = (ok, c') \<Longrightarrow> tracked k c' = tracked k c"
  by (rule tracked_core, erule core_pairs)+

lemma tracked_stored: "tracked k c \<Longrightarrow> stored_ok (outbox c)" "tracked k c \<Longrightarrow> outbox_ok (outbox c)" "tracked k c \<Longrightarrow> client_ok c"
  by (auto simp: tracked_def flow_ok_def client_ok_def stored_ok_def)

lemma flow_ok_lighter:
  assumes "flow_ok k c" "stored_ok ob" "lighter ob (outbox c)"
  shows "flow_ok k (c\<lparr>outbox := ob\<rparr>)"
  using assms lighter_flow [OF assms(3)] by (auto simp: flow_ok_def client_ok_updates)

lemma tracked_lighter: "tracked k c \<Longrightarrow> stored_ok ob \<Longrightarrow> lighter ob (outbox c) \<Longrightarrow> tracked k (c\<lparr>outbox := ob\<rparr>)"
  using flow_ok_lighter lighter_flow(2) by (simp add: tracked_def)

lemma tracked_pending:
  "tracked k c \<Longrightarrow> tracked k (c\<lparr>in_buffer_read_len := 0\<rparr>)"
  by (simp add: tracked_def flow_ok_def client_ok_updates own_ids_def in_flight_def)

lemma lighter_refl [simp]: "lighter ob ob" "skeleton ob' = skeleton ob \<Longrightarrow> lighter ob' ob"
  by (simp_all add: lighter_def)

lemma set_tick_skeleton: "skeleton (snd (outbox_set_tick ob n t)) = skeleton ob"
  by (simp add: outbox_set_tick_def skeleton_def update_first_map item_key_def split: option.split)

lemma item_set_dup_skeleton: "item_set_dup i ob = Some (b, ob') \<Longrightarrow> skeleton ob' = skeleton ob"
  by (auto simp: item_set_dup_def skeleton_def bind_eq_Some_conv update_addr_map item_key_def)

text \<open>A connection that has ended bounds nothing.\<close>

lemma offline_flow: "offline c \<Longrightarrow> flow_ok k c"
  by (simp add: offline_def flow_ok_def)

lemma abort_tracked:
  assumes "tracked k c"
  shows "holds (tracked k) (esp_mqtt_abort_connection c)"
proof -
  let ?ob = "outbox_delete_message_type"
  let ?c = "if clean_session (conn_info c) then c\<lparr>outbox := snd (?ob (snd (?ob (outbox c) 8)) 10)\<rparr> else c"
  note ok = tracked_stored [OF assms]
  have "tracked k (c1\<lparr>outbox := snd (?ob (outbox c1) ty)\<rparr>)" if "tracked k c1" for c1 ty
    using that tracked_stored [OF that]
    by (intro tracked_lighter) (simp_all add: stored_ok_deletions, simp add: outbox_delete_message_type_def lighter_deletions)
  from this [OF this [OF assms, of 8], of 10] have c1: "tracked k ?c" using assms by simp
  obtain t c2 where t: "platform_tick_get_ms (?c\<lparr>wait_timeout_ms := cs_reconnect_timeout_ms (config ?c)\<rparr>) = (t, c2)" by fastforce
  have "tracked k c2" using c1 tracked_pairs(1) [OF t] by (simp split del: if_split)
  then have "tracked k (c2\<lparr>reconnect_tick := t, state := MQTT_STATE_WAIT_RECONNECT\<rparr>)"
    by (simp add: tracked_def flow_ok_def client_ok_updates own_ids_def)
  then show ?thesis
    unfolding esp_mqtt_abort_connection_def Let_def t [unfolded Let_def] prod.case
    by (intro tracked_quiet' [OF quiet_msgid]) simp_all
qed

section \<open>Processing\<close>

lemma sent_as_core: "core c' = core c \<Longrightarrow> sent_as n c' = sent_as n c"
  by (simp add: sent_as_def core_def)

lemma remove_tracked:
  assumes "tracked k c" "remove_initiator_message ty n c = (found, c')"
  shows "tracked k c'"
proof -
  have "c' = c\<lparr>outbox := snd (delete_first (\<lambda>i. item_msg_id i = int n \<and> 0xff AND item_msg_type i = ty) (outbox c))\<rparr>"
    using assms(2) by (auto simp: remove_initiator_message_def outbox_delete_def split: prod.splits)
  then show ?thesis using assms(1) tracked_stored [OF assms(1)]
    by (simp add: tracked_lighter stored_ok_delete lighter_deletions)
qed

lemma decrement_tracked:
  assumes c: "tracked k c" "sent_as n c" and r: "remove_initiator_message 3 n c = (True, c')" and v: "is_v5 c'"
  shows "tracked k (esp_mqtt5_decrement_packet_counter c')"
proof -
  let ?P = "\<lambda>i. item_msg_id i = int n \<and> 0xff AND item_msg_type i = 3"
  have d: "fst (delete_first ?P (outbox c)) = ESP_OK" "c' = c\<lparr>outbox := snd (delete_first ?P (outbox c))\<rparr>"
    using r by (auto simp: remove_initiator_message_def outbox_delete_def split: prod.splits)
  have "Suc (in_flight c') = in_flight c"
    using flying_delete [OF tracked_stored(2) [OF c(1)] d(1)] c(2) by (simp add: d(2) in_flight_def sent_as_def)
  moreover have c': "tracked k c'" by (rule remove_tracked [OF c(1) r])
  moreover have "unat (send_publish_packet_count c) = Suc (unat (send_publish_packet_count c - 1))" if "0 < send_publish_packet_count c"
    using that by unat_arith
  moreover have "client_ok (esp_mqtt5_decrement_packet_counter c')" by (rule inv_decrement [OF tracked_stored(3) [OF c']])
  ultimately show ?thesis using c(1)
    by (auto simp: tracked_def flow_ok_def esp_mqtt5_decrement_packet_counter_def d(2) in_flight_def own_ids_def)
qed

lemma pubrec_tracked:
  assumes "tracked k c" "sent_as n c"
  shows "tracked k (set_pending (int n) ACKNOWLEDGED c)"
proof -
  have "in_flight (set_pending (int n) ACKNOWLEDGED c) = in_flight c"
    by (rule set_pending_flight(2)) (use assms(2) in \<open>auto simp: sent_as_def flying_def acknowledged_kind_def\<close>)
  then show ?thesis
    using assms(1) inv_marks(1) [of c "int n" ACKNOWLEDGED]
    by (simp add: tracked_def flow_ok_def own_ids_keys set_pending_def set_pending_keys)
qed

lemma process_tracked:
  assumes c: "tracked k c"
  shows "holds (\<lambda>(r, c'). tracked k c') (process_suback n c)" "holds (\<lambda>(r, c'). tracked k c') (process_unsuback n c)"
    "sent_as n c \<Longrightarrow> holds (\<lambda>(r, c'). tracked k c') (process_published esp_mqtt5_parse_puback n c)"
    "sent_as n c \<Longrightarrow> holds (\<lambda>(r, c'). tracked k c') (process_published esp_mqtt5_parse_pubcomp n c)"
    "sent_as n c \<Longrightarrow> holds (\<lambda>(r, c'). tracked k c') (process_pubrec n c)"
proof -
  note rm = remove_tracked [OF c] and dec = decrement_tracked [OF c]
  show "holds (\<lambda>(r, c'). tracked k c') (process_suback n c)"
    unfolding process_suback_def Let_def
    by (auto split: prod.split dest!: rm intro!: holds_mono [OF tracked_quiet' [OF quiet_replies(3)]] tracked_quiet [OF quiet_deliver_suback])
  show "holds (\<lambda>(r, c'). tracked k c') (process_unsuback n c)"
    unfolding process_unsuback_def Let_def
    by (auto split: prod.split dest!: rm intro!: holds_mono [OF tracked_quiet' [OF quiet_replies(4)]] holds_mono [OF tracked_quiet' [OF quiet_msgid]])
  show "holds (\<lambda>(r, c'). tracked k c') (process_published esp_mqtt5_parse_puback n c)" if "sent_as n c"
    unfolding process_published_def Let_def
    by (auto split: prod.split dest: rm intro!: holds_mono [OF tracked_quiet' [OF quiet_replies(1)]]
        holds_mono [OF tracked_quiet' [OF quiet_msgid]] dec [OF that])
  show "holds (\<lambda>(r, c'). tracked k c') (process_published esp_mqtt5_parse_pubcomp n c)" if "sent_as n c"
    unfolding process_published_def Let_def
    by (auto split: prod.split dest: rm intro!: holds_mono [OF tracked_quiet' [OF quiet_replies(2)]]
        holds_mono [OF tracked_quiet' [OF quiet_msgid]] dec [OF that])
  show "holds (\<lambda>(r, c'). tracked k c') (process_pubrec n c)" if "sent_as n c"
  proof -
    have "holds (\<lambda>c'. core c' = core c) (compose (\<lambda>conn. mqtt5_msg_pubrel conn (of_nat n)) (\<lambda>conn. mqtt_msg_pubrel conn (of_nat n)) c)"
      by (rule quiet_compose) (auto simp: mqtt_msg_pubrel_def mqtt5_msg_pubrel_def intro!: kept_ack)
    then show ?thesis
      unfolding process_pubrec_def holds_bind
      by (rule holds_mono)
         (auto intro!: holds_mono [OF tracked_quiet [OF quiet_write]] pubrec_tracked c that dest: tracked_core [of _ c k] sent_as_core [of _ c n])
  qed
qed

lemma process_message_tracked:
  assumes c: "tracked k c" and s: "ty \<in> {4, 5, 7} \<Longrightarrow> sent_as n c"
  shows "holds (\<lambda>(r, c'). tracked k c') (process_message ty q n c)"
  using process_tracked [OF c] tracked_quiet [OF quiet_process(1) c] tracked_quiet [OF quiet_process(2) c]
    tracked_quiet [OF quiet_process(3) c] tracked_quiet [OF quiet_process(4) c] c s
  unfolding process_message_def by (simp split del: if_split) (simp add: if_split)

lemma process_receive_tracked:
  assumes c: "tracked k c" and s: "\<And>n. acknowledgement c = Some n \<Longrightarrow> sent_as n c"
  shows "holds (\<lambda>(r, c'). tracked k c') (mqtt_process_receive c)"
proof (cases "mqtt_message_receive c")
  case None
  then show ?thesis by (simp add: mqtt_process_receive_def)
next
  case (Some rc)
  then obtain r c1 where r: "mqtt_message_receive c = Some (r, c1)" by (cases rc) auto
  have k1: "client_ok c1" "state c1 = state c" "connection c1 = connection c" "outbox c1 = outbox c"
    "send_publish_packet_count c1 = send_publish_packet_count c"
    using receive_keeps [OF tracked_stored(3) [OF c] r] receive_total [of c] r tracked_stored(3) [OF c] silentD [of c1 c]
    by (auto simp: client_ok_def)
  have c1: "tracked k c1" using c k1 by (simp add: tracked_def flow_ok_def own_ids_def in_flight_def)
  have "sent_as n c1" if "mqtt_get_type (in_buffer c1) = Some ty" "message_id_of c1 (message_length c1) = Some n" "ty \<in> {4, 5, 7}" "r > 0" for ty n
    using s [of n] that r k1(4) by (simp add: acknowledgement_def sent_as_def)
  then show ?thesis
    unfolding mqtt_process_receive_def Let_def r using c1
    by (auto simp: holds_def bind_eq_Some_conv split: if_splits dest!: holdsD [OF process_message_tracked [OF c1], rotated] intro: tracked_pending)
qed

section \<open>Sending\<close>

lemma tracked_load: "tracked k c \<Longrightarrow> i \<in> set (ob_list (outbox c)) \<Longrightarrow> tracked k (load_item i c)"
  using stored_item_qos [of c i] inv_load [of c i]
  by (auto simp: tracked_def flow_ok_def load_item_def upd_outbound_def own_ids_def in_flight_def)

lemma write_or_abort_tracked: "tracked k c \<Longrightarrow> holds (\<lambda>(r, c'). tracked k c') (write_or_abort c)"
  unfolding write_or_abort_def holds_bind
  by (auto intro!: holds_mono [OF tracked_quiet [OF quiet_write]] holds_mono [OF abort_tracked])

text \<open>A write that succeeds changes nothing but what was sent.\<close>

lemma write_loop_done: "write_loop bs c = Some (ESP_OK, c') \<Longrightarrow> pending_msg_id c' = pending_msg_id c"
proof (induction bs c rule: write_loop.induct)
  case (1 bs c)
  obtain r c1 where w: "esp_transport_write bs c = (r, c1)" by fastforce
  then have c1: "pending_msg_id c1 = pending_msg_id c"
    by (auto simp: esp_transport_write_def split: list.splits tx_answer.splits)
  show ?case using "1.prems" "1.IH" [OF _ w [symmetric]] c1
    by (subst (asm) write_loop.simps) (auto simp: w bind_eq_Some_conv split: option.splits if_splits)
qed

lemma write_or_abort_done: "write_or_abort c = Some (ESP_OK, c') \<Longrightarrow> pending_msg_id c' = pending_msg_id c"
  by (auto simp: write_or_abort_def esp_mqtt_write_def bind_eq_Some_conv dest: write_loop_done split: if_splits)

text \<open>What is left as it was when a stored message has been sent again.\<close>

definition resent :: "outbox_item \<Rightarrow> esp_mqtt_client \<Rightarrow> esp_mqtt_client \<Rightarrow> bool" where
  "resent i c c' \<longleftrightarrow> skeleton (outbox c') = skeleton (outbox c) \<and> pending_msg_id c' = word_of_int (item_msg_id i)"

lemma resend_queued_tracked:
  assumes "tracked k c" "i \<in> set (ob_list (outbox c))"
  shows "holds (\<lambda>(r, c'). tracked k c' \<and> (r = ESP_OK \<longrightarrow> resent i c c')) (mqtt_resend_queued i c)"
proof -
  let ?c = "load_item i c"
  have c1: "tracked k ?c" "outbox ?c = outbox c" "resent i c ?c"
    using tracked_load [OF assms] by (simp_all add: load_item_def upd_outbound_def resent_def)
  have out: "holds (\<lambda>(r, c'). tracked k c' \<and> (r = ESP_OK \<longrightarrow> resent i c c')) (write_or_abort c2)"
    if "tracked k c2" "resent i c c2" for c2
  proof (rule holdsI, clarify)
    fix r c' assume r: "write_or_abort c2 = Some (r, c')"
    have "tracked k c'" using holdsD [OF write_or_abort_tracked [OF that(1)] r] by simp
    moreover have "r = ESP_OK \<longrightarrow> core c' = core c2" using holdsD [OF write_or_abort_core [OF refl] r] by simp
    ultimately show "tracked k c' \<and> (r = ESP_OK \<longrightarrow> resent i c c')"
      using that(2) write_or_abort_done [of c2 c'] r by (auto simp: core_def resent_def)
  qed
  have upd: "resent i c (upd_outbound f c1) = resent i c c1" for f c1 by (simp add: upd_outbound_def resent_def)
  have dup: "tracked k (?c\<lparr>outbox := ob\<rparr>) \<and> resent i c (?c\<lparr>outbox := ob\<rparr>)" if "item_set_dup i (outbox c) = Some (b, ob)" for b ob
    using stored_ok_dup [OF tracked_stored(1) [OF assms(1)] assms(2) that] item_set_dup_skeleton [OF that] c1
    by (auto simp: resent_def intro!: tracked_lighter)
  show ?thesis
    unfolding mqtt_resend_queued_def Let_def holds_bind
    by (rule holdsI) (use c1 in \<open>auto simp: bind_eq_Some_conv upd dest!: dup split: if_splits intro!: out\<close>)
qed

lemma resend_pubrel_tracked:
  assumes "tracked k c" "i \<in> set (ob_list (outbox c))"
  shows "holds (\<lambda>(r, c'). tracked k c') (mqtt_resend_pubrel i c)"
  unfolding mqtt_resend_pubrel_def Let_def holds_bind
  by (rule holds_mono [OF tracked_quiet' [OF quiet_compose]])
     (auto simp: mqtt_msg_pubrel_def mqtt5_msg_pubrel_def intro!: kept_ack write_or_abort_tracked tracked_load assms)

lemma resend_old_tracked:
  assumes c: "tracked k c"
    and r: "\<And>c i. tracked k c \<Longrightarrow> i \<in> set (ob_list (outbox c)) \<Longrightarrow> holds (\<lambda>(r, c'). tracked k c') (resend i c)"
  shows "holds (tracked k) (resend_old p resend c)"
  using c dequeue_in [of "outbox c" p]
  by (auto simp: resend_old_def Let_def split: option.split intro!: holds_mono [OF r])

lemma retransmit_tracked:
  assumes "tracked k c"
  shows "holds (tracked k) (retransmit c)"
proof -
  have q: "holds (\<lambda>(r, c'). tracked k c') (mqtt_resend_queued i c)" if "tracked k c" "i \<in> set (ob_list (outbox c))" for c i
    by (rule holds_mono [OF resend_queued_tracked [OF that]]) auto
  show ?thesis using assms
    unfolding retransmit_def Let_def
    by (auto split: prod.split dest!: tracked_pairs intro!: holds_mono [OF resend_old_tracked [OF _ q]] resend_old_tracked [OF _ resend_pubrel_tracked])
qed

lemma keepalive_tracked:
  assumes "tracked k c"
  shows "holds (\<lambda>(r, c'). tracked k c') (process_keepalive c)"
  using assms unfolding process_keepalive_def Let_def
  by (auto split: prod.split dest!: tracked_pairs intro!: holds_mono [OF abort_tracked] holds_mono [OF tracked_quiet [OF quiet_ping]])

lemma refresh_tracked: "tracked k c \<Longrightarrow> holds (tracked k) (refresh_connection c)"
proof -
  have "tracked k (c1\<lparr>state := MQTT_STATE_INIT\<rparr>)" if "tracked k c1" for c1
    using that by (simp add: tracked_def flow_ok_def client_ok_updates own_ids_def)
  then show "tracked k c \<Longrightarrow> holds (tracked k) (refresh_connection c)"
    unfolding refresh_connection_def Let_def
    by (auto split: prod.split dest!: tracked_pairs intro!: holds_mono [OF abort_tracked])
qed

text \<open>A publish that is sent is counted, and nothing else is.\<close>

lemma increment_flow:
  assumes "flow_ok k c" "in_flight c' \<le> Suc (in_flight c)" "may_send c"
    and "send_publish_packet_count c' = send_publish_packet_count c + 1" "is_v5 c' = is_v5 c" "state c' = state c" "client_ok c'"
  shows "flow_ok k c'"
proof -
  have "unat (send_publish_packet_count c + 1) = Suc (unat (send_publish_packet_count c))"
    using assms(3) unfolding may_send_def by unat_arith
  then show ?thesis using assms by (auto simp: flow_ok_def)
qed

lemma set_tick_flow:
  assumes "tracked k c"
  shows "tracked k (set_tick n c)" "skeleton (outbox (set_tick n c)) = skeleton (outbox c)"
proof -
  obtain t c1 where t: "platform_tick_get_ms c = (t, c1)" by fastforce
  have c1: "tracked k c1" "outbox c1 = outbox c" using assms tracked_pairs(1) [OF t] core_tick [OF t] by (simp_all add: core_def)
  show "tracked k (set_tick n c)"
    using c1 tracked_stored [OF c1(1)] by (simp add: set_tick_def t tracked_lighter set_tick_skeleton stored_ok_marks)
  show "skeleton (outbox (set_tick n c)) = skeleton (outbox c)" using c1 by (simp add: set_tick_def t set_tick_skeleton)
qed

lemma set_pending_fields:
  "state (set_pending n p c) = state c" "connection (set_pending n p c) = connection c"
  "send_publish_packet_count (set_pending n p c) = send_publish_packet_count c" "pending_msg_type (set_pending n p c) = pending_msg_type c"
  by (simp_all add: set_pending_def)

lemma set_pending_own: "own_ids (set_pending n p c) = own_ids c"
  by (simp add: own_ids_keys set_pending_def set_pending_keys)

lemma mark_other_tracked:
  assumes "tracked k c" "(ty, q, n) \<in> set (keys (outbox c))" "\<not> (ty = 3 \<and> 0 < q)"
  shows "tracked k (set_pending n p c)"
proof -
  obtain i where i: "i \<in> set (ob_list (outbox c))" "\<not> acknowledged_kind i" "item_msg_id i = n"
    using assms(2,3) by (auto simp: keys_def item_key_def acknowledged_kind_def)
  have "in_flight (set_pending n p c) = in_flight c"
    using own_ids_other [OF _ i(1,2)] assms(1) i(3) by (intro set_pending_other) (simp add: tracked_def)
  then show ?thesis
    using assms(1) inv_marks(1) [of c n p] by (simp add: tracked_def flow_ok_def set_pending_fields set_pending_own)
qed

lemma send_queued_tracked:
  assumes c: "tracked k c" "next_queued c = Some i"
  shows "holds (tracked k) (send_queued i c)"
proof (rule holdsI)
  fix c' assume run: "send_queued i c = Some c'"
  note ok = tracked_stored [OF c(1)]
  note i = next_queued_admitted [OF ok(3) c(2)]
  obtain r c1 where r: "mqtt_resend_queued i c = Some (r, c1)" using run by (auto simp: send_queued_def bind_eq_Some_conv)
  have c1: "tracked k c1" using holdsD [OF resend_queued_tracked [OF c(1) i(1)] r] by simp
  show "tracked k c'"
  proof (cases "r = ESP_OK")
    case True
    then have rs: "resent i c c1" and fl: "flow c1 = flow (load_item i c)"
      using holdsD [OF resend_queued_tracked [OF c(1) i(1)] r] holdsD [OF inv_resend_queued [OF ok(3) i(1)] r] by auto
    have ty: "pending_msg_type c1 = item_msg_type i" "pending_publish_qos c1 = item_msg_qos i" "is_v5 c1 = is_v5 c" "may_send c1 = may_send c"
      using fl by (simp_all add: flow_def load_item_def upd_outbound_def receive_maximum_def may_send_def)
    have id: "uint (pending_msg_id c1) = item_msg_id i"
      using rs stored_okD(2) [OF ok(1) i(1)] by (simp add: resent_def)
    let ?c2 = "set_tick (item_msg_id i) c1"
    let ?c3 = "set_pending (item_msg_id i) TRANSMITTED ?c2"
    have c2: "tracked k ?c2" "skeleton (outbox ?c2) = skeleton (outbox c)" "flow ?c3 = flow c1" "flow ?c2 = flow c1"
      using set_tick_flow [OF c1] rs flow_marks [of "item_msg_id i" TRANSMITTED "item_msg_id i" c1]
      by (simp_all add: resent_def) (simp add: flow_def set_pending_def receive_maximum_def)
    consider "pending_msg_type c1 = 3" "pending_publish_qos c1 = 0" "c' = c1\<lparr>outbox := snd (outbox_delete_item (outbox c1) (item_addr i))\<rparr>"
      | "pending_msg_type c1 = 3" "pending_publish_qos c1 \<noteq> 0" "is_v5 c" "c' = esp_mqtt5_increment_packet_counter ?c3"
      | "pending_msg_type c1 = 3" "pending_publish_qos c1 \<noteq> 0" "\<not> is_v5 c" "c' = ?c3"
      | "pending_msg_type c1 \<noteq> 3" "c' = ?c3"
      using run r True ty c2(3) by (auto simp: send_queued_def id Let_def flow_def split: if_splits)
    then show ?thesis
    proof cases
      case 1
      then show ?thesis using c1 tracked_stored [OF c1]
        by (simp add: tracked_lighter stored_ok_deletions) (simp add: tracked_lighter stored_ok_delete lighter_deletions outbox_delete_item_def)
    next
      case 2
      have "flow_ok k c'"
      proof (rule increment_flow [of k ?c2])
        show "in_flight c' \<le> Suc (in_flight ?c2)"
          using set_pending_flight(1) [of "item_msg_id i" TRANSMITTED ?c2] by (simp add: 2 esp_mqtt5_increment_packet_counter_def in_flight_def)
        show "may_send ?c2" using i(2) 2 ty may_send_flow [OF c2(4)] by simp
        show "client_ok c'" using holdsD [OF inv_send_queued [OF ok(3) c(2)] run] .
      qed (use c2(1) in \<open>simp_all add: 2 tracked_def esp_mqtt5_increment_packet_counter_def set_pending_fields\<close>)
      moreover have "own_ids c'" using c2(1) set_pending_own [of "item_msg_id i" TRANSMITTED ?c2]
        by (simp add: 2 tracked_def esp_mqtt5_increment_packet_counter_def own_ids_def)
      ultimately show ?thesis by (simp add: tracked_def)
    next
      case 3
      have "state c1 \<noteq> MQTT_STATE_CONNECTED" using c1 3(3) ty(3) by (auto simp: tracked_def flow_ok_def)
      then have "state c' \<noteq> MQTT_STATE_CONNECTED" using c2(3) by (simp add: 3 flow_def)
      moreover have "client_ok c'" using holdsD [OF inv_send_queued [OF ok(3) c(2)] run] .
      ultimately show ?thesis using c2(1) by (simp add: 3 tracked_def flow_ok_def set_pending_own)
    next
      case 4
      have "keys (outbox ?c2) = keys (outbox c)" by (simp add: keys_skeleton c2(2))
      then have "item_key i \<in> set (keys (outbox ?c2))" using i(1) by (simp add: keys_def)
      then show ?thesis using mark_other_tracked [OF c2(1), of "item_msg_type i" "item_msg_qos i" "item_msg_id i"] 4 ty by (simp add: item_key_def)
    qed
  qed (use run r c1 in \<open>simp add: send_queued_def\<close>)
qed

section \<open>The task\<close>

lemma expired_keeps:
  assumes "tracked k c"
  shows "tracked k (mqtt_delete_expired_messages c)" "state (mqtt_delete_expired_messages c) = state c"
    "set (ob_list (outbox (mqtt_delete_expired_messages c))) \<subseteq> set (ob_list (outbox c))"
proof -
  let ?Q = "\<lambda>c c'. tracked k c' \<and> state c' = state c \<and> set (ob_list (outbox c')) \<subseteq> set (ob_list (outbox c))"
  have loop: "tracked k c \<Longrightarrow> ?Q c (delete_expired_loop c)" for c
  proof (induction c rule: delete_expired_loop.induct)
    case (1 c)
    obtain t c1 where t: "platform_tick_get_ms c = (t, c1)" by fastforce
    obtain n ob where n: "outbox_delete_single_expired (outbox c1) (uint t) 30000 = (n, ob)" by fastforce
    have c1: "tracked k c1" "state c1 = state c" "outbox c1 = outbox c"
      using "1.prems" tracked_pairs(1) [OF t] core_tick [OF t] by (auto simp: core_def)
    have ob: "ob = snd (delete_first (\<lambda>i. uint t - item_tick i > 30000) (outbox c1))"
      using n by (auto simp: outbox_delete_single_expired_def delete_first_def split: option.splits)
    have c2: "?Q c (c1\<lparr>outbox := ob\<rparr>)"
      using c1 tracked_stored [OF c1(1)] delete_first_subset [of "outbox c1"]
      by (auto simp: ob tracked_lighter stored_ok_delete lighter_deletions)
    let ?e = "\<lambda>c. esp_mqtt_dispatch_event (upd_event (\<lambda>e. e\<lparr>event_id := MQTT_EVENT_DELETED, event_msg_id := n\<rparr>) c)"
    have e: "state (?e c) = state c \<and> outbox (?e c) = outbox c" for c
      using core_dispatch [of "upd_event (\<lambda>e. e\<lparr>event_id := MQTT_EVENT_DELETED, event_msg_id := n\<rparr>) c"] by (simp add: core_def upd_event_def)
    show ?case using c2 "1.IH" [OF t [symmetric] refl n [symmetric] refl] e [of "c1\<lparr>outbox := ob\<rparr>"]
      by (subst (1 2 3) delete_expired_loop.simps) (auto simp: t n)
  qed
  have "?Q c (mqtt_delete_expired_messages c)"
  proof (cases "MQTT_REPORT_DELETED_MESSAGES (config c)")
    case False
    obtain t c1 where t: "platform_tick_get_ms c = (t, c1)" by fastforce
    have c1: "tracked k c1" "state c1 = state c" "outbox c1 = outbox c"
      using assms tracked_pairs(1) [OF t] core_tick [OF t] by (auto simp: core_def)
    then show ?thesis using False t tracked_stored [OF c1(1)] delete_loop_all(2) [OF tracked_stored(2) [OF c1(1)]]
      by (auto simp: mqtt_delete_expired_messages_def outbox_delete_expired_def tracked_lighter stored_ok_loop lighter_deletions)
  qed (simp add: mqtt_delete_expired_messages_def loop assms)
  then show "tracked k (mqtt_delete_expired_messages c)" "state (mqtt_delete_expired_messages c) = state c"
    "set (ob_list (outbox (mqtt_delete_expired_messages c))) \<subseteq> set (ob_list (outbox c))" by simp_all
qed

lemma task_connected_tracked:
  assumes c: "tracked k c" and s: "\<And>n. acknowledgement c = Some n \<Longrightarrow> sent_as n c"
  shows "holds (tracked k) (task_connected c)"
proof -
  let ?t = "\<lambda>c. if last_retransmit c = 0 then (let (now, c) = platform_tick_get_ms c in c\<lparr>last_retransmit := now\<rparr>) else c"
  have tick: "tracked k (?t c)" if "tracked k c" for c using that by (auto dest!: tracked_pairs(1) split: prod.split)
  have rest: "holds (tracked k) (do { c \<leftarrow> (case next_queued c1 of Some i \<Rightarrow> send_queued i c1 | None \<Rightarrow> retransmit c1);
      (err, c) \<leftarrow> process_keepalive c; if err \<noteq> ESP_OK then Some c else refresh_connection c })" if "tracked k c1" for c1
    unfolding holds_bind
    by (rule holds_mono [where P = "tracked k"])
       (use that in \<open>auto split: option.split intro!: send_queued_tracked retransmit_tracked holds_mono [OF keepalive_tracked] refresh_tracked\<close>)
  have "holds (tracked k) (do { (_, c) \<leftarrow> send_disconnect_msg (c\<lparr>disconnect_bit := False\<rparr>); esp_mqtt_abort_connection c })"
    unfolding holds_bind
    by (rule holds_mono [OF tracked_quiet [OF inv_disconnect_msg]]) (use c in \<open>auto intro!: abort_tracked\<close>)
  moreover have "holds (tracked k) (do { (err, c) \<leftarrow> mqtt_process_receive c;
        if err = ESP_FAIL then esp_mqtt_abort_connection c
        else do { let c = ?t c; c \<leftarrow> (case next_queued c of Some i \<Rightarrow> send_queued i c | None \<Rightarrow> retransmit c);
          (err, c) \<leftarrow> process_keepalive c; if err \<noteq> ESP_OK then Some c else refresh_connection c } })"
    by (rule holds_bindI [OF process_receive_tracked [OF c s]])
       (auto simp: Let_def [of "?t x" for x] intro!: abort_tracked rest tick simp del: holds_bind split del: if_split)
  ultimately show ?thesis unfolding task_connected_def holds_if by blast
qed

lemma task_tracked:
  assumes c: "tracked k c" "state c = MQTT_STATE_CONNECTED" "solicited c"
  shows "holds (tracked k) (esp_mqtt_task c)"
proof -
  let ?c = "mqtt_delete_expired_messages c"
  note e = expired_keeps [OF c(1)]
  have poll: "holds (tracked k) (if state c1 = MQTT_STATE_CONNECTED then
       let (ok, c) = esp_transport_poll_read c1 in if ok then Some c else esp_mqtt_abort_connection c else Some c1)"
    if "tracked k c1" for c1
    using that tracked_pairs(3) by (auto split: prod.split intro!: abort_tracked)
  have "sent_as n ?c" if "acknowledgement ?c = Some n" for n
    using c(3) e(3) that by (auto simp: solicited_def sent_as_def)
  then show ?thesis
    unfolding esp_mqtt_task_def Let_def [of ?c]
    using e(2) c(2) by (auto intro!: holds_bindI [OF task_connected_tracked [OF e(1)]] poll simp del: holds_bind)
qed

section \<open>Calls of the application\<close>

text \<open>Storing a message adds one that waits.\<close>

lemma enqueue_adds:
  assumes "flow_ok k c" "mqtt_enqueue rd n c = Some (ok, c')"
  shows "flow_ok k c'" "pending_msg_id c' = pending_msg_id c"
    "ok \<Longrightarrow> keys (outbox c') = keys (outbox c) @ [(pending_msg_type c, pending_publish_qos c, uint (pending_msg_id c))]"
proof -
  let ?m = "\<lparr>om_data = outbound_data c, om_len = msg_length (outbound c), om_msg_id = uint (pending_msg_id c),
     om_msg_qos = pending_publish_qos c, om_msg_type = pending_msg_type c, om_remaining_data = rd, om_remaining_len = n\<rparr>"
  obtain t c1 where c1: "platform_tick_get_ms c = (t, c1)" by fastforce
  obtain oki c2 where c2: "client_calloc c1 = (oki, c2)" by fastforce
  obtain okb c3 where c3: "(if oki then client_calloc c2 else (False, c2)) = (okb, c3)" by fastforce
  have core: "core c3 = core c" using core_tick [OF c1] core_calloc [OF c2] c3 core_calloc [of c2] by (auto split: if_splits)
  have id: "pending_msg_id c3 = pending_msg_id c" using c1 c2 c3
    by (auto simp: platform_tick_get_ms_def client_calloc_def Let_def split: prod.splits if_splits)
  have o: "outbox c3 = outbox c" using core by (simp add: core_def)
  obtain res ob where ob: "outbox_enqueue (outbox c) ?m (uint t) (if oki then Some (fresh_addr (outbox c)) else None)
      (if okb then Some (replicate (om_len ?m + n) 0) else None) = Some (res, ob)" and c': "c' = c3\<lparr>outbox := ob\<rparr>" and ok: "ok = (res \<noteq> None)"
    using assms(2) c1 c2 c3 o by (auto simp: mqtt_enqueue_def Let_def bind_eq_Some_conv cong: if_cong)
  have new: "(res = None \<and> ob = outbox c) \<or> (\<exists>a buf. ob_list ob = ob_list (outbox c) @ [new_item a buf ?m (uint t)])"
    using outbox_enqueue_item [of "outbox c" ?m "uint t"] ob by (cases oki; cases okb) (fastforce simp: outbox_enqueue_def)+
  then have "in_flight c' = in_flight c" by (auto simp: c' in_flight_def new_item_def flying_def)
  moreover have "client_ok c'" using holdsD [OF inv_enqueue assms(2)] assms(1) by (simp add: flow_ok_def)
  ultimately show "flow_ok k c'" using assms(1) core by (simp add: flow_ok_def c' core_def)
  show "pending_msg_id c' = pending_msg_id c" using id by (simp add: c')
  show "keys (outbox c') = keys (outbox c) @ [(pending_msg_type c, pending_publish_qos c, uint (pending_msg_id c))]" if "ok"
    using new that ok by (auto simp: c' keys_def new_item_def item_key_def)
qed

lemma flow_quiet: "(\<And>k. core c = k \<Longrightarrow> holds (\<lambda>(r, c'). core c' = k) m) \<Longrightarrow> flow_ok k c \<Longrightarrow> holds (\<lambda>(r, c'). flow_ok k c') m"
  unfolding holds_def using flow_ok_core by fast

lemma flow_pending:
  "flow_ok k c \<Longrightarrow> flow_ok k (c\<lparr>pending_msg_type := ty\<rparr>)" "flow_ok k c \<Longrightarrow> 0 \<le> q \<Longrightarrow> flow_ok k (c\<lparr>pending_publish_qos := q\<rparr>)"
  "flow_ok k c \<Longrightarrow> kept (connection c) conn \<Longrightarrow> flow_ok k (c\<lparr>connection := conn\<rparr>)"
  using flow_ok_core [OF core_connection] by (auto simp: flow_ok_def client_ok_updates in_flight_def)

lemma store_and_write_flow:
  assumes "flow_ok k c" "pending_publish_qos c = 0"
  shows "holds (\<lambda>(r, c'). own_ids c' \<longrightarrow> flow_ok k c') (store_and_write c)"
proof (rule holdsI, clarify)
  fix r c' assume run: "store_and_write c = Some (r, c')" and own: "own_ids c'"
  obtain ty ok c1 where e: "mqtt_enqueue None 0 (c\<lparr>pending_msg_type := ty\<rparr>) = Some (ok, c1)"
    and rest: "if ok then \<exists>err. esp_mqtt_write (set_pending (uint (pending_msg_id c1)) TRANSMITTED c1) = Some (err, c') else c' = c1"
    using run by (auto simp: store_and_write_def bind_eq_Some_conv split: if_splits)
  note a = enqueue_adds [OF flow_pending(1) [OF assms(1)] e]
  show "flow_ok k c'"
  proof (cases ok)
    case True
    let ?c2 = "set_pending (uint (pending_msg_id c1)) TRANSMITTED c1"
    obtain err where w: "esp_mqtt_write ?c2 = Some (err, c')" using rest True by auto
    have core: "core c' = core ?c2" using holdsD [OF quiet_write [OF refl] w] by simp
    then have "own_ids ?c2" using own by (simp add: core_def own_ids_def)
    then have "tracked k c1" using a(1) by (simp add: tracked_def set_pending_own)
    then have "tracked k ?c2" using a(2,3) True assms(2) by (intro mark_other_tracked [of k c1 ty 0]) simp_all
    then show ?thesis using flow_ok_core [OF core] by (simp add: tracked_def)
  qed (use rest a(1) in simp)
qed

text \<open>A call leaves a client that the bound holds for, if its identifiers are its own.\<close>

definition flow_after :: "nat \<Rightarrow> ('a \<times> esp_mqtt_client) option \<Rightarrow> bool" where
  "flow_after k = holds (\<lambda>(r, c). own_ids c \<longrightarrow> flow_ok k c)"

definition flow_call :: "nat \<Rightarrow> ('a \<times> esp_mqtt_client option) option \<Rightarrow> bool" where
  "flow_call k = holds (\<lambda>(r, h). \<forall>c. h = Some c \<longrightarrow> own_ids c \<longrightarrow> flow_ok k c)"

lemma flow_with_client: "flow_after k (f c) \<Longrightarrow> flow_call k (with_client err f (Some c))"
  unfolding flow_after_def flow_call_def with_client_def by (auto simp: holds_def bind_eq_Some_conv)

lemma flow_after_bind:
  "holds Q m \<Longrightarrow> (\<And>x. Q x \<Longrightarrow> flow_after k (f x)) \<Longrightarrow> flow_after k (m \<bind> f)"
  unfolding flow_after_def by (rule holds_bindI)

lemma flow_after_basic [simp]:
  "flow_ok k c \<Longrightarrow> flow_after k (Some (r, c))" "flow_after k None"
  "flow_after k (if b then m else m') = ((b \<longrightarrow> flow_after k m) \<and> (\<not> b \<longrightarrow> flow_after k m'))"
  by (simp_all add: flow_after_def)

lemma flow_reset: "flow_ok k c \<Longrightarrow> flow_ok k (mqtt_reset_pending_message c)"
  by (simp add: mqtt_reset_pending_message_def flow_pending)

lemma flow_mqtt5:
  "(\<And>m. server_resp_property_info (f m) = server_resp_property_info m) \<Longrightarrow> flow_ok k (upd_mqtt5 f c) = flow_ok k c"
  by (rule flow_ok_core) simp

lemma flow_calloc: "client_calloc c = (ok, c') \<Longrightarrow> flow_ok k c' = flow_ok k c"
  by (rule flow_ok_core, erule core_calloc)

lemma flow_composed:
  assumes "flow_ok k c" "pending_publish_qos c = 0"
  shows "flow_after k (if \<not> has_message c then Some (-1, c) else store_and_write c)"
  using assms store_and_write_flow [OF assms] by (simp add: flow_after_def)

lemma subscribe_flow:
  assumes "flow_ok k c"
  shows "flow_call k (esp_mqtt_client_subscribe_multiple topics (Some c))"
proof -
  let ?c = "mqtt_reset_pending_message c"
  have r: "flow_ok k ?c" "pending_publish_qos ?c = 0"
    using assms by (simp_all add: flow_reset) (simp add: mqtt_reset_pending_message_def upd_outbound_def)
  have v5: "flow_after k (do {
      (conn, i) \<leftarrow> mqtt5_msg_subscribe (allocs ?c) (connection ?c) topics (subscribe_property_info (mqtt5_config ?c));
      let c = ?c\<lparr>connection := conn, pending_msg_id := i, allocs := drop (length topics) (allocs ?c)\<rparr>;
      let c = (if has_message c then upd_mqtt5 (\<lambda>m. m\<lparr>subscribe_property_info := None\<rparr>) c else c);
      if \<not> has_message c then Some (-1, c) else store_and_write c })"
    unfolding Let_def
    by (rule flow_after_bind [OF kept_subscribe(2) [OF kept_refl]], clarify, rule flow_composed)
       (simp_all add: flow_mqtt5 flow_pending r, simp add: upd_mqtt5_def r)
  have v3: "flow_after k (do { (conn, i) \<leftarrow> mqtt_msg_subscribe (connection ?c) topics;
      let c = ?c\<lparr>connection := conn, pending_msg_id := i\<rparr>;
      if \<not> has_message c then Some (-1, c) else store_and_write c })"
    unfolding Let_def
    by (rule flow_after_bind [OF kept_subscribe(1) [OF kept_refl]], clarify, rule flow_composed) (simp_all add: flow_pending r)
  show ?thesis
    unfolding esp_mqtt_client_subscribe_multiple_def
    by (rule flow_with_client) (use assms r v5 v3 in \<open>simp add: Let_def [of ?c]\<close>)
qed

lemma unsubscribe_flow:
  assumes "flow_ok k c"
  shows "flow_call k (esp_mqtt_client_unsubscribe topic (Some c))"
proof -
  let ?c = "mqtt_reset_pending_message c"
  let ?Q = "\<lambda>(conn, i, c). flow_ok k c \<and> pending_publish_qos c = 0 \<and> kept (connection c) conn"
  have r: "flow_ok k ?c" "pending_publish_qos ?c = 0"
    using assms by (simp_all add: flow_reset) (simp add: mqtt_reset_pending_message_def upd_outbound_def)
  have al: "flow_ok k c1 \<and> pending_publish_qos c1 = 0" if "client_calloc ?c = (ok, c1)" for ok c1
    using flow_calloc [OF that] core_calloc [OF that] r by (simp add: core_def)
  let ?build = "if is_v5 ?c then do { let (ok, c) = client_calloc ?c;
        (conn, i) \<leftarrow> mqtt5_msg_unsubscribe (connection c) topic (pending_msg_id c) (unsubscribe_property_info (mqtt5_config c)) ok;
        Some (conn, i, c) }
     else do { (conn, i) \<leftarrow> mqtt_msg_unsubscribe (connection ?c) topic (pending_msg_id ?c); Some (conn, i, ?c) }"
  have build: "holds ?Q ?build"
    using r by (auto split: prod.split dest!: al intro!: holds_mono [OF kept_subscribe(3) [OF kept_refl]] holds_mono [OF kept_subscribe(4) [OF kept_refl]])
  have "flow_after k (let c = c1\<lparr>connection := conn, pending_msg_id := i\<rparr>;
       c = (if is_v5 c \<and> has_message c then upd_mqtt5 (\<lambda>m. m\<lparr>unsubscribe_property_info := None\<rparr>) c else c)
       in if \<not> has_message c then Some (-1, c) else store_and_write c)"
    if "flow_ok k c1" "pending_publish_qos c1 = 0" "kept (connection c1) conn" for c1 conn i
    unfolding Let_def using flow_pending(3) [OF that(1,3)] that(2)
    by (intro flow_composed) (simp_all add: flow_mqtt5, simp add: upd_mqtt5_def)
  then have "flow_after k (?build \<bind> (\<lambda>(conn, i, c). let c = c\<lparr>connection := conn, pending_msg_id := i\<rparr>;
       c = (if is_v5 c \<and> has_message c then upd_mqtt5 (\<lambda>m. m\<lparr>unsubscribe_property_info := None\<rparr>) c else c)
       in if \<not> has_message c then Some (-1, c) else store_and_write c))"
    by (intro flow_after_bind [OF build]) auto
  then show ?thesis
    unfolding esp_mqtt_client_unsubscribe_def
    by (intro flow_with_client) (use assms in \<open>simp add: Let_def [of ?c]\<close>)
qed

lemma make_publish_flow:
  assumes "flow_ok k c"
  shows "holds (\<lambda>(r, c'). flow_ok k c') (make_publish topic data len qos retain c)"
proof -
  have fin: "flow_ok k (if is_v5 c1 \<and> has_message c1 then upd_mqtt5 (\<lambda>m. m\<lparr>publish_property_info := None\<rparr>) c1 else c1)"
    if "flow_ok k c1" for c1 using that by (simp add: flow_mqtt5)
  show ?thesis
    unfolding make_publish_def holds_bind
  proof (rule holds_mono [where P = "\<lambda>(conn, i, c). flow_ok k c \<and> kept (connection c) conn"], goal_cases)
    case 1
    have al: "flow_ok k c1" if "client_calloc c = (ok, c1)" for ok c1 using flow_calloc [OF that] assms by simp
    show ?case using assms
      by (auto split: prod.split dest!: al intro!: holds_mono [OF kept_publish(1) [OF kept_refl]]
          holds_mono [OF kept_publish(2) [OF kept_refl]] holdsI [of "case sr_response_info x of Null_Str \<Rightarrow> a | Str s \<Rightarrow> b s | Freed \<Rightarrow> d" for x a b d])
  next
    case (2 x)
    then obtain conn i c1 where x: "x = (conn, i, c1)" "flow_ok k (c1\<lparr>connection := conn\<rparr>)"
      using flow_pending(3) by (cases x) auto
    then show ?case using fin [OF x(2)] by (simp add: Let_def split del: if_split)
  qed
qed

lemma enqueue_publish_flow:
  assumes "flow_ok k c" "0 \<le> qos"
  shows "holds (\<lambda>(r, c'). flow_ok k c') (mqtt_client_enqueue_publish topic data len qos retain store_flag c)"
proof -
  have q: "holds (\<lambda>(r, c'). flow_ok k c') (mqtt_enqueue rd n (c1\<lparr>pending_msg_type := ty, pending_msg_id := i, pending_publish_qos := qos\<rparr>))"
    if "flow_ok k c1" for c1 rd n ty i
    using enqueue_adds(1) [of k "c1\<lparr>pending_msg_type := ty, pending_msg_id := i, pending_publish_qos := qos\<rparr>"] that assms(2)
    by (auto simp: flow_pending intro!: holdsI)
  show ?thesis
    unfolding mqtt_client_enqueue_publish_def holds_bind Let_def
    by (rule holds_mono [OF make_publish_flow [OF assms(1)]])
       (auto intro!: holdsI [of "mqtt_get_type b" for b] holdsI [of "payload_at b n" for b n] holds_mono [OF q])
qed

text \<open>The end of a publish that was written: it is counted and marked.\<close>

lemma published_flow:
  assumes "flow_ok k c" "is_v5 c \<longrightarrow> may_send c"
  shows "flow_ok k (set_pending n TRANSMITTED (set_tick n (if is_v5 c then esp_mqtt5_increment_packet_counter c else c)))"
proof -
  let ?c1 = "if is_v5 c then esp_mqtt5_increment_packet_counter c else c"
  let ?c2 = "set_tick n ?c1"
  obtain t c3 where t: "platform_tick_get_ms ?c1 = (t, c3)" by fastforce
  have core: "core c3 = core ?c1" by (rule core_tick [OF t])
  have c2: "?c2 = c3\<lparr>outbox := snd (outbox_set_tick (outbox c3) n (uint t))\<rparr>" by (simp add: set_tick_def t)
  have ob: "outbox c3 = outbox c" "state c3 = state c" "is_v5 c3 = is_v5 c" "send_publish_packet_count c3 = send_publish_packet_count ?c1"
    using core by (auto simp: core_def esp_mqtt5_increment_packet_counter_def split: if_splits)
  have fl: "in_flight ?c2 = in_flight c" unfolding in_flight_skeleton c2 by (simp add: set_tick_skeleton ob)
  have le: "in_flight (set_pending n TRANSMITTED ?c2) \<le> Suc (in_flight c)" using set_pending_flight(1) [of n TRANSMITTED ?c2] fl by simp
  have "client_ok ?c1" using assms by (auto simp: flow_ok_def intro: inv_increment)
  then have ok: "client_ok (set_pending n TRANSMITTED ?c2)" by (intro inv_marks)
  have f: "state (set_pending n TRANSMITTED ?c2) = state c" "is_v5 (set_pending n TRANSMITTED ?c2) = is_v5 c"
    "send_publish_packet_count (set_pending n TRANSMITTED ?c2) = send_publish_packet_count ?c1"
    unfolding set_pending_fields c2 using ob by simp_all
  show ?thesis
  proof (cases "is_v5 c")
    case True
    then have "send_publish_packet_count ?c1 = send_publish_packet_count c + 1" by (simp add: esp_mqtt5_increment_packet_counter_def)
    then show ?thesis using True assms f(3) by (intro increment_flow [OF assms(1) le _ _ f(2,1) ok]) simp_all
  next
    case False
    then have "state c \<noteq> MQTT_STATE_CONNECTED" using assms(1) by (auto simp: flow_ok_def)
    then show ?thesis using ok f(1) unfolding flow_ok_def by simp
  qed
qed

lemma publish_flow:
  assumes "flow_ok k c" "0 \<le> qos"
  shows "flow_call k (esp_mqtt_client_publish topic data len qos retain (Some c))"
proof -
  have send: "flow_after k (do { (ok, c) \<leftarrow> send_loop data 0 n c1;
       if \<not> ok then cannot_publish (-1) c
       else if 0 < (q :: int) then do {
         let c = (if is_v5 c then esp_mqtt5_increment_packet_counter c else c);
         Some (i, set_pending i TRANSMITTED (set_tick i c)) } else Some (i, c) })"
    if "flow_ok k c1" "q > 0 \<and> is_v5 c1 \<longrightarrow> may_send c1" for c1 n i q
  proof (rule flow_after_bind [OF send_loop_keeps], goal_cases)
    case 1
    then show ?case using that(1) by (simp add: flow_ok_def)
  next
    case (2 x)
    then obtain ok c2 where x: "x = (ok, c2)" "client_ok c2" "ok \<longrightarrow> core c2 = core c1" "\<not> ok \<longrightarrow> offline c2" by (cases x) auto
    have "flow_ok k c2 \<and> (q > 0 \<and> is_v5 c2 \<longrightarrow> may_send c2)" if ok
      using \<open>q > 0 \<and> is_v5 c1 \<longrightarrow> may_send c1\<close> \<open>flow_ok k c1\<close> x(3) that may_send_flow [OF flow_core, of c2 c1] flow_ok_core [of c2 c1 k]
      by (auto simp: core_def)
    then show ?case using x published_flow [of k c2 i] offline_flow [of c2 k]
      by (auto simp: cannot_publish_def Let_def)
  qed
  show ?thesis
    unfolding esp_mqtt_client_publish_def
    by (rule flow_with_client)
       (use assms in \<open>auto simp: cannot_publish_def check_inflight intro!: flow_after_bind [of "\<lambda>_. True" "payload_length d n" for d n]
          flow_after_bind [OF enqueue_publish_flow] send\<close>)
qed

lemma enqueue_flow:
  assumes "flow_ok k c" "0 \<le> qos"
  shows "flow_call k (esp_mqtt_client_enqueue topic data len qos retain store_flag (Some c))"
  unfolding esp_mqtt_client_enqueue_def
  by (rule flow_with_client)
     (use assms in \<open>auto intro!: flow_after_bind [of "\<lambda>_. True" "payload_length d n" for d n] flow_after_bind [OF enqueue_publish_flow]\<close>)

lemma control_flow:
  assumes "flow_ok k c"
  shows "flow_call k (esp_mqtt_client_start (Some c))" "flow_call k (esp_mqtt_client_disconnect (Some c))"
    "flow_call k (esp_mqtt_client_reconnect (Some c))" "flow_call k (esp_mqtt_client_stop t (Some c))"
    "flow_ok k (esp_mqtt_client_stop_join c)" "flow_ok k (esp_mqtt_task_end c)"
proof -
  have off: "flow_ok k (c1\<lparr>state := s\<rparr>)" if "client_ok c1" "s \<noteq> MQTT_STATE_CONNECTED" for c1 s
    using that by (simp add: flow_ok_def client_ok_updates)
  have no: "flow_ok k (c1\<lparr>run := False, task_handle := False, state := MQTT_STATE_DISCONNECTED\<rparr>)" if "flow_ok k c1" for c1
    using that by (intro off) (simp_all add: flow_ok_def)
  have ok: "client_ok c" using assms by (simp add: flow_ok_def)
  show "flow_call k (esp_mqtt_client_disconnect (Some c))" "flow_call k (esp_mqtt_client_reconnect (Some c))"
    unfolding esp_mqtt_client_disconnect_def esp_mqtt_client_reconnect_def by (rule flow_with_client, use assms in simp)+
  show "flow_ok k (esp_mqtt_client_stop_join c)" using assms by (simp add: esp_mqtt_client_stop_join_def)
  have "flow_ok k (c\<lparr>run := True, state := MQTT_STATE_INIT, stopped_bit := False\<rparr>)"
    using off [OF ok, of MQTT_STATE_INIT] flow_ok_core [of "c\<lparr>run := True, state := MQTT_STATE_INIT, stopped_bit := False\<rparr>" "c\<lparr>state := MQTT_STATE_INIT\<rparr>"]
    by (simp add: core_def)
  then have al: "flow_ok k c2" if "client_calloc (c\<lparr>run := True, state := MQTT_STATE_INIT, stopped_bit := False\<rparr>) = (ok, c2)" for ok c2
    using flow_calloc [OF that] by simp
  show "flow_call k (esp_mqtt_client_start (Some c))"
    unfolding esp_mqtt_client_start_def
    by (rule flow_with_client) (use assms in \<open>auto simp: Let_def split: prod.split dest!: al intro!: flow_after_basic(1) no\<close>)
  show "flow_call k (esp_mqtt_client_stop t (Some c))"
    unfolding esp_mqtt_client_stop_def
    by (rule flow_with_client)
       (use assms ok in \<open>auto simp: flow_after_def intro!: holds_mono [OF client_ok_quiet [OF inv_disconnect_msg]] off\<close>)
  show "flow_ok k (esp_mqtt_task_end c)"
    using inv_start_stop(6) [OF ok] by (simp add: flow_ok_def esp_mqtt_task_end_def)
qed

lemma properties_flow:
  assumes "flow_ok k c"
  shows "flow_call k (esp_mqtt5_client_set_publish_property pp (Some c))" "flow_call k (esp_mqtt5_client_set_subscribe_property sp (Some c))"
    "flow_call k (esp_mqtt5_client_set_unsubscribe_property up (Some c))" "flow_call k (esp_mqtt5_client_set_disconnect_property dp (Some c))"
proof -
  have d: "flow_ok k (upd_disconnect f c) = flow_ok k c" for f c by (simp add: upd_disconnect_def flow_mqtt5)
  show "flow_call k (esp_mqtt5_client_set_publish_property pp (Some c))" "flow_call k (esp_mqtt5_client_set_subscribe_property sp (Some c))"
    "flow_call k (esp_mqtt5_client_set_unsubscribe_property up (Some c))"
    unfolding esp_mqtt5_client_set_publish_property_def esp_mqtt5_client_set_subscribe_property_def esp_mqtt5_client_set_unsubscribe_property_def
    by (rule flow_with_client, use assms in \<open>simp add: flow_mqtt5\<close>)+
  show "flow_call k (esp_mqtt5_client_set_disconnect_property dp (Some c))"
    unfolding esp_mqtt5_client_set_disconnect_property_def
    by (rule flow_with_client) (use assms in \<open>auto simp: Let_def d dest!: flow_calloc [of _ _ _ k] split: option.split prod.split\<close>)
qed

lemma flow_callD: "flow_call k m \<Longrightarrow> m = Some (r, Some c') \<Longrightarrow> own_ids c' \<Longrightarrow> flow_ok k c'"
  by (auto simp: flow_call_def holds_def)

section \<open>Connections\<close>

lemma step_flow:
  assumes "client_step c c'" "flow_ok k c" "state c = MQTT_STATE_CONNECTED" "own_ids c" "own_ids c'" "solicited c"
  shows "flow_ok k c'"
  using assms(1)
proof cases
  case task
  then show ?thesis using task_tracked [of k c] assms by (auto simp: holds_def tracked_def)
qed (use assms(2,5) in \<open>auto dest!: flow_callD [rotated] intro: control_flow subscribe_flow unsubscribe_flow publish_flow enqueue_flow properties_flow\<close>)

lemma task_starts:
  assumes "client_ok c" "state c \<noteq> MQTT_STATE_CONNECTED"
  shows "holds starting (esp_mqtt_task c)"
proof -
  let ?c = "mqtt_delete_expired_messages c"
  have state: "state (delete_expired_loop c) = state c" for c
  proof (induction c rule: delete_expired_loop.induct)
    case (1 c)
    obtain t c1 where t: "platform_tick_get_ms c = (t, c1)" by fastforce
    obtain n ob where n: "outbox_delete_single_expired (outbox c1) (uint t) 30000 = (n, ob)" by fastforce
    have "state c1 = state c" using core_tick [OF t] by (simp add: core_def)
    moreover have "state (esp_mqtt_dispatch_event d) = state d" for d using core_dispatch [of d] by (simp add: core_def)
    ultimately show ?case using "1.IH" [OF t [symmetric] refl n [symmetric] refl]
      by (subst delete_expired_loop.simps) (simp add: t n upd_event_def)
  qed
  have c: "client_ok ?c" using assms(1) by (rule inv_expired)
  moreover have "state ?c = state c"
    using state by (auto simp: mqtt_delete_expired_messages_def platform_tick_get_ms_def Let_def)
  ultimately have o: "offline ?c" using assms(2) by (simp add: offline_def)
  have wait: "offline (task_wait_reconnect c1)" if "offline c1" for c1
    using inv_wait [of c1] that
    by (auto simp: offline_def task_wait_reconnect_def platform_tick_get_ms_def Let_def split: prod.split)
  have poll: "holds starting (if state c1 = MQTT_STATE_CONNECTED then
       let (ok, c) = esp_transport_poll_read c1 in if ok then Some c else esp_mqtt_abort_connection c else Some c1)"
    if "starting c1" for c1
    using that starting_core [OF core_transport(2)]
    by (auto split: prod.split intro!: holds_mono [OF inv_abort offline_starting] starting_ok)
  show ?thesis
    unfolding esp_mqtt_task_def Let_def [of ?c]
    by (rule holds_bindI [where Q = starting])
       (use o poll wait in \<open>auto split: mqtt_client_state.split intro!: inv_task_init offline_starting simp: offline_def\<close>)
qed

lemma connection_bound:
  assumes "connection_run d c"
  shows "flow_ok (in_flight d) c \<and> state c = MQTT_STATE_CONNECTED \<and> none_transmitted (outbox d)"
  using assms
proof (induction rule: connection_run.induct)
  case (begins c d)
  have "starting d" using holdsD [OF task_starts [OF client_reachable_ok [OF begins(1)] begins(2)] begins(3)] .
  then show ?case using begins(4,5) by (auto simp: starting_def flow_ok_def)
next
  case (goes_on d c c')
  then show ?case using step_flow [of c c' "in_flight d"] by blast
qed

section \<open>A connection for examples\<close>

text \<open>Positions in a block of properties, for evaluation with binary numbers.\<close>

lemma read_one_code [code]:
  "read_one b p off = do { v \<leftarrow> load b (p + off); Some (v, nat (int (off + 1) mod 65536)) }"
proof -
  have "nat (int n mod 65536) = u16 n" for n by (metis nat_int of_nat_mod of_nat_numeral)
  then show ?thesis by (simp only: read_one_def)
qed

text \<open>An MQTT 5 client whose broker is going to accept one publish at a time.\<close>

definition sample_v5 :: esp_mqtt_client where
  "sample_v5 = (let c = sample_client 24 in
     c\<lparr>state := MQTT_STATE_INIT, config := (config c)\<lparr>cs_transport := Some 1883\<rparr>,
       connection := (connection c)\<lparr>information := (conn_info c)\<lparr>protocol_ver := MQTT_PROTOCOL_V_5\<rparr>\<rparr>,
       wire := [0x20, 6, 0, 0, 3, 0x21, 0, 1], rx_plan := replicate 3 (Rx_Chunk 8)\<rparr>)"

definition sample_v5_connected :: esp_mqtt_client where
  "sample_v5_connected = the (esp_mqtt_task sample_v5)"

definition sample_v5_publish :: "esp_mqtt_client \<Rightarrow> (int \<times> esp_mqtt_client option) option" where
  "sample_v5_publish c = esp_mqtt_client_publish (Some [0x61]) (Some [0x62]) 1 1 0 (Some c)"

definition sample_v5_published :: "esp_mqtt_client \<Rightarrow> esp_mqtt_client" where
  "sample_v5_published c = the (snd (the (sample_v5_publish c)))"

lemma sample_v5_connects:
  "esp_mqtt_task sample_v5 = Some sample_v5_connected" "state sample_v5_connected = MQTT_STATE_CONNECTED" "is_v5 sample_v5_connected"
  "in_flight sample_v5_connected = 0" "own_ids sample_v5_connected" "solicited sample_v5_connected"
proof -
  have "(case esp_mqtt_task sample_v5 of None \<Rightarrow> False | Some d \<Rightarrow> state d = MQTT_STATE_CONNECTED \<and> is_v5 d \<and>
      in_flight d = 0 \<and> own_ids d \<and> solicited d)" by code_simp
  then show "esp_mqtt_task sample_v5 = Some sample_v5_connected" "state sample_v5_connected = MQTT_STATE_CONNECTED" "is_v5 sample_v5_connected"
    "in_flight sample_v5_connected = 0" "own_ids sample_v5_connected" "solicited sample_v5_connected"
    by (auto simp: sample_v5_connected_def split: option.splits)
qed

lemma sample_v5_result:
  "(case sample_v5_publish c of Some (r, Some c') \<Rightarrow> P c' | _ \<Rightarrow> False) \<Longrightarrow>
     P (sample_v5_published c) \<and> client_step c (sample_v5_published c)"
  by (auto simp: sample_v5_published_def sample_v5_publish_def split: option.splits intro!: client_step.publish [of 1])

lemma sample_v5_first:
  "state (sample_v5_published sample_v5_connected) = MQTT_STATE_CONNECTED \<and> own_ids (sample_v5_published sample_v5_connected) \<and>
     solicited (sample_v5_published sample_v5_connected) \<and> client_step sample_v5_connected (sample_v5_published sample_v5_connected)"
proof -
  have "case sample_v5_publish sample_v5_connected of
      Some (r, Some c) \<Rightarrow> state c = MQTT_STATE_CONNECTED \<and> own_ids c \<and> solicited c | _ \<Rightarrow> False" by code_simp
  from sample_v5_result [OF this] show ?thesis by simp
qed

lemma sample_v5_second:
  "state (sample_v5_published (sample_v5_published sample_v5_connected)) = MQTT_STATE_CONNECTED \<and>
     own_ids (sample_v5_published (sample_v5_published sample_v5_connected)) \<and>
     receive_maximum (sample_v5_published (sample_v5_published sample_v5_connected)) = 1 \<and>
     map item_pending (ob_list (outbox (sample_v5_published (sample_v5_published sample_v5_connected)))) = [TRANSMITTED, QUEUED] \<and>
     client_step (sample_v5_published sample_v5_connected) (sample_v5_published (sample_v5_published sample_v5_connected))"
proof -
  have "case sample_v5_publish (sample_v5_published sample_v5_connected) of
      Some (r, Some c) \<Rightarrow> state c = MQTT_STATE_CONNECTED \<and> own_ids c \<and> receive_maximum c = 1 \<and>
        map item_pending (ob_list (outbox c)) = [TRANSMITTED, QUEUED] | _ \<Rightarrow> False" by code_simp
  from sample_v5_result [OF this] show ?thesis by simp
qed

section \<open>Properties\<close>

text \<open>
  C2. In every client that iterations of the task, calls of the application and answers of the
  environment lead to, in any order: the receive buffer has its allocated size and the bytes read
  are inside it, the composition buffer has its allocated size, no outbox item is linked twice and
  the outbox size is the sum of the stored bytes modulo \<open>2 ^ 64\<close>, and the packet counter of a
  connected MQTT 5 client is at most the Receive Maximum of the broker.

  The counter does its work: at every moment of an MQTT 5 connection, the publishes of QoS 1 and 2
  in the outbox that have been sent and whose exchange is not complete are at most the Receive
  Maximum of the broker, in addition to those that were left over, after their PUBREC, when the
  connection began (nothing else counts as sent at that moment). This part is for connections in
  which no stored message shares the identifier of a stored publish of QoS 1 or 2, and the broker
  acknowledges no stored publish that was not sent to it (\<open>connection_run\<close>).
\<close>

theorem client_invariant:
  assumes "client_reachable c"
  shows "length (in_buffer c) = in_buffer_length c \<and> in_buffer_read_len c \<le> in_buffer_length c \<and>
    length (buffer (connection c)) = buffer_length (connection c) \<and>
    distinct (map item_addr (ob_list (outbox c))) \<and>
    unat (outbox_get_size (outbox c)) = (\<Sum>i \<leftarrow> ob_list (outbox c). length (item_buffer i)) mod 2 ^ 64 \<and>
    (state c = MQTT_STATE_CONNECTED \<and> is_v5 c \<longrightarrow>
       send_publish_packet_count c \<le> sr_receive_maximum (server_resp_property_info (mqtt5_config c))) \<and>
    (\<forall>d. connection_run d c \<longrightarrow> (\<forall>i \<in> set (ob_list (outbox d)). item_pending i \<noteq> TRANSMITTED) \<and>
       in_flight c \<le> in_flight d + unat (sr_receive_maximum (server_resp_property_info (mqtt5_config c))))"
proof -
  have ok: "client_ok c" by (rule client_reachable_ok [OF assms])
  then have "(\<Sum>i \<leftarrow> ob_list (outbox c). length (item_buffer i)) = sum_list (map item_len (ob_list (outbox c)))"
    by (intro arg_cong [where f = sum_list] map_cong) (auto simp: client_ok_def stored_ok_def outbox_ok_def)
  moreover have "none_transmitted (outbox d) \<and> in_flight c \<le> in_flight d + unat (receive_maximum c)" if "connection_run d c" for d
    using connection_bound [OF that] by (auto simp: flow_ok_def client_ok_def word_le_nat_alt)
  ultimately show ?thesis using ok
    by (simp add: client_ok_def recv_ok_def stored_ok_def outbox_ok_def receive_maximum_def outbox_get_size_def unsigned_of_nat take_bit_eq_mod
        none_transmitted_def)
qed

theorem client_invariant_witness:
  "\<exists>c d. client_reachable c \<and> connection_run d c \<and> is_v5 d \<and> in_flight c \<le> 1 \<and>
     map item_pending (ob_list (outbox c)) = [TRANSMITTED, QUEUED]"
proof -
  let ?c = "sample_v5_published (sample_v5_published sample_v5_connected)"
  have new: "client_reachable sample_v5" by (rule client_reachable.new) (simp add: client_new_def sample_v5_def sample_client_def Let_def)
  have "client_step sample_v5 sample_v5_connected"
    by (rule client_step.task) (use sample_v5_connects in \<open>simp_all add: sample_v5_def sample_client_def Let_def\<close>)
  then have r: "client_reachable ?c" using new sample_v5_first sample_v5_second by (blast intro: client_reachable.step)
  have "connection_run sample_v5_connected sample_v5_connected"
    by (rule connection_run.begins [OF new _ sample_v5_connects(1-3)]) (simp add: sample_v5_def sample_client_def Let_def)
  then have run: "connection_run sample_v5_connected ?c"
    using sample_v5_connects sample_v5_first sample_v5_second by (blast intro: connection_run.goes_on)
  have "in_flight ?c \<le> 1"
    using client_invariant [OF r] run sample_v5_connects(4) sample_v5_second by (auto simp: receive_maximum_def)
  then show ?thesis using r run sample_v5_connects(3) sample_v5_second
    by (intro exI [of _ ?c] exI [of _ sample_v5_connected]) simp
qed

end
