(* ===== verification/Spec2Isabelle.thy ===== *)
theory Spec2Isabelle
  imports Mqtt_Message_Props Mqtt5_Message_Props Mqtt5_Client_Config Client_Runtime Mqtt_Client_Requeue Mqtt_Client_Results
    Mqtt_Client_Send Mqtt_Client_Flow Mqtt_Outbox Mqtt_Utils Emqtt_Contract_Props Emqtt_Runtime_Props
begin

text \<open>
  A verification of esp-mqtt: the MQTT client library for ESP-IDF and the single-owner runtime on
  top of it.

  \<^bold>\<open>The program.\<close> The \<^emph>\<open>codecs\<close> (\<^verbatim>\<open>lib/mqtt_msg.c\<close>, \<^verbatim>\<open>lib/mqtt5_msg.c\<close>) compose packets in one
  output buffer and parse them in one receive buffer. The \<^emph>\<open>outbox\<close> (\<^verbatim>\<open>lib/mqtt_outbox.c\<close>) keeps the
  messages that are to be sent or confirmed. The \<^emph>\<open>client\<close> (\<^verbatim>\<open>mqtt_client.c\<close>, \<^verbatim>\<open>mqtt5_client.c\<close>) is a task
  that connects, receives, answers, retransmits and reports events, and the calls with which an
  application publishes and subscribes; it uses the codecs and the outbox. The \<^emph>\<open>runtime\<close>
  (\<^verbatim>\<open>runtime/emqtt.c\<close>) owns one client: its handler turns the client's events into notices in a
  queue and reassembles messages in three slots, and its owner polls. The \<^emph>\<open>contract layer\<close>
  (\<^verbatim>\<open>runtime/emqtt_contract.c\<close>, \<^verbatim>\<open>runtime/emqtt_receive_internal.h\<close>) validates configurations, topics
  and fragments for it.

  \<^bold>\<open>The theories.\<close> Each theory on a component starts with its data model and its operations, one
  definition for each function of the source and one for each longer part of a function.

  \<^item> \<open>Mqtt_Prelude\<close>: machine types, error codes, checked buffers (\<open>load\<close>, \<open>store\<close>, \<open>fetch\<close>) and lemmas that all others share.
    \<open>Mqtt_Event\<close>: the public types of \<^verbatim>\<open>include/mqtt_client.h\<close>.
  \<^item> \<open>Mqtt_Message\<close> is the 3.1.1 codec, with the record \<open>mqtt_connection\<close> as its state;
    \<open>Mqtt_Message_Build\<close> has the lemmas on composing and \<open>Mqtt_Message_Props\<close> the contract
    \<open>packet_builder\<close>, which all composing functions of both codecs implement, and the properties: what is
    composed (CONNECT, SUBSCRIBE, PUBLISH whole and in parts), that the parsers read it
    back, also from a packet that has arrived in part, that they stay inside the received bytes, when a header counts as
    complete, and that identifiers repeat only after 65535 others.
  \<^item> \<open>Mqtt5_Message\<close> is the MQTT 5 codec; \<open>Mqtt5_Message_Build\<close>, \<open>Mqtt5_Message_Parse\<close> (with the contract
    \<open>property_switch\<close> of the cases in a loop over properties) and \<open>Mqtt5_Message_Props\<close> have the same roles.
  \<^item> \<open>Mqtt_Outbox\<close>: the outbox, its invariant, the contract \<open>outbox_store\<close> on which the client rests, and what the
    deleting functions remove. \<open>Mqtt_Utils\<close>: the percent decoder against a reference decoder.
  \<^item> \<open>Mqtt_Client_State\<close>, \<open>Mqtt5_Client\<close>, \<open>Mqtt_Client\<close>: the record \<open>esp_mqtt_client\<close> and the functions of the client.
    \<open>Mqtt_Client_Config\<close> and \<open>Mqtt5_Client_Config\<close>: the URI of the broker and the MQTT 5 configuration.
    \<open>Mqtt_Client_Receive\<close> shows that receiving follows the byte stream, \<open>Mqtt_Client_Send\<close> that a
    publish puts one packet on the wire and in the outbox, \<open>Mqtt_Client_Frame\<close> and \<open>Mqtt_Client_Inv\<close> the
    invariant of every reachable client, \<open>Mqtt_Client_Flow\<close> that an MQTT 5 connection keeps no more publishes under
    way than the Receive Maximum of the broker, \<open>Mqtt_Client_Requeue\<close> what a new connection does with old messages,
    \<open>Mqtt_Client_Results\<close> the results of the calls and when exactly the outbox limit refuses one.
  \<^item> \<open>Emqtt_Contract\<close> and \<open>Emqtt_Contract_Props\<close>: the contract layer against reference definitions (UTF-8 as an
    encoding, topics as levels, reassembly as concatenation).
  \<^item> \<open>Emqtt_Runtime\<close>: the runtime. \<open>Rtos_Queue\<close>: the interface \<open>rtos_queue\<close> to FreeRTOS, and the ring buffer of the
    host tests as its implementation. \<open>Emqtt_Runtime_Inv\<close> (with \<open>runtime_queues\<close>, two such queues),
    \<open>Emqtt_Runtime_Calls\<close> and \<open>Emqtt_Runtime_Props\<close>: the invariant under any interleaving of events and calls,
    delivery in order, failing closed, subscriptions and their deadlines.
  \<^item> \<open>Client_Runtime\<close> spans both halves: the bytes of a PUBLISH on the wire, the events of the
    client and the inbox of the runtime.

  \<^bold>\<open>How the code is represented.\<close> A function of the source is a function of the state it works on. Results are
  in \<open>option\<close>: \<open>None\<close> is an access outside an object, or that the function does not return, so a statement that
  something equals \<open>Some\<close> is one of memory safety and termination. Errors are values of \<open>esp_err\<close>,
  or the integers of the source. Words have their width where the
  code relies on it or overflow matters (packet identifiers, counters, ticks, sizes that wrap around), other sizes are natural
  numbers, since buffers are far below \<open>2 ^ 31\<close> bytes. A pointer is an offset, an address or the string it leads
  to; where the code can keep a pointer to freed memory this is a value of its own (\<open>heap_str\<close>).
  What the client calls and the repository does not hold are answers planned in its state: \<open>rx_plan\<close>, \<open>tx_plan\<close>,
  \<open>connect_plan\<close>, \<open>poll_plan\<close> for the transport, with \<open>wire\<close> and \<open>sent\<close> as the byte
  streams, \<open>allocs\<close> for the heap, \<open>delays\<close> for the clock. The theorems hold for all plans, or for those they
  name (\<open>willing\<close>: every write takes a byte; \<open>supplied\<close>: enough bytes come). A URL parser, queues and SDK calls are arguments.

  \<^bold>\<open>Loops.\<close> Loops whose end is clear are \<open>fun\<close> or \<open>function\<close> with a measure. The search for a random
  identifier takes its numbers from a list, and \<open>None\<close> is that all of them were zero. The loops over a block of MQTT 5 properties with a 16-bit position, over a long payload, over
  CONNACK and over transmitted messages are \<open>partial_function (option)\<close>, because each of them can go on for ever
  for some input; that they return is proved where it holds (\<open>connack_parser_returns\<close>,
  \<open>publish_on_the_wire\<close>, \<open>requeue_transmitted\<close>), and lemmas show inputs with which two of them do not
  (\<open>publish_parser_diverges\<close>, \<open>requeue_diverges\<close>). There is no fuel. The task is one
  iteration of its loop; what it does over time is the relation \<open>client_step\<close> and its reachable states, and in the same way
  \<open>runtime_reachable\<close> for the runtime. Bounds are those of the code: 4096 bytes of payload, 256 of a topic, 16 notices, three slots.

  \<^bold>\<open>Not modelled.\<close> \<open>esp_mqtt_set_config\<close>, \<open>esp_mqtt_client_init\<close> and the functions that destroy a client: they copy
  a configuration, most of which is TLS material for the transport, and release memory. The TLS settings of
  a transport and the registration of event handlers, which only call into ESP-IDF. The transport itself, FreeRTOS,
  mbedTLS. Event handlers that call back into the client. Logging. Preemption inside a function: the client's functions run under its
  lock, and the two sides of the runtime share only queues, a lock and an atomic flag. The examples (with
  an alternative outbox), tests, scripts and documents of the repository.
\<close>

end
